(* ===== verification/Prelude.thy ===== *)
theory Prelude
  imports Main "HOL-Library.AList" "HOL-Library.Char_ord" "HOL-Library.List_Lexorder"
    "HOL-Library.Multiset" "HOL-Library.Sublist"
begin

text \<open>
  The vocabulary every component shares. Go strings are byte strings (\<open>string\<close>); Go maps are
  association lists whose order is the iteration order of the map at that moment, read with
  \<open>map_of\<close>; instants are integers in nanoseconds and durations are signed 64-bit
  nanosecond counts. The functions of the Go standard library the program calls on
  strings and sorted slices are modelled here, once. Letter case and white space are the
  ASCII ones: on strings with bytes from 0x80 up, Go's Unicode tables would also apply.
\<close>

named_theorems go_simps \<open>equations of the library model that evaluate\<close>

subsection \<open>Strings\<close>

definition lower_char :: "char \<Rightarrow> char" where
  "lower_char c = (let n = (of_char c :: nat) in if 65 \<le> n \<and> n \<le> 90 then char_of (n + 32) else c)"

definition upper_char :: "char \<Rightarrow> char" where
  "upper_char c = (let n = (of_char c :: nat) in if 97 \<le> n \<and> n \<le> 122 then char_of (n - 32) else c)"

definition to_lower :: "string \<Rightarrow> string" where
  "to_lower s = map lower_char s"

definition to_upper :: "string \<Rightarrow> string" where
  "to_upper s = map upper_char s"

text \<open>\<open>strings.EqualFold\<close>.\<close>

definition equal_fold :: "string \<Rightarrow> string \<Rightarrow> bool" where
  "equal_fold s t \<longleftrightarrow> to_lower s = to_lower t"

definition is_space :: "char \<Rightarrow> bool" where
  "is_space c \<longleftrightarrow> (let n = (of_char c :: nat) in n = 32 \<or> (9 \<le> n \<and> n \<le> 13))"

definition drop_end_while :: "('a \<Rightarrow> bool) \<Rightarrow> 'a list \<Rightarrow> 'a list" where
  "drop_end_while P s = rev (dropWhile P (rev s))"

text \<open>\<open>strings.TrimSpace\<close>.\<close>

definition trim_space :: "string \<Rightarrow> string" where
  "trim_space s = drop_end_while is_space (dropWhile is_space s)"

definition trim_prefix :: "string \<Rightarrow> string \<Rightarrow> string" where
  "trim_prefix s p = (if prefix p s then drop (length p) s else s)"

definition trim_suffix :: "string \<Rightarrow> string \<Rightarrow> string" where
  "trim_suffix s p = (if suffix p s then take (length s - length p) s else s)"

text \<open>\<open>strings.Split\<close> with a one-byte separator, and \<open>strings.Join\<close>.\<close>

fun split_on :: "char \<Rightarrow> string \<Rightarrow> string list" where
  "split_on c [] = [[]]"
| "split_on c (x # xs) =
     (if x = c then [] # split_on c xs
      else (case split_on c xs of [] \<Rightarrow> [[x]] | w # ws \<Rightarrow> (x # w) # ws))"

fun join_with :: "string \<Rightarrow> string list \<Rightarrow> string" where
  "join_with sep [] = []"
| "join_with sep [w] = w"
| "join_with sep (w # v # ws) = w @ sep @ join_with sep (v # ws)"

text \<open>\<open>strings.Cut\<close> with a one-byte separator: before, after, found.\<close>

definition cut_at :: "char \<Rightarrow> string \<Rightarrow> string \<times> string \<times> bool" where
  "cut_at c s = (let b = takeWhile (\<lambda>x. x \<noteq> c) s in
     (b, drop (Suc (length b)) s, c \<in> set s))"

text \<open>Everything after the last occurrence of a byte (the whole string if there is none).\<close>

definition after_last :: "char \<Rightarrow> string \<Rightarrow> string" where
  "after_last c s = rev (takeWhile (\<lambda>x. x \<noteq> c) (rev s))"

definition contains_any :: "string \<Rightarrow> string \<Rightarrow> bool" where
  "contains_any s cs \<longleftrightarrow> (\<exists>c \<in> set s. c \<in> set cs)"

definition is_digit :: "char \<Rightarrow> bool" where
  "is_digit c \<longleftrightarrow> (let n = (of_char c :: nat) in 48 \<le> n \<and> n \<le> 57)"

definition is_letter :: "char \<Rightarrow> bool" where
  "is_letter c \<longleftrightarrow> (let n = (of_char c :: nat) in (65 \<le> n \<and> n \<le> 90) \<or> (97 \<le> n \<and> n \<le> 122))"

definition is_alnum :: "char \<Rightarrow> bool" where
  "is_alnum c \<longleftrightarrow> is_letter c \<or> is_digit c"

definition digit_val :: "char \<Rightarrow> nat" where
  "digit_val c = of_char c - 48"

fun dec_value :: "nat \<Rightarrow> string \<Rightarrow> nat" where
  "dec_value acc [] = acc"
| "dec_value acc (c # cs) = dec_value (acc * 10 + digit_val c) cs"

text \<open>\<open>strconv.Itoa\<close> on a natural number.\<close>

fun itoa :: "nat \<Rightarrow> string" where
  "itoa n = (if n < 10 then [char_of (n + 48)] else itoa (n div 10) @ [char_of (n mod 10 + 48)])"

declare itoa.simps [simp del]

subsection \<open>Signed 64-bit arithmetic and time\<close>

type_synonym instant = int
type_synonym duration = int

definition max_i64 :: int where
  "max_i64 = 9223372036854775807"

definition min_i64 :: int where
  "min_i64 = - 9223372036854775808"

text \<open>Two's complement wrap-around of an int64 operation.\<close>

definition wrap64 :: "int \<Rightarrow> int" where
  "wrap64 x = (x + 9223372036854775808) mod 18446744073709551616 - 9223372036854775808"

text \<open>\<open>t.Sub(u)\<close> saturates to the range of a duration.\<close>

definition time_sub :: "instant \<Rightarrow> instant \<Rightarrow> duration" where
  "time_sub t u = max min_i64 (min max_i64 (t - u))"

definition time_second :: duration where
  "time_second = 1000000000"

definition time_minute :: duration where
  "time_minute = 60000000000"

text \<open>
  \<open>strconv.Atoi\<close>: an optional sign and decimal digits; out of range the value is clamped (and
  an error returned), a syntax error returns 0 and an error.
\<close>

definition atoi :: "string \<Rightarrow> int \<times> bool" where
  "atoi s = (let neg = (case s of c # _ \<Rightarrow> c = CHR ''-'' | [] \<Rightarrow> False);
                 ds = (case s of c # cs \<Rightarrow> if c = CHR ''-'' \<or> c = CHR ''+'' then cs else s | [] \<Rightarrow> []);
                 v = int (dec_value 0 ds)
             in if ds = [] \<or> \<not> list_all is_digit ds then (0, False)
                else if neg then (if v > max_i64 + 1 then (min_i64, False) else (- v, True))
                else if v > max_i64 then (max_i64, False) else (v, True))"

lemma wrap64_id: "min_i64 \<le> x \<Longrightarrow> x \<le> max_i64 \<Longrightarrow> wrap64 x = x"
  by (simp add: wrap64_def min_i64_def max_i64_def)

lemma wrap64_range: "min_i64 \<le> wrap64 x \<and> wrap64 x \<le> max_i64"
proof -
  have "0 \<le> (x + 9223372036854775808) mod 18446744073709551616"
    and "(x + 9223372036854775808) mod 18446744073709551616 < 18446744073709551616"
    by simp_all
  then show ?thesis by (simp add: wrap64_def min_i64_def max_i64_def)
qed

subsection \<open>Lemmas on strings\<close>

lemma split_on_ne [simp]: "split_on c s \<noteq> []"
  by (cases s) (auto split: list.splits)

lemma split_on_no_sep: "c \<notin> set s \<Longrightarrow> split_on c s = [s]"
  by (induction s) auto

lemma split_on_Cons_ne:
  "x \<noteq> c \<Longrightarrow> split_on c (x # xs) = (x # hd (split_on c xs)) # tl (split_on c xs)"
  by (cases "split_on c xs") auto

lemma split_on_elem: "w \<in> set (split_on c s) \<Longrightarrow> c \<notin> set w"
proof (induction s arbitrary: w)
  case (Cons x xs)
  then show ?case
    by (cases "split_on c xs") (auto split: if_splits)
qed simp

lemma join_split: "join_with [c] (split_on c s) = s"
proof (induction s)
  case (Cons x xs)
  show ?case
  proof (cases "split_on c xs")
    case (Cons w ws)
    with Cons.IH show ?thesis by (cases ws) auto
  qed simp
qed simp

lemma length_split_on: "length (split_on c s) = Suc (count_list s c)"
proof (induction s)
  case (Cons x xs)
  then show ?case by (cases "split_on c xs") auto
qed simp

lemma lower_char_idem [simp]: "lower_char (lower_char c) = lower_char c"
proof -
  have "65 \<le> (of_char c :: nat) \<Longrightarrow> (of_char c :: nat) \<le> 90 \<Longrightarrow>
      (of_char (char_of (of_char c + 32 :: nat) :: char) :: nat) = of_char c + 32"
    by (simp add: of_char_of)
  then show ?thesis by (auto simp: lower_char_def Let_def)
qed

lemma to_lower_idem [simp]: "to_lower (to_lower s) = to_lower s"
  by (simp add: to_lower_def comp_def)

lemma to_lower_append [simp]: "to_lower (s @ t) = to_lower s @ to_lower t"
  by (simp add: to_lower_def)

lemma to_lower_Cons [simp]: "to_lower (c # s) = lower_char c # to_lower s"
  by (simp add: to_lower_def)

lemma to_lower_Nil [simp]: "to_lower [] = []"
  by (simp add: to_lower_def)

lemma to_lower_eq_Nil [simp]: "to_lower s = [] \<longleftrightarrow> s = []"
  by (simp add: to_lower_def)

lemma length_to_lower [simp]: "length (to_lower s) = length s"
  by (simp add: to_lower_def)

text \<open>Lower-casing neither makes nor moves a byte that is not a letter.\<close>

lemma lower_char_eq_nonletter:
  assumes "\<not> is_letter d"
  shows "lower_char c = d \<longleftrightarrow> c = d"
proof -
  have 1: "lower_char c = c \<or> (97 \<le> (of_char (lower_char c) :: nat) \<and> (of_char (lower_char c) :: nat) \<le> 122
      \<and> 65 \<le> (of_char c :: nat) \<and> (of_char c :: nat) \<le> 90)"
    by (auto simp: lower_char_def Let_def of_char_of)
  show ?thesis
  proof
    assume l: "lower_char c = d"
    with 1 assms show "c = d" by (auto simp: is_letter_def Let_def)
  next
    assume "c = d"
    with 1 assms show "lower_char c = d" by (auto simp: is_letter_def Let_def)
  qed
qed

lemma drop_end_while_append:
  "ys \<noteq> [] \<Longrightarrow> \<not> P (last ys) \<Longrightarrow> drop_end_while P (xs @ ys) = xs @ ys"
  by (cases ys rule: rev_cases) (auto simp: drop_end_while_def)

lemma drop_end_while_id:
  "(s = [] \<or> \<not> P (last s)) \<Longrightarrow> drop_end_while P s = s"
  by (cases s rule: rev_cases) (auto simp: drop_end_while_def)

lemma dropWhile_id: "(s = [] \<or> \<not> P (hd s)) \<Longrightarrow> dropWhile P s = s"
  by (cases s) auto

lemma trim_space_id:
  assumes "\<forall>c \<in> set s. \<not> is_space c"
  shows "trim_space s = s"
proof -
  have "dropWhile is_space s = s" using assms by (cases s) auto
  moreover have "drop_end_while is_space s = s"
    using assms by (intro drop_end_while_id) (cases s rule: rev_cases, auto)
  ultimately show ?thesis by (simp add: trim_space_def)
qed

lemma set_drop_end_while: "set (drop_end_while P s) \<subseteq> set s"
  by (auto simp: drop_end_while_def dest: set_dropWhileD)

lemma set_trim_space: "set (trim_space s) \<subseteq> set s"
  by (auto simp: trim_space_def dest: set_mp [OF set_drop_end_while] set_dropWhileD)

lemma set_trim_prefix: "set (trim_prefix s p) \<subseteq> set s"
  by (auto simp: trim_prefix_def dest: in_set_dropD)

lemma set_trim_suffix: "set (trim_suffix s p) \<subseteq> set s"
  by (auto simp: trim_suffix_def dest: in_set_takeD)

subsection \<open>Maps as association lists\<close>

abbreviation gomap_ok :: "('k \<times> 'v) list \<Rightarrow> bool" where
  "gomap_ok m \<equiv> distinct (map fst m)"

lemma gomap_ok_update [simp, intro]: "gomap_ok m \<Longrightarrow> gomap_ok (AList.update k v m)"
  by (rule distinct_update)

lemma gomap_ok_delete [simp, intro]: "gomap_ok m \<Longrightarrow> gomap_ok (AList.delete k m)"
  by (rule distinct_delete)

lemma map_of_update [simp]: "map_of (AList.update k v m) = (map_of m)(k \<mapsto> v)"
  by (rule update_conv')

lemma map_of_delete [simp]: "map_of (AList.delete k m) = (map_of m)(k := None)"
  by (rule delete_conv')

lemma set_alist_update: "set (AList.update k v m) \<subseteq> insert (k, v) (set m)"
  by (induction m) auto

subsection \<open>Sorting with a comparison\<close>

text \<open>
  \<open>sort.SliceStable\<close>, and \<open>sort.Slice\<close> and \<open>sort.Strings\<close> where ties are equal elements.
\<close>

fun insert_by :: "('a \<Rightarrow> 'a \<Rightarrow> bool) \<Rightarrow> 'a \<Rightarrow> 'a list \<Rightarrow> 'a list" where
  "insert_by lt x [] = [x]"
| "insert_by lt x (y # ys) = (if lt y x then y # insert_by lt x ys else x # y # ys)"

definition sort_by :: "('a \<Rightarrow> 'a \<Rightarrow> bool) \<Rightarrow> 'a list \<Rightarrow> 'a list" where
  "sort_by lt xs = foldr (insert_by lt) xs []"

lemma sort_by_simps [simp]:
  "sort_by lt [] = []"
  "sort_by lt (x # xs) = insert_by lt x (sort_by lt xs)"
  by (simp_all add: sort_by_def)

lemma mset_insert_by [simp]: "mset (insert_by lt x ys) = add_mset x (mset ys)"
  by (induction ys) auto

lemma mset_sort_by [simp]: "mset (sort_by lt xs) = mset xs"
  by (induction xs) auto

lemma set_sort_by [simp]: "set (sort_by lt xs) = set xs"
  by (metis mset_sort_by set_mset_mset)

lemma length_sort_by [simp]: "length (sort_by lt xs) = length xs"
  by (metis mset_sort_by size_mset)

lemma distinct_sort_by [simp]: "distinct (sort_by lt xs) = distinct xs"
  by (metis mset_sort_by mset_eq_imp_distinct_iff)

text \<open>A comparison Go's sort accepts: a strict weak order.\<close>

locale go_less =
  fixes lt :: "'a \<Rightarrow> 'a \<Rightarrow> bool"
  assumes irrefl: "\<not> lt x x"
    and trans: "lt x y \<Longrightarrow> lt y z \<Longrightarrow> lt x z"
    and neg_trans: "lt x z \<Longrightarrow> lt x y \<or> lt y z"
begin

lemma asym: "lt x y \<Longrightarrow> \<not> lt y x"
  using irrefl trans by blast

lemma set_insert_by: "set (insert_by lt x ys) = insert x (set ys)"
  by (induction ys) auto

lemma sorted_insert_by:
  "sorted_wrt (\<lambda>a b. \<not> lt b a) ys \<Longrightarrow> sorted_wrt (\<lambda>a b. \<not> lt b a) (insert_by lt x ys)"
proof (induction ys)
  case (Cons y ys)
  show ?case
  proof (cases "lt y x")
    case True
    with Cons asym show ?thesis by (auto simp: set_insert_by)
  next
    case False
    have "\<not> lt z x" if "z \<in> set ys" for z
      using Cons.prems that False neg_trans by (meson list.set_intros(1) sorted_wrt.simps(2))
    with Cons.prems False show ?thesis by auto
  qed
qed simp

lemma sorted_sort_by: "sorted_wrt (\<lambda>a b. \<not> lt b a) (sort_by lt xs)"
  by (induction xs) (auto intro: sorted_insert_by)

lemma filter_insert_by:
  assumes "\<And>a b. P a \<Longrightarrow> P b \<Longrightarrow> \<not> lt a b"
  shows "filter P (insert_by lt x ys) = (if P x then x # filter P ys else filter P ys)"
proof (induction ys)
  case (Cons y ys)
  then show ?case using assms by (cases "P y"; cases "P x") auto
qed simp

text \<open>Stability: elements that compare equal keep their order.\<close>

lemma stable_sort_by:
  assumes "\<And>a b. P a \<Longrightarrow> P b \<Longrightarrow> \<not> lt a b"
  shows "filter P (sort_by lt xs) = filter P xs"
  by (induction xs) (auto simp: filter_insert_by [OF assms])

end

text \<open>A total comparison: the sorted list does not depend on the input order.\<close>

locale go_total_less = go_less +
  assumes total: "x \<noteq> y \<Longrightarrow> lt x y \<or> lt y x"
begin

text \<open>Two sorted arrangements of the same elements are equal.\<close>

lemma sorted_unique:
  "sorted_wrt (\<lambda>a b. \<not> lt b a) xs \<Longrightarrow> sorted_wrt (\<lambda>a b. \<not> lt b a) ys \<Longrightarrow> mset xs = mset ys \<Longrightarrow> xs = ys"
proof (induction xs arbitrary: ys)
  case (Cons x xs)
  from Cons.prems(3) obtain y ys' where ys: "ys = y # ys'" by (cases ys) auto
  have "x \<in> set ys" "y \<in> set (x # xs)"
    using Cons.prems(3) ys by (metis list.set_intros(1) mset_eq_setD)+
  then have "\<not> lt y x \<or> x = y" "\<not> lt x y \<or> x = y"
    using Cons.prems(1,2) ys by auto
  then have "\<not> lt y x \<and> \<not> lt x y \<or> x = y" by blast
  then have xy: "x = y" using total by blast
  with Cons ys show ?case by auto
qed simp

lemma sorted_strict: "sorted_wrt (\<lambda>a b. \<not> lt b a) xs \<Longrightarrow> distinct xs \<Longrightarrow> sorted_wrt lt xs"
proof (induction xs)
  case (Cons x xs)
  have "lt x y" if "y \<in> set xs" for y
    using Cons.prems that total by (metis distinct.simps(2) sorted_wrt.simps(2))
  with Cons show ?case by simp
qed simp

lemma strict_sorted_sort_by: "distinct xs \<Longrightarrow> sorted_wrt lt (sort_by lt xs)"
  by (rule sorted_strict) (simp_all add: sorted_sort_by)

lemma sort_by_perm: "mset xs = mset ys \<Longrightarrow> sort_by lt xs = sort_by lt ys"
  by (rule sorted_unique) (simp_all add: sorted_sort_by)

end

text \<open>
  A scan over the keys of a map in iteration order that keeps the least key accepted by \<open>P\<close>
  so far: the code's \<open>best, found\<close> loop.
\<close>

fun scan_least :: "('a \<Rightarrow> 'a \<Rightarrow> bool) \<Rightarrow> ('a \<Rightarrow> bool) \<Rightarrow> 'a list \<Rightarrow> 'a option \<Rightarrow> 'a option" where
  "scan_least lt P [] best = best"
| "scan_least lt P (k # ks) best =
     scan_least lt P ks (if P k \<and> (case best of None \<Rightarrow> True | Some b \<Rightarrow> lt k b) then Some k else best)"

context go_total_less
begin

lemma scan_least_acc:
  "scan_least lt P ks (Some b) = Some k \<Longrightarrow>
     (k = b \<or> k \<in> set ks \<and> P k) \<and> \<not> lt b k \<and> (\<forall>j \<in> set ks. P j \<longrightarrow> \<not> lt j k)"
proof (induction ks arbitrary: b)
  case (Cons a ks)
  show ?case
  proof (cases "P a \<and> lt a b")
    case True
    with Cons.prems have "scan_least lt P ks (Some a) = Some k" by simp
    from Cons.IH [OF this] have ih: "k = a \<or> k \<in> set ks \<and> P k" "\<not> lt a k"
      "\<forall>j \<in> set ks. P j \<longrightarrow> \<not> lt j k" by auto
    with True have "\<not> lt b k" using trans by blast
    with ih True show ?thesis by auto
  next
    case False
    with Cons.prems have "scan_least lt P ks (Some b) = Some k" by (simp split: if_splits)
    from Cons.IH [OF this] have ih: "k = b \<or> k \<in> set ks \<and> P k" "\<not> lt b k"
      "\<forall>j \<in> set ks. P j \<longrightarrow> \<not> lt j k" by auto
    with False have "P a \<longrightarrow> \<not> lt a k" using neg_trans by blast
    with ih show ?thesis by auto
  qed
qed (auto simp: irrefl)

lemma scan_least_acc_None: "scan_least lt P ks (Some b) \<noteq> None"
  by (induction ks arbitrary: b) auto

lemma scan_least_None: "scan_least lt P ks None = None \<longleftrightarrow> (\<forall>k \<in> set ks. \<not> P k)"
proof (induction ks)
  case (Cons a ks)
  then show ?case using scan_least_acc_None [of P ks a] by (cases "P a") auto
qed simp

lemma scan_least_Some:
  assumes "scan_least lt P ks None = Some k"
  shows "k \<in> set ks \<and> P k \<and> (\<forall>j \<in> set ks. P j \<longrightarrow> \<not> lt j k)"
  using assms
proof (induction ks)
  case (Cons a ks)
  show ?case
  proof (cases "P a")
    case True
    with Cons.prems have "scan_least lt P ks (Some a) = Some k" by simp
    from scan_least_acc [OF this] True show ?thesis by auto
  next
    case False
    with Cons show ?thesis by auto
  qed
qed simp

lemma scan_least_set_cong:
  assumes "set ks = set ks'"
  shows "scan_least lt P ks None = scan_least lt P ks' None"
proof (cases "scan_least lt P ks None")
  case None
  then show ?thesis using assms scan_least_None by metis
next
  case (Some k)
  then have "scan_least lt P ks' None \<noteq> None"
    using assms scan_least_None [of P ks] scan_least_None [of P ks'] by force
  then obtain k' where k': "scan_least lt P ks' None = Some k'" by blast
  have "\<not> lt k k'" "\<not> lt k' k"
    using scan_least_Some [OF Some] scan_least_Some [OF k'] assms by auto
  then have "k = k'" using total by blast
  with Some k' show ?thesis by simp
qed

end

lemma go_total_less_linorder: "go_total_less ((<) :: 'a::linorder \<Rightarrow> 'a \<Rightarrow> bool)"
  by unfold_locales auto

interpretation str_order: go_total_less "(<) :: string \<Rightarrow> string \<Rightarrow> bool"
  by (rule go_total_less_linorder)

lemmas string_eval [go_simps] = is_alnum_def is_letter_def is_digit_def is_space_def lower_char_def upper_char_def
  trim_space_def drop_end_while_def trim_prefix_def trim_suffix_def cut_at_def after_last_def
  contains_any_def char_of_def bit_Suc_0_iff suffix_to_prefix

end
