(* ===== verification/Endpoint.thy ===== *)
theory Endpoint
  imports Prelude
begin

text \<open>
  internal/compose/endpoint.go and the data types of internal/compose/parser.go it uses: the
  protocol, path and TLS labels of an endpoint, the key of the Caddy matcher it produces and
  the validation of all endpoints of an app. Messages are constructors with the values the
  code formats into the text.
\<close>

record EndpointConfig =
  ep_domain :: string
  ep_port :: string
  ep_tls :: string
  ep_service :: string
  ep_protocol :: string
  ep_path :: string
  ep_index :: int

definition ProtocolHTTP :: string where "ProtocolHTTP = ''http''"
definition ProtocolH2C :: string where "ProtocolH2C = ''h2c''"
definition ProtocolGRPC :: string where "ProtocolGRPC = ''grpc''"

definition maxEndpointPathLen :: nat where "maxEndpointPathLen = 256"

definition endpointPathRe :: "string \<Rightarrow> bool" where
  "endpointPathRe p = (case p of [] \<Rightarrow> False
     | c # cs \<Rightarrow> c = CHR ''/'' \<and> list_all (\<lambda>x. is_alnum x \<or> x \<in> set ''._~%/*-'') cs)"

definition NormalizeProtocol :: "string \<Rightarrow> string" where
  "NormalizeProtocol p = to_lower (trim_space p)"

definition ValidProtocol :: "string \<Rightarrow> bool" where
  "ValidProtocol p \<longleftrightarrow> p = [] \<or> p = ProtocolHTTP \<or> p = ProtocolH2C \<or> p = ProtocolGRPC"

definition ValidPath :: "string \<Rightarrow> bool" where
  "ValidPath p \<longleftrightarrow> length p \<le> maxEndpointPathLen \<and> endpointPathRe p"

definition EffectiveTLS :: "string \<Rightarrow> string" where
  "EffectiveTLS t = (let t = to_lower (trim_space t) in
     if t = [] \<or> t = ''letsencrypt'' then ''auto'' else t)"

text \<open>\<open>EndpointRef\<close>: the service (if any) and the label index named in a message.\<close>

datatype endpoint_ref = LabelRef int | ServiceLabelRef string int

definition EndpointRef :: "EndpointConfig \<Rightarrow> endpoint_ref" where
  "EndpointRef ep = (if ep_service ep = [] then LabelRef (ep_index ep)
     else ServiceLabelRef (ep_service ep) (ep_index ep))"

definition EndpointMatchKey :: "EndpointConfig \<Rightarrow> string" where
  "EndpointMatchKey ep = ep_domain ep @ ''|grpc='' @
     (if ep_protocol ep = ProtocolGRPC then ''true'' else ''false'') @ ''|'' @ ep_path ep"

datatype endpoint_violation =
    InvalidProtocol endpoint_ref string string
  | InvalidPath endpoint_ref string string
  | DuplicateMatcher endpoint_ref string endpoint_ref
  | TLSConflict endpoint_ref string string string endpoint_ref

text \<open>The loop of \<open>ValidateEndpoints\<close>: \<open>seen\<close> and \<open>domainTLS\<close> are its two maps.\<close>

fun validate_endpoints_loop ::
  "(string \<rightharpoonup> EndpointConfig) \<Rightarrow> (string \<rightharpoonup> EndpointConfig) \<Rightarrow> EndpointConfig list \<Rightarrow> endpoint_violation list" where
  "validate_endpoints_loop seen domainTLS [] = []"
| "validate_endpoints_loop seen domainTLS (ep # eps) =
     (let ref = EndpointRef ep; d = ep_domain ep in
      if \<not> ValidProtocol (ep_protocol ep) then
        InvalidProtocol ref d (ep_protocol ep) # validate_endpoints_loop seen domainTLS eps
      else if ep_path ep \<noteq> [] \<and> \<not> ValidPath (ep_path ep) then
        InvalidPath ref d (ep_path ep) # validate_endpoints_loop seen domainTLS eps
      else let key = EndpointMatchKey ep in
        case seen key of
          Some first \<Rightarrow> DuplicateMatcher ref d (EndpointRef first) # validate_endpoints_loop seen domainTLS eps
        | None \<Rightarrow>
            (let seen = seen(key \<mapsto> ep) in
             case domainTLS d of
               Some first \<Rightarrow>
                 (if EffectiveTLS (ep_tls ep) \<noteq> EffectiveTLS (ep_tls first)
                  then [TLSConflict ref d (EffectiveTLS (ep_tls ep)) (EffectiveTLS (ep_tls first)) (EndpointRef first)]
                  else []) @ validate_endpoints_loop seen domainTLS eps
             | None \<Rightarrow> validate_endpoints_loop seen (domainTLS(d \<mapsto> ep)) eps))"

definition ValidateEndpoints :: "EndpointConfig list \<Rightarrow> endpoint_violation list" where
  "ValidateEndpoints eps = validate_endpoints_loop Map.empty Map.empty eps"

subsection \<open>What an accepted list of endpoints is\<close>

definition endpoint_ok :: "EndpointConfig \<Rightarrow> bool" where
  "endpoint_ok ep \<longleftrightarrow> ValidProtocol (ep_protocol ep) \<and> (ep_path ep = [] \<or> ValidPath (ep_path ep))"

definition endpoints_spec :: "EndpointConfig list \<Rightarrow> bool" where
  "endpoints_spec eps \<longleftrightarrow>
     list_all endpoint_ok eps \<and> distinct (map EndpointMatchKey eps) \<and>
     (\<forall>a \<in> set eps. \<forall>b \<in> set eps. ep_domain a = ep_domain b \<longrightarrow> EffectiveTLS (ep_tls a) = EffectiveTLS (ep_tls b))"

text \<open>The two maps of the loop, and the endpoints of a list among themselves, agree on TLS.\<close>

definition tls_with_map :: "(string \<rightharpoonup> EndpointConfig) \<Rightarrow> EndpointConfig list \<Rightarrow> bool" where
  "tls_with_map dt eps \<longleftrightarrow>
     (\<forall>a \<in> set eps. \<forall>f. dt (ep_domain a) = Some f \<longrightarrow> EffectiveTLS (ep_tls a) = EffectiveTLS (ep_tls f))"

definition tls_pairwise :: "EndpointConfig list \<Rightarrow> bool" where
  "tls_pairwise eps \<longleftrightarrow>
     (\<forall>a \<in> set eps. \<forall>b \<in> set eps. ep_domain a = ep_domain b \<longrightarrow> EffectiveTLS (ep_tls a) = EffectiveTLS (ep_tls b))"

definition tls_with :: "EndpointConfig \<Rightarrow> EndpointConfig list \<Rightarrow> bool" where
  "tls_with ep eps \<longleftrightarrow>
     (\<forall>a \<in> set eps. ep_domain a = ep_domain ep \<longrightarrow> EffectiveTLS (ep_tls a) = EffectiveTLS (ep_tls ep))"

lemma tls_pairwise_Cons: "tls_pairwise (ep # eps) \<longleftrightarrow> tls_with ep eps \<and> tls_pairwise eps"
proof
  assume "tls_pairwise (ep # eps)"
  then show "tls_with ep eps \<and> tls_pairwise eps"
    unfolding tls_pairwise_def tls_with_def by (meson list.set_intros)
next
  assume a: "tls_with ep eps \<and> tls_pairwise eps"
  show "tls_pairwise (ep # eps)"
    unfolding tls_pairwise_def
  proof (intro ballI impI)
    fix x y assume xy: "x \<in> set (ep # eps)" "y \<in> set (ep # eps)" "ep_domain x = ep_domain y"
    consider "x = ep" "y = ep" | "x = ep" "y \<in> set eps" | "x \<in> set eps" "y = ep" | "x \<in> set eps" "y \<in> set eps"
      using xy by auto
    then show "EffectiveTLS (ep_tls x) = EffectiveTLS (ep_tls y)"
      using a xy(3) unfolding tls_pairwise_def tls_with_def by cases metis+
  qed
qed

lemma tls_with_map_Cons_None:
  "dt (ep_domain ep) = None \<Longrightarrow>
     tls_with_map dt (ep # eps) \<and> tls_with ep eps \<longleftrightarrow> tls_with_map (dt(ep_domain ep \<mapsto> ep)) eps"
  by (auto simp: tls_with_map_def tls_with_def split: if_splits)

lemma tls_with_map_Cons_Some:
  "dt (ep_domain ep) = Some f \<Longrightarrow>
     tls_with_map dt (ep # eps) \<longleftrightarrow> EffectiveTLS (ep_tls ep) = EffectiveTLS (ep_tls f) \<and> tls_with_map dt eps"
  unfolding tls_with_map_def by auto

lemma tls_with_map_tls_with:
  "dt (ep_domain ep) = Some f \<Longrightarrow> EffectiveTLS (ep_tls ep) = EffectiveTLS (ep_tls f) \<Longrightarrow>
     tls_with_map dt eps \<Longrightarrow> tls_with ep eps"
  unfolding tls_with_map_def tls_with_def by auto

lemma validate_endpoints_loop_Nil:
  "validate_endpoints_loop seen dt eps = [] \<longleftrightarrow>
     list_all endpoint_ok eps \<and> distinct (map EndpointMatchKey eps) \<and>
     (\<forall>ep \<in> set eps. EndpointMatchKey ep \<notin> dom seen) \<and> tls_with_map dt eps \<and> tls_pairwise eps"
proof (induction eps arbitrary: seen dt)
  case Nil
  then show ?case by (simp add: tls_with_map_def tls_pairwise_def)
next
  case (Cons ep eps)
  show ?case
  proof (cases "endpoint_ok ep \<and> EndpointMatchKey ep \<notin> dom seen")
    case False
    then show ?thesis
      by (auto simp: endpoint_ok_def Let_def split: if_splits option.splits)
  next
    case True
    then have ok: "ValidProtocol (ep_protocol ep)" "\<not> (ep_path ep \<noteq> [] \<and> \<not> ValidPath (ep_path ep))"
      "seen (EndpointMatchKey ep) = None" by (auto simp: endpoint_ok_def)
    have keys: "distinct (map EndpointMatchKey (ep # eps)) \<and> (\<forall>e \<in> set (ep # eps). EndpointMatchKey e \<notin> dom seen)
      \<longleftrightarrow> distinct (map EndpointMatchKey eps) \<and> (\<forall>e \<in> set eps. EndpointMatchKey e \<notin> dom (seen(EndpointMatchKey ep \<mapsto> ep)))"
      using True by (auto intro: image_eqI [OF sym])
    show ?thesis
    proof (cases "dt (ep_domain ep)")
      case None
      then have "validate_endpoints_loop seen dt (ep # eps) =
          validate_endpoints_loop (seen(EndpointMatchKey ep \<mapsto> ep)) (dt(ep_domain ep \<mapsto> ep)) eps"
        using ok by (auto simp: Let_def)
      then show ?thesis
        using True keys tls_with_map_Cons_None [of dt ep eps] None
        by (simp only: Cons.IH tls_pairwise_Cons list.pred_inject(2)) blast
    next
      case (Some f)
      then have "validate_endpoints_loop seen dt (ep # eps) = [] \<longleftrightarrow>
          EffectiveTLS (ep_tls ep) = EffectiveTLS (ep_tls f) \<and>
          validate_endpoints_loop (seen(EndpointMatchKey ep \<mapsto> ep)) dt eps = []"
        using ok by (auto simp: Let_def)
      then show ?thesis
        using True keys tls_with_map_Cons_Some [of dt ep f eps] tls_with_map_tls_with [of dt ep f eps] Some
        by (simp only: Cons.IH tls_pairwise_Cons list.pred_inject(2)) blast
    qed
  qed
qed

lemma ValidateEndpoints_iff: "ValidateEndpoints eps = [] \<longleftrightarrow> endpoints_spec eps"
  by (simp add: ValidateEndpoints_def validate_endpoints_loop_Nil endpoints_spec_def tls_pairwise_def
      tls_with_map_def)

lemma EffectiveTLS_auto: "EffectiveTLS [] = ''auto''" "EffectiveTLS ''auto'' = ''auto''"
  by (simp_all add: EffectiveTLS_def trim_space_def drop_end_while_def is_space_def lower_char_def)

text \<open>
  \<open>ValidateEndpoints\<close> accepts exactly the endpoint lists that meet the specification:
  every protocol and path is valid, no two endpoints produce the same matcher, and the endpoints
  of one domain agree on the effective TLS mode.
\<close>

theorem ValidateEndpoints_accepts: "ValidateEndpoints eps = [] \<longleftrightarrow> endpoints_spec eps"
  by (rule ValidateEndpoints_iff)

end
