(* ===== verification/ComposeModel.thy ===== *)
theory ComposeModel
  imports Endpoint
begin

text \<open>
  The data of a parsed compose file. The first group are the fields the program reads of the
  compose-go library's structs (code that is not part of this repository, so these records are
  only the shape of its values); the second group are the structs of
  internal/compose/parser.go, with the label extraction that fills them.
\<close>

subsection \<open>compose-go values\<close>

record VolumeMountSpec =
  vs_type :: string
  vs_source :: string
  vs_target :: string
  vs_readonly :: bool

record ContainerSpec =
  c_privileged :: bool
  c_use_api_socket :: bool
  c_network_mode :: string
  c_pid :: string
  c_ipc :: string
  c_uts :: string
  c_userns_mode :: string
  c_cgroup :: string
  c_cap_add :: "string list"
  c_security_opt :: "string list"
  c_devices :: "string list"
  c_device_cgroup_rules :: "string list"
  c_volumes_from :: "string list"
  c_volumes :: "VolumeMountSpec list"
  c_env_files :: "string list"
  c_label_files :: "string list"

record BuildConfig =
  b_context :: string
  b_dockerfile :: string
  b_dockerfile_inline :: string
  b_additional_contexts :: "(string \<times> string) list"
  b_ssh_paths :: "string list"
  b_network :: string
  b_privileged :: bool
  b_entitlements :: "string list"

record PortSpec =
  ps_published :: string
  ps_target :: nat
  ps_protocol :: string

record ServiceSpec =
  s_container :: ContainerSpec
  s_image :: string
  s_restart :: string
  s_labels :: "(string \<times> string) list"
  s_depends_on :: "string list"
  s_environment :: "(string \<times> string option) list"
  s_ports :: "PortSpec list"
  s_deploy_mode :: "string option"
  s_post_start_privileged :: "bool list"
  s_pre_stop_privileged :: "bool list"
  s_has_provider :: bool
  s_build :: "BuildConfig option"
  s_pre_start :: "ContainerSpec list"

record JobSpec =
  j_container :: ContainerSpec
  j_build :: "BuildConfig option"

record VolumeConfig =
  v_name :: string
  v_driver :: string
  v_driver_opts :: "(string \<times> string) list"

record NetworkConfig =
  n_name :: string
  n_driver :: string

record FileObject =
  f_file :: string
  f_external :: bool

record Project =
  p_name :: string
  p_services :: "(string \<times> ServiceSpec) list"
  p_disabled :: "(string \<times> ServiceSpec) list"
  p_jobs :: "(string \<times> JobSpec) list"
  p_volumes :: "(string \<times> VolumeConfig) list"
  p_networks :: "(string \<times> NetworkConfig) list"
  p_secrets :: "(string \<times> FileObject) list"
  p_configs :: "(string \<times> FileObject) list"

subsection \<open>internal/compose/parser.go\<close>

record RateLimitLabels =
  rl_requests :: string
  rl_window :: string
  rl_by :: string
  rl_burst :: string

record PortMapping =
  pm_host :: string
  pm_container :: string
  pm_protocol :: string

record VolumeMount =
  vm_source :: string
  vm_target :: string
  vm_type :: string

record ServiceConfig =
  sc_name :: string
  sc_image :: string
  sc_ports :: "PortMapping list"
  sc_environment :: "(string \<times> string) list"
  sc_volumes :: "VolumeMount list"
  sc_restart :: string
  sc_labels :: "(string \<times> string) list"
  sc_depends_on :: "string list"
  sc_deploy_mode :: string

datatype fileRef = IncludeRef | ExtendsRef string

record LabelConfig =
  lc_backup_strategy :: string
  lc_backup_schedule :: string
  lc_backup_target :: string
  lc_backup_retention :: string
  lc_alert_cpu :: string
  lc_alert_memory :: string
  lc_registries :: string
  lc_access_allow :: string
  lc_ratelimit :: RateLimitLabels

record AppConfig =
  a_name :: string
  a_compose_path :: string
  a_endpoints :: "EndpointConfig list"
  a_labels :: LabelConfig
  a_services :: "ServiceConfig list"
  a_project :: "Project option"
  a_file_refs :: "fileRef list"

definition PrimaryDomain :: "AppConfig \<Rightarrow> string" where
  "PrimaryDomain a = (case a_endpoints a of ep # _ \<Rightarrow> ep_domain ep | [] \<Rightarrow> [])"

text \<open>A missing label reads as the empty string.\<close>

definition label :: "(string \<times> string) list \<Rightarrow> string \<Rightarrow> string" where
  "label m k = (case map_of m k of Some v \<Rightarrow> v | None \<Rightarrow> [])"

definition ExtractLabels :: "(string \<times> string) list \<Rightarrow> LabelConfig" where
  "ExtractLabels m = \<lparr>
     lc_backup_strategy = label m ''simpledeploy.backup.strategy'',
     lc_backup_schedule = label m ''simpledeploy.backup.schedule'',
     lc_backup_target = label m ''simpledeploy.backup.target'',
     lc_backup_retention = label m ''simpledeploy.backup.retention'',
     lc_alert_cpu = label m ''simpledeploy.alert.cpu'',
     lc_alert_memory = label m ''simpledeploy.alert.memory'',
     lc_registries = label m ''simpledeploy.registries'',
     lc_access_allow = label m ''simpledeploy.access.allow'',
     lc_ratelimit = \<lparr>
       rl_requests = label m ''simpledeploy.ratelimit.requests'',
       rl_window = label m ''simpledeploy.ratelimit.window'',
       rl_by = label m ''simpledeploy.ratelimit.by'',
       rl_burst = label m ''simpledeploy.ratelimit.burst''\<rparr>\<rparr>"

datatype ep_field = EDomain | EPort | ETLS | EProtocol | EPath

definition ep_field_of :: "string \<Rightarrow> ep_field option" where
  "ep_field_of s =
     (if s = ''domain'' then Some EDomain else if s = ''port'' then Some EPort
      else if s = ''tls'' then Some ETLS else if s = ''protocol'' then Some EProtocol
      else if s = ''path'' then Some EPath else None)"

text \<open>\<open>endpointLabelRe\<close> with \<open>strconv.Atoi\<close> on its first group.\<close>

definition endpointLabelRe :: "string \<Rightarrow> (int \<times> ep_field) option" where
  "endpointLabelRe k =
     (if \<not> prefix ''simpledeploy.endpoints.'' k then None
      else let (ds, f, dot) = cut_at CHR ''.'' (drop (length ''simpledeploy.endpoints.'') k) in
        if \<not> dot \<or> ds = [] \<or> \<not> list_all is_digit ds then None
        else map_option (Pair (fst (atoi ds))) (ep_field_of f))"

definition set_ep_field :: "ep_field \<Rightarrow> string \<Rightarrow> EndpointConfig \<Rightarrow> EndpointConfig" where
  "set_ep_field f v ep =
     (case f of
        EDomain \<Rightarrow> ep\<lparr>ep_domain := v\<rparr>
      | EPort \<Rightarrow> ep\<lparr>ep_port := v\<rparr>
      | ETLS \<Rightarrow> ep\<lparr>ep_tls := v\<rparr>
      | EProtocol \<Rightarrow> ep\<lparr>ep_protocol := NormalizeProtocol v\<rparr>
      | EPath \<Rightarrow> ep\<lparr>ep_path := trim_space v\<rparr>)"

definition new_endpoint :: "string \<Rightarrow> int \<Rightarrow> EndpointConfig" where
  "new_endpoint svc idx = \<lparr>ep_domain = [], ep_port = [], ep_tls = [], ep_service = svc,
     ep_protocol = [], ep_path = [], ep_index = idx\<rparr>"

fun endpoints_by_index ::
  "string \<Rightarrow> (string \<times> string) list \<Rightarrow> (int \<times> EndpointConfig) list \<Rightarrow> (int \<times> EndpointConfig) list" where
  "endpoints_by_index svc [] byIndex = byIndex"
| "endpoints_by_index svc ((k, v) # ls) byIndex =
     (case endpointLabelRe k of
        None \<Rightarrow> endpoints_by_index svc ls byIndex
      | Some (idx, f) \<Rightarrow>
          (let cur = (case map_of byIndex idx of Some e \<Rightarrow> e | None \<Rightarrow> new_endpoint svc idx)
           in endpoints_by_index svc ls (AList.update idx (set_ep_field f v cur) byIndex)))"

definition extractEndpoints :: "(string \<times> string) list \<Rightarrow> string \<Rightarrow> EndpointConfig list" where
  "extractEndpoints labels serviceName =
     (let byIndex = endpoints_by_index serviceName labels [];
          indices = sort_by (<) (map fst byIndex)
      in map (\<lambda>idx. the (map_of byIndex idx)) indices)"

definition convertService :: "string \<Rightarrow> ServiceSpec \<Rightarrow> ServiceConfig" where
  "convertService name svc = \<lparr>
     sc_name = name, sc_image = s_image svc,
     sc_ports = map (\<lambda>p. \<lparr>pm_host = ps_published p, pm_container = itoa (ps_target p),
                          pm_protocol = ps_protocol p\<rparr>) (s_ports svc),
     sc_environment = map (\<lambda>(k, v). (k, case v of Some x \<Rightarrow> x | None \<Rightarrow> [])) (s_environment svc),
     sc_volumes = map (\<lambda>v. \<lparr>vm_source = vs_source v, vm_target = vs_target v, vm_type = vs_type v\<rparr>)
       (c_volumes (s_container svc)),
     sc_restart = s_restart svc, sc_labels = s_labels svc, sc_depends_on = s_depends_on svc,
     sc_deploy_mode = (case s_deploy_mode svc of Some m \<Rightarrow> m | None \<Rightarrow> [])\<rparr>"

text \<open>The order \<open>ParseContent\<close> sorts endpoints by: domain, label index, service.\<close>

definition endpoint_less :: "EndpointConfig \<Rightarrow> EndpointConfig \<Rightarrow> bool" where
  "endpoint_less a b =
     (if ep_domain a \<noteq> ep_domain b then ep_domain a < ep_domain b
      else if ep_index a \<noteq> ep_index b then ep_index a < ep_index b
      else ep_service a < ep_service b)"

text \<open>First value met wins, over the services in the iteration order of their map.\<close>

fun merge_labels :: "(string \<times> string) list \<Rightarrow> (string \<times> string) list \<Rightarrow> (string \<times> string) list" where
  "merge_labels merged [] = merged"
| "merge_labels merged ((k, v) # ls) =
     merge_labels (case map_of merged k of Some _ \<Rightarrow> merged | None \<Rightarrow> AList.update k v merged) ls"

definition merged_labels :: "(string \<times> ServiceSpec) list \<Rightarrow> (string \<times> string) list" where
  "merged_labels svcs = foldl merge_labels [] (map (s_labels \<circ> snd) svcs)"

text \<open>
  The part of \<open>ParseContent\<close> after the compose loader returned \<open>project\<close>: labels, endpoints
  and services.
\<close>

definition app_config_of :: "string \<Rightarrow> string \<Rightarrow> Project \<Rightarrow> fileRef list \<Rightarrow> AppConfig" where
  "app_config_of appName absPath project refs = \<lparr>
     a_name = appName, a_compose_path = absPath,
     a_endpoints = sort_by endpoint_less
       (concat (map (\<lambda>(name, svc). extractEndpoints (s_labels svc) name) (p_services project))),
     a_labels = ExtractLabels (merged_labels (p_services project)),
     a_services = map (\<lambda>name. convertService name (the (map_of (p_services project) name)))
       (sort_by (<) (map fst (p_services project))),
     a_project = Some project, a_file_refs = refs\<rparr>"

definition composeProfiles :: "(string \<times> string) list \<Rightarrow> string list" where
  "composeProfiles env = filter (\<lambda>p. p \<noteq> []) (map trim_space (split_on CHR '','' (label env ''COMPOSE_PROFILES'')))"

text \<open>
  \<open>interpolationEnv\<close>: \<open>dotenv\<close> is the third-party .env parser (its second argument is the
  lookup of variables of the process environment \<open>osEnv\<close>).
\<close>

definition interpolationEnv ::
  "(string \<Rightarrow> (string \<rightharpoonup> string) \<Rightarrow> (string \<times> string) list option) \<Rightarrow> (string \<times> string) list \<Rightarrow>
   string \<Rightarrow> (string \<times> string) list option" where
  "interpolationEnv dotenv osEnv dotEnv =
     (case (if dotEnv = [] then Some [] else dotenv dotEnv (map_of osEnv)) of
        None \<Rightarrow> None
      | Some vals \<Rightarrow> Some (fold (\<lambda>(k, v) m. AList.update k v m) osEnv
                            (fold (\<lambda>(k, v) m. AList.update k v m) vals [])))"

subsection \<open>Facts\<close>

interpretation endpoint_order: go_less endpoint_less
proof
  fix x y z :: EndpointConfig
  show "\<not> endpoint_less x x" by (simp add: endpoint_less_def)
  show "endpoint_less x y \<Longrightarrow> endpoint_less y z \<Longrightarrow> endpoint_less x z"
    by (auto simp: endpoint_less_def split: if_splits)
  show "endpoint_less x z \<Longrightarrow> endpoint_less x y \<or> endpoint_less y z"
    by (auto simp: endpoint_less_def split: if_splits)
qed

interpretation int_order: go_total_less "(<) :: int \<Rightarrow> int \<Rightarrow> bool"
  by (rule go_total_less_linorder)

lemma gomap_ok_endpoints_by_index:
  "gomap_ok byIndex \<Longrightarrow> gomap_ok (endpoints_by_index svc ls byIndex)"
  by (induction svc ls byIndex rule: endpoints_by_index.induct) (auto split: option.splits simp: Let_def)

definition index_ok :: "string \<Rightarrow> int \<times> EndpointConfig \<Rightarrow> bool" where
  "index_ok svc p \<longleftrightarrow> ep_index (snd p) = fst p \<and> ep_service (snd p) = svc"

lemma index_ok_update:
  assumes "\<forall>p \<in> set m. index_ok svc p" and "index_ok svc (k, e)"
  shows "\<forall>p \<in> set (AList.update k e m). index_ok svc p"
  using assms by (induction m) (auto split: if_splits)

lemma endpoints_by_index_ok:
  "\<forall>p \<in> set byIndex. index_ok svc p \<Longrightarrow> \<forall>p \<in> set (endpoints_by_index svc ls byIndex). index_ok svc p"
proof (induction svc ls byIndex rule: endpoints_by_index.induct)
  case (2 svc k v ls byIndex)
  show ?case
  proof (cases "endpointLabelRe k")
    case None
    with 2 show ?thesis by simp
  next
    case (Some p)
    obtain idx f where p: "p = (idx, f)" by (cases p)
    define cur where "cur = (case map_of byIndex idx of Some e \<Rightarrow> e | None \<Rightarrow> new_endpoint svc idx)"
    have "index_ok svc (idx, cur)"
      using "2.prems" map_of_SomeD [of byIndex idx]
      by (fastforce simp: cur_def index_ok_def new_endpoint_def split: option.splits)
    then have "index_ok svc (idx, set_ep_field f v cur)"
      by (cases f) (auto simp: index_ok_def set_ep_field_def)
    with "2.prems" have "\<forall>p \<in> set (AList.update idx (set_ep_field f v cur) byIndex). index_ok svc p"
      by (rule index_ok_update)
    with "2.IH"(2) [OF Some p [symmetric] cur_def] show ?thesis
      using Some p by (simp add: cur_def [symmetric])
  qed
qed simp

text \<open>One endpoint per label index, in increasing order, all of the service.\<close>

lemma extractEndpoints_sorted:
  "sorted_wrt (<) (map ep_index (extractEndpoints labels svc)) \<and>
   (\<forall>e \<in> set (extractEndpoints labels svc). ep_service e = svc)"
proof -
  let ?m = "endpoints_by_index svc labels []"
  let ?is = "sort_by (<) (map fst ?m)"
  have ok: "gomap_ok ?m" by (rule gomap_ok_endpoints_by_index) simp
  have io: "\<forall>p \<in> set ?m. index_ok svc p" by (rule endpoints_by_index_ok) simp
  have at: "ep_index (the (map_of ?m i)) = i \<and> ep_service (the (map_of ?m i)) = svc" if "i \<in> set ?is" for i
  proof -
    from that have "i \<in> fst ` set ?m" by simp
    then obtain e where "map_of ?m i = Some e" by (metis map_of_eq_None_iff not_None_eq)
    then have "(i, e) \<in> set ?m" by (rule map_of_SomeD)
    with io \<open>map_of ?m i = Some e\<close> show ?thesis by (auto simp: index_ok_def)
  qed
  have "map ep_index (extractEndpoints labels svc) = map (\<lambda>i. i) ?is"
    unfolding extractEndpoints_def Let_def map_map comp_def using at by (intro map_cong refl) blast
  moreover have "sorted_wrt (<) ?is"
    using ok by (intro int_order.strict_sorted_sort_by) simp
  ultimately show ?thesis using at by (auto simp: extractEndpoints_def Let_def)
qed

end
