(* ===== verification/GoNet.thy ===== *)
theory GoNet
  imports Prelude
begin

text \<open>
  The functions of Go's \<open>net\<close> and \<open>net/netip\<close> packages the program calls: splitting an
  address into host and port, parsing IPv4 and IPv6 addresses and CIDR prefixes, and
  membership of an address in a prefix. An IP address is its list of bytes as numbers below
  256; a parsed address has 16 of them, IPv4 addresses in the mapped form \<open>::ffff:a.b.c.d\<close>.
\<close>

subsection \<open>\<open>net.SplitHostPort\<close>\<close>

text \<open>\<open>None\<close> is the error return; the colon that counts is the last one.\<close>

definition split_host_port :: "string \<Rightarrow> (string \<times> string) option" where
  "split_host_port s =
     (if CHR '':'' \<notin> set s then None
      else let port = after_last CHR '':'' s;
               before = take (length s - Suc (length port)) s
           in if s \<noteq> [] \<and> hd s = CHR ''['' then
                (if CHR '']'' \<notin> set s then None
                 else let host = takeWhile (\<lambda>c. c \<noteq> CHR '']'') (tl s) in
                   if Suc (Suc (length host)) \<noteq> length before then None
                   else if CHR ''['' \<in> set host \<or> CHR ''['' \<in> set port \<or> CHR '']'' \<in> set port then None
                   else Some (host, port))
              else if CHR '':'' \<in> set before then None
              else if CHR ''['' \<in> set s \<or> CHR '']'' \<in> set s then None
              else Some (before, port))"

lemma after_last_suffix: "c \<in> set s \<Longrightarrow>
    s = take (length s - Suc (length (after_last c s))) s @ c # after_last c s"
proof -
  assume c: "c \<in> set s"
  let ?r = "rev s" and ?t = "takeWhile (\<lambda>x. x \<noteq> c) (rev s)"
  have d: "dropWhile (\<lambda>x. x \<noteq> c) ?r \<noteq> []" using c by (auto simp: dropWhile_eq_Nil_conv)
  then obtain rest where rest: "dropWhile (\<lambda>x. x \<noteq> c) ?r = c # rest"
    using hd_dropWhile [OF d] by (cases "dropWhile (\<lambda>x. x \<noteq> c) ?r") auto
  have "?r = ?t @ c # rest" using rest takeWhile_dropWhile_id by metis
  then have s: "s = rev rest @ c # rev ?t"
    by (metis append.assoc append_Cons append_Nil rev.simps(2) rev_append rev_rev_ident)
  then have "length s = length rest + Suc (length ?t)"
    by (metis length_append length_Cons length_rev)
  then have l: "length s - Suc (length (after_last c s)) = length (rev rest)"
    by (simp add: after_last_def)
  have "take (length (rev rest)) s = rev rest"
    using arg_cong [OF s, of "take (length (rev rest))"] by (simp only: take_append) simp
  with s l show ?thesis by (simp add: after_last_def)
qed

lemma set_after_last: "set (after_last c s) \<subseteq> set s"
  using set_takeWhileD [where xs = "rev s"] by (fastforce simp: after_last_def)

lemma split_host_port_chars:
  "split_host_port s = Some (h, p) \<Longrightarrow> set h \<subseteq> set s \<and> set p \<subseteq> set s"
  using set_after_last [of "CHR '':''" s]
  by (auto simp: split_host_port_def Let_def split: if_splits
      dest: set_takeWhileD in_set_takeD list.set_sel(2))

lemma split_host_port_no_colon: "CHR '':'' \<notin> set s \<Longrightarrow> split_host_port s = None"
  by (simp add: split_host_port_def)

subsection \<open>Addresses\<close>

type_synonym ip = "nat list"

fun ipv4_field :: "string \<Rightarrow> nat option" where
  "ipv4_field s =
     (if s = [] \<or> \<not> list_all is_digit s then None
      else if length s > 1 \<and> hd s = CHR ''0'' then None
      else if length s > 3 \<or> dec_value 0 s > 255 then None
      else Some (dec_value 0 s))"

text \<open>\<open>parseIPv4Fields\<close>: exactly four decimal fields.\<close>

definition parse_ipv4 :: "string \<Rightarrow> ip option" where
  "parse_ipv4 s = (let fs = map ipv4_field (split_on CHR ''.'' s) in
     if length fs = 4 \<and> None \<notin> set fs then Some (map the fs) else None)"

definition v4_prefix :: ip where
  "v4_prefix = replicate 10 0 @ [255, 255]"

definition hex_val :: "char \<Rightarrow> nat option" where
  "hex_val c = (let n = (of_char c :: nat) in
     if 48 \<le> n \<and> n \<le> 57 then Some (n - 48)
     else if 97 \<le> n \<and> n \<le> 102 then Some (n - 87)
     else if 65 \<le> n \<and> n \<le> 70 then Some (n - 55) else None)"

fun hex_group :: "string \<Rightarrow> nat \<times> string \<times> nat" where
  "hex_group [] = (0, [], 0)"
| "hex_group s = (let ds = takeWhile (\<lambda>c. hex_val c \<noteq> None) s in
     (foldl (\<lambda>a c. a * 16 + the (hex_val c)) 0 ds, drop (length ds) s, length ds))"

text \<open>
  The loop of \<open>parseIPv6\<close>: \<open>acc\<close> holds the bytes read so far, \<open>ell\<close> the position of the
  ellipsis. The result is the bytes, the ellipsis and the unread rest. Each round reads at
  least one byte, so the fuel (the loop bound of 16 bytes, two per round) never runs out.
\<close>

fun parse_ipv6_loop :: "nat \<Rightarrow> nat list \<Rightarrow> nat option \<Rightarrow> string \<Rightarrow> (nat list \<times> nat option \<times> string) option" where
  "parse_ipv6_loop 0 acc ell s = Some (acc, ell, s)"
| "parse_ipv6_loop (Suc fuel) acc ell s =
     (if length acc \<ge> 16 then Some (acc, ell, s)
      else let (v, rest, n) = hex_group s in
      if n = 0 \<or> n > 4 then None
      else if rest \<noteq> [] \<and> hd rest = CHR ''.'' then
        (if ell = None \<and> length acc \<noteq> 12 then None
         else if length acc + 4 > 16 then None
         else case parse_ipv4 s of None \<Rightarrow> None | Some b \<Rightarrow> Some (acc @ b, ell, []))
      else let acc' = acc @ [v div 256, v mod 256] in
        case rest of
          [] \<Rightarrow> Some (acc', ell, [])
        | c # s1 \<Rightarrow>
            if c \<noteq> CHR '':'' \<or> s1 = [] then None
            else if hd s1 = CHR '':'' then
              (if ell \<noteq> None then None
               else if tl s1 = [] then Some (acc', Some (length acc'), [])
               else parse_ipv6_loop fuel acc' (Some (length acc')) (tl s1))
            else parse_ipv6_loop fuel acc' ell s1)"

definition expand_ellipsis :: "nat list \<Rightarrow> nat option \<Rightarrow> ip option" where
  "expand_ellipsis bs ell =
     (case ell of
        None \<Rightarrow> if length bs = 16 then Some bs else None
      | Some e \<Rightarrow> if length bs \<ge> 16 then None
                  else Some (take e bs @ replicate (16 - length bs) 0 @ drop e bs))"

definition parse_ipv6 :: "string \<Rightarrow> ip option" where
  "parse_ipv6 s =
     (let dcolon = prefix ''::'' s; s1 = (if dcolon then drop 2 s else s) in
      if dcolon \<and> s1 = [] then Some (replicate 16 0)
      else case parse_ipv6_loop 8 [] (if dcolon then Some 0 else None) s1 of
        None \<Rightarrow> None
      | Some (bs, ell, rest) \<Rightarrow> if rest \<noteq> [] then None else expand_ellipsis bs ell)"

text \<open>
  \<open>netip.ParseAddr\<close> without zones (\<open>net.ParseIP\<close> and \<open>net.ParseCIDR\<close> refuse an address with a
  zone): the first of dot, colon and percent decides the family. The boolean tells IPv4.
\<close>

definition parse_addr :: "string \<Rightarrow> (bool \<times> ip) option" where
  "parse_addr s =
     (case filter (\<lambda>c. c = CHR ''.'' \<or> c = CHR '':'' \<or> c = CHR ''%'') s of
        [] \<Rightarrow> None
      | c # _ \<Rightarrow>
          if c = CHR ''.'' then map_option (\<lambda>b. (True, v4_prefix @ b)) (parse_ipv4 s)
          else if c = CHR '':'' \<and> CHR ''%'' \<notin> set s then map_option (Pair False) (parse_ipv6 s)
          else None)"

definition parse_ip :: "string \<Rightarrow> ip option" where
  "parse_ip s = map_option snd (parse_addr s)"

text \<open>\<open>IP.To4\<close> and \<open>IP.Equal\<close> on 16-byte addresses.\<close>

definition to4 :: "ip \<Rightarrow> ip option" where
  "to4 a = (if length a = 4 then Some a
            else if length a = 16 \<and> take 12 a = v4_prefix then Some (drop 12 a) else None)"

definition ip_equal :: "ip \<Rightarrow> ip \<Rightarrow> bool" where
  "ip_equal a b \<longleftrightarrow> a = b \<or> (length a \<noteq> length b \<and> to4 a \<noteq> None \<and> to4 a = to4 b)"

subsection \<open>Prefixes\<close>

text \<open>A byte with its top \<open>k\<close> bits kept (\<open>b & m\<close> for a byte of a CIDR mask).\<close>

definition mask_byte :: "nat \<Rightarrow> nat \<Rightarrow> nat" where
  "mask_byte k b = (if k \<ge> 8 then b else b div 2 ^ (8 - k) * 2 ^ (8 - k))"

fun mask_bytes :: "nat \<Rightarrow> ip \<Rightarrow> ip" where
  "mask_bytes n [] = []"
| "mask_bytes n (b # bs) = mask_byte n b # mask_bytes (n - 8) bs"

text \<open>An \<open>IPNet\<close>: the masked address (4 or 16 bytes), the prefix length and the mask's size.\<close>

record ipnet =
  net_ip :: ip
  net_ones :: nat
  net_mask_len :: nat

text \<open>\<open>dtoi\<close>: all of the string is decimal digits, the value below 0xFFFFFF.\<close>

definition dtoi :: "string \<Rightarrow> nat option" where
  "dtoi s = (if s = [] \<or> \<not> list_all is_digit s then None
             else if dec_value 0 s \<ge> 16777215 then None else Some (dec_value 0 s))"

definition parse_cidr :: "string \<Rightarrow> ipnet option" where
  "parse_cidr s =
     (let (addr, mask, found) = cut_at CHR ''/'' s in
      if \<not> found then None
      else case parse_addr addr of None \<Rightarrow> None
      | Some (v4, a) \<Rightarrow>
          (case dtoi mask of None \<Rightarrow> None
           | Some n \<Rightarrow>
               if n > (if v4 then 32 else 128) then None
               else Some (if v4 then \<lparr>net_ip = mask_bytes n (drop 12 a), net_ones = n, net_mask_len = 4\<rparr>
                          else \<lparr>net_ip = mask_bytes n a, net_ones = n, net_mask_len = 16\<rparr>)))"

text \<open>
  \<open>IPNet.Contains\<close>. A 16-byte network that is an IPv4-mapped one compares on its last four
  bytes with the last four bytes of its mask.
\<close>

definition net_contains :: "ipnet \<Rightarrow> ip \<Rightarrow> bool" where
  "net_contains n a =
     (let x = (case to4 a of Some b \<Rightarrow> b | None \<Rightarrow> a);
          nn = (case to4 (net_ip n) of Some b \<Rightarrow> b | None \<Rightarrow> net_ip n);
          ones = (if net_mask_len n = 16 \<and> length nn = 4 then net_ones n - 96 else net_ones n)
      in if net_mask_len n = 4 \<and> length nn \<noteq> 4 then False
         else length x = length nn \<and> mask_bytes ones nn = mask_bytes ones x)"

lemma length_mask_bytes [simp]: "length (mask_bytes n bs) = length bs"
  by (induction bs arbitrary: n) auto

lemma length_parse_ipv4: "parse_ipv4 s = Some b \<Longrightarrow> length b = 4"
  by (auto simp: parse_ipv4_def Let_def split: if_splits)

lemmas go_net_eval [go_simps] = split_host_port_def parse_ip_def parse_addr_def
  parse_ipv4_def parse_ipv6_def parse_cidr_def net_contains_def to4_def v4_prefix_def hex_val_def
  expand_ellipsis_def dtoi_def cut_at_def is_digit_def digit_val_def mask_byte_def

lemma go_net_examples:
  "parse_ip ''10.0.0.1'' = Some (v4_prefix @ [10, 0, 0, 1])"
  "parse_ip ''10.0.0.01'' = None"
  "parse_ip ''fe80::1%eth0'' = None"
  "parse_ip ''example.com'' = None"
  "map_option (\<lambda>n. net_contains n (v4_prefix @ [10, 1, 2, 3])) (parse_cidr ''10.0.0.0/8'') = Some True"
  "parse_cidr ''10.0.0.0/33'' = None"
  "split_host_port ''[::1]:80'' = Some (''::1'', ''80'')"
  "split_host_port ''a.com:443'' = Some (''a.com'', ''443'')"
  "split_host_port ''::1'' = None"
  by (simp_all add: go_simps Let_def)

end
