(* ===== verification/HostMatch.thy ===== *)
theory HostMatch
  imports GoNet
begin

text \<open>
  internal/proxy/hostmatch.go: the canonical form of a domain or Host header, Caddy's host
  matching rules, the order of route domains, and the lookup of the value registered for the
  domain a request is routed to.
\<close>

definition normalizeDomain :: "string \<Rightarrow> string" where
  "normalizeDomain s =
     (let s = trim_space s;
          s = (case split_host_port s of
                 Some (h, _) \<Rightarrow> h
               | None \<Rightarrow> trim_suffix (trim_prefix s ''['') '']'')
      in trim_suffix (to_lower s) ''.'')"

definition hostMatches :: "string \<Rightarrow> string \<Rightarrow> bool" where
  "hostMatches pattern host =
     (if CHR ''*'' \<notin> set pattern then pattern = host
      else let pp = split_on CHR ''.'' pattern; hp = split_on CHR ''.'' host in
        if length pp \<noteq> length hp then False
        else list_all2 (\<lambda>p h. p = ''*'' \<or> p = h) pp hp)"

definition domainLess :: "string \<Rightarrow> string \<Rightarrow> bool" where
  "domainLess a b =
     (let ca = count_list a CHR ''*''; cb = count_list b CHR ''*'' in
      if ca \<noteq> cb then ca < cb else a < b)"

definition best_match :: "(string \<times> 'v) list \<Rightarrow> string \<Rightarrow> string option" where
  "best_match m host = scan_least domainLess (\<lambda>k. CHR ''*'' \<in> set k \<and> hostMatches k host) (map fst m) None"

definition lookupHost :: "(string \<times> 'v) list \<Rightarrow> string \<Rightarrow> 'v option" where
  "lookupHost m host =
     (let host = normalizeDomain host in
      case map_of m host of
        Some v \<Rightarrow> Some v
      | None \<Rightarrow> (case best_match m host of None \<Rightarrow> None | Some best \<Rightarrow> map_of m best))"

text \<open>\<open>validDomainRe\<close> (proxy.go): letters, digits, dot, star and dash, first a letter or digit.\<close>

definition validDomain :: "string \<Rightarrow> bool" where
  "validDomain d =
     (case d of [] \<Rightarrow> False
      | c # cs \<Rightarrow> is_alnum c \<and> list_all (\<lambda>x. is_alnum x \<or> x \<in> set ''.*-'') cs)"

interpretation domain_order: go_total_less domainLess
proof
  fix x y z :: string
  show "\<not> domainLess x x" by (simp add: domainLess_def)
  show "domainLess x y \<Longrightarrow> domainLess y z \<Longrightarrow> domainLess x z"
    by (auto simp: domainLess_def Let_def split: if_splits)
  show "domainLess x z \<Longrightarrow> domainLess x y \<or> domainLess y z"
    by (auto simp: domainLess_def Let_def split: if_splits)
  show "x \<noteq> y \<Longrightarrow> domainLess x y \<or> domainLess y x"
    by (auto simp: domainLess_def Let_def split: if_splits)
qed

subsection \<open>Canonical domains\<close>

lemma validDomain_chars:
  assumes "validDomain d" and "c \<in> set d"
  shows "is_alnum c \<or> c \<in> set ''.*-''"
  using assms by (cases d) (auto simp: validDomain_def list_all_iff)

lemma validDomain_plain:
  assumes "validDomain d" and "c \<in> set d"
  shows "\<not> is_space c" "c \<noteq> CHR '':''" "c \<noteq> CHR ''[''" "c \<noteq> CHR '']''"
  using validDomain_chars [OF assms]
  by (auto simp: is_alnum_def is_letter_def is_digit_def is_space_def Let_def)

text \<open>Bytes \<open>normalizeDomain\<close> does not react to.\<close>

definition plain_char :: "char \<Rightarrow> bool" where
  "plain_char c \<longleftrightarrow> \<not> is_space c \<and> c \<noteq> CHR '':'' \<and> c \<noteq> CHR ''['' \<and> c \<noteq> CHR '']''"

lemma validDomain_plain_char: "validDomain d \<Longrightarrow> c \<in> set d \<Longrightarrow> plain_char c"
  using validDomain_plain by (simp add: plain_char_def)

lemma trim_bracket_id:
  assumes "CHR ''['' \<notin> set s" "CHR '']'' \<notin> set s"
  shows "trim_suffix (trim_prefix s ''['') '']'' = s"
proof -
  have "\<not> prefix ''['' s" using assms(1) by (auto elim: prefixE)
  moreover have "\<not> suffix '']'' s" using assms(2) by (auto elim: suffixE)
  ultimately show ?thesis by (simp add: trim_prefix_def trim_suffix_def)
qed

lemma normalizeDomain_plain:
  assumes "\<forall>c \<in> set d. plain_char c"
  shows "normalizeDomain d = trim_suffix (to_lower d) ''.''"
proof -
  have "trim_space d = d" using assms by (intro trim_space_id) (auto simp: plain_char_def)
  moreover have "split_host_port d = None" using assms by (intro split_host_port_no_colon) (auto simp: plain_char_def)
  moreover have "trim_suffix (trim_prefix d ''['') '']'' = d"
    using assms by (intro trim_bracket_id) (auto simp: plain_char_def)
  ultimately show ?thesis by (simp add: normalizeDomain_def)
qed

lemma normalizeDomain_valid:
  "validDomain d \<Longrightarrow> normalizeDomain d = trim_suffix (to_lower d) ''.''"
  using validDomain_plain_char by (intro normalizeDomain_plain) blast

lemma lower_char_plain: "plain_char c \<Longrightarrow> plain_char (lower_char c)"
proof -
  assume c: "plain_char c"
  have "\<not> is_letter CHR '':''" "\<not> is_letter CHR ''[''" "\<not> is_letter CHR '']''"
    by (simp_all add: is_letter_def)
  moreover have "\<not> is_space (lower_char c)"
    using c by (auto simp: lower_char_def is_space_def Let_def of_char_of plain_char_def)
  ultimately show ?thesis using c by (auto simp: lower_char_eq_nonletter plain_char_def)
qed

text \<open>The canonical form of a valid domain is itself canonical, unless two dots end it.\<close>

lemma normalizeDomain_idem:
  assumes v: "validDomain d" and nd: "\<not> suffix ''..'' d"
  shows "normalizeDomain (normalizeDomain d) = normalizeDomain d"
proof -
  let ?n = "trim_suffix (to_lower d) ''.''"
  have n: "normalizeDomain d = ?n" using v by (rule normalizeDomain_valid)
  have "\<forall>c \<in> set (to_lower d). plain_char c"
    using validDomain_plain_char [OF v] lower_char_plain by (auto simp: to_lower_def)
  then have plain: "\<forall>c \<in> set ?n. plain_char c"
    using set_trim_suffix by blast
  have low: "to_lower ?n = ?n"
    by (simp add: to_lower_def trim_suffix_def take_map comp_def)
  have "\<not> suffix ''.'' ?n"
  proof
    assume s: "suffix ''.'' ?n"
    show False
    proof (cases "suffix ''.'' (to_lower d)")
      case True
      then obtain e where e: "to_lower d = e @ ''.''" by (auto elim: suffixE)
      with s have "suffix ''.'' e" by (simp add: trim_suffix_def)
      then obtain f where "to_lower d = f @ ''..''" using e by (auto elim: suffixE)
      then obtain d1 d2 where d: "d = d1 @ d2" "to_lower d2 = ''..''"
        by (auto simp: to_lower_def map_eq_append_conv)
      have "\<not> is_letter CHR ''.''" by (simp add: is_letter_def)
      with d(2) have "d2 = ''..''" by (auto simp: to_lower_def lower_char_eq_nonletter map_eq_Cons_conv)
      with d nd show False by (auto simp: suffix_def)
    next
      case False
      with s show False by (simp add: trim_suffix_def)
    qed
  qed
  then have "trim_suffix ?n ''.'' = ?n" by (simp add: trim_suffix_def)
  with n low normalizeDomain_plain [OF plain] show ?thesis by simp
qed

lemma validDomain_to_lower: "validDomain d \<Longrightarrow> normalizeDomain (to_lower d) = normalizeDomain d"
proof -
  assume v: "validDomain d"
  have "\<forall>c \<in> set (to_lower d). plain_char c"
    using validDomain_plain_char [OF v] lower_char_plain by (auto simp: to_lower_def)
  from normalizeDomain_plain [OF this] normalizeDomain_valid [OF v] show ?thesis by simp
qed

text \<open>A port does not change the canonical form.\<close>

lemma normalizeDomain_port:
  assumes v: "validDomain d" and p: "\<forall>c \<in> set p. is_digit c"
  shows "normalizeDomain (d @ '':'' @ p) = normalizeDomain d"
proof -
  note vp = validDomain_plain [OF v]
  have pp: "\<not> is_space c \<and> c \<noteq> CHR '':'' \<and> c \<noteq> CHR ''['' \<and> c \<noteq> CHR '']''" if "c \<in> set p" for c
    using p that by (auto simp: is_digit_def is_space_def Let_def)
  have "\<forall>x \<in> set (rev p). x \<noteq> CHR '':''" using pp by auto
  then have "takeWhile (\<lambda>x. x \<noteq> CHR '':'') (rev p @ CHR '':'' # rev d) = rev p"
    by (subst takeWhile_append2) auto
  then have al: "after_last CHR '':'' (d @ '':'' @ p) = p"
    by (simp add: after_last_def)
  have hd: "d \<noteq> []" "hd d \<noteq> CHR ''[''" using v vp(3) by (cases d; auto simp: validDomain_def)+
  have "CHR '':'' \<notin> set d" "CHR ''['' \<notin> set d" "CHR '']'' \<notin> set d"
    "CHR ''['' \<notin> set p" "CHR '']'' \<notin> set p" using vp pp by blast+
  then have "split_host_port (d @ '':'' @ p) = Some (d, p)"
    using hd al by (simp add: split_host_port_def Let_def)
  moreover have "trim_space (d @ '':'' @ p) = d @ '':'' @ p"
    using vp pp by (intro trim_space_id) (auto simp: is_space_def)
  ultimately show ?thesis using normalizeDomain_valid [OF v] by (simp add: normalizeDomain_def)
qed

subsection \<open>Lookup\<close>

lemma best_match_cong:
  "set (map fst m) = set (map fst m') \<Longrightarrow> best_match m host = best_match m' host"
  unfolding best_match_def by (rule domain_order.scan_least_set_cong)

lemma hostMatches_refl: "hostMatches h h"
  by (auto simp: hostMatches_def list_all2_same)

lemma domainLess_exact: "CHR ''*'' \<notin> set a \<Longrightarrow> CHR ''*'' \<in> set b \<Longrightarrow> domainLess a b"
  by (auto simp: domainLess_def count_list_0_iff)

lemma lookupHost_cong:
  assumes "map_of m = map_of m'"
  shows "lookupHost m host = lookupHost m' host"
proof -
  have "set (map fst m) = set (map fst m')"
    using assms by (metis dom_map_of_conv_image_fst set_map)
  then have "best_match m h = best_match m' h" for h by (rule best_match_cong)
  with assms show ?thesis by (simp add: lookupHost_def Let_def split: option.splits)
qed

lemma best_match_None:
  "best_match m host = None \<longleftrightarrow> (\<forall>k \<in> fst ` set m. \<not> (CHR ''*'' \<in> set k \<and> hostMatches k host))"
  by (simp add: best_match_def domain_order.scan_least_None)

lemma best_match_Some:
  assumes "best_match m host = Some k"
  shows "k \<in> fst ` set m" "CHR ''*'' \<in> set k" "hostMatches k host"
    "\<forall>j \<in> fst ` set m. CHR ''*'' \<in> set j \<and> hostMatches j host \<longrightarrow> \<not> domainLess j k"
  using domain_order.scan_least_Some [OF assms [unfolded best_match_def]] by auto

lemma lookupHost_None:
  "lookupHost m host = None \<longleftrightarrow>
     (\<forall>k \<in> fst ` set m. k \<noteq> normalizeDomain host \<and>
        \<not> (CHR ''*'' \<in> set k \<and> hostMatches k (normalizeDomain host)))"
proof (cases "map_of m (normalizeDomain host)")
  case (Some v)
  then have "normalizeDomain host \<in> fst ` set m" by (metis option.distinct(1) map_of_eq_None_iff)
  moreover from Some have "lookupHost m host \<noteq> None" by (simp add: lookupHost_def Let_def)
  ultimately show ?thesis by blast
next
  case None
  then have n: "normalizeDomain host \<notin> fst ` set m" by (simp add: map_of_eq_None_iff)
  have "map_of m k \<noteq> None" if "best_match m (normalizeDomain host) = Some k" for k
    using best_match_Some(1) [OF that] by (simp add: map_of_eq_None_iff)
  then have "lookupHost m host = None \<longleftrightarrow> best_match m (normalizeDomain host) = None"
    using None by (auto simp: lookupHost_def Let_def split: option.splits)
  with n show ?thesis unfolding best_match_None by blast
qed

lemma lookupHost_Some:
  assumes "lookupHost m host = Some v"
  shows "\<exists>k. map_of m k = Some v \<and> hostMatches k (normalizeDomain host) \<and>
    (k = normalizeDomain host \<or>
     CHR ''*'' \<in> set k \<and> normalizeDomain host \<notin> fst ` set m \<and>
     (\<forall>j \<in> fst ` set m. CHR ''*'' \<in> set j \<and> hostMatches j (normalizeDomain host) \<longrightarrow> \<not> domainLess j k))"
proof (cases "map_of m (normalizeDomain host)")
  case (Some w)
  with assms have "w = v" by (simp add: lookupHost_def Let_def)
  with Some hostMatches_refl show ?thesis by blast
next
  case None
  with assms obtain k where k: "best_match m (normalizeDomain host) = Some k" "map_of m k = Some v"
    by (auto simp: lookupHost_def Let_def split: option.splits)
  have "normalizeDomain host \<notin> fst ` set m" using None by (simp add: map_of_eq_None_iff)
  with k best_match_Some [OF k(1)] show ?thesis by blast
qed

text \<open>
  The value a host is looked up to is the one registered under the host's canonical
  form or, only if there is none, under the least wildcard pattern that matches it (fewest stars,
  then byte order); no value means that no registered domain matches. The iteration order of the
  map does not matter.
\<close>

theorem lookupHost_spec:
  "case lookupHost m host of
     Some v \<Rightarrow> \<exists>k. map_of m k = Some v \<and> hostMatches k (normalizeDomain host) \<and>
       (k = normalizeDomain host \<or>
        CHR ''*'' \<in> set k \<and> normalizeDomain host \<notin> fst ` set m \<and>
        filter (\<lambda>j. CHR ''*'' \<in> set j \<and> hostMatches j (normalizeDomain host) \<and> domainLess j k) (map fst m) = [])
   | None \<Rightarrow> normalizeDomain host \<notin> fst ` set m \<and>
       filter (\<lambda>j. CHR ''*'' \<in> set j \<and> hostMatches j (normalizeDomain host)) (map fst m) = []"
proof (cases "lookupHost m host")
  case None
  with lookupHost_None [of m host] show ?thesis by (auto simp: filter_empty_conv)
next
  case (Some v)
  from lookupHost_Some [OF this] Some show ?thesis by (fastforce simp: filter_empty_conv)
qed

end
