(* ===== verification/GoPath.thy ===== *)
theory GoPath
  imports Prelude
begin

text \<open>
  The lexical functions of Go's \<open>path\<close> and \<open>path/filepath\<close> packages on Unix: \<open>Clean\<close>,
  \<open>Join\<close>, \<open>Dir\<close>, \<open>Base\<close> and \<open>IsAbs\<close>, and the component view of a cleaned absolute path.
\<close>

definition is_abs :: "string \<Rightarrow> bool" where
  "is_abs p \<longleftrightarrow> prefix ''/'' p"

text \<open>One path element against the stack of elements kept so far, last first.\<close>

fun clean_step :: "bool \<Rightarrow> string list \<Rightarrow> string \<Rightarrow> string list" where
  "clean_step rooted stack c =
     (if c = [] \<or> c = ''.'' then stack
      else if c = ''..'' then
        (case stack of [] \<Rightarrow> if rooted then [] else [''..'']
         | t # rest \<Rightarrow> if t = ''..'' then ''..'' # stack else rest)
      else c # stack)"

definition clean_elems :: "bool \<Rightarrow> string \<Rightarrow> string list" where
  "clean_elems rooted p = rev (foldl (clean_step rooted) [] (split_on CHR ''/'' p))"

definition clean_path :: "string \<Rightarrow> string" where
  "clean_path p =
     (if p = [] then ''.''
      else let rooted = is_abs p; body = join_with ''/'' (clean_elems rooted p) in
        if rooted then ''/'' @ body else if body = [] then ''.'' else body)"

definition join_path :: "string list \<Rightarrow> string" where
  "join_path es = (case dropWhile (\<lambda>e. e = []) es of [] \<Rightarrow> [] | e # r \<Rightarrow> clean_path (join_with ''/'' (e # r)))"

definition dir_path :: "string \<Rightarrow> string" where
  "dir_path p = clean_path (take (length p - length (after_last CHR ''/'' p)) p)"

definition base_path :: "string \<Rightarrow> string" where
  "base_path p =
     (if p = [] then ''.''
      else let q = drop_end_while (\<lambda>c. c = CHR ''/'') p; b = after_last CHR ''/'' q in
        if b = [] then ''/'' else b)"

subsection \<open>The component view of a cleaned absolute path\<close>

definition good_elem :: "string \<Rightarrow> bool" where
  "good_elem c \<longleftrightarrow> c \<noteq> [] \<and> c \<noteq> ''.'' \<and> c \<noteq> ''..'' \<and> CHR ''/'' \<notin> set c"

definition abs_of :: "string list \<Rightarrow> string" where
  "abs_of cs = ''/'' @ join_with ''/'' cs"

text \<open>A cleaned absolute path.\<close>

definition canonical :: "string \<Rightarrow> bool" where
  "canonical p \<longleftrightarrow> is_abs p \<and> clean_path p = p"

lemma split_join:
  "cs \<noteq> [] \<Longrightarrow> \<forall>w \<in> set cs. c \<notin> set w \<Longrightarrow> split_on c (join_with [c] cs) = cs"
proof (induction "[c]" cs rule: join_with.induct)
  case (2 w)
  then show ?case by (simp add: split_on_no_sep)
next
  case (3 w v ws)
  have "split_on c (w @ c # s) = w # split_on c s" if "c \<notin> set w" for s
    using that by (induction w) auto
  with 3 show ?case by simp
qed simp

lemma clean_step_good:
  assumes st: "\<forall>x \<in> set st. good_elem x" and c: "CHR ''/'' \<notin> set c"
  shows "\<forall>x \<in> set (clean_step True st c). good_elem x"
proof (cases "c = [] \<or> c = ''.''")
  case True
  with st show ?thesis by simp
next
  case False
  show ?thesis
  proof (cases "c = ''..''")
    case True
    with st show ?thesis by (cases st) (simp_all add: good_elem_def)
  next
    case nd: False
    with False c have "good_elem c" by (simp add: good_elem_def)
    with st False nd show ?thesis by simp
  qed
qed

lemma foldl_clean_step_good:
  "\<forall>x \<in> set st. good_elem x \<Longrightarrow> \<forall>c \<in> set cs. CHR ''/'' \<notin> set c \<Longrightarrow>
     \<forall>x \<in> set (foldl (clean_step True) st cs). good_elem x"
proof (induction cs arbitrary: st)
  case (Cons c cs)
  have "\<forall>x \<in> set (clean_step True st c). good_elem x"
    using Cons.prems by (intro clean_step_good) auto
  with Cons show ?case by (simp del: clean_step.simps)
qed simp

lemma clean_elems_good: "\<forall>x \<in> set (clean_elems True p). good_elem x"
  unfolding clean_elems_def set_rev
  by (rule foldl_clean_step_good) (use split_on_elem in auto)

lemma foldl_clean_step_id:
  "\<forall>x \<in> set cs. good_elem x \<Longrightarrow> foldl (clean_step True) st cs = rev cs @ st"
  by (induction cs arbitrary: st) (auto simp: good_elem_def)

lemma clean_elems_abs_of:
  assumes "\<forall>x \<in> set cs. good_elem x"
  shows "clean_elems True (abs_of cs) = cs"
proof (cases "cs = []")
  case False
  then have "split_on CHR ''/'' (abs_of cs) = [] # cs"
    using assms split_join [of cs "CHR ''/''"] by (simp add: abs_of_def good_elem_def)
  then show ?thesis using foldl_clean_step_id [OF assms] by (simp add: clean_elems_def)
qed (simp add: abs_of_def clean_elems_def)

lemma clean_path_abs: "is_abs p \<Longrightarrow> clean_path p = abs_of (clean_elems True p)"
  by (auto simp: clean_path_def abs_of_def is_abs_def)

lemma is_abs_abs_of [simp]: "is_abs (abs_of cs)"
  by (simp add: is_abs_def abs_of_def)

lemma canonical_abs_of: "\<forall>x \<in> set cs. good_elem x \<Longrightarrow> canonical (abs_of cs)"
  by (simp add: canonical_def clean_path_abs clean_elems_abs_of)

lemma canonical_clean_path: "is_abs p \<Longrightarrow> canonical (clean_path p)"
  by (simp add: clean_path_abs canonical_abs_of clean_elems_good)

lemma canonicalE:
  assumes "canonical p"
  obtains cs where "p = abs_of cs" "\<forall>x \<in> set cs. good_elem x"
  using assms clean_elems_good [of p] clean_path_abs [of p] by (auto simp: canonical_def)

text \<open>Cleaning an absolute path twice is cleaning it once.\<close>

lemma clean_path_idem: "is_abs p \<Longrightarrow> clean_path (clean_path p) = clean_path p"
  using canonical_clean_path by (simp add: canonical_def)

lemma canonical_no_dotdot: "canonical p \<Longrightarrow> ''..'' \<notin> set (split_on CHR ''/'' p)"
proof (elim canonicalE)
  fix cs assume p: "p = abs_of cs" and g: "\<forall>x \<in> set cs. good_elem x"
  show ?thesis
  proof (cases "cs = []")
    case False
    then have "split_on CHR ''/'' p = [] # cs"
      using g split_join [of cs "CHR ''/''"] by (simp add: p abs_of_def good_elem_def)
    with g show ?thesis by (auto simp: good_elem_def)
  qed (simp add: p abs_of_def)
qed

text \<open>Prefixes of component lists, seen on the strings.\<close>

lemma join_with_append:
  "xs \<noteq> [] \<Longrightarrow> ys \<noteq> [] \<Longrightarrow> join_with s (xs @ ys) = join_with s xs @ s @ join_with s ys"
  by (induction s xs rule: join_with.induct) (auto simp: neq_Nil_conv)

lemma abs_of_inj:
  assumes "abs_of xs = abs_of ys" "\<forall>x \<in> set xs. good_elem x" "\<forall>x \<in> set ys. good_elem x"
  shows "xs = ys"
  using assms clean_elems_abs_of by metis

lemma abs_of_prefix_iff:
  assumes x: "\<forall>x \<in> set xs. good_elem x" and y: "\<forall>y \<in> set ys. good_elem y" and ne: "ys \<noteq> []"
  shows "(abs_of xs = abs_of ys \<or> prefix (abs_of ys @ ''/'') (abs_of xs)) \<longleftrightarrow> prefix ys xs"
proof
  assume l: "abs_of xs = abs_of ys \<or> prefix (abs_of ys @ ''/'') (abs_of xs)"
  show "prefix ys xs"
  proof (cases "abs_of xs = abs_of ys")
    case True
    with abs_of_inj [OF True x y] show ?thesis by simp
  next
    case False
    with l obtain r where r: "abs_of xs = abs_of ys @ ''/'' @ r" by (auto elim: prefixE)
    then have "xs \<noteq> []" using ne by (cases xs; cases ys) (auto simp: abs_of_def good_elem_def)
    have app: "split_on CHR ''/'' (s @ ''/'' @ r) = split_on CHR ''/'' s @ split_on CHR ''/'' r" for s
    proof (induction s)
      case (Cons a s)
      then show ?case by (cases "split_on CHR ''/'' s") auto
    qed simp
    have "split_on CHR ''/'' (abs_of xs) = [] # xs" "split_on CHR ''/'' (abs_of ys) = [] # ys"
      using x y ne \<open>xs \<noteq> []\<close> split_join [of xs "CHR ''/''"] split_join [of ys "CHR ''/''"]
      by (simp_all add: abs_of_def good_elem_def)
    with r app [of "abs_of ys"] show ?thesis by (auto simp: prefix_def)
  qed
next
  assume "prefix ys xs"
  then obtain zs where xs: "xs = ys @ zs" by (auto elim: prefixE)
  show "abs_of xs = abs_of ys \<or> prefix (abs_of ys @ ''/'') (abs_of xs)"
    using ne by (cases "zs = []") (auto simp: xs abs_of_def join_with_append)
qed

subsection \<open>Joining\<close>

lemma split_on_sep: "split_on c (p @ c # q) = split_on c p @ split_on c q"
  by (induction p) (auto split: list.splits)

lemma clean_elems_join: "clean_elems True (p @ CHR ''/'' # q) = rev (foldl (clean_step True) (rev (clean_elems True p)) (split_on CHR ''/'' q))"
  by (simp add: clean_elems_def split_on_sep)

lemma join_abs:
  assumes "is_abs a" "good_elem n"
  shows "join_path [a, n] = abs_of (clean_elems True a @ [n])"
proof -
  have n: "n \<noteq> []" "split_on CHR ''/'' n = [n]" "n \<noteq> ''.''" "n \<noteq> ''..''"
    using assms(2) by (auto simp: good_elem_def split_on_no_sep)
  have "clean_elems True (a @ CHR ''/'' # n) = clean_elems True a @ [n]"
    using n by (simp add: clean_elems_join)
  moreover have "is_abs (a @ CHR ''/'' # n)" "a \<noteq> []" using assms(1) by (auto simp: is_abs_def)
  ultimately show ?thesis by (simp add: join_path_def clean_path_abs)
qed

lemma join_abs_of:
  assumes "\<forall>c \<in> set cs. good_elem c" "good_elem n"
  shows "join_path [abs_of cs, n] = abs_of (cs @ [n])"
  using join_abs [OF is_abs_abs_of assms(2), of cs] clean_elems_abs_of [OF assms(1)] by simp

lemma abs_of_snoc: "abs_of (cs @ [f]) = (if cs = [] then ''/'' else abs_of cs @ ''/'') @ f"
  by (cases "cs = []") (simp_all add: abs_of_def join_with_append)

end
