(* ===== verification/Routes.thy ===== *)
theory Routes
  imports ComposeModel HostMatch GoPath
begin

text \<open>
  internal/proxy/route.go and resolver.go: the routes of an app, one per endpoint that
  survives the checks, and the upstream each one dials.
\<close>

record RateLimitConfig =
  Requests :: int
  Window :: duration
  Burst :: int
  By :: string

record Route =
  AppSlug :: string
  AppID :: int
  Domain :: string
  Upstream :: string
  TLS :: string
  CertDir :: string
  RateLimit :: "RateLimitConfig option"
  AllowedIPs :: "string list"
  Protocol :: string
  Path :: string

text \<open>
  The Docker API and the process environment are parameters: \<open>containers\<close> is the running
  containers the label filter returns (\<open>None\<close> for an API error), \<open>inspect\<close> the address of a
  container per network (\<open>None\<close> for an error; no entry for a network it is not attached to).
\<close>

record docker_api =
  container_list :: "string \<Rightarrow> string \<Rightarrow> string list option"
  container_inspect :: "string \<Rightarrow> (string \<rightharpoonup> string) option"

definition ContainerIP :: "docker_api option \<Rightarrow> string \<Rightarrow> string \<Rightarrow> string \<Rightarrow> string option" where
  "ContainerIP client project service netName =
     (case client of None \<Rightarrow> Some []
      | Some api \<Rightarrow>
          (case container_list api project service of
             None \<Rightarrow> None
           | Some [] \<Rightarrow> Some []
           | Some (c # _) \<Rightarrow>
               (case container_inspect api c of
                  None \<Rightarrow> None
                | Some nets \<Rightarrow> Some (case nets netName of None \<Rightarrow> [] | Some a \<Rightarrow> a))))"

record route_env =
  upstream_env :: string
  docker :: "docker_api option"
  parse_duration :: "string \<Rightarrow> duration option"

definition upstreamHost :: "route_env \<Rightarrow> string" where
  "upstreamHost env = (if upstream_env env \<noteq> [] then upstream_env env else ''localhost'')"

definition containerOrDNS :: "route_env \<Rightarrow> AppConfig \<Rightarrow> EndpointConfig \<Rightarrow> string" where
  "containerOrDNS env app ep =
     (case docker env of
        None \<Rightarrow> ep_service ep @ '':'' @ ep_port ep
      | Some api \<Rightarrow>
          (case ContainerIP (Some api) (''simpledeploy-'' @ a_name app) (ep_service ep) ''simpledeploy-public'' of
             Some ip \<Rightarrow> if ip \<noteq> [] then ip @ '':'' @ ep_port ep else ep_service ep @ '':'' @ ep_port ep
           | None \<Rightarrow> ep_service ep @ '':'' @ ep_port ep))"

datatype upstream_error = NoPortMappings string | ServiceNotFound string

text \<open>Only the first service of the endpoint's name is looked at.\<close>

definition resolveEndpointUpstream ::
  "route_env \<Rightarrow> AppConfig \<Rightarrow> EndpointConfig \<Rightarrow> upstream_error + string" where
  "resolveEndpointUpstream env app ep =
     (case find (\<lambda>svc. sc_name svc = ep_service ep) (a_services app) of
        Some svc \<Rightarrow>
          (case find (\<lambda>pm. pm_container pm = ep_port ep) (sc_ports svc) of
             Some pm \<Rightarrow>
               Inr (if pm_host pm \<noteq> [] then upstreamHost env @ '':'' @ pm_host pm
                    else containerOrDNS env app ep)
           | None \<Rightarrow>
               if ep_port ep \<noteq> [] then Inr (containerOrDNS env app ep)
               else (case find (\<lambda>pm. pm_host pm \<noteq> []) (sc_ports svc) of
                       Some pm \<Rightarrow> Inr (upstreamHost env @ '':'' @ pm_host pm)
                     | None \<Rightarrow> Inl (NoPortMappings (ep_service ep))))
      | None \<Rightarrow>
          if ep_port ep \<noteq> [] then Inr (containerOrDNS env app ep)
          else Inl (ServiceNotFound (ep_service ep)))"

definition app_rate_limit :: "route_env \<Rightarrow> AppConfig \<Rightarrow> RateLimitConfig option" where
  "app_rate_limit env app =
     (let rl = lc_ratelimit (a_labels app) in
      if rl_requests rl = [] then None
      else let requests = fst (atoi (rl_requests rl));
               window = (case parse_duration env (rl_window rl) of Some w \<Rightarrow> w | None \<Rightarrow> time_minute);
               burst = fst (atoi (rl_burst rl));
               by = (if rl_by rl = [] then ''ip'' else rl_by rl)
           in if requests > 0
              then Some \<lparr>Requests = requests, Window = window, Burst = burst, By = by\<rparr> else None)"

definition app_allowed_ips :: "AppConfig \<Rightarrow> string list" where
  "app_allowed_ips app =
     (if lc_access_allow (a_labels app) = [] then []
      else filter (\<lambda>e. e \<noteq> [] \<and> (parse_ip e \<noteq> None \<or> parse_cidr e \<noteq> None))
             (map trim_space (split_on CHR '','' (lc_access_allow (a_labels app)))))"

text \<open>The protocol an endpoint routes with, and its TLS mode given the modes of earlier domains.\<close>

definition endpoint_protocol :: "EndpointConfig \<Rightarrow> string" where
  "endpoint_protocol ep = (let protocol = NormalizeProtocol (ep_protocol ep) in
     if protocol = [] then ProtocolHTTP else protocol)"

definition endpoint_tls :: "(string \<rightharpoonup> string) \<Rightarrow> EndpointConfig \<Rightarrow> string" where
  "endpoint_tls domainTLS ep =
     (let tls = (if ep_tls ep = [] then ''auto'' else ep_tls ep) in
      case domainTLS (ep_domain ep) of
        Some first \<Rightarrow> if EffectiveTLS first \<noteq> EffectiveTLS tls then first else tls
      | None \<Rightarrow> tls)"

definition endpoint_route ::
  "route_env \<Rightarrow> AppConfig \<Rightarrow> string \<Rightarrow> (string \<rightharpoonup> string) \<Rightarrow> EndpointConfig \<Rightarrow> string \<Rightarrow> Route" where
  "endpoint_route env app certDir domainTLS ep upstream =
     \<lparr>AppSlug = a_name app, AppID = 0, Domain = ep_domain ep, Upstream = upstream,
      TLS = endpoint_tls domainTLS ep, CertDir = certDir, RateLimit = app_rate_limit env app,
      AllowedIPs = app_allowed_ips app, Protocol = endpoint_protocol ep, Path = ep_path ep\<rparr>"

text \<open>
  The loop over the endpoints: \<open>seenMatch\<close> are the matcher keys already routed, \<open>domainTLS\<close>
  the first TLS mode of each domain, \<open>certDir\<close> the app's \<open>certs\<close> folder.
\<close>

fun route_loop ::
  "route_env \<Rightarrow> AppConfig \<Rightarrow> string \<Rightarrow> string set \<Rightarrow> (string \<rightharpoonup> string) \<Rightarrow> EndpointConfig list \<Rightarrow> Route list" where
  "route_loop env app certDir seenMatch domainTLS [] = []"
| "route_loop env app certDir seenMatch domainTLS (ep # eps) =
     (if ep_domain ep = [] then route_loop env app certDir seenMatch domainTLS eps
      else if \<not> ValidProtocol (endpoint_protocol ep) then route_loop env app certDir seenMatch domainTLS eps
      else if ep_path ep \<noteq> [] \<and> \<not> ValidPath (ep_path ep) then route_loop env app certDir seenMatch domainTLS eps
      else case resolveEndpointUpstream env app ep of
        Inl _ \<Rightarrow> route_loop env app certDir seenMatch domainTLS eps
      | Inr upstream \<Rightarrow>
          (let matchKey = EndpointMatchKey (ep\<lparr>ep_protocol := endpoint_protocol ep\<rparr>) in
           if matchKey \<in> seenMatch then route_loop env app certDir seenMatch domainTLS eps
           else endpoint_route env app certDir domainTLS ep upstream #
                route_loop env app certDir (insert matchKey seenMatch)
                  (case domainTLS (ep_domain ep) of
                     Some _ \<Rightarrow> domainTLS | None \<Rightarrow> domainTLS(ep_domain ep \<mapsto> endpoint_tls domainTLS ep)) eps))"

definition ResolveRoutes :: "route_env \<Rightarrow> AppConfig \<Rightarrow> Route list" where
  "ResolveRoutes env app =
     (if a_endpoints app = [] then []
      else let certDir = (if a_compose_path app = [] then [] else join_path [dir_path (a_compose_path app), ''certs''])
           in route_loop env app certDir {} Map.empty (a_endpoints app))"

subsection \<open>No two routes of an app shadow each other\<close>

definition route_key :: "Route \<Rightarrow> string" where
  "route_key r = Domain r @ ''|grpc='' @ (if Protocol r = ProtocolGRPC then ''true'' else ''false'') @ ''|'' @ Path r"

definition route_ok :: "Route \<Rightarrow> bool" where
  "route_ok r \<longleftrightarrow> Domain r \<noteq> [] \<and> Protocol r \<noteq> [] \<and> ValidProtocol (Protocol r) \<and> (Path r = [] \<or> ValidPath (Path r))"

text \<open>One round of the loop: the endpoint is skipped or yields one route.\<close>

definition route_step_ok ::
  "route_env \<Rightarrow> AppConfig \<Rightarrow> string set \<Rightarrow> (string \<rightharpoonup> string) \<Rightarrow> Route \<Rightarrow> (string \<rightharpoonup> string) \<Rightarrow> bool" where
  "route_step_ok env app seen dt r dt' \<longleftrightarrow>
     route_ok r \<and> route_key r \<notin> seen \<and> AppSlug r = a_name app \<and>
     RateLimit r = app_rate_limit env app \<and> AllowedIPs r = app_allowed_ips app \<and>
     (case dt (Domain r) of
        None \<Rightarrow> dt' = dt(Domain r \<mapsto> TLS r)
      | Some t \<Rightarrow> dt' = dt \<and> EffectiveTLS (TLS r) = EffectiveTLS t)"

lemma endpoint_protocol_ne: "endpoint_protocol ep \<noteq> []"
  by (simp add: endpoint_protocol_def ProtocolHTTP_def Let_def)

lemma route_key_endpoint_route:
  "route_key (endpoint_route env app cd dt ep u) = EndpointMatchKey (ep\<lparr>ep_protocol := endpoint_protocol ep\<rparr>)"
  by (simp add: endpoint_route_def route_key_def EndpointMatchKey_def)

lemma endpoint_route_ok:
  assumes "ep_domain ep \<noteq> []" "ValidProtocol (endpoint_protocol ep)" "ep_path ep = [] \<or> ValidPath (ep_path ep)"
    and "route_key (endpoint_route env app cd dt ep u) \<notin> seen"
  shows "route_step_ok env app seen dt (endpoint_route env app cd dt ep u)
    (case dt (ep_domain ep) of Some _ \<Rightarrow> dt | None \<Rightarrow> dt(ep_domain ep \<mapsto> endpoint_tls dt ep))"
  using assms endpoint_protocol_ne [of ep]
  by (auto simp: route_step_ok_def route_ok_def endpoint_route_def endpoint_tls_def Let_def split: option.splits)

lemma route_loop_step:
  "route_loop env app cd seen dt (ep # eps) = route_loop env app cd seen dt eps \<or>
   (\<exists>r dt'. route_loop env app cd seen dt (ep # eps) = r # route_loop env app cd (insert (route_key r) seen) dt' eps \<and>
      Domain r = ep_domain ep \<and> Path r = ep_path ep \<and> route_step_ok env app seen dt r dt')"
proof (cases "ep_domain ep = [] \<or> \<not> ValidProtocol (endpoint_protocol ep) \<or> (ep_path ep \<noteq> [] \<and> \<not> ValidPath (ep_path ep))")
  case True
  then show ?thesis by auto
next
  case ok: False
  show ?thesis
  proof (cases "resolveEndpointUpstream env app ep")
    case (Inl e)
    then show ?thesis by auto
  next
    case (Inr u)
    let ?r = "endpoint_route env app cd dt ep u"
    show ?thesis
    proof (cases "route_key ?r \<in> seen")
      case True
      then show ?thesis using ok Inr by (auto simp: Let_def route_key_endpoint_route)
    next
      case False
      have "route_loop env app cd seen dt (ep # eps) = ?r # route_loop env app cd (insert (route_key ?r) seen)
          (case dt (ep_domain ep) of Some _ \<Rightarrow> dt | None \<Rightarrow> dt(ep_domain ep \<mapsto> endpoint_tls dt ep)) eps"
        using ok Inr False by (auto simp: Let_def route_key_endpoint_route)
      moreover have "Domain ?r = ep_domain ep" "Path ?r = ep_path ep" by (simp_all add: endpoint_route_def)
      ultimately show ?thesis using ok False endpoint_route_ok by blast
    qed
  qed
qed

lemma route_loop_fields:
  "r \<in> set (route_loop env app cd seen dt eps) \<Longrightarrow>
     route_ok r \<and> route_key r \<notin> seen \<and> AppSlug r = a_name app \<and> RateLimit r = app_rate_limit env app \<and>
     AllowedIPs r = app_allowed_ips app \<and> (\<exists>ep \<in> set eps. Domain r = ep_domain ep \<and> Path r = ep_path ep)"
proof (induction eps arbitrary: seen dt)
  case (Cons ep eps)
  from route_loop_step [of env app cd seen dt ep eps] Cons show ?case
    by (fastforce simp: route_step_ok_def simp del: route_loop.simps)
qed simp

lemma route_loop_distinct: "distinct (map route_key (route_loop env app cd seen dt eps))"
proof (induction eps arbitrary: seen dt)
  case (Cons ep eps)
  from route_loop_step [of env app cd seen dt ep eps] show ?case
  proof (elim disjE exE conjE)
    fix r dt'
    assume e: "route_loop env app cd seen dt (ep # eps) = r # route_loop env app cd (insert (route_key r) seen) dt' eps"
    have "route_key r \<notin> set (map route_key (route_loop env app cd (insert (route_key r) seen) dt' eps))"
      using route_loop_fields by fastforce
    with Cons.IH show ?thesis by (simp add: e del: route_loop.simps)
  qed (simp add: Cons.IH del: route_loop.simps)
qed simp

text \<open>The TLS modes of a domain agree, within the routes and with the map of earlier ones.\<close>

definition tls_agree :: "(string \<rightharpoonup> string) \<Rightarrow> Route list \<Rightarrow> bool" where
  "tls_agree dt rs \<longleftrightarrow>
     (\<forall>r \<in> set rs. \<forall>t. dt (Domain r) = Some t \<longrightarrow> EffectiveTLS (TLS r) = EffectiveTLS t) \<and>
     (\<forall>r \<in> set rs. \<forall>q \<in> set rs. Domain r = Domain q \<longrightarrow> EffectiveTLS (TLS r) = EffectiveTLS (TLS q))"

lemma tls_agree_Cons:
  assumes s: "route_step_ok env app seen dt r dt'" and t: "tls_agree dt' rs"
  shows "tls_agree dt (r # rs)"
proof -
  have old: "EffectiveTLS (TLS q) = EffectiveTLS u" if "q \<in> set rs" "dt' (Domain q) = Some u" for q u
    using t that unfolding tls_agree_def by blast
  have ext: "dt' d = Some u" if "dt d = Some u" for d u
    using s that by (cases "dt (Domain r)") (auto simp: route_step_ok_def)
  obtain w where w: "dt' (Domain r) = Some w" "EffectiveTLS (TLS r) = EffectiveTLS w"
    using s by (cases "dt (Domain r)") (auto simp: route_step_ok_def)
  have d: "EffectiveTLS (TLS q) = EffectiveTLS (TLS r)" if "q \<in> set rs" "Domain q = Domain r" for q
    using old [OF that(1), of w] w that(2) by simp
  have m: "EffectiveTLS (TLS q) = EffectiveTLS u" if "q \<in> set rs" "dt (Domain q) = Some u" for q u
    using old [OF that(1) ext [OF that(2)]] .
  have p: "EffectiveTLS (TLS x) = EffectiveTLS (TLS y)" if "x \<in> set rs" "y \<in> set rs" "Domain x = Domain y" for x y
    using t that unfolding tls_agree_def by blast
  have r: "EffectiveTLS (TLS r) = EffectiveTLS u" if "dt (Domain r) = Some u" for u
    using s that by (simp add: route_step_ok_def)
  show ?thesis unfolding tls_agree_def
  proof (intro conjI ballI allI impI)
    fix x u assume "x \<in> set (r # rs)" "dt (Domain x) = Some u"
    then show "EffectiveTLS (TLS x) = EffectiveTLS u" using m r by auto
  next
    fix x y assume "x \<in> set (r # rs)" "y \<in> set (r # rs)" "Domain x = Domain y"
    then show "EffectiveTLS (TLS x) = EffectiveTLS (TLS y)"
      using d [of x] d [of y] p [of x y] by (elim set_ConsD [THEN disjE]) auto
  qed
qed

lemma route_loop_tls: "tls_agree dt (route_loop env app cd seen dt eps)"
proof (induction eps arbitrary: seen dt)
  case Nil
  then show ?case by (simp add: tls_agree_def)
next
  case (Cons ep eps)
  from route_loop_step [of env app cd seen dt ep eps] show ?case
  proof (elim disjE exE conjE)
    fix r dt'
    assume e: "route_loop env app cd seen dt (ep # eps) = r # route_loop env app cd (insert (route_key r) seen) dt' eps"
      and s: "route_step_ok env app seen dt r dt'"
    show ?thesis unfolding e by (rule tls_agree_Cons [OF s Cons.IH])
  qed (simp only: Cons.IH)
qed

lemmas ResolveRoutes_loop = ResolveRoutes_def Let_def

lemma ResolveRoutes_cases:
  "ResolveRoutes env app = [] \<or> (\<exists>cd. ResolveRoutes env app = route_loop env app cd {} Map.empty (a_endpoints app))"
  by (auto simp: ResolveRoutes_loop)

lemma ResolveRoutes_fields:
  assumes "r \<in> set (ResolveRoutes env app)"
  shows "route_ok r \<and> AppSlug r = a_name app \<and> RateLimit r = app_rate_limit env app \<and> AllowedIPs r = app_allowed_ips app"
  using ResolveRoutes_cases [of env app]
proof
  assume "\<exists>cd. ResolveRoutes env app = route_loop env app cd {} Map.empty (a_endpoints app)"
  then obtain cd where "ResolveRoutes env app = route_loop env app cd {} Map.empty (a_endpoints app)" by blast
  with assms have "r \<in> set (route_loop env app cd {} Map.empty (a_endpoints app))" by simp
  from route_loop_fields [OF this] show ?thesis by simp
qed (use assms in simp)

lemma ResolveRoutes_distinct: "distinct (map route_key (ResolveRoutes env app))"
  using ResolveRoutes_cases [of env app] route_loop_distinct by (metis distinct.simps(1) list.simps(8))

text \<open>
  The routes of an app never produce the same Caddy matcher twice, each has a domain,
  a valid protocol and an empty or valid path, and all carry the app's slug, rate limit
  and allowlist, whatever the compose file contains.
\<close>

theorem ResolveRoutes_sound:
  "distinct (map route_key (ResolveRoutes env app)) \<and>
   list_all (\<lambda>r. route_ok r \<and> AppSlug r = a_name app \<and> RateLimit r = app_rate_limit env app \<and>
     AllowedIPs r = app_allowed_ips app) (ResolveRoutes env app)"
  using ResolveRoutes_fields ResolveRoutes_distinct by (simp add: list_all_iff)

text \<open>
  All routes of an app on one domain have the same effective TLS mode.
\<close>

theorem ResolveRoutes_tls:
  assumes "r \<in> set (ResolveRoutes env app)" "q \<in> set (ResolveRoutes env app)" "Domain r = Domain q"
  shows "EffectiveTLS (TLS r) = EffectiveTLS (TLS q)"
proof -
  have "tls_agree Map.empty (ResolveRoutes env app)"
    using ResolveRoutes_cases [of env app]
  proof
    show "tls_agree Map.empty (ResolveRoutes env app)" if "ResolveRoutes env app = []"
      using that by (simp add: tls_agree_def)
    show "tls_agree Map.empty (ResolveRoutes env app)"
      if "\<exists>cd. ResolveRoutes env app = route_loop env app cd {} Map.empty (a_endpoints app)"
      using that by (elim exE) (simp only: route_loop_tls)
  qed
  with assms show ?thesis unfolding tls_agree_def by blast
qed

definition example_app :: AppConfig where
  "example_app = \<lparr>a_name = ''web'', a_compose_path = [],
     a_endpoints = [\<lparr>ep_domain = ''a.b'', ep_port = ''80'', ep_tls = ''off'', ep_service = ''s'', ep_protocol = [],
         ep_path = [], ep_index = 0\<rparr>,
       \<lparr>ep_domain = ''a.b'', ep_port = ''81'', ep_tls = ''auto'', ep_service = ''s'', ep_protocol = [],
         ep_path = ''/x'', ep_index = 1\<rparr>],
     a_labels = ExtractLabels [], a_services = [], a_project = None, a_file_refs = []\<rparr>"

definition example_env :: route_env where
  "example_env = \<lparr>upstream_env = [], docker = None, parse_duration = (\<lambda>_. None)\<rparr>"

lemma example_routes:
  "map (\<lambda>r. (Domain r, Path r, TLS r)) (ResolveRoutes example_env example_app) =
     [(''a.b'', [], ''off''), (''a.b'', ''/x'', ''off'')]"
  by (simp add: ResolveRoutes_def example_app_def example_env_def endpoint_protocol_def NormalizeProtocol_def
      ValidProtocol_def ValidPath_def endpointPathRe_def maxEndpointPathLen_def ProtocolHTTP_def ProtocolGRPC_def
      resolveEndpointUpstream_def containerOrDNS_def EndpointMatchKey_def endpoint_route_def endpoint_tls_def
      EffectiveTLS_def go_simps Let_def)

theorem ResolveRoutes_tls_witness:
  "EffectiveTLS (TLS (ResolveRoutes example_env example_app ! 0)) =
   EffectiveTLS (TLS (ResolveRoutes example_env example_app ! 1))"
proof -
  let ?rs = "ResolveRoutes example_env example_app"
  have len: "length ?rs = 2" using arg_cong [OF example_routes, of length] by simp
  have "Domain (?rs ! 0) = ''a.b''" "Domain (?rs ! 1) = ''a.b''"
    using arg_cong [OF example_routes, of "\<lambda>xs. fst (xs ! 0)"] arg_cong [OF example_routes, of "\<lambda>xs. fst (xs ! 1)"] len
    by simp_all
  then show ?thesis using len by (intro ResolveRoutes_tls [of _ example_env example_app]) auto
qed

subsection \<open>A validated app loses no endpoint\<close>

definition routed :: "route_env \<Rightarrow> AppConfig \<Rightarrow> EndpointConfig \<Rightarrow> Route \<Rightarrow> bool" where
  "routed env app ep r \<longleftrightarrow> Domain r = ep_domain ep \<and> Path r = ep_path ep \<and> Protocol r = endpoint_protocol ep \<and>
     EffectiveTLS (TLS r) = EffectiveTLS (ep_tls ep) \<and> resolveEndpointUpstream env app ep = Inr (Upstream r)"

definition routable :: "route_env \<Rightarrow> AppConfig \<Rightarrow> EndpointConfig \<Rightarrow> bool" where
  "routable env app ep \<longleftrightarrow> ep_domain ep \<noteq> [] \<and> (case resolveEndpointUpstream env app ep of Inl _ \<Rightarrow> False | Inr _ \<Rightarrow> True)"

lemma valid_endpoint_protocol:
  assumes "ValidProtocol (ep_protocol ep)"
  shows "endpoint_protocol ep = (if ep_protocol ep = [] then ProtocolHTTP else ep_protocol ep)"
  using assms
  by (auto simp: ValidProtocol_def endpoint_protocol_def NormalizeProtocol_def ProtocolHTTP_def ProtocolH2C_def
      ProtocolGRPC_def go_simps Let_def)

lemma valid_match_key:
  assumes "ValidProtocol (ep_protocol ep)"
  shows "EndpointMatchKey (ep\<lparr>ep_protocol := endpoint_protocol ep\<rparr>) = EndpointMatchKey ep"
    "ValidProtocol (endpoint_protocol ep)"
  using valid_endpoint_protocol [OF assms] assms
  by (auto simp: EndpointMatchKey_def ProtocolHTTP_def ProtocolGRPC_def ValidProtocol_def)

lemma route_loop_all:
  assumes "list_all endpoint_ok eps" "distinct (map EndpointMatchKey eps)" "tls_pairwise eps"
    and "list_all (routable env app) eps" "EndpointMatchKey ` set eps \<inter> seen = {}"
    and "\<forall>ep \<in> set eps. \<forall>t. dt (ep_domain ep) = Some t \<longrightarrow> EffectiveTLS (ep_tls ep) = EffectiveTLS t"
  shows "list_all2 (routed env app) eps (route_loop env app cd seen dt eps)"
  using assms
proof (induction eps arbitrary: seen dt)
  case (Cons ep eps)
  let ?key = "EndpointMatchKey ep"
  have ok: "ValidProtocol (ep_protocol ep)" "ep_path ep = [] \<or> ValidPath (ep_path ep)" "ep_domain ep \<noteq> []"
    using Cons.prems(1,4) by (auto simp: endpoint_ok_def routable_def)
  obtain u where u: "resolveEndpointUpstream env app ep = Inr u"
    using Cons.prems(4) by (auto simp: routable_def split: sum.splits)
  have seen: "?key \<notin> seen" using Cons.prems(5) by auto
  have tls: "EffectiveTLS (endpoint_tls dt ep) = EffectiveTLS (ep_tls ep)"
    using Cons.prems(6) EffectiveTLS_auto by (auto simp: endpoint_tls_def Let_def split: option.splits)
  let ?dt = "case dt (ep_domain ep) of Some _ \<Rightarrow> dt | None \<Rightarrow> dt(ep_domain ep \<mapsto> endpoint_tls dt ep)"
  have e: "route_loop env app cd seen dt (ep # eps) =
      endpoint_route env app cd dt ep u # route_loop env app cd (insert ?key seen) ?dt eps"
    using ok u seen valid_match_key [OF ok(1)] by (auto simp: Let_def)
  have r: "routed env app ep (endpoint_route env app cd dt ep u)"
    using tls u by (simp add: routed_def endpoint_route_def)
  have "\<forall>a \<in> set eps. \<forall>t. ?dt (ep_domain a) = Some t \<longrightarrow> EffectiveTLS (ep_tls a) = EffectiveTLS t"
  proof (intro ballI allI impI)
    fix a t assume a: "a \<in> set eps" "?dt (ep_domain a) = Some t"
    show "EffectiveTLS (ep_tls a) = EffectiveTLS t"
    proof (cases "dt (ep_domain ep) = None \<and> ep_domain a = ep_domain ep")
      case True
      then have "t = endpoint_tls dt ep" using a(2) by simp
      moreover have "EffectiveTLS (ep_tls a) = EffectiveTLS (ep_tls ep)"
        using Cons.prems(3) a(1) True unfolding tls_pairwise_def by (meson list.set_intros)
      ultimately show ?thesis using tls by simp
    next
      case False
      then have "dt (ep_domain a) = Some t" using a(2) by (auto split: option.splits)
      then show ?thesis using Cons.prems(6) a(1) by simp
    qed
  qed
  moreover have "tls_pairwise eps" using Cons.prems(3) tls_pairwise_Cons by blast
  moreover have "EndpointMatchKey ` set eps \<inter> insert ?key seen = {}" using Cons.prems(2,5) by auto
  ultimately have "list_all2 (routed env app) eps (route_loop env app cd (insert ?key seen) ?dt eps)"
    using Cons.prems(1,2,4) by (intro Cons.IH) auto
  with r show ?case unfolding e by simp
qed simp

text \<open>
  Property C20. An app whose endpoints pass \<open>ValidateEndpoints\<close>, name a domain and resolve to an
  upstream gets one route per endpoint, in order, with the endpoint's domain, path and protocol,
  its effective TLS mode and the upstream it resolves to.
\<close>

theorem ResolveRoutes_complete:
  assumes "ValidateEndpoints (a_endpoints app) = []" "list_all (routable env app) (a_endpoints app)"
  shows "list_all2 (routed env app) (a_endpoints app) (ResolveRoutes env app)"
proof (cases "a_endpoints app = []")
  case False
  then obtain cd where "ResolveRoutes env app = route_loop env app cd {} Map.empty (a_endpoints app)"
    by (auto simp: ResolveRoutes_loop)
  moreover have sp: "endpoints_spec (a_endpoints app)" using assms(1) ValidateEndpoints_iff by blast
  have "list_all2 (routed env app) (a_endpoints app) (route_loop env app cd {} Map.empty (a_endpoints app))"
  proof (rule route_loop_all [OF _ _ _ assms(2)])
    show "list_all endpoint_ok (a_endpoints app)" "distinct (map EndpointMatchKey (a_endpoints app))"
      "tls_pairwise (a_endpoints app)"
      using sp unfolding endpoints_spec_def tls_pairwise_def by blast+
  qed simp_all
  ultimately show ?thesis by (simp only:)
qed (simp add: ResolveRoutes_def)

theorem ResolveRoutes_complete_witness:
  "list_all2 (routed example_env (example_app\<lparr>a_endpoints := take 1 (a_endpoints example_app)\<rparr>))
     (take 1 (a_endpoints example_app))
     (ResolveRoutes example_env (example_app\<lparr>a_endpoints := take 1 (a_endpoints example_app)\<rparr>))"
proof -
  let ?app = "example_app\<lparr>a_endpoints := take 1 (a_endpoints example_app)\<rparr>"
  have "ValidateEndpoints (a_endpoints ?app) = []"
    by (simp add: ValidateEndpoints_def example_app_def ValidProtocol_def)
  moreover have "list_all (routable example_env ?app) (a_endpoints ?app)"
    by (simp add: routable_def example_app_def example_env_def resolveEndpointUpstream_def)
  ultimately have "list_all2 (routed example_env ?app) (a_endpoints ?app) (ResolveRoutes example_env ?app)"
    by (rule ResolveRoutes_complete)
  then show ?thesis by simp
qed

end
