(* ===== verification/RouteOrder.thy ===== *)
theory RouteOrder
  imports Routes
begin

text \<open>
  internal/proxy/match.go: the order in which routes are handed to Caddy (which serves a
  request by the first matching route), and the matcher and reverse-proxy blocks of a route.
\<close>

text \<open>Values of Caddy's JSON config; an object is its list of members.\<close>

datatype json = JNull | JBool bool | JInt int | JStr string | JArr "json list" | JObj "(string \<times> json) list"

definition jstrs :: "string list \<Rightarrow> json" where
  "jstrs xs = JArr (map JStr xs)"

definition isH2CUpstream :: "Route \<Rightarrow> bool" where
  "isH2CUpstream r \<longleftrightarrow> Protocol r = ProtocolGRPC \<or> Protocol r = ProtocolH2C"

definition routeRank :: "Route \<Rightarrow> nat" where
  "routeRank r = (if Protocol r = ProtocolGRPC then 0 else if Path r \<noteq> [] then 1 else 2)"

text \<open>The comparison of routes that share a domain.\<close>

definition routeLess :: "Route \<Rightarrow> Route \<Rightarrow> bool" where
  "routeLess a b =
     (if routeRank a \<noteq> routeRank b then routeRank a < routeRank b
      else if length (Path a) \<noteq> length (Path b) then length (Path a) > length (Path b)
      else Path a < Path b)"

text \<open>The domains in first-seen order, and the routes of one domain in input order.\<close>

fun route_domains :: "string list \<Rightarrow> Route list \<Rightarrow> string list" where
  "route_domains ds [] = ds"
| "route_domains ds (r # rs) =
     (let key = normalizeDomain (Domain r) in
      route_domains (if key \<in> set ds then ds else ds @ [key]) rs)"

definition route_group :: "Route list \<Rightarrow> string \<Rightarrow> Route list" where
  "route_group rs d = filter (\<lambda>r. normalizeDomain (Domain r) = d) rs"

definition orderRoutes :: "Route list \<Rightarrow> Route list" where
  "orderRoutes rs =
     concat (map (\<lambda>d. sort_by routeLess (route_group rs d)) (sort_by domainLess (route_domains [] rs)))"

definition routeMatcher :: "Route \<Rightarrow> json" where
  "routeMatcher r = JObj
     ([(''host'', jstrs [Domain r])] @
      (if Path r \<noteq> [] then [(''path'', jstrs [Path r])] else []) @
      (if Protocol r = ProtocolGRPC
       then [(''header'', JObj [(''Content-Type'', jstrs [''application/grpc*''])]),
             (''not'', JArr [JObj [(''header'', JObj [(''Content-Type'', jstrs [''application/grpc-web*''])])]])]
       else []))"

definition reverseProxyHandler :: "Route \<Rightarrow> json" where
  "reverseProxyHandler r = JObj
     ([(''handler'', JStr ''reverse_proxy''),
       (''upstreams'', JArr [JObj [(''dial'', JStr (Upstream r))]])] @
      (if isH2CUpstream r
       then [(''transport'', JObj [(''protocol'', JStr ''http''), (''versions'', jstrs [''h2c''])]),
             (''flush_interval'', JInt (-1))]
       else []))"

interpretation route_order: go_less routeLess
proof
  fix x y z :: Route
  show "\<not> routeLess x x" by (simp add: routeLess_def)
  show "routeLess x y \<Longrightarrow> routeLess y z \<Longrightarrow> routeLess x z"
    by (auto simp: routeLess_def split: if_splits)
  show "routeLess x z \<Longrightarrow> routeLess x y \<or> routeLess y z"
    by (auto simp: routeLess_def split: if_splits)
qed

subsection \<open>The domains\<close>

lemma route_domains_props:
  "distinct ds \<Longrightarrow> distinct (route_domains ds rs) \<and>
     set (route_domains ds rs) = set ds \<union> (\<lambda>r. normalizeDomain (Domain r)) ` set rs"
  by (induction ds rs rule: route_domains.induct) (auto simp: Let_def)

lemma distinct_route_domains: "distinct (route_domains [] rs)"
  using route_domains_props [of "[]"] by simp

lemma set_route_domains: "set (route_domains [] rs) = (\<lambda>r. normalizeDomain (Domain r)) ` set rs"
  using route_domains_props [of "[]"] by simp

subsection \<open>Order, permutation and stability\<close>

abbreviation route_domain :: "Route \<Rightarrow> string" where
  "route_domain r \<equiv> normalizeDomain (Domain r)"

text \<open>The order Caddy sees: by domain, then by rank and path.\<close>

definition served_before :: "Route \<Rightarrow> Route \<Rightarrow> bool" where
  "served_before a b \<longleftrightarrow> domainLess (route_domain a) (route_domain b) \<or>
     route_domain a = route_domain b \<and> routeLess a b"

interpretation served_order: go_less served_before
proof
  fix x y z :: Route
  show "\<not> served_before x x"
    by (simp add: served_before_def domain_order.irrefl route_order.irrefl)
  show "served_before x y \<Longrightarrow> served_before y z \<Longrightarrow> served_before x z"
    unfolding served_before_def using domain_order.trans route_order.trans by metis
  show "served_before x z \<Longrightarrow> served_before x y \<or> served_before y z"
    unfolding served_before_def using domain_order.total domain_order.neg_trans route_order.neg_trans
    by metis
qed

lemma sorted_wrt_concat_groups:
  assumes "sorted_wrt domainLess ds"
  shows "sorted_wrt (\<lambda>a b. \<not> served_before b a)
    (concat (map (\<lambda>d. sort_by routeLess (route_group rs d)) ds))"
  using assms
proof (induction ds)
  case (Cons d ds)
  have g: "route_domain r = e" if "r \<in> set (sort_by routeLess (route_group rs e))" for r e
    using that by (simp add: route_group_def)
  have "sorted_wrt (\<lambda>a b. \<not> routeLess b a) (sort_by routeLess (route_group rs d))"
    by (rule route_order.sorted_sort_by)
  then have 1: "sorted_wrt (\<lambda>a b. \<not> served_before b a) (sort_by routeLess (route_group rs d))"
  proof (rule sorted_wrt_mono_rel [rotated])
    fix a b assume "a \<in> set (sort_by routeLess (route_group rs d))" "b \<in> set (sort_by routeLess (route_group rs d))"
      "\<not> routeLess b a"
    then show "\<not> served_before b a" using g [of a d] g [of b d] domain_order.irrefl
      by (auto simp: served_before_def)
  qed
  have 2: "\<not> served_before b a" if "a \<in> set (sort_by routeLess (route_group rs d))"
      "e \<in> set ds" "b \<in> set (sort_by routeLess (route_group rs e))" for a b e
  proof -
    have "domainLess (route_domain a) (route_domain b)"
      using Cons.prems that g [OF that(1)] g [OF that(3)] by simp
    then show ?thesis using domain_order.asym domain_order.irrefl by (auto simp: served_before_def)
  qed
  show ?case using 1 2 Cons by (auto simp: sorted_wrt_append)
qed simp

lemma sorted_orderRoutes: "sorted_wrt (\<lambda>a b. \<not> served_before b a) (orderRoutes rs)"
  unfolding orderRoutes_def
  by (intro sorted_wrt_concat_groups domain_order.strict_sorted_sort_by distinct_route_domains)

lemma mset_concat_groups:
  "distinct ds \<Longrightarrow> mset (concat (map (\<lambda>d. sort_by routeLess (route_group rs d)) ds)) =
     filter_mset (\<lambda>r. route_domain r \<in> set ds) (mset rs)"
proof (induction ds)
  case (Cons d ds)
  have "filter_mset (\<lambda>r. route_domain r \<in> set (d # ds)) (mset rs) =
      filter_mset (\<lambda>r. route_domain r = d) (mset rs) + filter_mset (\<lambda>r. route_domain r \<in> set ds) (mset rs)"
    using Cons.prems by (induction rs) auto
  with Cons show ?case by (simp add: route_group_def mset_filter)
qed simp

lemma mset_orderRoutes: "mset (orderRoutes rs) = mset rs"
proof -
  have "mset (orderRoutes rs) = filter_mset (\<lambda>r. route_domain r \<in> set (sort_by domainLess (route_domains [] rs))) (mset rs)"
    unfolding orderRoutes_def by (rule mset_concat_groups) (simp add: distinct_route_domains)
  also have "\<dots> = mset rs"
    by (simp add: set_route_domains filter_mset_eq_conv)
  finally show ?thesis .
qed

lemma set_orderRoutes [simp]: "set (orderRoutes rs) = set rs"
  by (metis mset_orderRoutes set_mset_mset)

text \<open>Routes that compare equal keep their input order.\<close>

lemma filter_concat_groups:
  assumes P: "\<And>a b. P a \<Longrightarrow> P b \<Longrightarrow> route_domain a = route_domain b \<and> \<not> routeLess a b"
    and d: "distinct ds" "\<forall>r \<in> set rs. P r \<longrightarrow> route_domain r \<in> set ds"
  shows "filter P (concat (map (\<lambda>d. sort_by routeLess (route_group rs d)) ds)) = filter P rs"
proof -
  have g: "filter P (sort_by routeLess (route_group rs e)) = filter P (route_group rs e)" for e
    by (rule route_order.stable_sort_by) (use P in blast)
  have s: "filter P (concat (map (\<lambda>d. sort_by routeLess (route_group rs d)) ds)) =
      concat (map (\<lambda>d. filter P (route_group rs d)) ds)" for ds
    by (induction ds) (simp_all add: g)
  show ?thesis
  proof (cases "\<exists>r \<in> set rs. P r")
    case False
    then have "filter P (route_group rs e) = []" for e by (auto simp: route_group_def filter_empty_conv)
    moreover have "filter P rs = []" using False by (simp add: filter_empty_conv)
    ultimately show ?thesis by (simp only: s) simp
  next
    case True
    then obtain q where q: "q \<in> set rs" "P q" by blast
    have 1: "filter P (route_group rs e) = (if e = route_domain q then filter P rs else [])" for e
    proof (cases "e = route_domain q")
      case True
      have "filter P (route_group rs e) = filter (\<lambda>r. route_domain r = e \<and> P r) rs"
        by (simp add: route_group_def conj_commute)
      also have "\<dots> = filter P rs" using P [OF _ q(2)] True by (intro filter_cong refl) blast
      finally show ?thesis using True by simp
    next
      case False
      have "\<not> P r" if "r \<in> set (route_group rs e)" for r
        using P [of r q] q that False by (auto simp: route_group_def)
      then show ?thesis using False by simp
    qed
    have "route_domain q \<in> set ds" using d q by blast
    with d(1) have "concat (map (\<lambda>d. filter P (route_group rs d)) ds) = filter P rs"
    proof (induction ds)
      case (Cons e ds)
      show ?case
      proof (cases "e = route_domain q")
        case True
        with Cons.prems have "concat (map (\<lambda>d. filter P (route_group rs d)) ds) = []"
          by (auto simp: 1)
        with True show ?thesis by (simp add: 1)
      next
        case False
        with Cons show ?thesis by (simp add: 1)
      qed
    qed simp
    with s show ?thesis by simp
  qed
qed

lemma stable_orderRoutes:
  "filter (\<lambda>x. \<not> served_before x r \<and> \<not> served_before r x) (orderRoutes rs) =
   filter (\<lambda>x. \<not> served_before x r \<and> \<not> served_before r x) rs"
  unfolding orderRoutes_def
proof (rule filter_concat_groups)
  fix a b
  assume a: "\<not> served_before a r \<and> \<not> served_before r a" and b: "\<not> served_before b r \<and> \<not> served_before r b"
  then have "\<not> served_before a b" "\<not> served_before b a" using served_order.neg_trans by blast+
  then show "route_domain a = route_domain b \<and> \<not> routeLess a b"
    using domain_order.total unfolding served_before_def by metis
qed (simp_all add: distinct_route_domains set_route_domains)

text \<open>
  The order Caddy gets the routes in: exactly the given routes, sorted by domain (exact
  domains before wildcards), then gRPC and path routes before the ones they would be shadowed
  by; routes that compare equal keep their input order.
\<close>

theorem orderRoutes_correct:
  "mset (orderRoutes rs) = mset rs \<and> sorted_wrt (\<lambda>a b. \<not> served_before b a) (orderRoutes rs) \<and>
   filter (\<lambda>x. \<not> served_before x r \<and> \<not> served_before r x) (orderRoutes rs) =
   filter (\<lambda>x. \<not> served_before x r \<and> \<not> served_before r x) rs"
  using mset_orderRoutes sorted_orderRoutes stable_orderRoutes by blast

text \<open>The first route in that order whose domain matches has the least matching domain.\<close>

lemma first_match_least:
  assumes "find P (orderRoutes rs) = Some r" and "q \<in> set rs" "P q"
  shows "P r \<and> r \<in> set rs \<and> \<not> served_before q r"
proof -
  from assms(1) obtain i where i: "i < length (orderRoutes rs)" "P (orderRoutes rs ! i)" "r = orderRoutes rs ! i"
    "\<forall>j<i. \<not> P (orderRoutes rs ! j)" by (auto simp: find_Some_iff)
  obtain j where j: "j < length (orderRoutes rs)" "q = orderRoutes rs ! j"
    using assms(2) by (metis in_set_conv_nth set_orderRoutes)
  have "\<not> j < i" using i(4) j(2) assms(3) by auto
  then have "i = j \<or> i < j" by auto
  then have "\<not> served_before q r"
    using sorted_orderRoutes [of rs] i(3) j served_order.irrefl by (auto simp: sorted_wrt_iff_nth_less)
  moreover have "r \<in> set rs" using i(1,3) by (metis nth_mem set_orderRoutes)
  ultimately show ?thesis using i by simp
qed

text \<open>
  Property C19. Routing and the per-domain rules agree: the first route in the order Caddy gets
  whose domain matches the host is a route of the very domain the registries of allowlists and rate
  limits resolve the host to.
\<close>

theorem first_route_is_lookup:
  assumes first: "find (\<lambda>r. hostMatches (normalizeDomain (Domain r)) (normalizeDomain host)) (orderRoutes rs) = Some r"
    and star: "CHR ''*'' \<notin> set (normalizeDomain host)"
  shows "lookupHost (map (\<lambda>r. (normalizeDomain (Domain r), normalizeDomain (Domain r))) rs) host
    = Some (normalizeDomain (Domain r))"
proof -
  let ?h = "normalizeDomain host" and ?P = "\<lambda>r. hostMatches (route_domain r) (normalizeDomain host)"
  let ?m = "map (\<lambda>r. (route_domain r, route_domain r)) rs"
  obtain i where i: "i < length (orderRoutes rs)" "?P (orderRoutes rs ! i)" "r = orderRoutes rs ! i"
    using first by (auto simp: find_Some_iff)
  then have r: "?P r" by simp
  have "r \<in> set (orderRoutes rs)" unfolding i(3) by (rule nth_mem [OF i(1)])
  then have rin: "r \<in> set rs" by simp
  have least: "\<not> domainLess (route_domain q) (route_domain r)" if "q \<in> set rs" "?P q" for q
    using first_match_least [OF first that] by (simp add: served_before_def)
  have val: "v = k" if "map_of ?m k = Some v" for k v using map_of_SomeD [OF that] by auto
  have ne: "lookupHost ?m host \<noteq> None"
  proof
    assume "lookupHost ?m host = None"
    then have h: "?h \<notin> fst ` set ?m" and w: "\<forall>k \<in> fst ` set ?m. \<not> (CHR ''*'' \<in> set k \<and> hostMatches k ?h)"
      unfolding lookupHost_None by auto
    have k: "route_domain r \<in> fst ` set ?m" using rin by force
    then have "CHR ''*'' \<notin> set (route_domain r)" using w r by blast
    then have "route_domain r = ?h" using r by (simp add: hostMatches_def)
    with h k show False by simp
  qed
  then obtain v where v: "lookupHost ?m host = Some v" by auto
  obtain k where k: "map_of ?m k = Some v" "hostMatches k ?h"
    and alt: "k = ?h \<or> CHR ''*'' \<in> set k \<and> ?h \<notin> fst ` set ?m \<and>
      (\<forall>j \<in> fst ` set ?m. CHR ''*'' \<in> set j \<and> hostMatches j ?h \<longrightarrow> \<not> domainLess j k)"
    using lookupHost_Some [OF v] by blast
  have "k \<in> fst ` set ?m" using k(1) by (force dest: map_of_SomeD)
  then obtain q where q: "q \<in> set rs" "k = route_domain q" by auto
  have nl: "\<not> domainLess k (route_domain r)" using least [OF q(1)] k(2) q(2) by simp
  have "\<not> domainLess (route_domain r) k"
  proof (cases "CHR ''*'' \<in> set (route_domain r)")
    case True
    show ?thesis
    proof (cases "k = ?h")
      case True
      then have "domainLess k (route_domain r)"
        using star \<open>CHR ''*'' \<in> set (route_domain r)\<close> by (auto intro: domainLess_exact)
      with nl show ?thesis by simp
    next
      case False
      have "route_domain r \<in> fst ` set ?m" using rin by force
      then show ?thesis using alt False True r by blast
    qed
  next
    case False
    then have rh: "route_domain r = ?h" using r by (simp add: hostMatches_def)
    have "?h \<in> fst ` set ?m" using rin rh by force
    then show ?thesis using alt rh domain_order.irrefl by auto
  qed
  with nl have "k = route_domain r" using domain_order.total by blast
  with v val [OF k(1)] show ?thesis by simp
qed

definition example_route :: "string \<Rightarrow> Route" where
  "example_route d = \<lparr>AppSlug = ''web'', AppID = 1, Domain = d, Upstream = ''localhost:80'', TLS = ''auto'',
     CertDir = [], RateLimit = None, AllowedIPs = [], Protocol = ''http'', Path = []\<rparr>"

lemma first_route_is_lookup_witness:
  "lookupHost (map (\<lambda>r. (normalizeDomain (Domain r), normalizeDomain (Domain r)))
      [example_route ''*.a.b'', example_route ''x.a.b'']) ''x.a.b'' = Some (normalizeDomain ''x.a.b'')"
proof -
  have n: "normalizeDomain ''x.a.b'' = ''x.a.b''" "normalizeDomain ''*.a.b'' = ''*.a.b''"
    by (simp_all add: normalizeDomain_def go_simps Let_def)
  have "find (\<lambda>r. hostMatches (normalizeDomain (Domain r)) (normalizeDomain ''x.a.b''))
      (orderRoutes [example_route ''*.a.b'', example_route ''x.a.b'']) = Some (example_route ''x.a.b'')"
    by (simp add: orderRoutes_def n example_route_def route_group_def domainLess_def hostMatches_def Let_def)
  from first_route_is_lookup [OF this] show ?thesis by (simp add: n example_route_def)
qed

end
