(* ===== verification/Limiter.thy ===== *)
theory Limiter
  imports Prelude
begin

text \<open>
  What a keyed request limiter promises, whatever keeps its buckets: a call for a key acts on
  that key's bucket only, a live bucket (not yet due for a refill) grants at most its
  remaining budget, and a new or refilled bucket starts within the fresh budget. The bound on
  the requests granted within one window is proved here once, for both limiters of the
  program: the per-IP limiter of the API and the per-domain limiter of the proxy.
\<close>

text \<open>The number of granted calls of a key in a run of calls.\<close>

fun grants ::
  "(instant \<Rightarrow> string \<Rightarrow> 's \<Rightarrow> bool \<times> 's) \<Rightarrow> string \<Rightarrow> (instant \<times> string) list \<Rightarrow> 's \<Rightarrow> nat" where
  "grants allow k [] s = 0"
| "grants allow k ((now, j) # calls) s =
     (let (ok, s') = allow now j s
      in (if ok \<and> j = k then 1 else 0) + grants allow k calls s')"

text \<open>The limiter has room for the key of every call of a run, at its time.\<close>

fun run_room ::
  "(instant \<Rightarrow> string \<Rightarrow> 's \<Rightarrow> bool \<times> 's) \<Rightarrow> ('s \<Rightarrow> instant \<Rightarrow> string \<Rightarrow> bool) \<Rightarrow>
     (instant \<times> string) list \<Rightarrow> 's \<Rightarrow> bool" where
  "run_room allow room [] s = True"
| "run_room allow room ((now, j) # calls) s = (room s now j \<and> run_room allow room calls (snd (allow now j s)))"

locale keyed_limiter =
  fixes inv :: "'s \<Rightarrow> bool"
    and room :: "'s \<Rightarrow> instant \<Rightarrow> string \<Rightarrow> bool"
    and lookup :: "'s \<Rightarrow> string \<Rightarrow> 'b option"
    and allow :: "instant \<Rightarrow> string \<Rightarrow> 's \<Rightarrow> bool \<times> 's"
    and budget :: "'s \<Rightarrow> 'b \<Rightarrow> nat"
    and due :: "'s \<Rightarrow> 'b \<Rightarrow> instant"
    and fresh :: "'s \<Rightarrow> nat"
    and window :: "'s \<Rightarrow> duration"
  assumes inv_allow: "inv s \<Longrightarrow> room s now k \<Longrightarrow> inv (snd (allow now k s))"
    and config_allow: "fresh (snd (allow now k s)) = fresh s" "window (snd (allow now k s)) = window s"
      "budget (snd (allow now k s)) = budget s" "due (snd (allow now k s)) = due s"
    and budget_fresh: "inv s \<Longrightarrow> lookup s k = Some b \<Longrightarrow> budget s b \<le> fresh s"
    and allow_live: "inv s \<Longrightarrow> lookup s k = Some b \<Longrightarrow> now < due s b \<Longrightarrow>
      \<exists>b'. lookup (snd (allow now k s)) k = Some b' \<and> due s b' = due s b \<and>
        budget s b' + (if fst (allow now k s) then 1 else 0) \<le> budget s b"
    and allow_new: "inv s \<Longrightarrow> lookup s k = None \<or> (\<exists>b. lookup s k = Some b \<and> due s b \<le> now) \<Longrightarrow>
      \<exists>b'. lookup (snd (allow now k s)) k = Some b' \<and> due s b' = now + window s \<and>
        budget s b' + (if fst (allow now k s) then 1 else 0) \<le> fresh s"
    and other_live: "inv s \<Longrightarrow> room s now k \<Longrightarrow> j \<noteq> k \<Longrightarrow> lookup s j = Some b \<Longrightarrow> now < due s b \<Longrightarrow>
      lookup (snd (allow now k s)) j = Some b"
    and other_shrink: "inv s \<Longrightarrow> j \<noteq> k \<Longrightarrow>
      lookup (snd (allow now k s)) j = lookup s j \<or> lookup (snd (allow now k s)) j = None"
begin

lemma grants_Cons:
  "grants allow k ((now, j) # calls) s =
     (if fst (allow now j s) \<and> j = k then 1 else 0) + grants allow k calls (snd (allow now j s))"
  by (simp add: case_prod_beta Let_def)

text \<open>While a bucket is live it grants no more than its budget.\<close>

lemma grants_live:
  assumes "inv s" "run_room allow room calls s" "lookup s k = Some b" "\<forall>c \<in> set calls. fst c < due s b"
  shows "grants allow k calls s \<le> budget s b"
  using assms
proof (induction calls arbitrary: s b)
  case (Cons c calls)
  obtain now j where c: "c = (now, j)" by (cases c)
  let ?s' = "snd (allow now j s)"
  have s': "inv ?s'" "run_room allow room calls ?s'" using Cons.prems inv_allow c by auto
  have now: "now < due s b" using Cons.prems c by simp
  show ?case
  proof (cases "j = k")
    case True
    from allow_live [OF Cons.prems(1,3) now] obtain b' where b': "lookup ?s' k = Some b'"
      "due s b' = due s b" "budget s b' + (if fst (allow now k s) then 1 else 0) \<le> budget s b"
      using True by blast
    have "grants allow k calls ?s' \<le> budget ?s' b'"
      by (rule Cons.IH [OF s' b'(1)]) (use Cons.prems(4) b'(2) config_allow in auto)
    with b'(3) True show ?thesis by (auto simp: c grants_Cons config_allow simp del: grants.simps)
  next
    case False
    have "lookup ?s' k = Some b"
      by (rule other_live [OF Cons.prems(1) _ _ Cons.prems(3) now]) (use Cons.prems(2) False c in auto)
    then have "grants allow k calls ?s' \<le> budget ?s' b"
      by (rule Cons.IH [OF s']) (use Cons.prems(4) config_allow in auto)
    with False show ?thesis by (auto simp: c grants_Cons config_allow simp del: grants.simps)
  qed
qed simp

text \<open>One call on a missing or expired bucket, then the rest of the window.\<close>

lemma grants_after_new:
  assumes s: "inv s" "run_room allow room ((now, k) # calls) s"
    and new: "lookup s k = None \<or> (\<exists>b. lookup s k = Some b \<and> due s b \<le> now)"
    and t: "\<forall>c \<in> set calls. fst c < now + window s"
  shows "grants allow k ((now, k) # calls) s \<le> fresh s"
proof -
  let ?s' = "snd (allow now k s)"
  from allow_new [OF s(1) new] obtain b' where b': "lookup ?s' k = Some b'" "due s b' = now + window s"
    "budget s b' + (if fst (allow now k s) then 1 else 0) \<le> fresh s" by blast
  have "grants allow k calls ?s' \<le> budget ?s' b'"
    by (rule grants_live [OF inv_allow [OF s(1)] _ b'(1)]) (use s(2) t b'(2) config_allow in auto)
  with b'(3) show ?thesis by (auto simp: grants_Cons config_allow simp del: grants.simps)
qed

text \<open>
  All calls within one window from \<open>t\<close>: a key without a bucket gets at most the fresh budget,
  and whatever its bucket was, at most the rest of it and one refill.
\<close>

lemma grants_window_new:
  assumes "inv s" "run_room allow room calls s" "lookup s k = None"
    and "\<forall>c \<in> set calls. t \<le> fst c \<and> fst c < t + window s"
  shows "grants allow k calls s \<le> fresh s"
  using assms
proof (induction calls arbitrary: s)
  case (Cons c calls)
  obtain now j where c: "c = (now, j)" by (cases c)
  let ?s' = "snd (allow now j s)"
  show ?case
  proof (cases "j = k")
    case True
    have "\<forall>c \<in> set calls. fst c < now + window s" using Cons.prems(4) c by fastforce
    then show ?thesis using grants_after_new [of s now k calls] Cons.prems c True by simp
  next
    case False
    have "lookup ?s' k = None" using other_shrink [OF Cons.prems(1), of k j now] Cons.prems(3) False by auto
    moreover have "inv ?s'" "run_room allow room calls ?s'" using Cons.prems inv_allow c by auto
    ultimately have "grants allow k calls ?s' \<le> fresh ?s'"
      by (intro Cons.IH) (use Cons.prems(4) config_allow in auto)
    with False show ?thesis by (auto simp: c grants_Cons config_allow simp del: grants.simps)
  qed
qed simp

lemma grants_window:
  assumes "inv s" "run_room allow room calls s"
    and "\<forall>c \<in> set calls. t \<le> fst c \<and> fst c < t + window s"
  shows "grants allow k calls s \<le> (case lookup s k of None \<Rightarrow> 0 | Some b \<Rightarrow> budget s b) + fresh s"
  using assms
proof (induction calls arbitrary: s)
  case (Cons c calls)
  obtain now j where c: "c = (now, j)" by (cases c)
  let ?s' = "snd (allow now j s)"
  have s': "inv ?s'" "run_room allow room calls ?s'" using Cons.prems inv_allow c by auto
  have ih: "grants allow k calls ?s' \<le> (case lookup ?s' k of None \<Rightarrow> 0 | Some b \<Rightarrow> budget ?s' b) + fresh ?s'"
    by (rule Cons.IH [OF s']) (use Cons.prems(3) config_allow in auto)
  show ?case
  proof (cases "j = k")
    case True
    show ?thesis
    proof (cases "\<exists>b. lookup s k = Some b \<and> now < due s b")
      case live: True
      then obtain b where b: "lookup s k = Some b" "now < due s b" by blast
      from allow_live [OF Cons.prems(1) b] obtain b' where "lookup ?s' k = Some b'"
        "budget s b' + (if fst (allow now k s) then 1 else 0) \<le> budget s b" using True by blast
      with ih b True show ?thesis by (auto simp: c grants_Cons config_allow simp del: grants.simps)
    next
      case False
      then have "lookup s k = None \<or> (\<exists>b. lookup s k = Some b \<and> due s b \<le> now)"
        by (cases "lookup s k") (auto simp: not_less)
      moreover have "\<forall>c \<in> set calls. fst c < now + window s" using Cons.prems(3) c by fastforce
      ultimately have "grants allow k ((now, k) # calls) s \<le> fresh s"
        using grants_after_new Cons.prems c True by blast
      then show ?thesis using c True by simp
    qed
  next
    case False
    have "lookup ?s' k = lookup s k \<or> lookup ?s' k = None"
      using other_shrink [OF Cons.prems(1), of k j now] False by auto
    with ih False show ?thesis
      by (auto simp: c grants_Cons config_allow simp del: grants.simps split: option.splits)
  qed
qed simp

lemma grants_window_bound:
  assumes "inv s" "run_room allow room calls s"
    and "\<forall>c \<in> set calls. t \<le> fst c \<and> fst c < t + window s"
  shows "grants allow k calls s \<le> 2 * fresh s"
proof -
  have "(case lookup s k of None \<Rightarrow> 0 | Some b \<Rightarrow> budget s b) \<le> fresh s"
    using budget_fresh [OF assms(1)] by (simp split: option.splits)
  with grants_window [OF assms, of k] show ?thesis by linarith
qed

end

end
