(* ===== verification/GoHttp.thy ===== *)
theory GoHttp
  imports GoNet
begin

text \<open>
  The part of Go's \<open>net/http\<close> the handlers read: a request's address, host, headers, path and
  TLS state, and what a middleware does with it (answer with a status, or call the next handler).
\<close>

record http_request =
  Method :: string
  Host :: string
  RemoteAddr :: string
  Header :: "(string \<times> string list) list"
  URL_Path :: string
  TLS_state :: bool

text \<open>
  Header names are stored in canonical form: a name of token bytes has its first letter and
  every letter after a dash in upper case, the others in lower case; any other name is left alone.
\<close>

definition token_char :: "char \<Rightarrow> bool" where
  "token_char c \<longleftrightarrow> is_alnum c \<or> c \<in> set ''!#$%&*+-.^_`|~'' \<or> of_char c = (39 :: nat)"

fun canon_chars :: "bool \<Rightarrow> string \<Rightarrow> string" where
  "canon_chars up [] = []"
| "canon_chars up (c # cs) = (if up then upper_char c else lower_char c) # canon_chars (c = CHR ''-'') cs"

definition canonical_header_key :: "string \<Rightarrow> string" where
  "canonical_header_key s = (if list_all token_char s then canon_chars True s else s)"

text \<open>\<open>Header.Get\<close>: the first value, or the empty string.\<close>

definition header_get :: "http_request \<Rightarrow> string \<Rightarrow> string" where
  "header_get r name =
     (case map_of (Header r) (canonical_header_key name) of Some (v # _) \<Rightarrow> v | _ \<Rightarrow> [])"

datatype outcome = Responded int "(string \<times> string) list" | CalledNext

definition StatusNotFound :: int where
  "StatusNotFound = 404"

definition StatusTooManyRequests :: int where
  "StatusTooManyRequests = 429"

lemma header_get_examples:
  "canonical_header_key ''x-forwarded-for'' = ''X-Forwarded-For''"
  "canonical_header_key ''X Y'' = ''X Y''"
  by (simp_all add: canonical_header_key_def token_char_def is_alnum_def is_letter_def is_digit_def
      upper_char_def lower_char_def char_of_def bit_Suc_0_iff)

end
