(* ===== verification/RateLimit.thy ===== *)
theory RateLimit
  imports Limiter Routes GoHttp
begin

text \<open>
  internal/proxy/ratelimit.go. A \<open>domainLimiter\<close> keeps one bucket per client key, in a list
  ordered by last use, and bounds their number. The map \<open>d.buckets\<close> from keys to list elements
  is modelled by the list of its keys: the element of a key is the one of \<open>d.lru\<close> whose
  bucket carries that key (a bucket never changes its key). The registry maps normalized
  domains to pointers into a heap of limiters, so that a snapshot shares its limiters with
  the registry as in the code. SHA-256 (in hex) is a parameter.
\<close>

subsection \<open>Buckets\<close>

record rlBucket =
  rl_key :: string
  tokens :: int
  spare :: int
  over :: bool
  lastReset :: instant
  lastAccess :: instant

record domainLimiter =
  requests :: int
  window :: duration
  burst :: int
  by_key :: string
  maxBuckets :: nat
  buckets :: "string list"
  lru :: "rlBucket list"

definition maxRateLimitBuckets :: nat where
  "maxRateLimitBuckets = 10000"

definition maxRateLimitKeyLen :: nat where
  "maxRateLimitKeyLen = 128"

definition newDomainLimiter :: "RateLimitConfig \<Rightarrow> domainLimiter" where
  "newDomainLimiter cfg =
     \<lparr>requests = Requests cfg, window = Window cfg, burst = Burst cfg, by_key = By cfg,
      maxBuckets = maxRateLimitBuckets, buckets = [], lru = []\<rparr>"

definition sameConfig :: "domainLimiter \<Rightarrow> RateLimitConfig \<Rightarrow> bool" where
  "sameConfig d cfg \<longleftrightarrow> requests d = Requests cfg \<and> window d = Window cfg \<and> burst d = Burst cfg \<and> by_key d = By cfg"

definition removeElement :: "rlBucket \<Rightarrow> domainLimiter \<Rightarrow> domainLimiter" where
  "removeElement b d = d\<lparr>buckets := removeAll (rl_key b) (buckets d),
     lru := filter (\<lambda>x. rl_key x \<noteq> rl_key b) (lru d)\<rparr>"

lemma removeElement_shorter [termination_simp]:
  "b \<in> set (lru d) \<Longrightarrow> length (lru (removeElement b d)) < length (lru d)"
  by (simp add: removeElement_def) (metis (mono_tags, lifting) length_filter_less)

text \<open>\<open>evictIdle\<close>: from the back of the list, while the last bucket was last used before the cutoff.\<close>

function evictIdle :: "instant \<Rightarrow> domainLimiter \<Rightarrow> domainLimiter" where
  "evictIdle cutoff d =
     (if lru d = [] then d
      else if \<not> lastAccess (last (lru d)) < cutoff then d
      else evictIdle cutoff (removeElement (last (lru d)) d))"
  by pat_completeness auto
termination
  by (relation "measure (\<lambda>(_, d). length (lru d))") (auto intro: removeElement_shorter)

text \<open>The loop of \<open>allow\<close> that makes room: drop the least recently used bucket while the map is full.\<close>

function dropOldest :: "domainLimiter \<Rightarrow> domainLimiter" where
  "dropOldest d =
     (if length (buckets d) \<ge> maxBuckets d \<and> lru d \<noteq> [] then dropOldest (removeElement (last (lru d)) d) else d)"
  by pat_completeness auto
termination
  by (relation "measure (\<lambda>d. length (lru d))") (auto intro: removeElement_shorter)

declare evictIdle.simps [simp del] dropOldest.simps [simp del]

text \<open>The bucket of a key is brought to the front of the list, or made there.\<close>

definition openBucket :: "instant \<Rightarrow> string \<Rightarrow> domainLimiter \<Rightarrow> domainLimiter" where
  "openBucket now key d =
     (if key \<in> set (buckets d)
      then d\<lparr>lru := filter (\<lambda>b. rl_key b = key) (lru d) @ filter (\<lambda>b. rl_key b \<noteq> key) (lru d)\<rparr>
      else
        let d = (if length (buckets d) \<ge> maxBuckets d
                 then dropOldest (evictIdle (now + wrap64 (- window d)) d) else d);
            b = \<lparr>rl_key = key, tokens = requests d, spare = burst d, over = False,
                 lastReset = now, lastAccess = now\<rparr>
        in d\<lparr>buckets := key # buckets d, lru := b # lru d\<rparr>)"

definition refillBucket :: "instant \<Rightarrow> domainLimiter \<Rightarrow> rlBucket \<Rightarrow> rlBucket" where
  "refillBucket now d b =
     (let elapsed = time_sub now (lastReset b) in
      if elapsed \<ge> window d
      then b\<lparr>spare := (if \<not> over b \<or> elapsed \<ge> wrap64 (2 * window d) then burst d else spare b),
             over := False, tokens := requests d, lastReset := now\<rparr>
      else b)"

definition takeToken :: "rlBucket \<Rightarrow> bool \<times> rlBucket" where
  "takeToken b =
     (if tokens b > 0 then (True, b\<lparr>tokens := tokens b - 1\<rparr>)
      else let b = b\<lparr>over := True\<rparr> in
        if spare b > 0 then (True, b\<lparr>spare := spare b - 1\<rparr>) else (False, b))"

definition allow_bucket :: "instant \<Rightarrow> string \<Rightarrow> domainLimiter \<Rightarrow> bool \<times> domainLimiter" where
  "allow_bucket now key d =
     (let d = openBucket now key (evictIdle (now + wrap64 (- 2 * window d)) d) in
      case lru d of
        [] \<Rightarrow> (False, d)
      | b # bs \<Rightarrow>
          let (ok, b) = takeToken (refillBucket now d (b\<lparr>lastAccess := now\<rparr>))
          in (ok, d\<lparr>lru := b # bs\<rparr>))"

definition bucketKey :: "(string \<Rightarrow> string) \<Rightarrow> string \<Rightarrow> string" where
  "bucketKey sha256 key = (if length key > maxRateLimitKeyLen then ''sha256:'' @ sha256 key else key)"

definition allow_limiter :: "(string \<Rightarrow> string) \<Rightarrow> instant \<Rightarrow> string \<Rightarrow> domainLimiter \<Rightarrow> bool \<times> domainLimiter" where
  "allow_limiter sha256 now key d = allow_bucket now (bucketKey sha256 key) d"

subsection \<open>Eviction\<close>

definition limiter_ok :: "domainLimiter \<Rightarrow> bool" where
  "limiter_ok d \<longleftrightarrow> distinct (map rl_key (lru d)) \<and> distinct (buckets d) \<and>
     set (buckets d) = rl_key ` set (lru d) \<and> 0 < maxBuckets d \<and> length (lru d) \<le> maxBuckets d \<and>
     (\<forall>b \<in> set (lru d). tokens b \<le> requests d \<and> spare b \<le> burst d)"

definition same_settings :: "domainLimiter \<Rightarrow> domainLimiter \<Rightarrow> bool" where
  "same_settings d d' \<longleftrightarrow> requests d' = requests d \<and> window d' = window d \<and> burst d' = burst d \<and>
     by_key d' = by_key d \<and> maxBuckets d' = maxBuckets d"

text \<open>\<open>d'\<close> is \<open>d\<close> without some buckets at the back of the list, each of which satisfies \<open>P\<close>.\<close>

definition evicted :: "(rlBucket \<Rightarrow> bool) \<Rightarrow> domainLimiter \<Rightarrow> domainLimiter \<Rightarrow> bool" where
  "evicted P d d' \<longleftrightarrow> same_settings d d' \<and> limiter_ok d' \<and>
     (\<exists>bs. lru d = lru d' @ bs \<and> (\<forall>b \<in> set bs. P b))"

lemma same_settings_refl [simp]: "same_settings d d"
  by (simp add: same_settings_def)

lemma same_settings_trans: "same_settings a b \<Longrightarrow> same_settings b c \<Longrightarrow> same_settings a c"
  by (simp add: same_settings_def)

lemma evicted_refl: "limiter_ok d \<Longrightarrow> evicted P d d"
  by (simp add: evicted_def)

lemma evicted_trans: "evicted P a b \<Longrightarrow> evicted P b c \<Longrightarrow> evicted P a c"
  unfolding evicted_def by (auto intro: same_settings_trans)

lemma evicted_mono: "evicted P d d' \<Longrightarrow> (\<And>b. P b \<Longrightarrow> Q b) \<Longrightarrow> evicted Q d d'"
  unfolding evicted_def by blast

lemma evicted_last:
  assumes ok: "limiter_ok d" and ne: "lru d \<noteq> []" and P: "P (last (lru d))"
  shows "evicted P d (removeElement (last (lru d)) d)"
proof -
  obtain bs b where l: "lru d = bs @ [b]" using ne by (cases "lru d" rule: rev_cases) auto
  have d: "distinct (map rl_key bs)" "rl_key b \<notin> rl_key ` set bs" using ok l by (auto simp: limiter_ok_def)
  then have f: "filter (\<lambda>x. rl_key x \<noteq> rl_key b) bs = bs" by (metis (mono_tags, lifting) filter_id_conv imageI)
  have "lru (removeElement b d) = bs" using l f by (simp add: removeElement_def)
  moreover have "limiter_ok (removeElement b d)"
    using ok l d f by (auto simp: limiter_ok_def removeElement_def distinct_removeAll)
  moreover have "same_settings d (removeElement b d)" by (simp add: same_settings_def removeElement_def)
  ultimately show ?thesis using l P by (simp add: evicted_def)
qed

lemma evictIdle_evicted: "limiter_ok d \<Longrightarrow> evicted (\<lambda>b. lastAccess b < cutoff) d (evictIdle cutoff d)"
proof (induction cutoff d rule: evictIdle.induct)
  case (1 cutoff d)
  show ?case
  proof (cases "lru d = [] \<or> \<not> lastAccess (last (lru d)) < cutoff")
    case True
    then have "evictIdle cutoff d = d" by (subst evictIdle.simps) auto
    then show ?thesis using 1 evicted_refl by simp
  next
    case False
    let ?d = "removeElement (last (lru d)) d"
    have e: "evicted (\<lambda>b. lastAccess b < cutoff) d ?d" using False 1 by (intro evicted_last) auto
    then have "evicted (\<lambda>b. lastAccess b < cutoff) ?d (evictIdle cutoff ?d)"
      using False 1 by (auto simp: evicted_def)
    with e have "evicted (\<lambda>b. lastAccess b < cutoff) d (evictIdle cutoff ?d)" by (rule evicted_trans)
    moreover have "evictIdle cutoff d = evictIdle cutoff ?d"
      using False by (subst evictIdle.simps) simp
    ultimately show ?thesis by simp
  qed
qed

lemma dropOldest_evicted: "limiter_ok d \<Longrightarrow> evicted (\<lambda>_. True) d (dropOldest d)"
proof (induction d rule: dropOldest.induct)
  case (1 d)
  show ?case
  proof (cases "maxBuckets d \<le> length (buckets d) \<and> lru d \<noteq> []")
    case False
    then have "dropOldest d = d" by (subst dropOldest.simps) auto
    then show ?thesis using 1 evicted_refl by simp
  next
    case True
    let ?d = "removeElement (last (lru d)) d"
    have e: "evicted (\<lambda>_. True) d ?d" using True 1 by (intro evicted_last) auto
    then have "evicted (\<lambda>_. True) ?d (dropOldest ?d)" using True 1 by (auto simp: evicted_def)
    with e have "evicted (\<lambda>_. True) d (dropOldest ?d)" by (rule evicted_trans)
    moreover have "dropOldest d = dropOldest ?d" using True by (subst dropOldest.simps) simp
    ultimately show ?thesis by simp
  qed
qed

lemma length_buckets: "limiter_ok d \<Longrightarrow> length (buckets d) = length (lru d)"
  by (metis limiter_ok_def distinct_card length_map set_map)

lemma dropOldest_room: "limiter_ok d \<Longrightarrow> length (lru (dropOldest d)) < maxBuckets d"
proof (induction d rule: dropOldest.induct)
  case (1 d)
  show ?case
  proof (cases "maxBuckets d \<le> length (buckets d) \<and> lru d \<noteq> []")
    case False
    then have "dropOldest d = d" by (subst dropOldest.simps) auto
    then show ?thesis using 1 False length_buckets [of d] by (auto simp: limiter_ok_def)
  next
    case True
    let ?d = "removeElement (last (lru d)) d"
    have e: "evicted (\<lambda>_. True) d ?d" using True 1 by (intro evicted_last) auto
    moreover have "dropOldest d = dropOldest ?d" using True by (subst dropOldest.simps) simp
    ultimately show ?thesis using 1 True by (simp add: evicted_def same_settings_def)
  qed
qed

subsection \<open>One call\<close>

definition bucket_of :: "domainLimiter \<Rightarrow> string \<Rightarrow> rlBucket option" where
  "bucket_of d k = map_of (map (\<lambda>b. (rl_key b, b)) (lru d)) k"

lemma bucket_of_Some: "limiter_ok d \<Longrightarrow> bucket_of d k = Some b \<longleftrightarrow> b \<in> set (lru d) \<and> rl_key b = k"
  by (auto simp: bucket_of_def limiter_ok_def comp_def)

lemma bucket_of_None: "bucket_of d k = None \<longleftrightarrow> (\<forall>b \<in> set (lru d). rl_key b \<noteq> k)"
  by (auto simp: bucket_of_def map_of_eq_None_iff image_image)

definition fresh_bucket :: "instant \<Rightarrow> string \<Rightarrow> domainLimiter \<Rightarrow> rlBucket" where
  "fresh_bucket now k d = \<lparr>rl_key = k, tokens = requests d, spare = burst d, over = False,
     lastReset = now, lastAccess = now\<rparr>"

text \<open>What \<open>openBucket\<close> leaves: the bucket of the key first, all others from before.\<close>

definition opened :: "instant \<Rightarrow> string \<Rightarrow> domainLimiter \<Rightarrow> domainLimiter \<Rightarrow> rlBucket \<Rightarrow> rlBucket list \<Rightarrow> bool" where
  "opened now k d d' b bs \<longleftrightarrow> lru d' = b # bs \<and> limiter_ok d' \<and> same_settings d d' \<and>
     (bucket_of d k = Some b \<or> bucket_of d k = None \<and> b = fresh_bucket now k d) \<and>
     (\<forall>x \<in> set bs. x \<in> set (lru d) \<and> rl_key x \<noteq> k) \<and> (\<forall>P. sorted_wrt P (lru d) \<longrightarrow> sorted_wrt P bs) \<and>
     (k \<in> set (buckets d) \<or> length (buckets d) < maxBuckets d \<longrightarrow>
        (\<forall>x \<in> set (lru d). rl_key x \<noteq> k \<longrightarrow> x \<in> set bs))"

lemma filter_eq_single: "distinct xs \<Longrightarrow> x \<in> set xs \<Longrightarrow> filter (\<lambda>y. y = x) xs = [x]"
  by (induction xs) (auto simp: filter_empty_conv)

lemma openBucket_present:
  assumes ok: "limiter_ok d" and k: "bucket_of d k = Some b"
  shows "opened now k d (openBucket now k d) b (filter (\<lambda>x. rl_key x \<noteq> k) (lru d))"
proof -
  have b: "b \<in> set (lru d)" "rl_key b = k" using k bucket_of_Some [OF ok] by auto
  have kb: "k \<in> set (buckets d)" using ok b by (auto simp: limiter_ok_def)
  have dist: "distinct (lru d)" "inj_on rl_key (set (lru d))" using ok by (simp_all add: limiter_ok_def distinct_map)
  have "filter (\<lambda>x. rl_key x = k) (lru d) = filter (\<lambda>x. x = b) (lru d)"
    using b dist(2) by (intro filter_cong) (auto simp: inj_on_def)
  also have "\<dots> = [b]" using dist(1) b(1) by (rule filter_eq_single)
  finally have f: "filter (\<lambda>x. rl_key x = k) (lru d) = [b]" .
  let ?r = "filter (\<lambda>x. rl_key x \<noteq> k) (lru d)"
  have o: "openBucket now k d = d\<lparr>lru := b # ?r\<rparr>" using kb f by (simp add: openBucket_def)
  have set: "set (b # ?r) = set (lru d)" using b dist(2) by (auto simp: inj_on_def)
  have len: "length (b # ?r) = length (lru d)"
    using f sum_length_filter_compl [of "\<lambda>x. rl_key x = k" "lru d"] by simp
  have "distinct (map rl_key (b # ?r))"
    using ok b(2) by (auto simp: limiter_ok_def distinct_map_filter)
  then have "limiter_ok (d\<lparr>lru := b # ?r\<rparr>)"
    using ok set len by (simp add: limiter_ok_def del: set_filter)
  then show ?thesis using k o by (auto simp: opened_def same_settings_def sorted_wrt_filter)
qed

lemma openBucket_absent:
  assumes ok: "limiter_ok d" and k: "bucket_of d k = None"
  shows "\<exists>bs. opened now k d (openBucket now k d) (fresh_bucket now k d) bs"
proof -
  have kb: "k \<notin> set (buckets d)" using ok k by (auto simp: limiter_ok_def bucket_of_None)
  let ?full = "maxBuckets d \<le> length (buckets d)"
  let ?e = "evictIdle (now + wrap64 (- window d)) d"
  obtain d0 where d0: "d0 = (if ?full then dropOldest ?e else d)" by blast
  have e1: "evicted (\<lambda>_. True) d ?e" by (rule evicted_mono [OF evictIdle_evicted [OF ok]]) simp
  then have oke: "limiter_ok ?e" by (simp add: evicted_def)
  have e: "evicted (\<lambda>_. True) d d0"
  proof (cases ?full)
    case True
    with evicted_trans [OF e1 dropOldest_evicted [OF oke]] d0 show ?thesis by simp
  next
    case False
    with ok d0 show ?thesis by (simp add: evicted_refl)
  qed
  then obtain bs where okd: "limiter_ok d0" and st: "same_settings d d0" and l: "lru d = lru d0 @ bs"
    by (auto simp: evicted_def)
  have "maxBuckets ?e = maxBuckets d" using e1 by (simp add: evicted_def same_settings_def)
  then have room: "length (lru d0) < maxBuckets d0"
    using dropOldest_room [OF oke] length_buckets [OF ok] d0 st
    by (cases ?full) (simp_all add: same_settings_def)
  have fb: "fresh_bucket now k d0 = fresh_bucket now k d" using st by (simp add: fresh_bucket_def same_settings_def)
  then have o: "openBucket now k d = d0\<lparr>buckets := k # buckets d0, lru := fresh_bucket now k d # lru d0\<rparr>"
    using kb d0 by (simp only: openBucket_def Let_def fresh_bucket_def if_False)
  have nk: "\<forall>x \<in> set (lru d0). rl_key x \<noteq> k" using k l unfolding bucket_of_None by simp
  then have nb: "k \<notin> set (buckets d0)" using okd by (auto simp: limiter_ok_def)
  have fk: "rl_key (fresh_bucket now k d) = k" "tokens (fresh_bucket now k d) = requests d"
    "spare (fresh_bucket now k d) = burst d" by (simp_all add: fresh_bucket_def)
  have "limiter_ok (openBucket now k d)"
    unfolding o using okd room nk nb st fk by (auto simp: limiter_ok_def same_settings_def)
  moreover have "same_settings d (openBucket now k d)" unfolding o using st by (simp add: same_settings_def)
  moreover have "lru (openBucket now k d) = fresh_bucket now k d # lru d0" unfolding o by simp
  moreover have "\<forall>x \<in> set (lru d0). x \<in> set (lru d)" using l by simp
  moreover have "\<forall>P. sorted_wrt P (lru d) \<longrightarrow> sorted_wrt P (lru d0)" using l by (simp add: sorted_wrt_append)
  moreover have "k \<in> set (buckets d) \<or> length (buckets d) < maxBuckets d \<longrightarrow> lru d0 = lru d"
    using kb d0 by auto
  ultimately show ?thesis using nk k unfolding opened_def by (intro exI [of _ "lru d0"]) auto
qed

text \<open>A whole call: \<open>d0\<close> is the limiter after the idle buckets are gone.\<close>

definition bucket_after :: "instant \<Rightarrow> domainLimiter \<Rightarrow> rlBucket \<Rightarrow> bool \<times> rlBucket" where
  "bucket_after now d b = takeToken (refillBucket now d (b\<lparr>lastAccess := now\<rparr>))"

lemma bucket_after_ok:
  assumes "tokens b \<le> requests d" "spare b \<le> burst d"
  shows "tokens (snd (bucket_after now d b)) \<le> requests d \<and> spare (snd (bucket_after now d b)) \<le> burst d
    \<and> rl_key (snd (bucket_after now d b)) = rl_key b \<and> lastAccess (snd (bucket_after now d b)) = now"
  using assms by (auto simp: bucket_after_def takeToken_def refillBucket_def Let_def)

lemma refillBucket_cong:
  assumes "same_settings d d0"
  shows "refillBucket now d0 b = refillBucket now d b"
  using assms unfolding same_settings_def refillBucket_def by presburger

lemma allow_bucket_opened:
  assumes o: "opened now k d0 (openBucket now k d0) b bs" and d0: "d0 = evictIdle (now + wrap64 (- 2 * window d)) d"
  shows "fst (allow_bucket now k d) = fst (bucket_after now d0 b)"
    and "lru (snd (allow_bucket now k d)) = snd (bucket_after now d0 b) # bs"
    and "buckets (snd (allow_bucket now k d)) = buckets (openBucket now k d0)"
    and "same_settings d0 (snd (allow_bucket now k d))"
proof -
  have "same_settings d0 (openBucket now k d0)" using o by (simp add: opened_def)
  note refillBucket_cong [OF this]
  then show "fst (allow_bucket now k d) = fst (bucket_after now d0 b)"
    and "lru (snd (allow_bucket now k d)) = snd (bucket_after now d0 b) # bs"
    and "buckets (snd (allow_bucket now k d)) = buckets (openBucket now k d0)"
    and "same_settings d0 (snd (allow_bucket now k d))"
    using o d0 by (auto simp: allow_bucket_def bucket_after_def opened_def same_settings_def case_prod_beta)
qed

lemma openBucket_opened:
  assumes "limiter_ok d"
  shows "\<exists>b bs. opened now k d (openBucket now k d) b bs"
  using openBucket_present [OF assms] openBucket_absent [OF assms] by (cases "bucket_of d k") blast+

text \<open>The state invariant survives every call, whatever the clock does.\<close>

lemma allow_bucket_ok:
  assumes "limiter_ok d"
  shows "limiter_ok (snd (allow_bucket now k d)) \<and> same_settings d (snd (allow_bucket now k d))"
proof -
  obtain d0 where d0: "d0 = evictIdle (now + wrap64 (- 2 * window d)) d" by blast
  with evictIdle_evicted [OF assms] have ok0: "limiter_ok d0" and st: "same_settings d d0"
    by (simp_all add: evicted_def)
  from openBucket_opened [OF ok0] obtain b bs where o: "opened now k d0 (openBucket now k d0) b bs" by blast
  note r = allow_bucket_opened [OF o d0]
  let ?d = "openBucket now k d0"
  have okd: "limiter_ok ?d" "lru ?d = b # bs" "same_settings d0 ?d" using o by (simp_all add: opened_def)
  then have b: "tokens b \<le> requests d0" "spare b \<le> burst d0" by (auto simp: limiter_ok_def same_settings_def)
  note ba = bucket_after_ok [OF b, of now]
  have "limiter_ok (snd (allow_bucket now k d))"
    using okd r ba by (simp add: limiter_ok_def same_settings_def)
  with st r(4) show ?thesis by (auto intro: same_settings_trans)
qed

subsection \<open>The limiter as a \<open>keyed_limiter\<close>\<close>

definition limiter_inv :: "domainLimiter \<Rightarrow> bool" where
  "limiter_inv d \<longleftrightarrow> limiter_ok d \<and> (\<forall>b \<in> set (lru d). lastReset b \<le> lastAccess b) \<and>
     0 < window d \<and> window d < 4611686018427387904"

text \<open>The clock is not behind a bucket, and once the idle buckets are gone the key has a bucket or there is room for one.\<close>

definition limiter_room :: "domainLimiter \<Rightarrow> instant \<Rightarrow> string \<Rightarrow> bool" where
  "limiter_room d now k \<longleftrightarrow> (\<forall>b \<in> set (lru d). lastAccess b \<le> now) \<and>
     (let d0 = evictIdle (now + wrap64 (- 2 * window d)) d in k \<in> set (buckets d0) \<or> length (buckets d0) < maxBuckets d)"

definition bucket_budget :: "rlBucket \<Rightarrow> nat" where
  "bucket_budget b = nat (tokens b) + nat (spare b)"

definition limiter_fresh :: "domainLimiter \<Rightarrow> nat" where
  "limiter_fresh d = nat (requests d) + nat (burst d)"

definition bucket_due :: "domainLimiter \<Rightarrow> rlBucket \<Rightarrow> instant" where
  "bucket_due d b = lastReset b + window d"

lemma limiter_inv_window:
  assumes "limiter_inv d"
  shows "wrap64 (- 2 * window d) = - 2 * window d" "wrap64 (2 * window d) = 2 * window d"
    "now < lastReset b + window d \<Longrightarrow> time_sub now (lastReset b) < window d"
    "lastReset b + window d \<le> now \<Longrightarrow> window d \<le> time_sub now (lastReset b)"
  using assms by (auto simp: limiter_inv_def wrap64_id min_i64_def max_i64_def time_sub_def)

lemma takeToken_budget:
  "bucket_budget (snd (takeToken b)) + (if fst (takeToken b) then 1 else 0) \<le> bucket_budget b"
  "lastReset (snd (takeToken b)) = lastReset b"
  by (auto simp: takeToken_def bucket_budget_def Let_def)

lemma bucket_after_live:
  assumes "limiter_inv d" "now < bucket_due d b"
  shows "bucket_budget (snd (bucket_after now d b)) + (if fst (bucket_after now d b) then 1 else 0) \<le> bucket_budget b"
    and "lastReset (snd (bucket_after now d b)) = lastReset b"
proof -
  have "refillBucket now d (b\<lparr>lastAccess := now\<rparr>) = b\<lparr>lastAccess := now\<rparr>"
    using limiter_inv_window(3) [OF assms(1), of now "b\<lparr>lastAccess := now\<rparr>"] assms(2)
    by (simp add: refillBucket_def Let_def bucket_due_def)
  then show "bucket_budget (snd (bucket_after now d b)) + (if fst (bucket_after now d b) then 1 else 0) \<le> bucket_budget b"
    and "lastReset (snd (bucket_after now d b)) = lastReset b"
    using takeToken_budget [of "b\<lparr>lastAccess := now\<rparr>"]
    by (auto simp: bucket_after_def bucket_budget_def split: if_splits)
qed

lemma bucket_after_due:
  assumes "limiter_inv d" "bucket_due d b \<le> now" "tokens b \<le> requests d" "spare b \<le> burst d"
  shows "bucket_budget (snd (bucket_after now d b)) + (if fst (bucket_after now d b) then 1 else 0) \<le> limiter_fresh d"
    and "lastReset (snd (bucket_after now d b)) = now"
proof -
  let ?b = "refillBucket now d (b\<lparr>lastAccess := now\<rparr>)"
  have "window d \<le> time_sub now (lastReset b)"
    using limiter_inv_window(4) [OF assms(1)] assms(2) by (simp add: bucket_due_def)
  then have "lastReset ?b = now" "tokens ?b = requests d" "spare ?b \<le> burst d"
    using assms(4) by (simp_all add: refillBucket_def Let_def)
  then have "lastReset ?b = now" "bucket_budget ?b \<le> limiter_fresh d"
    by (simp_all add: bucket_budget_def limiter_fresh_def nat_mono add_mono)
  with takeToken_budget [of ?b]
  show "bucket_budget (snd (bucket_after now d b)) + (if fst (bucket_after now d b) then 1 else 0) \<le> limiter_fresh d"
    and "lastReset (snd (bucket_after now d b)) = now"
    unfolding bucket_after_def by simp_all
qed

lemma bucket_after_fresh:
  assumes "limiter_inv d"
  shows "bucket_budget (snd (bucket_after now d (fresh_bucket now k d))) +
      (if fst (bucket_after now d (fresh_bucket now k d)) then 1 else 0) \<le> limiter_fresh d"
    and "lastReset (snd (bucket_after now d (fresh_bucket now k d))) = now"
  using bucket_after_live [OF assms, of now "fresh_bucket now k d"] assms
  by (simp_all add: bucket_due_def fresh_bucket_def limiter_inv_def bucket_budget_def limiter_fresh_def)

lemma limiter_inv_settings:
  "same_settings d d' \<Longrightarrow> limiter_fresh d' = limiter_fresh d \<and> window d' = window d \<and> bucket_due d' = bucket_due d"
  by (auto simp: same_settings_def limiter_fresh_def bucket_due_def fun_eq_iff)

text \<open>Dropping idle buckets first loses no live bucket.\<close>

lemma evictIdle_live:
  assumes inv: "limiter_inv d" and d0: "d0 = evictIdle (now + wrap64 (- 2 * window d)) d"
  shows "limiter_inv d0" "same_settings d d0" "set (lru d0) \<subseteq> set (lru d)"
    and "bucket_of d0 j = bucket_of d j \<or>
      bucket_of d0 j = None \<and> (\<exists>x. bucket_of d j = Some x \<and> bucket_due d x \<le> now)"
    and "length (buckets d0) \<le> length (buckets d)"
proof -
  have ok: "limiter_ok d" using inv by (simp add: limiter_inv_def)
  have "evicted (\<lambda>b. lastAccess b < now - 2 * window d) d d0"
    using evictIdle_evicted [OF ok, of "now + wrap64 (- 2 * window d)"] d0 limiter_inv_window(1) [OF inv] by simp
  then obtain bs where ok0: "limiter_ok d0" and st: "same_settings d d0" and l: "lru d = lru d0 @ bs"
    and old: "\<forall>b \<in> set bs. lastAccess b < now - 2 * window d" by (auto simp: evicted_def)
  show "same_settings d d0" by (rule st)
  show "set (lru d0) \<subseteq> set (lru d)" using l by simp
  show "limiter_inv d0" using inv ok0 st l by (simp add: limiter_inv_def same_settings_def)
  show "length (buckets d0) \<le> length (buckets d)" using length_buckets ok ok0 l by simp
  show "bucket_of d0 j = bucket_of d j \<or>
      bucket_of d0 j = None \<and> (\<exists>x. bucket_of d j = Some x \<and> bucket_due d x \<le> now)"
  proof (cases "bucket_of d0 j")
    case (Some b)
    then have "b \<in> set (lru d)" "rl_key b = j" using bucket_of_Some [OF ok0] l by auto
    then have "bucket_of d j = Some b" using bucket_of_Some [OF ok] by simp
    with Some show ?thesis by simp
  next
    case None
    show ?thesis
    proof (cases "bucket_of d j")
      case (Some b)
      then have b: "b \<in> set (lru d)" "rl_key b = j" using bucket_of_Some [OF ok] by auto
      then have "b \<in> set bs" using None l unfolding bucket_of_None by auto
      then have "lastReset b < now - 2 * window d" using old inv b by (fastforce simp: limiter_inv_def)
      moreover have "0 < window d" using inv by (simp add: limiter_inv_def)
      ultimately have "bucket_due d b \<le> now" by (simp add: bucket_due_def)
      with None Some show ?thesis by blast
    qed (use None in simp)
  qed
qed

text \<open>One call seen from outside: which bucket it used, and what it left of the others.\<close>

definition call_step :: "instant \<Rightarrow> string \<Rightarrow> domainLimiter \<Rightarrow> rlBucket \<Rightarrow> bool" where
  "call_step now k d b \<longleftrightarrow>
     (bucket_of d k = Some b \<or> b = fresh_bucket now k d \<and>
        (bucket_of d k = None \<or> (\<exists>x. bucket_of d k = Some x \<and> bucket_due d x \<le> now))) \<and>
     tokens b \<le> requests d \<and> spare b \<le> burst d \<and>
     fst (allow_bucket now k d) = fst (bucket_after now d b) \<and>
     bucket_of (snd (allow_bucket now k d)) k = Some (snd (bucket_after now d b))"

lemma same_settings_cong:
  assumes "same_settings d d0"
  shows "bucket_after now d0 b = bucket_after now d b" "fresh_bucket now k d0 = fresh_bucket now k d"
  using assms by (simp_all add: bucket_after_def refillBucket_cong [OF assms] same_settings_def fresh_bucket_def)

lemma call_step_ex:
  assumes inv: "limiter_inv d"
  shows "\<exists>b. call_step now k d b"
proof -
  obtain d0 where d0: "d0 = evictIdle (now + wrap64 (- 2 * window d)) d" by blast
  note e = evictIdle_live [OF inv d0]
  have ok: "limiter_ok d" "limiter_ok d0" using inv e(1) by (simp_all add: limiter_inv_def)
  from openBucket_opened [OF ok(2)] obtain b bs where o: "opened now k d0 (openBucket now k d0) b bs" by blast
  note r = allow_bucket_opened [OF o d0] and c = same_settings_cong [OF e(2)]
  have okd: "limiter_ok (openBucket now k d0)" "lru (openBucket now k d0) = b # bs"
    "same_settings d0 (openBucket now k d0)" using o by (simp_all add: opened_def)
  then have b: "tokens b \<le> requests d" "spare b \<le> burst d" using e(2) by (auto simp: limiter_ok_def same_settings_def)
  have "bucket_of d0 k = Some b \<or> bucket_of d0 k = None \<and> b = fresh_bucket now k d"
    using o c(2) by (auto simp: opened_def)
  with e(4) [of k] have src: "bucket_of d k = Some b \<or> b = fresh_bucket now k d \<and>
        (bucket_of d k = None \<or> (\<exists>x. bucket_of d k = Some x \<and> bucket_due d x \<le> now))"
    by auto
  have "rl_key b = k" using o bucket_of_Some [OF ok(2)] by (auto simp: opened_def fresh_bucket_def)
  then have "rl_key (snd (bucket_after now d b)) = k" using bucket_after_ok [OF b] by simp
  then have "bucket_of (snd (allow_bucket now k d)) k = Some (snd (bucket_after now d b))"
    using r(2) c(1) by (simp add: bucket_of_def)
  with src b r(1) c(1) show ?thesis by (auto simp: call_step_def)
qed

lemma call_other:
  assumes inv: "limiter_inv d" and jk: "j \<noteq> k"
  shows "bucket_of (snd (allow_bucket now k d)) j = bucket_of d j \<or> bucket_of (snd (allow_bucket now k d)) j = None"
    and "limiter_room d now k \<Longrightarrow> bucket_of d j = Some x \<Longrightarrow> now < bucket_due d x \<Longrightarrow>
      bucket_of (snd (allow_bucket now k d)) j = Some x"
    and "limiter_inv (snd (allow_bucket now k d)) \<or> \<not> (\<forall>b \<in> set (lru d). lastAccess b \<le> now)"
proof -
  obtain d0 where d0: "d0 = evictIdle (now + wrap64 (- 2 * window d)) d" by blast
  note e = evictIdle_live [OF inv d0]
  have ok: "limiter_ok d" "limiter_ok d0" using inv e(1) by (simp_all add: limiter_inv_def)
  from openBucket_opened [OF ok(2)] obtain b bs where o: "opened now k d0 (openBucket now k d0) b bs" by blast
  let ?d = "snd (allow_bucket now k d)"
  have okd: "limiter_ok ?d" "same_settings d ?d" using allow_bucket_ok [OF ok(1)] by auto
  note r = allow_bucket_opened [OF o d0] and c = same_settings_cong [OF e(2)]
  have b: "tokens b \<le> requests d" "spare b \<le> burst d" "rl_key b = k"
    using o e(2) bucket_of_Some [OF ok(2)]
    by (auto simp: opened_def limiter_ok_def same_settings_def fresh_bucket_def)
  have hd: "rl_key (snd (bucket_after now d b)) = k" "lastAccess (snd (bucket_after now d b)) = now"
    using bucket_after_ok [OF b(1,2), of now] b(3) by auto
  have sub: "\<forall>x \<in> set bs. x \<in> set (lru d0) \<and> x \<in> set (lru d) \<and> rl_key x \<noteq> k"
    using o e(3) by (auto simp: opened_def)
  have iff: "bucket_of ?d j = Some x \<longleftrightarrow> x \<in> set bs \<and> rl_key x = j" for x
    using bucket_of_Some [OF okd(1)] r(2) hd(1) jk c(1) by auto
  show "bucket_of ?d j = bucket_of d j \<or> bucket_of ?d j = None"
  proof (cases "bucket_of ?d j")
    case (Some x)
    then have "bucket_of d j = Some x" using iff sub bucket_of_Some [OF ok(1)] by auto
    with Some show ?thesis by simp
  qed simp
  show "bucket_of ?d j = Some x" if rm: "limiter_room d now k" and x: "bucket_of d j = Some x" "now < bucket_due d x"
  proof -
    from e(4) [of j] x have j0: "bucket_of d0 j = Some x" by auto
    have "k \<in> set (buckets d0) \<or> length (buckets d0) < maxBuckets d0"
      using rm e(2) d0 by (simp add: limiter_room_def Let_def same_settings_def)
    then have "x \<in> set bs" using o j0 jk bucket_of_Some [OF ok(2)] by (auto simp: opened_def)
    then show ?thesis using iff j0 bucket_of_Some [OF ok(2)] by auto
  qed
  show "limiter_inv ?d \<or> \<not> (\<forall>b \<in> set (lru d). lastAccess b \<le> now)"
  proof (cases "\<forall>b \<in> set (lru d). lastAccess b \<le> now")
    case True
    have "lastReset b \<le> now"
    proof (cases "bucket_of d0 k")
      case (Some y)
      with o have "bucket_of d0 k = Some b" by (simp add: opened_def)
      then have "b \<in> set (lru d)" using e(3) bucket_of_Some [OF ok(2)] by blast
      then show ?thesis using True inv by (force simp: limiter_inv_def)
    next
      case None
      then show ?thesis using o by (auto simp: opened_def fresh_bucket_def)
    qed
    then have "lastReset (snd (bucket_after now d b)) \<le> now"
      by (auto simp: bucket_after_def takeToken_budget refillBucket_def Let_def)
    then have "\<forall>y \<in> set (lru ?d). lastReset y \<le> lastAccess y"
      using r(2) c(1) hd(2) sub inv by (auto simp: limiter_inv_def)
    then have "limiter_inv ?d" using okd inv by (simp add: limiter_inv_def same_settings_def)
    then show ?thesis by simp
  qed simp
qed

lemma removeElement_settings: "same_settings d (removeElement b d)"
  by (simp add: same_settings_def removeElement_def)

lemma evictIdle_settings: "same_settings d (evictIdle c d)"
proof (induction c d rule: evictIdle.induct)
  case (1 c d)
  then show ?case
    by (subst evictIdle.simps) (auto intro: same_settings_trans [OF removeElement_settings])
qed

lemma dropOldest_settings: "same_settings d (dropOldest d)"
proof (induction d rule: dropOldest.induct)
  case (1 d)
  then show ?case
    by (subst dropOldest.simps) (auto intro: same_settings_trans [OF removeElement_settings])
qed

lemma openBucket_settings: "same_settings d (openBucket now k d)"
proof -
  have "same_settings d (dropOldest (evictIdle c d))" for c
    by (rule same_settings_trans [OF evictIdle_settings dropOldest_settings])
  then show ?thesis
    by (simp add: openBucket_def Let_def same_settings_def)
qed

lemma allow_bucket_settings: "same_settings d (snd (allow_bucket now k d))"
proof -
  let ?d = "openBucket now k (evictIdle (now + wrap64 (- 2 * window d)) d)"
  have "same_settings d ?d"
    by (rule same_settings_trans [OF evictIdle_settings openBucket_settings])
  then show ?thesis
    by (cases "lru ?d") (auto simp: allow_bucket_def same_settings_def case_prod_beta Let_def)
qed

interpretation domain_limiter: keyed_limiter limiter_inv limiter_room bucket_of allow_bucket
  "\<lambda>_. bucket_budget" bucket_due limiter_fresh window
proof
  fix d now k j b
  show "limiter_inv (snd (allow_bucket now k d))" if "limiter_inv d" "limiter_room d now k"
    using call_other(3) [OF that(1), of "k @ ''x''" k now] that(2) by (auto simp: limiter_room_def)
  show "limiter_fresh (snd (allow_bucket now k d)) = limiter_fresh d"
    "window (snd (allow_bucket now k d)) = window d" "bucket_due (snd (allow_bucket now k d)) = bucket_due d"
    using limiter_inv_settings [OF allow_bucket_settings] by blast+
  show "bucket_budget b \<le> limiter_fresh d" if "limiter_inv d" "bucket_of d k = Some b"
  proof -
    have "limiter_ok d" using that(1) by (simp add: limiter_inv_def)
    then have "tokens b \<le> requests d" "spare b \<le> burst d"
      using that(2) bucket_of_Some by (auto simp: limiter_ok_def)
    then show ?thesis by (simp add: bucket_budget_def limiter_fresh_def nat_mono add_mono)
  qed
  show "\<exists>b'. bucket_of (snd (allow_bucket now k d)) k = Some b' \<and> bucket_due d b' = bucket_due d b \<and>
      bucket_budget b' + (if fst (allow_bucket now k d) then 1 else 0) \<le> bucket_budget b"
    if h: "limiter_inv d" "bucket_of d k = Some b" "now < bucket_due d b"
  proof -
    from call_step_ex [OF h(1), of now k] obtain x where x: "call_step now k d x" by blast
    with h have "x = b" by (auto simp: call_step_def)
    with x bucket_after_live [OF h(1,3)] show ?thesis by (simp add: call_step_def bucket_due_def)
  qed
  show "\<exists>b'. bucket_of (snd (allow_bucket now k d)) k = Some b' \<and> bucket_due d b' = now + window d \<and>
      bucket_budget b' + (if fst (allow_bucket now k d) then 1 else 0) \<le> limiter_fresh d"
    if h: "limiter_inv d" "bucket_of d k = None \<or> (\<exists>b. bucket_of d k = Some b \<and> bucket_due d b \<le> now)"
  proof -
    from call_step_ex [OF h(1), of now k] obtain x where x: "call_step now k d x" by blast
    then consider "x = fresh_bucket now k d" | "bucket_of d k = Some x" "bucket_due d x \<le> now"
      using h(2) by (auto simp: call_step_def)
    then have "bucket_budget (snd (bucket_after now d x)) + (if fst (bucket_after now d x) then 1 else 0) \<le> limiter_fresh d
      \<and> lastReset (snd (bucket_after now d x)) = now"
      using bucket_after_fresh [OF h(1)] bucket_after_due [OF h(1), of x now] x
      by cases (auto simp: call_step_def)
    with x show ?thesis by (simp add: call_step_def bucket_due_def)
  qed
  show "bucket_of (snd (allow_bucket now k d)) j = Some b"
    if "limiter_inv d" "limiter_room d now k" "j \<noteq> k" "bucket_of d j = Some b" "now < bucket_due d b"
    by (rule call_other(2) [OF that(1,3,2,4,5)])
  show "bucket_of (snd (allow_bucket now k d)) j = bucket_of d j \<or> bucket_of (snd (allow_bucket now k d)) j = None"
    if "limiter_inv d" "j \<noteq> k"
    by (rule call_other(1) [OF that])
qed simp_all

subsection \<open>The registry\<close>

text \<open>
  \<open>limiters\<close> maps a normalized domain to the address of its limiter in \<open>heap\<close>; an address is
  an index, and \<open>newDomainLimiter\<close> allocates at the end.
\<close>

record limiter_registry =
  heap :: "domainLimiter list"
  limiters :: "(string \<times> nat) list"

definition limiter_set :: "string \<Rightarrow> RateLimitConfig \<Rightarrow> limiter_registry \<Rightarrow> limiter_registry" where
  "limiter_set domain cfg reg =
     reg\<lparr>heap := heap reg @ [newDomainLimiter cfg],
         limiters := AList.update (normalizeDomain domain) (length (heap reg)) (limiters reg)\<rparr>"

definition limiter_remove :: "string \<Rightarrow> limiter_registry \<Rightarrow> limiter_registry" where
  "limiter_remove domain reg = reg\<lparr>limiters := AList.delete (normalizeDomain domain) (limiters reg)\<rparr>"

text \<open>\<open>Replace\<close>: the loop over the new configurations, with the heap and the map built so far.\<close>

fun replace_loop ::
  "limiter_registry \<Rightarrow> (string \<times> RateLimitConfig) list \<Rightarrow> domainLimiter list \<times> (string \<times> nat) list \<Rightarrow>
   domainLimiter list \<times> (string \<times> nat) list" where
  "replace_loop reg [] (hp, nxt) = (hp, nxt)"
| "replace_loop reg ((domain, cfg) # cfgs) (hp, nxt) =
     (let key = normalizeDomain domain in
      case map_of (limiters reg) key of
        Some a \<Rightarrow>
          if sameConfig (heap reg ! a) cfg then replace_loop reg cfgs (hp, AList.update key a nxt)
          else replace_loop reg cfgs (hp @ [newDomainLimiter cfg], AList.update key (length hp) nxt)
      | None \<Rightarrow> replace_loop reg cfgs (hp @ [newDomainLimiter cfg], AList.update key (length hp) nxt))"

definition limiter_replace :: "(string \<times> RateLimitConfig) list \<Rightarrow> limiter_registry \<Rightarrow> limiter_registry" where
  "limiter_replace cfgs reg = (let (hp, nxt) = replace_loop reg cfgs (heap reg, []) in
     reg\<lparr>heap := hp, limiters := nxt\<rparr>)"

definition limiter_snapshot :: "limiter_registry \<Rightarrow> (string \<times> nat) list" where
  "limiter_snapshot reg = limiters reg"

definition limiter_restore :: "(string \<times> nat) list \<Rightarrow> limiter_registry \<Rightarrow> limiter_registry" where
  "limiter_restore ls reg = reg\<lparr>limiters := ls\<rparr>"

definition extractKey :: "string \<Rightarrow> http_request \<Rightarrow> string" where
  "extractKey kind r =
     (if kind = ''ip'' then (case split_host_port (RemoteAddr r) of Some (h, _) \<Rightarrow> h | None \<Rightarrow> [])
      else if prefix ''header:'' kind then header_get r (trim_prefix kind ''header:'')
      else if kind = ''path'' then URL_Path r
      else RemoteAddr r)"

text \<open>A call on the limiter at an address.\<close>

definition allow_at ::
  "(string \<Rightarrow> string) \<Rightarrow> instant \<Rightarrow> nat \<Rightarrow> http_request \<Rightarrow> limiter_registry \<Rightarrow> bool \<times> limiter_registry" where
  "allow_at sha256 now a r reg =
     (let (ok, d) = allow_limiter sha256 now (extractKey (by_key (heap reg ! a)) r) (heap reg ! a)
      in (ok, reg\<lparr>heap := (heap reg)[a := d]\<rparr>))"

definition limiter_Allow ::
  "(string \<Rightarrow> string) \<Rightarrow> instant \<Rightarrow> string \<Rightarrow> http_request \<Rightarrow> limiter_registry \<Rightarrow> bool \<times> limiter_registry" where
  "limiter_Allow sha256 now host r reg =
     (case lookupHost (limiters reg) host of None \<Rightarrow> (True, reg) | Some a \<Rightarrow> allow_at sha256 now a r reg)"

definition limiter_AllowFor ::
  "(string \<Rightarrow> string) \<Rightarrow> instant \<Rightarrow> string \<Rightarrow> http_request \<Rightarrow> limiter_registry \<Rightarrow> bool \<times> limiter_registry" where
  "limiter_AllowFor sha256 now domain r reg =
     (case map_of (limiters reg) (normalizeDomain domain) of
        None \<Rightarrow> (True, reg) | Some a \<Rightarrow> allow_at sha256 now a r reg)"

text \<open>The Caddy handler: \<open>domain\<close> is its configured route domain.\<close>

definition RateLimitHandler_ServeHTTP ::
  "(string \<Rightarrow> string) \<Rightarrow> instant \<Rightarrow> string \<Rightarrow> http_request \<Rightarrow> limiter_registry \<Rightarrow> outcome \<times> limiter_registry" where
  "RateLimitHandler_ServeHTTP sha256 now domain r reg =
     (let (allowed, reg) = (if domain \<noteq> [] then limiter_AllowFor sha256 now domain r reg
                            else limiter_Allow sha256 now (Host r) r reg)
      in if \<not> allowed then (Responded StatusTooManyRequests [(''Retry-After'', ''60'')], reg)
         else (CalledNext, reg))"

subsection \<open>Runs of calls\<close>

fun run_calls :: "(instant \<Rightarrow> string \<Rightarrow> 's \<Rightarrow> bool \<times> 's) \<Rightarrow> (instant \<times> string) list \<Rightarrow> 's \<Rightarrow> 's" where
  "run_calls allow [] s = s"
| "run_calls allow ((now, k) # calls) s = run_calls allow calls (snd (allow now k s))"

lemma run_calls_append: "run_calls allow (xs @ ys) s = run_calls allow ys (run_calls allow xs s)"
  by (induction allow xs s rule: run_calls.induct) auto

lemma run_room_append:
  "run_room allow room (xs @ ys) s \<longleftrightarrow> run_room allow room xs s \<and> run_room allow room ys (run_calls allow xs s)"
  by (induction allow room xs s rule: run_room.induct) auto

definition stored_calls :: "(string \<Rightarrow> string) \<Rightarrow> (instant \<times> string) list \<Rightarrow> (instant \<times> string) list" where
  "stored_calls sha256 calls = map (\<lambda>(now, k). (now, bucketKey sha256 k)) calls"

lemma grants_stored:
  "grants (allow_limiter sha256) k calls d \<le> grants allow_bucket (bucketKey sha256 k) (stored_calls sha256 calls) d"
proof (induction calls arbitrary: d)
  case (Cons c calls)
  obtain now j where c: "c = (now, j)" by (cases c)
  have "grants (allow_limiter sha256) k calls (snd (allow_bucket now (bucketKey sha256 j) d)) \<le>
    grants allow_bucket (bucketKey sha256 k) (stored_calls sha256 calls) (snd (allow_bucket now (bucketKey sha256 j) d))"
    by (rule Cons.IH)
  moreover have "allow_limiter sha256 now j d = allow_bucket now (bucketKey sha256 j) d"
    by (simp add: allow_limiter_def)
  ultimately show ?case
    by (auto simp: c stored_calls_def case_prod_beta Let_def)
qed (simp add: stored_calls_def)

lemma run_stored:
  "run_calls (allow_limiter sha256) calls d = run_calls allow_bucket (stored_calls sha256 calls) d"
  by (induction calls arbitrary: d) (auto simp: stored_calls_def allow_limiter_def)

text \<open>Calls in time order on few enough keys always find room.\<close>

lemma call_leaves:
  assumes inv: "limiter_inv d" and rm: "limiter_room d now k"
  shows "limiter_inv (snd (allow_bucket now k d))"
    and "\<forall>b \<in> set (lru (snd (allow_bucket now k d))). lastAccess b \<le> now"
    and "set (buckets (snd (allow_bucket now k d))) \<subseteq> insert k (set (buckets d))"
proof -
  let ?d = "snd (allow_bucket now k d)"
  show inv': "limiter_inv ?d" using inv rm by (rule domain_limiter.inv_allow)
  then have ok: "limiter_ok d" "limiter_ok ?d" using inv by (simp_all add: limiter_inv_def)
  have old: "x \<in> set (lru d)" if "x \<in> set (lru ?d)" "rl_key x \<noteq> k" for x
  proof -
    have "bucket_of ?d (rl_key x) = Some x" using bucket_of_Some [OF ok(2)] that(1) by simp
    with call_other(1) [OF inv that(2), of now] have "bucket_of d (rl_key x) = Some x" by simp
    then show ?thesis using bucket_of_Some [OF ok(1)] by simp
  qed
  show "\<forall>b \<in> set (lru ?d). lastAccess b \<le> now"
  proof
    fix x assume x: "x \<in> set (lru ?d)"
    show "lastAccess x \<le> now"
    proof (cases "rl_key x = k")
      case True
      obtain b where b: "call_step now k d b" using call_step_ex [OF inv] by blast
      then have "x = snd (bucket_after now d b)"
        using True x bucket_of_Some [OF ok(2), of k x] by (auto simp: call_step_def)
      with bucket_after_ok [of b d now] b show ?thesis by (simp add: call_step_def)
    next
      case False
      with old x rm show ?thesis by (auto simp: limiter_room_def)
    qed
  qed
  show "set (buckets ?d) \<subseteq> insert k (set (buckets d))"
    using ok old by (auto simp: limiter_ok_def)
qed

text \<open>The list stays in the order of the last use, so what is left after the idle buckets are gone was used of late.\<close>

definition lru_sorted :: "domainLimiter \<Rightarrow> bool" where
  "lru_sorted d \<longleftrightarrow> sorted_wrt (\<lambda>x y. lastAccess y \<le> lastAccess x) (lru d)"

lemma evictIdle_recent:
  "limiter_ok d \<Longrightarrow> lru_sorted d \<Longrightarrow> lru_sorted (evictIdle cutoff d) \<and> (\<forall>b \<in> set (lru (evictIdle cutoff d)). cutoff \<le> lastAccess b)"
proof (induction cutoff d rule: evictIdle.induct)
  case (1 cutoff d)
  show ?case
  proof (cases "lru d = [] \<or> \<not> lastAccess (last (lru d)) < cutoff")
    case True
    then have e: "evictIdle cutoff d = d" by (subst evictIdle.simps) auto
    show ?thesis
    proof (cases "lru d" rule: rev_cases)
      case (snoc bs b)
      then show ?thesis using 1(3) True unfolding e by (fastforce simp: lru_sorted_def sorted_wrt_append)
    qed (use 1(3) e in simp)
  next
    case False
    let ?d = "removeElement (last (lru d)) d"
    have "evicted (\<lambda>_. True) d ?d" using False 1 by (intro evicted_last) auto
    then obtain bs where "limiter_ok ?d" "lru d = lru ?d @ bs" by (auto simp: evicted_def)
    moreover from this(2) have "lru_sorted ?d" using 1(3) by (metis lru_sorted_def sorted_wrt_append)
    moreover have "evictIdle cutoff d = evictIdle cutoff ?d" using False by (subst evictIdle.simps) simp
    ultimately show ?thesis using False 1 by auto
  qed
qed

lemma call_sorted:
  assumes "limiter_inv d" "lru_sorted d" "\<forall>b \<in> set (lru d). lastAccess b \<le> now"
  shows "lru_sorted (snd (allow_bucket now k d))"
    and "\<forall>x \<in> set (lru (snd (allow_bucket now k d))). rl_key x = k \<and> lastAccess x = now \<or> x \<in> set (lru d)"
proof -
  obtain d0 where d0: "d0 = evictIdle (now + wrap64 (- 2 * window d)) d" by blast
  note e = evictIdle_live [OF assms(1) d0]
  have ok: "limiter_ok d" "limiter_ok d0" using assms(1) e(1) by (simp_all add: limiter_inv_def)
  from openBucket_opened [OF ok(2)] obtain b bs where o: "opened now k d0 (openBucket now k d0) b bs" by blast
  note r = allow_bucket_opened [OF o d0]
  have b: "tokens b \<le> requests d0" "spare b \<le> burst d0" "rl_key b = k"
    using o bucket_of_Some [OF ok(2)] by (auto simp: opened_def limiter_ok_def same_settings_def fresh_bucket_def)
  note ba = bucket_after_ok [OF b(1,2), of now]
  have "sorted_wrt (\<lambda>x y. lastAccess y \<le> lastAccess x) bs"
    using o evictIdle_recent [OF ok(1) assms(2)] d0 by (simp add: opened_def lru_sorted_def)
  moreover have sub: "\<forall>x \<in> set bs. x \<in> set (lru d)" using o e(3) by (auto simp: opened_def)
  ultimately show "lru_sorted (snd (allow_bucket now k d))"
    using r(2) ba assms(3) by (simp add: lru_sorted_def)
  show "\<forall>x \<in> set (lru (snd (allow_bucket now k d))). rl_key x = k \<and> lastAccess x = now \<or> x \<in> set (lru d)"
    using r(2) ba b(3) sub by simp
qed

text \<open>The keys in use at a call: its own, and those of the calls before it within two windows.\<close>

definition keys_in_use :: "duration \<Rightarrow> (instant \<times> string) list \<Rightarrow> instant \<Rightarrow> string \<Rightarrow> string set" where
  "keys_in_use w before now k = insert k (snd ` {c \<in> set before. now - 2 * w \<le> fst c})"

definition few_keys :: "nat \<Rightarrow> duration \<Rightarrow> (instant \<times> string) list \<Rightarrow> bool" where
  "few_keys n w cs \<longleftrightarrow> (\<forall>pre now k post. cs = pre @ (now, k) # post \<longrightarrow> card (keys_in_use w pre now k) \<le> n)"

lemma few_keys_short: "length cs \<le> n \<Longrightarrow> few_keys n w cs"
proof (unfold few_keys_def, intro allI impI)
  fix pre now k post
  assume "length cs \<le> n" "cs = pre @ (now, k) # post"
  moreover have "card (keys_in_use w pre now k) \<le> Suc (card (snd ` {c \<in> set pre. now - 2 * w \<le> fst c}))"
    by (simp add: keys_in_use_def card_insert_le_m1 card_insert_if)
  moreover have "card (snd ` {c \<in> set pre. now - 2 * w \<le> fst c}) \<le> card {c \<in> set pre. now - 2 * w \<le> fst c}"
    by (rule card_image_le) simp
  moreover have "card {c \<in> set pre. now - 2 * w \<le> fst c} \<le> card (set pre)" by (rule card_mono) auto
  moreover have "card (set pre) \<le> length pre" by (rule card_length)
  ultimately show "card (keys_in_use w pre now k) \<le> n" by simp
qed

lemma run_room_recent:
  assumes "limiter_inv d" "lru_sorted d" "\<forall>b \<in> set (lru d). (lastAccess b, rl_key b) \<in> set hist" "sorted (map fst (hist @ calls))"
    and "\<forall>pre now k post. calls = pre @ (now, k) # post \<longrightarrow> card (keys_in_use (window d) (hist @ pre) now k) \<le> maxBuckets d"
  shows "run_room allow_bucket limiter_room calls d"
  using assms
proof (induction calls arbitrary: d hist)
  case (Cons c calls)
  obtain now k where c: "c = (now, k)" by (cases c)
  let ?d0 = "evictIdle (now + wrap64 (- 2 * window d)) d" and ?d' = "snd (allow_bucket now k d)"
  have inv: "limiter_inv d" and so: "lru_sorted d" and h: "\<forall>b \<in> set (lru d). (lastAccess b, rl_key b) \<in> set hist"
    using Cons.prems by blast+
  then have ok: "limiter_ok d" "limiter_ok ?d0" using evictIdle_live(1) [OF inv refl] by (auto simp: limiter_inv_def)
  have old: "\<forall>b \<in> set (lru d). lastAccess b \<le> now"
    using h Cons.prems(4) c by (force simp: sorted_append)
  have "\<forall>b \<in> set (lru ?d0). now - 2 * window d \<le> lastAccess b \<and> b \<in> set (lru d)"
    using evictIdle_recent [OF ok(1) so, of "now + wrap64 (- 2 * window d)"] evictIdle_live(3) [OF inv refl, of now]
      limiter_inv_window(1) [OF inv] by auto
  then have "set (buckets ?d0) \<subseteq> snd ` {c \<in> set hist. now - 2 * window d \<le> fst c}"
    using ok(2) h by (force simp: limiter_ok_def)
  then have "k \<notin> set (buckets ?d0) \<Longrightarrow> card (set (buckets ?d0)) < card (keys_in_use (window d) hist now k)"
    unfolding keys_in_use_def by (intro psubset_card_mono) auto
  moreover have "card (keys_in_use (window d) hist now k) \<le> maxBuckets d" using Cons.prems(5) c by fastforce
  ultimately have "k \<in> set (buckets ?d0) \<or> length (buckets ?d0) < maxBuckets d"
    using distinct_card [of "buckets ?d0"] ok(2) by (cases "k \<in> set (buckets ?d0)") (auto simp: limiter_ok_def)
  then have rm: "limiter_room d now k" using old by (simp add: limiter_room_def Let_def)
  note l = call_leaves [OF inv rm] and cs = call_sorted [OF inv so old, of k]
  have st: "window ?d' = window d" "maxBuckets ?d' = maxBuckets d"
    using allow_bucket_settings [of d now k] by (simp_all add: same_settings_def)
  have "run_room allow_bucket limiter_room calls ?d'"
  proof (rule Cons.IH [OF l(1) cs(1), of "hist @ [(now, k)]"])
    show "\<forall>b \<in> set (lru ?d'). (lastAccess b, rl_key b) \<in> set (hist @ [(now, k)])" using cs(2) h by auto
    show "sorted (map fst ((hist @ [(now, k)]) @ calls))" using Cons.prems(4) c by simp
    show "\<forall>pre now' k' post. calls = pre @ (now', k') # post \<longrightarrow>
        card (keys_in_use (window ?d') ((hist @ [(now, k)]) @ pre) now' k') \<le> maxBuckets ?d'"
    proof (intro allI impI)
      fix pre now' k' post
      assume "calls = pre @ (now', k') # post"
      then have "c # calls = (c # pre) @ (now', k') # post" by simp
      with Cons.prems(5) have "card (keys_in_use (window d) (hist @ c # pre) now' k') \<le> maxBuckets d" by blast
      then show "card (keys_in_use (window ?d') ((hist @ [(now, k)]) @ pre) now' k') \<le> maxBuckets ?d'" using st c by simp
    qed
  qed
  with rm c show ?case by simp
qed simp

lemma run_calls_inv:
  assumes "limiter_inv d" "run_room allow_bucket limiter_room calls d"
  shows "limiter_inv (run_calls allow_bucket calls d) \<and> limiter_fresh (run_calls allow_bucket calls d) = limiter_fresh d \<and>
    window (run_calls allow_bucket calls d) = window d"
  using assms
proof (induction calls arbitrary: d)
  case (Cons c calls)
  obtain now k where c: "c = (now, k)" by (cases c)
  have "limiter_inv (snd (allow_bucket now k d))" using Cons.prems c by (auto intro: domain_limiter.inv_allow)
  from Cons.IH [OF this] Cons.prems c show ?case by (simp add: domain_limiter.config_allow)
qed simp

lemma new_limiter_inv:
  "0 < Window cfg \<Longrightarrow> Window cfg < 4611686018427387904 \<Longrightarrow> limiter_inv (newDomainLimiter cfg)"
  by (simp add: limiter_inv_def limiter_ok_def newDomainLimiter_def maxRateLimitBuckets_def)

text \<open>
  Property C18. A domain's limiter, from the moment it is created, lets at most 2 * (Requests + Burst) requests of one client
  key through in any time span shorter than its window (and at most Requests + Burst if they are its first
  calls), whatever the other keys do: for calls in time order, a positive window below about 146 years, and as long as no more than
  \<open>maxRateLimitBuckets\<close> (10000) keys are in use within two windows. With more keys than that the limiter drops
  buckets that are not idle, and a dropped key starts afresh. A negative count allows nothing extra.
\<close>

theorem rate_limit_bound:
  assumes w: "0 < Window cfg" "Window cfg < 4611686018427387904"
    and t: "sorted (map fst (before @ calls))"
    and n: "few_keys maxRateLimitBuckets (Window cfg) (map (\<lambda>(now, key). (now, bucketKey sha256 key)) (before @ calls))"
    and span: "\<forall>c \<in> set calls. start \<le> fst c \<and> fst c < start + Window cfg"
  shows "grants (allow_limiter sha256) k calls (run_calls (allow_limiter sha256) before (newDomainLimiter cfg))
      \<le> (if before = [] then 1 else 2) * (nat (Requests cfg) + nat (Burst cfg))"
proof -
  let ?d = "newDomainLimiter cfg" and ?s = "stored_calls sha256"
  have inv: "limiter_inv ?d" using w by (rule new_limiter_inv)
  have fr: "limiter_fresh ?d = nat (Requests cfg) + nat (Burst cfg)" "window ?d = Window cfg" "lru ?d = []" "buckets ?d = []"
    "maxBuckets ?d = maxRateLimitBuckets"
    by (simp_all add: newDomainLimiter_def limiter_fresh_def)
  have app: "?s (before @ calls) = ?s before @ ?s calls" by (simp add: stored_calls_def)
  have "map fst (?s (before @ calls)) = map fst (before @ calls)"
    by (simp add: stored_calls_def comp_def case_prod_beta)
  then have "sorted (map fst ([] @ ?s (before @ calls)))" using t by simp
  moreover have "few_keys maxRateLimitBuckets (Window cfg) (?s (before @ calls))"
    using n unfolding stored_calls_def .
  ultimately have "run_room allow_bucket limiter_room (?s (before @ calls)) ?d"
    using inv fr by (intro run_room_recent [where hist = "[]"]) (simp_all add: lru_sorted_def few_keys_def)
  then have rm: "run_room allow_bucket limiter_room (?s before) ?d"
      "run_room allow_bucket limiter_room (?s calls) (run_calls allow_bucket (?s before) ?d)"
    by (simp_all add: app run_room_append)
  have sp: "\<forall>c \<in> set (?s calls). start \<le> fst c \<and> fst c < start + Window cfg"
    using span by (force simp: stored_calls_def case_prod_beta)
  let ?d1 = "run_calls allow_bucket (?s before) ?d"
  have d1: "limiter_inv ?d1" "limiter_fresh ?d1 = limiter_fresh ?d" "window ?d1 = Window cfg"
    using run_calls_inv [OF inv rm(1)] fr by auto
  have "grants allow_bucket (bucketKey sha256 k) (?s calls) ?d1 \<le> 2 * limiter_fresh ?d1"
    by (rule domain_limiter.grants_window_bound [OF d1(1) rm(2)]) (use sp d1(3) in simp)
  moreover have "grants allow_bucket (bucketKey sha256 k) (?s calls) ?d1 \<le> limiter_fresh ?d1" if "before = []"
    by (rule domain_limiter.grants_window_new [OF d1(1) rm(2)])
      (use that sp fr in \<open>simp_all add: stored_calls_def bucket_of_def\<close>)
  ultimately show ?thesis
    using grants_stored [of sha256 k calls ?d1] d1(2) fr(1) by (auto simp: run_stored)
qed

theorem rate_limit_bound_witness:
  "grants (allow_limiter (\<lambda>s. s)) ''a'' [(11, ''a''), (12, ''b''), (13, ''a'')]
     (run_calls (allow_limiter (\<lambda>s. s)) [(0, ''a'')]
        (newDomainLimiter \<lparr>Requests = 1, Window = 10, Burst = 0, By = ''ip''\<rparr>)) \<le> 2"
proof -
  have "few_keys maxRateLimitBuckets 10 (map (\<lambda>(now, key). (now, bucketKey (\<lambda>s. s) key)) ([(0, ''a'')] @ [(11, ''a''), (12, ''b''), (13, ''a'')]))"
    by (rule few_keys_short) (simp add: maxRateLimitBuckets_def)
  then show ?thesis
    using rate_limit_bound [of "\<lparr>Requests = 1, Window = 10, Burst = 0, By = ''ip''\<rparr>" "[(0, ''a'')]"
        "[(11, ''a''), (12, ''b''), (13, ''a'')]" "\<lambda>s. s" 11 "''a''"] by simp
qed

subsection \<open>Registry properties\<close>

definition registry_ok :: "limiter_registry \<Rightarrow> bool" where
  "registry_ok reg \<longleftrightarrow> gomap_ok (limiters reg) \<and> (\<forall>a \<in> snd ` set (limiters reg). a < length (heap reg)) \<and>
     (\<forall>d \<in> set (heap reg). limiter_ok d)"

lemma registry_ok_lookup: "registry_ok reg \<Longrightarrow> map_of (limiters reg) k = Some a \<Longrightarrow> a < length (heap reg)"
  by (auto simp: registry_ok_def dest: map_of_SomeD)

lemma new_limiter_ok: "limiter_ok (newDomainLimiter cfg)"
  by (simp add: limiter_ok_def newDomainLimiter_def maxRateLimitBuckets_def)

text \<open>The limiter \<open>Replace\<close> keeps for a domain, if it keeps one.\<close>

definition kept_limiter :: "limiter_registry \<Rightarrow> string \<Rightarrow> RateLimitConfig \<Rightarrow> nat option" where
  "kept_limiter reg domain cfg =
     (case map_of (limiters reg) (normalizeDomain domain) of
        Some a \<Rightarrow> if sameConfig (heap reg ! a) cfg then Some a else None | None \<Rightarrow> None)"

definition replaced :: "limiter_registry \<Rightarrow> domainLimiter list \<Rightarrow> (string \<times> nat) list \<Rightarrow> string \<times> RateLimitConfig \<Rightarrow> bool" where
  "replaced reg hp nxt = (\<lambda>(domain, cfg). \<exists>a. map_of nxt (normalizeDomain domain) = Some a \<and>
     (case kept_limiter reg domain cfg of Some b \<Rightarrow> a = b
      | None \<Rightarrow> length (heap reg) \<le> a \<and> a < length hp \<and> hp ! a = newDomainLimiter cfg))"

lemma replace_loop_Cons:
  "replace_loop reg ((domain, cfg) # cfgs) (hp, nxt) =
     (case kept_limiter reg domain cfg of
        Some a \<Rightarrow> replace_loop reg cfgs (hp, AList.update (normalizeDomain domain) a nxt)
      | None \<Rightarrow> replace_loop reg cfgs (hp @ [newDomainLimiter cfg], AList.update (normalizeDomain domain) (length hp) nxt))"
  by (simp add: kept_limiter_def Let_def split: option.splits)

lemma replace_loop_spec:
  assumes "replace_loop reg cfgs (hp, nxt) = (hp', nxt')" "length (heap reg) \<le> length hp"
    and "distinct (map (normalizeDomain \<circ> fst) cfgs)"
  shows "(\<exists>ds. hp' = hp @ ds \<and> (\<forall>d \<in> set ds. limiter_ok d)) \<and>
    (gomap_ok nxt \<longrightarrow> gomap_ok nxt') \<and>
    (\<forall>key. key \<notin> normalizeDomain ` fst ` set cfgs \<longrightarrow> map_of nxt' key = map_of nxt key) \<and>
    (\<forall>c \<in> set cfgs. replaced reg hp' nxt' c)"
  using assms
proof (induction cfgs arbitrary: hp nxt)
  case (Cons c cfgs)
  obtain domain cfg where c: "c = (domain, cfg)" by (cases c)
  let ?k = "normalizeDomain domain"
  have k: "?k \<notin> normalizeDomain ` fst ` set cfgs" "distinct (map (normalizeDomain \<circ> fst) cfgs)"
    using Cons.prems(3) c by (simp_all add: image_image comp_def)
  show ?case
  proof (cases "kept_limiter reg domain cfg")
    case (Some a)
    then have r: "replace_loop reg cfgs (hp, AList.update ?k a nxt) = (hp', nxt')"
      using Cons.prems(1) by (simp add: c replace_loop_Cons del: replace_loop.simps)
    note ih = Cons.IH [OF r Cons.prems(2) k(2)]
    then have "map_of nxt' ?k = Some a" using k(1) by simp
    then have "replaced reg hp' nxt' c" using Some c by (simp add: replaced_def)
    with ih show ?thesis by (auto simp: c)
  next
    case None
    let ?d = "newDomainLimiter cfg"
    have r: "replace_loop reg cfgs (hp @ [?d], AList.update ?k (length hp) nxt) = (hp', nxt')"
      using None Cons.prems(1) by (simp add: c replace_loop_Cons del: replace_loop.simps)
    have "length (heap reg) \<le> length (hp @ [?d])" using Cons.prems(2) by simp
    note ih = Cons.IH [OF r this k(2)]
    then obtain ds where ds: "hp' = hp @ [?d] @ ds" "\<forall>d \<in> set ds. limiter_ok d" by auto
    have "map_of nxt' ?k = Some (length hp)" using ih k(1) by simp
    then have "replaced reg hp' nxt' c" using None c ds Cons.prems(2) by (simp add: replaced_def)
    then have 1: "\<forall>x \<in> set (c # cfgs). replaced reg hp' nxt' x" using ih by simp
    have 2: "\<exists>ds. hp' = hp @ ds \<and> (\<forall>d \<in> set ds. limiter_ok d)"
      using ds new_limiter_ok by (intro exI [of _ "?d # ds"]) auto
    have 3: "gomap_ok nxt \<longrightarrow> gomap_ok nxt'" using ih by blast
    have 4: "\<forall>key. key \<notin> normalizeDomain ` fst ` set (c # cfgs) \<longrightarrow> map_of nxt' key = map_of nxt key"
      using ih by (auto simp: c)
    show ?thesis using 1 2 3 4 by blast
  qed
qed simp

lemma in_domains:
  "key \<in> normalizeDomain ` fst ` set cfgs \<Longrightarrow> \<exists>domain cfg. (domain, cfg) \<in> set cfgs \<and> key = normalizeDomain domain"
  by auto

text \<open>
  \<open>Replace\<close> installs exactly the given domains: a domain whose
  configuration is unchanged keeps its limiter, with its counters as they are, every other
  one starts with a new limiter, and a domain that is not given has none. Limiters that
  existed before stay in place, so a snapshot of the old set can be restored.
\<close>

theorem limiter_replace_keeps:
  assumes reg: "registry_ok reg" and cfgs: "distinct (map (normalizeDomain \<circ> fst) cfgs)"
  shows "registry_ok (limiter_replace cfgs reg) \<and>
    take (length (heap reg)) (heap (limiter_replace cfgs reg)) = heap reg \<and>
    (\<forall>key. map_of (limiters (limiter_replace cfgs reg)) key \<noteq> None \<longleftrightarrow> key \<in> normalizeDomain ` fst ` set cfgs) \<and>
    (\<forall>(domain, cfg) \<in> set cfgs. \<exists>a. map_of (limiters (limiter_replace cfgs reg)) (normalizeDomain domain) = Some a \<and>
      (if \<exists>b. map_of (limiters reg) (normalizeDomain domain) = Some b \<and> sameConfig (heap reg ! b) cfg
       then map_of (limiters reg) (normalizeDomain domain) = Some a \<and> heap (limiter_replace cfgs reg) ! a = heap reg ! a
       else heap (limiter_replace cfgs reg) ! a = newDomainLimiter cfg))"
proof -
  obtain hp nxt where r: "replace_loop reg cfgs (heap reg, []) = (hp, nxt)" by (metis surj_pair)
  note spec = replace_loop_spec [OF r order_refl cfgs]
  have reg': "heap (limiter_replace cfgs reg) = hp" "limiters (limiter_replace cfgs reg) = nxt"
    using r by (simp_all add: limiter_replace_def)
  obtain ds where ds: "hp = heap reg @ ds" "\<forall>d \<in> set ds. limiter_ok d" using spec by blast
  have rep: "\<forall>c \<in> set cfgs. replaced reg hp nxt c" using spec by blast
  have none: "\<forall>key. key \<notin> normalizeDomain ` fst ` set cfgs \<longrightarrow> map_of nxt key = None" using spec by simp
  have dom: "map_of nxt key \<noteq> None \<longleftrightarrow> key \<in> normalizeDomain ` fst ` set cfgs" for key
  proof
    show "key \<in> normalizeDomain ` fst ` set cfgs" if "map_of nxt key \<noteq> None"
      by (rule ccontr) (use that none in simp)
    show "map_of nxt key \<noteq> None" if key: "key \<in> normalizeDomain ` fst ` set cfgs"
    proof -
      from in_domains [OF key] obtain domain cfg where c: "(domain, cfg) \<in> set cfgs" "key = normalizeDomain domain"
        by blast
      with rep have "replaced reg hp nxt (domain, cfg)" by blast
      with c show ?thesis by (auto simp: replaced_def)
    qed
  qed
  have kept: "b < length (heap reg)" if "kept_limiter reg domain cfg = Some b" for domain cfg b
    using that registry_ok_lookup [OF reg] by (auto simp: kept_limiter_def split: option.splits if_splits)
  have low: "a < length hp" if "map_of nxt key = Some a" for key a
  proof -
    have "key \<in> normalizeDomain ` fst ` set cfgs" by (rule iffD1 [OF dom]) (use that in simp)
    from in_domains [OF this] obtain domain cfg where c: "(domain, cfg) \<in> set cfgs" "key = normalizeDomain domain"
      by blast
    then have "replaced reg hp nxt (domain, cfg)" using rep by blast
    then show ?thesis using that c(2) kept [of domain cfg] ds by (fastforce simp: replaced_def split: option.splits)
  qed
  have g: "gomap_ok nxt" using spec by simp
  then have "registry_ok (limiter_replace cfgs reg)"
    using low ds reg unfolding registry_ok_def reg' by (auto simp: Un_iff)
  moreover have "take (length (heap reg)) (heap (limiter_replace cfgs reg)) = heap reg" using ds reg' by simp
  moreover have "\<exists>a. map_of nxt (normalizeDomain domain) = Some a \<and>
      (if \<exists>b. map_of (limiters reg) (normalizeDomain domain) = Some b \<and> sameConfig (heap reg ! b) cfg
       then map_of (limiters reg) (normalizeDomain domain) = Some a \<and> hp ! a = heap reg ! a
       else hp ! a = newDomainLimiter cfg)" if c: "(domain, cfg) \<in> set cfgs" for domain cfg
  proof -
    have "replaced reg hp nxt (domain, cfg)" using rep c by blast
    then obtain a where "map_of nxt (normalizeDomain domain) = Some a"
      "case kept_limiter reg domain cfg of Some b \<Rightarrow> a = b
        | None \<Rightarrow> length (heap reg) \<le> a \<and> a < length hp \<and> hp ! a = newDomainLimiter cfg"
      by (auto simp: replaced_def)
    then show ?thesis using kept [of domain cfg] ds(1)
      by (intro exI [of _ a]) (auto simp: kept_limiter_def nth_append split: option.splits if_splits)
  qed
  ultimately show ?thesis using dom unfolding reg' by blast
qed

definition example_registry :: limiter_registry where
  "example_registry = limiter_set ''a.com'' \<lparr>Requests = 5, Window = 10, Burst = 0, By = ''ip''\<rparr> \<lparr>heap = [], limiters = []\<rparr>"

lemma normalize_examples: "normalizeDomain ''a.com'' = ''a.com''" "normalizeDomain ''b.com'' = ''b.com''"
proof -
  have "validDomain ''a.com''" "validDomain ''b.com''" by (simp_all add: validDomain_def go_simps Let_def)
  then show "normalizeDomain ''a.com'' = ''a.com''" "normalizeDomain ''b.com'' = ''b.com''"
    by (simp_all add: normalizeDomain_valid go_simps Let_def)
qed

theorem limiter_replace_keeps_witness:
  "registry_ok (limiter_replace [(''a.com'', \<lparr>Requests = 5, Window = 10, Burst = 0, By = ''ip''\<rparr>),
      (''b.com'', \<lparr>Requests = 1, Window = 10, Burst = 0, By = ''ip''\<rparr>)] example_registry)"
proof -
  let ?cfgs = "[(''a.com'', \<lparr>Requests = 5, Window = 10, Burst = 0, By = ''ip''\<rparr>),
      (''b.com'', \<lparr>Requests = 1, Window = 10, Burst = 0, By = ''ip''\<rparr>)]"
  have "registry_ok example_registry"
    by (simp add: registry_ok_def example_registry_def limiter_set_def new_limiter_ok)
  moreover have "distinct (map (normalizeDomain \<circ> fst) ?cfgs)" by (simp add: normalize_examples)
  ultimately show ?thesis using limiter_replace_keeps [of example_registry ?cfgs] by blast
qed

end
