(* ===== verification/ReqMetrics.thy ===== *)
theory ReqMetrics
  imports GoPath GoHttp
begin

text \<open>
  internal/proxy/reqmetrics.go: the status a request is recorded with and the path it is recorded
  under. A response is the sequence of calls the rest of the chain makes on the response writer;
  the elapsed time and the channel's free space are parameters.
\<close>

record statusRecorder =
  status :: int
  wroteHeader :: bool

datatype writer_call = CallWriteHeader int | CallWrite

definition WriteHeader :: "int \<Rightarrow> statusRecorder \<Rightarrow> statusRecorder" where
  "WriteHeader code r =
     (if \<not> wroteHeader r \<and> (code < 100 \<or> code > 199 \<or> code = 101) then r\<lparr>status := code, wroteHeader := True\<rparr> else r)"

definition recorder_Write :: "statusRecorder \<Rightarrow> statusRecorder" where
  "recorder_Write r = r\<lparr>wroteHeader := True\<rparr>"

definition record_call :: "writer_call \<Rightarrow> statusRecorder \<Rightarrow> statusRecorder" where
  "record_call c r = (case c of CallWriteHeader code \<Rightarrow> WriteHeader code r | CallWrite \<Rightarrow> recorder_Write r)"

text \<open>
  The error of the chain: Caddy's \<open>HandlerError\<close> with its status, a cancelled context, or another error.
\<close>

datatype chain_error = HandlerError int bool | CanceledError | OtherError

definition errorStatus :: "bool \<Rightarrow> chain_error \<Rightarrow> int" where
  "errorStatus ctx_canceled err =
     (case err of
        HandlerError code canceled \<Rightarrow> if code \<noteq> 0 then code else if canceled \<or> ctx_canceled then 499 else 500
      | CanceledError \<Rightarrow> 499
      | OtherError \<Rightarrow> if ctx_canceled then 499 else 500)"

definition isIDSegment :: "string \<Rightarrow> bool" where
  "isIDSegment s =
     (if s = [] then False
      else if list_all is_digit s then True
      else length s = 36 \<and> count_list s CHR ''-'' = 4)"

definition NormalizePath :: "string \<Rightarrow> string" where
  "NormalizePath path =
     join_with ''/'' (map (\<lambda>seg. if isIDSegment seg then ''{id}'' else seg) (split_on CHR ''/'' path))"

record RequestStatEvent =
  ev_domain :: string
  ev_status :: int
  ev_latency :: int
  ev_method :: string
  ev_path :: string

text \<open>The handler: the event put on the channel, if there is a channel with room, and the error passed on.\<close>

definition RequestMetrics_ServeHTTP ::
  "http_request \<Rightarrow> writer_call list \<Rightarrow> chain_error option \<Rightarrow> bool \<Rightarrow> int \<Rightarrow> bool \<Rightarrow>
   RequestStatEvent option \<times> chain_error option" where
  "RequestMetrics_ServeHTTP r calls err ctx_canceled latency room =
     (let rw = fold record_call calls \<lparr>status = 200, wroteHeader = False\<rparr>;
          st = (case err of Some e \<Rightarrow> if \<not> wroteHeader rw then errorStatus ctx_canceled e else status rw | None \<Rightarrow> status rw)
      in (if room then Some \<lparr>ev_domain = Host r, ev_status = st, ev_latency = latency, ev_method = Method r,
                             ev_path = NormalizePath (URL_Path r)\<rparr> else None, err))"

subsection \<open>The recorded status\<close>

text \<open>The first call that starts the final response: a body write, or a header that is not informational.\<close>

definition final_call :: "writer_call \<Rightarrow> bool" where
  "final_call c = (case c of CallWriteHeader code \<Rightarrow> code < 100 \<or> code > 199 \<or> code = 101 | CallWrite \<Rightarrow> True)"

lemma record_call_simps:
  "record_call (CallWriteHeader code) r = WriteHeader code r" "record_call CallWrite r = recorder_Write r"
  by (simp_all add: record_call_def)

lemma fold_recorded: "wroteHeader r \<Longrightarrow> fold record_call calls r = r"
  by (induction calls arbitrary: r) (auto simp: record_call_def WriteHeader_def recorder_Write_def split: writer_call.splits)

lemma recorded_status:
  "fold record_call calls \<lparr>status = 200, wroteHeader = False\<rparr> =
     (case find final_call calls of
        Some (CallWriteHeader code) \<Rightarrow> \<lparr>status = code, wroteHeader = True\<rparr>
      | Some CallWrite \<Rightarrow> \<lparr>status = 200, wroteHeader = True\<rparr>
      | None \<Rightarrow> \<lparr>status = 200, wroteHeader = False\<rparr>)"
proof (induction calls)
  case (Cons c calls)
  show ?case
  proof (cases "final_call c")
    case True
    then show ?thesis
      by (cases c) (simp_all add: record_call_simps WriteHeader_def recorder_Write_def fold_recorded final_call_def)
  next
    case False
    then have "record_call c \<lparr>status = 200, wroteHeader = False\<rparr> = \<lparr>status = 200, wroteHeader = False\<rparr>"
      by (cases c) (simp_all add: record_call_def WriteHeader_def final_call_def)
    with False Cons show ?thesis by simp
  qed
qed simp

lemma join_split_segments:
  assumes "ws \<noteq> []" "\<forall>w \<in> set ws. c \<notin> set w"
  shows "split_on c (join_with [c] ws) = ws"
  using assms by (metis split_join)

lemma NormalizePath_segments:
  "split_on CHR ''/'' (NormalizePath path) =
     map (\<lambda>seg. if isIDSegment seg then ''{id}'' else seg) (split_on CHR ''/'' path)"
  unfolding NormalizePath_def
  by (rule join_split_segments) (auto dest: split_on_elem)

lemma id_placeholder: "\<not> isIDSegment ''{id}''"
  by (simp add: isIDSegment_def is_digit_def)

text \<open>
  The event of a request carries the status of the first final response of the
  chain (informational 1xx headers are skipped, a body without a header is 200) or, if the chain
  failed before any, the status of its error; and a path whose segments are those of the
  request with every identifier replaced by a placeholder, so that no identifier is left. The
  error is passed on unchanged.
\<close>

theorem request_event:
  "RequestMetrics_ServeHTTP r calls err ctx_canceled latency True =
     (Some \<lparr>ev_domain = Host r,
        ev_status = (case find final_call calls of
            Some (CallWriteHeader code) \<Rightarrow> code | Some CallWrite \<Rightarrow> 200
          | None \<Rightarrow> (case err of Some e \<Rightarrow> errorStatus ctx_canceled e | None \<Rightarrow> 200)),
        ev_latency = latency, ev_method = Method r, ev_path = NormalizePath (URL_Path r)\<rparr>, err) \<and>
   split_on CHR ''/'' (NormalizePath (URL_Path r)) =
     map (\<lambda>seg. if isIDSegment seg then ''{id}'' else seg) (split_on CHR ''/'' (URL_Path r)) \<and>
   list_all (\<lambda>seg. \<not> isIDSegment seg) (split_on CHR ''/'' (NormalizePath (URL_Path r))) \<and>
   NormalizePath (NormalizePath (URL_Path r)) = NormalizePath (URL_Path r)"
proof (intro conjI)
  show "RequestMetrics_ServeHTTP r calls err ctx_canceled latency True =
     (Some \<lparr>ev_domain = Host r,
        ev_status = (case find final_call calls of
            Some (CallWriteHeader code) \<Rightarrow> code | Some CallWrite \<Rightarrow> 200
          | None \<Rightarrow> (case err of Some e \<Rightarrow> errorStatus ctx_canceled e | None \<Rightarrow> 200)),
        ev_latency = latency, ev_method = Method r, ev_path = NormalizePath (URL_Path r)\<rparr>, err)"
    by (simp add: RequestMetrics_ServeHTTP_def recorded_status Let_def split: option.splits writer_call.splits)
  show seg: "split_on CHR ''/'' (NormalizePath (URL_Path r)) =
     map (\<lambda>seg. if isIDSegment seg then ''{id}'' else seg) (split_on CHR ''/'' (URL_Path r))"
    by (rule NormalizePath_segments)
  show all: "list_all (\<lambda>seg. \<not> isIDSegment seg) (split_on CHR ''/'' (NormalizePath (URL_Path r)))"
    unfolding seg by (auto simp: list_all_iff id_placeholder)
  have "map (\<lambda>seg. if isIDSegment seg then ''{id}'' else seg) (split_on CHR ''/'' (NormalizePath (URL_Path r))) =
      split_on CHR ''/'' (NormalizePath (URL_Path r))"
    using all by (intro map_idI) (auto simp: list_all_iff)
  then show "NormalizePath (NormalizePath (URL_Path r)) = NormalizePath (URL_Path r)"
    unfolding NormalizePath_def [of "NormalizePath (URL_Path r)"] by (simp only: join_split)
qed

end
