(* ===== verification/UserStore.thy ===== *)
theory UserStore
  imports Prelude
begin

text \<open>
  internal/store/users.go: the tables of users, API keys and app grants, and every operation on them; of the app
  table (apps.go) the identifiers and slugs, which the grants refer to, and of store.go the wipe before a restore.
  A table is the list of its rows; the constraints the migrations declare (unique user names
  and key hashes, the three roles, identifiers that are never used twice, foreign keys that
  cascade) are checked where SQLite checks them. A statement can also fail for a reason
  of its own (disk, lock): \<open>sql_fails\<close> says for which operation it does, and then nothing changes.
  The hooks the operations fire after a write only schedule an export and are left out.
\<close>

record User =
  u_id :: int
  u_username :: string
  u_password_hash :: string
  u_role :: string
  u_display_name :: string
  u_email :: string
  u_created_at :: instant
  u_token_version :: int

record APIKeyRecord =
  k_id :: int
  k_user_id :: int
  k_key_hash :: string
  k_name :: string
  k_created_at :: instant
  k_expires_at :: "instant option"
  k_last_used_at :: "instant option"

record app_row =
  ar_id :: int
  ar_slug :: string

record user_db =
  db_users :: "User list"
  db_users_seq :: int
  db_keys :: "APIKeyRecord list"
  db_keys_seq :: int
  db_grants :: "(int \<times> int) list"
  db_apps :: "app_row list"
  db_apps_seq :: int

record sql_env =
  sql_fails :: "string \<Rightarrow> bool"
  sql_now :: instant

datatype store_error = NotFound | UniqueFailed | CheckFailed | ForeignKeyFailed | APIKeyNameTaken | SqlFailed

subsection \<open>Users\<close>

definition role_allowed :: "string \<Rightarrow> bool" where
  "role_allowed role \<longleftrightarrow> role \<in> {''super_admin'', ''manage'', ''viewer''}"

definition find_user :: "user_db \<Rightarrow> int \<Rightarrow> User option" where
  "find_user d i = find (\<lambda>u. u_id u = i) (db_users d)"

definition update_users :: "int \<Rightarrow> (User \<Rightarrow> User) \<Rightarrow> user_db \<Rightarrow> user_db" where
  "update_users i f d = d\<lparr>db_users := map (\<lambda>u. if u_id u = i then f u else u) (db_users d)\<rparr>"

definition CreateUser :: "sql_env \<Rightarrow> string \<Rightarrow> string \<Rightarrow> string \<Rightarrow> string \<Rightarrow> string \<Rightarrow> user_db \<Rightarrow> (store_error + User) \<times> user_db" where
  "CreateUser e username passwordHash role displayName email d =
     (if sql_fails e ''CreateUser'' then (Inl SqlFailed, d)
      else if \<not> role_allowed role then (Inl CheckFailed, d)
      else if username \<in> u_username ` set (db_users d) then (Inl UniqueFailed, d)
      else let u = \<lparr>u_id = db_users_seq d + 1, u_username = username, u_password_hash = passwordHash, u_role = role,
                    u_display_name = displayName, u_email = email, u_created_at = sql_now e, u_token_version = 1\<rparr>
           in (Inr u, d\<lparr>db_users := db_users d @ [u], db_users_seq := db_users_seq d + 1\<rparr>))"

definition GetUserByUsername :: "sql_env \<Rightarrow> string \<Rightarrow> user_db \<Rightarrow> store_error + User" where
  "GetUserByUsername e username d =
     (if sql_fails e ''GetUserByUsername'' then Inl SqlFailed
      else case find (\<lambda>u. u_username u = username) (db_users d) of None \<Rightarrow> Inl NotFound | Some u \<Rightarrow> Inr u)"

definition GetUserByID :: "sql_env \<Rightarrow> int \<Rightarrow> user_db \<Rightarrow> store_error + User" where
  "GetUserByID e i d =
     (if sql_fails e ''GetUserByID'' then Inl SqlFailed
      else case find_user d i of None \<Rightarrow> Inl NotFound | Some u \<Rightarrow> Inr u)"

text \<open>Lists leave the password hash and the token version at their zero values.\<close>

definition username_less :: "User \<Rightarrow> User \<Rightarrow> bool" where
  "username_less a b \<longleftrightarrow> u_username a < u_username b"

definition ListUsersWithHashes :: "sql_env \<Rightarrow> user_db \<Rightarrow> store_error + User list" where
  "ListUsersWithHashes e d =
     (if sql_fails e ''ListUsersWithHashes'' then Inl SqlFailed
      else Inr (map (\<lambda>u. u\<lparr>u_token_version := 0\<rparr>) (sort_by username_less (db_users d))))"

definition ListUsers :: "sql_env \<Rightarrow> user_db \<Rightarrow> store_error + User list" where
  "ListUsers e d =
     (if sql_fails e ''ListUsers'' then Inl SqlFailed
      else Inr (map (\<lambda>u. u\<lparr>u_password_hash := [], u_token_version := 0\<rparr>) (sort_by username_less (db_users d))))"

definition DeleteUser :: "sql_env \<Rightarrow> int \<Rightarrow> user_db \<Rightarrow> store_error option \<times> user_db" where
  "DeleteUser e i d =
     (if sql_fails e ''DeleteUser'' then (Some SqlFailed, d)
      else if find_user d i = None then (Some NotFound, d)
      else (None, d\<lparr>db_users := filter (\<lambda>u. u_id u \<noteq> i) (db_users d),
                    db_keys := filter (\<lambda>k. k_user_id k \<noteq> i) (db_keys d),
                    db_grants := filter (\<lambda>g. fst g \<noteq> i) (db_grants d)\<rparr>))"

definition UserCount :: "sql_env \<Rightarrow> user_db \<Rightarrow> store_error + int" where
  "UserCount e d = (if sql_fails e ''UserCount'' then Inl SqlFailed else Inr (int (length (db_users d))))"

definition EmailTaken :: "sql_env \<Rightarrow> string \<Rightarrow> int \<Rightarrow> user_db \<Rightarrow> bool" where
  "EmailTaken e email excludeID d =
     (\<not> sql_fails e ''EmailTaken'' \<and> list_ex (\<lambda>u. u_email u = email \<and> u_id u \<noteq> excludeID) (db_users d))"

text \<open>An UPDATE of one user: no row is the error ``not found''.\<close>

definition update_user :: "sql_env \<Rightarrow> string \<Rightarrow> int \<Rightarrow> (User \<Rightarrow> User) \<Rightarrow> user_db \<Rightarrow> store_error option \<times> user_db" where
  "update_user e stmt i f d =
     (if sql_fails e stmt then (Some SqlFailed, d)
      else if find_user d i = None then (Some NotFound, d)
      else (None, update_users i f d))"

definition UpdateProfile :: "sql_env \<Rightarrow> int \<Rightarrow> string \<Rightarrow> string \<Rightarrow> user_db \<Rightarrow> store_error option \<times> user_db" where
  "UpdateProfile e i displayName email =
     update_user e ''UpdateProfile'' i (\<lambda>u. u\<lparr>u_display_name := displayName, u_email := email\<rparr>)"

definition UpdateUserRole :: "sql_env \<Rightarrow> int \<Rightarrow> string \<Rightarrow> user_db \<Rightarrow> store_error option \<times> user_db" where
  "UpdateUserRole e i role d =
     (if \<not> role_allowed role \<and> find_user d i \<noteq> None then (Some CheckFailed, d)
      else update_user e ''UpdateUserRole'' i (\<lambda>u. u\<lparr>u_role := role, u_token_version := u_token_version u + 1\<rparr>) d)"

definition UpdatePassword :: "sql_env \<Rightarrow> int \<Rightarrow> string \<Rightarrow> user_db \<Rightarrow> store_error option \<times> user_db" where
  "UpdatePassword e i newHash =
     update_user e ''UpdatePassword'' i (\<lambda>u. u\<lparr>u_password_hash := newHash, u_token_version := u_token_version u + 1\<rparr>)"

definition BumpTokenVersion :: "sql_env \<Rightarrow> int \<Rightarrow> user_db \<Rightarrow> store_error option \<times> user_db" where
  "BumpTokenVersion e i d =
     (if sql_fails e ''BumpTokenVersion'' then (Some SqlFailed, d)
      else (None, update_users i (\<lambda>u. u\<lparr>u_token_version := u_token_version u + 1\<rparr>) d))"

text \<open>The two upserts configsync uses; they keep the token version of an existing user.\<close>

definition UpsertUserByUsername :: "sql_env \<Rightarrow> User \<Rightarrow> user_db \<Rightarrow> (store_error + int) \<times> user_db" where
  "UpsertUserByUsername e u d =
     (if sql_fails e ''UpsertUserByUsername'' then (Inl SqlFailed, d)
      else if \<not> role_allowed (u_role u) then (Inl CheckFailed, d)
      else case find (\<lambda>v. u_username v = u_username u) (db_users d) of
             Some v \<Rightarrow> (Inr (u_id v), update_users (u_id v)
                (\<lambda>v. v\<lparr>u_password_hash := u_password_hash u, u_role := u_role u, u_display_name := u_display_name u, u_email := u_email u\<rparr>) d)
           | None \<Rightarrow>
               let v = \<lparr>u_id = db_users_seq d + 1, u_username = u_username u, u_password_hash = u_password_hash u, u_role = u_role u,
                        u_display_name = u_display_name u, u_email = u_email u, u_created_at = sql_now e, u_token_version = 1\<rparr>
               in (Inr (u_id v), d\<lparr>db_users := db_users d @ [v], db_users_seq := db_users_seq d + 1\<rparr>))"

definition UpdateUserFromRedacted :: "sql_env \<Rightarrow> string \<Rightarrow> string \<Rightarrow> string \<Rightarrow> string \<Rightarrow> user_db \<Rightarrow> store_error option \<times> user_db" where
  "UpdateUserFromRedacted e username role displayName email d =
     (if sql_fails e ''UpdateUserFromRedacted'' then (Some SqlFailed, d)
      else if \<not> role_allowed role then (Some CheckFailed, d)
      else case find (\<lambda>v. u_username v = username) (db_users d) of
             Some v \<Rightarrow> (None, update_users (u_id v)
                (\<lambda>v. v\<lparr>u_role := role, u_display_name := displayName, u_email := email\<rparr>) d)
           | None \<Rightarrow>
               let v = \<lparr>u_id = db_users_seq d + 1, u_username = username, u_password_hash = [], u_role = role,
                        u_display_name = displayName, u_email = email, u_created_at = sql_now e, u_token_version = 1\<rparr>
               in (None, d\<lparr>db_users := db_users d @ [v], db_users_seq := db_users_seq d + 1\<rparr>))"

subsection \<open>API keys\<close>

definition CreateAPIKey ::
  "sql_env \<Rightarrow> int \<Rightarrow> string \<Rightarrow> string \<Rightarrow> instant option \<Rightarrow> user_db \<Rightarrow> (store_error + APIKeyRecord) \<times> user_db" where
  "CreateAPIKey e userID keyHash name expiresAt d =
     (if sql_fails e ''CreateAPIKey'' then (Inl SqlFailed, d)
      else if list_ex (\<lambda>k. k_user_id k = userID \<and> k_name k = name) (db_keys d) then (Inl APIKeyNameTaken, d)
      else if keyHash \<in> k_key_hash ` set (db_keys d) then (Inl UniqueFailed, d)
      else if find_user d userID = None then (Inl ForeignKeyFailed, d)
      else let k = \<lparr>k_id = db_keys_seq d + 1, k_user_id = userID, k_key_hash = keyHash, k_name = name,
                    k_created_at = sql_now e, k_expires_at = expiresAt, k_last_used_at = None\<rparr>
           in (Inr k, d\<lparr>db_keys := db_keys d @ [k], db_keys_seq := db_keys_seq d + 1\<rparr>))"

text \<open>The time of last use is written on the way, whatever becomes of that write.\<close>

definition GetAPIKeyByHash :: "sql_env \<Rightarrow> string \<Rightarrow> user_db \<Rightarrow> (store_error + APIKeyRecord \<times> User) \<times> user_db" where
  "GetAPIKeyByHash e h d =
     (if sql_fails e ''GetAPIKeyByHash'' then (Inl SqlFailed, d)
      else case find (\<lambda>k. k_key_hash k = h \<and> find_user d (k_user_id k) \<noteq> None) (db_keys d) of
             None \<Rightarrow> (Inl NotFound, d)
           | Some k \<Rightarrow>
               (Inr (k, the (find_user d (k_user_id k))),
                if sql_fails e ''last_used_at'' then d
                else d\<lparr>db_keys := map (\<lambda>x. if k_id x = k_id k then x\<lparr>k_last_used_at := Some (sql_now e)\<rparr> else x) (db_keys d)\<rparr>))"

definition ListAPIKeysByUser :: "sql_env \<Rightarrow> int \<Rightarrow> user_db \<Rightarrow> store_error + APIKeyRecord list" where
  "ListAPIKeysByUser e userID d =
     (if sql_fails e ''ListAPIKeysByUser'' then Inl SqlFailed else Inr (filter (\<lambda>k. k_user_id k = userID) (db_keys d)))"

definition DeleteAPIKey :: "sql_env \<Rightarrow> int \<Rightarrow> int \<Rightarrow> user_db \<Rightarrow> store_error option \<times> user_db" where
  "DeleteAPIKey e i userID d =
     (let hit = (\<lambda>k. k_id k = i \<and> (userID = 0 \<or> k_user_id k = userID)) in
      if sql_fails e ''DeleteAPIKey'' then (Some SqlFailed, d)
      else if \<not> list_ex hit (db_keys d) then (Some NotFound, d)
      else (None, d\<lparr>db_keys := filter (\<lambda>k. \<not> hit k) (db_keys d)\<rparr>))"

definition UpsertAPIKey :: "sql_env \<Rightarrow> string \<Rightarrow> string \<Rightarrow> string \<Rightarrow> instant option \<Rightarrow> user_db \<Rightarrow> store_error option \<times> user_db" where
  "UpsertAPIKey e username keyHash name expiresAt d =
     (if sql_fails e ''UpsertAPIKey'' then (Some SqlFailed, d)
      else case find (\<lambda>u. u_username u = username) (db_users d) of
             None \<Rightarrow> (Some NotFound, d)
           | Some u \<Rightarrow>
               (None,
                if keyHash \<in> k_key_hash ` set (db_keys d)
                then d\<lparr>db_keys := map (\<lambda>k. if k_key_hash k = keyHash
                       then k\<lparr>k_user_id := u_id u, k_name := name, k_expires_at := expiresAt\<rparr> else k) (db_keys d)\<rparr>
                else d\<lparr>db_keys := db_keys d @ [\<lparr>k_id = db_keys_seq d + 1, k_user_id = u_id u, k_key_hash = keyHash, k_name = name,
                         k_created_at = sql_now e, k_expires_at = expiresAt, k_last_used_at = None\<rparr>],
                       db_keys_seq := db_keys_seq d + 1\<rparr>))"

subsection \<open>App grants\<close>

definition find_app :: "user_db \<Rightarrow> string \<Rightarrow> app_row option" where
  "find_app d slug = find (\<lambda>a. ar_slug a = slug) (db_apps d)"

definition GetAppBySlug :: "sql_env \<Rightarrow> string \<Rightarrow> user_db \<Rightarrow> store_error + app_row" where
  "GetAppBySlug e slug d =
     (if sql_fails e ''GetAppBySlug'' then Inl SqlFailed
      else case find_app d slug of None \<Rightarrow> Inl NotFound | Some a \<Rightarrow> Inr a)"

definition GrantAppAccess :: "sql_env \<Rightarrow> int \<Rightarrow> int \<Rightarrow> user_db \<Rightarrow> store_error option \<times> user_db" where
  "GrantAppAccess e userID appID d =
     (if sql_fails e ''GrantAppAccess'' then (Some SqlFailed, d)
      else if (userID, appID) \<in> set (db_grants d) then (None, d)
      else if find_user d userID = None \<or> appID \<notin> ar_id ` set (db_apps d) then (Some ForeignKeyFailed, d)
      else (None, d\<lparr>db_grants := db_grants d @ [(userID, appID)]\<rparr>))"

definition RevokeAppAccess :: "sql_env \<Rightarrow> int \<Rightarrow> int \<Rightarrow> user_db \<Rightarrow> store_error option \<times> user_db" where
  "RevokeAppAccess e userID appID d =
     (if sql_fails e ''RevokeAppAccess'' then (Some SqlFailed, d)
      else (None, d\<lparr>db_grants := filter (\<lambda>g. g \<noteq> (userID, appID)) (db_grants d)\<rparr>))"

text \<open>The callers ignore the error of the two checks; it comes with the answer \<open>false\<close>.\<close>

definition HasAppAccess :: "sql_env \<Rightarrow> int \<Rightarrow> string \<Rightarrow> user_db \<Rightarrow> bool" where
  "HasAppAccess e userID appSlug d =
     (\<not> sql_fails e ''HasAppAccess'' \<and>
      (case find_user d userID of None \<Rightarrow> False
       | Some u \<Rightarrow> u_role u = ''super_admin'' \<or>
           list_ex (\<lambda>(u, a). u = userID \<and> list_ex (\<lambda>r. ar_id r = a \<and> ar_slug r = appSlug) (db_apps d)) (db_grants d)))"

definition HasAppAccessByID :: "sql_env \<Rightarrow> int \<Rightarrow> int \<Rightarrow> user_db \<Rightarrow> bool" where
  "HasAppAccessByID e userID appID d =
     (\<not> sql_fails e ''HasAppAccessByID'' \<and>
      (case find_user d userID of None \<Rightarrow> False
       | Some u \<Rightarrow> u_role u = ''super_admin'' \<or> (userID, appID) \<in> set (db_grants d)))"

definition AccessibleAppIDs :: "sql_env \<Rightarrow> int \<Rightarrow> user_db \<Rightarrow> store_error + int list" where
  "AccessibleAppIDs e userID d =
     (if sql_fails e ''AccessibleAppIDs'' then Inl SqlFailed
      else Inr (map snd (filter (\<lambda>g. fst g = userID) (db_grants d))))"

definition GetUserAppSlugs :: "sql_env \<Rightarrow> int \<Rightarrow> user_db \<Rightarrow> store_error + string list" where
  "GetUserAppSlugs e userID d =
     (if sql_fails e ''GetUserAppSlugs'' then Inl SqlFailed
      else Inr (sort (concat (map (\<lambda>(u, a). if u = userID then map ar_slug (filter (\<lambda>r. ar_id r = a) (db_apps d)) else [])
                  (db_grants d)))))"

definition ListAccessForApp :: "sql_env \<Rightarrow> int \<Rightarrow> user_db \<Rightarrow> store_error + string list" where
  "ListAccessForApp e appID d =
     (if sql_fails e ''ListAccessForApp'' then Inl SqlFailed
      else Inr (sort (concat (map (\<lambda>(u, a). if a = appID then map u_username (filter (\<lambda>r. u_id r = u) (db_users d)) else [])
                  (db_grants d)))))"

text \<open>\<open>ReplaceAppAccess\<close> runs in a transaction: a failing insert undoes the delete.\<close>

fun grant_names :: "user_db \<Rightarrow> int \<Rightarrow> string list \<Rightarrow> (int \<times> int) list \<Rightarrow> (int \<times> int) list" where
  "grant_names d appID [] gs = gs"
| "grant_names d appID (n # ns) gs =
     (case find (\<lambda>u. u_username u = n) (db_users d) of
        None \<Rightarrow> grant_names d appID ns gs
      | Some u \<Rightarrow> grant_names d appID ns (if (u_id u, appID) \<in> set gs then gs else gs @ [(u_id u, appID)]))"

definition ReplaceAppAccess :: "sql_env \<Rightarrow> int \<Rightarrow> string list \<Rightarrow> user_db \<Rightarrow> store_error option \<times> user_db" where
  "ReplaceAppAccess e appID usernames d =
     (let kept = filter (\<lambda>g. snd g \<noteq> appID) (db_grants d); next = grant_names d appID usernames kept in
      if sql_fails e ''ReplaceAppAccess'' then (Some SqlFailed, d)
      else if next \<noteq> kept \<and> appID \<notin> ar_id ` set (db_apps d) then (Some ForeignKeyFailed, d)
      else (None, d\<lparr>db_grants := next\<rparr>))"

subsection \<open>The rows of the app table\<close>

text \<open>
  What the operations of apps.go and of store.go on other tables do to the rows here: the grants of an app go with its row,
  the users go with their keys and grants. AppStore has the other columns of the app table. A refusal because of a row of
  another table is one of the failures \<open>sql_fails\<close> stands for.
\<close>

definition app_status_ok :: "string \<Rightarrow> bool" where
  "app_status_ok s \<longleftrightarrow> s \<in> {''running'', ''stopped'', ''error'', ''unstable'', ''failed''}"

definition UpsertApp_row :: "sql_env \<Rightarrow> string \<Rightarrow> string \<Rightarrow> user_db \<Rightarrow> (store_error + int) \<times> user_db" where
  "UpsertApp_row e slug status d =
     (if sql_fails e ''UpsertApp'' then (Inl SqlFailed, d)
      else if \<not> app_status_ok status then (Inl CheckFailed, d)
      else case find_app d slug of
             Some a \<Rightarrow> (Inr (ar_id a), d)
           | None \<Rightarrow>
               let i = db_apps_seq d + 1
               in (Inr i, d\<lparr>db_apps := db_apps d @ [\<lparr>ar_id = i, ar_slug = slug\<rparr>], db_apps_seq := i\<rparr>))"

definition drop_app_rows :: "string \<Rightarrow> user_db \<Rightarrow> user_db" where
  "drop_app_rows slug d =
     (let gone = map ar_id (filter (\<lambda>a. ar_slug a = slug) (db_apps d))
      in d\<lparr>db_apps := filter (\<lambda>a. ar_slug a \<noteq> slug) (db_apps d), db_grants := filter (\<lambda>g. snd g \<notin> set gone) (db_grants d)\<rparr>)"

definition DeleteApp_row :: "sql_env \<Rightarrow> string \<Rightarrow> user_db \<Rightarrow> store_error option \<times> user_db" where
  "DeleteApp_row e slug d =
     (if sql_fails e ''DeleteApp'' then (Some SqlFailed, d)
      else if find_app d slug = None then (Some NotFound, d)
      else (None, drop_app_rows slug d))"

definition PurgeApp_row :: "sql_env \<Rightarrow> string \<Rightarrow> user_db \<Rightarrow> store_error option \<times> user_db" where
  "PurgeApp_row e slug d =
     (if sql_fails e ''PurgeApp'' then (Some SqlFailed, d)
      else if find_app d slug = None then (Some NotFound, d)
      else (None, drop_app_rows slug d))"

definition WipeConfigForRestore :: "sql_env \<Rightarrow> user_db \<Rightarrow> store_error option \<times> user_db" where
  "WipeConfigForRestore e d =
     (if sql_fails e ''WipeConfigForRestore'' then (Some SqlFailed, d)
      else (None, d\<lparr>db_grants := [], db_keys := [], db_users := []\<rparr>))"

subsection \<open>Well-formed tables\<close>

definition users_ok :: "User list \<Rightarrow> int \<Rightarrow> bool" where
  "users_ok us n \<longleftrightarrow> distinct (map u_id us) \<and> distinct (map u_username us) \<and>
     list_all (\<lambda>u. 0 < u_id u \<and> u_id u \<le> n \<and> role_allowed (u_role u)) us"

definition keys_ok :: "APIKeyRecord list \<Rightarrow> int \<Rightarrow> int set \<Rightarrow> bool" where
  "keys_ok ks n ids \<longleftrightarrow> distinct (map k_id ks) \<and> distinct (map k_key_hash ks) \<and>
     list_all (\<lambda>k. k_id k \<le> n \<and> k_user_id k \<in> ids) ks"

definition grants_ok :: "(int \<times> int) list \<Rightarrow> int set \<Rightarrow> int set \<Rightarrow> bool" where
  "grants_ok gs ids apps \<longleftrightarrow> distinct gs \<and> list_all (\<lambda>(u, a). u \<in> ids \<and> a \<in> apps) gs"

definition apps_ok :: "app_row list \<Rightarrow> int \<Rightarrow> bool" where
  "apps_ok as n \<longleftrightarrow> distinct (map ar_id as) \<and> distinct (map ar_slug as) \<and> list_all (\<lambda>a. ar_id a \<le> n) as"

lemma apps_ok_Nil [simp]: "apps_ok [] n"
  by (simp add: apps_ok_def)

definition user_ids :: "user_db \<Rightarrow> int set" where
  "user_ids d = u_id ` set (db_users d)"

definition app_ids :: "user_db \<Rightarrow> int set" where
  "app_ids d = ar_id ` set (db_apps d)"

definition db_ok :: "user_db \<Rightarrow> bool" where
  "db_ok d \<longleftrightarrow> 0 \<le> db_users_seq d \<and> users_ok (db_users d) (db_users_seq d) \<and> keys_ok (db_keys d) (db_keys_seq d) (user_ids d) \<and>
     grants_ok (db_grants d) (user_ids d) (app_ids d) \<and> apps_ok (db_apps d) (db_apps_seq d)"

definition empty_db :: user_db where
  "empty_db = \<lparr>db_users = [], db_users_seq = 0, db_keys = [], db_keys_seq = 0, db_grants = [], db_apps = [], db_apps_seq = 0\<rparr>"

text \<open>What an UPDATE of a user row never touches.\<close>

definition keeps_user :: "(User \<Rightarrow> User) \<Rightarrow> bool" where
  "keeps_user f \<longleftrightarrow> (\<forall>u. u_id (f u) = u_id u \<and> u_username (f u) = u_username u \<and>
     u_token_version u \<le> u_token_version (f u) \<and> (role_allowed (u_role u) \<longrightarrow> role_allowed (u_role (f u))))"

lemma find_user_in: "find_user d i = Some u \<Longrightarrow> u \<in> set (db_users d) \<and> u_id u = i"
  unfolding find_user_def find_Some_iff using nth_mem by blast

lemma find_user_None: "find_user d i = None \<longleftrightarrow> i \<notin> user_ids d"
  unfolding find_user_def find_None_iff user_ids_def by blast

lemma find_eq_SomeI:
  assumes "x \<in> set xs" "P x" and same: "\<And>y. y \<in> set xs \<Longrightarrow> P y \<Longrightarrow> y = x"
  shows "find P xs = Some x"
proof (cases "find P xs")
  case None
  then show ?thesis using assms(1,2) unfolding find_None_iff by blast
next
  case (Some y)
  then have "y \<in> set xs" "P y" unfolding find_Some_iff using nth_mem by blast+
  from same [OF this] Some show ?thesis by simp
qed

lemma distinct_map_inj: "distinct (map f xs) \<Longrightarrow> x \<in> set xs \<Longrightarrow> y \<in> set xs \<Longrightarrow> f x = f y \<Longrightarrow> x = y"
  unfolding distinct_map by (elim conjE) (rule inj_onD)

lemma find_user_Some:
  assumes "users_ok (db_users d) n" "u \<in> set (db_users d)"
  shows "find_user d (u_id u) = Some u"
  unfolding find_user_def
proof (rule find_eq_SomeI [OF assms(2)])
  fix v assume v: "v \<in> set (db_users d)" "u_id v = u_id u"
  have "distinct (map u_id (db_users d))" using assms(1) by (simp add: users_ok_def)
  from distinct_map_inj [OF this v(1) assms(2) v(2)] show "v = u" .
qed simp

lemma update_users_maps:
  "keeps_user f \<Longrightarrow> map u_id (db_users (update_users i f d)) = map u_id (db_users d)"
  "keeps_user f \<Longrightarrow> map u_username (db_users (update_users i f d)) = map u_username (db_users d)"
  by (auto simp: update_users_def keeps_user_def)

lemma user_ids_update [simp]: "keeps_user f \<Longrightarrow> user_ids (update_users i f d) = user_ids d"
  unfolding user_ids_def set_map [symmetric] by (simp only: update_users_maps)

lemma update_users_fields [simp]:
  "db_users_seq (update_users i f d) = db_users_seq d" "db_keys (update_users i f d) = db_keys d"
  "db_keys_seq (update_users i f d) = db_keys_seq d" "db_grants (update_users i f d) = db_grants d"
  "db_apps (update_users i f d) = db_apps d" "db_apps_seq (update_users i f d) = db_apps_seq d"
  by (simp_all add: update_users_def)

lemma find_user_update:
  assumes "keeps_user f"
  shows "find_user (update_users i f d) j = map_option (\<lambda>u. if j = i then f u else u) (find_user d j)"
proof -
  have "find (\<lambda>u. u_id u = j) (map (\<lambda>u. if u_id u = i then f u else u) us) =
      map_option (\<lambda>u. if j = i then f u else u) (find (\<lambda>u. u_id u = j) us)" for us
    using assms by (induction us) (auto simp: keeps_user_def)
  then show ?thesis by (simp add: find_user_def update_users_def)
qed

lemma db_ok_update: "keeps_user f \<Longrightarrow> db_ok d \<Longrightarrow> db_ok (update_users i f d)"
proof -
  assume f: "keeps_user f" and d: "db_ok d"
  have "list_all (\<lambda>u. 0 < u_id u \<and> u_id u \<le> db_users_seq d \<and> role_allowed (u_role u)) (db_users (update_users i f d))"
    using d f by (auto simp: db_ok_def users_ok_def update_users_def list_all_iff keeps_user_def)
  then have "users_ok (db_users (update_users i f d)) (db_users_seq d)"
    using d f by (simp add: users_ok_def db_ok_def update_users_maps)
  then show ?thesis using d f by (simp add: db_ok_def app_ids_def)
qed

lemma db_ok_new_user:
  assumes "db_ok d" "u_id u = db_users_seq d + 1" "u_username u \<notin> u_username ` set (db_users d)" "role_allowed (u_role u)"
  shows "db_ok (d\<lparr>db_users := db_users d @ [u], db_users_seq := db_users_seq d + 1\<rparr>)"
proof -
  have "u_id u \<notin> u_id ` set (db_users d)"
    using assms(1,2) by (fastforce simp: db_ok_def users_ok_def list_all_iff)
  then show ?thesis
    using assms by (auto simp: db_ok_def users_ok_def keys_ok_def grants_ok_def list_all_iff user_ids_def app_ids_def)
qed

lemma list_all_filter: "list_all P xs \<Longrightarrow> list_all P (filter Q xs)"
  by (auto simp: list_all_iff)

lemma db_ok_delete_user:
  assumes "db_ok d"
  shows "db_ok (d\<lparr>db_users := filter (\<lambda>u. u_id u \<noteq> i) (db_users d), db_keys := filter (\<lambda>k. k_user_id k \<noteq> i) (db_keys d),
    db_grants := filter (\<lambda>g. fst g \<noteq> i) (db_grants d)\<rparr>)"
  using assms
  by (auto simp: db_ok_def users_ok_def keys_ok_def grants_ok_def list_all_iff user_ids_def app_ids_def distinct_map_filter)

lemma db_ok_keys:
  "db_ok d \<Longrightarrow> keys_ok ks n (user_ids d) \<Longrightarrow> db_ok (d\<lparr>db_keys := ks, db_keys_seq := n\<rparr>)"
  by (simp add: db_ok_def user_ids_def app_ids_def)

lemma db_ok_grants: "db_ok d \<Longrightarrow> grants_ok gs (user_ids d) (app_ids d) \<Longrightarrow> db_ok (d\<lparr>db_grants := gs\<rparr>)"
  by (simp add: db_ok_def user_ids_def app_ids_def)

subsection \<open>Every operation keeps the tables well-formed\<close>

inductive store_step :: "user_db \<Rightarrow> user_db \<Rightarrow> bool" where
  create: "store_step d (snd (CreateUser e username hash role name email d))"
| delete: "store_step d (snd (DeleteUser e i d))"
| profile: "store_step d (snd (UpdateProfile e i name email d))"
| role: "store_step d (snd (UpdateUserRole e i role d))"
| password: "store_step d (snd (UpdatePassword e i hash d))"
| bump: "store_step d (snd (BumpTokenVersion e i d))"
| upsert: "store_step d (snd (UpsertUserByUsername e u d))"
| redacted: "store_step d (snd (UpdateUserFromRedacted e username role name email d))"
| create_key: "store_step d (snd (CreateAPIKey e i hash name exp d))"
| use_key: "store_step d (snd (GetAPIKeyByHash e hash d))"
| delete_key: "store_step d (snd (DeleteAPIKey e i owner d))"
| upsert_key: "store_step d (snd (UpsertAPIKey e username hash name exp d))"
| grant: "store_step d (snd (GrantAppAccess e i app d))"
| revoke: "store_step d (snd (RevokeAppAccess e i app d))"
| replace: "store_step d (snd (ReplaceAppAccess e app names d))"
| upsert_app: "store_step d (snd (UpsertApp_row e slug status d))"
| delete_app: "store_step d (snd (DeleteApp_row e slug d))"
| purge_app: "store_step d (snd (PurgeApp_row e slug d))"
| wipe: "store_step d (snd (WipeConfigForRestore e d))"

inductive store_run :: "user_db \<Rightarrow> user_db \<Rightarrow> bool" where
  store_refl: "store_run d d"
| store_next: "store_run d d' \<Longrightarrow> store_step d' d'' \<Longrightarrow> store_run d d''"

lemma keeps_user_updates:
  "keeps_user (\<lambda>u. u\<lparr>u_display_name := a, u_email := b\<rparr>)"
  "role_allowed r \<Longrightarrow> keeps_user (\<lambda>u. u\<lparr>u_role := r, u_token_version := u_token_version u + 1\<rparr>)"
  "keeps_user (\<lambda>u. u\<lparr>u_password_hash := h, u_token_version := u_token_version u + 1\<rparr>)"
  "keeps_user (\<lambda>u. u\<lparr>u_token_version := u_token_version u + 1\<rparr>)"
  "role_allowed r \<Longrightarrow> keeps_user (\<lambda>v. v\<lparr>u_password_hash := h, u_role := r, u_display_name := a, u_email := b\<rparr>)"
  "role_allowed r \<Longrightarrow> keeps_user (\<lambda>v. v\<lparr>u_role := r, u_display_name := a, u_email := b\<rparr>)"
  by (auto simp: keeps_user_def)

text \<open>Every write has one of these shapes.\<close>

inductive store_shape :: "user_db \<Rightarrow> user_db \<Rightarrow> bool" where
  same: "store_shape d d"
| update: "keeps_user f \<Longrightarrow> store_shape d (update_users i f d)"
| new_user: "u_id u = db_users_seq d + 1 \<Longrightarrow> u_username u \<notin> u_username ` set (db_users d) \<Longrightarrow> role_allowed (u_role u) \<Longrightarrow>
    store_shape d (d\<lparr>db_users := db_users d @ [u], db_users_seq := db_users_seq d + 1\<rparr>)"
| drop_user: "store_shape d (d\<lparr>db_users := filter (\<lambda>u. u_id u \<noteq> i) (db_users d), db_keys := filter (\<lambda>k. k_user_id k \<noteq> i) (db_keys d),
    db_grants := filter (\<lambda>g. fst g \<noteq> i) (db_grants d)\<rparr>)"
| new_keys: "(keys_ok (db_keys d) (db_keys_seq d) (user_ids d) \<Longrightarrow> keys_ok ks n (user_ids d)) \<Longrightarrow>
    store_shape d (d\<lparr>db_keys := ks, db_keys_seq := n\<rparr>)"
| new_grants: "(grants_ok (db_grants d) (user_ids d) (app_ids d) \<Longrightarrow> grants_ok gs (user_ids d) (app_ids d)) \<Longrightarrow>
    store_shape d (d\<lparr>db_grants := gs\<rparr>)"
| new_app: "slug \<notin> ar_slug ` set (db_apps d) \<Longrightarrow>
    store_shape d (d\<lparr>db_apps := db_apps d @ [\<lparr>ar_id = db_apps_seq d + 1, ar_slug = slug\<rparr>], db_apps_seq := db_apps_seq d + 1\<rparr>)"
| drop_app: "store_shape d (drop_app_rows slug d)"
| no_users: "store_shape d (d\<lparr>db_grants := [], db_keys := [], db_users := []\<rparr>)"

lemma new_keys_same:
  "(keys_ok (db_keys d) (db_keys_seq d) (user_ids d) \<Longrightarrow> keys_ok ks (db_keys_seq d) (user_ids d)) \<Longrightarrow>
   store_shape d (d\<lparr>db_keys := ks\<rparr>)"
  using new_keys [of d ks "db_keys_seq d"] by simp

lemma find_username: "find (\<lambda>u. u_username u = n) (db_users d) = Some u \<Longrightarrow> u_id u \<in> user_ids d"
  unfolding find_Some_iff user_ids_def using nth_mem by blast

lemma username_free: "find (\<lambda>u. u_username u = n) (db_users d) = None \<Longrightarrow> n \<notin> u_username ` set (db_users d)"
  unfolding find_None_iff by blast

lemma keys_ok_map:
  "keys_ok ks n ids \<Longrightarrow> (\<And>k. k_id (f k) = k_id k \<and> k_key_hash (f k) = k_key_hash k) \<Longrightarrow>
   (\<And>k. k \<in> set ks \<Longrightarrow> k_user_id (f k) \<in> ids) \<Longrightarrow> keys_ok (map f ks) n ids"
  by (simp add: keys_ok_def list_all_iff comp_def)

lemma keys_ok_user: "keys_ok ks n ids \<Longrightarrow> k \<in> set ks \<Longrightarrow> k_user_id k \<in> ids"
  by (simp add: keys_ok_def list_all_iff)

lemma db_ok_key_user: "db_ok d \<Longrightarrow> k \<in> set (db_keys d) \<Longrightarrow> k_user_id k \<in> user_ids d"
  unfolding db_ok_def using keys_ok_user by blast

lemma user_id_found: "i \<in> user_ids d \<Longrightarrow> \<exists>u. find_user d i = Some u"
  using find_user_None [of d i] by (cases "find_user d i") auto

lemma keys_ok_filter: "keys_ok ks n ids \<Longrightarrow> keys_ok (filter P ks) n ids"
  by (simp add: keys_ok_def list_all_iff distinct_map_filter)

lemma keys_ok_new:
  assumes "keys_ok ks n ids" "k_id k = n + 1" "k_key_hash k \<notin> k_key_hash ` set ks" "k_user_id k \<in> ids"
  shows "keys_ok (ks @ [k]) (n + 1) ids"
proof -
  have "k_id k \<notin> k_id ` set ks" using assms(1,2) by (fastforce simp: keys_ok_def list_all_iff)
  then show ?thesis using assms by (auto simp: keys_ok_def list_all_iff)
qed

lemma grants_ok_names:
  "grants_ok gs (user_ids d) apps \<Longrightarrow> app \<in> apps \<Longrightarrow> grants_ok (grant_names d app ns gs) (user_ids d) apps"
  by (induction d app ns gs rule: grant_names.induct) (auto simp: grants_ok_def find_username split: option.split)

lemma store_step_shape: "store_step d d' \<Longrightarrow> store_shape d d'"
proof (induction rule: store_step.induct)
  case (create d e username hash role name email)
  then show ?case by (auto simp: CreateUser_def Let_def intro: same new_user)
next
  case (delete d e i)
  then show ?case by (auto simp: DeleteUser_def intro: same drop_user)
next
  case (profile d e i name email)
  then show ?case by (auto simp: UpdateProfile_def update_user_def intro: same update keeps_user_updates)
next
  case (role d e i role)
  then show ?case by (auto simp: UpdateUserRole_def update_user_def intro: same update keeps_user_updates)
next
  case (password d e i hash)
  then show ?case by (auto simp: UpdatePassword_def update_user_def intro: same update keeps_user_updates)
next
  case (bump d e i)
  then show ?case by (auto simp: BumpTokenVersion_def intro: same update keeps_user_updates)
next
  case (upsert d e u)
  show ?case
  proof (cases "find (\<lambda>v. u_username v = u_username u) (db_users d)")
    case None
    note free = username_free [OF None]
    show ?thesis using None
      by (auto simp: UpsertUserByUsername_def Let_def intro: same) (rule new_user; use free in simp)
  next
    case (Some v)
    then show ?thesis by (auto simp: UpsertUserByUsername_def intro: same intro!: update keeps_user_updates)
  qed
next
  case (redacted d e username role name email)
  show ?case
  proof (cases "find (\<lambda>v. u_username v = username) (db_users d)")
    case None
    note free = username_free [OF None]
    show ?thesis using None
      by (auto simp: UpdateUserFromRedacted_def Let_def intro: same) (rule new_user; use free in simp)
  next
    case (Some v)
    then show ?thesis by (auto simp: UpdateUserFromRedacted_def intro: same intro!: update keeps_user_updates)
  qed
next
  case (create_key d e i hash name exp)
  then show ?case
    by (auto simp: CreateAPIKey_def Let_def find_user_None intro!: same new_keys keys_ok_new)
next
  case (use_key d e hash)
  then show ?case
    by (auto simp: GetAPIKeyByHash_def split: option.split intro!: same new_keys_same keys_ok_map intro: keys_ok_user)
next
  case (delete_key d e i owner)
  then show ?case by (auto simp: DeleteAPIKey_def Let_def intro!: same new_keys_same keys_ok_filter)
next
  case (upsert_key d e username hash name exp)
  then show ?case
    by (auto simp: UpsertAPIKey_def Let_def split: option.split intro!: same new_keys new_keys_same keys_ok_map keys_ok_new find_username intro: keys_ok_user)
next
  case (grant d e i app)
  then show ?case
    by (auto simp: GrantAppAccess_def find_user_None app_ids_def grants_ok_def intro!: same new_grants)
next
  case (revoke d e i app)
  then show ?case by (auto simp: RevokeAppAccess_def grants_ok_def list_all_iff intro!: same new_grants)
next
  case (replace d e app names)
  let ?kept = "filter (\<lambda>g. snd g \<noteq> app) (db_grants d)"
  have kept: "grants_ok ?kept (user_ids d) (app_ids d)" if "grants_ok (db_grants d) (user_ids d) (app_ids d)"
    using that by (simp add: grants_ok_def list_all_iff)
  then have "grants_ok (grant_names d app names ?kept) (user_ids d) (app_ids d)"
    if "grants_ok (db_grants d) (user_ids d) (app_ids d)" "grant_names d app names ?kept = ?kept \<or> app \<in> app_ids d"
    using that grants_ok_names by (elim disjE) simp_all
  then show ?case
    by (auto simp: ReplaceAppAccess_def Let_def simp flip: app_ids_def intro!: same new_grants)
next
  case (upsert_app d e slug status)
  show ?case
  proof (cases "find_app d slug")
    case None
    then have free: "slug \<notin> ar_slug ` set (db_apps d)" by (auto simp: find_app_def find_None_iff)
    show ?thesis using None new_app [OF free] by (auto simp: UpsertApp_row_def Let_def intro: same)
  qed (auto simp: UpsertApp_row_def intro: same)
next
  case (delete_app d e slug)
  then show ?case by (auto simp: DeleteApp_row_def intro: same drop_app)
next
  case (purge_app d e slug)
  then show ?case by (auto simp: PurgeApp_row_def intro: same drop_app)
next
  case (wipe d e)
  then show ?case by (auto simp: WipeConfigForRestore_def intro: same no_users)
qed

lemma db_ok_new_app:
  assumes "db_ok d" "slug \<notin> ar_slug ` set (db_apps d)"
  shows "db_ok (d\<lparr>db_apps := db_apps d @ [\<lparr>ar_id = db_apps_seq d + 1, ar_slug = slug\<rparr>], db_apps_seq := db_apps_seq d + 1\<rparr>)"
  using assms by (fastforce simp: db_ok_def apps_ok_def grants_ok_def list_all_iff user_ids_def app_ids_def)

lemma db_ok_drop_app: "db_ok d \<Longrightarrow> db_ok (drop_app_rows slug d)"
  by (fastforce simp: drop_app_rows_def Let_def db_ok_def apps_ok_def grants_ok_def list_all_iff user_ids_def app_ids_def
      distinct_map_filter)

lemma db_ok_shape: "store_shape d d' \<Longrightarrow> db_ok d \<Longrightarrow> db_ok d'"
proof (induction rule: store_shape.induct)
  case (new_keys d ks n)
  then show ?case by (intro db_ok_keys) (simp_all add: db_ok_def)
next
  case (new_grants d gs)
  then show ?case by (intro db_ok_grants) (simp_all add: db_ok_def)
next
  case (no_users d)
  then show ?case by (simp add: db_ok_def users_ok_def keys_ok_def grants_ok_def app_ids_def)
qed (simp_all add: db_ok_update db_ok_new_user db_ok_delete_user db_ok_new_app db_ok_drop_app)

text \<open>
  Property C25. Whatever sequence of operations on users, API keys, grants and the rows of apps the program runs,
  starting from empty tables, a purge of an app and the wipe before a restore included: identifiers, user names, key hashes and
  slugs stay unique, roles stay among the three, and every API key and every grant belongs to a user (and an app) that exists.
\<close>

theorem store_run_ok:
  assumes "store_run empty_db d"
  shows "db_ok d"
  using assms
proof (induction empty_db d rule: store_run.induct)
  case store_refl
  then show ?case by (simp add: db_ok_def empty_db_def users_ok_def keys_ok_def grants_ok_def apps_ok_def)
next
  case (store_next d' d'')
  then show ?case using db_ok_shape store_step_shape by blast
qed

definition calm_sql :: sql_env where
  "calm_sql = \<lparr>sql_fails = (\<lambda>_. False), sql_now = 0\<rparr>"

theorem store_run_ok_witness:
  "db_ok (snd (PurgeApp_row calm_sql ''web'' (snd (UpsertApp_row calm_sql ''web'' ''running''
     (snd (CreateUser calm_sql ''ann'' ''h'' ''viewer'' [] [] empty_db))))))"
  by (rule store_run_ok [OF store_next [OF store_next [OF store_next [OF store_refl create] upsert_app] purge_app]])

subsection \<open>Sessions\<close>

text \<open>
  A session that carries user \<open>i\<close> and token version \<open>tv\<close> is dead when the user is gone or has a
  higher version by now.
\<close>

definition session_dead :: "user_db \<Rightarrow> int \<Rightarrow> int \<Rightarrow> bool" where
  "session_dead d i tv \<longleftrightarrow> i \<le> db_users_seq d \<and> (case find_user d i of None \<Rightarrow> True | Some u \<Rightarrow> tv < u_token_version u)"

lemma find_user_filter: "find_user (d\<lparr>db_users := filter P (db_users d), db_keys := ks, db_grants := gs\<rparr>) i =
    find (\<lambda>u. u_id u = i) (filter P (db_users d))"
  by (simp add: find_user_def)

lemma find_filter_ids: "find (\<lambda>u. u_id u = i) (filter (\<lambda>u. u_id u \<noteq> j) us) = (if i = j then None else find (\<lambda>u. u_id u = i) us)"
  by (induction us) auto

lemma find_append: "find P (xs @ ys) = (case find P xs of None \<Rightarrow> find P ys | Some x \<Rightarrow> Some x)"
  by (induction xs) auto

lemma session_dead_shape: "store_shape d d' \<Longrightarrow> session_dead d i tv \<Longrightarrow> session_dead d' i tv"
proof (induction rule: store_shape.induct)
  case (update f d j)
  have "u_token_version u \<le> u_token_version (f u)" for u using update(1) by (simp add: keeps_user_def)
  then have "tv < u_token_version (f u)" if h: "tv < u_token_version u" for u using less_le_trans [OF h] by blast
  then show ?case using update by (auto simp: session_dead_def find_user_update split: option.splits)
next
  case (new_user u d)
  then show ?case by (auto simp: session_dead_def find_user_def find_append split: option.splits)
next
  case (drop_user d j)
  then show ?case by (auto simp: session_dead_def find_user_filter find_filter_ids find_user_def split: option.splits)
qed (simp_all add: session_dead_def find_user_def drop_app_rows_def Let_def)

text \<open>
  Property C12. A password change, a role change, a logout and a deletion end every session the user
  has at that moment, for good: no later sequence of operations makes its token version
  valid again, not even creating new users.
\<close>

theorem sessions_stay_dead:
  assumes "db_ok d" "find_user d i = Some u" "tv \<le> u_token_version u"
    and "(op = UpdatePassword e i hash \<or> op = UpdateUserRole e i role \<or> op = BumpTokenVersion e i \<or> op = DeleteUser e i)"
    and "fst (op d) = None" "store_run (snd (op d)) d'"
  shows "case find_user d' i of None \<Rightarrow> True | Some v \<Rightarrow> tv < u_token_version v"
proof -
  have "u \<in> set (db_users d)" "u_id u = i" using find_user_in [OF assms(2)] by auto
  then have i: "i \<le> db_users_seq d" using assms(1) by (auto simp: db_ok_def users_ok_def list_all_iff)
  have "session_dead (snd (op d)) i tv"
    using assms(4,5) i assms(2,3)
    by (auto simp: session_dead_def UpdatePassword_def UpdateUserRole_def BumpTokenVersion_def DeleteUser_def update_user_def
        find_user_update keeps_user_updates find_user_filter find_filter_ids split: if_splits)
  with assms(6) have "session_dead d' i tv"
    by (induction rule: store_run.induct) (auto dest: session_dead_shape store_step_shape)
  then show ?thesis by (simp add: session_dead_def)
qed

definition example_users :: user_db where
  "example_users = snd (CreateUser calm_sql ''ann'' ''h'' ''super_admin'' [] [] empty_db)"

theorem sessions_stay_dead_witness:
  "case find_user (snd (UpdatePassword calm_sql 1 ''new'' example_users)) 1 of None \<Rightarrow> True | Some v \<Rightarrow> 1 < u_token_version v"
  by (rule sessions_stay_dead [of example_users 1 "the (find_user example_users 1)" 1 "UpdatePassword calm_sql 1 ''new''" calm_sql "''new''" "[]",
        OF _ _ _ _ _ store_refl])
    (simp_all add: example_users_def CreateUser_def calm_sql_def empty_db_def role_allowed_def db_ok_def users_ok_def keys_ok_def
      grants_ok_def apps_ok_def find_user_def UpdatePassword_def update_user_def Let_def)

text \<open>
  The two upserts of the config import are the exception: they can replace the password hash and
  leave every session of the user alive.
\<close>

lemma upsert_keeps_sessions:
  assumes "\<not> sql_fails e ''UpsertUserByUsername''" "role_allowed (u_role u)" "db_ok d" "v \<in> set (db_users d)" "u_username v = u_username u"
  shows "\<exists>w. find_user (snd (UpsertUserByUsername e u d)) (u_id v) = Some w \<and>
    u_password_hash w = u_password_hash u \<and> u_token_version w = u_token_version v"
proof -
  have "distinct (map u_username (db_users d))" using assms(3) by (simp add: db_ok_def users_ok_def)
  then have "find (\<lambda>v. u_username v = u_username u) (db_users d) = Some v"
    using assms(4,5) by (intro find_eq_SomeI) (auto dest: distinct_map_inj)
  moreover have "find_user d (u_id v) = Some v"
    using assms(3,4) by (intro find_user_Some) (auto simp: db_ok_def)
  ultimately show ?thesis using assms(1,2) by (simp add: UpsertUserByUsername_def find_user_update keeps_user_updates)
qed

end
