(* ===== verification/Auth.thy ===== *)
theory Auth
  imports Limiter GoHttp
begin

text \<open>
  internal/auth: the request limiter of the API, the progressive login lockout, and the client
  address of a request that may come through trusted proxies. The clock is an argument of every
  operation.
\<close>

subsection \<open>Request limiter\<close>

record bucket =
  bk_tokens :: int
  bk_lastReset :: instant

record RateLimiter =
  rl_limit :: int
  rl_win :: duration
  rl_buckets :: "(string \<times> bucket) list"

definition NewRateLimiter :: "int \<Rightarrow> duration \<Rightarrow> RateLimiter" where
  "NewRateLimiter limit window = \<lparr>rl_limit = limit, rl_win = window, rl_buckets = []\<rparr>"

definition auth_cleanup :: "instant \<Rightarrow> RateLimiter \<Rightarrow> RateLimiter" where
  "auth_cleanup now rl =
     (if length (rl_buckets rl) > 100
      then rl\<lparr>rl_buckets := filter (\<lambda>(k, v). \<not> bk_lastReset v < now + wrap64 (- 2 * rl_win rl)) (rl_buckets rl)\<rparr>
      else rl)"

definition auth_Allow :: "instant \<Rightarrow> string \<Rightarrow> RateLimiter \<Rightarrow> bool \<times> RateLimiter" where
  "auth_Allow now key rl0 =
     (let rl = auth_cleanup now rl0;
          fresh = rl\<lparr>rl_buckets := AList.update key \<lparr>bk_tokens = rl_limit rl - 1, bk_lastReset = now\<rparr> (rl_buckets rl)\<rparr>
      in case map_of (rl_buckets rl) key of
           None \<Rightarrow> (True, fresh)
         | Some b \<Rightarrow>
             if time_sub now (bk_lastReset b) \<ge> rl_win rl then (True, fresh)
             else if bk_tokens b \<le> 0 then (False, rl)
             else (True, rl\<lparr>rl_buckets := AList.update key (b\<lparr>bk_tokens := bk_tokens b - 1\<rparr>) (rl_buckets rl)\<rparr>))"

definition auth_inv :: "RateLimiter \<Rightarrow> bool" where
  "auth_inv rl \<longleftrightarrow> gomap_ok (rl_buckets rl) \<and> 0 < rl_win rl \<and> rl_win rl < 4611686018427387904 \<and>
     (\<forall>b \<in> snd ` set (rl_buckets rl). bk_tokens b < max 1 (rl_limit rl))"

definition auth_lookup :: "RateLimiter \<Rightarrow> string \<Rightarrow> bucket option" where
  "auth_lookup rl k = map_of (rl_buckets rl) k"

definition auth_due :: "RateLimiter \<Rightarrow> bucket \<Rightarrow> instant" where
  "auth_due rl b = bk_lastReset b + rl_win rl"

definition auth_fresh :: "RateLimiter \<Rightarrow> nat" where
  "auth_fresh rl = nat (max 1 (rl_limit rl))"

lemma auth_time:
  assumes "auth_inv rl"
  shows "wrap64 (- 2 * rl_win rl) = - 2 * rl_win rl"
    "rl_win rl \<le> time_sub now t \<longleftrightarrow> t + rl_win rl \<le> now"
  using assms by (auto simp: auth_inv_def wrap64_id min_i64_def max_i64_def time_sub_def)

lemma auth_tokens:
  assumes "auth_inv rl" "map_of (rl_buckets rl) k = Some b"
  shows "bk_tokens b < max 1 (rl_limit rl)"
proof -
  have "b \<in> snd ` set (rl_buckets rl)" using map_of_SomeD [OF assms(2)] by (rule rev_image_eqI) simp
  then show ?thesis using assms(1) unfolding auth_inv_def by blast
qed

lemma map_of_filter_val:
  "gomap_ok m \<Longrightarrow> map_of (filter (\<lambda>(k, v). P v) m) k = (case map_of m k of Some v \<Rightarrow> if P v then Some v else None | None \<Rightarrow> None)"
  by (induction m) (auto simp: map_of_eq_None_iff split: option.splits)

lemma cleanup_inv:
  assumes "auth_inv rl"
  shows "auth_inv (auth_cleanup now rl)" "rl_win (auth_cleanup now rl) = rl_win rl" "rl_limit (auth_cleanup now rl) = rl_limit rl"
    and "auth_lookup (auth_cleanup now rl) k = auth_lookup rl k \<or>
      auth_lookup (auth_cleanup now rl) k = None \<and> (\<exists>b. auth_lookup rl k = Some b \<and> auth_due rl b \<le> now)"
proof -
  show "rl_win (auth_cleanup now rl) = rl_win rl" "rl_limit (auth_cleanup now rl) = rl_limit rl"
    by (simp_all add: auth_cleanup_def)
  have "distinct (map fst (filter (\<lambda>(k, v). P v) (rl_buckets rl)))" for P
    using assms by (auto simp: auth_inv_def intro: distinct_map_filter)
  then show "auth_inv (auth_cleanup now rl)"
    using assms by (auto simp: auth_inv_def auth_cleanup_def)
  show "auth_lookup (auth_cleanup now rl) k = auth_lookup rl k \<or>
      auth_lookup (auth_cleanup now rl) k = None \<and> (\<exists>b. auth_lookup rl k = Some b \<and> auth_due rl b \<le> now)"
    using assms auth_time(1) [OF assms]
    by (auto simp: auth_cleanup_def auth_lookup_def auth_due_def map_of_filter_val auth_inv_def split: option.splits if_splits)
qed

lemma auth_Allow_cases:
  fixes now k rl
  defines "c \<equiv> auth_cleanup now rl"
  shows "snd (auth_Allow now k rl) = c \<or>
    (\<exists>x. snd (auth_Allow now k rl) = c\<lparr>rl_buckets := AList.update k x (rl_buckets c)\<rparr> \<and>
      (bk_tokens x = rl_limit c - 1 \<or> (\<exists>b. map_of (rl_buckets c) k = Some b \<and> bk_tokens x = bk_tokens b - 1)))"
proof (cases "map_of (rl_buckets c) k")
  case None
  then show ?thesis unfolding c_def
    by (intro disjI2 exI [of _ "\<lparr>bk_tokens = rl_limit (auth_cleanup now rl) - 1, bk_lastReset = now\<rparr>"])
      (simp add: auth_Allow_def Let_def)
next
  case (Some b)
  consider "time_sub now (bk_lastReset b) \<ge> rl_win c" | "\<not> time_sub now (bk_lastReset b) \<ge> rl_win c" "bk_tokens b \<le> 0"
    | "\<not> time_sub now (bk_lastReset b) \<ge> rl_win c" "\<not> bk_tokens b \<le> 0" by blast
  then show ?thesis
  proof cases
    case 1
    with Some show ?thesis unfolding c_def
      by (intro disjI2 exI [of _ "\<lparr>bk_tokens = rl_limit (auth_cleanup now rl) - 1, bk_lastReset = now\<rparr>"])
        (simp add: auth_Allow_def Let_def)
  next
    case 2
    with Some show ?thesis unfolding c_def by (simp add: auth_Allow_def Let_def)
  next
    case 3
    with Some show ?thesis unfolding c_def
      by (intro disjI2 exI [of _ "b\<lparr>bk_tokens := bk_tokens b - 1\<rparr>"]) (simp add: auth_Allow_def Let_def)
  qed
qed

interpretation auth_limiter: keyed_limiter auth_inv "\<lambda>_ _ _. True" auth_lookup auth_Allow
  "\<lambda>_ b. nat (bk_tokens b)" auth_due auth_fresh rl_win
proof
  fix rl now k j b
  let ?c = "auth_cleanup now rl" and ?r = "snd (auth_Allow now k rl)"
  have cfg: "rl_win ?r = rl_win rl" "rl_limit ?r = rl_limit rl"
    by (auto simp: auth_Allow_def auth_cleanup_def Let_def split: option.splits)
  then show "auth_fresh ?r = auth_fresh rl" "rl_win ?r = rl_win rl" "auth_due ?r = auth_due rl"
    by (simp_all add: auth_fresh_def auth_due_def fun_eq_iff)
  have upd: "auth_inv (rl\<lparr>rl_buckets := AList.update k x (rl_buckets rl)\<rparr>)" if "auth_inv rl" "bk_tokens x < max 1 (rl_limit rl)" for rl x
    using that set_alist_update [of k x "rl_buckets rl"] by (auto simp: auth_inv_def)
  show "auth_inv ?r" if inv: "auth_inv rl"
  proof -
    note c = cleanup_inv [OF inv, of now]
    have old: "bk_tokens x < max 1 (rl_limit ?c)" if "map_of (rl_buckets ?c) k = Some x" for x
      using auth_tokens [OF c(1) that] .
    show ?thesis
      using auth_Allow_cases [of now k rl]
    proof (elim disjE exE conjE)
      assume "?r = ?c" with c(1) show ?thesis by simp
    next
      fix x assume r: "?r = ?c\<lparr>rl_buckets := AList.update k x (rl_buckets ?c)\<rparr>" and x: "bk_tokens x = rl_limit ?c - 1"
      have "bk_tokens x < max 1 (rl_limit ?c)" using x by linarith
      then show ?thesis unfolding r by (rule upd [OF c(1)])
    next
      fix x b assume r: "?r = ?c\<lparr>rl_buckets := AList.update k x (rl_buckets ?c)\<rparr>" and x: "bk_tokens x = bk_tokens b - 1"
        and b: "map_of (rl_buckets ?c) k = Some b"
      have "bk_tokens x < max 1 (rl_limit ?c)" using x old [OF b] by linarith
      then show ?thesis unfolding r by (rule upd [OF c(1)])
    qed
  qed
  show "nat (bk_tokens b) \<le> auth_fresh rl" if "auth_inv rl" "auth_lookup rl k = Some b"
    using auth_tokens [OF that(1), of k b] that(2) by (simp add: auth_lookup_def auth_fresh_def)
  show "\<exists>b'. auth_lookup ?r k = Some b' \<and> auth_due rl b' = auth_due rl b \<and>
      nat (bk_tokens b') + (if fst (auth_Allow now k rl) then 1 else 0) \<le> nat (bk_tokens b)"
    if inv: "auth_inv rl" and b: "auth_lookup rl k = Some b" "now < auth_due rl b"
  proof -
    note c = cleanup_inv [OF inv, of now]
    have "auth_lookup ?c k = Some b" using c(4) [of k] b by auto
    then show ?thesis using b(2) auth_time(2) [OF c(1)] c(2)
      by (auto simp: auth_Allow_def auth_lookup_def auth_due_def Let_def split: option.splits)
  qed
  show "\<exists>b'. auth_lookup ?r k = Some b' \<and> auth_due rl b' = now + rl_win rl \<and>
      nat (bk_tokens b') + (if fst (auth_Allow now k rl) then 1 else 0) \<le> auth_fresh rl"
    if inv: "auth_inv rl" and b: "auth_lookup rl k = None \<or> (\<exists>b. auth_lookup rl k = Some b \<and> auth_due rl b \<le> now)"
  proof -
    note c = cleanup_inv [OF inv, of now]
    have "auth_lookup ?c k = None \<or> (\<exists>b. auth_lookup ?c k = Some b \<and> auth_due rl b \<le> now)"
      using c(4) [of k] b by auto
    then show ?thesis using auth_time(2) [OF c(1)] c(2,3)
      by (auto simp: auth_Allow_def auth_lookup_def auth_due_def auth_fresh_def Let_def split: option.splits)
  qed
  have other: "auth_lookup ?r j = auth_lookup ?c j" if "j \<noteq> k"
    using that by (auto simp: auth_Allow_def auth_lookup_def Let_def split: option.splits)
  show "auth_lookup ?r j = Some b" if "auth_inv rl" "True" "j \<noteq> k" "auth_lookup rl j = Some b" "now < auth_due rl b"
    using other [OF that(3)] cleanup_inv(4) [OF that(1), of now j] that by auto
  show "auth_lookup ?r j = auth_lookup rl j \<or> auth_lookup ?r j = None" if "auth_inv rl" "j \<noteq> k"
    using other [OF that(2)] cleanup_inv(4) [OF that(1), of now j] by auto
qed simp_all

lemma run_room_True: "run_room allow (\<lambda>_ _ _. True) calls s"
  by (induction calls arbitrary: s) auto

lemma auth_run_inv: "auth_inv s \<Longrightarrow> auth_inv (fold (\<lambda>(now, k) s. snd (auth_Allow now k s)) calls s) \<and>
    rl_win (fold (\<lambda>(now, k) s. snd (auth_Allow now k s)) calls s) = rl_win s \<and>
    auth_fresh (fold (\<lambda>(now, k) s. snd (auth_Allow now k s)) calls s) = auth_fresh s"
proof (induction calls arbitrary: s)
  case (Cons c calls)
  obtain now k where c: "c = (now, k)" by (cases c)
  from Cons.IH [of "snd (auth_Allow now k s)"] Cons.prems show ?case
    by (simp add: c auth_limiter.inv_allow auth_limiter.config_allow)
qed simp

text \<open>
  The API's limiter lets at most \<open>limit\<close> requests of a key through in its first window,
  and at most 2 * \<open>limit\<close> in any span of one window, at any point of its life and whatever the clock
  and the other keys do; a limit below one still lets one request through per window.
\<close>

theorem auth_limit_bound:
  assumes "0 < window" "window < 4611686018427387904"
    and "\<forall>c \<in> set calls. start \<le> fst c \<and> fst c < start + window"
  shows "grants auth_Allow k calls (fold (\<lambda>(now, k) s. snd (auth_Allow now k s)) before (NewRateLimiter limit window))
      \<le> (if before = [] then 1 else 2) * nat (max 1 limit)"
proof -
  let ?s = "NewRateLimiter limit window"
  let ?s1 = "fold (\<lambda>(now, k) s. snd (auth_Allow now k s)) before ?s"
  have inv: "auth_inv ?s" using assms by (simp add: auth_inv_def NewRateLimiter_def)
  note r = auth_run_inv [OF inv, of before]
  have f: "auth_fresh ?s1 = nat (max 1 limit)" using r by (simp add: auth_fresh_def NewRateLimiter_def)
  have w: "rl_win ?s1 = window" using r by (simp add: NewRateLimiter_def)
  have "grants auth_Allow k calls ?s1 \<le> 2 * auth_fresh ?s1"
    by (rule auth_limiter.grants_window_bound [OF _ run_room_True]) (use r w assms(3) in auto)
  moreover have "grants auth_Allow k calls ?s1 \<le> auth_fresh ?s1" if "before = []"
    by (rule auth_limiter.grants_window_new [OF _ run_room_True])
      (use that r w assms(3) in \<open>auto simp: auth_lookup_def NewRateLimiter_def\<close>)
  ultimately show ?thesis using f by auto
qed

theorem auth_limit_bound_witness:
  "grants auth_Allow ''a'' [(0, ''a''), (1, ''a''), (2, ''b'')] (NewRateLimiter 1 10) \<le> 1"
  using auth_limit_bound [of 10 "[(0, ''a''), (1, ''a''), (2, ''b'')]" 0 "''a''" "[]" 1] by simp

subsection \<open>Login lockout\<close>

text \<open>
  The zero \<open>time.Time\<close> (year 1) in nanoseconds relative to the Unix epoch; a failure counter does
  not reach the end of an int64 and stays an integer. \<open>math.Pow(2, e)\<close> is exact up to the cap.
\<close>

definition zero_time :: instant where
  "zero_time = - 62135596800 * time_second"

record lockoutEntry =
  lo_failures :: int
  lo_lockedUntil :: instant

record LoginLockout =
  lo_entries :: "(string \<times> lockoutEntry) list"
  lo_threshold :: int

definition NewLoginLockout :: "int \<Rightarrow> LoginLockout" where
  "NewLoginLockout threshold = \<lparr>lo_entries = [], lo_threshold = threshold\<rparr>"

definition IsLocked :: "instant \<Rightarrow> string \<Rightarrow> LoginLockout \<Rightarrow> bool" where
  "IsLocked now key l =
     (case map_of (lo_entries l) key of None \<Rightarrow> False | Some e \<Rightarrow> now < lo_lockedUntil e)"

definition lock_minutes :: "int \<Rightarrow> int" where
  "lock_minutes e = (let mins = 2 ^ nat e in if mins > 30 then 30 else mins)"

definition RecordFailure :: "instant \<Rightarrow> string \<Rightarrow> LoginLockout \<Rightarrow> LoginLockout" where
  "RecordFailure now key l =
     (let e = (case map_of (lo_entries l) key of None \<Rightarrow> \<lparr>lo_failures = 0, lo_lockedUntil = zero_time\<rparr> | Some e \<Rightarrow> e);
          e1 = e\<lparr>lo_failures := lo_failures e + 1\<rparr>;
          e2 = (if lo_failures e1 \<ge> lo_threshold l
                then e1\<lparr>lo_lockedUntil := now + lock_minutes (lo_failures e1 - lo_threshold l) * time_minute\<rparr>
                else e1)
      in l\<lparr>lo_entries := AList.update key e2 (lo_entries l)\<rparr>)"

definition RecordSuccess :: "string \<Rightarrow> LoginLockout \<Rightarrow> LoginLockout" where
  "RecordSuccess key l = l\<lparr>lo_entries := AList.delete key (lo_entries l)\<rparr>"

definition lockout_Cleanup :: "instant \<Rightarrow> LoginLockout \<Rightarrow> LoginLockout" where
  "lockout_Cleanup now l =
     l\<lparr>lo_entries := filter (\<lambda>(k, e). \<not> (lo_lockedUntil e < now \<and> lo_failures e < lo_threshold l)) (lo_entries l)\<rparr>"

datatype lock_event = Failed instant string | Succeeded string | Cleaned instant

definition lock_step :: "lock_event \<Rightarrow> LoginLockout \<Rightarrow> LoginLockout" where
  "lock_step e l = (case e of Failed now k \<Rightarrow> RecordFailure now k l | Succeeded k \<Rightarrow> RecordSuccess k l
     | Cleaned now \<Rightarrow> lockout_Cleanup now l)"

text \<open>
  What the lockout promises, on the history of its calls, newest first: the number of failures of
  a key since its last success and the time of the newest. A clean-up forgets a run of failures
  that has not reached the threshold.
\<close>

fun streak :: "int \<Rightarrow> string \<Rightarrow> lock_event list \<Rightarrow> nat \<times> instant" where
  "streak th k [] = (0, zero_time)"
| "streak th k (Failed now j # es) = (if j = k then (Suc (fst (streak th k es)), now) else streak th k es)"
| "streak th k (Succeeded j # es) = (if j = k then (0, zero_time) else streak th k es)"
| "streak th k (Cleaned now # es) = (if int (fst (streak th k es)) < th then (0, zero_time) else streak th k es)"

definition lock_end :: "int \<Rightarrow> nat \<times> instant \<Rightarrow> instant" where
  "lock_end th s = (if th \<le> int (fst s) then snd s + lock_minutes (int (fst s) - th) * time_minute else zero_time)"

definition clocks_ok :: "lock_event list \<Rightarrow> bool" where
  "clocks_ok es = list_all (\<lambda>e. case e of Cleaned now \<Rightarrow> zero_time < now | _ \<Rightarrow> True) es"

definition lock_runs :: "lock_event list \<Rightarrow> int \<Rightarrow> LoginLockout" where
  "lock_runs es th = fold lock_step es (NewLoginLockout th)"

lemma lock_runs_snoc: "lock_runs (es @ [e]) th = lock_step e (lock_runs es th)"
  by (simp add: lock_runs_def)

lemma lock_runs_threshold: "lo_threshold (lock_runs es th) = th"
  by (induction es rule: rev_induct)
    (auto simp: lock_runs_def lock_step_def RecordFailure_def RecordSuccess_def lockout_Cleanup_def NewLoginLockout_def
      Let_def split: lock_event.splits)

lemma lockout_state:
  "clocks_ok es \<Longrightarrow> gomap_ok (lo_entries (lock_runs es th)) \<and>
    map_of (lo_entries (lock_runs es th)) k =
      (let s = streak th k (rev es) in
       if fst s = 0 then None else Some \<lparr>lo_failures = int (fst s), lo_lockedUntil = lock_end th s\<rparr>)"
proof (induction es rule: rev_induct)
  case Nil
  then show ?case by (simp add: lock_runs_def NewLoginLockout_def)
next
  case (snoc e es)
  let ?l = "lock_runs es th" and ?s = "streak th k (rev es)"
  from snoc have ok: "gomap_ok (lo_entries ?l)"
    and m: "map_of (lo_entries ?l) k =
       (if fst ?s = 0 then None else Some \<lparr>lo_failures = int (fst ?s), lo_lockedUntil = lock_end th ?s\<rparr>)"
    by (auto simp: clocks_ok_def Let_def)
  note th = lock_runs_threshold [of es th]
  show ?case
  proof (cases e)
    case (Failed now j)
    then show ?thesis using ok m th
      by (auto simp: lock_runs_snoc lock_step_def RecordFailure_def lock_end_def Let_def ac_simps)
  next
    case (Succeeded j)
    then show ?thesis using ok m th
      by (auto simp: lock_runs_snoc lock_step_def RecordSuccess_def Let_def)
  next
    case (Cleaned now)
    have "zero_time < now" using snoc.prems by (simp add: Cleaned clocks_ok_def)
    moreover have "gomap_ok (filter P (lo_entries ?l))" for P
      using ok by (auto intro: distinct_map_filter)
    ultimately show ?thesis using ok m th map_of_filter_val [OF ok, of "\<lambda>e. \<not> (lo_lockedUntil e < now \<and> lo_failures e < th)" k]
      by (auto simp: Cleaned lock_runs_snoc lock_step_def lockout_Cleanup_def Let_def lock_end_def)
  qed
qed

text \<open>
  Property C23. At any time a login key is locked exactly when it has failed at least \<open>threshold\<close>
  times (and at least once) since its last success, and the newest failure is less than one
  minute old, doubled for every failure past the threshold up to thirty minutes; the failures of
  other keys do not matter.
\<close>

theorem lockout_spec:
  assumes "clocks_ok es" "zero_time \<le> now"
  shows "IsLocked now k (lock_runs es th) \<longleftrightarrow>
    (let (n, last) = streak th k (rev es) in
     0 < n \<and> th \<le> int n \<and> now < last + min 30 (2 ^ nat (int n - th)) * time_minute)"
proof -
  have m: "lock_minutes e = min 30 (2 ^ nat e)" for e by (simp add: lock_minutes_def Let_def min_def)
  show ?thesis using lockout_state [OF assms(1), of th k] assms(2)
    by (cases "streak th k (rev es)") (auto simp: IsLocked_def Let_def lock_end_def m)
qed

theorem lockout_spec_witness:
  "\<not> IsLocked 100 ''u'' (lock_runs [Failed 10 ''u'', Failed 20 ''v'', Failed 30 ''u''] 3) \<and>
   IsLocked 100 ''u'' (lock_runs [Failed 10 ''u'', Failed 30 ''u'', Failed 40 ''u''] 3)"
  using lockout_spec [of "[Failed 10 ''u'', Failed 20 ''v'', Failed 30 ''u'']" 100 "''u''" 3]
    lockout_spec [of "[Failed 10 ''u'', Failed 30 ''u'', Failed 40 ''u'']" 100 "''u''" 3]
  by (simp add: clocks_ok_def zero_time_def time_second_def time_minute_def)

subsection \<open>The client's address behind trusted proxies\<close>

definition isTrusted :: "string \<Rightarrow> string list \<Rightarrow> bool" where
  "isTrusted ip trusted =
     (let parsed = parse_ip ip in
      list_ex (\<lambda>t. t = ip \<or>
        (case parsed of None \<Rightarrow> False
         | Some a \<Rightarrow> CHR ''/'' \<in> set t \<and> (case parse_cidr t of None \<Rightarrow> False | Some n \<Rightarrow> net_contains n a))) trusted)"

definition direct_ip :: "http_request \<Rightarrow> string" where
  "direct_ip r = (case split_host_port (RemoteAddr r) of None \<Rightarrow> RemoteAddr r | Some (h, p) \<Rightarrow> h)"

text \<open>The right-to-left loop, on the reversed parts.\<close>

fun last_untrusted :: "string list \<Rightarrow> string list \<Rightarrow> string option" where
  "last_untrusted trusted [] = None"
| "last_untrusted trusted (part # ps) =
     (let ip = trim_space part in
      if ip = [] then last_untrusted trusted ps
      else if \<not> isTrusted ip trusted then Some ip
      else last_untrusted trusted ps)"

definition RealIP :: "http_request \<Rightarrow> string list \<Rightarrow> string" where
  "RealIP r trustedProxies =
     (let directIP = direct_ip r; xff = header_get r ''X-Forwarded-For'' in
      if trustedProxies = [] then directIP
      else if \<not> isTrusted directIP trustedProxies then directIP
      else if xff = [] then directIP
      else case last_untrusted trustedProxies (rev (split_on CHR '','' xff)) of
             Some ip \<Rightarrow> ip
           | None \<Rightarrow> directIP)"

definition RequestIsHTTPS :: "http_request \<Rightarrow> string list \<Rightarrow> bool" where
  "RequestIsHTTPS r trustedProxies =
     (if TLS_state r then True
      else if trustedProxies = [] then False
      else if \<not> isTrusted (direct_ip r) trustedProxies then False
      else equal_fold (trim_space (header_get r ''X-Forwarded-Proto'')) ''https'')"

text \<open>An address as a proxy writes it: not blank, without a comma and without spaces around it.\<close>

definition plain_addr :: "string \<Rightarrow> bool" where
  "plain_addr a \<longleftrightarrow> a \<noteq> [] \<and> CHR '','' \<notin> set a \<and> \<not> is_space (hd a) \<and> \<not> is_space (last a)"

lemma split_on_append: "split_on c (s @ c # t) = split_on c s @ split_on c t"
proof (induction s)
  case (Cons x s)
  then show ?case by (cases "split_on c s") auto
qed simp

lemma trim_space_Cons: "is_space x \<Longrightarrow> trim_space (x # s) = trim_space s"
  by (simp add: trim_space_def)

lemma trim_plain: "plain_addr a \<Longrightarrow> trim_space a = a"
  unfolding trim_space_def plain_addr_def by (simp add: dropWhile_id drop_end_while_id)

lemma forwarded_split:
  assumes "list_all plain_addr as" "as \<noteq> []"
  shows "map trim_space (split_on CHR '','' (join_with '', '' as)) = as"
  using assms(2,1)
proof (induction as rule: list_nonempty_induct)
  case (single w)
  then show ?case using trim_plain [of w] by (simp add: split_on_no_sep plain_addr_def)
next
  case (cons w us)
  then obtain v ws where us: "us = v # ws" by (cases us) auto
  let ?j = "join_with '', '' (v # ws)"
  have w: "plain_addr w" using cons by simp
  have sp: "split_on CHR '','' (CHR '' '' # ?j) =
      (CHR '' '' # hd (split_on CHR '','' ?j)) # tl (split_on CHR '','' ?j)"
    by (cases "split_on CHR '','' ?j") auto
  have "map trim_space (split_on CHR '','' (CHR '' '' # ?j)) = map trim_space (split_on CHR '','' ?j)"
    unfolding sp by (cases "split_on CHR '','' ?j") (auto simp: trim_space_Cons is_space_def)
  moreover have "map trim_space (split_on CHR '','' ?j) = v # ws" using cons us by simp
  moreover have "split_on CHR '','' (w @ CHR '','' # CHR '' '' # ?j) =
      [w] @ split_on CHR '','' (CHR '' '' # ?j)"
    using w by (simp only: split_on_append) (simp add: split_on_no_sep plain_addr_def)
  ultimately show ?case using w us by (simp add: trim_plain)
qed

lemma last_untrusted_skip:
  "\<forall>p \<in> set ps. plain_addr (trim_space p) \<and> isTrusted (trim_space p) trusted \<Longrightarrow>
   last_untrusted trusted (ps @ qs) = last_untrusted trusted qs"
  by (induction ps) (auto simp: Let_def)

lemma last_untrusted_found:
  assumes "map trim_space parts = client # proxies" "plain_addr client" "\<not> isTrusted client trusted"
    and "\<forall>p \<in> set proxies. plain_addr p \<and> isTrusted p trusted"
  shows "last_untrusted trusted (rev (old @ parts)) = Some client"
proof -
  obtain c ps where p: "parts = c # ps" "trim_space c = client" "map trim_space ps = proxies"
    using assms(1) by (cases parts) auto
  have "\<forall>p \<in> set (rev ps). plain_addr (trim_space p) \<and> isTrusted (trim_space p) trusted"
    using assms(4) p(3) by auto
  from last_untrusted_skip [OF this, of "c # rev old"] show ?thesis
    using assms(2,3) p by (simp add: Let_def plain_addr_def)
qed

lemma RealIP_behind_proxies:
  assumes t: "isTrusted (direct_ip r) trusted" and a: "list_all plain_addr (client # proxies)" "\<not> isTrusted client trusted"
    "\<forall>p \<in> set proxies. isTrusted p trusted"
    and h: "header_get r ''X-Forwarded-For'' = join_with '', '' (client # proxies) \<or>
      header_get r ''X-Forwarded-For'' = forged @ '', '' @ join_with '', '' (client # proxies)"
  shows "RealIP r trusted = client"
proof -
  let ?j = "join_with '', '' (client # proxies)"
  have ne: "?j \<noteq> []" using a(1) by (cases proxies) (auto simp: plain_addr_def)
  have sj: "map trim_space (split_on CHR '','' ?j) = client # proxies"
    by (rule forwarded_split) (use a(1) in auto)
  have sj': "map trim_space (split_on CHR '','' (CHR '' '' # ?j)) = client # proxies"
  proof (cases "split_on CHR '','' ?j")
    case (Cons w ws)
    with sj show ?thesis using ne by (cases ?j) (auto simp: trim_space_Cons is_space_def split: list.splits)
  qed (use sj in simp)
  have pr: "\<forall>p \<in> set proxies. plain_addr p \<and> isTrusted p trusted" using a by (auto simp: list_all_iff)
  have cl: "plain_addr client" using a(1) by simp
  have tr: "trusted \<noteq> []" using t by (auto simp: isTrusted_def Let_def)
  have hd: "header_get r ''X-Forwarded-For'' \<noteq> []" using h ne by (elim disjE) simp_all
  have "\<exists>old parts. split_on CHR '','' (header_get r ''X-Forwarded-For'') = old @ parts \<and>
      map trim_space parts = client # proxies"
    using h
  proof
    assume "header_get r ''X-Forwarded-For'' = ?j"
    then show ?thesis using sj by (intro exI [of _ "[]"] exI [of _ "split_on CHR '','' ?j"]) (simp only: append.simps)
  next
    assume e: "header_get r ''X-Forwarded-For'' = forged @ '', '' @ ?j"
    have "split_on CHR '','' (header_get r ''X-Forwarded-For'') = split_on CHR '','' forged @ split_on CHR '','' (CHR '' '' # ?j)"
      unfolding e append.simps by (rule split_on_append)
    then show ?thesis using sj' by (intro exI conjI)
  qed
  then obtain old parts where sp: "split_on CHR '','' (header_get r ''X-Forwarded-For'') = old @ parts"
    and parts: "map trim_space parts = client # proxies" by (elim exE conjE)
  show ?thesis unfolding RealIP_def Let_def sp last_untrusted_found [OF parts cl a(2) pr, of old]
    using t tr hd by simp
qed

text \<open>
  Property C24. A peer that is not a trusted proxy is known by its own address, whatever headers it sends. Behind a trusted
  proxy, when the proxies write the addresses of their peers at the end of the first \<open>X-Forwarded-For\<close> line, the address
  is the one the outermost trusted proxy saw, whatever the client had put on that line before. No other header counts.
\<close>

theorem RealIP_unforgeable:
  "(\<not> isTrusted (direct_ip r) trusted \<longrightarrow> RealIP r trusted = direct_ip r) \<and>
   (isTrusted (direct_ip r) trusted \<and> list_all plain_addr (client # proxies) \<and> \<not> isTrusted client trusted \<and>
      (\<forall>p \<in> set proxies. isTrusted p trusted) \<and>
      (header_get r ''X-Forwarded-For'' = join_with '', '' (client # proxies) \<or>
       header_get r ''X-Forwarded-For'' = forged @ '', '' @ join_with '', '' (client # proxies)) \<longrightarrow>
    RealIP r trusted = client) \<and>
   (\<forall>r'. RemoteAddr r' = RemoteAddr r \<and> header_get r' ''X-Forwarded-For'' = header_get r ''X-Forwarded-For'' \<longrightarrow>
      RealIP r' trusted = RealIP r trusted)"
proof (intro conjI impI allI)
  assume "\<not> isTrusted (direct_ip r) trusted"
  then show "RealIP r trusted = direct_ip r" by (simp add: RealIP_def Let_def)
next
  assume "isTrusted (direct_ip r) trusted \<and> list_all plain_addr (client # proxies) \<and> \<not> isTrusted client trusted \<and>
      (\<forall>p \<in> set proxies. isTrusted p trusted) \<and>
      (header_get r ''X-Forwarded-For'' = join_with '', '' (client # proxies) \<or>
       header_get r ''X-Forwarded-For'' = forged @ '', '' @ join_with '', '' (client # proxies))"
  then show "RealIP r trusted = client" by (elim conjE) (rule RealIP_behind_proxies)
next
  fix r'
  assume "RemoteAddr r' = RemoteAddr r \<and> header_get r' ''X-Forwarded-For'' = header_get r ''X-Forwarded-For''"
  then show "RealIP r' trusted = RealIP r trusted" unfolding RealIP_def direct_ip_def by (elim conjE) (simp only:)
qed

theorem RealIP_unforgeable_witness:
  "RealIP \<lparr>Method = ''GET'', Host = ''a'', RemoteAddr = ''10.0.0.2:80'',
      Header = [(''X-Forwarded-For'', [''9.9.9.9, 1.2.3.4, 10.0.0.7''])], URL_Path = ''/'', TLS_state = False\<rparr> [''10.0.0.0/8'']
    = ''1.2.3.4''"
  using RealIP_unforgeable [of "\<lparr>Method = ''GET'', Host = ''a'', RemoteAddr = ''10.0.0.2:80'',
      Header = [(''X-Forwarded-For'', [''9.9.9.9, 1.2.3.4, 10.0.0.7''])], URL_Path = ''/'', TLS_state = False\<rparr>" "[''10.0.0.0/8'']"
      "''1.2.3.4''" "[''10.0.0.7'']" "''9.9.9.9''", THEN conjunct2, THEN conjunct1]
  by (simp add: go_simps Let_def plain_addr_def isTrusted_def direct_ip_def header_get_def canonical_header_key_def token_char_def)

text \<open>
  Only the first line counts: a trusted proxy that adds a line of its own instead of extending the
  client's leaves the client's line in charge, and the address is the client's choice.
\<close>

lemma RealIP_first_line_only:
  "RealIP \<lparr>Method = ''GET'', Host = ''a'', RemoteAddr = ''10.0.0.2:80'',
      Header = [(''X-Forwarded-For'', [''9.9.9.9'', ''1.2.3.4''])], URL_Path = ''/'', TLS_state = False\<rparr> [''10.0.0.0/8'']
    = ''9.9.9.9''"
  by (simp add: RealIP_def go_simps Let_def isTrusted_def direct_ip_def header_get_def canonical_header_key_def token_char_def)

text \<open>Neither can a peer that is not trusted claim a TLS connection.\<close>

lemma RequestIsHTTPS_untrusted:
  "\<not> isTrusted (direct_ip r) trusted \<Longrightarrow> RequestIsHTTPS r trusted = TLS_state r"
  by (simp add: RequestIsHTTPS_def)

end
