(* ===== verification/ApiAuth.thy ===== *)
theory ApiAuth
  imports UserStore Auth
begin

text \<open>
  internal/api/auth.go and the authentication part of internal/api/middleware.go: who a request is
  from, logging in and out, and the creation of the first account. The password hash, the
  session tokens and the key hash are parameters (bcrypt, the JWT library and HMAC); a decoded JSON body
  is an argument, \<open>None\<close> when it does not decode.
\<close>

record Claims =
  cl_UserID :: int
  cl_Username :: string
  cl_Role :: string
  cl_TokenVersion :: int

record audit_ctx =
  ActorUserID :: "int option"
  ActorName :: string
  ActorSource :: string
  ActorIP :: string

record audit_entry =
  au_ctx :: audit_ctx
  au_category :: string
  au_action :: string
  au_slug :: string
  au_before :: "(string \<times> string) list"
  au_after :: "(string \<times> string) list"

definition no_ctx :: audit_ctx where
  "no_ctx = \<lparr>ActorUserID = None, ActorName = [], ActorSource = [], ActorIP = []\<rparr>"

record api_env =
  ae_sql :: sql_env
  check_password :: "string \<Rightarrow> string \<Rightarrow> bool"
  hash_password :: "string \<Rightarrow> string option"
  jwt_validate :: "string \<Rightarrow> Claims option"
  jwt_generate :: "Claims \<Rightarrow> string option"
  hash_api_key :: "string \<Rightarrow> string"
  random_key :: "string option"

record Server =
  sv_db :: user_db
  sv_audit :: "audit_entry list"
  sv_lockout :: "LoginLockout option"
  sv_loginLimiter :: "RateLimiter option"
  sv_rateLimiter :: "RateLimiter option"
  sv_trustedProxies :: "string list"
  sv_tlsMode :: string
  sv_jwt :: bool

text \<open>A request with its session cookie, if any, and the values of its path wildcards.\<close>

record api_request =
  aq_http :: http_request
  aq_cookie :: "string option"
  aq_path :: "string \<Rightarrow> string"

record AuthUser =
  ID :: int
  Username :: string
  Role :: string

record userResponse =
  ur_ID :: int
  ur_Username :: string
  ur_Role :: string
  ur_DisplayName :: string
  ur_Email :: string
  ur_CreatedAt :: instant

record keyResponse =
  kr_ID :: int
  kr_Name :: string
  kr_CreatedAt :: instant
  kr_ExpiresAt :: "instant option"
  kr_LastUsedAt :: "instant option"

datatype api_response =
    HttpError int string
  | OkStatus
  | UserBody int userResponse
  | UsersBody "userResponse list"
  | MeBody userResponse "string list"
  | SlugsBody "string list"
  | KeysBody "keyResponse list"
  | KeyCreated int string string
  | NeedsSetup bool
  | LoggedIn string string string bool
  | LoggedOut bool
  | AccountCreated string string

definition toUserResponse :: "User \<Rightarrow> userResponse" where
  "toUserResponse u = \<lparr>ur_ID = u_id u, ur_Username = u_username u, ur_Role = u_role u, ur_DisplayName = u_display_name u,
     ur_Email = u_email u, ur_CreatedAt = u_created_at u\<rparr>"

definition internal_error :: api_response where
  "internal_error = HttpError 500 ''Internal Server Error''"

definition audit_record :: "audit_ctx \<Rightarrow> string \<Rightarrow> string \<Rightarrow> string \<Rightarrow> (string \<times> string) list \<Rightarrow> (string \<times> string) list \<Rightarrow> Server \<Rightarrow> Server" where
  "audit_record c category action slug before after s =
     s\<lparr>sv_audit := sv_audit s @ [\<lparr>au_ctx = c, au_category = category, au_action = action, au_slug = slug,
        au_before = before, au_after = after\<rparr>]\<rparr>"

subsection \<open>Who a request is from\<close>

definition auth_user_of :: "User \<Rightarrow> AuthUser" where
  "auth_user_of u = \<lparr>ID = u_id u, Username = u_username u, Role = u_role u\<rparr>"

definition user_ctx :: "User \<Rightarrow> string \<Rightarrow> api_request \<Rightarrow> Server \<Rightarrow> audit_ctx" where
  "user_ctx u source r s = \<lparr>ActorUserID = Some (u_id u), ActorName = u_username u, ActorSource = source,
     ActorIP = RealIP (aq_http r) (sv_trustedProxies s)\<rparr>"

definition bearer_token :: "api_request \<Rightarrow> string option" where
  "bearer_token r = (let h = header_get (aq_http r) ''Authorization'' in
     if prefix ''Bearer '' h then Some (trim_prefix h ''Bearer '') else None)"

datatype key_check = KeyUnknown | KeyExpired | KeyOf User

definition check_api_key :: "api_env \<Rightarrow> api_request \<Rightarrow> Server \<Rightarrow> key_check \<times> Server" where
  "check_api_key e r s =
     (case bearer_token r of
        None \<Rightarrow> (KeyUnknown, s)
      | Some token \<Rightarrow>
          (let (res, d) = GetAPIKeyByHash (ae_sql e) (hash_api_key e token) (sv_db s); s1 = s\<lparr>sv_db := d\<rparr> in
           case res of
             Inl _ \<Rightarrow> (KeyUnknown, s1)
           | Inr (k, u) \<Rightarrow>
               (case k_expires_at k of
                  Some t \<Rightarrow> if t < sql_now (ae_sql e) then (KeyExpired, s1) else (KeyOf u, s1)
                | None \<Rightarrow> (KeyOf u, s1))))"

definition check_session :: "api_env \<Rightarrow> api_request \<Rightarrow> Server \<Rightarrow> User option" where
  "check_session e r s =
     (case aq_cookie r of
        None \<Rightarrow> None
      | Some cookie \<Rightarrow>
          if \<not> sv_jwt s then None
          else case jwt_validate e cookie of
                 None \<Rightarrow> None
               | Some claims \<Rightarrow>
                   (case GetUserByID (ae_sql e) (cl_UserID claims) (sv_db s) of
                      Inl _ \<Rightarrow> None
                    | Inr user \<Rightarrow> if cl_TokenVersion claims \<noteq> u_token_version user then None else Some user))"

text \<open>The middleware: the status it answers with, or the user it passes on to the next handler.\<close>

definition authMiddleware :: "api_env \<Rightarrow> api_request \<Rightarrow> Server \<Rightarrow> (api_response + AuthUser \<times> audit_ctx) \<times> Server" where
  "authMiddleware e r s =
     (let (kc, s1) = check_api_key e r s in
      case kc of
        KeyExpired \<Rightarrow> (Inl (HttpError 401 ''api key expired''), s1)
      | KeyOf u \<Rightarrow> (Inr (auth_user_of u, user_ctx u ''api'' r s1), s1)
      | KeyUnknown \<Rightarrow>
          (case check_session e r s1 of
             Some u \<Rightarrow> (Inr (auth_user_of u, user_ctx u ''ui'' r s1), s1)
           | None \<Rightarrow> (Inl (HttpError 401 ''unauthorized''), s1)))"

subsection \<open>Login and logout\<close>

text \<open>A limiter that is not configured lets everything through.\<close>

definition limit_login :: "instant \<Rightarrow> string \<Rightarrow> Server \<Rightarrow> bool \<times> Server" where
  "limit_login now ip s =
     (case sv_loginLimiter s of
        Some rl \<Rightarrow> let (ok, rl') = auth_Allow now ip rl in (ok, s\<lparr>sv_loginLimiter := Some rl'\<rparr>)
      | None \<Rightarrow>
          (case sv_rateLimiter s of
             Some rl \<Rightarrow> let (ok, rl') = auth_Allow now ip rl in (ok, s\<lparr>sv_rateLimiter := Some rl'\<rparr>)
           | None \<Rightarrow> (True, s)))"

definition lockoutKey :: "string \<Rightarrow> string \<Rightarrow> string" where
  "lockoutKey username ip = ''user:'' @ username @ ''@'' @ ip"

definition login_locked :: "instant \<Rightarrow> string \<Rightarrow> string \<Rightarrow> Server \<Rightarrow> bool" where
  "login_locked now username ip s =
     (case sv_lockout s of None \<Rightarrow> False
      | Some l \<Rightarrow> IsLocked now (lockoutKey username ip) l \<or> IsLocked now (''ip:'' @ ip) l)"

definition login_failure :: "instant \<Rightarrow> string \<Rightarrow> string \<Rightarrow> Server \<Rightarrow> Server" where
  "login_failure now username ip s =
     (case sv_lockout s of None \<Rightarrow> s
      | Some l \<Rightarrow> s\<lparr>sv_lockout := Some (RecordFailure now (''ip:'' @ ip) (RecordFailure now (lockoutKey username ip) l))\<rparr>)"

definition login_success :: "string \<Rightarrow> string \<Rightarrow> Server \<Rightarrow> Server" where
  "login_success username ip s =
     (case sv_lockout s of None \<Rightarrow> s
      | Some l \<Rightarrow> s\<lparr>sv_lockout := Some (RecordSuccess (''ip:'' @ ip) (RecordSuccess (lockoutKey username ip) l))\<rparr>)"

definition dummy_hash :: string where
  "dummy_hash = ''$2a$12$000000000000000000000uGWDRFaOZaHVkxgcvqcEnF8VjqDBqyq''"

text \<open>The user whose password matches, checked against a dummy hash when there is no such user.\<close>

definition check_credentials :: "api_env \<Rightarrow> string \<Rightarrow> string \<Rightarrow> Server \<Rightarrow> User option" where
  "check_credentials e username password s =
     (case GetUserByUsername (ae_sql e) username (sv_db s) of
        Inl _ \<Rightarrow> if check_password e dummy_hash password then None else None
      | Inr user \<Rightarrow> if check_password e (u_password_hash user) password then Some user else None)"

definition secure_cookie :: "api_request \<Rightarrow> Server \<Rightarrow> bool" where
  "secure_cookie r s \<longleftrightarrow> sv_tlsMode s \<noteq> ''off'' \<or> RequestIsHTTPS (aq_http r) (sv_trustedProxies s)"

definition handleLogin :: "api_env \<Rightarrow> api_request \<Rightarrow> (string \<times> string) option \<Rightarrow> Server \<Rightarrow> api_response \<times> Server" where
  "handleLogin e r body s0 =
     (let now = sql_now (ae_sql e); ip = RealIP (aq_http r) (sv_trustedProxies s0); (ok, s) = limit_login now ip s0 in
      if \<not> ok then (HttpError 429 ''rate limit exceeded'', s)
      else case body of
        None \<Rightarrow> (HttpError 400 ''invalid request'', s)
      | Some (username, password) \<Rightarrow>
          if login_locked now username ip s then (HttpError 401 ''invalid credentials'', s)
          else case check_credentials e username password s of
            None \<Rightarrow>
              (HttpError 401 ''invalid credentials'',
               audit_record \<lparr>ActorUserID = None, ActorName = username, ActorSource = ''ui'', ActorIP = ip\<rparr>
                 ''auth'' ''login_failed'' [] [] [] (login_failure now username ip s))
          | Some user \<Rightarrow>
              if \<not> sv_jwt s then (HttpError 500 ''jwt not configured'', s)
              else case jwt_generate e \<lparr>cl_UserID = u_id user, cl_Username = u_username user, cl_Role = u_role user,
                     cl_TokenVersion = u_token_version user\<rparr> of
                None \<Rightarrow> (HttpError 500 ''failed to generate token'', s)
              | Some token \<Rightarrow>
                  (LoggedIn token (u_username user) (u_role user) (secure_cookie r s),
                   audit_record \<lparr>ActorUserID = Some (u_id user), ActorName = username, ActorSource = ''ui'', ActorIP = ip\<rparr>
                     ''auth'' ''login_succeeded'' [] [] [] (login_success username ip s)))"

definition handleLogout :: "api_env \<Rightarrow> api_request \<Rightarrow> Server \<Rightarrow> api_response \<times> Server" where
  "handleLogout e r s =
     (LoggedOut (secure_cookie r s),
      case aq_cookie r of None \<Rightarrow> s
      | Some cookie \<Rightarrow>
          if \<not> sv_jwt s then s
          else case jwt_validate e cookie of None \<Rightarrow> s
               | Some claims \<Rightarrow> s\<lparr>sv_db := snd (BumpTokenVersion (ae_sql e) (cl_UserID claims) (sv_db s))\<rparr>)"

subsection \<open>First account\<close>

definition handleSetupStatus :: "api_env \<Rightarrow> Server \<Rightarrow> api_response" where
  "handleSetupStatus e s =
     (case UserCount (ae_sql e) (sv_db s) of Inl _ \<Rightarrow> HttpError 500 ''internal error'' | Inr n \<Rightarrow> NeedsSetup (n = 0))"

record setup_body =
  sb_username :: string
  sb_password :: string
  sb_display_name :: string
  sb_email :: string

definition handleSetup :: "api_env \<Rightarrow> setup_body option \<Rightarrow> Server \<Rightarrow> api_response \<times> Server" where
  "handleSetup e body s =
     (case UserCount (ae_sql e) (sv_db s) of
        Inl _ \<Rightarrow> (HttpError 500 ''internal error'', s)
      | Inr n \<Rightarrow>
          if n > 0 then (HttpError 409 ''conflict'', s)
          else case body of None \<Rightarrow> (HttpError 400 ''invalid request'', s)
          | Some b \<Rightarrow>
              if trim_space (sb_username b) = [] then (HttpError 400 ''username is required'', s)
              else if length (sb_password b) < 8 then (HttpError 400 ''password must be at least 8 characters'', s)
              else case hash_password e (sb_password b) of
                None \<Rightarrow> (HttpError 500 ''internal error'', s)
              | Some hash \<Rightarrow>
                  (case CreateUser (ae_sql e) (sb_username b) hash ''super_admin'' [] [] (sv_db s) of
                     (Inl _, d) \<Rightarrow> (HttpError 500 ''internal error'', s\<lparr>sv_db := d\<rparr>)
                   | (Inr user, d) \<Rightarrow>
                       if sb_display_name b \<noteq> [] \<or> sb_email b \<noteq> [] then
                         (case UpdateProfile (ae_sql e) (u_id user) (sb_display_name b) (sb_email b) d of
                            (Some _, d1) \<Rightarrow> (HttpError 500 ''internal error'', s\<lparr>sv_db := d1\<rparr>)
                          | (None, d1) \<Rightarrow> (AccountCreated (u_username user) (u_role user), s\<lparr>sv_db := d1\<rparr>))
                       else (AccountCreated (u_username user) (u_role user), s\<lparr>sv_db := d\<rparr>)))"

subsection \<open>Only holders of a live key or session get in\<close>

definition key_for :: "api_env \<Rightarrow> api_request \<Rightarrow> Server \<Rightarrow> APIKeyRecord \<Rightarrow> bool" where
  "key_for e r s k \<longleftrightarrow> k \<in> set (db_keys (sv_db s)) \<and> map_option (hash_api_key e) (bearer_token r) = Some (k_key_hash k)"

definition live_key :: "api_env \<Rightarrow> api_request \<Rightarrow> Server \<Rightarrow> User \<Rightarrow> bool" where
  "live_key e r s u \<longleftrightarrow> (\<exists>k. key_for e r s k \<and> k_user_id k = u_id u \<and>
     (case k_expires_at k of None \<Rightarrow> True | Some t \<Rightarrow> sql_now (ae_sql e) \<le> t))"

definition live_session :: "api_env \<Rightarrow> api_request \<Rightarrow> Server \<Rightarrow> User \<Rightarrow> bool" where
  "live_session e r s u \<longleftrightarrow> sv_jwt s \<and> (\<exists>cookie claims. aq_cookie r = Some cookie \<and> jwt_validate e cookie = Some claims \<and>
     cl_UserID claims = u_id u \<and> cl_TokenVersion claims = u_token_version u)"

lemma api_key_db: "db_users (snd (GetAPIKeyByHash q h d)) = db_users d"
  by (simp add: GetAPIKeyByHash_def split: option.split)

lemma check_api_key_fields:
  "db_users (sv_db (snd (check_api_key e r s))) = db_users (sv_db s)" "sv_jwt (snd (check_api_key e r s)) = sv_jwt s"
  by (auto simp: check_api_key_def Let_def api_key_db split: option.split prod.split sum.split)
    (metis api_key_db snd_conv)+

lemma key_lookup:
  assumes "db_ok d" "k \<in> set (db_keys d)"
  shows "find (\<lambda>x. k_key_hash x = k_key_hash k \<and> find_user d (k_user_id x) \<noteq> None) (db_keys d) = Some k"
proof (rule find_eq_SomeI [OF assms(2)])
  have "k_user_id k \<in> user_ids d" using assms by (rule db_ok_key_user)
  then have "find_user d (k_user_id k) \<noteq> None" by (simp only: find_user_None) simp
  then show "k_key_hash k = k_key_hash k \<and> find_user d (k_user_id k) \<noteq> None" by simp
  fix y assume y: "y \<in> set (db_keys d)" "k_key_hash y = k_key_hash k \<and> find_user d (k_user_id y) \<noteq> None"
  have "distinct (map k_key_hash (db_keys d))" using assms(1) by (simp add: db_ok_def keys_ok_def)
  from distinct_map_inj [OF this y(1) assms(2)] y(2) show "y = k" by blast
qed

lemma check_api_key_cases:
  assumes "db_ok (sv_db s)" "\<not> sql_fails (ae_sql e) ''GetAPIKeyByHash''"
  shows "(\<exists>k u. key_for e r s k \<and> u \<in> set (db_users (sv_db s)) \<and> k_user_id k = u_id u \<and>
      fst (check_api_key e r s) = (case k_expires_at k of
        Some t \<Rightarrow> if t < sql_now (ae_sql e) then KeyExpired else KeyOf u | None \<Rightarrow> KeyOf u)) \<or>
    (\<forall>k. \<not> key_for e r s k) \<and> fst (check_api_key e r s) = KeyUnknown"
proof (cases "bearer_token r")
  case None
  then show ?thesis by (simp add: check_api_key_def key_for_def)
next
  case (Some token)
  let ?d = "sv_db s" and ?h = "hash_api_key e token"
  let ?f = "find (\<lambda>x. k_key_hash x = ?h \<and> find_user ?d (k_user_id x) \<noteq> None) (db_keys ?d)"
  have get: "fst (GetAPIKeyByHash (ae_sql e) ?h ?d) =
      (case ?f of None \<Rightarrow> Inl NotFound | Some k \<Rightarrow> Inr (k, the (find_user ?d (k_user_id k))))"
    using assms(2) by (simp add: GetAPIKeyByHash_def split: option.split)
  have chk: "fst (check_api_key e r s) = (case fst (GetAPIKeyByHash (ae_sql e) ?h ?d) of Inl _ \<Rightarrow> KeyUnknown
     | Inr (k, u) \<Rightarrow> (case k_expires_at k of Some t \<Rightarrow> if t < sql_now (ae_sql e) then KeyExpired else KeyOf u | None \<Rightarrow> KeyOf u))"
    by (auto simp: check_api_key_def Some Let_def split: option.split prod.split sum.split)
  show ?thesis
  proof (cases "\<exists>k \<in> set (db_keys ?d). k_key_hash k = ?h")
    case True
    then obtain k where k: "k \<in> set (db_keys ?d)" "k_key_hash k = ?h" by blast
    have f: "?f = Some k" using key_lookup [OF assms(1) k(1)] k(2) by simp
    obtain u where u: "find_user ?d (k_user_id k) = Some u"
      using user_id_found [OF db_ok_key_user [OF assms(1) k(1)]] by blast
    have "key_for e r s k" using k Some by (simp add: key_for_def)
    then show ?thesis using find_user_in [OF u] f u get chk by (intro disjI1 exI [of _ k] exI [of _ u]) simp
  next
    case False
    then have "?f = None" unfolding find_None_iff by blast
    then show ?thesis using False Some get chk by (auto simp: key_for_def)
  qed
qed

lemma check_session_iff:
  assumes "db_ok (sv_db s)" "\<not> sql_fails (ae_sql e) ''GetUserByID''"
  shows "check_session e r s = Some u \<longleftrightarrow> u \<in> set (db_users (sv_db s)) \<and> live_session e r s u"
proof -
  have found: "find_user (sv_db s) (u_id u) = Some u" if "u \<in> set (db_users (sv_db s))"
    using assms(1) find_user_Some [OF _ that] unfolding db_ok_def by blast
  show ?thesis
    by (auto simp: check_session_def live_session_def GetUserByID_def assms(2) found dest: find_user_in
        split: option.splits if_splits)
qed

definition sql_calm :: "api_env \<Rightarrow> bool" where
  "sql_calm e \<longleftrightarrow> (\<forall>op. \<not> sql_fails (ae_sql e) op)"

lemma authMiddleware_iff:
  assumes "db_ok (sv_db s)" "sql_calm e"
  shows "(\<exists>c. fst (authMiddleware e r s) = Inr (a, c)) \<longleftrightarrow>
    (\<exists>u \<in> set (db_users (sv_db s)). a = auth_user_of u \<and>
       (live_key e r s u \<or> \<not> (\<exists>k. key_for e r s k) \<and> live_session e r s u))"
proof -
  let ?s1 = "snd (check_api_key e r s)"
  have q: "\<not> sql_fails (ae_sql e) op" for op using assms(2) by (simp add: sql_calm_def)
  have mw: "fst (authMiddleware e r s) = (case fst (check_api_key e r s) of
       KeyExpired \<Rightarrow> Inl (HttpError 401 ''api key expired'')
     | KeyOf u \<Rightarrow> Inr (auth_user_of u, user_ctx u ''api'' r ?s1)
     | KeyUnknown \<Rightarrow> (case check_session e r ?s1 of Some u \<Rightarrow> Inr (auth_user_of u, user_ctx u ''ui'' r ?s1)
         | None \<Rightarrow> Inl (HttpError 401 ''unauthorized'')))"
    by (auto simp: authMiddleware_def Let_def split: prod.split key_check.split option.split)
  have one: "k = k'" if "key_for e r s k" "key_for e r s k'" for k k'
  proof -
    have "distinct (map k_key_hash (db_keys (sv_db s)))" using assms(1) by (simp add: db_ok_def keys_ok_def)
    moreover have "k_key_hash k = k_key_hash k'" "k \<in> set (db_keys (sv_db s))" "k' \<in> set (db_keys (sv_db s))"
      using that by (auto simp: key_for_def)
    ultimately show ?thesis using distinct_map_inj by metis
  qed
  from check_api_key_cases [OF assms(1) q, of r] show ?thesis
  proof (elim disjE exE conjE)
    fix k u assume k: "key_for e r s k" and u: "u \<in> set (db_users (sv_db s))" "k_user_id k = u_id u"
      and chk: "fst (check_api_key e r s) = (case k_expires_at k of Some t \<Rightarrow> if t < sql_now (ae_sql e) then KeyExpired else KeyOf u | None \<Rightarrow> KeyOf u)"
    have "v = u" if "v \<in> set (db_users (sv_db s))" "u_id v = u_id u" for v
    proof -
      have "distinct (map u_id (db_users (sv_db s)))" using assms(1) by (simp add: db_ok_def users_ok_def)
      from distinct_map_inj [OF this that(1) u(1) that(2)] show ?thesis .
    qed
    then have "live_key e r s v \<longleftrightarrow> v = u \<and> (case k_expires_at k of None \<Rightarrow> True | Some t \<Rightarrow> sql_now (ae_sql e) \<le> t)"
      if "v \<in> set (db_users (sv_db s))" for v
      using that k u one unfolding live_key_def by metis
    then show ?thesis using k u(1) unfolding mw chk by (auto split: option.splits if_splits)
  next
    assume none: "\<forall>k. \<not> key_for e r s k" and chk: "fst (check_api_key e r s) = KeyUnknown"
    have cs: "check_session e r ?s1 = check_session e r s"
      unfolding check_session_def GetUserByID_def find_user_def check_api_key_fields ..
    have "\<not> live_key e r s u" for u using none by (simp add: live_key_def)
    moreover have "(\<exists>c. fst (authMiddleware e r s) = Inr (a, c)) \<longleftrightarrow> (\<exists>u. check_session e r s = Some u \<and> a = auth_user_of u)"
      unfolding mw chk key_check.case cs by (auto split: option.splits)
    ultimately show ?thesis using none unfolding check_session_iff [OF assms(1) q] by blast
  qed
qed


definition example_env :: api_env where
  "example_env = \<lparr>ae_sql = calm_sql, check_password = (\<lambda>h p. h = p), hash_password = Some,
     jwt_validate = (\<lambda>t. if t = ''tok'' then Some \<lparr>cl_UserID = 1, cl_Username = ''ann'', cl_Role = ''viewer'', cl_TokenVersion = 1\<rparr> else None),
     jwt_generate = (\<lambda>_. Some ''tok''), hash_api_key = id, random_key = None\<rparr>"

definition example_server :: Server where
  "example_server = \<lparr>sv_db = example_users, sv_audit = [], sv_lockout = Some (lock_runs [] 1), sv_loginLimiter = None, sv_rateLimiter = None,
     sv_trustedProxies = [], sv_tlsMode = ''off'', sv_jwt = True\<rparr>"

definition example_api_request :: api_request where
  "example_api_request = \<lparr>aq_http = \<lparr>Method = ''GET'', Host = ''h'', RemoteAddr = ''1.2.3.4:5'', Header = [], URL_Path = ''/'', TLS_state = False\<rparr>,
     aq_cookie = Some ''tok'', aq_path = (\<lambda>_. [])\<rparr>"

lemma example_users_eq: "db_users example_users = [\<lparr>u_id = 1, u_username = ''ann'', u_password_hash = ''h'', u_role = ''super_admin'',
    u_display_name = [], u_email = [], u_created_at = 0, u_token_version = 1\<rparr>]" "db_keys example_users = []" "db_ok example_users"
  by (simp_all add: example_users_def CreateUser_def calm_sql_def empty_db_def role_allowed_def Let_def db_ok_def users_ok_def keys_ok_def grants_ok_def)


subsection \<open>Guessing passwords\<close>

fun login_run :: "(api_env \<times> api_request \<times> (string \<times> string) option) list \<Rightarrow> Server \<Rightarrow> api_response list \<times> Server" where
  "login_run [] s = ([], s)"
| "login_run ((e, r, body) # as) s =
     (let (resp, s1) = handleLogin e r body s; (resps, s2) = login_run as s1 in (resp # resps, s2))"

fun logged_in :: "api_response \<Rightarrow> bool" where
  "logged_in (LoggedIn t u r c) = True"
| "logged_in _ = False"

text \<open>Every wrong password leaves an audit entry; no other outcome does.\<close>

definition failed_logins :: "Server \<Rightarrow> nat" where
  "failed_logins s = length (filter (\<lambda>a. au_action a = ''login_failed'') (sv_audit s))"

definition ip_key :: "string \<Rightarrow> string" where
  "ip_key ip = ''ip:'' @ ip"

text \<open>What is left to guess before \<open>stop\<close> for an address.\<close>

definition guesses_left :: "instant \<Rightarrow> string \<Rightarrow> LoginLockout \<Rightarrow> nat" where
  "guesses_left stop ip l =
     (case map_of (lo_entries l) (ip_key ip) of
        None \<Rightarrow> nat (max 1 (lo_threshold l))
      | Some e \<Rightarrow> if stop \<le> lo_lockedUntil e then 0 else nat (max 1 (lo_threshold l - lo_failures e)))"

lemma lockoutKey_ne_ip: "lockoutKey u ip \<noteq> ip_key jp"
  by (simp add: lockoutKey_def ip_key_def)

lemma lock_minutes_pos: "1 \<le> lock_minutes e"
  by (simp add: lock_minutes_def Let_def)

lemma RecordFailure_other:
  "j \<noteq> k \<Longrightarrow> map_of (lo_entries (RecordFailure now k l)) j = map_of (lo_entries l) j"
  "lo_threshold (RecordFailure now k l) = lo_threshold l"
  by (simp_all add: RecordFailure_def Let_def)

lemma guess_used:
  assumes "\<not> IsLocked now (ip_key ip) l" "now < stop" "stop \<le> now + time_minute"
  shows "Suc (guesses_left stop ip (RecordFailure now (ip_key ip) l)) \<le> guesses_left stop ip l"
proof -
  have m: "stop \<le> now + lock_minutes x * time_minute" for x
    using assms(3) lock_minutes_pos [of x] by (simp add: time_minute_def)
  show ?thesis
  proof (cases "map_of (lo_entries l) (ip_key ip)")
    case None
    then show ?thesis using m by (auto simp: guesses_left_def RecordFailure_def Let_def)
  next
    case (Some e)
    then have "\<not> stop \<le> lo_lockedUntil e" using assms(1,2) by (simp add: IsLocked_def)
    then show ?thesis using Some m by (auto simp: guesses_left_def RecordFailure_def Let_def)
  qed
qed

lemma guesses_other: "guesses_left stop ip (RecordFailure now (lockoutKey u jp) l) = guesses_left stop ip l"
  using lockoutKey_ne_ip [of u jp ip] RecordFailure_other(1) [of "ip_key ip" "lockoutKey u jp" now l]
  unfolding guesses_left_def RecordFailure_other(2) by simp

lemma IsLocked_other: "IsLocked t (ip_key ip) (RecordFailure now (lockoutKey u jp) l) = IsLocked t (ip_key ip) l"
  using lockoutKey_ne_ip [of u jp ip] RecordFailure_other(1) [of "ip_key ip" "lockoutKey u jp" now l]
  by (simp add: IsLocked_def)

lemma limit_login_fields:
  "sv_lockout (snd (limit_login now ip s)) = sv_lockout s" "sv_audit (snd (limit_login now ip s)) = sv_audit s"
  "sv_trustedProxies (snd (limit_login now ip s)) = sv_trustedProxies s"
  by (auto simp: limit_login_def Let_def split: option.split prod.split)

lemma login_step:
  assumes "sv_lockout s = Some l" "handleLogin e r body s = (resp, s')" "\<not> logged_in resp"
    and "RealIP (aq_http r) (sv_trustedProxies s) = ip" "sql_now (ae_sql e) < stop" "stop \<le> sql_now (ae_sql e) + time_minute"
  shows "\<exists>l'. sv_lockout s' = Some l' \<and> sv_trustedProxies s' = sv_trustedProxies s \<and>
    failed_logins s' + guesses_left stop ip l' \<le> failed_logins s + guesses_left stop ip l"
proof -
  let ?now = "sql_now (ae_sql e)"
  obtain ok s1 where lim: "limit_login ?now ip s = (ok, s1)" by fastforce
  have s1: "sv_lockout s1 = Some l" "sv_audit s1 = sv_audit s" "sv_trustedProxies s1 = sv_trustedProxies s"
    using limit_login_fields [of ?now ip s] assms(1) lim by simp_all
  consider "s' = s1"
    | u where "\<not> login_locked ?now u ip s1"
        "s' = audit_record \<lparr>ActorUserID = None, ActorName = u, ActorSource = ''ui'', ActorIP = ip\<rparr> ''auth'' ''login_failed'' [] [] []
           (login_failure ?now u ip s1)"
  proof (cases "ok \<and> (\<exists>u p. body = Some (u, p) \<and> \<not> login_locked ?now u ip s1 \<and> check_credentials e u p s1 = None)")
    case True
    then obtain u p where b: "ok" "body = Some (u, p)" "\<not> login_locked ?now u ip s1" "check_credentials e u p s1 = None" by blast
    with assms(2,4) lim that(2) [OF b(3)] show ?thesis by (simp add: handleLogin_def Let_def)
  next
    case False
    then have "s' = s1"
      using assms(2,3,4) lim
      by (cases ok; cases body) (auto simp: handleLogin_def Let_def split: if_splits option.splits)
    then show ?thesis by (rule that(1))
  qed
  then show ?thesis
  proof cases
    case 1
    then show ?thesis using s1 by (simp add: failed_logins_def)
  next
    case 2
    let ?l1 = "RecordFailure ?now (lockoutKey u ip) l"
    have "\<not> IsLocked ?now (ip_key ip) l" using 2(1) s1 by (simp add: login_locked_def ip_key_def)
    then have "Suc (guesses_left stop ip (RecordFailure ?now (ip_key ip) ?l1)) \<le> guesses_left stop ip l"
      using guess_used [of ?now ip ?l1 stop] assms(5,6) by (simp add: IsLocked_other guesses_other)
    then show ?thesis using 2(2) s1
      by (simp add: audit_record_def login_failure_def failed_logins_def ip_key_def)
  qed
qed

lemma login_run_bound:
  assumes "sv_lockout s = Some l" "sv_trustedProxies s = tps"
    and "list_all (\<lambda>(e, r, body). RealIP (aq_http r) tps = ip \<and> start \<le> sql_now (ae_sql e) \<and> sql_now (ae_sql e) < start + time_minute) as"
    and "list_all (\<lambda>x. \<not> logged_in x) (fst (login_run as s))"
  shows "failed_logins (snd (login_run as s)) \<le> failed_logins s + guesses_left (start + time_minute) ip l"
  using assms
proof (induction as arbitrary: s l)
  case (Cons a as)
  obtain e r body where a: "a = (e, r, body)" by (cases a) auto
  obtain resp s1 where h: "handleLogin e r body s = (resp, s1)" by fastforce
  have run: "fst (login_run (a # as) s) = resp # fst (login_run as s1)" "snd (login_run (a # as) s) = snd (login_run as s1)"
    by (simp_all add: a h split: prod.split)
  have "\<not> logged_in resp" using Cons.prems(4) run(1) by simp
  moreover have "RealIP (aq_http r) (sv_trustedProxies s) = ip" "sql_now (ae_sql e) < start + time_minute"
    "start + time_minute \<le> sql_now (ae_sql e) + time_minute"
    using Cons.prems(2,3) by (auto simp: a)
  ultimately obtain l' where l': "sv_lockout s1 = Some l'" "sv_trustedProxies s1 = sv_trustedProxies s"
      "failed_logins s1 + guesses_left (start + time_minute) ip l' \<le> failed_logins s + guesses_left (start + time_minute) ip l"
    using login_step [OF Cons.prems(1) h] by blast
  have "failed_logins (snd (login_run as s1)) \<le> failed_logins s1 + guesses_left (start + time_minute) ip l'"
    by (rule Cons.IH [OF l'(1)]) (use l'(2) Cons.prems run in auto)
  then show ?case using l'(3) run(2) by simp
qed simp



end
