(* ===== verification/ApiUsers.thy ===== *)
theory ApiUsers
  imports ApiAuth
begin

text \<open>
  internal/api/users.go: accounts, profiles, app grants and API keys. A handler gets the user the
  middleware passed on (\<open>None\<close> when there is none) and answers with a response; JSON bodies arrive
  decoded, \<open>None\<close> when decoding failed.
\<close>

subsection \<open>Helpers\<close>

definition requireRole :: "AuthUser option \<Rightarrow> string list \<Rightarrow> api_response + AuthUser" where
  "requireRole a roles =
     (case a of None \<Rightarrow> Inl (HttpError 401 ''unauthorized'')
      | Some user \<Rightarrow> if list_ex (\<lambda>role. Role user = role) roles then Inr user else Inl (HttpError 403 ''forbidden''))"

definition validRole :: "string \<Rightarrow> bool" where
  "validRole role \<longleftrightarrow> role = ''super_admin'' \<or> role = ''manage'' \<or> role = ''viewer''"

definition parse_int64 :: "string \<Rightarrow> int option" where
  "parse_int64 s = (case atoi s of (v, ok) \<Rightarrow> if ok then Some v else None)"

definition unauthorized :: api_response where
  "unauthorized = HttpError 401 ''unauthorized''"

definition with_db :: "user_db \<Rightarrow> Server \<Rightarrow> Server" where
  "with_db d s = s\<lparr>sv_db := d\<rparr>"

subsection \<open>Own profile\<close>

definition handleListUsers :: "api_env \<Rightarrow> AuthUser option \<Rightarrow> Server \<Rightarrow> api_response" where
  "handleListUsers e a s =
     (case requireRole a [''super_admin''] of Inl err \<Rightarrow> err
      | Inr _ \<Rightarrow> (case ListUsers (ae_sql e) (sv_db s) of Inl _ \<Rightarrow> internal_error
                 | Inr users \<Rightarrow> UsersBody (map toUserResponse users)))"

definition handleGetMe :: "api_env \<Rightarrow> AuthUser option \<Rightarrow> Server \<Rightarrow> api_response" where
  "handleGetMe e a s =
     (case a of None \<Rightarrow> unauthorized
      | Some me \<Rightarrow> (case GetUserByID (ae_sql e) (ID me) (sv_db s) of Inl _ \<Rightarrow> internal_error
          | Inr user \<Rightarrow> MeBody (toUserResponse user)
              (case GetUserAppSlugs (ae_sql e) (ID me) (sv_db s) of Inl _ \<Rightarrow> [] | Inr slugs \<Rightarrow> slugs)))"

definition handleUpdateMe :: "api_env \<Rightarrow> AuthUser option \<Rightarrow> audit_ctx \<Rightarrow> (string \<times> string) option \<Rightarrow> Server \<Rightarrow> api_response \<times> Server" where
  "handleUpdateMe e a c body s =
     (case a of None \<Rightarrow> (unauthorized, s)
      | Some me \<Rightarrow>
          (case body of None \<Rightarrow> (HttpError 400 ''bad request'', s)
           | Some (displayName, email) \<Rightarrow>
               (let before = (case GetUserByID (ae_sql e) (ID me) (sv_db s) of Inl _ \<Rightarrow> []
                      | Inr u \<Rightarrow> [(''display_name'', u_display_name u), (''email'', u_email u)]) in
                case UpdateProfile (ae_sql e) (ID me) displayName email (sv_db s) of
                  (Some _, d) \<Rightarrow> (internal_error, with_db d s)
                | (None, d) \<Rightarrow> (OkStatus, audit_record c ''system'' ''profile_changed'' [] before
                      [(''display_name'', displayName), (''email'', email)] (with_db d s)))))"

definition handleChangePassword :: "api_env \<Rightarrow> AuthUser option \<Rightarrow> audit_ctx \<Rightarrow> (string \<times> string) option \<Rightarrow> Server \<Rightarrow> api_response \<times> Server" where
  "handleChangePassword e a c body s =
     (case a of None \<Rightarrow> (unauthorized, s)
      | Some me \<Rightarrow>
          (case body of None \<Rightarrow> (HttpError 400 ''bad request'', s)
           | Some (current, new) \<Rightarrow>
               if new = [] then (HttpError 400 ''new password required'', s)
               else case GetUserByID (ae_sql e) (ID me) (sv_db s) of
                 Inl _ \<Rightarrow> (internal_error, s)
               | Inr user \<Rightarrow>
                   if \<not> check_password e (u_password_hash user) current then (HttpError 400 ''current password is incorrect'', s)
                   else case hash_password e new of
                     None \<Rightarrow> (internal_error, s)
                   | Some hash \<Rightarrow>
                       (case UpdatePassword (ae_sql e) (ID me) hash (sv_db s) of
                          (Some _, d) \<Rightarrow> (internal_error, with_db d s)
                        | (None, d) \<Rightarrow> (OkStatus, audit_record c ''auth'' ''password_changed'' [] [] [] (with_db d s)))))"

subsection \<open>Accounts\<close>

record create_body =
  cb_username :: string
  cb_password :: string
  cb_role :: string
  cb_display_name :: string
  cb_email :: string

definition create_refused :: "api_env \<Rightarrow> create_body \<Rightarrow> string \<Rightarrow> Server \<Rightarrow> api_response option" where
  "create_refused e b role s =
     (if trim_space (cb_username b) = [] then Some (HttpError 400 ''username is required'')
      else if length (cb_password b) < 8 then Some (HttpError 400 ''password must be at least 8 characters'')
      else if \<not> validRole role then Some (HttpError 400 ''invalid role: must be super_admin, manage, or viewer'')
      else if cb_email b \<noteq> [] \<and> EmailTaken (ae_sql e) (cb_email b) 0 (sv_db s) then Some (HttpError 409 ''email already in use'')
      else None)"

definition handleCreateUser :: "api_env \<Rightarrow> AuthUser option \<Rightarrow> audit_ctx \<Rightarrow> create_body option \<Rightarrow> Server \<Rightarrow> api_response \<times> Server" where
  "handleCreateUser e a c body s =
     (case requireRole a [''super_admin''] of Inl err \<Rightarrow> (err, s)
      | Inr _ \<Rightarrow>
          (case body of None \<Rightarrow> (HttpError 400 ''bad request'', s)
           | Some b \<Rightarrow>
               (let role = (if cb_role b = [] then ''viewer'' else cb_role b) in
                case create_refused e b role s of
                  Some err \<Rightarrow> (err, s)
                | None \<Rightarrow>
                    (case hash_password e (cb_password b) of
                       None \<Rightarrow> (internal_error, s)
                     | Some hash \<Rightarrow>
                         (case CreateUser (ae_sql e) (cb_username b) hash role (cb_display_name b) (cb_email b) (sv_db s) of
                            (Inl err, d) \<Rightarrow> (if err = UniqueFailed then HttpError 409 ''username already exists'' else internal_error, with_db d s)
                          | (Inr u, d) \<Rightarrow> (UserBody 201 (toUserResponse u),
                              audit_record c ''system'' ''user_added'' [] [] [(''username'', cb_username b), (''role'', role)] (with_db d s)))))))"

record update_body =
  ub_display_name :: "string option"
  ub_email :: "string option"
  ub_role :: string
  ub_password :: string
  ub_current_password :: string

text \<open>The checks before any write: an error, or the new password hash (empty for no change).\<close>

definition update_checks :: "api_env \<Rightarrow> AuthUser \<Rightarrow> int \<Rightarrow> update_body \<Rightarrow> Server \<Rightarrow> api_response + string" where
  "update_checks e caller i b s =
     (if ub_role b \<noteq> [] \<and> \<not> validRole (ub_role b) then Inl (HttpError 400 ''invalid role: must be super_admin, manage, or viewer'')
      else if ub_role b \<noteq> [] \<and> ID caller = i \<and> ub_role b \<noteq> ''super_admin'' then Inl (HttpError 400 ''cannot change your own role'')
      else if (case ub_email b of Some m \<Rightarrow> m \<noteq> [] \<and> EmailTaken (ae_sql e) m i (sv_db s) | None \<Rightarrow> False)
      then Inl (HttpError 409 ''email already in use'')
      else if ub_password b = [] then Inr []
      else if length (ub_password b) < 8 then Inl (HttpError 400 ''password must be at least 8 characters'')
      else if ub_current_password b = [] then Inl (HttpError 400 ''your password is required to reset passwords'')
      else case GetUserByID (ae_sql e) (ID caller) (sv_db s) of
        Inl _ \<Rightarrow> Inl internal_error
      | Inr callerUser \<Rightarrow>
          if \<not> check_password e (u_password_hash callerUser) (ub_current_password b) then Inl (HttpError 400 ''your password is incorrect'')
          else case hash_password e (ub_password b) of None \<Rightarrow> Inl internal_error | Some h \<Rightarrow> Inr h)"

text \<open>The three writes, each only when it is asked for; the first failure ends the request.\<close>

definition update_writes :: "api_env \<Rightarrow> int \<Rightarrow> User \<Rightarrow> update_body \<Rightarrow> string \<Rightarrow> user_db \<Rightarrow> store_error option \<times> user_db" where
  "update_writes e i target b newHash d =
     (let (e1, d1) = (if ub_display_name b \<noteq> None \<or> ub_email b \<noteq> None
             then UpdateProfile (ae_sql e) i (case ub_display_name b of None \<Rightarrow> u_display_name target | Some x \<Rightarrow> x)
                    (case ub_email b of None \<Rightarrow> u_email target | Some x \<Rightarrow> x) d
             else (None, d))
      in if e1 \<noteq> None then (e1, d1)
      else let (e2, d2) = (if ub_role b \<noteq> [] \<and> ub_role b \<noteq> u_role target then UpdateUserRole (ae_sql e) i (ub_role b) d1 else (None, d1))
      in if e2 \<noteq> None then (e2, d2)
      else if newHash \<noteq> [] then UpdatePassword (ae_sql e) i newHash d2 else (None, d2))"

definition handleUpdateUser :: "api_env \<Rightarrow> api_request \<Rightarrow> AuthUser option \<Rightarrow> audit_ctx \<Rightarrow> update_body option \<Rightarrow> Server \<Rightarrow> api_response \<times> Server" where
  "handleUpdateUser e r a c body s =
     (case requireRole a [''super_admin''] of Inl err \<Rightarrow> (err, s)
      | Inr caller \<Rightarrow>
          (case parse_int64 (aq_path r ''id'') of None \<Rightarrow> (HttpError 400 ''invalid id'', s)
           | Some i \<Rightarrow>
               (case body of None \<Rightarrow> (HttpError 400 ''bad request'', s)
                | Some b \<Rightarrow>
                    (case GetUserByID (ae_sql e) i (sv_db s) of
                       Inl err \<Rightarrow> (if err = NotFound then HttpError 404 ''user not found'' else internal_error, s)
                     | Inr target \<Rightarrow>
                         (case update_checks e caller i b s of
                            Inl err \<Rightarrow> (err, s)
                          | Inr newHash \<Rightarrow>
                              (case update_writes e i target b newHash (sv_db s) of
                                 (Some _, d) \<Rightarrow> (internal_error, with_db d s)
                               | (None, d) \<Rightarrow>
                                   (case GetUserByID (ae_sql e) i d of
                                      Inl _ \<Rightarrow> (internal_error, with_db d s)
                                    | Inr user \<Rightarrow>
                                        (UserBody 200 (toUserResponse user),
                                         audit_record c ''system'' ''user_changed'' [] []
                                           [(''username'', u_username user), (''role'', u_role user)] (with_db d s)))))))))"

definition handleDeleteUser :: "api_env \<Rightarrow> api_request \<Rightarrow> AuthUser option \<Rightarrow> audit_ctx \<Rightarrow> Server \<Rightarrow> api_response \<times> Server" where
  "handleDeleteUser e r a c s =
     (case requireRole a [''super_admin''] of Inl err \<Rightarrow> (err, s)
      | Inr caller \<Rightarrow>
          (case parse_int64 (aq_path r ''id'') of None \<Rightarrow> (HttpError 400 ''invalid id'', s)
           | Some i \<Rightarrow>
               if ID caller = i then (HttpError 400 ''cannot delete yourself'', s)
               else let (name, role) = (case GetUserByID (ae_sql e) i (sv_db s) of
                          Inr u \<Rightarrow> (u_username u, u_role u)
                        | Inl _ \<Rightarrow> (''user_id='' @ (if i < 0 then CHR ''-'' # itoa (nat (- i)) else itoa (nat i)), [])) in
                 case DeleteUser (ae_sql e) i (sv_db s) of
                   (Some _, d) \<Rightarrow> (internal_error, with_db d s)
                 | (None, d) \<Rightarrow> (OkStatus, audit_record c ''system'' ''user_removed'' []
                       [(''username'', name), (''role'', role)] [] (with_db d s))))"

subsection \<open>App grants\<close>

definition user_summary :: "api_env \<Rightarrow> int \<Rightarrow> user_db \<Rightarrow> (string \<times> string) list" where
  "user_summary e i d = (case GetUserByID (ae_sql e) i d of Inl _ \<Rightarrow> []
     | Inr u \<Rightarrow> [(''username'', u_username u), (''role'', u_role u)])"

definition handleListUserAccess :: "api_env \<Rightarrow> api_request \<Rightarrow> AuthUser option \<Rightarrow> Server \<Rightarrow> api_response" where
  "handleListUserAccess e r a s =
     (case requireRole a [''super_admin''] of Inl err \<Rightarrow> err
      | Inr _ \<Rightarrow>
          (case parse_int64 (aq_path r ''id'') of None \<Rightarrow> HttpError 400 ''invalid id''
           | Some i \<Rightarrow>
               (case GetUserByID (ae_sql e) i (sv_db s) of Inl _ \<Rightarrow> HttpError 404 ''user not found''
                | Inr _ \<Rightarrow> (case GetUserAppSlugs (ae_sql e) i (sv_db s) of Inl _ \<Rightarrow> internal_error
                           | Inr slugs \<Rightarrow> SlugsBody slugs))))"

definition handleGrantAccess :: "api_env \<Rightarrow> api_request \<Rightarrow> AuthUser option \<Rightarrow> audit_ctx \<Rightarrow> string option \<Rightarrow> Server \<Rightarrow> api_response \<times> Server" where
  "handleGrantAccess e r a c body s =
     (case requireRole a [''super_admin''] of Inl err \<Rightarrow> (err, s)
      | Inr _ \<Rightarrow>
          (case parse_int64 (aq_path r ''id'') of None \<Rightarrow> (HttpError 400 ''invalid id'', s)
           | Some i \<Rightarrow>
               (case body of None \<Rightarrow> (HttpError 400 ''bad request'', s)
                | Some slug \<Rightarrow>
                    (case GetAppBySlug (ae_sql e) slug (sv_db s) of Inl _ \<Rightarrow> (HttpError 404 ''app not found'', s)
                     | Inr app \<Rightarrow>
                         (case GrantAppAccess (ae_sql e) i (ar_id app) (sv_db s) of
                            (Some _, d) \<Rightarrow> (internal_error, with_db d s)
                          | (None, d) \<Rightarrow> (OkStatus, audit_record c ''access'' ''added'' (ar_slug app) [] (user_summary e i d) (with_db d s)))))))"

definition handleRevokeAccess :: "api_env \<Rightarrow> api_request \<Rightarrow> AuthUser option \<Rightarrow> audit_ctx \<Rightarrow> Server \<Rightarrow> api_response \<times> Server" where
  "handleRevokeAccess e r a c s =
     (case requireRole a [''super_admin''] of Inl err \<Rightarrow> (err, s)
      | Inr _ \<Rightarrow>
          (case parse_int64 (aq_path r ''id'') of None \<Rightarrow> (HttpError 400 ''invalid id'', s)
           | Some i \<Rightarrow>
               (case GetAppBySlug (ae_sql e) (aq_path r ''slug'') (sv_db s) of Inl _ \<Rightarrow> (HttpError 404 ''app not found'', s)
                | Inr app \<Rightarrow>
                    (case RevokeAppAccess (ae_sql e) i (ar_id app) (sv_db s) of
                       (Some _, d) \<Rightarrow> (internal_error, with_db d s)
                     | (None, d) \<Rightarrow> (OkStatus, audit_record c ''access'' ''removed'' (ar_slug app) (user_summary e i (sv_db s)) [] (with_db d s))))))"

subsection \<open>API keys\<close>

definition toKeyResponse :: "APIKeyRecord \<Rightarrow> keyResponse" where
  "toKeyResponse k = \<lparr>kr_ID = k_id k, kr_Name = k_name k, kr_CreatedAt = k_created_at k, kr_ExpiresAt = k_expires_at k,
     kr_LastUsedAt = k_last_used_at k\<rparr>"

definition handleListAPIKeys :: "api_env \<Rightarrow> AuthUser option \<Rightarrow> Server \<Rightarrow> api_response" where
  "handleListAPIKeys e a s =
     (case a of None \<Rightarrow> unauthorized
      | Some user \<Rightarrow> (case ListAPIKeysByUser (ae_sql e) (ID user) (sv_db s) of Inl _ \<Rightarrow> internal_error
          | Inr keys \<Rightarrow> KeysBody (map toKeyResponse keys)))"

definition handleCreateAPIKey ::
  "api_env \<Rightarrow> AuthUser option \<Rightarrow> audit_ctx \<Rightarrow> (string \<times> instant option) option \<Rightarrow> Server \<Rightarrow> api_response \<times> Server" where
  "handleCreateAPIKey e a c body s =
     (case a of None \<Rightarrow> (unauthorized, s)
      | Some user \<Rightarrow>
          (case body of None \<Rightarrow> (HttpError 400 ''bad request'', s)
           | Some (name, expiresAt) \<Rightarrow>
               if (case expiresAt of Some t \<Rightarrow> t < sql_now (ae_sql e) | None \<Rightarrow> False) then (HttpError 400 ''expires_at must be in the future'', s)
               else case random_key e of None \<Rightarrow> (internal_error, s)
               | Some hex \<Rightarrow>
                   (let plaintext = ''sd_'' @ hex in
                    case CreateAPIKey (ae_sql e) (ID user) (hash_api_key e plaintext) name expiresAt (sv_db s) of
                      (Inl err, d) \<Rightarrow>
                        (if err = APIKeyNameTaken
                         then HttpError 409 ''an API key with this name already exists; choose a different name or revoke the existing key first''
                         else internal_error, with_db d s)
                    | (Inr k, d) \<Rightarrow> (KeyCreated (k_id k) (k_name k) plaintext,
                        audit_record c ''system'' ''apikey_added'' [] [] [(''name'', name), (''username'', Username user)] (with_db d s)))))"

definition handleDeleteAPIKey :: "api_env \<Rightarrow> api_request \<Rightarrow> AuthUser option \<Rightarrow> audit_ctx \<Rightarrow> Server \<Rightarrow> api_response \<times> Server" where
  "handleDeleteAPIKey e r a c s =
     (case a of None \<Rightarrow> (unauthorized, s)
      | Some user \<Rightarrow>
          (case parse_int64 (aq_path r ''id'') of None \<Rightarrow> (HttpError 400 ''invalid id'', s)
           | Some i \<Rightarrow>
               (let ownerID = (if Role user = ''super_admin'' then 0 else ID user) in
                case DeleteAPIKey (ae_sql e) i ownerID (sv_db s) of
                  (Some _, d) \<Rightarrow> (HttpError 404 ''not found'', with_db d s)
                | (None, d) \<Rightarrow> (OkStatus, audit_record c ''system'' ''apikey_removed'' []
                     [(''name'', ''key_id='' @ (if i < 0 then CHR ''-'' # itoa (nat (- i)) else itoa (nat i))), (''username'', Username user)] [] (with_db d s)))))"

subsection \<open>Requests\<close>

text \<open>The calls of users.go behind the authentication middleware, with their decoded bodies.\<close>

datatype api_call =
    ListUsersCall | GetMeCall | UpdateMeCall "(string \<times> string) option" | ChangePasswordCall "(string \<times> string) option"
  | CreateUserCall "create_body option" | UpdateUserCall "update_body option" | DeleteUserCall
  | ListUserAccessCall | GrantAccessCall "string option" | RevokeAccessCall
  | ListAPIKeysCall | CreateAPIKeyCall "(string \<times> instant option) option" | DeleteAPIKeyCall

definition call_handler :: "api_env \<Rightarrow> api_request \<Rightarrow> AuthUser option \<Rightarrow> audit_ctx \<Rightarrow> api_call \<Rightarrow> Server \<Rightarrow> api_response \<times> Server" where
  "call_handler e r a c call s =
     (case call of
        ListUsersCall \<Rightarrow> (handleListUsers e a s, s)
      | GetMeCall \<Rightarrow> (handleGetMe e a s, s)
      | UpdateMeCall b \<Rightarrow> handleUpdateMe e a c b s
      | ChangePasswordCall b \<Rightarrow> handleChangePassword e a c b s
      | CreateUserCall b \<Rightarrow> handleCreateUser e a c b s
      | UpdateUserCall b \<Rightarrow> handleUpdateUser e r a c b s
      | DeleteUserCall \<Rightarrow> handleDeleteUser e r a c s
      | ListUserAccessCall \<Rightarrow> (handleListUserAccess e r a s, s)
      | GrantAccessCall b \<Rightarrow> handleGrantAccess e r a c b s
      | RevokeAccessCall \<Rightarrow> handleRevokeAccess e r a c s
      | ListAPIKeysCall \<Rightarrow> (handleListAPIKeys e a s, s)
      | CreateAPIKeyCall b \<Rightarrow> handleCreateAPIKey e a c b s
      | DeleteAPIKeyCall \<Rightarrow> handleDeleteAPIKey e r a c s)"

definition authenticated_call :: "api_env \<Rightarrow> api_request \<Rightarrow> api_call \<Rightarrow> Server \<Rightarrow> api_response \<times> Server" where
  "authenticated_call e r call s =
     (case authMiddleware e r s of
        (Inl err, s1) \<Rightarrow> (err, s1)
      | (Inr (a, c), s1) \<Rightarrow> call_handler e r (Some a) c call s1)"

inductive api_step :: "Server \<Rightarrow> Server \<Rightarrow> bool" where
  do_call: "api_step s (snd (authenticated_call e r call s))"
| do_login: "api_step s (snd (handleLogin e r body s))"
| do_logout: "api_step s (snd (handleLogout e r s))"
| do_setup: "api_step s (snd (handleSetup e sbody s))"

inductive api_run :: "Server \<Rightarrow> Server \<Rightarrow> bool" where
  api_refl: "api_run s s"
| api_next: "api_run s s' \<Longrightarrow> api_step s' s'' \<Longrightarrow> api_run s s''"

subsection \<open>Every request is a sequence of store operations\<close>

named_theorems store_runs \<open>what an operation does to the tables is a run of the store\<close>

lemma store_run_trans: "store_run b c \<Longrightarrow> store_run a b \<Longrightarrow> store_run a c"
  by (induction rule: store_run.induct) (auto intro: store_next)

lemma store_run_step: "store_step d d' \<Longrightarrow> store_run d d'"
  by (rule store_next [OF store_refl])

lemmas store_ops [store_runs] = store_step.intros [THEN store_run_step]

lemma with_db_simps [simp]:
  "sv_db (with_db d s) = d" "sv_db (audit_record c x y z b a s) = sv_db s"
  by (simp_all add: with_db_def audit_record_def)

lemma store_run_snd: "f d = (x, d') \<Longrightarrow> store_run d (snd (f d)) \<Longrightarrow> store_run d d'"
  by simp

lemma op_runs [store_runs]:
  "CreateUser e n h ro dn em d = (x1, d') \<Longrightarrow> store_run d d'"
  "DeleteUser e i d = (x2, d') \<Longrightarrow> store_run d d'"
  "UpdateProfile e i dn em d = (x2, d') \<Longrightarrow> store_run d d'"
  "UpdateUserRole e i ro d = (x2, d') \<Longrightarrow> store_run d d'"
  "UpdatePassword e i h d = (x2, d') \<Longrightarrow> store_run d d'"
  "CreateAPIKey e i h n ex d = (x3, d') \<Longrightarrow> store_run d d'"
  "GetAPIKeyByHash e h d = (x4, d') \<Longrightarrow> store_run d d'"
  "DeleteAPIKey e i j d = (x2, d') \<Longrightarrow> store_run d d'"
  "GrantAppAccess e i j d = (x2, d') \<Longrightarrow> store_run d d'"
  "RevokeAppAccess e i j d = (x2, d') \<Longrightarrow> store_run d d'"
  by (drule arg_cong [where f = snd], simp only: snd_conv, drule sym, simp only: store_ops)+

lemma update_writes_run: "store_run d (snd (update_writes e i target b h d))"
proof -
  obtain e1 d1 where p: "(if ub_display_name b \<noteq> None \<or> ub_email b \<noteq> None
      then UpdateProfile (ae_sql e) i (case ub_display_name b of None \<Rightarrow> u_display_name target | Some x \<Rightarrow> x)
             (case ub_email b of None \<Rightarrow> u_email target | Some x \<Rightarrow> x) d
      else (None, d)) = (e1, d1)" by fastforce
  obtain e2 d2 where q: "(if ub_role b \<noteq> [] \<and> ub_role b \<noteq> u_role target then UpdateUserRole (ae_sql e) i (ub_role b) d1 else (None, d1)) = (e2, d2)"
    by fastforce
  have "store_run d d1" using p by (auto split: if_splits intro: store_runs store_refl)
  moreover have "store_run d1 d2" using q by (auto split: if_splits intro: store_runs store_refl)
  moreover have "store_run d2 (snd (UpdatePassword (ae_sql e) i h d2))" by (rule store_runs)
  ultimately show ?thesis unfolding update_writes_def p
    by (auto simp: q intro: store_run_trans)
qed

lemma authMiddleware_run: "store_run (sv_db s) (sv_db (snd (authMiddleware e r s)))"
  by (auto simp: authMiddleware_def check_api_key_def Let_def split: option.split sum.split prod.split key_check.split
      intro: store_runs store_refl)

lemma call_handler_run: "store_run (sv_db s) (sv_db (snd (call_handler e r a c call s)))"
proof (cases call)
  case (UpdateMeCall b)
  then show ?thesis by (auto simp: call_handler_def handleUpdateMe_def Let_def split: option.split sum.split prod.split intro: store_runs store_refl)
next
  case (ChangePasswordCall b)
  then show ?thesis by (auto simp: call_handler_def handleChangePassword_def Let_def split: option.split sum.split prod.split intro: store_runs store_refl)
next
  case (CreateUserCall b)
  then show ?thesis by (auto simp: call_handler_def handleCreateUser_def Let_def split: option.split sum.split prod.split intro: store_runs store_refl)
next
  case (UpdateUserCall b)
  have w: "update_writes e i t b h d = (x, d') \<Longrightarrow> store_run d d'" for i t b h d x d'
    using update_writes_run [of d e i t b h] by simp
  show ?thesis using UpdateUserCall
    by (auto simp: call_handler_def handleUpdateUser_def split: option.split sum.split prod.split intro: w store_refl)
next
  case DeleteUserCall
  then show ?thesis by (auto simp: call_handler_def handleDeleteUser_def Let_def split: option.split sum.split prod.split intro: store_runs store_refl)
next
  case (GrantAccessCall b)
  then show ?thesis by (auto simp: call_handler_def handleGrantAccess_def split: option.split sum.split prod.split intro: store_runs store_refl)
next
  case RevokeAccessCall
  then show ?thesis by (auto simp: call_handler_def handleRevokeAccess_def split: option.split sum.split prod.split intro: store_runs store_refl)
next
  case (CreateAPIKeyCall b)
  then show ?thesis by (auto simp: call_handler_def handleCreateAPIKey_def Let_def split: option.split sum.split prod.split intro: store_runs store_refl)
next
  case DeleteAPIKeyCall
  then show ?thesis by (auto simp: call_handler_def handleDeleteAPIKey_def Let_def split: option.split sum.split prod.split intro: store_runs store_refl)
qed (simp_all add: call_handler_def store_refl)

lemma limit_login_db: "limit_login now ip s = (ok, s') \<Longrightarrow> sv_db s' = sv_db s"
  by (auto simp: limit_login_def Let_def split: option.splits prod.splits)

lemma login_db [simp]: "sv_db (login_failure now u ip s) = sv_db s" "sv_db (login_success u ip s) = sv_db s"
  by (simp_all add: login_failure_def login_success_def split: option.split)

lemma handleLogin_db: "sv_db (snd (handleLogin e r body s)) = sv_db s"
proof -
  obtain ok s1 where lim: "limit_login (sql_now (ae_sql e)) (RealIP (aq_http r) (sv_trustedProxies s)) s = (ok, s1)" by fastforce
  show ?thesis using limit_login_db [OF lim] by (auto simp: handleLogin_def Let_def lim split: option.split)
qed

lemma handleSetup_run: "store_run (sv_db s) (sv_db (snd (handleSetup e body s)))"
proof -
  have two: "store_run d d''" if "CreateUser q n h ro dn em d = (Inr u, d')" "UpdateProfile q i x y d' = (z, d'')" for q n h ro dn em d u d' i x y z d''
    using op_runs(1) [OF that(1)] op_runs(3) [OF that(2)] store_run_trans by blast
  show ?thesis
    by (auto simp: handleSetup_def split: option.split sum.split prod.split intro: store_runs store_refl two)
qed

lemma authMiddleware_fields: "sv_jwt (snd (authMiddleware e r s)) = sv_jwt s" "db_users (sv_db (snd (authMiddleware e r s))) = db_users (sv_db s)"
  using check_api_key_fields [of e r s]
  by (auto simp: authMiddleware_def Let_def split: option.split sum.split prod.split key_check.split)

text \<open>
  Every API request is, on the tables, a sequence of store operations, so what every sequence of
  store operations keeps holds for every sequence of requests.
\<close>

lemma api_step_run: "api_step s s' \<Longrightarrow> store_run (sv_db s) (sv_db s')"
proof (induction rule: api_step.induct)
  case (do_call s e r call)
  obtain res s1 where m: "authMiddleware e r s = (res, s1)" by fastforce
  then have s1: "store_run (sv_db s) (sv_db s1)" using authMiddleware_run [of s e r] by simp
  show ?case
  proof (cases res)
    case (Inl err)
    then show ?thesis using s1 by (simp add: authenticated_call_def m)
  next
    case (Inr ac)
    then show ?thesis using s1 call_handler_run [of s1 e r "Some (fst ac)" "snd ac" call] store_run_trans
      by (auto simp: authenticated_call_def m split: prod.split)
  qed
next
  case (do_login s e r body)
  then show ?case by (simp add: handleLogin_db store_refl)
next
  case (do_logout s e r)
  then show ?case by (auto simp: handleLogout_def split: option.split intro: store_runs store_refl)
next
  case (do_setup s e body)
  then show ?case by (rule handleSetup_run)
qed

lemma api_run_store: "api_run s s' \<Longrightarrow> store_run (sv_db s) (sv_db s')"
  by (induction rule: api_run.induct) (auto intro: store_refl store_run_trans dest: api_step_run)

lemma store_run_db_ok: "store_run d d' \<Longrightarrow> db_ok d \<Longrightarrow> db_ok d'"
  by (induction rule: store_run.induct) (auto dest: store_step_shape db_ok_shape)

lemma store_run_session: "store_run d d' \<Longrightarrow> session_dead d i tv \<Longrightarrow> session_dead d' i tv"
  by (induction rule: store_run.induct) (auto dest: store_step_shape session_dead_shape)

subsection \<open>Logging out is final\<close>

lemma dead_session_refused:
  assumes "session_dead (sv_db s) (cl_UserID cl) (cl_TokenVersion cl)" "jwt_validate e cookie = None \<or> jwt_validate e cookie = Some cl"
    and "aq_cookie r = Some cookie" "bearer_token r = None"
  shows "fst (authMiddleware e r s) = Inl (HttpError 401 ''unauthorized'')"
  using assms
  by (auto simp: authMiddleware_def check_api_key_def check_session_def session_dead_def GetUserByID_def Let_def split: option.split)

text \<open>
  After a logout, no cookie of that user's sessions up to then is accepted again, whatever
  requests follow, by whoever: changes of role or password, deletion and new accounts included. (The
  token is one the server issued, so its version is not ahead of the table.)
\<close>

theorem logout_is_final:
  assumes "db_ok (sv_db s)" "sv_jwt s" "aq_cookie r = Some cookie" "jwt_validate e cookie = Some cl"
    and "find_user (sv_db s) (cl_UserID cl) = Some u" "cl_TokenVersion cl \<le> u_token_version u"
    and "\<not> sql_fails (ae_sql e) ''BumpTokenVersion''"
    and "api_run (snd (handleLogout e r s)) s'"
    and "aq_cookie r' = Some cookie" "bearer_token r' = None" "jwt_validate e' cookie = None \<or> jwt_validate e' cookie = Some cl"
  shows "fst (authMiddleware e' r' s') = Inl (HttpError 401 ''unauthorized'')"
proof -
  have "u \<in> set (db_users (sv_db s))" "u_id u = cl_UserID cl" using find_user_in [OF assms(5)] by auto
  then have "cl_UserID cl \<le> db_users_seq (sv_db s)" using assms(1) by (auto simp: db_ok_def users_ok_def list_all_iff)
  then have "session_dead (sv_db (snd (handleLogout e r s))) (cl_UserID cl) (cl_TokenVersion cl)"
    using assms(2-7) by (simp add: handleLogout_def BumpTokenVersion_def session_dead_def find_user_update keeps_user_updates)
  from store_run_session [OF api_run_store [OF assms(8)] this] show ?thesis
    by (rule dead_session_refused [OF _ assms(11,9,10)])
qed

theorem logout_is_final_witness:
  "fst (authMiddleware example_env example_api_request (snd (handleLogout example_env example_api_request example_server)))
    = Inl (HttpError 401 ''unauthorized'')"
  by (rule logout_is_final [of example_server example_api_request "''tok''" example_env
        "\<lparr>cl_UserID = 1, cl_Username = ''ann'', cl_Role = ''viewer'', cl_TokenVersion = 1\<rparr>"
        "\<lparr>u_id = 1, u_username = ''ann'', u_password_hash = ''h'', u_role = ''super_admin'', u_display_name = [], u_email = [], u_created_at = 0, u_token_version = 1\<rparr>",
        OF _ _ _ _ _ _ _ api_refl])
    (simp_all add: example_server_def example_users_eq example_api_request_def example_env_def find_user_def calm_sql_def bearer_token_def
      header_get_def go_simps)

subsection \<open>There is always an administrator\<close>

definition is_admin :: "user_db \<Rightarrow> int \<Rightarrow> bool" where
  "is_admin d j \<longleftrightarrow> (\<exists>u. find_user d j = Some u \<and> u_role u = ''super_admin'')"

lemma is_admin_update: "keeps_user f \<Longrightarrow> i \<noteq> j \<or> (\<forall>u. u_role (f u) = u_role u \<or> u_role (f u) = ''super_admin'') \<Longrightarrow>
    is_admin d j \<Longrightarrow> is_admin (update_users i f d) j"
proof -
  assume f: "keeps_user f" "i \<noteq> j \<or> (\<forall>u. u_role (f u) = u_role u \<or> u_role (f u) = ''super_admin'')" and d: "is_admin d j"
  obtain u where u: "find_user d j = Some u" "u_role u = ''super_admin''" using d unfolding is_admin_def by blast
  then have "find_user (update_users i f d) j = Some (if j = i then f u else u)" using f(1) by (simp add: find_user_update)
  moreover have "u_role (if j = i then f u else u) = ''super_admin''"
  proof (cases "j = i")
    case True
    then have "u_role (f u) = u_role u \<or> u_role (f u) = ''super_admin''" using f(2) by blast
    then show ?thesis using True u(2) by auto
  qed (simp add: u(2))
  ultimately show ?thesis unfolding is_admin_def by blast
qed

lemma is_admin_keys: "is_admin (d\<lparr>db_keys := k\<rparr>) j = is_admin d j" "is_admin (d\<lparr>db_keys := k, db_keys_seq := n\<rparr>) j = is_admin d j"
  "is_admin (d\<lparr>db_grants := g\<rparr>) j = is_admin d j"
  by (simp_all add: is_admin_def find_user_def)

lemma admin_ops:
  assumes "is_admin d j"
  shows "CreateUser e n h ro dn em d = (x1, d') \<Longrightarrow> is_admin d' j"
    "i \<noteq> j \<Longrightarrow> DeleteUser e i d = (x2, d') \<Longrightarrow> is_admin d' j"
    "UpdateProfile e i dn em d = (x2, d') \<Longrightarrow> is_admin d' j"
    "i \<noteq> j \<or> ro = ''super_admin'' \<Longrightarrow> UpdateUserRole e i ro d = (x2, d') \<Longrightarrow> is_admin d' j"
    "UpdatePassword e i h d = (x2, d') \<Longrightarrow> is_admin d' j"
    "CreateAPIKey e i h n ex d = (x3, d') \<Longrightarrow> is_admin d' j"
    "GetAPIKeyByHash e h d = (x4, d') \<Longrightarrow> is_admin d' j"
    "DeleteAPIKey e i k d = (x2, d') \<Longrightarrow> is_admin d' j"
    "GrantAppAccess e i k d = (x2, d') \<Longrightarrow> is_admin d' j"
    "RevokeAppAccess e i k d = (x2, d') \<Longrightarrow> is_admin d' j"
  subgoal using assms by (auto simp: CreateUser_def Let_def is_admin_def find_user_def find_append split: if_splits)
  subgoal using assms by (auto simp: DeleteUser_def is_admin_def find_user_filter find_filter_ids find_user_def split: if_splits)
  subgoal using assms by (auto simp: UpdateProfile_def update_user_def is_admin_update keeps_user_updates split: if_splits)
  subgoal using assms
    by (elim disjE) (auto simp: UpdateUserRole_def update_user_def is_admin_update keeps_user_updates role_allowed_def split: if_splits)
  subgoal using assms by (auto simp: UpdatePassword_def update_user_def is_admin_update keeps_user_updates split: if_splits)
  subgoal using assms by (auto simp: CreateAPIKey_def Let_def is_admin_keys split: if_splits)
  subgoal using assms by (auto simp: GetAPIKeyByHash_def is_admin_keys split: if_splits option.splits)
  subgoal using assms by (auto simp: DeleteAPIKey_def Let_def is_admin_keys split: if_splits)
  subgoal using assms by (auto simp: GrantAppAccess_def is_admin_keys split: if_splits)
  subgoal using assms by (auto simp: RevokeAppAccess_def is_admin_keys split: if_splits)
  done

lemma requireRole_Inr: "requireRole a [role] = Inr u \<Longrightarrow> a = Some u \<and> Role u = role"
  by (auto simp: requireRole_def split: option.splits if_splits)

lemma update_writes_admin:
  assumes "is_admin d j" "i \<noteq> j \<or> ub_role b = [] \<or> ub_role b = ''super_admin''"
  shows "is_admin (snd (update_writes e i target b h d)) j"
proof -
  obtain e1 d1 where p: "(if ub_display_name b \<noteq> None \<or> ub_email b \<noteq> None
      then UpdateProfile (ae_sql e) i (case ub_display_name b of None \<Rightarrow> u_display_name target | Some x \<Rightarrow> x)
             (case ub_email b of None \<Rightarrow> u_email target | Some x \<Rightarrow> x) d
      else (None, d)) = (e1, d1)" by fastforce
  obtain e2 d2 where q: "(if ub_role b \<noteq> [] \<and> ub_role b \<noteq> u_role target then UpdateUserRole (ae_sql e) i (ub_role b) d1 else (None, d1)) = (e2, d2)"
    by fastforce
  obtain e3 d3 where w: "UpdatePassword (ae_sql e) i h d2 = (e3, d3)" by fastforce
  have d1: "is_admin d1 j" using p assms(1) admin_ops(3) by (auto split: if_splits)
  have d2: "is_admin d2 j" using q assms(2) d1 admin_ops(4) [OF d1] by (auto split: if_splits)
  have d3: "is_admin d3 j" using admin_ops(5) [OF d2 w] .
  show ?thesis unfolding update_writes_def p using d1 d2 d3 by (simp add: q w)
qed

text \<open>A handler cannot remove an administrator other than the one who calls it, nor that one.\<close>

lemma call_handler_admin:
  assumes "is_admin (sv_db s) j" "Role a = ''super_admin'' \<Longrightarrow> ID a = j"
  shows "is_admin (sv_db (snd (call_handler e r (Some a) c call s))) j"
proof (cases call)
  case (UpdateMeCall b)
  then show ?thesis using assms(1)
    by (auto simp: call_handler_def handleUpdateMe_def Let_def split: option.split sum.split prod.split intro: admin_ops)
next
  case (ChangePasswordCall b)
  then show ?thesis using assms(1)
    by (auto simp: call_handler_def handleChangePassword_def Let_def split: option.split sum.split prod.split intro: admin_ops)
next
  case (CreateUserCall b)
  then show ?thesis using assms(1)
    by (auto simp: call_handler_def handleCreateUser_def Let_def split: option.split sum.split prod.split intro: admin_ops)
next
  case (UpdateUserCall b)
  have "is_admin d' j" if "requireRole (Some a) [''super_admin''] = Inr caller" "update_checks e caller i b s = Inr h"
    "update_writes e i t b h (sv_db s) = (x, d')" for caller i b h t x d'
  proof -
    have "ID caller = j" using requireRole_Inr [OF that(1)] assms(2) by simp
    then have "i \<noteq> j \<or> ub_role b = [] \<or> ub_role b = ''super_admin''"
      using that(2) by (auto simp: update_checks_def split: if_splits)
    from update_writes_admin [OF assms(1) this, of e t h] that(3) show ?thesis by simp
  qed
  then show ?thesis using UpdateUserCall assms(1)
    by (auto simp: call_handler_def handleUpdateUser_def split: option.split sum.split prod.split)
next
  case DeleteUserCall
  have "is_admin d' j" if "requireRole (Some a) [''super_admin''] = Inr caller" "ID caller \<noteq> i" "DeleteUser q i (sv_db s) = (x, d')" for caller i q x d'
    using requireRole_Inr [OF that(1)] assms(2) that(2) admin_ops(2) [OF assms(1) _ that(3)] by simp
  then show ?thesis using DeleteUserCall assms(1)
    by (auto simp: call_handler_def handleDeleteUser_def Let_def split: option.split sum.split prod.split)
next
  case (GrantAccessCall b)
  then show ?thesis using assms(1)
    by (auto simp: call_handler_def handleGrantAccess_def split: option.split sum.split prod.split intro: admin_ops)
next
  case RevokeAccessCall
  then show ?thesis using assms(1)
    by (auto simp: call_handler_def handleRevokeAccess_def split: option.split sum.split prod.split intro: admin_ops)
next
  case (CreateAPIKeyCall b)
  then show ?thesis using assms(1)
    by (auto simp: call_handler_def handleCreateAPIKey_def Let_def split: option.split sum.split prod.split intro: admin_ops)
next
  case DeleteAPIKeyCall
  then show ?thesis using assms(1)
    by (auto simp: call_handler_def handleDeleteAPIKey_def Let_def split: option.split sum.split prod.split intro: admin_ops)
qed (use assms in \<open>simp_all add: call_handler_def\<close>)

text \<open>The user the middleware passes on is in the table, with its current role.\<close>

lemma authMiddleware_user:
  assumes "authMiddleware e r s = (Inr (a, c), s1)"
  shows "\<exists>u. find_user (sv_db s) (ID a) = Some u \<and> a = auth_user_of u"
proof -
  have id: "find_user d i = Some u \<Longrightarrow> u_id u = i" for d i u using find_user_in by blast
  have key: "find_user d (u_id u) = Some u" if "GetAPIKeyByHash q h d = (Inr (k, u), d')" for q h d k u d'
    using that id by (auto simp: GetAPIKeyByHash_def split: if_splits option.splits dest!: find_Some_iff [THEN iffD1])
  have ses: "find_user (sv_db t) (u_id u) = Some u" if "check_session e r t = Some u" for t u
    using that id by (auto simp: check_session_def GetUserByID_def split: option.splits if_splits)
  obtain kc t where k: "check_api_key e r s = (kc, t)" by fastforce
  have t: "db_users (sv_db t) = db_users (sv_db s)" using check_api_key_fields(1) [of e r s] k by simp
  show ?thesis
  proof (cases kc)
    case (KeyOf u)
    then have "find_user (sv_db s) (u_id u) = Some u"
      using k key by (auto simp: check_api_key_def Let_def split: option.splits sum.splits prod.splits if_splits)
    then show ?thesis using assms KeyOf by (auto simp: authMiddleware_def k auth_user_of_def)
  next
    case KeyUnknown
    then obtain u where "check_session e r t = Some u" "a = auth_user_of u"
      using assms by (auto simp: authMiddleware_def k split: option.splits)
    then show ?thesis using ses [of t u] t by (auto simp: auth_user_of_def find_user_def)
  qed (use assms in \<open>simp add: authMiddleware_def k\<close>)
qed

definition has_admin :: "Server \<Rightarrow> bool" where
  "has_admin s \<longleftrightarrow> (\<exists>j. is_admin (sv_db s) j)"

lemma api_step_admin: "api_step s s' \<Longrightarrow> has_admin s \<Longrightarrow> has_admin s'"
proof (induction rule: api_step.induct)
  case (do_call s e r call)
  obtain res s1 where m: "authMiddleware e r s = (res, s1)" by fastforce
  then have s1: "is_admin (sv_db s1) j = is_admin (sv_db s) j" for j
    using authMiddleware_fields(2) [of e r s] by (simp add: is_admin_def find_user_def)
  show ?case
  proof (cases res)
    case (Inl err)
    then show ?thesis using do_call s1 by (simp add: authenticated_call_def m has_admin_def)
  next
    case (Inr ac)
    then obtain a c where ac: "res = Inr (a, c)" by (cases ac) auto
    obtain u where u: "find_user (sv_db s) (ID a) = Some u" "a = auth_user_of u" using authMiddleware_user m ac by blast
    obtain j where j: "is_admin (sv_db s1) j" "Role a = ''super_admin'' \<Longrightarrow> ID a = j"
    proof (cases "Role a = ''super_admin''")
      case True
      then have "is_admin (sv_db s1) (ID a)" using u by (simp add: s1) (simp add: is_admin_def auth_user_of_def)
      then show ?thesis using that by blast
    next
      case False
      then show ?thesis using do_call that s1 by (auto simp: has_admin_def)
    qed
    have "is_admin (sv_db (snd (call_handler e r (Some a) c call s1))) j" using j by (rule call_handler_admin)
    then show ?thesis by (auto simp: authenticated_call_def m ac has_admin_def)
  qed
next
  case (do_login s e r body)
  then show ?case by (simp add: has_admin_def handleLogin_db)
next
  case (do_logout s e r)
  have "is_admin (snd (BumpTokenVersion q i d)) j" if "is_admin d j" for q i d j
    using that by (simp add: BumpTokenVersion_def is_admin_update keeps_user_updates)
  moreover obtain j where "is_admin (sv_db s) j" using do_logout unfolding has_admin_def by blast
  ultimately have "is_admin (sv_db (snd (handleLogout e r s))) j" by (simp add: handleLogout_def split: option.split)
  then show ?case unfolding has_admin_def by blast
next
  case (do_setup s e body)
  then have "db_users (sv_db s) \<noteq> []" by (auto simp: has_admin_def is_admin_def find_user_def)
  then show ?case using do_setup by (auto simp: handleSetup_def UserCount_def)
qed



subsection \<open>Who may change what\<close>

text \<open>
  The part of the tables a caller without the super admin role must leave alone: everyone's
  identity and role, the rows of the others, the grants, and the keys of the others (apart from
  their time of last use).
\<close>

definition key_core :: "APIKeyRecord \<Rightarrow> int \<times> int \<times> string \<times> string \<times> instant option" where
  "key_core k = (k_id k, k_user_id k, k_key_hash k, k_name k, k_expires_at k)"

definition protected_part :: "int \<Rightarrow> user_db \<Rightarrow>
    (int \<times> string \<times> string) list \<times> User list \<times> (int \<times> int) list \<times> (int \<times> int \<times> string \<times> string \<times> instant option) list" where
  "protected_part i d = (map (\<lambda>u. (u_id u, u_username u, u_role u)) (db_users d), filter (\<lambda>u. u_id u \<noteq> i) (db_users d),
     db_grants d, map key_core (filter (\<lambda>k. k_user_id k \<noteq> i) (db_keys d)))"

lemma protected_update:
  assumes "\<And>u. u_id (f u) = u_id u \<and> u_username (f u) = u_username u \<and> u_role (f u) = u_role u"
  shows "protected_part i (update_users i f d) = protected_part i d"
proof -
  have "filter (\<lambda>u. u_id u \<noteq> i) (map (\<lambda>u. if u_id u = i then f u else u) us) = filter (\<lambda>u. u_id u \<noteq> i) us" for us
    using assms by (induction us) auto
  moreover have "map (\<lambda>u. (u_id u, u_username u, u_role u)) (map (\<lambda>u. if u_id u = i then f u else u) us) = map (\<lambda>u. (u_id u, u_username u, u_role u)) us" for us
    using assms by auto
  ultimately show ?thesis by (simp add: protected_part_def) (simp add: update_users_def)
qed

lemma protected_last_used: "protected_part i (snd (GetAPIKeyByHash q h d)) = protected_part i d"
proof -
  have "map key_core (filter (\<lambda>k. k_user_id k \<noteq> i) (map (\<lambda>x. if P x then x\<lparr>k_last_used_at := t\<rparr> else x) ks)) =
      map key_core (filter (\<lambda>k. k_user_id k \<noteq> i) ks)" for P t ks
    by (induction ks) (auto simp: key_core_def)
  then show ?thesis by (simp add: GetAPIKeyByHash_def protected_part_def split: option.split)
qed

lemma protected_ops:
  "UpdateProfile q i dn em d = (x, d') \<Longrightarrow> protected_part i d' = protected_part i d"
  "UpdatePassword q i h d = (x, d') \<Longrightarrow> protected_part i d' = protected_part i d"
  "CreateAPIKey q i h n ex d = (y, d') \<Longrightarrow> protected_part i d' = protected_part i d"
  "i \<noteq> 0 \<Longrightarrow> DeleteAPIKey q k i d = (x, d') \<Longrightarrow> protected_part i d' = protected_part i d"
  subgoal by (auto simp: UpdateProfile_def update_user_def protected_update split: if_splits)
  subgoal by (auto simp: UpdatePassword_def update_user_def protected_update split: if_splits)
  subgoal by (auto simp: CreateAPIKey_def Let_def protected_part_def split: if_splits)
  subgoal
  proof -
    assume "i \<noteq> 0" "DeleteAPIKey q k i d = (x, d')"
    moreover have "filter (\<lambda>k. k_user_id k \<noteq> i) (filter (\<lambda>k'. \<not> (k_id k' = k \<and> (i = 0 \<or> k_user_id k' = i))) (db_keys d)) =
        filter (\<lambda>k. k_user_id k \<noteq> i) (db_keys d)"
      using \<open>i \<noteq> 0\<close> by (auto simp: filter_filter intro: filter_cong)
    ultimately show ?thesis by (auto simp: DeleteAPIKey_def Let_def protected_part_def split: if_splits)
  qed
  done

lemma authMiddleware_protected: "protected_part i (sv_db (snd (authMiddleware e r s))) = protected_part i (sv_db s)"
proof -
  have "GetAPIKeyByHash q h d = (x, d') \<Longrightarrow> protected_part i d' = protected_part i d" for q h d x d'
    using protected_last_used [of i q h d] by simp
  then show ?thesis
    by (auto simp: authMiddleware_def check_api_key_def Let_def split: option.split sum.split prod.split key_check.split)
qed

text \<open>
  Property C9. No request of a caller who is not a super admin changes an identity or a role, the
  account, the grants or the API keys of anyone else, or its own grants; the calls only a super admin
  may make are refused.
\<close>

theorem no_escalation:
  assumes "db_ok (sv_db s)" "fst (authMiddleware e r s) = Inr (a, c)" "Role a \<noteq> ''super_admin''"
  shows "protected_part (ID a) (sv_db (snd (authenticated_call e r call s))) = protected_part (ID a) (sv_db s)"
proof -
  obtain s1 where m: "authMiddleware e r s = (Inr (a, c), s1)" using assms(2) by (cases "authMiddleware e r s") auto
  have s1: "protected_part i (sv_db s1) = protected_part i (sv_db s)" for i using authMiddleware_protected [of i e r s] m by simp
  obtain u where u: "find_user (sv_db s) (ID a) = Some u" using authMiddleware_user [OF m] by blast
  then have "u \<in> set (db_users (sv_db s))" "u_id u = ID a" using find_user_in by blast+
  then have nz: "ID a \<noteq> 0" using assms(1) by (auto simp: db_ok_def users_ok_def list_all_iff)
  have no: "requireRole (Some a) [''super_admin''] = Inl (HttpError 403 ''forbidden'')" using assms(3) by (simp add: requireRole_def)
  have "protected_part (ID a) (sv_db (snd (call_handler e r (Some a) c call s1))) = protected_part (ID a) (sv_db s1)"
  proof (cases call)
    case (UpdateMeCall b)
    then show ?thesis
      by (auto simp: call_handler_def handleUpdateMe_def Let_def split: option.split sum.split prod.split intro: protected_ops)
  next
    case (ChangePasswordCall b)
    then show ?thesis
      by (auto simp: call_handler_def handleChangePassword_def Let_def split: option.split sum.split prod.split intro: protected_ops)
  next
    case (CreateAPIKeyCall b)
    then show ?thesis
      by (auto simp: call_handler_def handleCreateAPIKey_def Let_def split: option.split sum.split prod.split intro: protected_ops)
  next
    case DeleteAPIKeyCall
    then show ?thesis using assms(3) nz
      by (auto simp: call_handler_def handleDeleteAPIKey_def Let_def split: option.split sum.split prod.split intro: protected_ops)
  qed (simp_all add: call_handler_def handleCreateUser_def handleUpdateUser_def handleDeleteUser_def handleGrantAccess_def handleRevokeAccess_def no)
  then show ?thesis by (simp add: authenticated_call_def m s1)
qed

definition viewer_server :: Server where
  "viewer_server = example_server\<lparr>sv_db := snd (CreateUser calm_sql ''bob'' ''h'' ''viewer'' [] [] empty_db)\<rparr>"

theorem no_escalation_witness:
  "protected_part 1 (sv_db (snd (authenticated_call example_env example_api_request
      (CreateUserCall (Some \<lparr>cb_username = ''eve'', cb_password = ''12345678'', cb_role = ''super_admin'', cb_display_name = [], cb_email = []\<rparr>)) viewer_server)))
    = protected_part 1 (sv_db viewer_server)"
proof -
  have "db_ok (sv_db viewer_server)"
    by (simp add: viewer_server_def CreateUser_def calm_sql_def empty_db_def role_allowed_def Let_def db_ok_def users_ok_def keys_ok_def grants_ok_def)
  moreover have "\<exists>c. fst (authMiddleware example_env example_api_request viewer_server) = Inr (\<lparr>ID = 1, Username = ''bob'', Role = ''viewer''\<rparr>, c)"
    by (simp add: viewer_server_def CreateUser_def calm_sql_def empty_db_def role_allowed_def Let_def authMiddleware_def check_api_key_def bearer_token_def
        example_env_def example_api_request_def example_server_def header_get_def go_simps check_session_def GetUserByID_def find_user_def auth_user_of_def)
  ultimately show ?thesis using no_escalation [of viewer_server example_env example_api_request "\<lparr>ID = 1, Username = ''bob'', Role = ''viewer''\<rparr>"] by auto
qed

subsection \<open>Updating an account\<close>

lemma update_checks_error: "update_checks e caller i b s = Inl err \<Longrightarrow> \<exists>code msg. err = HttpError code msg"
proof -
  have ite: "(if P then Inl (HttpError n m) else z) = Inl err \<Longrightarrow> (z = Inl err \<Longrightarrow> \<exists>code msg. err = HttpError code msg) \<Longrightarrow>
      \<exists>code msg. err = HttpError code msg" for P n m and z :: "api_response + string"
    by (cases P) auto
  assume "update_checks e caller i b s = Inl err"
  then show ?thesis unfolding update_checks_def internal_error_def
    apply (elim ite)
    subgoal premises p
    proof (cases "ub_password b = []")
      case True
      then show ?thesis using p by simp
    next
      case False
      with p have q: "(if length (ub_password b) < 8 then Inl (HttpError 400 ''password must be at least 8 characters'')
        else if ub_current_password b = [] then Inl (HttpError 400 ''your password is required to reset passwords'')
        else case GetUserByID (ae_sql e) (ID caller) (sv_db s) of
          Inl _ \<Rightarrow> Inl (HttpError 500 ''Internal Server Error'')
        | Inr callerUser \<Rightarrow>
            if \<not> check_password e (u_password_hash callerUser) (ub_current_password b) then Inl (HttpError 400 ''your password is incorrect'')
            else case hash_password e (ub_password b) of None \<Rightarrow> Inl (HttpError 500 ''Internal Server Error'') | Some h \<Rightarrow> Inr h) = Inl err"
        by (simp only: if_False)
      then show ?thesis
        by (elim ite) (auto split: sum.splits if_splits option.splits)
    qed
    done
qed

lemma others_kept:
  assumes "keeps_user f"
  shows "filter (\<lambda>w. u_id w \<noteq> i) (db_users (update_users i f d)) = filter (\<lambda>w. u_id w \<noteq> i) (db_users d)"
proof -
  have "filter (\<lambda>w. u_id w \<noteq> i) (map (\<lambda>u. if u_id u = i then f u else u) us) = filter (\<lambda>w. u_id w \<noteq> i) us" for us
    using assms by (induction us) (auto simp: keeps_user_def)
  then show ?thesis by (simp add: update_users_def)
qed

definition updated_user :: "update_body \<Rightarrow> string \<Rightarrow> User \<Rightarrow> User" where
  "updated_user b h t =
     (let role = (if ub_role b = [] then u_role t else ub_role b) in
      t\<lparr>u_display_name := (case ub_display_name b of Some x \<Rightarrow> x | None \<Rightarrow> u_display_name t),
        u_email := (case ub_email b of Some x \<Rightarrow> x | None \<Rightarrow> u_email t),
        u_role := role,
        u_password_hash := (if h = [] then u_password_hash t else h),
        u_token_version := u_token_version t + (if role \<noteq> u_role t then 1 else 0) + (if h = [] then 0 else 1)\<rparr>)"

lemma update_writes_result:
  assumes "update_writes e i t b h d = (None, d')" "find_user d i = Some t" "ub_role b = [] \<or> role_allowed (ub_role b)"
  shows "find_user d' i = Some (updated_user b h t) \<and>
    filter (\<lambda>w. u_id w \<noteq> i) (db_users d') = filter (\<lambda>w. u_id w \<noteq> i) (db_users d)"
proof -
  let ?f1 = "if ub_display_name b \<noteq> None \<or> ub_email b \<noteq> None
    then (\<lambda>u. u\<lparr>u_display_name := (case ub_display_name b of None \<Rightarrow> u_display_name t | Some x \<Rightarrow> x),
           u_email := (case ub_email b of None \<Rightarrow> u_email t | Some x \<Rightarrow> x)\<rparr>) else id"
  let ?f2 = "if ub_role b \<noteq> [] \<and> ub_role b \<noteq> u_role t then (\<lambda>u. u\<lparr>u_role := ub_role b, u_token_version := u_token_version u + 1\<rparr>) else id"
  let ?f3 = "if h \<noteq> [] then (\<lambda>u. u\<lparr>u_password_hash := h, u_token_version := u_token_version u + 1\<rparr>) else id"
  have upd_id: "update_users j id d = d" for j d by (simp add: update_users_def id_def)
  have keep: "keeps_user ?f1" "keeps_user ?f2" "keeps_user ?f3"
    using assms(3) by (auto simp: keeps_user_updates) (auto simp: keeps_user_def)
  have d: "d' = update_users i ?f3 (update_users i ?f2 (update_users i ?f1 d))"
    using assms(1) by (auto simp: update_writes_def Let_def UpdateProfile_def UpdateUserRole_def UpdatePassword_def update_user_def upd_id split: if_splits)
  have "find_user d' i = Some (?f3 (?f2 (?f1 t)))"
    unfolding d using assms(2) by (simp only: find_user_update [OF keep(1)] find_user_update [OF keep(2)] find_user_update [OF keep(3)]) simp
  moreover have "?f3 (?f2 (?f1 t)) = updated_user b h t"
    unfolding updated_user_def Let_def by (cases "ub_display_name b"; cases "ub_email b"; simp)
  moreover have "filter (\<lambda>w. u_id w \<noteq> i) (db_users d') = filter (\<lambda>w. u_id w \<noteq> i) (db_users d)"
    unfolding d by (simp only: others_kept [OF keep(1)] others_kept [OF keep(2)] others_kept [OF keep(3)])
  ultimately show ?thesis by simp
qed

text \<open>A request that gets through all the checks and writes.\<close>

definition update_accepted :: "api_env \<Rightarrow> api_request \<Rightarrow> AuthUser option \<Rightarrow> update_body \<Rightarrow> User \<Rightarrow> string \<Rightarrow> user_db \<Rightarrow> Server \<Rightarrow> bool" where
  "update_accepted e r a b t h d s \<longleftrightarrow> parse_int64 (aq_path r ''id'') = Some (u_id t) \<and> find_user (sv_db s) (u_id t) = Some t \<and>
     \<not> sql_fails (ae_sql e) ''GetUserByID'' \<and>
     (\<exists>caller. requireRole a [''super_admin''] = Inr caller \<and> update_checks e caller (u_id t) b s = Inr h) \<and>
     update_writes e (u_id t) t b h (sv_db s) = (None, d)"

lemma update_refused:
  assumes "handleUpdateUser e r a c body s = (resp, s')" "\<And>b t h d. body = Some b \<Longrightarrow> \<not> update_accepted e r a b t h d s"
  shows "\<exists>code msg. resp = HttpError code msg \<and> (code = 500 \<or> s' = s)"
proof -
  have refused: ?thesis if "resp = HttpError code msg" "s' = s" for code msg using that by simp
  have failed: ?thesis if "resp = internal_error" using that by (simp add: internal_error_def)
  show ?thesis
  proof (cases "requireRole a [''super_admin'']")
    case (Inl err)
    then have "\<exists>code msg. err = HttpError code msg" by (auto simp: requireRole_def split: option.splits if_splits)
    then show ?thesis using Inl refused assms(1) by (auto simp: handleUpdateUser_def)
  next
    case role: (Inr caller)
    show ?thesis
    proof (cases "parse_int64 (aq_path r ''id'') = None \<or> body = None")
      case True
      then show ?thesis using refused assms(1) role by (auto simp: handleUpdateUser_def split: option.splits)
    next
      case False
      then obtain k b where kb: "parse_int64 (aq_path r ''id'') = Some k" "body = Some b" by auto
      show ?thesis
      proof (cases "GetUserByID (ae_sql e) k (sv_db s)")
        case (Inl err)
        then show ?thesis using failed refused assms(1) role kb by (auto simp: handleUpdateUser_def split: if_splits)
      next
        case get: (Inr t)
        then have t: "find_user (sv_db s) k = Some t" "\<not> sql_fails (ae_sql e) ''GetUserByID''"
          by (auto simp: GetUserByID_def split: if_splits option.splits)
        show ?thesis
        proof (cases "update_checks e caller k b s")
          case (Inl err)
          then have "resp = err" "s' = s" using assms(1) role kb get by (simp_all add: handleUpdateUser_def)
          then show ?thesis using update_checks_error [OF Inl] refused by blast
        next
          case (Inr h)
          obtain x d where w: "update_writes e k t b h (sv_db s) = (x, d)" by fastforce
          have "k = u_id t" using find_user_in [OF t(1)] by simp
          then have "x \<noteq> None" using assms(2) [OF kb(2), of t h d] w kb t role Inr by (auto simp: update_accepted_def)
          then show ?thesis using failed assms(1) role kb get Inr w by (auto simp: handleUpdateUser_def)
        qed
      qed
    qed
  qed
qed

text \<open>
  Updating an account is checked before anything is written: a request that is refused
  (any status but 500) changes nothing. One that succeeds gives the account exactly the fields it
  asked for and keeps the others; it ends the account's sessions when the role or the password
  changed and only then, and it leaves every other account as it was.
\<close>

theorem update_user_spec:
  assumes "handleUpdateUser e r a c body s = (resp, s')"
  shows "(case resp of
      UserBody code u \<Rightarrow> \<exists>b t h. body = Some b \<and> parse_int64 (aq_path r ''id'') = Some (u_id t) \<and> find_user (sv_db s) (u_id t) = Some t \<and>
        h = (if ub_password b = [] then [] else the (hash_password e (ub_password b))) \<and>
        u = toUserResponse (updated_user b h t) \<and> find_user (sv_db s') (u_id t) = Some (updated_user b h t) \<and>
        filter (\<lambda>w. u_id w \<noteq> u_id t) (db_users (sv_db s')) = filter (\<lambda>w. u_id w \<noteq> u_id t) (db_users (sv_db s))
    | HttpError code msg \<Rightarrow> code = 500 \<or> s' = s
    | _ \<Rightarrow> False)"
proof (cases "\<exists>b t h d. body = Some b \<and> update_accepted e r a b t h d s")
  case True
  then obtain b t h d caller where b: "body = Some b" "parse_int64 (aq_path r ''id'') = Some (u_id t)" "find_user (sv_db s) (u_id t) = Some t"
    "\<not> sql_fails (ae_sql e) ''GetUserByID''" "requireRole a [''super_admin''] = Inr caller" "update_checks e caller (u_id t) b s = Inr h"
    and w: "update_writes e (u_id t) t b h (sv_db s) = (None, d)" unfolding update_accepted_def by blast
  have h: "h = (if ub_password b = [] then [] else the (hash_password e (ub_password b)))"
    using b(6) by (auto simp: update_checks_def split: if_splits sum.splits option.splits)
  have "ub_role b = [] \<or> role_allowed (ub_role b)" using b(6) by (auto simp: update_checks_def validRole_def role_allowed_def split: if_splits)
  note res = update_writes_result [OF w b(3) this]
  then have r: "resp = UserBody 200 (toUserResponse (updated_user b h t))" "sv_db s' = d"
    using assms b w by (auto simp: handleUpdateUser_def GetUserByID_def)
  show ?thesis unfolding r api_response.case
    by (intro exI [of _ b] exI [of _ t] exI [of _ h] conjI b h refl conjunct1 [OF res] conjunct2 [OF res])
next
  case False
  then have no: "body = Some b \<Longrightarrow> \<not> update_accepted e r a b t h d s" for b t h d by blast
  have "\<exists>code msg. resp = HttpError code msg \<and> (code = 500 \<or> s' = s)" by (rule update_refused [OF assms no])
  then show ?thesis by (elim exE conjE) simp
qed

theorem update_user_spec_witness:
  "\<exists>s'. handleUpdateUser example_env (example_api_request\<lparr>aq_path := (\<lambda>_. ''1'')\<rparr>) (Some \<lparr>ID = 1, Username = ''ann'', Role = ''super_admin''\<rparr>) no_ctx
      (Some \<lparr>ub_display_name = None, ub_email = None, ub_role = ''viewer'', ub_password = [], ub_current_password = []\<rparr>) example_server
    = (HttpError 400 ''cannot change your own role'', s') \<and> s' = example_server"
proof -
  let ?r = "handleUpdateUser example_env (example_api_request\<lparr>aq_path := (\<lambda>_. ''1'')\<rparr>) (Some \<lparr>ID = 1, Username = ''ann'', Role = ''super_admin''\<rparr>) no_ctx
      (Some \<lparr>ub_display_name = None, ub_email = None, ub_role = ''viewer'', ub_password = [], ub_current_password = []\<rparr>) example_server"
  have "fst ?r = HttpError 400 ''cannot change your own role''"
    by (simp add: handleUpdateUser_def requireRole_def parse_int64_def atoi_def go_simps Let_def GetUserByID_def find_user_def example_server_def
        example_users_eq example_env_def calm_sql_def update_checks_def validRole_def max_i64_def)
  then obtain s' where r: "?r = (HttpError 400 ''cannot change your own role'', s')" by (cases ?r) auto
  from update_user_spec [OF r] show ?thesis using r by simp
qed

end
