(* ===== verification/ApiRoutes.thy ===== *)
theory ApiRoutes
  imports ApiUsers
begin

text \<open>
  internal/api/server.go and the rest of internal/api/middleware.go: the route table, the
  middlewares every route is wrapped in and the handler around the whole API. The table is kept in
  groups, in the order of the source; a route names its handler. Go's \<open>ServeMux\<close> is modelled by its
  documented rule: of the patterns that match a request the most specific one is taken.
\<close>

subsection \<open>Middlewares\<close>

text \<open>What a middleware answers, \<open>None\<close> when it calls the next handler.\<close>

definition appAccessMiddleware :: "api_env \<Rightarrow> api_request \<Rightarrow> AuthUser option \<Rightarrow> Server \<Rightarrow> api_response option" where
  "appAccessMiddleware e r a s =
     (case a of None \<Rightarrow> Some (HttpError 401 ''unauthorized'')
      | Some user \<Rightarrow>
          if Role user = ''super_admin'' then None
          else let slug = aq_path r ''slug'' in
            if slug = [] then None
            else if HasAppAccess (ae_sql e) (ID user) slug (sv_db s) then None
            else Some (HttpError 404 ''not found''))"

definition checkAppAccessByID :: "api_env \<Rightarrow> int \<Rightarrow> AuthUser option \<Rightarrow> Server \<Rightarrow> api_response option" where
  "checkAppAccessByID e appID a s =
     (case a of None \<Rightarrow> Some (HttpError 401 ''unauthorized'')
      | Some user \<Rightarrow>
          if Role user = ''super_admin'' then None
          else if HasAppAccessByID (ae_sql e) (ID user) appID (sv_db s) then None
          else Some (HttpError 404 ''not found''))"

definition mutatingAppMiddleware :: "api_env \<Rightarrow> api_request \<Rightarrow> AuthUser option \<Rightarrow> Server \<Rightarrow> api_response option" where
  "mutatingAppMiddleware e r a s =
     (case a of None \<Rightarrow> Some (HttpError 401 ''unauthorized'')
      | Some user \<Rightarrow>
          if Role user = ''super_admin'' then None
          else if Role user \<noteq> ''manage'' then Some (HttpError 403 ''forbidden'')
          else let slug = aq_path r ''slug'' in
            if slug = [] then None
            else if HasAppAccess (ae_sql e) (ID user) slug (sv_db s) then None
            else Some (HttpError 404 ''not found''))"

definition canMutateForApp :: "api_env \<Rightarrow> int option \<Rightarrow> AuthUser option \<Rightarrow> Server \<Rightarrow> api_response option" where
  "canMutateForApp e appID a s =
     (case a of None \<Rightarrow> Some (HttpError 401 ''unauthorized'')
      | Some user \<Rightarrow>
          if Role user = ''super_admin'' then None
          else if Role user \<noteq> ''manage'' then Some (HttpError 403 ''forbidden'')
          else case appID of
            None \<Rightarrow> Some (HttpError 403 ''forbidden: super_admin required for global rules'')
          | Some i \<Rightarrow> if HasAppAccessByID (ae_sql e) (ID user) i (sv_db s) then None else Some (HttpError 404 ''not found''))"

definition rateLimitMiddleware :: "api_env \<Rightarrow> api_request \<Rightarrow> Server \<Rightarrow> api_response option \<times> Server" where
  "rateLimitMiddleware e r s =
     (case sv_rateLimiter s of None \<Rightarrow> (None, s)
      | Some rl \<Rightarrow>
          let ip = RealIP (aq_http r) (sv_trustedProxies s);
              (ok, rl') = auth_Allow (sql_now (ae_sql e)) ip rl
          in (if ok then None else Some (HttpError 429 ''rate limit exceeded''), s\<lparr>sv_rateLimiter := Some rl'\<rparr>))"

definition superAdminMiddleware :: "AuthUser option \<Rightarrow> api_response option" where
  "superAdminMiddleware a =
     (case a of None \<Rightarrow> Some (HttpError 401 ''unauthorized'')
      | Some user \<Rightarrow> if Role user \<noteq> ''super_admin'' then Some (HttpError 403 ''forbidden: super_admin required'') else None)"

datatype middleware = Auth | AppAccess | MutatingApp | SuperAdmin | RateLimited

text \<open>The request on its way through the middlewares, with its user and audit context once it has them.\<close>

type_synonym identity = "AuthUser option \<times> audit_ctx"

definition apply_middleware ::
  "api_env \<Rightarrow> api_request \<Rightarrow> middleware \<Rightarrow> identity \<Rightarrow> Server \<Rightarrow> (api_response + identity) \<times> Server" where
  "apply_middleware e r m i s =
     (case m of
        Auth \<Rightarrow> (case authMiddleware e r s of (Inl err, s1) \<Rightarrow> (Inl err, s1) | (Inr (a, c), s1) \<Rightarrow> (Inr (Some a, c), s1))
      | AppAccess \<Rightarrow> (case appAccessMiddleware e r (fst i) s of None \<Rightarrow> Inr i | Some err \<Rightarrow> Inl err, s)
      | MutatingApp \<Rightarrow> (case mutatingAppMiddleware e r (fst i) s of None \<Rightarrow> Inr i | Some err \<Rightarrow> Inl err, s)
      | SuperAdmin \<Rightarrow> (case superAdminMiddleware (fst i) of None \<Rightarrow> Inr i | Some err \<Rightarrow> Inl err, s)
      | RateLimited \<Rightarrow> (case rateLimitMiddleware e r s of (None, s1) \<Rightarrow> (Inr i, s1) | (Some err, s1) \<Rightarrow> (Inl err, s1)))"

fun run_middlewares ::
  "api_env \<Rightarrow> api_request \<Rightarrow> middleware list \<Rightarrow> identity \<Rightarrow> Server \<Rightarrow> (api_response + identity) \<times> Server" where
  "run_middlewares e r [] i s = (Inr i, s)"
| "run_middlewares e r (m # ms) i s =
     (case apply_middleware e r m i s of (Inl err, s1) \<Rightarrow> (Inl err, s1) | (Inr i1, s1) \<Rightarrow> run_middlewares e r ms i1 s1)"

subsection \<open>Routes\<close>

text \<open>A route: its pattern, its middlewares from the outermost in, and its handler.\<close>

datatype api_route = Route string "middleware list" string

definition public_routes :: "api_route list" where
  "public_routes = [
    Route ''GET /api/health'' [] ''handleHealth'',
    Route ''POST /api/auth/login'' [] ''handleLogin'',
    Route ''POST /api/auth/logout'' [] ''handleLogout'',
    Route ''GET /api/setup/status'' [] ''handleSetupStatus'',
    Route ''POST /api/setup'' [] ''handleSetup'',
    Route ''GET /trust'' [] ''handleTrustPage'',
    Route ''GET /api/tls/ca.crt'' [] ''handleCACert'']"

definition account_routes :: "api_route list" where
  "account_routes = [
    Route ''GET /api/apps'' [Auth] ''handleListApps'',
    Route ''GET /api/apps/{slug}'' [Auth, AppAccess] ''handleGetApp'',
    Route ''GET /api/recipes/community'' [Auth] ''handleListRecipes'',
    Route ''GET /api/recipes/community/file'' [Auth] ''handleFetchRecipeFile'',
    Route ''GET /api/recipes/community/popularity'' [Auth, SuperAdmin] ''handleRecipePopularity'',
    Route ''GET /api/users'' [Auth] ''handleListUsers'',
    Route ''POST /api/users'' [Auth] ''handleCreateUser'',
    Route ''PUT /api/users/{id}'' [Auth] ''handleUpdateUser'',
    Route ''DELETE /api/users/{id}'' [Auth] ''handleDeleteUser'',
    Route ''GET /api/users/{id}/access'' [Auth] ''handleListUserAccess'',
    Route ''POST /api/users/{id}/access'' [Auth] ''handleGrantAccess'',
    Route ''DELETE /api/users/{id}/access/{slug}'' [Auth] ''handleRevokeAccess'',
    Route ''GET /api/me'' [Auth] ''handleGetMe'',
    Route ''PUT /api/me'' [Auth] ''handleUpdateMe'',
    Route ''PUT /api/me/password'' [Auth] ''handleChangePassword'',
    Route ''GET /api/apikeys'' [Auth] ''handleListAPIKeys'',
    Route ''POST /api/apikeys'' [Auth] ''handleCreateAPIKey'',
    Route ''DELETE /api/apikeys/{id}'' [Auth] ''handleDeleteAPIKey'']"

definition app_routes :: "api_route list" where
  "app_routes = [
    Route ''GET /api/metrics/system'' [Auth] ''handleSystemMetrics'',
    Route ''GET /api/apps/{slug}/metrics'' [Auth, AppAccess] ''handleAppMetrics'',
    Route ''GET /api/apps/{slug}/requests'' [Auth, AppAccess] ''handleAppRequests'',
    Route ''GET /api/apps/{slug}/deploy-logs'' [Auth, AppAccess] ''handleDeployLogs'',
    Route ''GET /api/apps/{slug}/logs'' [Auth, AppAccess] ''handleLogs'',
    Route ''POST /api/apps/deploy'' [Auth, SuperAdmin] ''handleDeploy'',
    Route ''POST /api/apps/validate-compose'' [Auth, SuperAdmin] ''handleValidateCompose'',
    Route ''DELETE /api/apps/{slug}'' [Auth, SuperAdmin] ''handleRemoveApp'',
    Route ''GET /api/apps/archived'' [Auth] ''handleListArchived'',
    Route ''POST /api/apps/{slug}/purge'' [Auth, SuperAdmin] ''handlePurge'',
    Route ''GET /api/apps/{slug}/compose'' [Auth, AppAccess] ''handleGetCompose'',
    Route ''GET /api/apps/{slug}/export'' [Auth, AppAccess] ''handleExportApp'',
    Route ''POST /api/apps/import'' [Auth, SuperAdmin] ''handleImportApp'',
    Route ''POST /api/apps/import/preview'' [Auth, SuperAdmin] ''handleImportAppPreview'',
    Route ''POST /api/apps/{slug}/restart'' [Auth, MutatingApp] ''handleRestart'',
    Route ''POST /api/apps/{slug}/stop'' [Auth, MutatingApp] ''handleStop'',
    Route ''POST /api/apps/{slug}/start'' [Auth, MutatingApp] ''handleStart'',
    Route ''POST /api/apps/{slug}/pull'' [Auth, MutatingApp] ''handlePull'',
    Route ''POST /api/apps/{slug}/scale'' [Auth, MutatingApp] ''handleScale'',
    Route ''GET /api/apps/{slug}/services'' [Auth, AppAccess] ''handleGetServices'',
    Route ''GET /api/apps/{slug}/env'' [Auth, AppAccess] ''handleGetEnv'',
    Route ''PUT /api/apps/{slug}/env'' [Auth, MutatingApp] ''handlePutEnv'',
    Route ''PUT /api/apps/{slug}/endpoints'' [Auth, MutatingApp] ''handleUpdateEndpoints'',
    Route ''PUT /api/apps/{slug}/certs/{domain}'' [Auth, MutatingApp] ''handleUploadCert'',
    Route ''DELETE /api/apps/{slug}/certs/{domain}'' [Auth, MutatingApp] ''handleDeleteCert'',
    Route ''PUT /api/apps/{slug}/access'' [Auth, MutatingApp] ''handleUpdateAccess'',
    Route ''POST /api/apps/{slug}/cancel'' [Auth, MutatingApp] ''handleCancel'',
    Route ''GET /api/apps/{slug}/versions'' [Auth, AppAccess] ''handleListVersions'',
    Route ''POST /api/apps/{slug}/rollback'' [Auth, MutatingApp] ''handleRollback'',
    Route ''DELETE /api/apps/{slug}/versions/{id}'' [Auth, MutatingApp] ''handleDeleteVersion'',
    Route ''GET /api/apps/{slug}/events'' [Auth, AppAccess] ''handleListDeployEvents'']"

definition rule_routes :: "api_route list" where
  "rule_routes = [
    Route ''GET /api/webhooks'' [Auth] ''handleListWebhooks'',
    Route ''POST /api/webhooks'' [Auth, SuperAdmin] ''handleCreateWebhook'',
    Route ''PUT /api/webhooks/{id}'' [Auth, SuperAdmin] ''handleUpdateWebhook'',
    Route ''DELETE /api/webhooks/{id}'' [Auth, SuperAdmin] ''handleDeleteWebhook'',
    Route ''POST /api/webhooks/test'' [Auth, SuperAdmin] ''handleTestWebhook'',
    Route ''GET /api/alerts/rules'' [Auth] ''handleListAlertRules'',
    Route ''POST /api/alerts/rules'' [Auth] ''handleCreateAlertRule'',
    Route ''PUT /api/alerts/rules/{id}'' [Auth] ''handleUpdateAlertRule'',
    Route ''DELETE /api/alerts/rules/{id}'' [Auth] ''handleDeleteAlertRule'',
    Route ''GET /api/alerts/history'' [Auth] ''handleListAlertHistory'',
    Route ''DELETE /api/alerts/history'' [Auth, SuperAdmin] ''handleClearAlertHistory'',
    Route ''GET /api/apps/{slug}/backups/configs'' [Auth, AppAccess] ''handleListBackupConfigs'',
    Route ''POST /api/apps/{slug}/backups/configs'' [Auth, MutatingApp] ''handleCreateBackupConfig'',
    Route ''PUT /api/backups/configs/{id}'' [Auth] ''handleUpdateBackupConfig'',
    Route ''DELETE /api/backups/configs/{id}'' [Auth] ''handleDeleteBackupConfig'',
    Route ''GET /api/apps/{slug}/backups/runs'' [Auth, AppAccess] ''handleListBackupRuns'',
    Route ''POST /api/apps/{slug}/backups/run'' [Auth, MutatingApp] ''handleTriggerBackup'',
    Route ''POST /api/backups/restore/{id}'' [Auth] ''handleRestore'',
    Route ''GET /api/backups/runs/{id}/download'' [Auth] ''handleDownloadBackup'',
    Route ''POST /api/apps/{slug}/backups/upload-restore'' [Auth, MutatingApp] ''handleUploadRestore'',
    Route ''GET /api/backups/summary'' [Auth] ''handleBackupSummary'',
    Route ''GET /api/apps/{slug}/backups/detect'' [Auth, AppAccess] ''handleDetectStrategies'',
    Route ''POST /api/backups/configs/{id}/run'' [Auth] ''handleTriggerBackupConfig'',
    Route ''POST /api/backups/test-s3'' [Auth, SuperAdmin] ''handleTestS3'',
    Route ''PUT /api/apps/{slug}/versions/{id}'' [Auth, MutatingApp] ''handleUpdateComposeVersion'',
    Route ''GET /api/apps/{slug}/versions/{id}/download'' [Auth, AppAccess] ''handleDownloadComposeVersion'',
    Route ''POST /api/apps/{slug}/versions/{id}/restore'' [Auth, MutatingApp] ''handleRestoreComposeVersion'']"

definition system_routes :: "api_route list" where
  "system_routes = [
    Route ''GET /api/docker/info'' [Auth, SuperAdmin] ''handleDockerInfo'',
    Route ''GET /api/docker/disk-usage'' [Auth, SuperAdmin] ''handleDockerDiskUsage'',
    Route ''POST /api/docker/prune/containers'' [Auth, SuperAdmin] ''handleDockerPruneContainers'',
    Route ''POST /api/docker/prune/images'' [Auth, SuperAdmin] ''handleDockerPruneImages'',
    Route ''POST /api/docker/prune/volumes'' [Auth, SuperAdmin] ''handleDockerPruneVolumes'',
    Route ''POST /api/docker/prune/build-cache'' [Auth, SuperAdmin] ''handleDockerPruneBuildCache'',
    Route ''POST /api/docker/prune/all'' [Auth, SuperAdmin] ''handleDockerPruneAll'',
    Route ''GET /api/docker/images'' [Auth, SuperAdmin] ''handleDockerImages'',
    Route ''DELETE /api/docker/images/{id}'' [Auth, SuperAdmin] ''handleDockerImageRemove'',
    Route ''GET /api/docker/networks'' [Auth, SuperAdmin] ''handleDockerNetworks'',
    Route ''GET /api/docker/volumes'' [Auth, SuperAdmin] ''handleDockerVolumes'',
    Route ''DELETE /api/docker/networks/{id}'' [Auth, SuperAdmin] ''handleDockerNetworkRemove'',
    Route ''DELETE /api/docker/volumes/{name}'' [Auth, SuperAdmin] ''handleDockerVolumeRemove'',
    Route ''GET /api/system/info'' [Auth, SuperAdmin] ''handleSystemInfo'',
    Route ''GET /api/system/storage-breakdown'' [Auth, SuperAdmin] ''handleStorageBreakdown'',
    Route ''POST /api/system/prune/metrics'' [Auth, SuperAdmin] ''handlePruneMetrics'',
    Route ''POST /api/system/prune/request-stats'' [Auth, SuperAdmin] ''handlePruneRequestMetrics'',
    Route ''POST /api/system/vacuum'' [Auth, SuperAdmin] ''handleVacuumDB'',
    Route ''GET /api/system/public-host'' [Auth] ''handleGetPublicHost'',
    Route ''PUT /api/system/public-host'' [Auth, SuperAdmin] ''handleSetPublicHost'',
    Route ''GET /api/events'' [Auth] ''handleEventsWS'',
    Route ''GET /api/system/process-logs'' [Auth] ''handleSystemLogs'',
    Route ''GET /api/system/process-logs/stream'' [Auth] ''handleSystemLogsWS'',
    Route ''POST /api/system/backup/download'' [Auth, SuperAdmin] ''handleDBBackupDownload'',
    Route ''GET /api/system/backup/config'' [Auth, SuperAdmin] ''handleGetDBBackupConfig'',
    Route ''POST /api/system/backup/config'' [Auth, SuperAdmin] ''handleSetDBBackupConfig'',
    Route ''GET /api/system/backup/runs'' [Auth, SuperAdmin] ''handleListDBBackupRuns'',
    Route ''GET /api/registries'' [Auth, SuperAdmin] ''handleListRegistries'',
    Route ''POST /api/registries'' [Auth, SuperAdmin] ''handleCreateRegistry'',
    Route ''PUT /api/registries/{id}'' [Auth, SuperAdmin] ''handleUpdateRegistry'',
    Route ''DELETE /api/registries/{id}'' [Auth, SuperAdmin] ''handleDeleteRegistry'',
    Route ''GET /api/activity/recent'' [Auth] ''handleRecentActivity'',
    Route ''GET /api/activity/{id}'' [Auth] ''handleGetActivity'',
    Route ''GET /api/activity'' [Auth] ''handleListActivity'',
    Route ''DELETE /api/activity'' [Auth, SuperAdmin] ''handlePurgeActivity'',
    Route ''GET /api/apps/{slug}/activity'' [Auth] ''handleAppActivity'',
    Route ''GET /api/system/audit-config'' [Auth, SuperAdmin] ''handleGetAuditConfig'',
    Route ''PUT /api/system/audit-config'' [Auth, SuperAdmin] ''handlePutAuditConfig'']"

definition git_routes :: "api_route list" where
  "git_routes = [
    Route ''GET /api/git/status'' [Auth, SuperAdmin] ''handleGitStatusSafe'',
    Route ''POST /api/git/sync-now'' [Auth, SuperAdmin, RateLimited] ''handleGitSyncNowSafe'',
    Route ''POST /api/git/webhook'' [RateLimited] ''handleGitWebhookSafe'',
    Route ''GET /api/git/config'' [Auth, SuperAdmin] ''handleGetGitConfig'',
    Route ''PUT /api/git/config'' [Auth, SuperAdmin] ''handlePutGitConfig'',
    Route ''POST /api/git/disable'' [Auth, SuperAdmin] ''handleDisableGitSync'',
    Route ''POST /api/git/test-connection'' [Auth, SuperAdmin, RateLimited] ''handleTestGitConnection'',
    Route ''POST /api/git/apply-pending'' [Auth, SuperAdmin, RateLimited] ''handleGitApplyPendingSafe'']"

definition api_routes :: "api_route list" where
  "api_routes = public_routes @ account_routes @ app_routes @ rule_routes @ system_routes @ git_routes"

subsection \<open>The mux\<close>

datatype seg = Lit string | Wild string

definition parse_seg :: "string \<Rightarrow> seg" where
  "parse_seg s = (if s \<noteq> [] \<and> hd s = CHR 0x7B then Wild (butlast (tl s)) else Lit s)"

definition parse_pattern :: "string \<Rightarrow> string \<times> seg list" where
  "parse_pattern p =
     (let ws = split_on CHR '' '' p in (hd ws, map parse_seg (tl (split_on CHR ''/'' (last ws)))))"

record mux_entry =
  me_method :: string
  me_segs :: "seg list"
  me_chain :: "middleware list"
  me_handler :: string

definition mux_entry_of :: "api_route \<Rightarrow> mux_entry" where
  "mux_entry_of rt = (case rt of Route p ms h \<Rightarrow>
     \<lparr>me_method = fst (parse_pattern p), me_segs = snd (parse_pattern p), me_chain = ms, me_handler = h\<rparr>)"

definition api_mux :: "mux_entry list" where
  "api_mux = map mux_entry_of api_routes"

text \<open>
  A path is the list of its decoded segments, \<open>[]\<close> last for a trailing slash; a wildcard takes one
  segment that is not empty. A pattern for GET matches HEAD too.
\<close>

fun seg_matches :: "seg \<Rightarrow> string \<Rightarrow> bool" where
  "seg_matches (Lit l) s = (l = s)"
| "seg_matches (Wild _) s = (s \<noteq> [])"

definition method_matches :: "string \<Rightarrow> string \<Rightarrow> bool" where
  "method_matches p m \<longleftrightarrow> p = m \<or> p = ''GET'' \<and> m = ''HEAD''"

definition entry_matches :: "string \<Rightarrow> string list \<Rightarrow> mux_entry \<Rightarrow> bool" where
  "entry_matches m segs en \<longleftrightarrow> method_matches (me_method en) m \<and> list_all2 seg_matches (me_segs en) segs"

fun seg_le :: "seg \<Rightarrow> seg \<Rightarrow> bool" where
  "seg_le (Lit a) (Lit b) = (a = b)"
| "seg_le (Lit a) (Wild _) = (a \<noteq> [])"
| "seg_le (Wild _) (Lit _) = False"
| "seg_le (Wild _) (Wild _) = True"

definition more_specific :: "mux_entry \<Rightarrow> mux_entry \<Rightarrow> bool" where
  "more_specific p q \<longleftrightarrow> list_all2 seg_le (me_segs p) (me_segs q)"

definition mux_lookup :: "mux_entry list \<Rightarrow> string \<Rightarrow> string list \<Rightarrow> mux_entry option" where
  "mux_lookup mux m segs =
     (let ms = filter (entry_matches m segs) mux in find (\<lambda>p. list_all (more_specific p) ms) ms)"

fun path_value :: "seg list \<Rightarrow> string list \<Rightarrow> string \<Rightarrow> string" where
  "path_value (Wild w # ps) (s # ss) name = (if w = name then s else path_value ps ss name)"
| "path_value (Lit _ # ps) (s # ss) name = path_value ps ss name"
| "path_value _ _ name = []"

datatype dispatched = NotRouted | Refused api_response | Reached string api_request identity

definition dispatch :: "api_env \<Rightarrow> string list \<Rightarrow> api_request \<Rightarrow> Server \<Rightarrow> dispatched \<times> Server" where
  "dispatch e segs r s =
     (case mux_lookup api_mux (Method (aq_http r)) segs of
        None \<Rightarrow> (NotRouted, s)
      | Some en \<Rightarrow>
          let r' = r\<lparr>aq_path := path_value (me_segs en) segs\<rparr> in
          (case run_middlewares e r' (me_chain en) (None, no_ctx) s of
             (Inl err, s1) \<Rightarrow> (Refused err, s1)
           | (Inr i, s1) \<Rightarrow> (Reached (me_handler en) r' i, s1)))"

subsection \<open>Around the mux\<close>

text \<open>The largest body a handler may read, 0 for no limit here.\<close>

definition pathBodyLimit :: "string \<Rightarrow> int" where
  "pathBodyLimit path =
     (if path = ''/api/apps/import'' \<or> path = ''/api/apps/import/preview'' then 0
      else if suffix ''/upload-restore'' path then 32 * 2 ^ 20
      else if sublist ''/certs/'' path then 256 * 2 ^ 10
      else 2 ^ 20)"

definition maxBodySize :: "http_request \<Rightarrow> int option" where
  "maxBodySize r =
     (if Method r \<noteq> ''GET'' \<and> Method r \<noteq> ''HEAD'' \<and> Method r \<noteq> ''OPTIONS'' \<and> pathBodyLimit (URL_Path r) > 0
      then Some (pathBodyLimit (URL_Path r)) else None)"

definition securityHeaders :: "http_request \<Rightarrow> Server \<Rightarrow> (string \<times> string) list" where
  "securityHeaders r s =
     [(''X-Frame-Options'', ''DENY''), (''X-Content-Type-Options'', ''nosniff''),
      (''Referrer-Policy'', ''strict-origin-when-cross-origin''),
      (''Permissions-Policy'', ''camera=(), microphone=(), geolocation=()'')] @
     (if RequestIsHTTPS r (sv_trustedProxies s) then [(''Strict-Transport-Security'', ''max-age=63072000'')] else [])"

text \<open>
  \<open>http.CrossOriginProtection\<close> with the trusted origins of the dashboard's domains. \<open>origin_host\<close> is
  the host of an Origin header, as the URL parser reads it.
\<close>

definition trusted_origins :: "string \<Rightarrow> string list \<Rightarrow> string list" where
  "trusted_origins tlsMode reserved =
     concat (map (\<lambda>d. map (\<lambda>scheme. scheme @ d) (if tlsMode = ''off'' then [''https://'', ''http://''] else [''https://''])) reserved)"

definition cross_origin_check :: "(string \<Rightarrow> string option) \<Rightarrow> string list \<Rightarrow> http_request \<Rightarrow> string option" where
  "cross_origin_check origin_host trusted r =
     (let site = header_get r ''Sec-Fetch-Site''; origin = header_get r ''Origin'' in
      if Method r \<in> {''GET'', ''HEAD'', ''OPTIONS''} then None
      else if site = ''same-origin'' \<or> site = ''none'' then None
      else if site \<noteq> [] then (if origin \<in> set trusted then None else Some ''cross-origin request detected from Sec-Fetch-Site header'')
      else if origin = [] then None
      else if origin_host origin = Some (Host r) then None
      else if origin \<in> set trusted then None
      else Some ''cross-origin request detected, and/or browser is out of date: Sec-Fetch-Site is missing, and Origin does not match Host'')"

record handled =
  hd_headers :: "(string \<times> string) list"
  hd_body_limit :: "int option"
  hd_result :: dispatched

definition Handler :: "api_env \<Rightarrow> (string \<Rightarrow> string option) \<Rightarrow> string list \<Rightarrow> string list \<Rightarrow> api_request \<Rightarrow> Server \<Rightarrow> handled \<times> Server" where
  "Handler e origin_host reserved segs r s =
     (let (res, s1) =
        (case cross_origin_check origin_host (trusted_origins (sv_tlsMode s) reserved) (aq_http r) of
           Some msg \<Rightarrow> (Refused (HttpError 403 msg), s)
         | None \<Rightarrow> dispatch e segs r s)
      in (\<lparr>hd_headers = securityHeaders (aq_http r) s, hd_body_limit = maxBodySize (aq_http r), hd_result = res\<rparr>, s1))"

subsection \<open>What the table says\<close>

definition public_handlers :: "string list" where
  "public_handlers = [''handleHealth'', ''handleLogin'', ''handleLogout'', ''handleSetupStatus'', ''handleSetup'',
     ''handleTrustPage'', ''handleCACert'', ''handleGitWebhookSafe'']"

text \<open>
  The handlers a viewer reaches with a writing request: his own account, and handlers that check the
  caller themselves (\<open>requireRole\<close>, \<open>canMutateForApp\<close>, \<open>checkAppAccessByID\<close>).
\<close>

definition open_writers :: "string list" where
  "open_writers = [''handleUpdateMe'', ''handleChangePassword'', ''handleCreateAPIKey'', ''handleDeleteAPIKey'',
     ''handleCreateUser'', ''handleUpdateUser'', ''handleDeleteUser'', ''handleGrantAccess'', ''handleRevokeAccess'',
     ''handleCreateAlertRule'', ''handleUpdateAlertRule'', ''handleDeleteAlertRule'',
     ''handleUpdateBackupConfig'', ''handleDeleteBackupConfig'', ''handleRestore'', ''handleTriggerBackupConfig'']"

fun login_chain :: "string \<Rightarrow> middleware list \<Rightarrow> bool" where
  "login_chain h (Auth # ms) = (Auth \<notin> set ms)"
| "login_chain h ms = (Auth \<notin> set ms \<and> h \<in> set public_handlers)"

definition login_first :: "mux_entry \<Rightarrow> bool" where
  "login_first en \<longleftrightarrow> login_chain (me_handler en) (me_chain en)"

fun named_unless :: "bool \<Rightarrow> string \<Rightarrow> bool" where
  "named_unless True h = True"
| "named_unless False h = (h \<in> set open_writers)"

definition role_for_writes :: "mux_entry \<Rightarrow> bool" where
  "role_for_writes en \<longleftrightarrow>
     named_unless (me_method en = ''GET'' \<or> Auth \<notin> set (me_chain en) \<or> SuperAdmin \<in> set (me_chain en) \<or> MutatingApp \<in> set (me_chain en)) (me_handler en)"

definition app_guarded :: "mux_entry \<Rightarrow> bool" where
  "app_guarded en \<longleftrightarrow>
     (case me_segs en of
        Lit a # Lit b # x # _ \<Rightarrow> a = ''api'' \<and> b = ''apps'' \<longrightarrow>
          me_handler en \<in> {''handleListArchived'', ''handleAppActivity''} \<or> SuperAdmin \<in> set (me_chain en) \<or>
          x = Wild ''slug'' \<and> (MutatingApp \<in> set (me_chain en) \<or> me_method en = ''GET'' \<and> AppAccess \<in> set (me_chain en))
      | Wild _ # _ \<Rightarrow> False | _ # Wild _ # _ \<Rightarrow> False | _ \<Rightarrow> True)"

lemma api_mux_login: "list_all login_first api_mux"
  by code_simp

lemma api_mux_roles: "list_all role_for_writes api_mux"
  by code_simp

lemma api_mux_apps: "list_all app_guarded api_mux"
  by code_simp

lemma mux_lookup_in: "mux_lookup mux m segs = Some en \<Longrightarrow> en \<in> set mux \<and> entry_matches m segs en"
  by (auto simp: mux_lookup_def Let_def find_Some_iff dest!: nth_mem)

lemma mux_lookup_static:
  "mux_lookup api_mux m segs = Some en \<Longrightarrow> login_first en \<and> role_for_writes en \<and> app_guarded en"
  using api_mux_login api_mux_roles api_mux_apps by (auto simp: list_all_iff dest: mux_lookup_in)

lemma app_guarded_app:
  assumes "app_guarded en" "me_segs en = p1 # p2 # p3 # ps" "seg_matches p1 ''api''" "seg_matches p2 ''apps''"
    and "me_handler en \<noteq> ''handleListArchived''" "me_handler en \<noteq> ''handleAppActivity''"
  shows "p1 = Lit ''api'' \<and> p2 = Lit ''apps'' \<and> (SuperAdmin \<in> set (me_chain en) \<or>
    p3 = Wild ''slug'' \<and> (MutatingApp \<in> set (me_chain en) \<or> me_method en = ''GET'' \<and> AppAccess \<in> set (me_chain en)))"
proof (cases p1)
  case (Lit a)
  show ?thesis
  proof (cases p2)
    fix b assume "p2 = Lit b"
    with Lit assms show ?thesis unfolding app_guarded_def by simp
  next
    fix b assume "p2 = Wild b"
    with Lit assms show ?thesis unfolding app_guarded_def by simp
  qed
next
  case (Wild a)
  with assms show ?thesis unfolding app_guarded_def by simp
qed

subsection \<open>What a request has passed when it reaches its handler\<close>

text \<open>The store as the middlewares see it: authentication and the limiter change no user, app or grant.\<close>

definition same_accounts :: "Server \<Rightarrow> Server \<Rightarrow> bool" where
  "same_accounts s t \<longleftrightarrow> db_users (sv_db s) = db_users (sv_db t) \<and> db_apps (sv_db s) = db_apps (sv_db t) \<and>
     db_grants (sv_db s) = db_grants (sv_db t)"

lemma HasAppAccess_same:
  assumes "same_accounts s t"
  shows "HasAppAccess q i slug (sv_db s) = HasAppAccess q i slug (sv_db t)"
proof -
  from assms have eq: "db_users (sv_db s) = db_users (sv_db t)" "db_apps (sv_db s) = db_apps (sv_db t)"
      "db_grants (sv_db s) = db_grants (sv_db t)"
    by (simp_all add: same_accounts_def)
  show ?thesis unfolding HasAppAccess_def find_user_def eq ..
qed

lemma GetAPIKeyByHash_same:
  "db_users (snd (GetAPIKeyByHash q h d)) = db_users d \<and> db_apps (snd (GetAPIKeyByHash q h d)) = db_apps d \<and>
   db_grants (snd (GetAPIKeyByHash q h d)) = db_grants d"
  by (auto simp: GetAPIKeyByHash_def Let_def split: option.split)

lemma authMiddleware_same: "same_accounts s (snd (authMiddleware e r s))"
proof -
  have "same_accounts s (snd (check_api_key e r s))"
    using GetAPIKeyByHash_same
    by (auto simp: same_accounts_def check_api_key_def Let_def split: option.split prod.split sum.split) (metis snd_conv)+
  then show ?thesis by (auto simp: authMiddleware_def Let_def split: prod.split key_check.split option.split)
qed

lemma apply_middleware_same: "same_accounts s (snd (apply_middleware e r m i s))"
  using authMiddleware_same [of s e r]
  by (cases m) (auto simp: apply_middleware_def same_accounts_def rateLimitMiddleware_def Let_def
      split: prod.split sum.split option.split)

text \<open>Middlewares after the first one leave the caller as he is.\<close>

lemma apply_middleware_identity:
  "m \<noteq> Auth \<Longrightarrow> fst (apply_middleware e r m i s) = Inr j \<Longrightarrow> j = i"
  by (cases m) (auto simp: apply_middleware_def split: prod.splits sum.splits option.splits)

lemma same_accounts_trans: "same_accounts s t \<Longrightarrow> same_accounts t u \<Longrightarrow> same_accounts s u"
  by (simp add: same_accounts_def)

text \<open>A middleware lets a caller pass, in a state with the same accounts.\<close>

definition passes :: "api_env \<Rightarrow> api_request \<Rightarrow> identity \<Rightarrow> Server \<Rightarrow> middleware \<Rightarrow> bool" where
  "passes e r i s m \<longleftrightarrow> (\<exists>t. same_accounts s t \<and> fst (apply_middleware e r m i t) = Inr i)"

lemma passes_trans: "same_accounts s s1 \<Longrightarrow> list_all (passes e r i s1) ms \<Longrightarrow> list_all (passes e r i s) ms"
  unfolding list_all_iff passes_def by (blast intro: same_accounts_trans)

lemma run_middlewares_same: "same_accounts s (snd (run_middlewares e r ms i s))"
proof (induction ms arbitrary: i s)
  case (Cons m ms)
  show ?case
    using apply_middleware_same [of s e r m i] Cons.IH same_accounts_trans
    by (auto split: prod.split sum.split)
qed (simp add: same_accounts_def)

text \<open>A request that gets through a chain without \<open>Auth\<close> has passed each of its middlewares.\<close>

lemma run_middlewares_passed:
  assumes "Auth \<notin> set ms" "fst (run_middlewares e r ms i s) = Inr j"
  shows "j = i \<and> list_all (passes e r i s) ms"
  using assms
proof (induction ms arbitrary: s)
  case (Cons m ms)
  obtain x s1 where a: "apply_middleware e r m i s = (x, s1)" by fastforce
  with Cons.prems obtain i1 where x: "x = Inr i1" by (cases x) auto
  have i1: "i1 = i" using apply_middleware_identity [of m e r i s i1] Cons.prems(1) a x by auto
  have same: "same_accounts s s1" using apply_middleware_same [of s e r m i] a by simp
  have IH: "j = i \<and> list_all (passes e r i s1) ms"
    using Cons.prems a x i1 by (intro Cons.IH) simp_all
  then have "list_all (passes e r i s) ms"
    using passes_trans [OF same] by blast
  moreover have "passes e r i s m" unfolding passes_def using a x i1 by (intro exI [of _ s]) (simp add: same_accounts_def)
  ultimately show ?case using IH by auto
qed simp

lemma passed_app:
  assumes "same_accounts s t" "Role u \<noteq> ''super_admin''" "aq_path r ''slug'' \<noteq> []"
  shows "fst (apply_middleware e r AppAccess (Some u, c) t) = Inr (Some u, c) \<Longrightarrow>
      HasAppAccess (ae_sql e) (ID u) (aq_path r ''slug'') (sv_db s)"
    and "fst (apply_middleware e r MutatingApp (Some u, c) t) = Inr (Some u, c) \<Longrightarrow>
      Role u = ''manage'' \<and> HasAppAccess (ae_sql e) (ID u) (aq_path r ''slug'') (sv_db s)"
    and "fst (apply_middleware e r SuperAdmin (Some u, c) t) \<noteq> Inr (Some u, c)"
  using assms(2,3) HasAppAccess_same [OF assms(1)]
  by (auto simp: apply_middleware_def appAccessMiddleware_def mutatingAppMiddleware_def superAdminMiddleware_def Let_def
      split: if_splits)

lemma authMiddleware_path: "authMiddleware e (r\<lparr>aq_path := f\<rparr>) s = authMiddleware e r s"
proof -
  have parts: "check_api_key e (r\<lparr>aq_path := f\<rparr>) t = check_api_key e r t" "check_session e (r\<lparr>aq_path := f\<rparr>) t = check_session e r t"
      "user_ctx u src (r\<lparr>aq_path := f\<rparr>) t = user_ctx u src r t" for t u src
    by (simp_all add: check_api_key_def check_session_def bearer_token_def user_ctx_def)
  show ?thesis unfolding authMiddleware_def parts ..
qed

lemma dispatch_Reached:
  assumes "fst (dispatch e segs r s) = Reached h r' i"
  obtains en where "mux_lookup api_mux (Method (aq_http r)) segs = Some en" "h = me_handler en"
    "r' = r\<lparr>aq_path := path_value (me_segs en) segs\<rparr>" "fst (run_middlewares e r' (me_chain en) (None, no_ctx) s) = Inr i"
  using assms by (auto simp: dispatch_def Let_def split: option.splits prod.splits sum.splits)

text \<open>A request that has a user, or is at a handler that is not public, has passed a chain that starts with \<open>Auth\<close>.\<close>

lemma login_first_cases:
  assumes "login_first en" "fst (run_middlewares e r (me_chain en) (None, c) s) = Inr i"
    and "me_handler en \<notin> set public_handlers \<or> fst i \<noteq> None"
  shows "me_chain en = Auth # tl (me_chain en) \<and> Auth \<notin> set (tl (me_chain en))"
proof (cases "\<exists>ms. me_chain en = Auth # ms")
  case True
  then show ?thesis using assms(1) by (auto simp: login_first_def)
next
  case False
  then have "Auth \<notin> set (me_chain en)" "me_handler en \<in> set public_handlers"
    using assms(1) unfolding login_first_def by (cases "(me_handler en, me_chain en)" rule: login_chain.cases; simp)+
  with run_middlewares_passed [OF this(1) assms(2)] assms(3) show ?thesis by simp
qed

lemma dispatch_authenticated:
  assumes "fst (dispatch e segs r s) = Reached h r' i" "h \<notin> set public_handlers \<or> fst i \<noteq> None"
  obtains en u where "mux_lookup api_mux (Method (aq_http r)) segs = Some en" "h = me_handler en"
    "r' = r\<lparr>aq_path := path_value (me_segs en) segs\<rparr>" "i = (Some u, snd i)"
    "fst (authMiddleware e r s) = Inr (u, snd i)"
    "list_all (passes e r' i s) (tl (me_chain en))"
    "me_chain en = Auth # tl (me_chain en)"
proof -
  from assms(1) obtain en where en: "mux_lookup api_mux (Method (aq_http r)) segs = Some en" "h = me_handler en"
      "r' = r\<lparr>aq_path := path_value (me_segs en) segs\<rparr>" "fst (run_middlewares e r' (me_chain en) (None, no_ctx) s) = Inr i"
    by (rule dispatch_Reached)
  have "login_first en" using mux_lookup_static [OF en(1)] ..
  from login_first_cases [OF this en(4)] assms(2) en(2)
  have ch: "me_chain en = Auth # tl (me_chain en)" "Auth \<notin> set (tl (me_chain en))" by simp_all
  have am: "authMiddleware e r' s = authMiddleware e r s" by (simp add: en(3) authMiddleware_path)
  obtain x s1 where a: "authMiddleware e r s = (x, s1)" by fastforce
  have run: "fst (run_middlewares e r' (Auth # tl (me_chain en)) (None, no_ctx) s) = Inr i"
    by (rule subst [OF ch(1), where P = "\<lambda>l. fst (run_middlewares e r' l (None, no_ctx) s) = Inr i"]) (rule en(4))
  then obtain u c where x: "x = Inr (u, c)" using a am by (cases x) (auto simp: apply_middleware_def)
  have rest: "fst (run_middlewares e r' (tl (me_chain en)) (Some u, c) s1) = Inr i"
    using run a am x by (simp add: apply_middleware_def)
  from run_middlewares_passed [OF ch(2) rest] have p: "i = (Some u, c)"
      "list_all (passes e r' i s1) (tl (me_chain en))"
    by auto
  have "same_accounts s s1" using authMiddleware_same [of s e r] a by simp
  then have "list_all (passes e r' i s) (tl (me_chain en))"
    using passes_trans p(2) by blast
  with that [of en u] show thesis using en(1-3) p(1) a x ch(1) by simp
qed

text \<open>
  Property C27. Apart from the login, setup, health and trust pages and the git webhook, no handler
  of the API runs for a request that does not carry a live API key or a live session of a user in
  the table, and it runs as that user, with the role the table has.
\<close>

theorem api_needs_login:
  assumes "db_ok (sv_db s)" "sql_calm e"
    and "fst (dispatch e segs r s) = Reached h r' i" "h \<notin> set public_handlers"
  shows "\<exists>u \<in> set (db_users (sv_db s)). fst i = Some (auth_user_of u) \<and> (live_key e r s u \<or> live_session e r s u)"
proof -
  have "h \<notin> set public_handlers \<or> fst i \<noteq> None" using assms(4) ..
  with assms(3) obtain en a where "i = (Some a, snd i)" "fst (authMiddleware e r s) = Inr (a, snd i)"
    by (rule dispatch_authenticated)
  then show ?thesis using authMiddleware_iff [OF assms(1,2), of r a] by (metis fst_conv)
qed


text \<open>
  A viewer reaches no handler with a writing request except those of his own account
  and those that check the caller's role themselves: every other writing route of the API stops him.
\<close>

theorem viewer_writes:
  assumes "fst (dispatch e segs r s) = Reached h r' (Some u, c)"
    and "Method (aq_http r) \<noteq> ''GET''" "Method (aq_http r) \<noteq> ''HEAD''" "Role u \<noteq> ''super_admin''" "Role u \<noteq> ''manage''"
  shows "h \<in> set open_writers"
proof -
  have np: "h \<notin> set public_handlers \<or> fst (Some u, c) \<noteq> None" by simp
  from assms(1) np obtain en where en: "mux_lookup api_mux (Method (aq_http r)) segs = Some en" "h = me_handler en"
      "list_all (passes e r' (Some u, c) s) (tl (me_chain en))" "me_chain en = Auth # tl (me_chain en)"
    by (rule dispatch_authenticated)
  have auth: "set (me_chain en) = insert Auth (set (tl (me_chain en)))"
    using arg_cong [OF en(4), of set] unfolding list.set .
  have "\<not> passes e r' (Some u, c) s m" if "m = SuperAdmin \<or> m = MutatingApp" for m
    using that assms(4,5)
    by (auto simp: passes_def apply_middleware_def superAdminMiddleware_def mutatingAppMiddleware_def)
  then have no: "SuperAdmin \<notin> set (me_chain en)" "MutatingApp \<notin> set (me_chain en)"
    using en(3) unfolding auth list_all_iff by auto
  have get: "me_method en \<noteq> ''GET''"
    using mux_lookup_in [OF en(1)] assms(2,3) by (auto simp: entry_matches_def method_matches_def)
  have "role_for_writes en" using mux_lookup_static [OF en(1)] by simp
  then show ?thesis using no get auth en(2) by (simp add: role_for_writes_def)
qed

subsection \<open>Examples\<close>

definition manage_server :: Server where
  "manage_server = example_server\<lparr>sv_db := (snd (CreateUser calm_sql ''bob'' ''h'' ''manage'' [] [] empty_db))
     \<lparr>db_apps := [\<lparr>ar_id = 7, ar_slug = ''web''\<rparr>], db_apps_seq := 7, db_grants := [(1, 7)]\<rparr>\<rparr>"

definition api_post :: api_request where
  "api_post = example_api_request\<lparr>aq_http := (aq_http example_api_request)\<lparr>Method := ''POST''\<rparr>\<rparr>"

lemma mux_examples:
  "mux_lookup api_mux ''GET'' [''api'', ''users''] =
     Some \<lparr>me_method = ''GET'', me_segs = [Lit ''api'', Lit ''users''], me_chain = [Auth], me_handler = ''handleListUsers''\<rparr>"
  "mux_lookup api_mux ''POST'' [''api'', ''apps'', ''web'', ''restart''] =
     Some \<lparr>me_method = ''POST'', me_segs = [Lit ''api'', Lit ''apps'', Wild ''slug'', Lit ''restart''], me_chain = [Auth, MutatingApp], me_handler = ''handleRestart''\<rparr>"
  "mux_lookup api_mux ''POST'' [''api'', ''apikeys''] =
     Some \<lparr>me_method = ''POST'', me_segs = [Lit ''api'', Lit ''apikeys''], me_chain = [Auth], me_handler = ''handleCreateAPIKey''\<rparr>"
  by code_simp+

lemmas example_dispatch = dispatch_def Let_def apply_middleware_def authMiddleware_def check_api_key_def bearer_token_def
  example_env_def example_api_request_def api_post_def example_server_def header_get_def go_simps check_session_def GetUserByID_def
  find_user_def auth_user_of_def calm_sql_def

theorem api_needs_login_witness:
  "\<exists>u \<in> set (db_users (sv_db example_server)). auth_user_of u = \<lparr>ID = 1, Username = ''ann'', Role = ''super_admin''\<rparr> \<and>
     (live_key example_env example_api_request example_server u \<or> live_session example_env example_api_request example_server u)"
proof -
  have "db_ok (sv_db example_server)" "sql_calm example_env"
    by (simp_all add: example_server_def example_users_eq sql_calm_def example_env_def calm_sql_def)
  moreover have "\<exists>r' c. fst (dispatch example_env [''api'', ''users''] example_api_request example_server) =
      Reached ''handleListUsers'' r' (Some \<lparr>ID = 1, Username = ''ann'', Role = ''super_admin''\<rparr>, c)"
    using mux_examples(1) by (simp add: example_dispatch example_users_eq)
  moreover have "''handleListUsers'' \<notin> set public_handlers" by (simp add: public_handlers_def)
  ultimately show ?thesis using api_needs_login by fastforce
qed


theorem viewer_writes_witness:
  "(\<exists>r' c. fst (dispatch example_env [''api'', ''apikeys''] api_post viewer_server) =
      Reached ''handleCreateAPIKey'' r' (Some \<lparr>ID = 1, Username = ''bob'', Role = ''viewer''\<rparr>, c)) \<and>
   ''handleCreateAPIKey'' \<in> set open_writers"
proof -
  have d: "\<exists>r' c. fst (dispatch example_env [''api'', ''apikeys''] api_post viewer_server) =
      Reached ''handleCreateAPIKey'' r' (Some \<lparr>ID = 1, Username = ''bob'', Role = ''viewer''\<rparr>, c)"
    using mux_examples(3) by (simp add: example_dispatch viewer_server_def CreateUser_def empty_db_def role_allowed_def)
  then obtain r' c where "fst (dispatch example_env [''api'', ''apikeys''] api_post viewer_server) =
      Reached ''handleCreateAPIKey'' r' (Some \<lparr>ID = 1, Username = ''bob'', Role = ''viewer''\<rparr>, c)" by blast
  from viewer_writes [OF this] d show ?thesis by (simp add: api_post_def)
qed

end
