(* ===== verification/DeployLog.thy ===== *)
theory DeployLog
  imports Prelude
begin

text \<open>
  internal/deployer/tracker.go: the log of a running deploy with its subscribers, and the tracker
  that lets one deploy per app run at a time. A subscriber's channel keeps the lines it has read and
  the ones still in its buffer; a send to a full channel drops the line, as the code's \<open>select\<close> with
  a default does. Each method holds its lock, so it is one step.
\<close>

record ServiceState =
  ss_Service :: string
  ss_State :: string
  ss_Health :: string
  ss_RestartCount :: int
  ss_ExitCode :: int

record OutputLine =
  ol_Line :: string
  ol_Stream :: string
  ol_Done :: bool
  ol_Action :: string
  ol_Status :: string
  ol_Services :: "ServiceState list"

definition output_line :: "string \<Rightarrow> string \<Rightarrow> OutputLine" where
  "output_line text stream = \<lparr>ol_Line = text, ol_Stream = stream, ol_Done = False, ol_Action = [], ol_Status = [], ol_Services = []\<rparr>"

subsection \<open>Channels\<close>

record line_chan =
  ch_read :: "OutputLine list"
  ch_buf :: "OutputLine list"
  ch_closed :: bool

definition chan_cap :: nat where
  "chan_cap = 200"

definition try_send :: "OutputLine \<Rightarrow> line_chan \<Rightarrow> line_chan" where
  "try_send l c = (if length (ch_buf c) < chan_cap then c\<lparr>ch_buf := ch_buf c @ [l]\<rparr> else c)"

definition recv :: "line_chan \<Rightarrow> line_chan" where
  "recv c = (case ch_buf c of [] \<Rightarrow> c | l # ls \<Rightarrow> c\<lparr>ch_read := ch_read c @ [l], ch_buf := ls\<rparr>)"

text \<open>All a subscriber got, read or still buffered.\<close>

definition ch_got :: "line_chan \<Rightarrow> OutputLine list" where
  "ch_got c = ch_read c @ ch_buf c"

subsection \<open>The log\<close>

record DeployLog =
  dl_history :: "OutputLine list"
  dl_chans :: "line_chan list"
  dl_subs :: "nat list"
  dl_closed :: bool

definition newDeployLog :: DeployLog where
  "newDeployLog = \<lparr>dl_history = [], dl_chans = [], dl_subs = [], dl_closed = False\<rparr>"

definition maxHistory :: nat where
  "maxHistory = 10000"

text \<open>Replay of the history, then, unless the log is closed, the channel is subscribed. The result is its number.\<close>

definition Subscribe :: "DeployLog \<Rightarrow> nat \<times> DeployLog" where
  "Subscribe dl =
     (let n = length (dl_chans dl);
          c = fold try_send (dl_history dl) \<lparr>ch_read = [], ch_buf = [], ch_closed = dl_closed dl\<rparr>
      in (n, dl\<lparr>dl_chans := dl_chans dl @ [c], dl_subs := (if dl_closed dl then dl_subs dl else dl_subs dl @ [n])\<rparr>))"

definition Unsubscribe :: "nat \<Rightarrow> DeployLog \<Rightarrow> DeployLog" where
  "Unsubscribe n dl = dl\<lparr>dl_subs := remove1 n (dl_subs dl)\<rparr>"

definition to_subs :: "(line_chan \<Rightarrow> line_chan) \<Rightarrow> DeployLog \<Rightarrow> line_chan list" where
  "to_subs f dl = map (\<lambda>(n, c). if n \<in> set (dl_subs dl) then f c else c) (enumerate 0 (dl_chans dl))"

definition Send :: "OutputLine \<Rightarrow> DeployLog \<Rightarrow> DeployLog" where
  "Send l dl =
     (if dl_closed dl then dl
      else let h = dl_history dl @ [l] in
        dl\<lparr>dl_history := (if length h > maxHistory then drop (length h - maxHistory) h else h),
           dl_chans := to_subs (try_send l) dl\<rparr>)"

definition done_line :: "string \<Rightarrow> string \<Rightarrow> ServiceState list \<Rightarrow> OutputLine" where
  "done_line action status services =
     \<lparr>ol_Line = [], ol_Stream = [], ol_Done = True, ol_Action = action, ol_Status = status, ol_Services = services\<rparr>"

definition CloseWith :: "string \<Rightarrow> string \<Rightarrow> ServiceState list \<Rightarrow> DeployLog \<Rightarrow> DeployLog" where
  "CloseWith action status services dl =
     (if dl_closed dl then dl
      else let l = done_line action status services in
        dl\<lparr>dl_closed := True, dl_history := dl_history dl @ [l],
           dl_chans := to_subs (\<lambda>c. (try_send l c)\<lparr>ch_closed := True\<rparr>) dl\<rparr>)"

definition log_recv :: "nat \<Rightarrow> DeployLog \<Rightarrow> DeployLog" where
  "log_recv n dl = (if n < length (dl_chans dl) then dl\<lparr>dl_chans := (dl_chans dl)[n := recv (dl_chans dl ! n)]\<rparr> else dl)"

subsection \<open>The tracker\<close>

text \<open>Flights are the apps with a cancellable deploy, logs the apps with an open log; a cancel is only counted.\<close>

record Tracker =
  tr_flights :: "string list"
  tr_logs :: "(string \<times> DeployLog) list"
  tr_cancelled :: "string list"

definition NewTracker :: Tracker where
  "NewTracker = \<lparr>tr_flights = [], tr_logs = [], tr_cancelled = []\<rparr>"

definition tracker_Cancel :: "string \<Rightarrow> Tracker \<Rightarrow> bool \<times> Tracker" where
  "tracker_Cancel slug t =
     (if slug \<notin> set (tr_flights t) then (False, t)
      else (True, t\<lparr>tr_flights := removeAll slug (tr_flights t), tr_cancelled := tr_cancelled t @ [slug]\<rparr>))"

definition IsDeploying :: "string \<Rightarrow> Tracker \<Rightarrow> bool" where
  "IsDeploying slug t \<longleftrightarrow> slug \<in> set (tr_flights t)"

text \<open>False when another deploy of the app has its log open.\<close>

definition TrackWithLog :: "string \<Rightarrow> Tracker \<Rightarrow> bool \<times> Tracker" where
  "TrackWithLog slug t =
     (if map_of (tr_logs t) slug \<noteq> None then (False, t)
      else (True, t\<lparr>tr_flights := slug # removeAll slug (tr_flights t), tr_logs := (slug, newDeployLog) # tr_logs t\<rparr>))"

text \<open>The log leaves the tracker closed; the result is that log, for its subscribers.\<close>

definition DoneWithLogStatus :: "string \<Rightarrow> string \<Rightarrow> string \<Rightarrow> ServiceState list \<Rightarrow> Tracker \<Rightarrow> DeployLog option \<times> Tracker" where
  "DoneWithLogStatus slug action status services t =
     (map_option (CloseWith action status services) (map_of (tr_logs t) slug),
      t\<lparr>tr_flights := removeAll slug (tr_flights t), tr_logs := filter (\<lambda>p. fst p \<noteq> slug) (tr_logs t)\<rparr>)"

definition tracker_Send :: "string \<Rightarrow> OutputLine \<Rightarrow> Tracker \<Rightarrow> Tracker" where
  "tracker_Send slug l t = t\<lparr>tr_logs := map (\<lambda>(s, dl). (s, if s = slug then Send l dl else dl)) (tr_logs t)\<rparr>"

definition tracker_Subscribe :: "string \<Rightarrow> Tracker \<Rightarrow> nat option \<times> Tracker" where
  "tracker_Subscribe slug t =
     (case map_of (tr_logs t) slug of
        None \<Rightarrow> (None, t)
      | Some dl \<Rightarrow> let (n, dl') = Subscribe dl in
          (Some n, t\<lparr>tr_logs := map (\<lambda>(s, d). (s, if s = slug then dl' else d)) (tr_logs t)\<rparr>))"

subsection \<open>What a subscriber gets\<close>

datatype log_event = LogSend OutputLine | LogClose string string "ServiceState list" | LogSubscribe | LogUnsubscribe nat | LogRecv nat

fun log_step :: "log_event \<Rightarrow> DeployLog \<Rightarrow> DeployLog" where
  "log_step (LogSend l) dl = Send l dl"
| "log_step (LogClose a s v) dl = CloseWith a s v dl"
| "log_step LogSubscribe dl = snd (Subscribe dl)"
| "log_step (LogUnsubscribe n) dl = Unsubscribe n dl"
| "log_step (LogRecv n) dl = log_recv n dl"

text \<open>No subscriber is a full buffer behind, and nobody joins after more lines than a buffer holds.\<close>

definition subs_roomy :: "DeployLog \<Rightarrow> bool" where
  "subs_roomy dl \<longleftrightarrow> list_all (\<lambda>n. length (ch_buf (dl_chans dl ! n)) < chan_cap) (dl_subs dl)"

fun step_roomy :: "log_event \<Rightarrow> DeployLog \<Rightarrow> bool" where
  "step_roomy (LogSend l) dl \<longleftrightarrow> subs_roomy dl \<and> length (dl_history dl) < maxHistory"
| "step_roomy (LogClose a s v) dl \<longleftrightarrow> subs_roomy dl"
| "step_roomy LogSubscribe dl \<longleftrightarrow> length (dl_history dl) \<le> chan_cap"
| "step_roomy _ dl \<longleftrightarrow> True"

fun log_run :: "log_event list \<Rightarrow> DeployLog \<Rightarrow> DeployLog" where
  "log_run [] dl = dl"
| "log_run (ev # evs) dl = log_run evs (log_step ev dl)"

fun run_roomy :: "log_event list \<Rightarrow> DeployLog \<Rightarrow> bool" where
  "run_roomy [] dl \<longleftrightarrow> True"
| "run_roomy (ev # evs) dl \<longleftrightarrow> step_roomy ev dl \<and> run_roomy evs (log_step ev dl)"

definition subs_complete :: "DeployLog \<Rightarrow> bool" where
  "subs_complete dl \<longleftrightarrow> distinct (dl_subs dl) \<and>
     list_all (\<lambda>n. n < length (dl_chans dl) \<and> ch_got (dl_chans dl ! n) = dl_history dl) (dl_subs dl)"

lemma length_to_subs [simp]: "length (to_subs f dl) = length (dl_chans dl)"
  by (simp add: to_subs_def)

lemma nth_to_subs: "n < length (dl_chans dl) \<Longrightarrow> to_subs f dl ! n = (if n \<in> set (dl_subs dl) then f (dl_chans dl ! n) else dl_chans dl ! n)"
  by (simp add: to_subs_def nth_enumerate_eq)

lemma ch_got_try_send: "length (ch_buf c) < chan_cap \<Longrightarrow> ch_got (try_send l c) = ch_got c @ [l]"
  by (simp add: try_send_def ch_got_def)

lemma ch_got_recv [simp]: "ch_got (recv c) = ch_got c"
  by (simp add: recv_def ch_got_def split: list.split)

lemma fold_try_send_buf:
  "length (ch_buf c) + length ls \<le> chan_cap \<Longrightarrow> fold try_send ls c = c\<lparr>ch_buf := ch_buf c @ ls\<rparr>"
  by (induction ls arbitrary: c) (auto simp: try_send_def)

lemma log_step_complete:
  assumes "subs_complete dl" "step_roomy ev dl"
  shows "subs_complete (log_step ev dl)"
proof (cases ev)
  case (LogSend l)
  then show ?thesis using assms
    by (auto simp: subs_complete_def list_all_iff Send_def Let_def nth_to_subs subs_roomy_def ch_got_try_send)
next
  case (LogClose a s v)
  have "ch_got (c\<lparr>ch_closed := True\<rparr>) = ch_got c" for c by (simp add: ch_got_def)
  then show ?thesis using LogClose assms
    by (auto simp: subs_complete_def list_all_iff CloseWith_def Let_def nth_to_subs subs_roomy_def ch_got_try_send)
next
  case LogSubscribe
  then show ?thesis using assms
    by (auto simp: subs_complete_def list_all_iff Subscribe_def Let_def nth_append fold_try_send_buf ch_got_def)
next
  case (LogUnsubscribe n)
  then show ?thesis using assms
    by (auto simp: subs_complete_def list_all_iff Unsubscribe_def)
next
  case (LogRecv n)
  then show ?thesis using assms
    by (auto simp: subs_complete_def list_all_iff log_recv_def nth_list_update)
qed

lemma log_run_complete: "subs_complete dl \<Longrightarrow> run_roomy evs dl \<Longrightarrow> subs_complete (log_run evs dl)"
  by (induction evs arbitrary: dl) (auto intro: log_step_complete)

text \<open>
  Whatever the interleaving of output, subscribers joining, leaving and reading, a
  subscriber of a deploy's log that joined within the first 200 lines and never lags 200 lines
  behind has got, read or waiting, exactly the lines of the log in their order, the final status line included.
\<close>

theorem subscriber_complete:
  assumes "run_roomy evs newDeployLog" "n \<in> set (dl_subs (log_run evs newDeployLog))"
  shows "ch_got (dl_chans (log_run evs newDeployLog) ! n) = dl_history (log_run evs newDeployLog)"
proof -
  have "subs_complete newDeployLog" by (simp add: subs_complete_def newDeployLog_def)
  from log_run_complete [OF this assms(1)] assms(2) show ?thesis by (simp add: subs_complete_def list_all_iff)
qed

lemmas log_ops = newDeployLog_def Subscribe_def Send_def CloseWith_def log_recv_def Unsubscribe_def to_subs_def try_send_def recv_def
  chan_cap_def maxHistory_def Let_def

theorem subscriber_complete_witness:
  "ch_got (dl_chans (log_run [LogSend (output_line ''a'' ''stdout''), LogSubscribe, LogSend (output_line ''b'' ''stderr''), LogRecv 0,
      LogClose ''deploy'' ''success'' []] newDeployLog) ! 0) =
   [output_line ''a'' ''stdout'', output_line ''b'' ''stderr'', done_line ''deploy'' ''success'' []]"
  (is "ch_got (dl_chans (log_run ?evs _) ! 0) = ?ls")
proof -
  have "run_roomy ?evs newDeployLog" "0 \<in> set (dl_subs (log_run ?evs newDeployLog))" "dl_history (log_run ?evs newDeployLog) = ?ls"
    by (simp_all add: log_ops subs_roomy_def)
  with subscriber_complete [of ?evs 0] show ?thesis by simp
qed

text \<open>
  The bound on joining is needed: the replay keeps the oldest lines. A subscriber that joins after
  200 lines has a full buffer, so it misses what comes next, even the final status.
\<close>

lemma fold_try_send_full: "length (ch_buf c) = chan_cap \<Longrightarrow> fold try_send ls c = c"
  by (induction ls) (auto simp: try_send_def)

lemma late_subscriber_misses_end:
  assumes "\<not> dl_closed dl" "length (dl_history dl) \<ge> chan_cap" "dl_subs dl = []"
  shows "let dl' = CloseWith a s v (snd (Subscribe dl))
    in ch_got (dl_chans dl' ! fst (Subscribe dl)) = take chan_cap (dl_history dl) \<and> ch_closed (dl_chans dl' ! fst (Subscribe dl))"
proof -
  let ?c = "\<lparr>ch_read = [], ch_buf = [], ch_closed = False\<rparr>" and ?n = "length (dl_chans dl)"
  have "fold try_send (take chan_cap (dl_history dl)) ?c = ?c\<lparr>ch_buf := take chan_cap (dl_history dl)\<rparr>"
    using assms(2) by (subst fold_try_send_buf) (auto simp: min_def)
  moreover have "fold try_send (dl_history dl) ?c = fold try_send (drop chan_cap (dl_history dl)) (fold try_send (take chan_cap (dl_history dl)) ?c)"
    by (metis append_take_drop_id comp_apply fold_append)
  ultimately have "fold try_send (dl_history dl) ?c = ?c\<lparr>ch_buf := take chan_cap (dl_history dl)\<rparr>"
    using assms(2) by (simp add: fold_try_send_full)
  then show ?thesis using assms by (simp add: Subscribe_def CloseWith_def Let_def nth_to_subs nth_append try_send_def ch_got_def min_def)
qed

subsection \<open>One deploy per app\<close>

text \<open>
  The deploys running, and the tracker: one starts when \<open>TrackWithLog\<close> lets it, and ends with
  \<open>DoneWithLogStatus\<close>; a cancel comes from another request at any time.
\<close>

inductive flight_step :: "Tracker \<times> string list \<Rightarrow> Tracker \<times> string list \<Rightarrow> bool" where
  start: "TrackWithLog slug t = (True, t') \<Longrightarrow> flight_step (t, run) (t', slug # run)"
| skip: "TrackWithLog slug t = (False, t') \<Longrightarrow> flight_step (t, run) (t', run)"
| finish: "slug \<in> set run \<Longrightarrow> flight_step (t, run) (snd (DoneWithLogStatus slug a s v t), remove1 slug run)"
| cancel: "flight_step (t, run) (snd (tracker_Cancel slug t), run)"
| send: "flight_step (t, run) (tracker_Send slug l t, run)"
| subscribe: "flight_step (t, run) (snd (tracker_Subscribe slug t), run)"

inductive flight_run :: "Tracker \<times> string list \<Rightarrow> bool" where
  empty: "flight_run (NewTracker, [])"
| more: "flight_run st \<Longrightarrow> flight_step st st' \<Longrightarrow> flight_run st'"

definition flights_ok :: "Tracker \<times> string list \<Rightarrow> bool" where
  "flights_ok st \<longleftrightarrow> distinct (snd st) \<and> fst ` set (tr_logs (fst st)) = set (snd st) \<and> set (tr_flights (fst st)) \<subseteq> set (snd st)"

lemma flight_step_ok: "flight_step st st' \<Longrightarrow> flights_ok st \<Longrightarrow> flights_ok st'"
proof (induction rule: flight_step.induct)
  case (start slug t t' run)
  then have t': "map_of (tr_logs t) slug = None"
      "t' = t\<lparr>tr_flights := slug # removeAll slug (tr_flights t), tr_logs := (slug, newDeployLog) # tr_logs t\<rparr>"
    by (simp_all add: TrackWithLog_def split: if_splits)
  from t'(1) have "slug \<notin> fst ` set (tr_logs t)" by (simp add: map_of_eq_None_iff)
  with start.prems show ?case unfolding t'(2) flights_ok_def by auto
next
  case (finish slug run t a s v)
  then show ?case by (auto simp: flights_ok_def DoneWithLogStatus_def)
next
  case (send t run slug l)
  then show ?case by (simp add: flights_ok_def tracker_Send_def image_image case_prod_beta)
next
  case (subscribe t run slug)
  then show ?case
    by (auto simp: flights_ok_def tracker_Subscribe_def Let_def image_image case_prod_beta split: option.split prod.split)
qed (auto simp: flights_ok_def TrackWithLog_def tracker_Cancel_def split: if_splits)

text \<open>
  Property C17. However deploys, restarts, pulls, cancels and log readers interleave, no app has
  two deploys running at a time: the tracker lets the next one start only after the last has ended, also when it was cancelled.
\<close>

theorem one_deploy_per_app:
  assumes "flight_run (t, run)"
  shows "distinct run \<and> (fst (TrackWithLog slug t) \<longleftrightarrow> slug \<notin> set run) \<and> (IsDeploying slug t \<longrightarrow> slug \<in> set run)"
proof -
  have "flights_ok st" if "flight_run st" for st
    using that by (induction rule: flight_run.induct) (simp add: flights_ok_def NewTracker_def, rule flight_step_ok)
  from this [OF assms] show ?thesis
    by (auto simp: flights_ok_def TrackWithLog_def IsDeploying_def map_of_eq_None_iff)
qed

theorem one_deploy_per_app_witness:
  "distinct [''web''] \<and> (fst (TrackWithLog ''web'' (snd (TrackWithLog ''web'' NewTracker))) \<longleftrightarrow> ''web'' \<notin> set [''web''])"
  using one_deploy_per_app [OF flight_run.more [OF flight_run.empty flight_step.start, of "''web''" "snd (TrackWithLog ''web'' NewTracker)"], of "''web''"]
  by (simp add: TrackWithLog_def NewTracker_def)

end
