(* ===== verification/HostPaths.thy ===== *)
theory HostPaths
  imports ComposeModel GoPath
begin

text \<open>
  internal/compose/validate.go, the rules for host paths: which folders are protected, how symbolic
  links are resolved, and when a host path may be bind-mounted or is confined to the app's
  folder. The file system is a parameter: \<open>EvalSymlinks\<close> (\<open>None\<close> for an error), \<open>Lstat\<close> and the
  working directory.
\<close>

datatype lstat_result = LstatOk | LstatNotExist | LstatError

record filesystem =
  evalSymlinks :: "string \<Rightarrow> string option"
  lstat :: "string \<Rightarrow> lstat_result"
  getwd :: "string option"

subsection \<open>The parent of a path is shorter\<close>

definition elems_weight :: "string list \<Rightarrow> nat" where
  "elems_weight cs = sum_list (map (\<lambda>c. Suc (length c)) cs)"

lemma length_join_with: "cs \<noteq> [] \<Longrightarrow> Suc (length (join_with ''/'' cs)) = elems_weight cs"
proof (induction "''/'' :: string" cs rule: join_with.induct)
  case (3 w v ws)
  then show ?case by (simp add: elems_weight_def)
qed (simp_all add: elems_weight_def)

lemma clean_step_weight:
  "elems_weight (clean_step rooted st c) \<le> elems_weight st + (if c = [] then 0 else Suc (length c))"
  by (auto simp: elems_weight_def split: list.splits)

lemma foldl_clean_weight:
  "elems_weight (foldl (clean_step rooted) st cs) \<le> elems_weight st + elems_weight (filter (\<lambda>c. c \<noteq> []) cs)"
proof (induction cs arbitrary: st)
  case (Cons c cs)
  from Cons.IH [of "clean_step rooted st c"] clean_step_weight [of rooted st c] show ?case
    by (auto simp: elems_weight_def simp del: clean_step.simps split: if_splits)
qed (simp add: elems_weight_def)

lemma elems_weight_rev [simp]: "elems_weight (rev cs) = elems_weight cs"
  by (simp add: elems_weight_def rev_map [symmetric])

lemma elems_weight_split: "elems_weight (split_on c s) = Suc (length s)"
proof -
  have "Suc (length (join_with [c] (split_on c s))) = elems_weight (split_on c s)"
  proof -
    have "cs \<noteq> [] \<Longrightarrow> Suc (length (join_with [c] cs)) = elems_weight cs" for cs
      by (induction "[c]" cs rule: join_with.induct) (simp_all add: elems_weight_def)
    then show ?thesis by simp
  qed
  then show ?thesis by (simp add: join_split)
qed

lemma weight_filter: "elems_weight (filter (\<lambda>c. c \<noteq> []) cs) + count_list cs [] = elems_weight cs"
  by (induction cs) (auto simp: elems_weight_def)

text \<open>Cleaning does not lengthen a path; it shortens one that ends in a slash (but for the root).\<close>

lemma clean_elems_weight: "elems_weight (clean_elems rooted p) + count_list (split_on CHR ''/'' p) [] \<le> Suc (length p)"
  using foldl_clean_weight [of rooted "[]" "split_on CHR ''/'' p"] weight_filter [of "split_on CHR ''/'' p"]
    elems_weight_split [of "CHR ''/''" p]
  by (simp add: clean_elems_def elems_weight_def [of "[]"])

lemma split_slash_hd: "is_abs p \<Longrightarrow> \<exists>cs. split_on CHR ''/'' p = [] # cs \<and> cs \<noteq> []"
  by (cases p) (auto simp: is_abs_def)

lemma split_on_append_sep: "split_on c (s @ [c]) = split_on c s @ [[]]"
  by (induction s) (auto split: list.splits)

lemma length_clean_path:
  assumes "p \<noteq> []"
  shows "length (clean_path p) \<le> length p"
    and "last p = CHR ''/'' \<Longrightarrow> p \<noteq> ''/'' \<Longrightarrow> length (clean_path p) < length p"
proof -
  let ?e = "clean_elems (is_abs p) p" and ?n = "count_list (split_on CHR ''/'' p) []"
  note w = clean_elems_weight [of "is_abs p" p]
  have len: "length (clean_path p) \<le> (if is_abs p then max 1 (elems_weight ?e) else max 1 (elems_weight ?e - 1))"
    using assms length_join_with [of ?e] by (cases "?e = []") (auto simp: clean_path_def Let_def)
  have n1: "1 \<le> ?n" if "is_abs p" using split_slash_hd [OF that] by auto
  have one: "1 \<le> length p" using assms by (cases p) auto
  show "length (clean_path p) \<le> length p" using len w n1 one by (auto split: if_splits)
  assume l: "last p = CHR ''/''" "p \<noteq> ''/''"
  then obtain q where q: "p = q @ ''/''" "q \<noteq> []" using assms by (cases p rule: rev_cases) auto
  then have sp: "split_on CHR ''/'' p = split_on CHR ''/'' q @ [[]]" by (simp add: split_on_append_sep)
  have "1 \<le> ?n" by (simp add: sp)
  moreover have "2 \<le> ?n" if "is_abs p"
  proof -
    have "is_abs q" using that q by (cases q) (auto simp: is_abs_def)
    then show ?thesis using split_slash_hd [of q] by (auto simp: sp)
  qed
  moreover have "2 \<le> length p" using q by (cases q) auto
  ultimately show "length (clean_path p) < length p" using len w by (auto split: if_splits)
qed

lemma dir_path_shorter:
  assumes "dir_path p \<noteq> p"
  shows "dir_path p = ''.'' \<or> length (dir_path p) < length p"
proof -
  let ?q = "take (length p - length (after_last CHR ''/'' p)) p"
  show ?thesis
  proof (cases "?q = []")
    case True
    then show ?thesis by (simp add: dir_path_def clean_path_def)
  next
    case q: False
    show ?thesis
    proof (cases "after_last CHR ''/'' p = []")
      case True
      then have d: "dir_path p = clean_path p" by (simp add: dir_path_def)
      have "clean_path ''/'' = ''/''" by (simp add: clean_path_def is_abs_def clean_elems_def)
      with d assms have "p \<noteq> ''/''" by auto
      moreover have "p \<noteq> []" using q by auto
      moreover have "last p = CHR ''/''"
        using True \<open>p \<noteq> []\<close> by (cases p rule: rev_cases) (auto simp: after_last_def split: if_splits)
      ultimately show ?thesis using length_clean_path(2) [of p] d by simp
    next
      case False
      then have "length ?q < length p" using q by (cases p) auto
      then show ?thesis using length_clean_path(1) [OF q] by (simp add: dir_path_def)
    qed
  qed
qed

subsection \<open>Paths\<close>

definition within :: "string \<Rightarrow> string \<Rightarrow> bool" where
  "within p base = (if base = ''/'' then prefix ''/'' p else p = base \<or> prefix (base @ ''/'') p)"

definition overlaps :: "string \<Rightarrow> string \<Rightarrow> bool" where
  "overlaps a b \<longleftrightarrow> within a b \<or> within b a"

function resolve_loop :: "filesystem \<Rightarrow> string \<Rightarrow> string \<Rightarrow> string \<Rightarrow> string option" where
  "resolve_loop fs p cur rest =
     (case evalSymlinks fs cur of
        Some real \<Rightarrow> Some (join_path [real, rest])
      | None \<Rightarrow>
          if lstat fs cur \<noteq> LstatNotExist then None
          else let parent = dir_path cur in
            if parent = cur then Some p
            else resolve_loop fs p parent (join_path [base_path cur, rest]))"
  by pat_completeness auto
termination
proof (relation "measure (\<lambda>(_, _, cur, _). if cur = ''.'' then 0 else Suc (length cur))")
  fix fs p cur rest parent
  assume "parent = dir_path cur" "parent \<noteq> cur"
  then show "((fs, p, parent, join_path [base_path cur, rest]), fs, p, cur, rest)
      \<in> measure (\<lambda>(_, _, cur, _). if cur = ''.'' then 0 else Suc (length cur))"
    using dir_path_shorter [of cur] by (auto simp: dir_path_def clean_path_def after_last_def is_abs_def)
qed simp

declare resolve_loop.simps [simp del]

definition resolvePath :: "filesystem \<Rightarrow> string \<Rightarrow> string option" where
  "resolvePath fs p = resolve_loop fs p p []"

text \<open>\<open>filepath.Abs\<close>: cleaned, from the working directory; an error if that is unknown.\<close>

definition cleanAbs :: "filesystem \<Rightarrow> string \<Rightarrow> string" where
  "cleanAbs fs p =
     (if p = [] then []
      else if is_abs p then clean_path p
      else case getwd fs of Some wd \<Rightarrow> join_path [wd, p] | None \<Rightarrow> clean_path p)"

definition withResolved :: "filesystem \<Rightarrow> string \<Rightarrow> string list" where
  "withResolved fs p =
     (if p = [] then []
      else case resolvePath fs p of Some real \<Rightarrow> if real \<noteq> p then [p, real] else [p] | None \<Rightarrow> [p])"

subsection \<open>Protected folders\<close>

record protected_paths =
  pr_dataDir :: string
  pr_appsDir :: string
  pr_allowed :: "string list"

definition SetAllowedHostPaths :: "string list \<Rightarrow> protected_paths \<Rightarrow> protected_paths" where
  "SetAllowedHostPaths paths pr =
     pr\<lparr>pr_allowed := filter (\<lambda>c. c \<noteq> ''/'') (map clean_path (filter is_abs paths))\<rparr>"

definition SetProtectedPaths :: "filesystem \<Rightarrow> string \<Rightarrow> string \<Rightarrow> protected_paths \<Rightarrow> protected_paths" where
  "SetProtectedPaths fs dataDir appsDir pr =
     pr\<lparr>pr_dataDir := cleanAbs fs dataDir, pr_appsDir := cleanAbs fs appsDir\<rparr>"

definition systemPaths :: "string list" where
  "systemPaths =
     [''/bin'', ''/boot'', ''/dev'', ''/etc'', ''/home'', ''/lib'', ''/lib32'', ''/lib64'', ''/libx32'', ''/proc'',
      ''/root'', ''/run'', ''/sbin'', ''/snap'', ''/sys'', ''/usr'', ''/var/backups'', ''/var/lib'', ''/var/log'',
      ''/var/mail'', ''/var/run'', ''/var/spool'']"

definition readOnlyPaths :: "string list" where
  "readOnlyPaths = [''/var/log'']"

record hostPaths =
  hp_fs :: filesystem
  hp_appDir :: string
  hp_appReal :: string
  hp_dataDirs :: "string list"
  hp_appsDirs :: "string list"
  hp_allowed :: "string list"

definition newHostPaths :: "filesystem \<Rightarrow> protected_paths \<Rightarrow> AppConfig \<Rightarrow> hostPaths" where
  "newHostPaths fs pr cfg =
     (let appDir = dir_path (cleanAbs fs (a_compose_path cfg));
          app = (if a_compose_path cfg = [] then ([], [])
                 else case resolvePath fs appDir of Some real \<Rightarrow> (appDir, real) | None \<Rightarrow> ([], []))
      in \<lparr>hp_fs = fs, hp_appDir = fst app, hp_appReal = snd app,
          hp_dataDirs = withResolved fs (pr_dataDir pr), hp_appsDirs = withResolved fs (pr_appsDir pr),
          hp_allowed = concat (map (withResolved fs) (pr_allowed pr))\<rparr>)"

datatype path_reason =
    Unchecked | OtherAppFolder | DataFolder | HoldsApps | SystemFolder | LinksTo string path_reason

definition protectedReason :: "hostPaths \<Rightarrow> string \<Rightarrow> bool \<Rightarrow> path_reason option" where
  "protectedReason h p readOnly =
     (if list_ex (\<lambda>a. p \<noteq> a \<and> within p a) (hp_appsDirs h) then Some OtherAppFolder
      else if list_ex (\<lambda>d. overlaps p d) (hp_dataDirs h) then Some DataFolder
      else if list_ex (\<lambda>a. within a p) (hp_appsDirs h) then Some HoldsApps
      else if list_ex (\<lambda>a. within p a) (hp_allowed h) then None
      else if readOnly \<and> list_ex (\<lambda>ro. within p ro) readOnlyPaths then None
      else if list_ex (\<lambda>s. overlaps p s) systemPaths then Some SystemFolder
      else None)"

definition inApp :: "hostPaths \<Rightarrow> string \<Rightarrow> string \<Rightarrow> bool" where
  "inApp h lexp real \<longleftrightarrow> hp_appDir h \<noteq> [] \<and> within lexp (hp_appDir h) \<and> within real (hp_appReal h)"

definition bind_paths :: "hostPaths \<Rightarrow> string \<Rightarrow> bool \<Rightarrow> path_reason option" where
  "bind_paths h src readOnly =
     (let lexp = clean_path src in
      case resolvePath (hp_fs h) lexp of
        None \<Rightarrow> Some Unchecked
      | Some real \<Rightarrow>
          if inApp h lexp real then None
          else case (if hp_appDir h = [] \<or> \<not> within lexp (hp_appDir h) then protectedReason h lexp readOnly else None) of
            Some reason \<Rightarrow> Some reason
          | None \<Rightarrow> if real \<noteq> lexp then map_option (LinksTo real) (protectedReason h real readOnly) else None)"

definition bindReason :: "hostPaths \<Rightarrow> string \<Rightarrow> bool \<Rightarrow> path_reason option" where
  "bindReason h src readOnly =
     (if \<not> is_abs src then
        (if hp_appDir h = [] then Some Unchecked else bind_paths h (join_path [hp_appDir h, src]) readOnly)
      else bind_paths h src readOnly)"

definition confined :: "hostPaths \<Rightarrow> string \<Rightarrow> bool" where
  "confined h p =
     (if hp_appDir h = [] then False
      else let lexp = clean_path (if is_abs p then p else join_path [hp_appDir h, p]) in
        case resolvePath (hp_fs h) lexp of Some real \<Rightarrow> inApp h lexp real | None \<Rightarrow> False)"

end
