(* ===== verification/ComposeValidate.thy ===== *)
theory ComposeValidate
  imports HostPaths
begin

text \<open>
  internal/compose/validate.go, the checks of a parsed compose project. A violation is a value
  with the data the code formats into its message. Reading a map at a missing key gives the zero
  value, as in Go (\<open>opt\<close>).
\<close>

datatype reason =
    PrivilegedMode | UseAPISocket | NetworkHost | NetworkContainer string | PidHost | PidMode string
  | IpcHost | IpcContainer string | UtsHost | UserNSHost | CgroupHost | DangerousCap string
  | SecurityOpt string | DevicesSet | DeviceCgroupRulesSet | VolumesFromSet | MountRefused string path_reason
  | EnvFileOutside string | LabelFileOutside string | PrivilegedHooks | ProviderService
  | BuildContextOutside string | DockerfileOutside string | SSHKeyOutside string | BuildNetworkHost
  | PrivilegedBuild | BuildEntitlement string

datatype volume_reason =
    OtherAppStorage string string | NameRefused string string | HostFolderRefused string path_reason
  | DeviceNotAbsolute string | TypeRefused string

datatype container_id = ServiceC string | PreStartC string nat | JobC string

datatype violation =
    CouldNotCheck | IncludeRefused | ExtendsOutside string | ContainerViolation container_id reason
  | VolumeViolation string volume_reason | HostNetwork string | WritableAppFolder container_id
  | NestedBind container_id string string | SecretOutside string string | ConfigOutside string string

definition opt :: "(string \<times> string) list \<Rightarrow> string \<Rightarrow> string" where
  "opt m k = (case map_of m k of Some v \<Rightarrow> v | None \<Rightarrow> [])"

definition sortedKeys :: "(string \<times> 'v) list \<Rightarrow> string list" where
  "sortedKeys m = sort_by (<) (map fst m)"

definition values_by_key :: "(string \<times> 'v) list \<Rightarrow> (string \<times> 'v) list" where
  "values_by_key m = map (\<lambda>k. (k, the (map_of m k))) (sortedKeys m)"

subsection \<open>Single settings\<close>

definition dangerousCaps :: "string list" where
  "dangerousCaps =
     [''ALL'', ''SYS_ADMIN'', ''SYS_PTRACE'', ''SYS_MODULE'', ''SYS_RAWIO'', ''SYS_BOOT'', ''SYS_TIME'', ''NET_ADMIN'',
      ''NET_RAW'', ''DAC_READ_SEARCH'', ''DAC_OVERRIDE'', ''BPF'', ''PERFMON'', ''MKNOD'']"

definition networkVolumeTypes :: "string list" where
  "networkVolumeTypes = [''nfs'', ''nfs4'', ''cifs'', ''smb3'', ''tmpfs'']"

definition normalizeCap :: "string \<Rightarrow> string" where
  "normalizeCap c = trim_prefix (to_upper (trim_space c)) ''CAP_''"

definition unsafeSecurityOpt :: "string \<Rightarrow> bool" where
  "unsafeSecurityOpt secopt =
     (let s = to_lower (filter (\<lambda>c. c \<noteq> CHR '' '') secopt);
          key = takeWhile (\<lambda>c. c \<noteq> CHR ''='' \<and> c \<noteq> CHR '':'') s;
          val = drop (Suc (length key)) s
      in if key = ''seccomp'' then val \<noteq> ''builtin''
         else if key = ''apparmor'' \<or> key = ''systempaths'' then val = ''unconfined''
         else if key = ''label'' then val = ''disable'' \<or> prefix ''type:'' val
         else if key = ''no-new-privileges'' then val = ''false''
         else False)"

text \<open>\<open>types.ServicePrefix\<close> of compose-go is the \<open>service:\<close> of the compose syntax.\<close>

definition isLocalContext :: "string \<Rightarrow> bool" where
  "isLocalContext v =
     (if sublist ''://'' v \<or> prefix ''service:'' v then False
      else \<not> list_ex (\<lambda>p. prefix p v) [''https://'', ''http://'', ''git://'', ''ssh://'', ''github.com/'', ''git@''])"

definition hasMountOpt :: "string \<Rightarrow> string \<Rightarrow> bool" where
  "hasMountOpt o1 want = list_ex (\<lambda>part. trim_space part = want) (split_on CHR '','' (to_lower o1))"

subsection \<open>Containers and builds\<close>

definition mode_violations :: "ContainerSpec \<Rightarrow> reason list" where
  "mode_violations c =
     (if c_privileged c then [PrivilegedMode] else []) @
     (if c_use_api_socket c then [UseAPISocket] else []) @
     (let networkMode = to_lower (trim_space (c_network_mode c)) in
      if networkMode = ''host'' then [NetworkHost]
      else if prefix ''container:'' networkMode then [NetworkContainer (c_network_mode c)] else []) @
     (if c_pid c = ''host'' then [PidHost] else if c_pid c \<noteq> [] then [PidMode (c_pid c)] else []) @
     (let ipc = to_lower (trim_space (c_ipc c)) in
      if ipc = ''host'' then [IpcHost] else if prefix ''container:'' ipc then [IpcContainer (c_ipc c)] else []) @
     (if equal_fold (trim_space (c_uts c)) ''host'' then [UtsHost] else []) @
     (if equal_fold (c_userns_mode c) ''host'' then [UserNSHost] else []) @
     (if equal_fold (c_cgroup c) ''host'' then [CgroupHost] else [])"

definition is_host_mount :: "VolumeMountSpec \<Rightarrow> bool" where
  "is_host_mount vol \<longleftrightarrow> \<not> (vs_source vol = [] \<or> vs_type vol \<noteq> ''bind'' \<and> \<not> prefix ''/'' (vs_source vol))"

definition mount_violation :: "hostPaths \<Rightarrow> VolumeMountSpec \<Rightarrow> reason option" where
  "mount_violation h vol =
     (if \<not> is_host_mount vol then None
      else map_option (MountRefused (vs_source vol)) (bindReason h (vs_source vol) (vs_readonly vol)))"

definition containerViolations :: "ContainerSpec \<Rightarrow> hostPaths \<Rightarrow> reason list" where
  "containerViolations c h =
     mode_violations c @
     map DangerousCap (filter (\<lambda>cp. normalizeCap cp \<in> set dangerousCaps) (c_cap_add c)) @
     map SecurityOpt (filter unsafeSecurityOpt (c_security_opt c)) @
     (if c_devices c \<noteq> [] then [DevicesSet] else []) @
     (if c_device_cgroup_rules c \<noteq> [] then [DeviceCgroupRulesSet] else []) @
     (if c_volumes_from c \<noteq> [] then [VolumesFromSet] else []) @
     List.map_filter (mount_violation h) (c_volumes c) @
     map EnvFileOutside (filter (\<lambda>f. f \<noteq> [] \<and> \<not> confined h f) (c_env_files c)) @
     map LabelFileOutside (filter (\<lambda>f. f \<noteq> [] \<and> \<not> confined h f) (c_label_files c))"

definition dockerfile_path :: "BuildConfig \<Rightarrow> string" where
  "dockerfile_path b = (if \<not> is_abs (b_dockerfile b) then join_path [b_context b, b_dockerfile b] else b_dockerfile b)"

definition buildViolations :: "BuildConfig option \<Rightarrow> hostPaths \<Rightarrow> reason list" where
  "buildViolations build h =
     (case build of None \<Rightarrow> []
      | Some b \<Rightarrow>
          (let localContext = b_context b \<noteq> [] \<and> isLocalContext (b_context b) in
           (if localContext \<and> \<not> confined h (b_context b) then [BuildContextOutside (b_context b)] else []) @
           (if localContext \<and> b_dockerfile_inline b = [] \<and> b_dockerfile b \<noteq> [] \<and> \<not> confined h (dockerfile_path b)
            then [DockerfileOutside (b_dockerfile b)] else []) @
           map (BuildContextOutside \<circ> snd)
             (filter (\<lambda>(_, v). v \<noteq> [] \<and> isLocalContext v \<and> \<not> confined h v) (values_by_key (b_additional_contexts b))) @
           map SSHKeyOutside (filter (\<lambda>p. p \<noteq> [] \<and> \<not> confined h p) (b_ssh_paths b)) @
           (if equal_fold (b_network b) ''host'' then [BuildNetworkHost] else []) @
           (if b_privileged b then [PrivilegedBuild] else []) @
           map BuildEntitlement
             (filter (\<lambda>e. to_lower (trim_space e) \<in> {''security.insecure'', ''network.host''}) (b_entitlements b))))"

definition service_reasons :: "ServiceSpec \<Rightarrow> hostPaths \<Rightarrow> reason list" where
  "service_reasons svc h =
     containerViolations (s_container svc) h @
     (if list_ex id (s_post_start_privileged svc @ s_pre_stop_privileged svc) then [PrivilegedHooks] else []) @
     (if s_has_provider svc then [ProviderService] else []) @
     buildViolations (s_build svc) h"

definition validateService :: "string \<Rightarrow> ServiceSpec \<Rightarrow> hostPaths \<Rightarrow> violation list" where
  "validateService name svc h =
     (let reasons = service_reasons svc h in
      map (ContainerViolation (ServiceC name)) reasons @
      concat (map (\<lambda>(i, hook). map (ContainerViolation (PreStartC name (i + 1)))
                 (filter (\<lambda>r. r \<notin> set reasons) (containerViolations hook h)))
               (enumerate 0 (s_pre_start svc))))"

definition validateJob :: "string \<Rightarrow> JobSpec \<Rightarrow> hostPaths \<Rightarrow> violation list" where
  "validateJob name job h =
     map (ContainerViolation (JobC name)) (containerViolations (j_container job) h @ buildViolations (j_build job) h)"

subsection \<open>Volumes\<close>

definition volume_name_violation :: "string \<Rightarrow> VolumeConfig \<Rightarrow> string \<Rightarrow> string \<Rightarrow> volume_reason list" where
  "volume_name_violation name v appName projectName =
     (if prefix ''simpledeploy-'' (v_name v) \<and> v_name v \<noteq> projectName @ ''_'' @ name \<and>
         v_name v \<noteq> ''simpledeploy-'' @ appName @ ''_'' @ name
      then let own = ''simpledeploy-'' @ trim_prefix appName ''simpledeploy-''; def = own @ ''_'' @ name in
        if CHR ''_'' \<in> set (trim_prefix (v_name v) ''simpledeploy-'') \<and> \<not> prefix (own @ ''_'') (v_name v)
        then [OtherAppStorage (v_name v) def] else [NameRefused (v_name v) def]
      else [])"

definition foreign_driver_violations :: "(string \<times> string) list \<Rightarrow> hostPaths \<Rightarrow> volume_reason list" where
  "foreign_driver_violations opts h =
     List.map_filter (\<lambda>key. let p = trim_space (opt opts key) in
         if prefix ''/'' p \<and> \<not> prefix ''//'' p then map_option (HostFolderRefused p) (bindReason h p False) else None)
       [''device'', ''mountpoint'']"

definition local_driver_violations :: "(string \<times> string) list \<Rightarrow> hostPaths \<Rightarrow> volume_reason list" where
  "local_driver_violations opts h =
     (let typ = to_lower (trim_space (opt opts ''type'')); device = trim_space (opt opts ''device'') in
      if typ = ''none'' \<or> hasMountOpt (opt opts ''o'') ''bind'' \<or> hasMountOpt (opt opts ''o'') ''rbind'' then
        (if device = [] then []
         else if \<not> is_abs device then [DeviceNotAbsolute device]
         else case bindReason h device False of Some r \<Rightarrow> [HostFolderRefused device r] | None \<Rightarrow> [])
      else if typ = [] \<and> device = [] then []
      else if typ \<notin> set networkVolumeTypes then [TypeRefused (opt opts ''type'')] else [])"

definition validateVolume :: "string \<Rightarrow> VolumeConfig \<Rightarrow> string \<Rightarrow> string \<Rightarrow> hostPaths \<Rightarrow> violation list" where
  "validateVolume name v appName projectName h =
     map (VolumeViolation name)
       (volume_name_violation name v appName projectName @
        (if v_driver_opts v = [] then []
         else if v_driver v \<noteq> [] \<and> v_driver v \<noteq> ''local'' then foreign_driver_violations (v_driver_opts v) h
         else local_driver_violations (v_driver_opts v) h))"

text \<open>\<open>volumeHostBind\<close>: the device and whether it is read-only, if the volume binds a host folder.\<close>

definition volumeHostBind :: "VolumeConfig \<Rightarrow> (string \<times> bool) option" where
  "volumeHostBind v =
     (if v_driver v \<noteq> [] \<and> v_driver v \<noteq> ''local'' then None
      else let opts = v_driver_opts v; device = trim_space (opt opts ''device'');
               typ = to_lower (trim_space (opt opts ''type'')) in
        if \<not> is_abs device \<or> typ \<noteq> ''none'' \<and> \<not> hasMountOpt (opt opts ''o'') ''bind'' \<and> \<not> hasMountOpt (opt opts ''o'') ''rbind''
        then None else Some (device, hasMountOpt (opt opts ''o'') ''ro''))"

subsection \<open>Bind layout\<close>

record bind =
  bind_who :: container_id
  bind_src :: string
  bind_rw :: bool

definition real_or_same :: "hostPaths \<Rightarrow> string \<Rightarrow> string" where
  "real_or_same h src = (case resolvePath (hp_fs h) src of Some real \<Rightarrow> real | None \<Rightarrow> src)"

definition zero_volume :: VolumeConfig where
  "zero_volume = \<lparr>v_name = [], v_driver = [], v_driver_opts = []\<rparr>"

definition mount_bind :: "(string \<times> VolumeConfig) list \<Rightarrow> hostPaths \<Rightarrow> container_id \<Rightarrow> VolumeMountSpec \<Rightarrow> bind option" where
  "mount_bind volumes h who vol =
     (if vs_type vol = ''volume'' then
        (case volumeHostBind (case map_of volumes (vs_source vol) of Some v \<Rightarrow> v | None \<Rightarrow> zero_volume) of
           Some (device, ro) \<Rightarrow>
             Some \<lparr>bind_who = who, bind_src = real_or_same h (clean_path device), bind_rw = \<not> vs_readonly vol \<and> \<not> ro\<rparr>
         | None \<Rightarrow> None)
      else if \<not> is_host_mount vol then None
      else if \<not> is_abs (vs_source vol) \<and> hp_appDir h = [] then None
      else let src = (if is_abs (vs_source vol) then vs_source vol else join_path [hp_appDir h, vs_source vol])
           in Some \<lparr>bind_who = who, bind_src = real_or_same h (clean_path src), bind_rw = \<not> vs_readonly vol\<rparr>)"

definition containerMounts ::
  "(string \<times> ServiceSpec) list \<Rightarrow> (string \<times> JobSpec) list \<Rightarrow> (container_id \<times> VolumeMountSpec list) list" where
  "containerMounts services jobs =
     concat (map (\<lambda>(name, svc).
         (ServiceC name, c_volumes (s_container svc)) #
         map (\<lambda>(i, hook). (PreStartC name (i + 1), c_volumes hook)) (enumerate 0 (s_pre_start svc)))
       (values_by_key services)) @
     map (\<lambda>(name, job). (JobC name, c_volumes (j_container job))) (values_by_key jobs)"

definition layout_binds ::
  "(container_id \<times> VolumeMountSpec list) list \<Rightarrow> (string \<times> VolumeConfig) list \<Rightarrow> hostPaths \<Rightarrow> bind list" where
  "layout_binds containers volumes h =
     concat (map (\<lambda>(who, vols). List.map_filter (mount_bind volumes h who) vols) containers)"

text \<open>\<open>addOnce\<close> keeps the first of equal messages.\<close>

fun add_once :: "violation set \<Rightarrow> violation list \<Rightarrow> violation list" where
  "add_once seen [] = []"
| "add_once seen (v # vs) = (if v \<in> seen then add_once seen vs else v # add_once (insert v seen) vs)"

definition bindLayoutViolations ::
  "(container_id \<times> VolumeMountSpec list) list \<Rightarrow> (string \<times> VolumeConfig) list \<Rightarrow> hostPaths \<Rightarrow> violation list" where
  "bindLayoutViolations containers volumes h =
     (let binds = layout_binds containers volumes h in
      add_once {}
        (map (\<lambda>b. WritableAppFolder (bind_who b))
           (filter (\<lambda>b. bind_rw b \<and> hp_appReal h \<noteq> [] \<and> bind_src b = hp_appReal h) binds) @
         concat (map (\<lambda>a. map (\<lambda>b. NestedBind (bind_who b) (bind_src b) (bind_src a))
                     (filter (\<lambda>b. bind_src b \<noteq> bind_src a \<and> within (bind_src b) (bind_src a)) binds))
                   (filter bind_rw binds))))"

subsection \<open>The whole project\<close>

definition ref_violation :: "hostPaths \<Rightarrow> fileRef \<Rightarrow> violation list" where
  "ref_violation h ref = (case ref of IncludeRef \<Rightarrow> [IncludeRefused]
     | ExtendsRef path \<Rightarrow> if \<not> confined h path then [ExtendsOutside path] else [])"

definition all_services :: "Project \<Rightarrow> (string \<times> ServiceSpec) list" where
  "all_services p = AList.updates (map fst (p_services p)) (map snd (p_services p))
     (AList.updates (map fst (p_disabled p)) (map snd (p_disabled p)) [])"

definition is_host_network :: "NetworkConfig \<Rightarrow> bool" where
  "is_host_network n =
     (let name = to_lower (trim_space (n_name n)) in
      name = ''host'' \<or> prefix ''container:'' name \<or> equal_fold (trim_space (n_driver n)) ''host'')"

definition file_object_outside :: "hostPaths \<Rightarrow> FileObject \<Rightarrow> bool" where
  "file_object_outside h s \<longleftrightarrow> f_file s \<noteq> [] \<and> \<not> f_external s \<and> \<not> confined h (f_file s)"

definition project_violations :: "hostPaths \<Rightarrow> AppConfig \<Rightarrow> Project \<Rightarrow> violation list" where
  "project_violations h cfg p =
     concat (map (ref_violation h) (a_file_refs cfg)) @
     concat (map (\<lambda>(name, svc). validateService name svc h) (values_by_key (all_services p))) @
     concat (map (\<lambda>(name, job). validateJob name job h) (values_by_key (p_jobs p))) @
     concat (map (\<lambda>(name, v). validateVolume name v (a_name cfg) (p_name p) h) (values_by_key (p_volumes p))) @
     map (HostNetwork \<circ> fst) (filter (\<lambda>(_, n). is_host_network n) (values_by_key (p_networks p))) @
     bindLayoutViolations (containerMounts (all_services p) (p_jobs p)) (p_volumes p) h @
     map (\<lambda>(name, s). SecretOutside name (f_file s))
       (filter (\<lambda>(_, s). file_object_outside h s) (values_by_key (p_secrets p))) @
     map (\<lambda>(name, s). ConfigOutside name (f_file s))
       (filter (\<lambda>(_, s). file_object_outside h s) (values_by_key (p_configs p)))"

definition ValidateComposeSecurity :: "filesystem \<Rightarrow> protected_paths \<Rightarrow> AppConfig option \<Rightarrow> violation list" where
  "ValidateComposeSecurity fs pr cfg =
     (case cfg of None \<Rightarrow> [CouldNotCheck]
      | Some c \<Rightarrow> (case a_project c of None \<Rightarrow> [CouldNotCheck]
          | Some p \<Rightarrow> project_violations (newHostPaths fs pr c) c p))"

datatype deploy_violation = SecurityViolation violation | EndpointViolation endpoint_violation

definition ValidateComposeForDeploy :: "filesystem \<Rightarrow> protected_paths \<Rightarrow> AppConfig option \<Rightarrow> deploy_violation list" where
  "ValidateComposeForDeploy fs pr cfg =
     (let violations = map SecurityViolation (ValidateComposeSecurity fs pr cfg) in
      case cfg of None \<Rightarrow> violations
      | Some c \<Rightarrow> violations @ map EndpointViolation (ValidateEndpoints (a_endpoints c)))"

subsection \<open>What an accepted project is\<close>

definition host_mode :: "string \<Rightarrow> bool" where
  "host_mode m \<longleftrightarrow> to_lower (trim_space m) = ''host'' \<or> prefix ''container:'' (to_lower (trim_space m))"

definition container_safe :: "hostPaths \<Rightarrow> ContainerSpec \<Rightarrow> bool" where
  "container_safe h c \<longleftrightarrow>
     \<not> c_privileged c \<and> \<not> c_use_api_socket c \<and> \<not> host_mode (c_network_mode c) \<and> c_pid c = [] \<and>
     \<not> host_mode (c_ipc c) \<and> \<not> equal_fold (trim_space (c_uts c)) ''host'' \<and> \<not> equal_fold (c_userns_mode c) ''host'' \<and>
     \<not> equal_fold (c_cgroup c) ''host'' \<and>
     (\<forall>cap \<in> set (c_cap_add c). normalizeCap cap \<notin> set dangerousCaps) \<and>
     (\<forall>so \<in> set (c_security_opt c). \<not> unsafeSecurityOpt so) \<and>
     c_devices c = [] \<and> c_device_cgroup_rules c = [] \<and> c_volumes_from c = [] \<and>
     (\<forall>vol \<in> set (c_volumes c). is_host_mount vol \<longrightarrow> bindReason h (vs_source vol) (vs_readonly vol) = None) \<and>
     (\<forall>f \<in> set (c_env_files c) \<union> set (c_label_files c). f = [] \<or> confined h f)"

definition build_safe :: "hostPaths \<Rightarrow> BuildConfig option \<Rightarrow> bool" where
  "build_safe h build \<longleftrightarrow> (case build of None \<Rightarrow> True
    | Some b \<Rightarrow>
        (b_context b \<noteq> [] \<and> isLocalContext (b_context b) \<longrightarrow> confined h (b_context b) \<and>
           (b_dockerfile_inline b = [] \<and> b_dockerfile b \<noteq> [] \<longrightarrow> confined h (dockerfile_path b))) \<and>
        (\<forall>k v. map_of (b_additional_contexts b) k = Some v \<longrightarrow> v \<noteq> [] \<longrightarrow> isLocalContext v \<longrightarrow> confined h v) \<and>
        (\<forall>p \<in> set (b_ssh_paths b). p = [] \<or> confined h p) \<and>
        \<not> equal_fold (b_network b) ''host'' \<and> \<not> b_privileged b \<and>
        (\<forall>e \<in> set (b_entitlements b). to_lower (trim_space e) \<notin> {''security.insecure'', ''network.host''}))"

definition service_safe :: "hostPaths \<Rightarrow> ServiceSpec \<Rightarrow> bool" where
  "service_safe h svc \<longleftrightarrow> container_safe h (s_container svc) \<and> build_safe h (s_build svc) \<and>
     True \<notin> set (s_post_start_privileged svc @ s_pre_stop_privileged svc) \<and> \<not> s_has_provider svc \<and>
     (\<forall>hook \<in> set (s_pre_start svc). container_safe h hook)"

definition volume_safe :: "hostPaths \<Rightarrow> string \<Rightarrow> string \<Rightarrow> string \<Rightarrow> VolumeConfig \<Rightarrow> bool" where
  "volume_safe h appName projectName name v \<longleftrightarrow>
     (prefix ''simpledeploy-'' (v_name v) \<longrightarrow>
        v_name v = projectName @ ''_'' @ name \<or> v_name v = ''simpledeploy-'' @ appName @ ''_'' @ name) \<and>
     (v_driver_opts v = [] \<or>
      (if v_driver v \<noteq> [] \<and> v_driver v \<noteq> ''local'' then foreign_driver_violations (v_driver_opts v) h = []
       else local_driver_violations (v_driver_opts v) h = []))"

definition layout_safe :: "hostPaths \<Rightarrow> bind list \<Rightarrow> bool" where
  "layout_safe h binds \<longleftrightarrow>
     (\<forall>a \<in> set binds. bind_rw a \<longrightarrow> \<not> (hp_appReal h \<noteq> [] \<and> bind_src a = hp_appReal h)) \<and>
     (\<forall>a \<in> set binds. \<forall>b \<in> set binds. bind_rw a \<longrightarrow> bind_src b \<noteq> bind_src a \<longrightarrow> \<not> within (bind_src b) (bind_src a))"

definition ref_safe :: "hostPaths \<Rightarrow> fileRef \<Rightarrow> bool" where
  "ref_safe h ref = (case ref of IncludeRef \<Rightarrow> False | ExtendsRef path \<Rightarrow> confined h path)"

definition project_safe :: "hostPaths \<Rightarrow> AppConfig \<Rightarrow> Project \<Rightarrow> bool" where
  "project_safe h cfg p \<longleftrightarrow>
     (\<forall>ref \<in> set (a_file_refs cfg). ref_safe h ref) \<and>
     (\<forall>name svc. map_of (all_services p) name = Some svc \<longrightarrow> service_safe h svc) \<and>
     (\<forall>name job. map_of (p_jobs p) name = Some job \<longrightarrow> container_safe h (j_container job) \<and> build_safe h (j_build job)) \<and>
     (\<forall>name v. map_of (p_volumes p) name = Some v \<longrightarrow> volume_safe h (a_name cfg) (p_name p) name v) \<and>
     (\<forall>name n. map_of (p_networks p) name = Some n \<longrightarrow> \<not> is_host_network n) \<and>
     layout_safe h (layout_binds (containerMounts (all_services p) (p_jobs p)) (p_volumes p) h) \<and>
     (\<forall>name s. map_of (p_secrets p) name = Some s \<or> map_of (p_configs p) name = Some s \<longrightarrow> \<not> file_object_outside h s)"

lemma set_values_by_key: "set (values_by_key m) = {(k, v). map_of m k = Some v}"
proof -
  have mem: "k \<in> fst ` set m \<longleftrightarrow> map_of m k \<noteq> None" for k by (simp add: map_of_eq_None_iff)
  have eq: "fst ` set m = {k. map_of m k \<noteq> None}" using mem by blast
  have "set (values_by_key m) = (\<lambda>k. (k, the (map_of m k))) ` {k. map_of m k \<noteq> None}"
    by (simp only: values_by_key_def sortedKeys_def set_map set_sort_by eq)
  then show ?thesis by force
qed

lemma concat_Nil: "concat (map (\<lambda>(k, v). f k v) (values_by_key m)) = [] \<longleftrightarrow> (\<forall>k v. map_of m k = Some v \<longrightarrow> f k v = [])"
  unfolding concat_eq_Nil_conv set_map set_values_by_key by auto

lemma filter_values_Nil:
  "filter (\<lambda>(k, v). P v) (values_by_key m) = [] \<longleftrightarrow> (\<forall>k v. map_of m k = Some v \<longrightarrow> \<not> P v)"
  unfolding filter_empty_conv set_values_by_key by auto

lemma add_once_Nil: "add_once seen vs = [] \<longleftrightarrow> set vs \<subseteq> seen"
  by (induction vs arbitrary: seen) auto

lemma map_filter_Nil_iff: "List.map_filter f xs = [] \<longleftrightarrow> (\<forall>x \<in> set xs. f x = None)"
  by (induction xs) (auto simp: List.map_filter_simps split: option.splits)

lemma mode_violations_Nil:
  "mode_violations c = [] \<longleftrightarrow> \<not> c_privileged c \<and> \<not> c_use_api_socket c \<and> \<not> host_mode (c_network_mode c) \<and> c_pid c = [] \<and>
     \<not> host_mode (c_ipc c) \<and> \<not> equal_fold (trim_space (c_uts c)) ''host'' \<and> \<not> equal_fold (c_userns_mode c) ''host'' \<and>
     \<not> equal_fold (c_cgroup c) ''host''"
  by (auto simp: mode_violations_def host_mode_def Let_def split: if_splits)

lemma containerViolations_Nil: "containerViolations c h = [] \<longleftrightarrow> container_safe h c"
proof -
  have m: "List.map_filter (mount_violation h) (c_volumes c) = [] \<longleftrightarrow>
      (\<forall>vol \<in> set (c_volumes c). is_host_mount vol \<longrightarrow> bindReason h (vs_source vol) (vs_readonly vol) = None)"
    unfolding map_filter_Nil_iff mount_violation_def by auto
  show ?thesis
    unfolding containerViolations_def container_safe_def append_is_Nil_conv mode_violations_Nil m
      list.map_disc_iff filter_empty_conv
    by (auto split: if_splits)
qed

lemma buildViolations_Nil: "buildViolations b h = [] \<longleftrightarrow> build_safe h b"
proof (cases b)
  case (Some b)
  have "filter (\<lambda>(_, v). v \<noteq> [] \<and> isLocalContext v \<and> \<not> confined h v) (values_by_key (b_additional_contexts b)) = [] \<longleftrightarrow>
      (\<forall>k v. map_of (b_additional_contexts b) k = Some v \<longrightarrow> v \<noteq> [] \<longrightarrow> isLocalContext v \<longrightarrow> confined h v)"
    unfolding filter_values_Nil by blast
  then show ?thesis
    unfolding buildViolations_def build_safe_def \<open>_ = Some b\<close> option.case Let_def append_is_Nil_conv list.map_disc_iff
    by (simp only: filter_empty_conv) (auto split: if_splits)
qed (simp add: buildViolations_def build_safe_def)

lemma validateService_Nil: "validateService name svc h = [] \<longleftrightarrow> service_safe h svc"
proof -
  have r: "service_reasons svc h = [] \<longleftrightarrow> container_safe h (s_container svc) \<and> build_safe h (s_build svc) \<and>
     True \<notin> set (s_post_start_privileged svc @ s_pre_stop_privileged svc) \<and> \<not> s_has_provider svc"
    unfolding service_reasons_def append_is_Nil_conv containerViolations_Nil buildViolations_Nil
    by (auto simp: list_ex_iff)
  have hooks: "concat (map (\<lambda>(i, hook). map (ContainerViolation (PreStartC name (i + 1)))
                 (filter (\<lambda>r. r \<notin> set []) (containerViolations hook h))) (enumerate 0 (s_pre_start svc))) = [] \<longleftrightarrow>
      (\<forall>hook \<in> set (s_pre_start svc). container_safe h hook)"
  proof -
    have "(\<forall>x \<in> set (enumerate 0 (s_pre_start svc)). containerViolations (snd x) h = []) \<longleftrightarrow>
        (\<forall>hook \<in> snd ` set (enumerate 0 (s_pre_start svc)). containerViolations hook h = [])" by simp
    also have "snd ` set (enumerate 0 (s_pre_start svc)) = set (s_pre_start svc)"
      by (metis list.set_map map_snd_enumerate)
    finally show ?thesis by (auto simp: concat_eq_Nil_conv containerViolations_Nil)
  qed
  show ?thesis
  proof (cases "service_reasons svc h = []")
    case True
    then show ?thesis using hooks r by (simp add: validateService_def service_safe_def Let_def)
  next
    case False
    then show ?thesis using r by (auto simp: validateService_def service_safe_def Let_def)
  qed
qed

lemma validateVolume_Nil: "validateVolume name v app proj h = [] \<longleftrightarrow> volume_safe h app proj name v"
  by (auto simp: validateVolume_def volume_safe_def volume_name_violation_def Let_def)

lemma bindLayoutViolations_Nil:
  "bindLayoutViolations cs vols h = [] \<longleftrightarrow> layout_safe h (layout_binds cs vols h)"
  unfolding bindLayoutViolations_def layout_safe_def Let_def add_once_Nil
  by (auto simp: subset_iff)

lemma project_violations_Nil: "project_violations h cfg p = [] \<longleftrightarrow> project_safe h cfg p"
proof -
  have refs: "concat (map (ref_violation h) (a_file_refs cfg)) = [] \<longleftrightarrow> (\<forall>ref \<in> set (a_file_refs cfg). ref_safe h ref)"
    by (auto simp: concat_eq_Nil_conv ref_violation_def ref_safe_def split: fileRef.splits)
  have jobs: "validateJob name job h = [] \<longleftrightarrow> container_safe h (j_container job) \<and> build_safe h (j_build job)" for name job
    by (simp add: validateJob_def containerViolations_Nil buildViolations_Nil)
  show ?thesis
    unfolding project_violations_def project_safe_def append_is_Nil_conv refs concat_Nil validateService_Nil jobs
      validateVolume_Nil bindLayoutViolations_Nil list.map_disc_iff filter_values_Nil
    by blast
qed

subsection \<open>What a host mount can reach\<close>

text \<open>
  A host path outside the app's folder that may be mounted: not inside another app's folder, apart
  from the data folders, not holding the apps folder, and inside a folder the operator
  allows, or under \<open>/var/log\<close> read-only, or apart from every system folder.
\<close>

definition system_folders :: "string set" where
  "system_folders = {''/bin'', ''/boot'', ''/dev'', ''/etc'', ''/home'', ''/lib'', ''/lib32'', ''/lib64'', ''/libx32'', ''/proc'', ''/root'',
     ''/run'', ''/sbin'', ''/snap'', ''/sys'', ''/usr'', ''/var/backups'', ''/var/lib'', ''/var/log'', ''/var/mail'', ''/var/run'', ''/var/spool''}"

definition host_path_ok :: "hostPaths \<Rightarrow> string \<Rightarrow> bool \<Rightarrow> bool" where
  "host_path_ok h p readOnly \<longleftrightarrow>
     (\<forall>a \<in> set (hp_appsDirs h). within p a \<longrightarrow> p = a) \<and> (\<forall>a \<in> set (hp_appsDirs h). \<not> within a p) \<and>
     (\<forall>d \<in> set (hp_dataDirs h). \<not> within p d \<and> \<not> within d p) \<and>
     ((\<exists>a \<in> set (hp_allowed h). within p a) \<or> readOnly \<and> within p ''/var/log'' \<or>
      (\<forall>s \<in> system_folders. \<not> within p s \<and> \<not> within s p))"

lemma systemPaths_set: "set systemPaths = system_folders"
  by (simp add: systemPaths_def system_folders_def)

lemma protectedReason_None: "protectedReason h p ro = None \<longleftrightarrow> host_path_ok h p ro"
  by (auto simp: protectedReason_def host_path_ok_def systemPaths_set [symmetric] overlaps_def list_ex_iff readOnlyPaths_def split: if_splits)

text \<open>
  \<open>EvalSymlinks\<close> follows links component by component: a path without links has no linked parent.
\<close>

definition symlink_coherent :: "filesystem \<Rightarrow> bool" where
  "symlink_coherent fs \<longleftrightarrow> (\<forall>p q. canonical p \<longrightarrow> canonical q \<longrightarrow> within p q \<longrightarrow>
     resolvePath fs p = Some p \<longrightarrow> resolvePath fs q = Some q)"

lemma newHostPaths_fields:
  assumes "is_abs (a_compose_path cfg)"
  shows "hp_fs (newHostPaths fs pr cfg) = fs"
    and "hp_appDir (newHostPaths fs pr cfg) \<noteq> [] \<Longrightarrow>
      resolvePath fs (hp_appDir (newHostPaths fs pr cfg)) = Some (hp_appReal (newHostPaths fs pr cfg)) \<and>
      canonical (hp_appDir (newHostPaths fs pr cfg))"
proof -
  let ?d = "dir_path (cleanAbs fs (a_compose_path cfg))"
  have ne: "a_compose_path cfg \<noteq> []" using assms by (auto simp: is_abs_def)
  have "cleanAbs fs (a_compose_path cfg) = clean_path (a_compose_path cfg)" using assms ne by (simp add: cleanAbs_def)
  then obtain cs where cs: "cleanAbs fs (a_compose_path cfg) = ''/'' @ cs"
    using clean_path_abs [OF assms] by (auto simp: abs_of_def)
  have "is_abs (take (length (''/'' @ cs) - length (after_last CHR ''/'' (''/'' @ cs))) (''/'' @ cs))"
  proof -
    have "length (after_last CHR ''/'' (''/'' @ cs)) < length (''/'' @ cs)"
    proof -
      have "takeWhile (\<lambda>x. x \<noteq> CHR ''/'') (rev cs @ ''/'') = takeWhile (\<lambda>x. x \<noteq> CHR ''/'') (rev cs)"
        by (induction "rev cs" rule: list.induct) (simp_all add: takeWhile_tail)
      then show ?thesis
        using length_takeWhile_le [of "\<lambda>x. x \<noteq> CHR ''/''" "rev cs"] by (simp add: after_last_def)
    qed
    then show ?thesis by (cases "length (''/'' @ cs) - length (after_last CHR ''/'' (''/'' @ cs))") (auto simp: is_abs_def)
  qed
  then have d: "canonical ?d" unfolding dir_path_def cs by (rule canonical_clean_path)
  show "hp_fs (newHostPaths fs pr cfg) = fs" by (simp add: newHostPaths_def Let_def)
  show "hp_appDir (newHostPaths fs pr cfg) \<noteq> [] \<Longrightarrow>
      resolvePath fs (hp_appDir (newHostPaths fs pr cfg)) = Some (hp_appReal (newHostPaths fs pr cfg)) \<and>
      canonical (hp_appDir (newHostPaths fs pr cfg))"
    using d ne by (auto simp: newHostPaths_def Let_def split: option.splits)
qed

definition source_path :: "hostPaths \<Rightarrow> string \<Rightarrow> string" where
  "source_path h src = clean_path (if is_abs src then src else join_path [hp_appDir h, src])"

lemma bindReason_safe:
  assumes abs: "is_abs (a_compose_path cfg)" and coh: "symlink_coherent fs"
    and h: "h = newHostPaths fs pr cfg" and b: "bindReason h src ro = None" and src: "is_abs src"
  shows "\<exists>real. resolvePath fs (clean_path src) = Some real \<and>
    (hp_appDir h \<noteq> [] \<and> within real (hp_appReal h) \<or> host_path_ok h real ro)"
proof -
  let ?l = "clean_path src"
  note hf = newHostPaths_fields [OF abs, of fs pr, folded h]
  have bp: "bind_paths h src ro = None" using b src by (simp add: bindReason_def)
  then obtain real where real: "resolvePath fs ?l = Some real"
    using hf(1) by (auto simp: bind_paths_def Let_def split: option.splits)
  show ?thesis
  proof (cases "inApp h ?l real")
    case True
    then show ?thesis using real by (auto simp: inApp_def)
  next
    case na: False
    have 1: "hp_appDir h = [] \<or> \<not> within ?l (hp_appDir h) \<Longrightarrow> protectedReason h ?l ro = None"
      and 2: "real \<noteq> ?l \<Longrightarrow> protectedReason h real ro = None"
      using bp real hf(1) na by (auto simp: bind_paths_def Let_def split: option.splits if_splits)
    show ?thesis
    proof (cases "real = ?l")
      case False
      then show ?thesis using 2 real protectedReason_None by blast
    next
      case True
      show ?thesis
      proof (cases "hp_appDir h = [] \<or> \<not> within ?l (hp_appDir h)")
        case t: True
        then show ?thesis using 1 True real protectedReason_None by blast
      next
        case f: False
        have "canonical ?l" using src by (rule canonical_clean_path)
        then have "resolvePath fs (hp_appDir h) = Some (hp_appDir h)"
          using coh f hf(2) real True unfolding symlink_coherent_def by blast
        then have "hp_appReal h = hp_appDir h" using hf(2) f by simp
        then show ?thesis using f True na by (simp add: inApp_def)
      qed
    qed
  qed
qed

text \<open>
  Property C4. In an accepted project, the host folder behind every mount with an absolute source of
  a service or of one of its pre_start hooks, after resolving symbolic links, lies in the app's own
  folder or is one the policy allows (outside other apps' folders, SimpleDeploy's data and the
  protected system folders), so no link can smuggle a protected folder in.
\<close>

theorem accepted_mounts_safe:
  assumes "is_abs (a_compose_path cfg)" "symlink_coherent fs"
    and "ValidateComposeSecurity fs pr (Some cfg) = []" "a_project cfg = Some p"
    and "map_of (all_services p) name = Some svc" "c = s_container svc \<or> c \<in> set (s_pre_start svc)"
    and "vol \<in> set (c_volumes c)" "is_host_mount vol" "is_abs (vs_source vol)"
  shows "\<exists>real. resolvePath fs (clean_path (vs_source vol)) = Some real \<and>
    (hp_appDir (newHostPaths fs pr cfg) \<noteq> [] \<and> within real (hp_appReal (newHostPaths fs pr cfg)) \<or>
     host_path_ok (newHostPaths fs pr cfg) real (vs_readonly vol))"
proof -
  have "project_safe (newHostPaths fs pr cfg) cfg p"
    using assms(3,4) by (simp add: ValidateComposeSecurity_def project_violations_Nil)
  then have "service_safe (newHostPaths fs pr cfg) svc" using assms(5) unfolding project_safe_def by blast
  then have "container_safe (newHostPaths fs pr cfg) c" using assms(6) by (auto simp: service_safe_def)
  then have "bindReason (newHostPaths fs pr cfg) (vs_source vol) (vs_readonly vol) = None"
    using assms(7,8) unfolding container_safe_def by blast
  then show ?thesis by (rule bindReason_safe [OF assms(1,2) refl _ assms(9)])
qed

subsection \<open>What an accepted project gets of the host\<close>

text \<open>
  The specification names what may not happen in words of its own: no definition of the validator is used but the
  folders it works with (\<open>newHostPaths\<close>), the resolution of links and \<open>within\<close>.
\<close>

definition in_app_folder :: "hostPaths \<Rightarrow> string \<Rightarrow> bool" where
  "in_app_folder h real \<longleftrightarrow> hp_appDir h \<noteq> [] \<and> within real (hp_appReal h)"

definition folder_allowed :: "hostPaths \<Rightarrow> string \<Rightarrow> bool \<Rightarrow> bool" where
  "folder_allowed h src readOnly \<longleftrightarrow>
     (\<exists>real. resolvePath (hp_fs h) (source_path h src) = Some real \<and> (in_app_folder h real \<or> host_path_ok h real readOnly))"

definition file_in_app :: "hostPaths \<Rightarrow> string \<Rightarrow> bool" where
  "file_in_app h f \<longleftrightarrow> (\<exists>real. resolvePath (hp_fs h) (source_path h f) = Some real \<and> in_app_folder h real)"

definition escape_caps :: "string set" where
  "escape_caps = {''ALL'', ''SYS_ADMIN'', ''SYS_PTRACE'', ''SYS_MODULE'', ''SYS_RAWIO'', ''SYS_BOOT'', ''SYS_TIME'', ''NET_ADMIN'',
     ''NET_RAW'', ''DAC_READ_SEARCH'', ''DAC_OVERRIDE'', ''BPF'', ''PERFMON'', ''MKNOD''}"

definition unconfining_opts :: "string set" where
  "unconfining_opts = {''seccomp=unconfined'', ''seccomp:unconfined'', ''apparmor=unconfined'', ''apparmor:unconfined'',
     ''systempaths=unconfined'', ''systempaths:unconfined'', ''label=disable'', ''label:disable'', ''no-new-privileges=false'',
     ''no-new-privileges:false''}"

definition isolated :: "ContainerSpec \<Rightarrow> bool" where
  "isolated c \<longleftrightarrow>
     \<not> c_privileged c \<and> \<not> c_use_api_socket c \<and> c_pid c = [] \<and>
     (\<forall>m \<in> {c_network_mode c, c_ipc c}. to_lower (trim_space m) \<noteq> ''host'' \<and> \<not> prefix ''container:'' (to_lower (trim_space m))) \<and>
     (\<forall>m \<in> {trim_space (c_uts c), c_userns_mode c, c_cgroup c}. to_lower m \<noteq> ''host'') \<and>
     (\<forall>cap \<in> set (c_cap_add c). \<forall>x \<in> escape_caps. to_upper (trim_space cap) \<noteq> x \<and> to_upper (trim_space cap) \<noteq> ''CAP_'' @ x) \<and>
     (\<forall>so \<in> set (c_security_opt c). to_lower (filter (\<lambda>ch. ch \<noteq> CHR '' '') so) \<notin> unconfining_opts) \<and>
     c_devices c = [] \<and> c_device_cgroup_rules c = [] \<and> c_volumes_from c = []"

definition container_confined :: "hostPaths \<Rightarrow> ContainerSpec \<Rightarrow> bool" where
  "container_confined h c \<longleftrightarrow> isolated c \<and>
     (\<forall>vol \<in> set (c_volumes c). vs_source vol \<noteq> [] \<and> (vs_type vol = ''bind'' \<or> is_abs (vs_source vol)) \<longrightarrow>
        folder_allowed h (vs_source vol) (vs_readonly vol)) \<and>
     (\<forall>f \<in> set (c_env_files c) \<union> set (c_label_files c). f \<noteq> [] \<longrightarrow> file_in_app h f)"

text \<open>A build context that is not a folder of the host: a URL, a git address or another service.\<close>

definition remote_context :: "string \<Rightarrow> bool" where
  "remote_context v \<longleftrightarrow> sublist ''://'' v \<or> prefix ''service:'' v \<or> prefix ''git@'' v \<or> prefix ''github.com/'' v"

definition build_confined :: "hostPaths \<Rightarrow> BuildConfig \<Rightarrow> bool" where
  "build_confined h b \<longleftrightarrow>
     (b_context b \<noteq> [] \<and> \<not> remote_context (b_context b) \<longrightarrow> file_in_app h (b_context b) \<and>
        (b_dockerfile b \<noteq> [] \<and> b_dockerfile_inline b = [] \<longrightarrow>
           file_in_app h (if is_abs (b_dockerfile b) then b_dockerfile b else join_path [b_context b, b_dockerfile b]))) \<and>
     (\<forall>k v. map_of (b_additional_contexts b) k = Some v \<and> v \<noteq> [] \<and> \<not> remote_context v \<longrightarrow> file_in_app h v) \<and>
     (\<forall>p \<in> set (b_ssh_paths b). p \<noteq> [] \<longrightarrow> file_in_app h p) \<and>
     to_lower (b_network b) \<noteq> ''host'' \<and> \<not> b_privileged b \<and>
     (\<forall>e \<in> set (b_entitlements b). to_lower (trim_space e) \<noteq> ''security.insecure'' \<and> to_lower (trim_space e) \<noteq> ''network.host'')"

text \<open>The options of a volume, and what the local driver mounts with them.\<close>

definition driver_option :: "VolumeConfig \<Rightarrow> string \<Rightarrow> string" where
  "driver_option v k = (case map_of (v_driver_opts v) k of None \<Rightarrow> [] | Some x \<Rightarrow> x)"

definition device_of :: "VolumeConfig \<Rightarrow> string" where
  "device_of v = trim_space (driver_option v ''device'')"

definition mount_type :: "VolumeConfig \<Rightarrow> string" where
  "mount_type v = to_lower (trim_space (driver_option v ''type''))"

definition mount_flags :: "VolumeConfig \<Rightarrow> string set" where
  "mount_flags v = trim_space ` set (split_on CHR '','' (to_lower (driver_option v ''o'')))"

definition binds_device :: "VolumeConfig \<Rightarrow> bool" where
  "binds_device v \<longleftrightarrow> mount_type v = ''none'' \<or> ''bind'' \<in> mount_flags v \<or> ''rbind'' \<in> mount_flags v"

definition local_driver :: "VolumeConfig \<Rightarrow> bool" where
  "local_driver v \<longleftrightarrow> v_driver v = [] \<or> v_driver v = ''local''"

definition volume_confined :: "hostPaths \<Rightarrow> string \<Rightarrow> string \<Rightarrow> string \<Rightarrow> VolumeConfig \<Rightarrow> bool" where
  "volume_confined h app project name v \<longleftrightarrow>
     (prefix ''simpledeploy-'' (v_name v) \<longrightarrow> v_name v = project @ ''_'' @ name \<or> v_name v = ''simpledeploy-'' @ app @ ''_'' @ name) \<and>
     (local_driver v \<and> binds_device v \<and> device_of v \<noteq> [] \<longrightarrow> is_abs (device_of v) \<and> folder_allowed h (device_of v) False) \<and>
     (local_driver v \<and> \<not> binds_device v \<and> (mount_type v \<noteq> [] \<or> device_of v \<noteq> []) \<longrightarrow>
        mount_type v \<in> {''nfs'', ''nfs4'', ''cifs'', ''smb3'', ''tmpfs''}) \<and>
     (\<not> local_driver v \<longrightarrow> (\<forall>k \<in> {''device'', ''mountpoint''}. is_abs (trim_space (driver_option v k)) \<and>
        \<not> prefix ''//'' (trim_space (driver_option v k)) \<longrightarrow> folder_allowed h (trim_space (driver_option v k)) False))"

text \<open>The containers and builds of a project; a service behind a profile counts too, unless an active one has its name.\<close>

definition has_service :: "Project \<Rightarrow> string \<Rightarrow> ServiceSpec \<Rightarrow> bool" where
  "has_service p name svc \<longleftrightarrow> map_of (p_services p) name = Some svc \<or> map_of (p_services p) name = None \<and> map_of (p_disabled p) name = Some svc"

definition has_job :: "Project \<Rightarrow> JobSpec \<Rightarrow> bool" where
  "has_job p job \<longleftrightarrow> (\<exists>name. map_of (p_jobs p) name = Some job)"

definition containers_of :: "Project \<Rightarrow> ContainerSpec set" where
  "containers_of p = {c. \<exists>name svc. has_service p name svc \<and> (c = s_container svc \<or> c \<in> set (s_pre_start svc))} \<union>
     {c. \<exists>job. has_job p job \<and> c = j_container job}"

definition builds_of :: "Project \<Rightarrow> BuildConfig set" where
  "builds_of p = {b. \<exists>name svc. has_service p name svc \<and> s_build svc = Some b} \<union> {b. \<exists>job. has_job p job \<and> j_build job = Some b}"

text \<open>The host folder a mount shows, and whether it can be written.\<close>

definition shows_folder :: "hostPaths \<Rightarrow> Project \<Rightarrow> VolumeMountSpec \<Rightarrow> string \<Rightarrow> bool \<Rightarrow> bool" where
  "shows_folder h p vol real writable \<longleftrightarrow>
     vs_type vol \<noteq> ''volume'' \<and> vs_source vol \<noteq> [] \<and> (vs_type vol = ''bind'' \<or> is_abs (vs_source vol)) \<and>
       resolvePath (hp_fs h) (source_path h (vs_source vol)) = Some real \<and> writable = (\<not> vs_readonly vol) \<or>
     vs_type vol = ''volume'' \<and>
       (\<exists>v. map_of (p_volumes p) (vs_source vol) = Some v \<and> local_driver v \<and> binds_device v \<and> is_abs (device_of v) \<and>
          resolvePath (hp_fs h) (clean_path (device_of v)) = Some real \<and>
          writable = (\<not> vs_readonly vol \<and> ''ro'' \<notin> mount_flags v))"

definition folders_apart :: "hostPaths \<Rightarrow> Project \<Rightarrow> bool" where
  "folders_apart h p \<longleftrightarrow>
     (\<forall>c \<in> containers_of p. \<forall>vol \<in> set (c_volumes c). \<forall>real. shows_folder h p vol real True \<longrightarrow>
        \<not> (hp_appReal h \<noteq> [] \<and> real = hp_appReal h) \<and>
        (\<forall>c' \<in> containers_of p. \<forall>vol' \<in> set (c_volumes c'). \<forall>real' w. shows_folder h p vol' real' w \<longrightarrow> within real' real \<longrightarrow>
           real' = real))"

definition project_isolated :: "hostPaths \<Rightarrow> AppConfig \<Rightarrow> Project \<Rightarrow> bool" where
  "project_isolated h cfg p \<longleftrightarrow>
     (\<forall>ref \<in> set (a_file_refs cfg). \<exists>f. ref = ExtendsRef f \<and> file_in_app h f) \<and>
     (\<forall>c \<in> containers_of p. container_confined h c) \<and> (\<forall>b \<in> builds_of p. build_confined h b) \<and>
     (\<forall>name svc. has_service p name svc \<longrightarrow> \<not> s_has_provider svc \<and> True \<notin> set (s_post_start_privileged svc @ s_pre_stop_privileged svc)) \<and>
     (\<forall>name v. map_of (p_volumes p) name = Some v \<longrightarrow> volume_confined h (a_name cfg) (p_name p) name v) \<and>
     (\<forall>name n. map_of (p_networks p) name = Some n \<longrightarrow> to_lower (trim_space (n_name n)) \<noteq> ''host'' \<and>
        \<not> prefix ''container:'' (to_lower (trim_space (n_name n))) \<and> to_lower (trim_space (n_driver n)) \<noteq> ''host'') \<and>
     (\<forall>name s. map_of (p_secrets p) name = Some s \<or> map_of (p_configs p) name = Some s \<longrightarrow>
        f_file s \<noteq> [] \<and> \<not> f_external s \<longrightarrow> file_in_app h (f_file s)) \<and>
     folders_apart h p"

text \<open>The pieces.\<close>

lemma to_lower_host:
  "lower_char CHR ''h'' = CHR ''h''" "lower_char CHR ''o'' = CHR ''o''" "lower_char CHR ''s'' = CHR ''s''" "lower_char CHR ''t'' = CHR ''t''"
  by (simp_all add: lower_char_def)

lemma join_path_abs: "is_abs d \<Longrightarrow> is_abs (join_path [d, s])"
  by (cases s) (auto simp: join_path_def is_abs_def clean_path_def Let_def)

lemma confined_in_app: "confined h f \<Longrightarrow> file_in_app h f"
  by (auto simp: confined_def file_in_app_def in_app_folder_def source_path_def inApp_def Let_def split: if_splits option.splits)

lemma bindReason_allowed:
  assumes "is_abs (a_compose_path cfg)" "symlink_coherent fs" "bindReason (newHostPaths fs pr cfg) src ro = None"
  shows "folder_allowed (newHostPaths fs pr cfg) src ro"
proof -
  let ?h = "newHostPaths fs pr cfg"
  note hf = newHostPaths_fields [OF assms(1), of fs pr]
  show ?thesis
  proof (cases "is_abs src")
    case True
    then show ?thesis
      using bindReason_safe [OF assms(1,2) refl assms(3)] hf(1) by (simp add: folder_allowed_def in_app_folder_def source_path_def)
  next
    case False
    let ?s = "join_path [hp_appDir ?h, src]"
    have ne: "hp_appDir ?h \<noteq> []" and b: "bind_paths ?h ?s ro = None"
      using assms(3) False by (auto simp: bindReason_def split: if_splits)
    then have c: "canonical (hp_appDir ?h)" using hf(2) by blast
    then have "is_abs ?s" by (simp add: canonical_def join_path_abs)
    moreover from this have "bindReason ?h ?s ro = None" using b by (simp add: bindReason_def)
    ultimately show ?thesis
      using bindReason_safe [OF assms(1,2) refl] hf(1) False by (simp add: folder_allowed_def in_app_folder_def source_path_def)
  qed
qed

lemma caps_escape: "normalizeCap cap \<notin> set dangerousCaps \<Longrightarrow> x \<in> escape_caps \<Longrightarrow>
    to_upper (trim_space cap) \<noteq> x \<and> to_upper (trim_space cap) \<noteq> ''CAP_'' @ x"
  by (auto simp: normalizeCap_def trim_prefix_def dangerousCaps_def escape_caps_def)

lemma opts_unconfining: "\<not> unsafeSecurityOpt so \<Longrightarrow> to_lower (filter (\<lambda>ch. ch \<noteq> CHR '' '') so) \<notin> unconfining_opts"
  by (auto simp: unsafeSecurityOpt_def unconfining_opts_def Let_def)

lemma container_safe_confined:
  assumes "is_abs (a_compose_path cfg)" "symlink_coherent fs" "container_safe (newHostPaths fs pr cfg) c"
  shows "container_confined (newHostPaths fs pr cfg) c"
proof -
  have "isolated c"
    using assms(3) caps_escape opts_unconfining
    by (auto simp: container_safe_def isolated_def host_mode_def equal_fold_def to_lower_host)
  moreover have "folder_allowed (newHostPaths fs pr cfg) (vs_source vol) (vs_readonly vol)"
    if "vol \<in> set (c_volumes c)" "vs_source vol \<noteq> []" "vs_type vol = ''bind'' \<or> is_abs (vs_source vol)" for vol
    using assms(3) that bindReason_allowed [OF assms(1,2)] by (auto simp: container_safe_def is_host_mount_def is_abs_def)
  ultimately show ?thesis
    using assms(3) confined_in_app unfolding container_confined_def container_safe_def by blast
qed

lemma isLocalContext_remote: "isLocalContext v \<longleftrightarrow> \<not> remote_context v"
proof -
  have s: "sublist ''://'' w \<Longrightarrow> prefix w v \<Longrightarrow> sublist ''://'' v" for w by (meson prefix_imp_sublist sublist_order.order_trans)
  have "prefix ''https://'' v \<or> prefix ''http://'' v \<or> prefix ''git://'' v \<or> prefix ''ssh://'' v \<longrightarrow> sublist ''://'' v"
    using s [of "''https://''"] s [of "''http://''"] s [of "''git://''"] s [of "''ssh://''"] by (simp add: sublist_Cons_right)
  then show ?thesis by (auto simp: isLocalContext_def remote_context_def)
qed

lemma build_safe_confined: "build_safe h (Some b) \<Longrightarrow> build_confined h b"
  using confined_in_app
  by (auto simp: build_safe_def build_confined_def isLocalContext_remote equal_fold_def to_lower_host dockerfile_path_def split: if_splits)

lemma option_simps:
  "trim_space (opt (v_driver_opts v) ''device'') = device_of v" "to_lower (trim_space (opt (v_driver_opts v) ''type'')) = mount_type v"
  "hasMountOpt (opt (v_driver_opts v) ''o'') w \<longleftrightarrow> w \<in> mount_flags v" "opt (v_driver_opts v) k = driver_option v k"
  by (auto simp: opt_def driver_option_def device_of_def mount_type_def mount_flags_def hasMountOpt_def list_ex_iff split: option.splits)

lemma volume_safe_confined:
  assumes "is_abs (a_compose_path cfg)" "symlink_coherent fs" "volume_safe (newHostPaths fs pr cfg) app project name v"
  shows "volume_confined (newHostPaths fs pr cfg) app project name v"
proof -
  let ?h = "newHostPaths fs pr cfg"
  have none: "device_of v = []" "mount_type v = []" "driver_option v k = []" if "v_driver_opts v = []" for k
    using that by (simp_all add: device_of_def mount_type_def driver_option_def trim_space_def drop_end_while_def)
  note ok = bindReason_allowed [OF assms(1,2)]
  show ?thesis
  proof (cases "v_driver_opts v = []")
    case True
    then show ?thesis using assms(3) none by (auto simp: volume_safe_def volume_confined_def trim_space_def drop_end_while_def is_abs_def)
  next
    case False
    show ?thesis
    proof (cases "local_driver v")
      case True
      then have "local_driver_violations (v_driver_opts v) ?h = []"
        using assms(3) False by (auto simp: volume_safe_def local_driver_def)
      then have "(binds_device v \<and> device_of v \<noteq> [] \<longrightarrow> is_abs (device_of v) \<and> bindReason ?h (device_of v) False = None) \<and>
          (\<not> binds_device v \<and> (mount_type v \<noteq> [] \<or> device_of v \<noteq> []) \<longrightarrow> mount_type v \<in> set networkVolumeTypes)"
        unfolding local_driver_violations_def Let_def option_simps(1-3)
        by (auto simp: binds_device_def split: if_splits option.splits)
      then show ?thesis using assms(3) True ok by (auto simp: volume_safe_def volume_confined_def networkVolumeTypes_def)
    next
      case False
      then have "foreign_driver_violations (v_driver_opts v) ?h = []"
        using assms(3) \<open>v_driver_opts v \<noteq> []\<close> by (auto simp: volume_safe_def local_driver_def)
      then have "bindReason ?h (trim_space (driver_option v k)) False = None"
        if "k \<in> {''device'', ''mountpoint''}" "is_abs (trim_space (driver_option v k))" "\<not> prefix ''//'' (trim_space (driver_option v k))" for k
        using that unfolding foreign_driver_violations_def map_filter_Nil_iff Let_def option_simps(4)
        by (auto simp: is_abs_def split: if_splits)
      then show ?thesis using assms(3) False ok unfolding volume_safe_def volume_confined_def by blast
    qed
  qed
qed

lemma all_services_has:
  assumes "gomap_ok (p_services p)" "gomap_ok (p_disabled p)"
  shows "map_of (all_services p) name = Some svc \<longleftrightarrow> has_service p name svc"
proof -
  have "map_of (rev ps) = map_of ps" if "gomap_ok ps" for ps :: "(string \<times> ServiceSpec) list"
    using that by (intro map_of_inject_set [THEN iffD2]) (simp_all add: rev_map [symmetric])
  note rev = this [OF assms(1)] this [OF assms(2)]
  show ?thesis
    by (simp add: all_services_def has_service_def AList.updates_conv' map_upds_def zip_map_fst_snd map_add_def rev split: option.splits)
qed

text \<open>Every mount of a container is a bind of the layout.\<close>

lemma containerMounts_service:
  assumes "(name, svc) \<in> set (values_by_key services)"
    and "m \<in> set ((ServiceC name, c_volumes (s_container svc)) #
      map (\<lambda>(i, hook). (PreStartC name (i + 1), c_volumes hook)) (enumerate 0 (s_pre_start svc)))"
  shows "m \<in> set (containerMounts services jobs)"
proof -
  let ?f = "\<lambda>(name, svc). (ServiceC name, c_volumes (s_container svc)) #
      map (\<lambda>(i, hook). (PreStartC name (i + 1), c_volumes hook)) (enumerate 0 (s_pre_start svc))"
  have "m \<in> set (?f (name, svc))" using assms(2) by (simp only: prod.case)
  then have "m \<in> set (concat (map ?f (values_by_key services)))" using assms(1) by (simp only: set_concat set_map UN_simps image_image) blast
  then show ?thesis unfolding containerMounts_def set_append by blast
qed

lemma containers_mounted:
  assumes "gomap_ok (p_services p)" "gomap_ok (p_disabled p)" "c \<in> containers_of p"
  shows "\<exists>who. (who, c_volumes c) \<in> set (containerMounts (all_services p) (p_jobs p))"
proof -
  consider (service) name svc where "map_of (all_services p) name = Some svc" "c = s_container svc"
    | (hook) name svc where "map_of (all_services p) name = Some svc" "c \<in> set (s_pre_start svc)"
    | (job) name job where "map_of (p_jobs p) name = Some job" "c = j_container job"
    using assms(3) unfolding containers_of_def has_job_def all_services_has [OF assms(1,2), symmetric] by blast
  then show ?thesis
  proof cases
    case service
    then have "(name, svc) \<in> set (values_by_key (all_services p))" by (simp add: set_values_by_key)
    then show ?thesis using service by (blast intro: containerMounts_service list.set_intros(1))
  next
    case hook
    then have svc: "(name, svc) \<in> set (values_by_key (all_services p))" by (simp add: set_values_by_key)
    obtain i where "i < length (s_pre_start svc)" "s_pre_start svc ! i = c"
      using hook(2) by (auto simp: in_set_conv_nth)
    then have "(i, c) \<in> set (enumerate 0 (s_pre_start svc))" by (simp add: in_set_enumerate_eq)
    then have "(PreStartC name (i + 1), c_volumes c) \<in>
        set (map (\<lambda>(i, hook). (PreStartC name (i + 1), c_volumes hook)) (enumerate 0 (s_pre_start svc)))"
      unfolding set_map by (rule rev_image_eqI) simp
    then show ?thesis using containerMounts_service [OF svc] by (metis list.set_intros(2))
  next
    case job
    then have "(name, job) \<in> set (values_by_key (p_jobs p))" by (simp add: set_values_by_key)
    then have "(JobC name, c_volumes c) \<in> set (map (\<lambda>(name, job). (JobC name, c_volumes (j_container job))) (values_by_key (p_jobs p)))"
      unfolding set_map by (rule rev_image_eqI) (simp add: job)
    then show ?thesis unfolding containerMounts_def set_append by blast
  qed
qed

lemma volumeHostBind_device:
  "local_driver v \<Longrightarrow> binds_device v \<Longrightarrow> is_abs (device_of v) \<Longrightarrow> volumeHostBind v = Some (device_of v, ''ro'' \<in> mount_flags v)"
  unfolding volumeHostBind_def Let_def option_simps(1-3) by (simp add: local_driver_def binds_device_def)

lemma shows_bind:
  assumes "container_safe h c" "vol \<in> set (c_volumes c)" "shows_folder h p vol real w"
  shows "\<exists>b. mount_bind (p_volumes p) h who vol = Some b \<and> bind_src b = real \<and> bind_rw b = w"
proof (cases "vs_type vol = ''volume''")
  case True
  then obtain v where "map_of (p_volumes p) (vs_source vol) = Some v" "local_driver v" "binds_device v" "is_abs (device_of v)"
      "resolvePath (hp_fs h) (clean_path (device_of v)) = Some real" "w = (\<not> vs_readonly vol \<and> ''ro'' \<notin> mount_flags v)"
    using assms(3) by (auto simp: shows_folder_def)
  then show ?thesis using True by (simp add: mount_bind_def volumeHostBind_device real_or_same_def)
next
  case False
  then have v: "is_host_mount vol" "resolvePath (hp_fs h) (source_path h (vs_source vol)) = Some real" "w = (\<not> vs_readonly vol)"
    using assms(3) by (auto simp: shows_folder_def is_host_mount_def is_abs_def)
  then have "bindReason h (vs_source vol) (vs_readonly vol) = None" using assms(1,2) by (simp add: container_safe_def)
  then have "is_abs (vs_source vol) \<or> hp_appDir h \<noteq> []" by (auto simp: bindReason_def split: if_splits)
  then show ?thesis using v False by (auto simp: mount_bind_def real_or_same_def source_path_def)
qed

lemma layout_safe_apart:
  assumes "gomap_ok (p_services p)" "gomap_ok (p_disabled p)" "\<forall>c \<in> containers_of p. container_safe h c"
    and "layout_safe h (layout_binds (containerMounts (all_services p) (p_jobs p)) (p_volumes p) h)"
  shows "folders_apart h p"
proof -
  let ?binds = "layout_binds (containerMounts (all_services p) (p_jobs p)) (p_volumes p) h"
  have bind: "\<exists>b \<in> set ?binds. bind_src b = real \<and> bind_rw b = w"
    if c: "c \<in> containers_of p" "vol \<in> set (c_volumes c)" "shows_folder h p vol real w" for c vol real w
  proof -
    obtain who where who: "(who, c_volumes c) \<in> set (containerMounts (all_services p) (p_jobs p))"
      using containers_mounted [OF assms(1,2) c(1)] by blast
    obtain b where b: "mount_bind (p_volumes p) h who vol = Some b" "bind_src b = real" "bind_rw b = w"
      using shows_bind assms(3) c by blast
    then have "b \<in> set (List.map_filter (mount_bind (p_volumes p) h who) (c_volumes c))"
      using c(2) by (force simp: List.map_filter_def)
    then have "b \<in> set ?binds" using who by (force simp: layout_binds_def)
    with b show ?thesis by blast
  qed
  show ?thesis
    unfolding folders_apart_def
  proof (intro ballI allI impI conjI)
    fix c vol real
    assume 1: "c \<in> containers_of p" "vol \<in> set (c_volumes c)" "shows_folder h p vol real True"
    from bind [OF this] obtain a where a: "a \<in> set ?binds" "bind_src a = real" "bind_rw a" by auto
    then show "\<not> (hp_appReal h \<noteq> [] \<and> real = hp_appReal h)" using assms(4) unfolding layout_safe_def by blast
    fix c' vol' real' w
    assume "c' \<in> containers_of p" "vol' \<in> set (c_volumes c')" "shows_folder h p vol' real' w" "within real' real"
    then show "real' = real" using bind a assms(4) unfolding layout_safe_def by metis
  qed
qed


subsection \<open>An accepted project\<close>

definition plain_fs :: filesystem where
  "plain_fs = \<lparr>evalSymlinks = Some, lstat = (\<lambda>_. LstatOk), getwd = Some ''/''\<rparr>"

definition no_protected :: protected_paths where
  "no_protected = \<lparr>pr_dataDir = ''/srv/data'', pr_appsDir = ''/srv/apps'', pr_allowed = []\<rparr>"

definition plain_container :: "VolumeMountSpec list \<Rightarrow> ContainerSpec" where
  "plain_container vols =
     \<lparr>c_privileged = False, c_use_api_socket = False, c_network_mode = [], c_pid = [], c_ipc = [], c_uts = [],
      c_userns_mode = [], c_cgroup = [], c_cap_add = [], c_security_opt = [], c_devices = [],
      c_device_cgroup_rules = [], c_volumes_from = [], c_volumes = vols, c_env_files = [], c_label_files = []\<rparr>"

definition example_mount :: VolumeMountSpec where
  "example_mount = \<lparr>vs_type = ''bind'', vs_source = ''/srv/media'', vs_target = ''/m'', vs_readonly = True\<rparr>"

definition example_service :: ServiceSpec where
  "example_service = \<lparr>s_container = plain_container [example_mount], s_image = ''img'', s_restart = [], s_labels = [],
     s_depends_on = [], s_environment = [], s_ports = [], s_deploy_mode = None, s_post_start_privileged = [],
     s_pre_stop_privileged = [], s_has_provider = False, s_build = None, s_pre_start = []\<rparr>"

definition example_project :: Project where
  "example_project = \<lparr>p_name = ''simpledeploy-web'', p_services = [(''web'', example_service)], p_disabled = [],
     p_jobs = [], p_volumes = [], p_networks = [], p_secrets = [], p_configs = []\<rparr>"

definition example_cfg :: AppConfig where
  "example_cfg = \<lparr>a_name = ''web'', a_compose_path = ''/srv/apps/web/docker-compose.yml'', a_endpoints = [],
     a_labels = ExtractLabels [], a_services = [], a_project = Some example_project, a_file_refs = []\<rparr>"

lemma clean_path_slash: "canonical p \<Longrightarrow> clean_path (p @ ''/'') = p"
proof -
  assume c: "canonical p"
  then have a: "is_abs p" "is_abs (p @ ''/'')" by (auto simp: canonical_def is_abs_def)
  have "clean_elems True (p @ ''/'') = clean_elems True p"
    by (simp add: clean_elems_def split_on_append_sep)
  then show ?thesis using c a clean_path_abs by (simp add: canonical_def)
qed

lemma plain_fs_resolve: "canonical p \<Longrightarrow> resolvePath plain_fs p = Some p"
proof -
  assume c: "canonical p"
  then have "p \<noteq> []" by (auto simp: canonical_def is_abs_def)
  then show ?thesis using clean_path_slash [OF c]
    by (subst resolvePath_def, subst resolve_loop.simps) (simp add: plain_fs_def join_path_def)
qed

lemma plain_fs_coherent: "symlink_coherent plain_fs"
  by (simp add: symlink_coherent_def plain_fs_resolve)

lemma example_canonical:
  "canonical ''/srv/media''" "canonical ''/srv/apps''" "canonical ''/srv/data''" "canonical ''/srv/apps/web''"
  by (simp_all add: canonical_def is_abs_def clean_path_def clean_elems_def)

lemma example_host_paths:
  "newHostPaths plain_fs no_protected example_cfg =
     \<lparr>hp_fs = plain_fs, hp_appDir = ''/srv/apps/web'', hp_appReal = ''/srv/apps/web'', hp_dataDirs = [''/srv/data''],
      hp_appsDirs = [''/srv/apps''], hp_allowed = []\<rparr>"
proof -
  have "dir_path (cleanAbs plain_fs (a_compose_path example_cfg)) = ''/srv/apps/web''"
    by (simp add: example_cfg_def cleanAbs_def dir_path_def clean_path_def clean_elems_def is_abs_def after_last_def)
  then show ?thesis
    by (simp add: newHostPaths_def plain_fs_resolve example_canonical withResolved_def no_protected_def example_cfg_def Let_def)
qed

lemma example_bind: "bindReason (newHostPaths plain_fs no_protected example_cfg) ''/srv/media'' True = None"
proof -
  have "clean_path ''/srv/media'' = ''/srv/media''" using example_canonical by (simp add: canonical_def)
  then show ?thesis
    by (simp add: example_host_paths bindReason_def bind_paths_def plain_fs_resolve example_canonical inApp_def within_def
        protectedReason_def overlaps_def systemPaths_def readOnlyPaths_def is_abs_def Let_def)
qed

lemma example_accepted: "ValidateComposeSecurity plain_fs no_protected (Some example_cfg) = []"
proof -
  have "project_safe (newHostPaths plain_fs no_protected example_cfg) example_cfg example_project"
    using example_bind
    by (simp add: project_safe_def example_cfg_def example_project_def all_services_def service_safe_def example_service_def
        container_safe_def plain_container_def build_safe_def host_mode_def equal_fold_def trim_space_def drop_end_while_def
        layout_safe_def layout_binds_def containerMounts_def values_by_key_def sortedKeys_def mount_bind_def
        is_host_mount_def example_mount_def List.map_filter_simps is_abs_def)
  then show ?thesis
    by (simp add: ValidateComposeSecurity_def project_violations_Nil example_cfg_def)
qed

theorem accepted_mounts_safe_witness:
  "\<exists>real. resolvePath plain_fs (clean_path ''/srv/media'') = Some real \<and>
    (hp_appDir (newHostPaths plain_fs no_protected example_cfg) \<noteq> [] \<and>
       within real (hp_appReal (newHostPaths plain_fs no_protected example_cfg)) \<or>
     host_path_ok (newHostPaths plain_fs no_protected example_cfg) real True)"
  using accepted_mounts_safe [OF _ plain_fs_coherent example_accepted, of example_project "''web''" example_service
      "plain_container [example_mount]" example_mount]
  by (simp add: example_cfg_def is_abs_def example_project_def all_services_def example_service_def plain_container_def
      example_mount_def is_host_mount_def)


end
