(* ===== verification/RawRefs.thy ===== *)
theory RawRefs
  imports ComposeValidate
begin

text \<open>
  internal/compose/rawrefs.go: the check that runs before the compose loader, over the raw YAML, that
  no include, label_file or extends makes the loader read a file outside the app's folder. The
  YAML decoder and the file system are parameters; a decoded value keeps its scalars as
  \<open>strconv\<close> formats them.
\<close>

datatype yany = YNil | YStr string | YNum string | YList "yany list" | YMap "(string \<times> yany) list" | YAnyMap "(yany \<times> yany) list" | YOther

definition rawScalar :: "yany \<Rightarrow> string option" where
  "rawScalar v = (case v of YStr s \<Rightarrow> Some s | YNum s \<Rightarrow> Some s | _ \<Rightarrow> None)"

text \<open>A map with keys that are not strings is read by the text of its scalar keys; the last one wins.\<close>

definition rawMap :: "yany \<Rightarrow> (string \<times> yany) list option" where
  "rawMap v =
     (case v of
        YMap m \<Rightarrow> Some m
      | YAnyMap kvs \<Rightarrow> Some (fold (\<lambda>(k, x) m. case rawScalar k of Some s \<Rightarrow> AList.update s x m | None \<Rightarrow> m) kvs [])
      | _ \<Rightarrow> None)"

text \<open>Indexing a map, which may be nil.\<close>

definition raw_index :: "(string \<times> yany) list option \<Rightarrow> string \<Rightarrow> yany" where
  "raw_index m k = (case m of None \<Rightarrow> YNil | Some kvs \<Rightarrow> (case map_of kvs k of Some v \<Rightarrow> v | None \<Rightarrow> YNil))"

definition rawDelete :: "string \<Rightarrow> yany \<Rightarrow> yany" where
  "rawDelete key v =
     (case v of
        YMap m \<Rightarrow> YMap (filter (\<lambda>p. fst p \<noteq> key) m)
      | YAnyMap kvs \<Rightarrow> YAnyMap (filter (\<lambda>p. rawScalar (fst p) \<noteq> Some key) kvs)
      | _ \<Rightarrow> v)"

subsection \<open>The check\<close>

definition maxExtendsDepth :: nat where
  "maxExtendsDepth = 8"

datatype section_kind = ServiceSection | JobSection

text \<open>Who has a reference: a service or job by name, and the number of its hook if it is one.\<close>

datatype owner = Owner section_kind string "nat option"

datatype ref_kind = LabelFile | ExtendsFile

datatype ref_violation =
    IncludeUsed
  | NotAPath owner ref_kind
  | OutsideApp owner ref_kind string
  | NestedTooDeeply owner
  | ExtendsNotYaml owner string

text \<open>
  What the check reads: symbolic links, whether a resolved path is a regular file, the content of a
  file, and the documents of a content with whether it decodes to its end.
\<close>

record ref_env =
  re_fs :: filesystem
  re_regular :: "string \<Rightarrow> bool"
  re_read :: "string \<Rightarrow> string option"
  re_decode :: "string \<Rightarrow> yany list \<times> bool"

record rawRefChecker =
  rc_seen :: "string list"
  rc_violations :: "ref_violation list"

definition rc_add :: "ref_violation \<Rightarrow> rawRefChecker \<Rightarrow> rawRefChecker" where
  "rc_add v c = c\<lparr>rc_violations := rc_violations c @ [v]\<rparr>"

text \<open>A plain relative path to a regular file inside the app's folder: its resolved path.\<close>

definition plain_ref :: "string \<Rightarrow> bool" where
  "plain_ref p \<longleftrightarrow> p \<noteq> [] \<and> \<not> is_abs p \<and> \<not> sublist ''..'' p \<and> \<not> contains_any p ''~$''"

definition ref_target :: "ref_env \<Rightarrow> string option \<Rightarrow> string \<Rightarrow> string \<Rightarrow> string option" where
  "ref_target e appReal dir p =
     (if \<not> plain_ref p then None
      else case appReal of None \<Rightarrow> None
      | Some app \<Rightarrow>
          (case evalSymlinks (re_fs e) (join_path [dir, p]) of None \<Rightarrow> None
           | Some real \<Rightarrow> if within real app \<and> re_regular e real then Some real else None))"

text \<open>
  \<open>checkFile\<close>; \<open>next\<close> checks the content of an extends file in its folder, \<open>None\<close> at the depth limit.
\<close>

type_synonym extends_check = "(string \<Rightarrow> string \<Rightarrow> rawRefChecker \<Rightarrow> bool \<times> rawRefChecker) option"

definition checkFile ::
  "ref_env \<Rightarrow> string option \<Rightarrow> extends_check \<Rightarrow> owner \<Rightarrow> ref_kind \<Rightarrow> yany \<Rightarrow> string \<Rightarrow> rawRefChecker \<Rightarrow> rawRefChecker" where
  "checkFile e appReal next who kind v dir c =
     (case rawScalar v of None \<Rightarrow> rc_add (NotAPath who kind) c
      | Some p \<Rightarrow>
          (case ref_target e appReal dir p of None \<Rightarrow> rc_add (OutsideApp who kind p) c
           | Some real \<Rightarrow>
               if kind \<noteq> ExtendsFile \<or> real \<in> set (rc_seen c) then c
               else let c = c\<lparr>rc_seen := real # rc_seen c\<rparr> in
                 (case next of None \<Rightarrow> rc_add (NestedTooDeeply who) c
                  | Some check \<Rightarrow>
                      (case re_read e real of None \<Rightarrow> rc_add (OutsideApp who kind p) c
                       | Some data \<Rightarrow>
                           (case check data (dir_path (join_path [dir, p])) c of
                              (True, c') \<Rightarrow> c'
                            | (False, c') \<Rightarrow> rc_add (ExtendsNotYaml who p) c')))))"

definition checkLabelFiles ::
  "ref_env \<Rightarrow> string option \<Rightarrow> owner \<Rightarrow> yany \<Rightarrow> string \<Rightarrow> rawRefChecker \<Rightarrow> rawRefChecker" where
  "checkLabelFiles e appReal who v dir c =
     (case v of
        YNil \<Rightarrow> c
      | YList items \<Rightarrow> fold (\<lambda>item. checkFile e appReal None who LabelFile item dir) items c
      | lf \<Rightarrow> checkFile e appReal None who LabelFile lf dir c)"

text \<open>One service or job.\<close>

definition extends_file :: "(string \<times> yany) list \<Rightarrow> yany option" where
  "extends_file entry =
     (case rawMap (raw_index (Some entry) ''extends'') of None \<Rightarrow> None
      | Some ext \<Rightarrow> (case map_of ext ''file'' of None \<Rightarrow> None | Some YNil \<Rightarrow> None | Some f \<Rightarrow> Some f))"

definition pre_start_hooks :: "(string \<times> yany) list \<Rightarrow> (nat \<times> (string \<times> yany) list) list" where
  "pre_start_hooks entry =
     (case raw_index (Some entry) ''pre_start'' of
        YList hooks \<Rightarrow> List.map_filter (\<lambda>(i, h). map_option (Pair (Suc i)) (rawMap h)) (enumerate 0 hooks)
      | _ \<Rightarrow> [])"

definition checkEntry ::
  "ref_env \<Rightarrow> string option \<Rightarrow> extends_check \<Rightarrow> section_kind \<Rightarrow> string \<Rightarrow> (string \<times> yany) list \<Rightarrow> string \<Rightarrow> rawRefChecker \<Rightarrow> rawRefChecker" where
  "checkEntry e appReal next kind name entry dir c =
     (let c = checkLabelFiles e appReal (Owner kind name None) (raw_index (Some entry) ''label_file'') dir c;
          c = (case extends_file entry of None \<Rightarrow> c
               | Some f \<Rightarrow> checkFile e appReal next (Owner kind name None) ExtendsFile f dir c)
      in fold (\<lambda>(i, hm). checkLabelFiles e appReal (Owner kind name (Some i)) (raw_index (Some hm) ''label_file'') dir)
           (pre_start_hooks entry) c)"

definition rawContainerSections :: "(string \<times> section_kind) list" where
  "rawContainerSections = [(''services'', ServiceSection), (''jobs'', JobSection)]"

definition section_entries :: "(string \<times> yany) list \<Rightarrow> string \<Rightarrow> (string \<times> (string \<times> yany) list) list" where
  "section_entries root key =
     (case rawMap (raw_index (Some root) key) of None \<Rightarrow> []
      | Some es \<Rightarrow> List.map_filter (\<lambda>(name, v). map_option (Pair name) (rawMap v)) (values_by_key es))"

definition checkDoc :: "ref_env \<Rightarrow> string option \<Rightarrow> extends_check \<Rightarrow> bool \<Rightarrow> string \<Rightarrow> yany \<Rightarrow> rawRefChecker \<Rightarrow> rawRefChecker" where
  "checkDoc e appReal next isTop dir doc c =
     (case rawMap doc of None \<Rightarrow> c
      | Some root \<Rightarrow>
          fold (\<lambda>(key, kind). fold (\<lambda>(name, entry). checkEntry e appReal next kind name entry dir) (section_entries root key))
            rawContainerSections (if map_of root ''include'' \<noteq> None \<and> isTop then rc_add IncludeUsed c else c))"

text \<open>A content: its documents up to the end or the first error, and whether there was none.\<close>

definition checkDocs :: "ref_env \<Rightarrow> string option \<Rightarrow> extends_check \<Rightarrow> bool \<Rightarrow> string \<Rightarrow> string \<Rightarrow> rawRefChecker \<Rightarrow> bool \<times> rawRefChecker" where
  "checkDocs e appReal next isTop content dir c =
     (snd (re_decode e content), fold (checkDoc e appReal next isTop dir) (fst (re_decode e content)) c)"

text \<open>The contents below: \<open>n\<close> is the number of levels left, \<open>maxExtendsDepth\<close> minus the depth.\<close>

fun extends_checker :: "ref_env \<Rightarrow> string option \<Rightarrow> nat \<Rightarrow> extends_check" where
  "extends_checker e appReal 0 = None"
| "extends_checker e appReal (Suc n) = Some (checkDocs e appReal (extends_checker e appReal n) False)"

datatype raw_result = RawNotYaml | RawViolations "ref_violation list" | RawOk

definition checkRawFileRefs :: "ref_env \<Rightarrow> string \<Rightarrow> string \<Rightarrow> raw_result" where
  "checkRawFileRefs e content appDir =
     (let appReal = evalSymlinks (re_fs e) appDir;
          (ok, c) = checkDocs e appReal (extends_checker e appReal maxExtendsDepth) True content appDir \<lparr>rc_seen = [], rc_violations = []\<rparr>
      in if \<not> ok then RawNotYaml else if rc_violations c \<noteq> [] then RawViolations (rc_violations c) else RawOk)"

subsection \<open>The references of a document\<close>

definition label_values :: "yany \<Rightarrow> yany list" where
  "label_values v = (case v of YNil \<Rightarrow> [] | YList items \<Rightarrow> items | lf \<Rightarrow> [lf])"

definition entry_labels :: "(string \<times> yany) list \<Rightarrow> yany list" where
  "entry_labels entry = label_values (raw_index (Some entry) ''label_file'') @
     concat (map (\<lambda>(i, hm). label_values (raw_index (Some hm) ''label_file'')) (pre_start_hooks entry))"

definition doc_entries :: "yany \<Rightarrow> (string \<times> yany) list list" where
  "doc_entries doc = (case rawMap doc of None \<Rightarrow> []
     | Some root \<Rightarrow> concat (map (\<lambda>(key, kind). map snd (section_entries root key)) rawContainerSections))"

definition doc_labels :: "yany \<Rightarrow> yany list" where
  "doc_labels doc = concat (map entry_labels (doc_entries doc))"

definition doc_extends :: "yany \<Rightarrow> yany list" where
  "doc_extends doc = List.map_filter extends_file (doc_entries doc)"

definition ref_ok :: "ref_env \<Rightarrow> string option \<Rightarrow> string \<Rightarrow> yany \<Rightarrow> bool" where
  "ref_ok e app dir v \<longleftrightarrow> (\<exists>p real. rawScalar v = Some p \<and> ref_target e app dir p = Some real)"

text \<open>The files the loader reads: the compose file, and the extends files below it.\<close>

inductive loads :: "ref_env \<Rightarrow> string option \<Rightarrow> string \<Rightarrow> string \<Rightarrow> string \<Rightarrow> string \<Rightarrow> bool"
  for e :: ref_env and app :: "string option" and content0 :: string and appDir :: string where
  top_file: "loads e app content0 appDir content0 appDir"
| extends_of: "loads e app content0 appDir content dir \<Longrightarrow> doc \<in> set (fst (re_decode e content)) \<Longrightarrow> f \<in> set (doc_extends doc) \<Longrightarrow>
    rawScalar f = Some p \<Longrightarrow> ref_target e app dir p = Some real \<Longrightarrow> re_read e real = Some data \<Longrightarrow>
    loads e app content0 appDir data (dir_path (join_path [dir, p]))"

subsection \<open>What the check establishes\<close>

definition content_ok :: "ref_env \<Rightarrow> string option \<Rightarrow> string \<Rightarrow> string \<Rightarrow> string set \<Rightarrow> bool" where
  "content_ok e app content dir S \<longleftrightarrow> (\<forall>doc \<in> set (fst (re_decode e content)).
     (\<forall>v \<in> set (doc_labels doc). ref_ok e app dir v) \<and>
     (\<forall>f \<in> set (doc_extends doc). \<exists>p real. rawScalar f = Some p \<and> ref_target e app dir p = Some real \<and> real \<in> S))"

text \<open>\<open>Q dir p\<close>: the loader comes to an extends file \<open>p\<close> named in the folder \<open>dir\<close>.\<close>

definition refs_in :: "ref_env \<Rightarrow> (string \<Rightarrow> string \<Rightarrow> bool) \<Rightarrow> string \<Rightarrow> string \<Rightarrow> bool" where
  "refs_in e Q content dir \<longleftrightarrow>
     (\<forall>doc \<in> set (fst (re_decode e content)). \<forall>f \<in> set (doc_extends doc). \<forall>p. rawScalar f = Some p \<longrightarrow> Q dir p)"

definition reach_closed :: "ref_env \<Rightarrow> string option \<Rightarrow> (string \<Rightarrow> string \<Rightarrow> bool) \<Rightarrow> bool" where
  "reach_closed e app Q \<longleftrightarrow> (\<forall>dir p real data. Q dir p \<longrightarrow> ref_target e app dir p = Some real \<longrightarrow> re_read e real = Some data \<longrightarrow>
     refs_in e Q data (dir_path (join_path [dir, p])))"

definition ref_closed :: "ref_env \<Rightarrow> string option \<Rightarrow> (string \<Rightarrow> string \<Rightarrow> bool) \<Rightarrow> string \<Rightarrow> string set \<Rightarrow> bool" where
  "ref_closed e app Q real S \<longleftrightarrow> (\<exists>data dir p. Q dir p \<and> re_read e real = Some data \<and> ref_target e app dir p = Some real \<and>
     content_ok e app data (dir_path (join_path [dir, p])) S)"

text \<open>
  A part of the check that ends without a violation: it started without one, the files it adds are
  checked against all it has seen, and \<open>E\<close> holds of those.
\<close>

definition checks :: "ref_env \<Rightarrow> string option \<Rightarrow> (string \<Rightarrow> string \<Rightarrow> bool) \<Rightarrow> (string set \<Rightarrow> bool) \<Rightarrow> rawRefChecker \<Rightarrow> rawRefChecker \<Rightarrow> bool" where
  "checks e app Q E c c' \<longleftrightarrow> (rc_violations c' = [] \<longrightarrow> rc_violations c = [] \<and> set (rc_seen c) \<subseteq> set (rc_seen c') \<and>
     (\<forall>real \<in> set (rc_seen c') - set (rc_seen c). ref_closed e app Q real (set (rc_seen c'))) \<and> E (set (rc_seen c')))"

definition grows :: "(string set \<Rightarrow> bool) \<Rightarrow> bool" where
  "grows E \<longleftrightarrow> (\<forall>S T. S \<subseteq> T \<longrightarrow> E S \<longrightarrow> E T)"

lemma growsD: "grows E \<Longrightarrow> E S \<Longrightarrow> S \<subseteq> T \<Longrightarrow> E T"
  by (auto simp: grows_def)

lemma content_ok_grows: "grows (content_ok e app content dir)"
  unfolding grows_def content_ok_def by blast

lemma ref_closed_grows: "grows (ref_closed e app Q real)"
  unfolding grows_def ref_closed_def using growsD [OF content_ok_grows] by blast

lemma checks_refl: "(\<And>S. E S) \<Longrightarrow> checks e app Q E c c"
  by (simp add: checks_def)

lemma checks_weaken: "checks e app Q E c c' \<Longrightarrow> (\<And>S. E S \<Longrightarrow> F S) \<Longrightarrow> checks e app Q F c c'"
  by (auto simp: checks_def)

lemma checks_trans:
  assumes "checks e app Q E c c1" "checks e app Q F c1 c2" "grows E"
  shows "checks e app Q (\<lambda>S. E S \<and> F S) c c2"
  unfolding checks_def
proof (intro impI)
  assume "rc_violations c2 = []"
  with assms(2) have 2: "rc_violations c1 = []" "set (rc_seen c1) \<subseteq> set (rc_seen c2)"
      "\<forall>real \<in> set (rc_seen c2) - set (rc_seen c1). ref_closed e app Q real (set (rc_seen c2))" "F (set (rc_seen c2))"
    by (simp_all add: checks_def)
  with assms(1) have 1: "rc_violations c = []" "set (rc_seen c) \<subseteq> set (rc_seen c1)"
      "\<forall>real \<in> set (rc_seen c1) - set (rc_seen c). ref_closed e app Q real (set (rc_seen c1))" "E (set (rc_seen c1))"
    by (simp_all add: checks_def)
  have "ref_closed e app Q real (set (rc_seen c2))" if "real \<in> set (rc_seen c2) - set (rc_seen c)" for real
  proof (cases "real \<in> set (rc_seen c1)")
    case True
    with that 1(3) have "ref_closed e app Q real (set (rc_seen c1))" by blast
    then show ?thesis using 2(2) by (rule growsD [OF ref_closed_grows])
  next
    case False
    with that 2(3) show ?thesis by blast
  qed
  moreover have "E (set (rc_seen c2))" using growsD [OF assms(3) 1(4) 2(2)] .
  ultimately show "rc_violations c = [] \<and> set (rc_seen c) \<subseteq> set (rc_seen c2) \<and>
      (\<forall>real \<in> set (rc_seen c2) - set (rc_seen c). ref_closed e app Q real (set (rc_seen c2))) \<and>
      E (set (rc_seen c2)) \<and> F (set (rc_seen c2))"
    using 1 2 by blast
qed

lemma checks_fold:
  assumes "\<And>x c. x \<in> set xs \<Longrightarrow> checks e app Q (E x) c (f x c)" "\<And>x. grows (E x)"
  shows "checks e app Q (\<lambda>S. \<forall>x \<in> set xs. E x S) c (fold f xs c)"
  using assms(1)
proof (induction xs arbitrary: c)
  case (Cons x xs)
  have "checks e app Q (E x) c (f x c)" by (rule Cons.prems) simp
  moreover have "checks e app Q (\<lambda>S. \<forall>y \<in> set xs. E y S) (f x c) (fold f xs (f x c))"
    by (rule Cons.IH) (rule Cons.prems, simp)
  ultimately have "checks e app Q (\<lambda>S. E x S \<and> (\<forall>y \<in> set xs. E y S)) c (fold f xs (f x c))"
    by (rule checks_trans) (rule assms(2))
  then show ?case by (auto elim: checks_weaken)
qed (simp add: checks_refl)

text \<open>One reference.\<close>

definition extends_ok :: "ref_env \<Rightarrow> string option \<Rightarrow> string \<Rightarrow> yany \<Rightarrow> string set \<Rightarrow> bool" where
  "extends_ok e app dir f S \<longleftrightarrow> (\<exists>p real. rawScalar f = Some p \<and> ref_target e app dir p = Some real \<and> real \<in> S)"

definition next_ok :: "ref_env \<Rightarrow> string option \<Rightarrow> (string \<Rightarrow> string \<Rightarrow> bool) \<Rightarrow> extends_check \<Rightarrow> bool" where
  "next_ok e app Q nx \<longleftrightarrow> (\<forall>check data dir c. nx = Some check \<longrightarrow> refs_in e Q data dir \<longrightarrow> checks e app Q (content_ok e app data dir) c (snd (check data dir c)))"

lemma checkFile_label: "checks e app Q (\<lambda>_. ref_ok e app dir v) c (checkFile e app nx who LabelFile v dir c)"
  by (auto simp: checks_def checkFile_def rc_add_def ref_ok_def split: option.split)

lemma checkFile_extends:
  assumes "next_ok e app Q nx" "reach_closed e app Q" "\<And>p. rawScalar f = Some p \<Longrightarrow> Q dir p"
  shows "checks e app Q (extends_ok e app dir f) c (checkFile e app nx who ExtendsFile f dir c)"
proof (cases "rawScalar f")
  case None
  then show ?thesis by (simp add: checks_def checkFile_def rc_add_def)
next
  case (Some p)
  show ?thesis
  proof (cases "ref_target e app dir p")
    case None
    with Some show ?thesis by (simp add: checks_def checkFile_def rc_add_def)
  next
    case target: (Some real)
    let ?c1 = "c\<lparr>rc_seen := real # rc_seen c\<rparr>" and ?dir = "dir_path (join_path [dir, p])"
    show ?thesis
    proof (cases "real \<in> set (rc_seen c)")
      case True
      then show ?thesis using Some target by (auto simp: checks_def checkFile_def extends_ok_def)
    next
      case new: False
      show ?thesis
      proof (cases "\<exists>check data. nx = Some check \<and> re_read e real = Some data \<and> fst (check data ?dir ?c1)")
        case True
        then obtain check data where t: "nx = Some check" "re_read e real = Some data" "fst (check data ?dir ?c1)" by blast
        have res: "checkFile e app nx who ExtendsFile f dir c = snd (check data ?dir ?c1)"
          using t Some target new by (cases "check data ?dir ?c1") (simp add: checkFile_def Let_def)
        have ch: "checks e app Q (content_ok e app data ?dir) ?c1 (snd (check data ?dir ?c1))"
          using assms Some target t(1,2) by (simp add: next_ok_def reach_closed_def)
        show ?thesis unfolding checks_def res
        proof (intro impI)
          let ?S = "set (rc_seen (snd (check data ?dir ?c1)))"
          assume "rc_violations (snd (check data ?dir ?c1)) = []"
          with ch have a: "rc_violations c = []" "insert real (set (rc_seen c)) \<subseteq> ?S"
              "\<forall>r \<in> ?S - insert real (set (rc_seen c)). ref_closed e app Q r ?S" "content_ok e app data ?dir ?S"
            by (simp_all add: checks_def)
          then have "ref_closed e app Q real ?S" using t(2) target assms(3) [OF Some] unfolding ref_closed_def by blast
          with a show "rc_violations c = [] \<and> set (rc_seen c) \<subseteq> ?S \<and> (\<forall>r \<in> ?S - set (rc_seen c). ref_closed e app Q r ?S) \<and>
              extends_ok e app dir f ?S"
            using Some target unfolding extends_ok_def by blast
        qed
      next
        case False
        then have "rc_violations (checkFile e app nx who ExtendsFile f dir c) \<noteq> []"
          using Some target new by (auto simp: checkFile_def Let_def rc_add_def split: option.split prod.split bool.split)
        then show ?thesis by (simp add: checks_def)
      qed
    qed
  qed
qed

text \<open>A list of label files, an entry, a document and a whole content.\<close>

lemma grows_const: "grows (\<lambda>_. P)"
  by (simp add: grows_def)

lemma grows_ball: "(\<And>x. grows (E x)) \<Longrightarrow> grows (\<lambda>S. \<forall>x \<in> A. E x S)"
  unfolding grows_def by blast

lemma grows_conj: "grows E \<Longrightarrow> grows F \<Longrightarrow> grows (\<lambda>S. E S \<and> F S)"
  unfolding grows_def by blast

lemma extends_ok_grows: "grows (extends_ok e app dir f)"
  unfolding grows_def extends_ok_def by blast

lemma checkLabelFiles_checks:
  "checks e app Q (\<lambda>_. \<forall>v \<in> set (label_values v). ref_ok e app dir v) c (checkLabelFiles e app who v dir c)"
proof (cases v)
  case (YList items)
  have "checks e app Q (\<lambda>S. \<forall>v \<in> set items. ref_ok e app dir v) c
      (fold (\<lambda>item. checkFile e app None who LabelFile item dir) items c)"
    by (rule checks_fold [where E = "\<lambda>v _. ref_ok e app dir v"]) (auto intro: checkFile_label grows_const)
  then show ?thesis by (simp add: checkLabelFiles_def label_values_def YList)
qed (auto simp: checkLabelFiles_def label_values_def intro: checks_refl checkFile_label)

definition entry_ok :: "ref_env \<Rightarrow> string option \<Rightarrow> string \<Rightarrow> (string \<times> yany) list \<Rightarrow> string set \<Rightarrow> bool" where
  "entry_ok e app dir entry S \<longleftrightarrow> (\<forall>v \<in> set (entry_labels entry). ref_ok e app dir v) \<and>
     (\<forall>f. extends_file entry = Some f \<longrightarrow> extends_ok e app dir f S)"

lemma entry_ok_grows: "grows (entry_ok e app dir entry)"
  unfolding grows_def entry_ok_def using growsD [OF extends_ok_grows] by blast

lemma checkEntry_checks:
  assumes "next_ok e app Q nx" "reach_closed e app Q" "\<And>f p. extends_file entry = Some f \<Longrightarrow> rawScalar f = Some p \<Longrightarrow> Q dir p"
  shows "checks e app Q (entry_ok e app dir entry) c (checkEntry e app nx kind name entry dir c)"
proof -
  let ?who = "Owner kind name None" and ?lf = "raw_index (Some entry) ''label_file''"
  let ?c1 = "checkLabelFiles e app ?who ?lf dir c"
  let ?c2 = "case extends_file entry of None \<Rightarrow> ?c1 | Some f \<Rightarrow> checkFile e app nx ?who ExtendsFile f dir ?c1"
  let ?step = "\<lambda>(i, hm). checkLabelFiles e app (Owner kind name (Some i)) (raw_index (Some hm) ''label_file'') dir"
  let ?A = "\<lambda>_ :: string set. \<forall>v \<in> set (label_values ?lf). ref_ok e app dir v"
  let ?B = "\<lambda>S. \<forall>f. extends_file entry = Some f \<longrightarrow> extends_ok e app dir f S"
  let ?C = "\<lambda>_ :: string set. \<forall>h \<in> set (pre_start_hooks entry). \<forall>v \<in> set (label_values (raw_index (Some (snd h)) ''label_file'')). ref_ok e app dir v"
  have a: "checks e app Q ?A c ?c1" by (rule checkLabelFiles_checks)
  have b: "checks e app Q ?B ?c1 ?c2"
    using checkFile_extends [OF assms(1,2)] assms(3) by (auto intro: checks_refl elim: checks_weaken split: option.split)
  have d: "checks e app Q ?C ?c2 (fold ?step (pre_start_hooks entry) ?c2)"
    by (rule checks_fold [where E = "\<lambda>h _. \<forall>v \<in> set (label_values (raw_index (Some (snd h)) ''label_file'')). ref_ok e app dir v"])
      (auto intro: checkLabelFiles_checks grows_const)
  have gB: "grows ?B" unfolding grows_def using growsD [OF extends_ok_grows] by blast
  have "checks e app Q (\<lambda>S. (?A S \<and> ?B S) \<and> ?C S) c (fold ?step (pre_start_hooks entry) ?c2)"
    by (rule checks_trans [OF checks_trans [OF a b] d]) (intro grows_conj grows_const gB)+
  then show ?thesis
    unfolding checkEntry_def Let_def by (rule checks_weaken) (auto simp: entry_ok_def entry_labels_def)
qed

definition no_include :: "bool \<Rightarrow> yany \<Rightarrow> bool" where
  "no_include isTop doc \<longleftrightarrow> \<not> (isTop \<and> (case rawMap doc of None \<Rightarrow> False | Some root \<Rightarrow> map_of root ''include'' \<noteq> None))"

definition doc_ok :: "ref_env \<Rightarrow> string option \<Rightarrow> bool \<Rightarrow> string \<Rightarrow> yany \<Rightarrow> string set \<Rightarrow> bool" where
  "doc_ok e app isTop dir doc S \<longleftrightarrow> no_include isTop doc \<and> (\<forall>entry \<in> set (doc_entries doc). entry_ok e app dir entry S)"

lemma doc_ok_grows: "grows (doc_ok e app isTop dir doc)"
  unfolding grows_def doc_ok_def using growsD [OF entry_ok_grows] by blast

lemma checkDoc_checks:
  assumes "next_ok e app Q nx" "reach_closed e app Q" "\<And>f p. f \<in> set (doc_extends doc) \<Longrightarrow> rawScalar f = Some p \<Longrightarrow> Q dir p"
  shows "checks e app Q (doc_ok e app isTop dir doc) c (checkDoc e app nx isTop dir doc c)"
proof (cases "rawMap doc")
  case None
  then show ?thesis by (simp add: checkDoc_def doc_ok_def no_include_def doc_entries_def checks_refl)
next
  case (Some root)
  let ?c0 = "if map_of root ''include'' \<noteq> None \<and> isTop then rc_add IncludeUsed c else c"
  let ?E = "\<lambda>sec S. \<forall>ne \<in> set (section_entries root (fst sec)). entry_ok e app dir (snd ne) S"
  let ?step = "\<lambda>(key, kind). fold (\<lambda>(name, entry). checkEntry e app nx kind name entry dir) (section_entries root key)"
  have 0: "checks e app Q (\<lambda>_. no_include isTop doc) c ?c0"
    using Some by (auto simp: checks_def rc_add_def no_include_def)
  have "checks e app Q (\<lambda>S. \<forall>sec \<in> set rawContainerSections. ?E sec S) ?c0 (fold ?step rawContainerSections ?c0)"
  proof (rule checks_fold)
    fix sec :: "string \<times> section_kind" and c
    assume s: "sec \<in> set rawContainerSections"
    obtain key kind where sec: "sec = (key, kind)" by fastforce
    have q: "Q dir p" if "(a, b) \<in> set (section_entries root key)" "extends_file b = Some f" "rawScalar f = Some p" for a b f p
    proof -
      have "b \<in> set (doc_entries doc)" using that(1) s Some sec by (force simp: doc_entries_def)
      then have "f \<in> set (doc_extends doc)" using that(2) by (force simp: doc_extends_def List.map_filter_def)
      then show ?thesis using assms(3) that(3) by blast
    qed
    have "checks e app Q (\<lambda>S. \<forall>ne \<in> set (section_entries root key). entry_ok e app dir (snd ne) S) c
      (fold (\<lambda>(name, entry). checkEntry e app nx kind name entry dir) (section_entries root key) c)"
      by (rule checks_fold) (auto intro!: checkEntry_checks [OF assms(1,2)] intro: q entry_ok_grows)
    then show "checks e app Q (?E sec) c (?step sec c)" by (simp add: sec)
  next
    show "grows (?E sec)" for sec by (intro grows_ball entry_ok_grows)
  qed
  from checks_trans [OF 0 this grows_const]
  have "checks e app Q (\<lambda>S. no_include isTop doc \<and> (\<forall>sec \<in> set rawContainerSections. ?E sec S)) c (checkDoc e app nx isTop dir doc c)"
    by (simp add: checkDoc_def Some)
  moreover have "set (doc_entries doc) = (\<Union>sec \<in> set rawContainerSections. snd ` set (section_entries root (fst sec)))"
    by (simp add: doc_entries_def Some case_prod_beta)
  ultimately show ?thesis by (elim checks_weaken) (simp add: doc_ok_def)
qed

definition docs_ok :: "ref_env \<Rightarrow> string option \<Rightarrow> bool \<Rightarrow> string \<Rightarrow> string \<Rightarrow> string set \<Rightarrow> bool" where
  "docs_ok e app isTop content dir S \<longleftrightarrow> (\<forall>doc \<in> set (fst (re_decode e content)). doc_ok e app isTop dir doc S)"

lemma docs_ok_content: "docs_ok e app isTop content dir S \<Longrightarrow> content_ok e app content dir S"
  unfolding docs_ok_def content_ok_def doc_ok_def doc_labels_def doc_extends_def entry_ok_def extends_ok_def List.map_filter_def
  by force

lemma checkDocs_checks:
  assumes "next_ok e app Q nx" "reach_closed e app Q" "refs_in e Q content dir"
  shows "checks e app Q (docs_ok e app isTop content dir) c (snd (checkDocs e app nx isTop content dir c))"
proof -
  have "checks e app Q (\<lambda>S. \<forall>doc \<in> set (fst (re_decode e content)). doc_ok e app isTop dir doc S) c
      (fold (checkDoc e app nx isTop dir) (fst (re_decode e content)) c)"
    using assms(3) by (intro checks_fold checkDoc_checks [OF assms(1,2)] doc_ok_grows) (auto simp: refs_in_def)
  then show ?thesis by (simp add: checkDocs_def docs_ok_def [abs_def])
qed

lemma extends_checker_ok:
  assumes "reach_closed e app Q"
  shows "next_ok e app Q (extends_checker e app n)"
proof (induction n)
  case (Suc n)
  then show ?case using checks_weaken [OF checkDocs_checks docs_ok_content] assms by (simp add: next_ok_def)
qed (simp add: next_ok_def)

text \<open>The extends references the loader comes to: those of the files it reads, with the folder they are read in.\<close>

definition extends_reached :: "ref_env \<Rightarrow> string option \<Rightarrow> string \<Rightarrow> string \<Rightarrow> string \<Rightarrow> string \<Rightarrow> bool" where
  "extends_reached e app content appDir dir p \<longleftrightarrow> (\<exists>data doc f. loads e app content appDir data dir \<and>
     doc \<in> set (fst (re_decode e data)) \<and> f \<in> set (doc_extends doc) \<and> rawScalar f = Some p)"

lemma extends_reached_closed: "reach_closed e app (extends_reached e app content appDir)"
  unfolding reach_closed_def refs_in_def extends_reached_def by (blast intro: extends_of)

text \<open>No file is extended under two folders (which takes a symbolic link to it or to a folder above it).\<close>

definition one_folder_each :: "ref_env \<Rightarrow> string option \<Rightarrow> string \<Rightarrow> string \<Rightarrow> bool" where
  "one_folder_each e app content appDir \<longleftrightarrow> (\<forall>d p d' p' real.
     extends_reached e app content appDir d p \<longrightarrow> extends_reached e app content appDir d' p' \<longrightarrow>
     ref_target e app d p = Some real \<longrightarrow> ref_target e app d' p' = Some real \<longrightarrow>
     dir_path (join_path [d, p]) = dir_path (join_path [d', p']))"

text \<open>
  Property C16. When the raw check accepts a compose file, it has no include, and every label_file and extends file of it,
  and of every extends file the loader goes on to read, however deep, is a plain relative path to a regular file inside
  the app's folder, provided that no two extends references the loader comes to name the same file in different folders,
  as a symbolic link in the app's folder can make them do.
\<close>

theorem raw_refs_confined:
  assumes ok: "checkRawFileRefs e content appDir = RawOk"
    and one_dir: "one_folder_each e (evalSymlinks (re_fs e) appDir) content appDir"
    and l: "loads e (evalSymlinks (re_fs e) appDir) content appDir data dir"
    and doc: "doc \<in> set (fst (re_decode e data))" "v \<in> set (doc_labels doc) \<union> set (doc_extends doc)"
  shows "(\<forall>d \<in> set (fst (re_decode e content)). no_include True d) \<and> (\<exists>p real app. rawScalar v = Some p \<and> plain_ref p \<and> evalSymlinks (re_fs e) appDir = Some app \<and>
    evalSymlinks (re_fs e) (join_path [dir, p]) = Some real \<and> within real app \<and> re_regular e real)"
proof -
  let ?app = "evalSymlinks (re_fs e) appDir"
  let ?c = "snd (checkDocs e ?app (extends_checker e ?app maxExtendsDepth) True content appDir \<lparr>rc_seen = [], rc_violations = []\<rparr>)"
  let ?S = "set (rc_seen ?c)" and ?Q = "extends_reached e ?app content appDir"
  have "rc_violations ?c = []" using ok by (auto simp: checkRawFileRefs_def Let_def split: prod.splits if_splits)
  moreover have "checks e ?app ?Q (docs_ok e ?app True content appDir) \<lparr>rc_seen = [], rc_violations = []\<rparr> ?c"
    by (rule checkDocs_checks [OF extends_checker_ok [OF extends_reached_closed] extends_reached_closed])
      (auto simp: refs_in_def extends_reached_def intro: top_file)
  ultimately have top: "docs_ok e ?app True content appDir ?S" and closed: "\<forall>real \<in> ?S. ref_closed e ?app ?Q real ?S"
    by (simp_all add: checks_def)
  from l have "content_ok e ?app data dir ?S"
  proof (induction rule: loads.induct)
    case top_file
    show ?case using top by (rule docs_ok_content)
  next
    case (extends_of content dir doc f p real data)
    then have "real \<in> ?S" unfolding content_ok_def by (metis option.inject)
    with closed obtain data' d' p' where q: "?Q d' p'" and c: "re_read e real = Some data'" "ref_target e ?app d' p' = Some real"
        "content_ok e ?app data' (dir_path (join_path [d', p'])) ?S"
      unfolding ref_closed_def by blast
    have "?Q dir p" using extends_of.hyps(1-4) unfolding extends_reached_def by blast
    with one_dir q extends_of.hyps(5) c(2) have "dir_path (join_path [dir, p]) = dir_path (join_path [d', p'])"
      unfolding one_folder_each_def by blast
    with c extends_of.hyps(6) show ?case by simp
  qed
  with doc have "ref_ok e ?app dir v" unfolding content_ok_def ref_ok_def by blast
  moreover have "\<forall>d \<in> set (fst (re_decode e content)). no_include True d" using top by (simp add: docs_ok_def doc_ok_def)
  ultimately show ?thesis by (auto simp: ref_ok_def ref_target_def split: if_splits option.splits)
qed

subsection \<open>An example, and the file two paths share\<close>

text \<open>
  An app in \<open>/a\<close> whose compose file extends \<open>x/f.yml\<close> and \<open>y/f.yml\<close>, where \<open>y/f.yml\<close> is a symbolic link to
  \<open>x/f.yml\<close>, and whose \<open>y/l\<close> is a symbolic link to a file outside the app's folder. \<open>x/f.yml\<close> has a label_file \<open>l\<close>.
\<close>

definition linked_fs :: filesystem where
  "linked_fs = \<lparr>evalSymlinks = (\<lambda>p. if p = ''/a/y/f.yml'' then Some ''/a/x/f.yml'' else if p = ''/a/y/l'' then Some ''/etc/l'' else Some p),
     lstat = (\<lambda>_. LstatOk), getwd = None\<rparr>"

definition extends_service :: "string \<Rightarrow> yany" where
  "extends_service f = YMap [(''extends'', YMap [(''file'', YStr f), (''service'', YStr ''s'')])]"

definition compose_docs :: "string list \<Rightarrow> yany list" where
  "compose_docs fs = [YMap [(''services'', YMap (map (\<lambda>f. (f, extends_service f)) fs))]]"

definition ref_example :: "filesystem \<Rightarrow> string list \<Rightarrow> ref_env" where
  "ref_example fs files = \<lparr>re_fs = fs, re_regular = (\<lambda>_. True), re_read = (\<lambda>p. if p = ''/a/x/f.yml'' then Some ''ext'' else None),
     re_decode = (\<lambda>s. (if s = ''ext'' then [YMap [(''services'', YMap [(''s'', YMap [(''label_file'', YStr ''l'')])])]] else compose_docs files, True))\<rparr>"

lemma example_refs:
  "checkRawFileRefs (ref_example plain_fs [''x/f.yml'']) ''c'' ''/a'' = RawOk"
  "checkRawFileRefs (ref_example linked_fs [''y/f.yml'']) ''c'' ''/a'' =
     RawViolations [OutsideApp (Owner ServiceSection ''s'' None) LabelFile ''l'']"
  "checkRawFileRefs (ref_example linked_fs [''x/f.yml'', ''y/f.yml'']) ''c'' ''/a'' = RawOk"
  by code_simp+

theorem raw_refs_confined_witness:
  "\<exists>p real app. rawScalar (YStr ''l'') = Some p \<and> plain_ref p \<and> evalSymlinks plain_fs ''/a'' = Some app \<and>
    evalSymlinks plain_fs (join_path [''/a/x'', p]) = Some real \<and> within real app"
proof -
  let ?e = "ref_example plain_fs [''x/f.yml'']"
  have fs: "re_fs ?e = plain_fs" by (simp add: ref_example_def)
  have one: "one_folder_each ?e (evalSymlinks (re_fs ?e) ''/a'') ''c'' ''/a''"
    unfolding one_folder_each_def fs by (auto simp: ref_target_def plain_fs_def ref_example_def split: if_splits)
  have "loads ?e (evalSymlinks (re_fs ?e) ''/a'') ''c'' ''/a'' ''ext'' (dir_path (join_path [''/a'', ''x/f.yml'']))"
    by (rule extends_of [OF top_file, where f = "YStr ''x/f.yml''" and real = "''/a/x/f.yml''" and doc = "hd (compose_docs [''x/f.yml''])"]) code_simp+
  moreover have "dir_path (join_path [''/a'', ''x/f.yml'']) = ''/a/x''" by code_simp
  ultimately have l: "loads ?e (evalSymlinks (re_fs ?e) ''/a'') ''c'' ''/a'' ''ext'' ''/a/x''" by simp
  have "YStr ''l'' \<in> set (doc_labels (YMap [(''services'', YMap [(''s'', YMap [(''label_file'', YStr ''l'')])])])) \<union> set (doc_extends (YMap [(''services'', YMap [(''s'', YMap [(''label_file'', YStr ''l'')])])]))"
    by code_simp
  from raw_refs_confined [OF example_refs(1) one l _ this] show ?thesis unfolding fs by (auto simp: ref_example_def)
qed

text \<open>
  Without the proviso a reference escapes: the shared extends file is checked once, in the folder of the first
  path, and its label_file is read a second time in the other folder.
\<close>

lemma shared_extends_unchecked:
  "checkRawFileRefs (ref_example linked_fs [''x/f.yml'', ''y/f.yml'']) ''c'' ''/a'' = RawOk \<and>
   loads (ref_example linked_fs [''x/f.yml'', ''y/f.yml'']) (Some ''/a'') ''c'' ''/a'' ''ext'' ''/a/y'' \<and>
   evalSymlinks linked_fs (join_path [''/a/y'', ''l'']) = Some ''/etc/l''"
proof -
  let ?e = "ref_example linked_fs [''x/f.yml'', ''y/f.yml'']"
  have "loads ?e (Some ''/a'') ''c'' ''/a'' ''ext'' (dir_path (join_path [''/a'', ''y/f.yml'']))"
    by (rule extends_of [OF top_file, where f = "YStr ''y/f.yml''" and real = "''/a/x/f.yml''" and doc = "hd (compose_docs [''x/f.yml'', ''y/f.yml''])"]) code_simp+
  moreover have "dir_path (join_path [''/a'', ''y/f.yml'']) = ''/a/y''" "evalSymlinks linked_fs (join_path [''/a/y'', ''l'']) = Some ''/etc/l''"
    by code_simp+
  ultimately show ?thesis using example_refs(3) by simp
qed

end
