(* ===== verification/ComposeParse.thy ===== *)
theory ComposeParse
  imports RawRefs
begin

text \<open>
  internal/compose/parser.go from a path to an \<open>AppConfig\<close>, and \<open>stripFileRefs\<close> of rawrefs.go. The
  compose loader, the YAML encoder and decoder, the .env parser and the file system are parameters.
\<close>

subsection \<open>Dropping file references\<close>

text \<open>
  The value a key of a map is read as (see \<open>rawMap\<close>) replaced in place, and the same for every key.
\<close>

definition key_texts :: "(yany \<times> 'v) list \<Rightarrow> string option set" where
  "key_texts kvs = (\<lambda>p. rawScalar (fst p)) ` set kvs"

fun each_last :: "(string \<Rightarrow> yany \<Rightarrow> yany) \<Rightarrow> (yany \<times> yany) list \<Rightarrow> (yany \<times> yany) list" where
  "each_last f [] = []"
| "each_last f ((k, v) # kvs) =
     (k, case rawScalar k of None \<Rightarrow> v | Some s \<Rightarrow> if Some s \<in> key_texts kvs then v else f s v) # each_last f kvs"

definition each_key :: "(string \<Rightarrow> yany \<Rightarrow> yany) \<Rightarrow> yany \<Rightarrow> yany" where
  "each_key f v =
     (case v of YMap m \<Rightarrow> YMap (map (\<lambda>(k, x). (k, f k x)) m) | YAnyMap kvs \<Rightarrow> YAnyMap (each_last f kvs) | _ \<Rightarrow> v)"

definition at_key :: "string \<Rightarrow> (yany \<Rightarrow> yany) \<Rightarrow> yany \<Rightarrow> yany" where
  "at_key key f = each_key (\<lambda>k x. if k = key then f x else x)"

definition raw_field :: "string \<Rightarrow> yany \<Rightarrow> yany" where
  "raw_field k v = raw_index (rawMap v) k"

definition names_file :: "yany \<Rightarrow> bool" where
  "names_file ext = (case rawMap ext of None \<Rightarrow> False
     | Some m \<Rightarrow> (case map_of m ''file'' of None \<Rightarrow> False | Some f \<Rightarrow> f \<noteq> YNil))"

definition strip_hooks :: "yany \<Rightarrow> yany" where
  "strip_hooks v = (case v of YList hooks \<Rightarrow> YList (map (rawDelete ''label_file'') hooks) | _ \<Rightarrow> v)"

definition strip_entry :: "yany \<Rightarrow> yany" where
  "strip_entry entry =
     (let en = rawDelete ''label_file'' entry;
          en = (if names_file (raw_field ''extends'' en) then rawDelete ''extends'' en else en)
      in at_key ''pre_start'' strip_hooks en)"

definition strip_doc :: "yany \<Rightarrow> yany" where
  "strip_doc doc =
     fold (\<lambda>(key, _). at_key key (each_key (\<lambda>_. strip_entry))) rawContainerSections (rawDelete ''include'' doc)"

definition stripFileRefs :: "ref_env \<Rightarrow> (yany list \<Rightarrow> string option) \<Rightarrow> string \<Rightarrow> string option" where
  "stripFileRefs e encode content =
     (let (docs, ok) = re_decode e content
      in if ok then encode (map strip_doc (filter (\<lambda>d. d \<noteq> YNil) docs)) else None)"

subsection \<open>Parsing\<close>

text \<open>What reading a file without following links yields.\<close>

datatype file_read = FileData string | FileNotExist | FileNotRegular | FileError

datatype parse_error =
    ReadFailed file_read
  | ErrDotEnv
  | ErrDotEnvLink
  | RawParseError
  | FileRefViolations "ref_violation list"
  | LoadFailed
  | StripFailed
  | PathFailed

record parse_env =
  pe_refs :: ref_env
  pe_encode :: "yany list \<Rightarrow> string option"
  pe_dotenv :: "string \<Rightarrow> (string \<rightharpoonup> string) \<Rightarrow> (string \<times> string) list option"
  pe_osEnv :: "(string \<times> string) list"
  pe_load :: "string \<Rightarrow> string \<Rightarrow> string \<Rightarrow> (string \<times> string) list \<Rightarrow> string list \<Rightarrow> (Project \<times> fileRef list) option"
  pe_abs :: "string \<Rightarrow> string option"

text \<open>
  \<open>ErrDotEnvLink\<close> is the .env error that also is \<open>ErrNotRegular\<close>. No .env reads as \<open>None\<close>.
\<close>

definition ReadDotEnv :: "(string \<Rightarrow> file_read) \<Rightarrow> string \<Rightarrow> parse_error + string option" where
  "ReadDotEnv read dir =
     (case read (join_path [dir, ''.env'']) of
        FileData data \<Rightarrow> Inr (Some data)
      | FileNotExist \<Rightarrow> Inr None
      | FileNotRegular \<Rightarrow> Inl ErrDotEnvLink
      | FileError \<Rightarrow> Inl ErrDotEnv)"

definition ParseContent :: "parse_env \<Rightarrow> string \<Rightarrow> string \<Rightarrow> string \<Rightarrow> string option \<Rightarrow> parse_error + AppConfig" where
  "ParseContent e content path appName dotEnv =
     (case pe_abs e path of None \<Rightarrow> Inl PathFailed
      | Some absPath \<Rightarrow>
          (case interpolationEnv (pe_dotenv e) (pe_osEnv e) (case dotEnv of None \<Rightarrow> [] | Some d \<Rightarrow> d) of
             None \<Rightarrow> Inl ErrDotEnv
           | Some env \<Rightarrow>
               (case checkRawFileRefs (pe_refs e) content (dir_path absPath) of
                  RawNotYaml \<Rightarrow> Inl RawParseError
                | RawViolations vs \<Rightarrow> Inl (FileRefViolations vs)
                | RawOk \<Rightarrow>
                    (case pe_load e absPath content appName env (composeProfiles env) of
                       None \<Rightarrow> Inl LoadFailed
                     | Some (project, refs) \<Rightarrow> Inr (app_config_of appName absPath project refs)))))"

definition ParseFile :: "parse_env \<Rightarrow> (string \<Rightarrow> file_read) \<Rightarrow> string \<Rightarrow> string \<Rightarrow> parse_error + AppConfig" where
  "ParseFile e read path appName =
     (case pe_abs e path of None \<Rightarrow> Inl PathFailed
      | Some absPath \<Rightarrow>
          (case read absPath of
             FileData content \<Rightarrow>
               (case ReadDotEnv read (dir_path absPath) of
                  Inl err \<Rightarrow> Inl err
                | Inr dotEnv \<Rightarrow> ParseContent e content absPath appName dotEnv)
           | err \<Rightarrow> Inl (ReadFailed err)))"

definition ParseForRoutes :: "parse_env \<Rightarrow> (string \<Rightarrow> file_read) \<Rightarrow> string \<Rightarrow> string \<Rightarrow> parse_error + AppConfig" where
  "ParseForRoutes e read path appName =
     (case pe_abs e path of None \<Rightarrow> Inl PathFailed
      | Some absPath \<Rightarrow>
          (case read absPath of
             FileData content \<Rightarrow>
               (case stripFileRefs (pe_refs e) (pe_encode e) content of
                  None \<Rightarrow> Inl StripFailed
                | Some stripped \<Rightarrow> ParseContent e stripped absPath appName None)
           | err \<Rightarrow> Inl (ReadFailed err)))"

text \<open>The tests the callers make with \<open>errors.Is\<close> and \<open>errors.As\<close>.\<close>

definition is_dotenv_error :: "parse_error \<Rightarrow> bool" where
  "is_dotenv_error err \<longleftrightarrow> err = ErrDotEnv \<or> err = ErrDotEnvLink"

definition is_not_regular :: "parse_error \<Rightarrow> bool" where
  "is_not_regular err \<longleftrightarrow> err = ReadFailed FileNotRegular \<or> err = ErrDotEnvLink"

definition is_violation :: "parse_error \<Rightarrow> bool" where
  "is_violation err \<longleftrightarrow> (case err of FileRefViolations _ \<Rightarrow> True | _ \<Rightarrow> False)"

subsection \<open>A stripped document has no file references\<close>

definition raw_fold :: "(yany \<times> yany) list \<Rightarrow> (string \<times> yany) list \<Rightarrow> (string \<times> yany) list" where
  "raw_fold = fold (\<lambda>(k, x) m. case rawScalar k of Some s \<Rightarrow> AList.update s x m | None \<Rightarrow> m)"

lemma raw_fold_Cons [simp]:
  "raw_fold (p # kvs) m = (case rawScalar (fst p) of None \<Rightarrow> raw_fold kvs m | Some s \<Rightarrow> raw_fold kvs (AList.update s (snd p) m))"
  by (simp add: raw_fold_def case_prod_beta split: option.split)

lemma raw_fold_Nil [simp]: "raw_fold [] m = m"
  by (simp add: raw_fold_def)

lemma rawMap_AnyMap: "rawMap (YAnyMap kvs) = Some (raw_fold kvs [])"
  by (simp add: rawMap_def raw_fold_def)

text \<open>How a map and its image under \<open>each_key\<close> are read: equal keys, related values.\<close>

definition map_rel :: "(string \<Rightarrow> yany \<Rightarrow> yany) \<Rightarrow> (string \<times> yany) list \<Rightarrow> (string \<times> yany) list \<Rightarrow> bool" where
  "map_rel f m m' \<longleftrightarrow> map fst m' = map fst m \<and> (\<forall>k. map_of m' k = map_option (f k) (map_of m k))"

lemma raw_fold_each_last:
  assumes "map fst m' = map fst m" "\<forall>k. Some k \<notin> key_texts kvs \<longrightarrow> map_of m' k = map_option (f k) (map_of m k)"
  shows "map_rel f (raw_fold kvs m) (raw_fold (each_last f kvs) m')"
  using assms
proof (induction kvs arbitrary: m m')
  case Nil
  then show ?case by (simp add: map_rel_def key_texts_def)
next
  case (Cons p kvs)
  obtain k0 v where p: "p = (k0, v)" by fastforce
  show ?case
  proof (cases "rawScalar k0")
    case None
    then have "raw_fold (p # kvs) m = raw_fold kvs m" "raw_fold (each_last f (p # kvs)) m' = raw_fold (each_last f kvs) m'"
      by (simp_all add: p)
    moreover have "\<forall>k. Some k \<notin> key_texts kvs \<longrightarrow> map_of m' k = map_option (f k) (map_of m k)"
      using Cons.prems(2) None by (simp add: key_texts_def p)
    ultimately show ?thesis using Cons.IH Cons.prems(1) by simp
  next
    case (Some s)
    let ?v' = "if Some s \<in> key_texts kvs then v else f s v"
    have eqs: "raw_fold (p # kvs) m = raw_fold kvs (AList.update s v m)"
        "raw_fold (each_last f (p # kvs)) m' = raw_fold (each_last f kvs) (AList.update s ?v' m')"
      by (simp_all add: p Some)
    have "map_of (AList.update s ?v' m') k = map_option (f k) (map_of (AList.update s v m) k)" if "Some k \<notin> key_texts kvs" for k
      using Cons.prems(2) that Some by (auto simp: update_conv' key_texts_def p)
    then show ?thesis unfolding eqs using Cons.prems(1) by (intro Cons.IH) (simp_all add: update_keys)
  qed
qed

lemma rawMap_each_key:
  "(rawMap v = None \<and> rawMap (each_key f v) = None) \<or>
   (\<exists>m m'. rawMap v = Some m \<and> rawMap (each_key f v) = Some m' \<and> map_rel f m m')"
proof (cases v)
  case (YMap m)
  have "map_of (map (\<lambda>(k, x). (k, f k x)) m) k = map_option (f k) (map_of m k)" for k
    by (induction m) auto
  then show ?thesis using YMap by (simp add: rawMap_def each_key_def map_rel_def comp_def case_prod_beta)
next
  case (YAnyMap kvs)
  then show ?thesis using raw_fold_each_last [of "[]" "[]" kvs f] by (simp add: rawMap_AnyMap each_key_def)
qed (simp_all add: rawMap_def each_key_def)

lemma raw_field_each_key:
  "raw_field k (each_key f v) = (case rawMap v of None \<Rightarrow> YNil | Some m \<Rightarrow> (case map_of m k of None \<Rightarrow> YNil | Some x \<Rightarrow> f k x))"
  using rawMap_each_key [of v f] by (auto simp: raw_field_def raw_index_def map_rel_def split: option.split)

lemma raw_fold_filter:
  "\<forall>k. map_of m' k = (if k = key then None else map_of m k) \<Longrightarrow>
   map_of (raw_fold (filter (\<lambda>p. rawScalar (fst p) \<noteq> Some key) kvs) m') k = (if k = key then None else map_of (raw_fold kvs m) k)"
proof (induction kvs arbitrary: m m')
  case (Cons p kvs)
  show ?case
  proof (cases "rawScalar (fst p)")
    case None
    with Cons.IH [OF Cons.prems] show ?thesis by simp
  next
    case (Some s)
    show ?thesis
    proof (cases "s = key")
      case True
      have "\<forall>k. map_of m' k = (if k = key then None else map_of (AList.update s (snd p) m) k)"
        using Cons.prems True by (simp add: update_conv')
      from Cons.IH [OF this] show ?thesis using Some True by simp
    next
      case False
      have "\<forall>k. map_of (AList.update s (snd p) m') k = (if k = key then None else map_of (AList.update s (snd p) m) k)"
        using Cons.prems False by (auto simp: update_conv')
      from Cons.IH [OF this] show ?thesis using Some False by simp
    qed
  qed
qed simp

lemma map_of_rawDelete:
  "case rawMap (rawDelete key v) of None \<Rightarrow> rawMap v = None
   | Some m \<Rightarrow> (\<forall>k. map_of m k = (if k = key then None else case rawMap v of None \<Rightarrow> None | Some n \<Rightarrow> map_of n k))"
proof (cases v)
  case (YMap m)
  have "map_of (filter (\<lambda>p. fst p \<noteq> key) m) k = (if k = key then None else map_of m k)" for k
    by (induction m) auto
  then show ?thesis using YMap by (simp add: rawDelete_def rawMap_def)
next
  case (YAnyMap kvs)
  have "map_of (raw_fold (filter (\<lambda>p. rawScalar (fst p) \<noteq> Some key) kvs) []) k = (if k = key then None else map_of (raw_fold kvs []) k)" for k
    by (rule raw_fold_filter) simp
  then show ?thesis using YAnyMap by (simp add: rawDelete_def rawMap_AnyMap)
qed (simp_all add: rawDelete_def rawMap_def)

lemma raw_field_rawDelete: "raw_field k (rawDelete key v) = (if k = key then YNil else raw_field k v)"
  using map_of_rawDelete [where key = key and v = v] by (auto simp: raw_field_def raw_index_def split: option.splits)

lemma rawMap_None_field: "rawMap v = None \<Longrightarrow> raw_field k v = YNil"
  by (simp add: raw_field_def raw_index_def)

lemma raw_field_at_other: "k \<noteq> key \<Longrightarrow> raw_field k (at_key key f v) = raw_field k v"
  by (simp add: at_key_def raw_field_each_key) (simp add: raw_field_def raw_index_def split: option.split)

lemma raw_field_at_key: "raw_field key (at_key key f v) = YNil \<or> raw_field key (at_key key f v) = f (raw_field key v)"
  by (simp add: at_key_def raw_field_each_key) (auto simp: raw_field_def raw_index_def split: option.split)

text \<open>Fields of a stripped entry.\<close>

lemma strip_entry_label: "raw_field ''label_file'' (strip_entry en) = YNil"
proof -
  have "raw_field ''label_file'' (at_key ''pre_start'' f v) = raw_field ''label_file'' v" for f v
    by (simp add: at_key_def raw_field_each_key) (simp add: raw_field_def raw_index_def split: option.split)
  then show ?thesis by (simp add: strip_entry_def Let_def raw_field_rawDelete)
qed

lemma strip_entry_extends: "\<not> names_file (raw_field ''extends'' (strip_entry en))"
proof -
  have "raw_field ''extends'' (at_key ''pre_start'' f v) = raw_field ''extends'' v" for f v
    by (simp add: at_key_def raw_field_each_key) (simp add: raw_field_def raw_index_def split: option.split)
  moreover have "\<not> names_file YNil" by (simp add: names_file_def rawMap_def)
  ultimately show ?thesis by (simp add: strip_entry_def Let_def raw_field_rawDelete)
qed

lemma strip_entry_hooks:
  "raw_field ''pre_start'' (strip_entry en) = YList hooks \<Longrightarrow> h \<in> set hooks \<Longrightarrow> raw_field ''label_file'' h = YNil"
proof -
  assume a: "raw_field ''pre_start'' (strip_entry en) = YList hooks" "h \<in> set hooks"
  obtain v where "raw_field ''pre_start'' (strip_entry en) = raw_field ''pre_start'' (at_key ''pre_start'' strip_hooks v)"
    by (simp add: strip_entry_def Let_def)
  moreover have "raw_field ''pre_start'' (at_key ''pre_start'' strip_hooks v) = YList hooks \<Longrightarrow> \<exists>hs. hooks = map (rawDelete ''label_file'') hs"
    by (auto simp: at_key_def raw_field_each_key strip_hooks_def split: option.splits yany.splits)
  ultimately obtain hs where "hooks = map (rawDelete ''label_file'') hs" using a(1) by auto
  with a(2) show ?thesis by (auto simp: raw_field_rawDelete)
qed

lemma strip_entry_clean:
  assumes "rawMap (strip_entry en) = Some m"
  shows "entry_labels m = [] \<and> extends_file m = None"
proof -
  have field: "raw_index (Some m) k = raw_field k (strip_entry en)" for k by (simp add: raw_field_def assms)
  have "label_values (raw_index (Some hm) ''label_file'') = []" if "(i, hm) \<in> set (pre_start_hooks m)" for i hm
  proof -
    from that obtain hooks where hooks: "raw_field ''pre_start'' (strip_entry en) = YList hooks"
      by (cases "raw_field ''pre_start'' (strip_entry en)") (simp_all add: pre_start_hooks_def field)
    moreover from that hooks obtain h where "h \<in> set hooks" "rawMap h = Some hm"
      by (force simp: pre_start_hooks_def field List.map_filter_def in_set_enumerate_eq dest: nth_mem)
    ultimately
    have "raw_field ''label_file'' h = YNil" "raw_field ''label_file'' h = raw_index (Some hm) ''label_file''"
      using strip_entry_hooks by (blast, simp add: raw_field_def)
    then show ?thesis by (simp add: label_values_def)
  qed
  moreover have "raw_index (Some m) ''label_file'' = YNil" by (simp add: field strip_entry_label)
  ultimately have "entry_labels m = []" by (auto simp: entry_labels_def label_values_def)
  moreover have "extends_file m = None"
    using strip_entry_extends [of en] by (auto simp: extends_file_def field names_file_def split: option.splits yany.splits)
  ultimately show ?thesis ..
qed

text \<open>Every entry of a stripped document is a stripped entry.\<close>

lemma values_by_key_of: "(k, v) \<in> set (values_by_key es) \<Longrightarrow> map_of es k = Some v"
proof -
  assume "(k, v) \<in> set (values_by_key es)"
  then have "v = the (map_of es k)" "k \<in> fst ` set es" by (auto simp: values_by_key_def sortedKeys_def)
  moreover from this(2) have "map_of es k \<noteq> None" by (simp add: map_of_eq_None_iff)
  ultimately show ?thesis by (cases "map_of es k") simp_all
qed

lemma section_entries_strip:
  assumes "raw_field key doc = each_key (\<lambda>_. strip_entry) v" "rawMap doc = Some root" "(name, m) \<in> set (section_entries root key)"
  shows "\<exists>en. rawMap (strip_entry en) = Some m"
proof -
  have "raw_index (Some root) key = each_key (\<lambda>_. strip_entry) v" using assms(1,2) by (simp add: raw_field_def)
  moreover from this assms(3) obtain es where es: "rawMap (each_key (\<lambda>_. strip_entry) v) = Some es"
    by (cases "rawMap (each_key (\<lambda>_. strip_entry) v)") (simp_all add: section_entries_def)
  ultimately obtain x where x: "(name, x) \<in> set (values_by_key es)" "rawMap x = Some m"
    using assms(3) by (force simp: section_entries_def List.map_filter_def)
  then have "map_of es name = Some x" by (simp add: values_by_key_of)
  with rawMap_each_key [of v "\<lambda>_. strip_entry"] es obtain y where "x = strip_entry y" by (auto simp: map_rel_def)
  with x(2) show ?thesis by blast
qed

lemma strip_doc_field:
  assumes "key = ''services'' \<or> key = ''jobs''"
  shows "raw_field key (strip_doc doc) = YNil \<or> (\<exists>v. raw_field key (strip_doc doc) = each_key (\<lambda>_. strip_entry) v)"
proof -
  let ?g = "each_key (\<lambda>_. strip_entry)"
  have d: "strip_doc doc = at_key ''jobs'' ?g (at_key ''services'' ?g (rawDelete ''include'' doc))"
    by (simp add: strip_doc_def rawContainerSections_def)
  from assms show ?thesis
  proof
    assume k: "key = ''services''"
    then have "raw_field key (strip_doc doc) = raw_field ''services'' (at_key ''services'' ?g (rawDelete ''include'' doc))"
      by (simp add: d raw_field_at_other)
    then show ?thesis using raw_field_at_key [of "''services''" ?g "rawDelete ''include'' doc"] by (elim disjE) (metis, metis)
  next
    assume "key = ''jobs''"
    then show ?thesis using raw_field_at_key [of "''jobs''" ?g "at_key ''services'' ?g (rawDelete ''include'' doc)"]
      by (simp only: d) blast
  qed
qed

lemma strip_doc_entries: "en \<in> set (doc_entries (strip_doc doc)) \<Longrightarrow> entry_labels en = [] \<and> extends_file en = None"
proof -
  assume "en \<in> set (doc_entries (strip_doc doc))"
  moreover from this obtain root where r1: "rawMap (strip_doc doc) = Some root"
    by (cases "rawMap (strip_doc doc)") (auto simp: doc_entries_def)
  ultimately have "\<exists>key name. (key = ''services'' \<or> key = ''jobs'') \<and> (name, en) \<in> set (section_entries root key)"
    using r1 by (auto simp: doc_entries_def rawContainerSections_def) blast+
  with r1 obtain key name where r: "rawMap (strip_doc doc) = Some root" "key = ''services'' \<or> key = ''jobs''" "(name, en) \<in> set (section_entries root key)"
    by blast
  have "raw_field key (strip_doc doc) \<noteq> YNil"
    using r(1,3) by (auto simp: section_entries_def raw_field_def rawMap_def)
  with strip_doc_field [OF r(2), of doc] obtain v where "raw_field key (strip_doc doc) = each_key (\<lambda>_. strip_entry) v" by blast
  from section_entries_strip [OF this r(1,3)] show ?thesis using strip_entry_clean by blast
qed

lemma strip_doc_include: "no_include isTop (strip_doc doc)"
proof -
  have "case rawMap (strip_doc doc) of None \<Rightarrow> True | Some root \<Rightarrow> map_of root ''include'' = None"
  proof -
    have step: "(case rawMap (at_key k f v) of None \<Rightarrow> True | Some root \<Rightarrow> map_of root ''include'' = None)"
      if "case rawMap v of None \<Rightarrow> True | Some root \<Rightarrow> map_of root ''include'' = None" for k f v
      using that rawMap_each_key [of v "\<lambda>j x. if j = k then f x else x"] by (auto simp: at_key_def map_rel_def split: option.splits)
    have "case rawMap (rawDelete ''include'' doc) of None \<Rightarrow> True | Some root \<Rightarrow> map_of root ''include'' = None"
      using map_of_rawDelete [where key = "''include''" and v = doc] by (simp split: option.splits)
    then show ?thesis unfolding strip_doc_def rawContainerSections_def by (simp add: step)
  qed
  then show ?thesis by (simp add: no_include_def split: option.splits)
qed

text \<open>The check passes over a stripped document without a trace.\<close>

lemma fold_id: "(\<And>x c. x \<in> set xs \<Longrightarrow> f x c = c) \<Longrightarrow> fold f xs c = c"
  by (induction xs arbitrary: c) auto

lemma checkLabelFiles_none: "label_values v = [] \<Longrightarrow> checkLabelFiles e app who v dir c = c"
  by (auto simp: label_values_def checkLabelFiles_def split: yany.splits)

lemma checkEntry_clean:
  assumes "entry_labels en = []" "extends_file en = None"
  shows "checkEntry e app nx kind name en dir c = c"
proof -
  have "label_values (raw_index (Some en) ''label_file'') = []" using assms(1) by (simp add: entry_labels_def)
  moreover have "label_values (raw_index (Some (snd h)) ''label_file'') = []" if "h \<in> set (pre_start_hooks en)" for h
    using assms(1) that by (cases h) (auto simp: entry_labels_def)
  ultimately show ?thesis
    using assms(2) by (auto simp: checkEntry_def Let_def checkLabelFiles_none intro!: fold_id)
qed

lemma checkDoc_stripped: "checkDoc e app nx isTop dir (strip_doc doc) c = c"
proof (cases "rawMap (strip_doc doc)")
  case None
  then show ?thesis by (simp add: checkDoc_def)
next
  case (Some root)
  have "\<not> (map_of root ''include'' \<noteq> None \<and> isTop)"
    using strip_doc_include [of isTop doc] Some by (auto simp: no_include_def)
  moreover have "checkEntry e app nx kind name en dir c' = c'" if "(key, kind) \<in> set rawContainerSections" "(name, en) \<in> set (section_entries root key)" for key kind name en c'
  proof -
    from that have "en \<in> set (doc_entries (strip_doc doc))" by (force simp: doc_entries_def Some)
    then show ?thesis using strip_doc_entries checkEntry_clean by blast
  qed
  ultimately show ?thesis unfolding checkDoc_def Some option.case if_not_P
    by (auto intro!: fold_id)
qed

text \<open>
  A compose file refused over its file references can still be parsed for its routes: what
  \<open>ParseForRoutes\<close> hands to the parser never meets the reference check again, so only the loader
  can fail. Premise: the YAML encoder's output decodes to the documents that were encoded.
\<close>

theorem ParseForRoutes_refs:
  assumes "\<And>docs content. pe_encode e docs = Some content \<Longrightarrow> re_decode (pe_refs e) content = (docs, True)"
    and "pe_abs e path = Some absPath" "pe_abs e absPath = Some absPath" "read absPath = FileData content" "snd (re_decode (pe_refs e) content)"
    and "pe_encode e (map strip_doc (filter (\<lambda>d. d \<noteq> YNil) (fst (re_decode (pe_refs e) content)))) = Some stripped"
    and "interpolationEnv (pe_dotenv e) (pe_osEnv e) [] = Some env"
  shows "ParseForRoutes e read path appName =
    (case pe_load e absPath stripped appName env (composeProfiles env) of
       None \<Rightarrow> Inl LoadFailed | Some (project, refs) \<Rightarrow> Inr (app_config_of appName absPath project refs))"
proof -
  obtain docs where d: "re_decode (pe_refs e) content = (docs, True)" using assms(5) by (cases "re_decode (pe_refs e) content") simp
  have s: "stripFileRefs (pe_refs e) (pe_encode e) content = Some stripped" using assms(6) d by (simp add: stripFileRefs_def)
  have r: "re_decode (pe_refs e) stripped = (map strip_doc (filter (\<lambda>d. d \<noteq> YNil) docs), True)" using assms(1,6) d by simp
  have "fold (checkDoc (pe_refs e) app nx True dir) (map strip_doc ds) c = c" for app nx dir ds c
    by (rule fold_id) (auto simp: checkDoc_stripped)
  then have "checkRawFileRefs (pe_refs e) stripped dir = RawOk" for dir
    by (simp add: checkRawFileRefs_def checkDocs_def r)
  then show ?thesis using assms(2-4,7) s by (simp add: ParseForRoutes_def ParseContent_def)
qed

definition include_doc :: yany where
  "include_doc = YMap [(''include'', YStr ''other.yml''), (''services'', YMap [(''web'', YMap [(''label_file'', YStr ''/etc/x''), (''image'', YStr ''nginx'')])])]"

definition example_parse :: parse_env where
  "example_parse = \<lparr>
     pe_refs = \<lparr>re_fs = plain_fs, re_regular = (\<lambda>_. True), re_read = (\<lambda>_. None),
       re_decode = (\<lambda>s. (if s = ''out'' then [strip_doc include_doc] else [include_doc], True))\<rparr>,
     pe_encode = (\<lambda>ds. if ds = [strip_doc include_doc] then Some ''out'' else None),
     pe_dotenv = (\<lambda>_ _. None), pe_osEnv = [],
     pe_load = (\<lambda>_ content _ _ _. if content = ''out'' then Some (example_project, []) else None), pe_abs = Some\<rparr>"

theorem ParseForRoutes_refs_witness:
  "ParseFile example_parse (\<lambda>p. if p = ''/a/c.yml'' then FileData ''in'' else FileNotExist) ''/a/c.yml'' ''app'' =
     Inl (FileRefViolations [IncludeUsed, OutsideApp (Owner ServiceSection ''web'' None) LabelFile ''/etc/x'']) \<and>
   ParseForRoutes example_parse (\<lambda>p. if p = ''/a/c.yml'' then FileData ''in'' else FileNotExist) ''/a/c.yml'' ''app'' =
     Inr (app_config_of ''app'' ''/a/c.yml'' example_project [])"
proof -
  let ?read = "\<lambda>p :: string. if p = ''/a/c.yml'' then FileData ''in'' else FileNotExist"
  have "ParseForRoutes example_parse ?read ''/a/c.yml'' ''app'' =
      (case pe_load example_parse ''/a/c.yml'' ''out'' ''app'' [] (composeProfiles []) of
         None \<Rightarrow> Inl LoadFailed | Some (project, refs) \<Rightarrow> Inr (app_config_of ''app'' ''/a/c.yml'' project refs))"
    by (rule ParseForRoutes_refs [where content = "''in''"])
      (auto simp: example_parse_def interpolationEnv_def include_doc_def split: if_splits)
  moreover have "checkRawFileRefs (pe_refs example_parse) ''in'' (dir_path ''/a/c.yml'') =
      RawViolations [IncludeUsed, OutsideApp (Owner ServiceSection ''web'' None) LabelFile ''/etc/x'']" by code_simp
  moreover have "join_path [dir_path ''/a/c.yml'', ''.env''] \<noteq> ''/a/c.yml''" by code_simp
  ultimately show ?thesis by (simp add: ParseFile_def ParseContent_def ReadDotEnv_def example_parse_def interpolationEnv_def)
qed

end
