(* ===== verification/ComposeErr.thy ===== *)
theory ComposeErr
  imports Prelude
begin

text \<open>
  internal/deployer/composeerr.go: what is kept of a failed compose command's output, and the removal of
  registry credentials from it. Regular expressions are written as predicates on the string.
\<close>

subsection \<open>Standard library\<close>

text \<open>\<open>strings.ReplaceAll\<close> for a needle that is not empty.\<close>

function replace_all :: "string \<Rightarrow> string \<Rightarrow> string \<Rightarrow> string" where
  "replace_all old new [] = []"
| "replace_all old new (c # cs) =
     (if old \<noteq> [] \<and> prefix old (c # cs) then new @ replace_all old new (drop (length old) (c # cs))
      else c # replace_all old new cs)"
  by pat_completeness auto
termination
  by (relation "measure (\<lambda>(_, _, s). length s)") (auto simp: neq_Nil_conv)

text \<open>\<open>base64.StdEncoding.EncodeToString\<close>.\<close>

definition base64_digit :: "nat \<Rightarrow> char" where
  "base64_digit n = ''ABCDEFGHIJKLMNOPQRSTUVWXYZabcdefghijklmnopqrstuvwxyz0123456789+/'' ! n"

fun base64_encode :: "string \<Rightarrow> string" where
  "base64_encode [] = []"
| "base64_encode [a] = (let n = of_char a * 16 :: nat in [base64_digit (n div 64), base64_digit (n mod 64), CHR ''='', CHR ''=''])"
| "base64_encode [a, b] = (let n = (of_char a * 256 + of_char b) * 4 :: nat in
     [base64_digit (n div 4096), base64_digit (n div 64 mod 64), base64_digit (n mod 64), CHR ''=''])"
| "base64_encode (a # b # c # s) = (let n = (of_char a * 256 + of_char b) * 256 + of_char c :: nat in
     base64_digit (n div 262144) # base64_digit (n div 4096 mod 64) # base64_digit (n div 64 mod 64) # base64_digit (n mod 64) # base64_encode s)"

text \<open>\<open>strings.Fields\<close>, for any test of white space.\<close>

definition fields_by :: "(char \<Rightarrow> bool) \<Rightarrow> string \<Rightarrow> string list" where
  "fields_by sp s = filter (\<lambda>w. w \<noteq> []) (split_on CHR '' '' (map (\<lambda>c. if sp c then CHR '' '' else c) s))"

text \<open>White space and word characters of Go's regular expressions.\<close>

definition re_space :: "char \<Rightarrow> bool" where
  "re_space c \<longleftrightarrow> c \<in> set [CHR '' '', CHR 0x09, CHR 0x0A, CHR 0x0C, CHR 0x0D]"

definition re_word :: "char \<Rightarrow> bool" where
  "re_word c \<longleftrightarrow> is_alnum c \<or> c = CHR ''_''"

text \<open>\<open>utf8.RuneStart\<close>.\<close>

definition RuneStart :: "char \<Rightarrow> bool" where
  "RuneStart c \<longleftrightarrow> (let n = of_char c :: nat in \<not> (128 \<le> n \<and> n < 192))"

subsection \<open>Credentials\<close>

record RegistryAuth =
  ra_URL :: string
  ra_Username :: string
  ra_Password :: string

definition redacted :: string where
  "redacted = ''[redacted]''"

definition redact_one :: "RegistryAuth \<Rightarrow> string \<Rightarrow> string" where
  "redact_one a s =
     (if ra_Password a = [] then s
      else replace_all (ra_Password a) redacted
             (replace_all (base64_encode (ra_Username a @ '':'' @ ra_Password a)) redacted s))"

definition redactAuths :: "string \<Rightarrow> RegistryAuth list \<Rightarrow> string" where
  "redactAuths s auths = fold redact_one auths s"

subsection \<open>The reason of a failure\<close>

definition noise_words :: "string list" where
  "noise_words = [''Pulling'', ''Pulled'', ''Waiting'', ''Downloading'', ''Download complete'', ''Extracting'',
     ''Verifying Checksum'', ''Pull complete'', ''Already exists'', ''Skipped'', ''Interrupted'']"

definition ends_word :: "string \<Rightarrow> string \<Rightarrow> bool" where
  "ends_word w s \<longleftrightarrow> prefix w s \<and> (case drop (length w) s of [] \<Rightarrow> True | c # _ \<Rightarrow> \<not> re_word c)"

definition object_line :: "string \<Rightarrow> bool" where
  "object_line l \<longleftrightarrow>
     l \<noteq> [] \<and> \<not> re_space (hd l) \<and> \<not> re_space (last l) \<and>
     (case fields_by re_space l of
        [k, _, _] \<Rightarrow> k \<in> set [''Container'', ''Network'', ''Volume'', ''Image'']
      | [k, _, _, t] \<Rightarrow> k \<in> set [''Container'', ''Network'', ''Volume'', ''Image''] \<and> 2 \<le> length t \<and> last t = CHR ''s'' \<and>
          list_all (\<lambda>c. is_digit c \<or> c = CHR ''.'') (butlast t)
      | _ \<Rightarrow> False)"

definition progress_line :: "string \<Rightarrow> bool" where
  "progress_line l \<longleftrightarrow>
     (let r = dropWhile (\<lambda>c. \<not> re_space c) l
      in l \<noteq> [] \<and> \<not> re_space (hd l) \<and> r \<noteq> [] \<and> list_ex (\<lambda>w. ends_word w (dropWhile re_space r)) noise_words)"

definition warning_line :: "string \<Rightarrow> bool" where
  "warning_line l \<longleftrightarrow> prefix ''WARN['' l \<or>
     list_ex (\<lambda>i. (i = 0 \<or> \<not> re_word (l ! (i - 1))) \<and> ends_word ''level=warning'' (drop i l)) [0..<length l]"

definition noiseLine :: "string \<Rightarrow> bool" where
  "noiseLine l \<longleftrightarrow> object_line l \<or> progress_line l \<or> warning_line l"

definition errorMessage :: "string \<Rightarrow> string" where
  "errorMessage line =
     (let f = fields_by is_space (to_lower line); s = join_with '' '' f
      in if prefix ''error response from daemon: '' s then drop (length ''error response from daemon: '') s
         else if prefix ''error: '' s then drop (length ''error: '') s
         else if 2 < length f \<and> f ! 1 = ''error'' then join_with '' '' (drop 2 f)
         else s)"

definition restates :: "string \<Rightarrow> string list \<Rightarrow> bool" where
  "restates line picked \<longleftrightarrow> (let msg = errorMessage line in list_ex (\<lambda>p. sublist msg (errorMessage p)) picked)"

definition maxDetailLines :: nat where
  "maxDetailLines = 3"

definition maxDetailBytes :: nat where
  "maxDetailBytes = 1000"

text \<open>The loop over the lines from the last one on; the picked lines are in the order picked.\<close>

fun pick_lines :: "string list \<Rightarrow> string list \<Rightarrow> string list" where
  "pick_lines [] picked = picked"
| "pick_lines (line # ls) picked =
     (if length picked \<ge> maxDetailLines then picked
      else let l = trim_space line in
        if l = [] \<or> noiseLine l \<or> restates l picked then pick_lines ls picked
        else pick_lines ls (picked @ [l]))"

definition newline :: char where
  "newline = CHR 0x0A"

definition cap_detail :: "string \<Rightarrow> string" where
  "cap_detail d =
     (if length d > maxDetailBytes then ''...'' @ dropWhile (\<lambda>c. \<not> RuneStart c) (drop (length d - maxDetailBytes) d) else d)"

definition failureDetail :: "string \<Rightarrow> string" where
  "failureDetail stderr = cap_detail (join_with [newline] (rev (pick_lines (rev (split_on newline stderr)) [])))"

record ComposeError =
  ce_Op :: string
  ce_Detail :: string

definition composeError :: "string \<Rightarrow> string \<Rightarrow> RegistryAuth list \<Rightarrow> ComposeError" where
  "composeError op stderr auths = \<lparr>ce_Op = op, ce_Detail = failureDetail (redactAuths stderr auths)\<rparr>"

subsection \<open>Bounds\<close>

lemma pick_lines_length: "length picked \<le> maxDetailLines \<Longrightarrow> length (pick_lines ls picked) \<le> maxDetailLines"
  by (induction ls picked rule: pick_lines.induct) (auto simp: Let_def)

lemma pick_lines_from:
  "set (pick_lines ls picked) \<subseteq> set picked \<union> {l. l \<in> trim_space ` set ls \<and> l \<noteq> [] \<and> \<not> noiseLine l}"
proof (induction ls picked rule: pick_lines.induct)
  case (2 line ls picked)
  show ?case
  proof (cases "length picked \<ge> maxDetailLines")
    case False
    show ?thesis
    proof (cases "trim_space line = [] \<or> noiseLine (trim_space line) \<or> restates (trim_space line) picked")
      case True
      with "2.IH"(1) [OF False refl] False show ?thesis by (auto simp: Let_def)
    next
      case ok: False
      have "pick_lines (line # ls) picked = pick_lines ls (picked @ [trim_space line])"
        using False ok by (simp add: Let_def)
      with "2.IH"(2) [OF False refl ok] ok show ?thesis by force
    qed
  qed auto
qed simp

lemma cap_detail_length: "length (cap_detail d) \<le> maxDetailBytes + 3"
proof -
  have "length (dropWhile P xs) \<le> length xs" for P and xs :: string
    by (simp add: length_dropWhile_le)
  from this [of "\<lambda>c. \<not> RuneStart c" "drop (length d - maxDetailBytes) d"]
  have "length (dropWhile (\<lambda>c. \<not> RuneStart c) (drop (length d - maxDetailBytes) d)) \<le> length d - (length d - maxDetailBytes)"
    by simp
  also have "\<dots> \<le> maxDetailBytes" by arith
  finally show ?thesis by (simp add: cap_detail_def)
qed

text \<open>
  The detail kept of a failed compose command is the end of at most three lines of its error
  output, none of them blank, a progress line or a warning, and at most 1003 bytes long.
\<close>

theorem failureDetail_bounded:
  "length (failureDetail stderr) \<le> 1003 \<and>
   (\<exists>ls. length ls \<le> 3 \<and> failureDetail stderr = cap_detail (join_with [newline] ls) \<and>
     (\<forall>l \<in> set ls. l \<in> trim_space ` set (split_on newline stderr) \<and> l \<noteq> [] \<and> \<not> noiseLine l))"
proof -
  let ?ls = "rev (pick_lines (rev (split_on newline stderr)) [])"
  have "length ?ls \<le> 3"
    using pick_lines_length [of "[]" "rev (split_on newline stderr)"] by (simp add: maxDetailLines_def)
  moreover have "set ?ls \<subseteq> {l. l \<in> trim_space ` set (split_on newline stderr) \<and> l \<noteq> [] \<and> \<not> noiseLine l}"
    using pick_lines_from [of "rev (split_on newline stderr)" "[]"] by simp
  ultimately show ?thesis
    using cap_detail_length [of "join_with [newline] ?ls"]
    by (intro conjI exI [of _ ?ls]) (auto simp: failureDetail_def maxDetailBytes_def)
qed

theorem failureDetail_bounded_witness:
  "failureDetail ''web Pulling'' = [] \<and> length (failureDetail ''web Pulling'') \<le> 1003"
proof -
  have "failureDetail ''web Pulling'' = []" by code_simp
  with failureDetail_bounded [of "''web Pulling''"] show ?thesis by simp
qed

subsection \<open>No credential is left\<close>

lemma sublist_avoid:
  assumes "sublist w (xs @ c # ys)" "c \<notin> set w"
  shows "sublist w xs \<or> sublist w ys"
  using assms(1)
proof (unfold sublist_append [of w xs "c # ys"], elim disjE exE conjE)
  assume "sublist w (c # ys)"
  then have "prefix w (c # ys) \<or> sublist w ys" by (simp add: sublist_Cons_right)
  then show ?thesis using assms(2) by (cases w) auto
next
  fix ps ss assume *: "w = ps @ ss" "suffix ps xs" "prefix ss (c # ys)"
  with assms(2) have "ss = []" by (cases ss) auto
  with * show ?thesis by (auto intro: suffix_imp_sublist)
qed auto

lemma sublist_avoid_mid:
  assumes "sublist w (xs @ ''['' @ m @ '']'' @ ys)" "CHR ''['' \<notin> set w" "CHR '']'' \<notin> set w" "\<not> sublist w m"
  shows "sublist w xs \<or> sublist w ys"
  using sublist_avoid [of w xs "CHR ''[''" "m @ CHR '']'' # ys"] sublist_avoid [of w m "CHR '']''" ys] assms by auto

definition clean_needle :: "string \<Rightarrow> bool" where
  "clean_needle w \<longleftrightarrow> w \<noteq> [] \<and> CHR ''['' \<notin> set w \<and> CHR '']'' \<notin> set w \<and> \<not> sublist w ''redacted''"

lemma redacted_split: "redacted = ''['' @ ''redacted'' @ '']''"
  by (simp add: redacted_def)

lemma clean_prefix_Nil: "clean_needle w \<Longrightarrow> sublist w (redacted @ ys) \<Longrightarrow> sublist w ys"
  using sublist_avoid_mid [of w "[]" "''redacted''" ys] by (auto simp: clean_needle_def redacted_split)

lemma prefix_replace: "CHR ''['' \<notin> set w \<Longrightarrow> prefix w (replace_all old redacted s) \<Longrightarrow> prefix w s"
proof (induction old redacted s arbitrary: w rule: replace_all.induct)
  case (2 old c cs)
  then show ?case by (cases w) (auto simp: redacted_split split: if_splits)
qed simp

lemma sublist_replace:
  assumes "clean_needle w"
  shows "sublist w (replace_all old redacted s) \<Longrightarrow> sublist w s"
proof (induction s rule: length_induct)
  case (1 s)
  show ?case
  proof (cases s)
    case (Cons c cs)
    show ?thesis
    proof (cases "old \<noteq> [] \<and> prefix old (c # cs)")
      case True
      let ?t = "drop (length old) (c # cs)"
      from True Cons "1.prems" have "sublist w (redacted @ replace_all old redacted ?t)" by simp
      from clean_prefix_Nil [OF assms this] have "sublist w (replace_all old redacted ?t)" .
      moreover have "length ?t < length s" using True Cons by (cases old) auto
      ultimately have "sublist w ?t" using "1.IH" by blast
      moreover have "sublist ?t (c # cs)" by (rule sublist_drop)
      ultimately show ?thesis using Cons sublist_order.order_trans by blast
    next
      case False
      with "1.prems" Cons have "prefix w (c # replace_all old redacted cs) \<or> sublist w (replace_all old redacted cs)"
        by (auto simp: sublist_Cons_right)
      then show ?thesis
      proof
        assume "prefix w (c # replace_all old redacted cs)"
        then have "prefix w (c # cs)" using assms prefix_replace [of "tl w" old cs] by (cases w) (auto simp: clean_needle_def)
        then show ?thesis using Cons by (simp add: prefix_imp_sublist)
      qed (use "1.IH" Cons in \<open>auto simp: sublist_Cons_right\<close>)
    qed
  qed (use "1.prems" in simp)
qed

lemma replace_removes:
  assumes "clean_needle old"
  shows "\<not> sublist old (replace_all old redacted s)"
proof (induction s rule: length_induct)
  case (1 s)
  show ?case
  proof (cases s)
    case (Cons c cs)
    show ?thesis
    proof (cases "prefix old (c # cs)")
      case True
      let ?t = "drop (length old) (c # cs)"
      have "old \<noteq> []" using assms by (simp add: clean_needle_def)
      then have "length ?t < length s" using Cons by (cases old) auto
      with "1.IH" have "\<not> sublist old (replace_all old redacted ?t)" by blast
      then show ?thesis using clean_prefix_Nil [OF assms] True Cons \<open>old \<noteq> []\<close> by auto
    next
      case False
      have "\<not> prefix old (c # replace_all old redacted cs)"
        using False assms prefix_replace [of "tl old" old cs] by (cases old) (auto simp: clean_needle_def)
      with False Cons "1.IH" show ?thesis by (auto simp: sublist_Cons_right)
    qed
  qed (use assms in \<open>auto simp: clean_needle_def\<close>)
qed

lemma redact_one_keeps: "clean_needle w \<Longrightarrow> sublist w (redact_one a s) \<Longrightarrow> sublist w s"
  by (cases "ra_Password a = []") (use sublist_replace in \<open>simp_all add: redact_one_def del: append_Cons append_Nil, blast\<close>)

lemma redact_fold_keeps: "clean_needle w \<Longrightarrow> sublist w (fold redact_one auths s) \<Longrightarrow> sublist w s"
  by (induction auths arbitrary: s) (auto dest: redact_one_keeps)

text \<open>
  No registry password and no base64 credential pair of the given registries is left in
  redacted command output, in whatever order and however they overlap, unless it has a bracket in it or
  is a part of the word that replaces it.
\<close>

theorem redactAuths_removes:
  assumes "a \<in> set auths" "ra_Password a \<noteq> []"
    and "w = ra_Password a \<or> w = base64_encode (ra_Username a @ '':'' @ ra_Password a)" "clean_needle w"
  shows "\<not> sublist w (redactAuths s auths)"
proof -
  obtain xs ys where "auths = xs @ a # ys" using assms(1) by (auto dest: split_list)
  moreover have "\<not> sublist w (redact_one a t)" for t
  proof -
    let ?b = "base64_encode (ra_Username a @ '':'' @ ra_Password a)"
    have "redact_one a t = replace_all (ra_Password a) redacted (replace_all ?b redacted t)"
      using assms(2) by (simp add: redact_one_def)
    moreover have "\<not> sublist w (replace_all (ra_Password a) redacted (replace_all ?b redacted t))"
      using assms(3)
    proof
      assume w: "w = ra_Password a"
      show ?thesis using replace_removes assms(4) unfolding w by blast
    next
      assume w: "w = ?b"
      have "\<not> sublist w (replace_all ?b redacted t)" using replace_removes assms(4) unfolding w by blast
      then show ?thesis using sublist_replace [OF assms(4)] by blast
    qed
    ultimately show ?thesis by simp
  qed
  ultimately show ?thesis using redact_fold_keeps [OF assms(4)] by (auto simp: redactAuths_def)
qed

theorem redactAuths_removes_witness:
  "\<not> sublist ''s3cret'' (redactAuths ''login s3s3cretcret'' [\<lparr>ra_URL = ''r.io'', ra_Username = ''u'', ra_Password = ''s3cret''\<rparr>])"
proof (rule redactAuths_removes [where a = "\<lparr>ra_URL = ''r.io'', ra_Username = ''u'', ra_Password = ''s3cret''\<rparr>"])
  show "clean_needle ''s3cret''" by code_simp
qed simp_all

end
