(* ===== verification/Deployer.thy ===== *)
theory Deployer
  imports DeployLog ComposeParse ComposeErr "HOL-Library.Monad_Syntax"
begin

text \<open>
  internal/deployer/deployer.go and stabilize.go: running docker compose for an app and watching its
  containers afterwards. What the deployer cannot decide (the output of a command, the content of a
  file, the clock, whether the request was cancelled) is a function of the events so far, so it may
  change between any two of them. The wait for the containers may never end, so an operation returns
  an option: \<open>None\<close> is not returning. The JSON decoders of container states and service lists
  (\<open>dv_state\<close>, \<open>dv_status\<close>, \<open>dv_status_item\<close>), the temporary docker config and the text of an error are
  arguments too; \<open>dv_done tr\<close> says that the request was cancelled by the end of the wait after \<open>tr\<close>.
\<close>

datatype run_event = Ran "string list" | Waited

type_synonym trace = "run_event list"

datatype deploy_error =
    FileUnreadable parse_error
  | FileRefused "violation list"
  | ConfigNotWritten
  | CommandFailed ComposeError
  | CommandError string string
  | NothingInFlight

record DeployAuditEvent =
  dae_AppSlug :: string
  dae_Action :: string
  dae_Version :: int
  dae_ComposeVersionID :: "int option"
  dae_Error :: "deploy_error option"

record DeployResult =
  dr_Output :: string
  dr_Err :: "deploy_error option"
  dr_Skipped :: bool
  dr_Status :: string
  dr_Services :: "ServiceState list"

record deploy_env =
  dv_parse :: "trace \<Rightarrow> parse_env"
  dv_files :: "trace \<Rightarrow> string \<Rightarrow> file_read"
  dv_fs :: "trace \<Rightarrow> filesystem"
  dv_protected :: protected_paths
  dv_run :: "trace \<Rightarrow> string list \<Rightarrow> string \<times> string \<times> bool"
  dv_arrival :: "(trace \<Rightarrow> string list \<Rightarrow> OutputLine list) option"
  dv_tmpDir :: "trace \<Rightarrow> RegistryAuth list \<Rightarrow> string option"
  dv_clock :: "trace \<Rightarrow> instant"
  dv_done :: "trace \<Rightarrow> bool"
  dv_timeout :: duration
  dv_state :: "string \<Rightarrow> (string \<times> int \<times> string option) option"
  dv_status :: "string \<Rightarrow> (string \<times> string \<times> string) list option"
  dv_status_item :: "string \<Rightarrow> (string \<times> string \<times> string) option"
  dv_error_lines :: "deploy_error \<Rightarrow> string list"

record Deployer =
  dp_tracker :: Tracker
  dp_trace :: trace
  dp_audit :: "DeployAuditEvent list"

text \<open>A command's arguments, all commands being \<open>docker\<close>; the result is its output and whether it succeeded.\<close>

definition run :: "deploy_env \<Rightarrow> string list \<Rightarrow> Deployer \<Rightarrow> (string \<times> string \<times> bool) \<times> Deployer" where
  "run e args d = (dv_run e (dp_trace d) args, d\<lparr>dp_trace := dp_trace d @ [Ran args]\<rparr>)"

definition log_line :: "string \<Rightarrow> string \<Rightarrow> string \<Rightarrow> Deployer \<Rightarrow> Deployer" where
  "log_line slug text stream d = d\<lparr>dp_tracker := tracker_Send slug (output_line text stream) (dp_tracker d)\<rparr>"

definition log_lines :: "string \<Rightarrow> OutputLine list \<Rightarrow> Deployer \<Rightarrow> Deployer" where
  "log_lines slug ls d = d\<lparr>dp_tracker := fold (tracker_Send slug) ls (dp_tracker d)\<rparr>"

text \<open>
  The lines of a command reach the log as they arrive (\<open>dv_arrival\<close>, the real runner) or are replayed after it.
\<close>

definition replay_lines :: "string \<Rightarrow> string \<Rightarrow> OutputLine list" where
  "replay_lines text stream =
     map (\<lambda>l. output_line l stream) (filter (\<lambda>l. l \<noteq> []) (split_on newline (drop_end_while (\<lambda>c. c = newline) text)))"

definition runCmd :: "deploy_env \<Rightarrow> string \<Rightarrow> string list \<Rightarrow> Deployer \<Rightarrow> (string \<times> string \<times> bool) \<times> Deployer" where
  "runCmd e slug args d =
     (let ((out, err, ok), d') = run e args d;
          ls = (case dv_arrival e of Some f \<Rightarrow> f (dp_trace d) args
                | None \<Rightarrow> replay_lines out ''stdout'' @ replay_lines err ''stderr'')
      in ((out, err, ok), log_lines slug ls d'))"

subsection \<open>Waiting for the containers\<close>

text \<open>The leading decimal number of a string, as \<open>Sscanf\<close> with verb d reads it; 0 when there is none.\<close>

definition scan_int :: "string \<Rightarrow> int" where
  "scan_int s =
     (let neg = (case s of c # _ \<Rightarrow> c = CHR ''-'' | [] \<Rightarrow> False);
          t = (case s of c # cs \<Rightarrow> if c = CHR ''-'' \<or> c = CHR ''+'' then cs else s | [] \<Rightarrow> []);
          ds = takeWhile (\<lambda>c. is_digit c \<or> c = CHR ''_'') t;
          v = (if neg then - int (dec_value 0 ds) else int (dec_value 0 ds))
      in if CHR ''_'' \<in> set ds \<or> v < min_i64 \<or> max_i64 < v then 0 else v)"

definition inspectState :: "deploy_env \<Rightarrow> string \<Rightarrow> Deployer \<Rightarrow> ServiceState option \<times> Deployer" where
  "inspectState e i d =
     (let ((out, _, ok), d1) = run e [''inspect'', ''--format'', ''{{json .State}}'', i] d
      in if \<not> ok then (None, d1)
         else case dv_state e (trim_space out) of
           None \<Rightarrow> (None, d1)
         | Some (status, code, health) \<Rightarrow>
             let ((rc, _, ok2), d2) = run e [''inspect'', ''--format'', ''{{.RestartCount}}'', i] d1
             in (Some \<lparr>ss_Service = [], ss_State = status, ss_Health = (case health of None \<Rightarrow> [] | Some h \<Rightarrow> h),
                   ss_RestartCount = (if ok2 then scan_int (trim_space rc) else 0), ss_ExitCode = code\<rparr>, d2))"

definition state_rank :: "ServiceState \<Rightarrow> nat" where
  "state_rank s =
     (let st = ss_State s in
      if st \<in> {''exited'', ''dead''} then 4
      else if st = ''restarting'' then 3
      else if st \<in> {''created'', ''paused''} then 2
      else if st = ''running'' then (if ss_Health s = ''unhealthy'' then 5 else if ss_Health s = ''starting'' then 1 else 0)
      else 1)"

definition mergeWorst :: "ServiceState \<Rightarrow> ServiceState \<Rightarrow> ServiceState" where
  "mergeWorst a b =
     (let a1 = (if state_rank b > state_rank a then a\<lparr>ss_State := ss_State b, ss_Health := ss_Health b, ss_ExitCode := ss_ExitCode b\<rparr> else a)
      in if ss_RestartCount b > ss_RestartCount a1 then a1\<lparr>ss_RestartCount := ss_RestartCount b\<rparr> else a1)"

definition ps_entries :: "string \<Rightarrow> (string \<times> string) list" where
  "ps_entries out =
     List.map_filter (\<lambda>l. let (i, service, tab) = cut_at CHR 0x09 l in if tab \<and> i \<noteq> [] then Some (i, service) else None)
       (split_on newline out)"

definition add_state :: "ServiceState \<Rightarrow> (string \<times> ServiceState) list \<Rightarrow> (string \<times> ServiceState) list" where
  "add_state st m =
     (case map_of m (ss_Service st) of
        Some old \<Rightarrow> AList.update (ss_Service st) (mergeWorst old st) m
      | None \<Rightarrow> AList.update (ss_Service st) st m)"

fun inspect_all :: "deploy_env \<Rightarrow> (string \<times> string) list \<Rightarrow> (string \<times> ServiceState) list \<Rightarrow> Deployer \<Rightarrow>
    (string \<times> ServiceState) list \<times> Deployer" where
  "inspect_all e [] m d = (m, d)"
| "inspect_all e ((i, service) # es) m d =
     (case inspectState e i d of
        (None, d1) \<Rightarrow> inspect_all e es m d1
      | (Some st, d1) \<Rightarrow> inspect_all e es (add_state (st\<lparr>ss_Service := service\<rparr>) m) d1)"

definition service_less :: "ServiceState \<Rightarrow> ServiceState \<Rightarrow> bool" where
  "service_less a b \<longleftrightarrow> ss_Service a < ss_Service b"

text \<open>False when \<open>docker ps\<close> failed.\<close>

definition queryProjectStates :: "deploy_env \<Rightarrow> string \<Rightarrow> Deployer \<Rightarrow> (bool \<times> ServiceState list) \<times> Deployer" where
  "queryProjectStates e project d =
     (let ((out, _, ok), d1) = run e [''ps'', ''-a'', ''--filter'', ''label=com.docker.compose.project='' @ project,
             ''--format'', ''{{.ID}}'' @ [CHR 0x09] @ ''{{.Label \"com.docker.compose.service\"}}''] d
      in if \<not> ok then ((False, []), d1)
         else if trim_space out = [] then ((True, []), d1)
         else let (m, d2) = inspect_all e (ps_entries (trim_space out)) [] d1
              in ((True, sort_by service_less (map snd m)), d2))"

definition restart_delta :: "(string \<times> int) list \<Rightarrow> ServiceState \<Rightarrow> ServiceState" where
  "restart_delta initial s =
     s\<lparr>ss_RestartCount := max 0 (wrap64 (ss_RestartCount s - (case map_of initial (ss_Service s) of None \<Rightarrow> 0 | Some n \<Rightarrow> n)))\<rparr>"

definition troubled :: "ServiceState \<Rightarrow> bool" where
  "troubled s \<longleftrightarrow> ss_State s \<in> {''restarting'', ''exited'', ''dead''} \<or> ss_Health s \<in> {''unhealthy'', ''starting''} \<or> ss_RestartCount s > 0"

definition service_summary :: "ServiceState \<Rightarrow> string" where
  "service_summary s = ss_Service s @ ''='' @ ss_State s @ (if ss_Health s \<noteq> [] then ''/'' @ ss_Health s else []) @
     (if ss_RestartCount s > 0 then '' (restarted '' @ itoa (nat (ss_RestartCount s)) @ ''x)'' else [])"

definition summarize :: "ServiceState list \<Rightarrow> string" where
  "summarize ss = (if ss = [] then ''no containers'' else join_with '', '' (map service_summary ss))"

definition initial_counts :: "ServiceState list \<Rightarrow> (string \<times> int) list" where
  "initial_counts ss = map (\<lambda>s. (ss_Service s, ss_RestartCount s)) ss"

text \<open>One round of the loop up to its decision: the first round fixes the restart counts to compare with.\<close>

definition poll :: "deploy_env \<Rightarrow> string \<Rightarrow> string \<Rightarrow> (string \<times> int) list option \<Rightarrow> string \<Rightarrow> Deployer \<Rightarrow>
    (ServiceState list \<times> (string \<times> int) list \<times> string) \<times> Deployer" where
  "poll e slug project initial lastSummary d =
     (let ((ok, states), d1) = queryProjectStates e project d;
          d2 = (if ok then d1 else log_line slug ''stabilize: docker ps'' ''stderr'' d1);
          ini = (case initial of None \<Rightarrow> initial_counts states | Some m \<Rightarrow> m);
          services = map (restart_delta ini) states;
          summary = summarize services;
          d3 = (if summary \<noteq> lastSummary then log_line slug (''Status: '' @ summary) ''stdout'' d2 else d2)
      in ((services, ini, summary), d3))"

definition stabilizeTick :: duration where
  "stabilizeTick = 2 * time_second"

partial_function (option) stabilize_loop ::
  "deploy_env \<Rightarrow> string \<Rightarrow> string \<Rightarrow> instant \<Rightarrow> (string \<times> int) list option \<Rightarrow> string \<Rightarrow> Deployer \<Rightarrow>
     ((string \<times> ServiceState list) \<times> Deployer) option" where
  "stabilize_loop e slug project deadline initial lastSummary d =
     (let ((services, ini, summary), d1) = poll e slug project initial lastSummary d
      in if \<not> list_ex troubled services then Some ((''success'', services), d1)
         else if deadline < dv_clock e (dp_trace d1) \<or> dv_done e (dp_trace d1) then Some ((''unstable'', services), d1)
         else stabilize_loop e slug project deadline (Some ini) summary (d1\<lparr>dp_trace := dp_trace d1 @ [Waited]\<rparr>))"

definition stabilize :: "deploy_env \<Rightarrow> string \<Rightarrow> string \<Rightarrow> Deployer \<Rightarrow> ((string \<times> ServiceState list) \<times> Deployer) option" where
  "stabilize e slug project d =
     stabilize_loop e slug project (dv_clock e (dp_trace d) + dv_timeout e) None []
       (log_line slug ''Waiting for containers to stabilize...'' ''stdout'' d)"

subsection \<open>The check before a run\<close>

definition checkComposeFile :: "deploy_env \<Rightarrow> AppConfig \<Rightarrow> Deployer \<Rightarrow> deploy_error option" where
  "checkComposeFile e app d =
     (let tr = dp_trace d in
      case ParseFile (dv_parse e tr) (dv_files e tr) (a_compose_path app) (a_name app) of
        Inl err \<Rightarrow> Some (FileUnreadable err)
      | Inr cfg \<Rightarrow>
          (let v = ValidateComposeSecurity (dv_fs e tr) (dv_protected e) (Some cfg)
           in if v \<noteq> [] then Some (FileRefused v) else None))"

definition done_log :: "string \<Rightarrow> string \<Rightarrow> string \<Rightarrow> ServiceState list \<Rightarrow> Deployer \<Rightarrow> Deployer" where
  "done_log slug action status services d =
     d\<lparr>dp_tracker := snd (DoneWithLogStatus slug action status services (dp_tracker d))\<rparr>"

definition failed_result :: "string \<Rightarrow> deploy_error \<Rightarrow> string \<Rightarrow> DeployResult" where
  "failed_result output err status = \<lparr>dr_Output = output, dr_Err = Some err, dr_Skipped = False, dr_Status = status, dr_Services = []\<rparr>"

definition skipped_result :: DeployResult where
  "skipped_result = \<lparr>dr_Output = [], dr_Err = None, dr_Skipped = True, dr_Status = [], dr_Services = []\<rparr>"

definition refuse :: "deploy_env \<Rightarrow> string \<Rightarrow> string \<Rightarrow> deploy_error \<Rightarrow> Deployer \<Rightarrow> DeployResult \<times> Deployer" where
  "refuse e slug action err d =
     (let ls = dv_error_lines e err;
          d1 = log_lines slug (map (\<lambda>l. output_line l ''stderr'') ls) d
      in (failed_result (join_with [newline] ls) err ''failed'', done_log slug (action @ ''_failed'') ''failed'' [] d1))"

definition finishDeploy :: "deploy_env \<Rightarrow> string \<Rightarrow> string \<Rightarrow> string \<Rightarrow> bool \<Rightarrow> Deployer \<Rightarrow> ((string \<times> ServiceState list) \<times> Deployer) option" where
  "finishDeploy e slug project action ok d =
     (if \<not> ok then Some ((''failed'', []), done_log slug (action @ ''_failed'') ''failed'' [] d)
      else Option.bind (stabilize e slug project d) (\<lambda>((status, services), d1).
        Some ((status, services), done_log slug (if status = ''unstable'' then action @ ''_unstable'' else action) status services d1)))"

subsection \<open>Operations\<close>

definition project_of :: "string \<Rightarrow> string" where
  "project_of slug = ''simpledeploy-'' @ slug"

definition compose_args :: "string \<Rightarrow> string \<Rightarrow> string list \<Rightarrow> string list" where
  "compose_args path project cmd = [''compose'', ''-f'', path, ''-p'', project] @ cmd"

definition command_output :: "string \<Rightarrow> string \<Rightarrow> string" where
  "command_output out err = trim_space (out @ [newline] @ err)"

text \<open>The end of an operation that ran its last command: the result carries the verdict of the wait.\<close>

definition finish_result ::
  "deploy_env \<Rightarrow> string \<Rightarrow> string \<Rightarrow> string \<Rightarrow> bool \<Rightarrow> ComposeError \<Rightarrow> string \<Rightarrow> Deployer \<Rightarrow> (DeployResult \<times> Deployer) option" where
  "finish_result e slug project action ok cerr output d =
     Option.bind (finishDeploy e slug project action ok d) (\<lambda>((status, services), d1).
       Some (\<lparr>dr_Output = output, dr_Err = (if ok then None else Some (CommandFailed cerr)), dr_Skipped = False,
               dr_Status = status, dr_Services = services\<rparr>, d1))"

text \<open>The part \<open>Deploy\<close> and \<open>RollbackDeploy\<close> share, from the check of the file on.\<close>

definition compose_up :: "deploy_env \<Rightarrow> AppConfig \<Rightarrow> RegistryAuth list \<Rightarrow> Deployer \<Rightarrow> (DeployResult \<times> Deployer) option" where
  "compose_up e app auths d =
     (let slug = a_name app; project = project_of slug; args = compose_args (a_compose_path app) project [''up'', ''-d'', ''--remove-orphans'']
      in case checkComposeFile e app d of
           Some err \<Rightarrow> Some (refuse e slug ''deploy'' err d)
         | None \<Rightarrow>
             (case (if auths = [] then Some [] else map_option (\<lambda>dir. [''--config'', dir]) (dv_tmpDir e (dp_trace d) auths)) of
                None \<Rightarrow> Some (failed_result [] ConfigNotWritten [], done_log slug ''deploy_failed'' [] [] d)
              | Some pre \<Rightarrow>
                  (let ((out, err, ok), d1) = runCmd e slug (pre @ args) d
                   in finish_result e slug project ''deploy'' ok (composeError ''compose up'' err auths)
                        (redactAuths (command_output out err) auths) d1)))"

definition record_audit :: "DeployAuditEvent \<Rightarrow> Deployer \<Rightarrow> Deployer" where
  "record_audit a d = d\<lparr>dp_audit := dp_audit d @ [a]\<rparr>"

definition Deploy :: "deploy_env \<Rightarrow> AppConfig \<Rightarrow> RegistryAuth list \<Rightarrow> Deployer \<Rightarrow> (DeployResult \<times> Deployer) option" where
  "Deploy e app auths d =
     (let (fresh, t) = TrackWithLog (a_name app) (dp_tracker d)
      in if \<not> fresh then Some (skipped_result, d)
         else Option.bind (compose_up e app auths (d\<lparr>dp_tracker := t\<rparr>)) (\<lambda>(res, d1).
           Some (res, record_audit \<lparr>dae_AppSlug = a_name app,
             dae_Action = (if dr_Err res \<noteq> None then ''deploy_failed'' else ''deploy_succeeded''),
             dae_Version = 0, dae_ComposeVersionID = None, dae_Error = dr_Err res\<rparr> d1)))"

definition RollbackDeploy ::
  "deploy_env \<Rightarrow> AppConfig \<Rightarrow> int \<Rightarrow> int option \<Rightarrow> RegistryAuth list \<Rightarrow> Deployer \<Rightarrow> (DeployResult \<times> Deployer) option" where
  "RollbackDeploy e app version cvID auths d =
     (let (fresh, t) = TrackWithLog (a_name app) (dp_tracker d)
      in if \<not> fresh then Some (skipped_result, d)
         else Option.bind (compose_up e app auths (d\<lparr>dp_tracker := t\<rparr>)) (\<lambda>(res, d1).
           Some (res, record_audit \<lparr>dae_AppSlug = a_name app, dae_Action = ''rollback'',
             dae_Version = version, dae_ComposeVersionID = cvID, dae_Error = dr_Err res\<rparr> d1)))"

definition Restart :: "deploy_env \<Rightarrow> AppConfig \<Rightarrow> Deployer \<Rightarrow> (DeployResult \<times> Deployer) option" where
  "Restart e app d =
     (let slug = a_name app; project = project_of slug; (fresh, t) = TrackWithLog slug (dp_tracker d)
      in if \<not> fresh then Some (skipped_result, d)
         else let ((out, err, ok), d1) = runCmd e slug (compose_args (a_compose_path app) project [''restart'']) (d\<lparr>dp_tracker := t\<rparr>)
              in finish_result e slug project ''restart'' ok (composeError ''compose restart'' err []) (command_output out err) d1)"

definition Pull :: "deploy_env \<Rightarrow> AppConfig \<Rightarrow> RegistryAuth list \<Rightarrow> Deployer \<Rightarrow> (DeployResult \<times> Deployer) option" where
  "Pull e app auths d =
     (let slug = a_name app; project = project_of slug; (fresh, t) = TrackWithLog slug (dp_tracker d); d0 = d\<lparr>dp_tracker := t\<rparr>
      in if \<not> fresh then Some (skipped_result, d)
         else case checkComposeFile e app d0 of
           Some err \<Rightarrow> Some (refuse e slug ''pull'' err d0)
         | None \<Rightarrow>
             (case (if auths = [] then Some [] else map_option (\<lambda>dir. [''--config'', dir]) (dv_tmpDir e (dp_trace d0) auths)) of
                None \<Rightarrow> Some (failed_result [] ConfigNotWritten [], done_log slug ''pull_failed'' [] [] d0)
              | Some pre \<Rightarrow>
                  (let ((out, err, ok), d1) = runCmd e slug (pre @ compose_args (a_compose_path app) project [''pull'']) d0;
                       output = redactAuths (command_output out err) auths
                   in if \<not> ok
                      then Some (failed_result output (CommandFailed (composeError ''compose pull'' err auths)) ''failed'',
                                 done_log slug ''pull_failed'' ''failed'' [] d1)
                      else let ((out2, err2, ok2), d2) =
                                 runCmd e slug (compose_args (a_compose_path app) project [''up'', ''-d'', ''--remove-orphans'']) d1
                           in finish_result e slug project ''pull'' ok2 (composeError ''compose up after pull'' err2 [])
                                (trim_space (output @ [newline] @ command_output out2 err2)) d2)))"

text \<open>A command of its own, without log: the error of \<open>op\<close> when it fails.\<close>

definition run_plain :: "deploy_env \<Rightarrow> string \<Rightarrow> string list \<Rightarrow> Deployer \<Rightarrow> deploy_error option \<times> Deployer" where
  "run_plain e oper args d =
     (let ((_, err, ok), d1) = run e args d in ((if ok then None else Some (CommandError oper err)), d1))"

definition Teardown :: "deploy_env \<Rightarrow> string \<Rightarrow> Deployer \<Rightarrow> deploy_error option \<times> Deployer" where
  "Teardown e slug = run_plain e ''compose down'' [''compose'', ''-p'', project_of slug, ''down'', ''--remove-orphans'']"

definition deployer_Stop :: "deploy_env \<Rightarrow> string \<Rightarrow> Deployer \<Rightarrow> deploy_error option \<times> Deployer" where
  "deployer_Stop e slug = run_plain e ''compose stop'' [''compose'', ''-p'', project_of slug, ''stop'']"

definition deployer_Start :: "deploy_env \<Rightarrow> string \<Rightarrow> Deployer \<Rightarrow> deploy_error option \<times> Deployer" where
  "deployer_Start e slug = run_plain e ''compose start'' [''compose'', ''-p'', project_of slug, ''start'']"

definition show_int :: "int \<Rightarrow> string" where
  "show_int n = (if n < 0 then ''-'' @ itoa (nat (- n)) else itoa (nat n))"

definition Scale :: "deploy_env \<Rightarrow> AppConfig \<Rightarrow> (string \<times> int) list \<Rightarrow> Deployer \<Rightarrow> deploy_error option \<times> Deployer" where
  "Scale e app scales d =
     (case checkComposeFile e app d of
        Some err \<Rightarrow> (Some err, d)
      | None \<Rightarrow> run_plain e ''compose scale''
          (compose_args (a_compose_path app) (project_of (a_name app)) [''up'', ''-d'', ''--no-recreate'', ''--remove-orphans''] @
           concat (map (\<lambda>(svc, n). [''--scale'', svc @ ''='' @ show_int n]) scales)) d)"

definition deployer_Cancel :: "deploy_env \<Rightarrow> AppConfig \<Rightarrow> Deployer \<Rightarrow> deploy_error option \<times> Deployer" where
  "deployer_Cancel e app d =
     (let (found, t) = tracker_Cancel (a_name app) (dp_tracker d); d0 = d\<lparr>dp_tracker := t\<rparr>
      in if \<not> found then (Some NothingInFlight, d)
         else case checkComposeFile e app d0 of
           Some err \<Rightarrow> (Some err, d0)
         | None \<Rightarrow> run_plain e ''reconcile after cancel''
             (compose_args (a_compose_path app) (project_of (a_name app)) [''up'', ''-d'', ''--remove-orphans'']) d0)"

record ServiceStatus =
  st_Service :: string
  st_State :: string
  st_Health :: string

definition to_status :: "string \<times> string \<times> string \<Rightarrow> ServiceStatus" where
  "to_status = (\<lambda>(a, b, c). \<lparr>st_Service = a, st_State = b, st_Health = c\<rparr>)"

definition Status :: "deploy_env \<Rightarrow> string \<Rightarrow> Deployer \<Rightarrow> (deploy_error + ServiceStatus list) \<times> Deployer" where
  "Status e slug d =
     (let ((out, err, ok), d1) = run e [''compose'', ''-p'', project_of slug, ''ps'', ''--format'', ''json''] d
      in (if \<not> ok then Inl (CommandError ''compose ps'' err)
          else if out = [] then Inr []
          else Inr (map to_status (case dv_status e out of
              Some raw \<Rightarrow> raw
            | None \<Rightarrow> List.map_filter (dv_status_item e) (filter (\<lambda>l. l \<noteq> []) (split_on newline (trim_space out))))), d1))"

subsection \<open>What the helpers leave alone\<close>

text \<open>
  From \<open>d\<close> to \<open>d'\<close> only events in \<open>Q\<close> happened, and neither the audit log nor the set of running deploys changed.
\<close>

definition runs_only :: "(run_event \<Rightarrow> bool) \<Rightarrow> Deployer \<Rightarrow> Deployer \<Rightarrow> bool" where
  "runs_only Q d d' \<longleftrightarrow>
     (\<exists>new. dp_trace d' = dp_trace d @ new \<and> (\<forall>ev \<in> set new. Q ev)) \<and> dp_audit d' = dp_audit d \<and>
     map fst (tr_logs (dp_tracker d')) = map fst (tr_logs (dp_tracker d)) \<and> tr_flights (dp_tracker d') = tr_flights (dp_tracker d)"

lemma runs_only_refl [simp, intro]: "runs_only Q d d"
  by (simp add: runs_only_def)

lemma runs_only_trans [trans]: "runs_only Q d d1 \<Longrightarrow> runs_only Q d1 d2 \<Longrightarrow> runs_only Q d d2"
  unfolding runs_only_def by fastforce

lemma runs_only_mono: "runs_only P d d' \<Longrightarrow> (\<And>ev. P ev \<Longrightarrow> Q ev) \<Longrightarrow> runs_only Q d d'"
  unfolding runs_only_def by blast

lemma runs_only_run: "Q (Ran args) \<Longrightarrow> run e args d = (r, d') \<Longrightarrow> runs_only Q d d'"
  by (auto simp: run_def runs_only_def)

lemma runs_only_wait: "Q Waited \<Longrightarrow> runs_only Q d (d\<lparr>dp_trace := dp_trace d @ [Waited]\<rparr>)"
  by (auto simp: runs_only_def)

lemma tracker_Send_keys [simp]:
  "map fst (tr_logs (tracker_Send slug l t)) = map fst (tr_logs t)" "tr_flights (tracker_Send slug l t) = tr_flights t"
  by (auto simp: tracker_Send_def)

lemma fold_tracker_Send [simp]:
  "map fst (tr_logs (fold (tracker_Send slug) ls t)) = map fst (tr_logs t)"
  "tr_flights (fold (tracker_Send slug) ls t) = tr_flights t"
  by (induction ls arbitrary: t) auto

lemma runs_only_log [intro]: "runs_only Q d (log_line slug text stream d)" "runs_only Q d (log_lines slug ls d)"
  by (auto simp: runs_only_def log_line_def log_lines_def)

lemma runs_only_runCmd: "Q (Ran args) \<Longrightarrow> runCmd e slug args d = (r, d') \<Longrightarrow> runs_only Q d d'"
  by (auto simp: runCmd_def Let_def split: prod.splits intro: runs_only_trans [OF runs_only_run])

text \<open>The command compose is asked to run, behind its options.\<close>

definition takes_value :: "string \<Rightarrow> bool" where
  "takes_value a \<longleftrightarrow> a \<in> {''--config'', ''-f'', ''-p''}"

definition is_compose :: "string \<Rightarrow> bool" where
  "is_compose a \<longleftrightarrow> a = ''compose''"

fun subcommand :: "string list \<Rightarrow> string option" where
  "subcommand [] = None"
| "subcommand (a # as) =
     (if is_compose a then subcommand as else if takes_value a then (case as of [] \<Rightarrow> None | _ # bs \<Rightarrow> subcommand bs) else Some a)"

definition not_up :: "string list \<Rightarrow> bool" where
  "not_up args \<longleftrightarrow> subcommand args \<noteq> Some ''up''"

lemmas command_simps = not_up_def compose_args_def takes_value_def is_compose_def

text \<open>Anything but a run of \<open>up\<close>, and only commands, none of them \<open>up\<close>.\<close>

definition quiet :: "run_event \<Rightarrow> bool" where
  "quiet ev \<longleftrightarrow> (\<forall>a. ev = Ran a \<longrightarrow> not_up a)"

definition asking :: "run_event \<Rightarrow> bool" where
  "asking ev \<longleftrightarrow> (\<exists>a. ev = Ran a \<and> not_up a)"

lemma quiet_simps [simp]: "quiet Waited" "quiet (Ran a) = not_up a" "asking (Ran a) = not_up a" "\<not> asking Waited"
  by (auto simp: quiet_def asking_def)

lemma asking_quiet: "runs_only asking d d' \<Longrightarrow> runs_only quiet d d'"
  by (erule runs_only_mono) (auto simp: asking_def)

lemma runs_only_inspect:
  assumes "inspectState e i d = (r, d')"
  shows "runs_only asking d d'"
proof -
  obtain out err ok d1 where r1: "run e [''inspect'', ''--format'', ''{{json .State}}'', i] d = ((out, err, ok), d1)"
    by (metis prod_cases3 surj_pair)
  obtain rc err2 ok2 d2 where r2: "run e [''inspect'', ''--format'', ''{{.RestartCount}}'', i] d1 = ((rc, err2, ok2), d2)"
    by (metis prod_cases3 surj_pair)
  have "runs_only asking d d1" by (rule runs_only_run [OF _ r1]) (simp add: command_simps)
  moreover have "runs_only asking d1 d2" by (rule runs_only_run [OF _ r2]) (simp add: command_simps)
  moreover have "d' = d1 \<or> d' = d2"
  proof (cases "\<not> ok \<or> dv_state e (trim_space out) = None")
    case True
    with assms show ?thesis unfolding inspectState_def r1 Let_def prod.case by (cases ok) simp_all
  next
    case False
    then obtain st code h where "dv_state e (trim_space out) = Some (st, code, h)" by auto
    with False assms show ?thesis unfolding inspectState_def r1 r2 Let_def prod.case by simp
  qed
  ultimately show ?thesis by (blast intro: runs_only_trans)
qed

lemma runs_only_inspect_all: "inspect_all e es m d = (r, d') \<Longrightarrow> runs_only asking d d'"
proof (induction e es m d arbitrary: r rule: inspect_all.induct)
  case (2 e i service es m d)
  obtain st d1 where i: "inspectState e i d = (st, d1)" by (cases "inspectState e i d")
  then have "runs_only asking d d1" by (rule runs_only_inspect)
  also have "runs_only asking d1 d'"
    using "2.IH" [OF i [symmetric]] "2.prems" i by (cases st) auto
  finally show ?case .
qed simp

lemma runs_only_query:
  assumes "queryProjectStates e project d = (r, d')"
  shows "runs_only asking d d'"
proof -
  let ?args = "[''ps'', ''-a'', ''--filter'', ''label=com.docker.compose.project='' @ project,
             ''--format'', ''{{.ID}}'' @ [CHR 0x09] @ ''{{.Label \"com.docker.compose.service\"}}'']"
  obtain out err ok d1 where r: "run e ?args d = ((out, err, ok), d1)" by (metis prod_cases3 surj_pair)
  have "runs_only asking d d1" by (rule runs_only_run [OF _ r]) (simp add: command_simps)
  moreover have "runs_only asking d1 d'"
  proof -
    obtain m d2 where i: "inspect_all e (ps_entries (trim_space out)) [] d1 = (m, d2)" by (cases "inspect_all e (ps_entries (trim_space out)) [] d1")
    have "d' = d1 \<or> d' = d2"
      using assms unfolding queryProjectStates_def Let_def r prod.case i by (auto split: if_splits)
    with runs_only_inspect_all [OF i] show ?thesis by auto
  qed
  ultimately show ?thesis by (rule runs_only_trans)
qed

lemma runs_only_poll:
  assumes "poll e slug project initial lastSummary d = (r, d')"
  shows "runs_only asking d d'"
proof -
  obtain ok states d1 where q: "queryProjectStates e project d = ((ok, states), d1)" by (metis surj_pair)
  let ?ini = "case initial of None \<Rightarrow> initial_counts states | Some m \<Rightarrow> m"
  let ?sum = "summarize (map (restart_delta ?ini) states)"
  let ?d2 = "if ok then d1 else log_line slug ''stabilize: docker ps'' ''stderr'' d1"
  let ?d3 = "if ?sum \<noteq> lastSummary then log_line slug (''Status: '' @ ?sum) ''stdout'' ?d2 else ?d2"
  have "runs_only asking d1 ?d2" by (cases ok) (simp_all only: if_True if_False runs_only_refl runs_only_log)
  moreover have "runs_only asking ?d2 ?d3"
    by (cases "?sum = lastSummary") (simp_all only: if_True if_False not_False_eq_True not_True_eq_False simp_thms runs_only_refl runs_only_log)
  ultimately have "runs_only asking d1 ?d3" by (rule runs_only_trans)
  moreover have "d' = ?d3"
    using assms unfolding poll_def q Let_def prod.case by (simp only: prod.inject)
  ultimately have "runs_only asking d1 d'" by (simp only:)
  with runs_only_query [OF q] show ?thesis by (rule runs_only_trans)
qed

definition loop_exit :: "deploy_env \<Rightarrow> instant \<Rightarrow> (string \<times> ServiceState list) \<times> Deployer \<Rightarrow> bool" where
  "loop_exit e deadline r \<longleftrightarrow>
     (let ((status, services), d') = r
      in if list_ex troubled services then status = ''unstable'' \<and> (deadline < dv_clock e (dp_trace d') \<or> dv_done e (dp_trace d'))
         else status = ''success'')"

lemma stabilize_loop_result:
  assumes "stabilize_loop e slug project deadline initial lastSummary d = Some r"
  shows "runs_only quiet d (snd r) \<and> loop_exit e deadline r"
proof (rule stabilize_loop.raw_induct [where P = "\<lambda>e slug project deadline initial lastSummary d r. runs_only quiet d (snd r) \<and> loop_exit e deadline r", OF _ assms])
  fix loop e slug project deadline initial lastSummary d r
  assume IH: "\<And>e slug project deadline initial lastSummary d r.
      loop e slug project deadline initial lastSummary d = Some r \<Longrightarrow> runs_only quiet d (snd r) \<and> loop_exit e deadline r"
    and eq: "(let ((services, ini, summary), d1) = poll e slug project initial lastSummary d
      in if \<not> list_ex troubled services then Some ((''success'', services), d1)
         else if deadline < dv_clock e (dp_trace d1) \<or> dv_done e (dp_trace d1) then Some ((''unstable'', services), d1)
         else loop e slug project deadline (Some ini) summary (d1\<lparr>dp_trace := dp_trace d1 @ [Waited]\<rparr>)) = Some r"
  obtain services ini summary d1 where p: "poll e slug project initial lastSummary d = ((services, ini, summary), d1)"
    by (metis prod_cases3 surj_pair)
  note d1 = asking_quiet [OF runs_only_poll [OF p]] and eq' = eq [unfolded p Let_def prod.case]
  show "runs_only quiet d (snd r) \<and> loop_exit e deadline r"
  proof (cases "list_ex troubled services \<and> \<not> (deadline < dv_clock e (dp_trace d1) \<or> dv_done e (dp_trace d1))")
    case True
    let ?d2 = "d1\<lparr>dp_trace := dp_trace d1 @ [Waited]\<rparr>"
    from eq' True have "loop e slug project deadline (Some ini) summary ?d2 = Some r" by simp
    note rest = IH [OF this]
    have "runs_only quiet d1 ?d2" by (rule runs_only_wait) simp
    from runs_only_trans [OF d1 runs_only_trans [OF this conjunct1 [OF rest]]] rest show ?thesis by blast
  next
    case False
    then have "r = ((if list_ex troubled services then ''unstable'' else ''success'', services), d1)"
      using eq' by (cases "list_ex troubled services") simp_all
    with d1 False show ?thesis by (cases "list_ex troubled services") (simp_all add: loop_exit_def)
  qed
qed

lemma stabilize_result:
  assumes "stabilize e slug project d = Some r"
  shows "runs_only quiet d (snd r) \<and> loop_exit e (dv_clock e (dp_trace d) + dv_timeout e) r"
  using stabilize_loop_result [OF assms [unfolded stabilize_def]] runs_only_log(1) runs_only_trans by blast

subsection \<open>Every run of compose up was checked\<close>

definition accepted :: "deploy_env \<Rightarrow> trace \<Rightarrow> AppConfig \<Rightarrow> bool" where
  "accepted e tr app \<longleftrightarrow>
     (case ParseFile (dv_parse e tr) (dv_files e tr) (a_compose_path app) (a_name app) of
        Inl _ \<Rightarrow> False
      | Inr cfg \<Rightarrow> ValidateComposeSecurity (dv_fs e tr) (dv_protected e) (Some cfg) = [])"

lemma checkComposeFile_None: "checkComposeFile e app d = None \<longleftrightarrow> accepted e (dp_trace d) app"
  by (auto simp: checkComposeFile_def accepted_def Let_def split: sum.splits)

text \<open>The command works on the app's compose file and project.\<close>

definition runs_file :: "AppConfig \<Rightarrow> string list \<Rightarrow> bool" where
  "runs_file app args \<longleftrightarrow> (\<exists>pre cmd. args = pre @ compose_args (a_compose_path app) (project_of (a_name app)) cmd)"

lemma runs_fileI [intro, simp]:
  "runs_file app (compose_args (a_compose_path app) (project_of (a_name app)) cmd)"
  "runs_file app (pre @ compose_args (a_compose_path app) (project_of (a_name app)) cmd)"
  "runs_file app (compose_args (a_compose_path app) (project_of (a_name app)) cmd @ extra)"
  unfolding runs_file_def by (metis append_Nil, blast, metis append_Nil append.assoc compose_args_def)

text \<open>What an operation ran: an \<open>up\<close> only at place \<open>n\<close>, and only of a file accepted before the first command.\<close>

definition op_up :: "deploy_env \<Rightarrow> nat \<Rightarrow> AppConfig \<Rightarrow> Deployer \<Rightarrow> Deployer \<Rightarrow> bool" where
  "op_up e n app d d' \<longleftrightarrow>
     (\<exists>new. dp_trace d' = dp_trace d @ new \<and>
        (\<forall>j args. j < length new \<longrightarrow> new ! j = Ran args \<longrightarrow> not_up args \<or> j = n \<and> accepted e (dp_trace d) app \<and> runs_file app args))"

lemma op_up_quiet: "runs_only quiet d d' \<Longrightarrow> op_up e n app d d'"
  unfolding runs_only_def op_up_def by (metis nth_mem quiet_simps(2))

lemma op_up_done_log [simp]: "op_up e n app d (done_log slug a s sv d') = op_up e n app d d'"
  by (simp add: op_up_def done_log_def)

lemma op_up_record_audit [simp]: "op_up e n app d (record_audit r d') = op_up e n app d d'"
  by (simp add: op_up_def record_audit_def)

lemma op_up_tracker [simp]: "op_up e n app (d\<lparr>dp_tracker := t\<rparr>) d' = op_up e n app d d'"
  by (simp add: op_up_def)

lemma nth_after: "length pre < j \<Longrightarrow> (pre @ x # new) ! j = new ! (j - Suc (length pre))"
  by (simp add: nth_append nth_Cons')

lemma op_up_after:
  assumes "dp_trace d1 = dp_trace d @ pre @ [Ran args]" "\<And>a. Ran a \<in> set pre \<Longrightarrow> not_up a"
    and "accepted e (dp_trace d) app" "runs_only quiet d1 d'" "runs_file app args"
  shows "op_up e (length pre) app d d'"
proof -
  obtain new where "dp_trace d' = dp_trace d1 @ new" and new: "\<And>a. Ran a \<in> set new \<Longrightarrow> not_up a"
    using assms(4) by (fastforce simp: runs_only_def quiet_def)
  then have "dp_trace d' = dp_trace d @ pre @ Ran args # new" using assms(1) by simp
  moreover have "not_up a \<or> j = length pre \<and> a = args" if "j < length (pre @ Ran args # new)" "(pre @ Ran args # new) ! j = Ran a" for j a
  proof (cases "j < length pre")
    case True
    with that(2) have "pre ! j = Ran a" by (simp add: nth_append)
    with True have "Ran a \<in> set pre" by (metis nth_mem)
    then show ?thesis using assms(2) by simp
  next
    case False
    show ?thesis
    proof (cases "j = length pre")
      case J: False
      with False have j: "length pre < j" by simp
      have "new ! (j - Suc (length pre)) = Ran a" using that(2) nth_after [OF j] by simp
      moreover have "j - Suc (length pre) < length new" using that(1) j by simp
      ultimately have "Ran a \<in> set new" by (metis nth_mem)
      then show ?thesis using new by simp
    qed (use that(2) in simp)
  qed
  ultimately show ?thesis unfolding op_up_def using assms(3,5) by blast
qed

lemma runCmd_trace: "runCmd e slug args d = (r, d') \<Longrightarrow> dp_trace d' = dp_trace d @ [Ran args]"
  by (auto simp: runCmd_def run_def log_lines_def Let_def split: prod.splits)

lemma run_plain_trace: "dp_trace (snd (run_plain e oper args d)) = dp_trace d @ [Ran args]"
  by (auto simp: run_plain_def run_def split: prod.splits)

lemma finish_result_ends:
  assumes "finish_result e slug project action ok cerr output d = Some (res, d')"
  shows "\<exists>d1 a s sv. runs_only quiet d d1 \<and> d' = done_log slug a s sv d1"
proof -
  obtain status services d1 where f: "finishDeploy e slug project action ok d = Some ((status, services), d1)" "d' = d1"
    using assms by (auto simp: finish_result_def bind_eq_Some_conv)
  show ?thesis
  proof (cases ok)
    case False
    with f show ?thesis by (fastforce simp: finishDeploy_def)
  next
    case True
    with f obtain st sv d2 where "stabilize e slug project d = Some ((st, sv), d2)"
      "d1 = done_log slug (if st = ''unstable'' then action @ ''_unstable'' else action) st sv d2"
      by (auto simp: finishDeploy_def bind_eq_Some_conv)
    with stabilize_result [of e slug project d] f(2) show ?thesis by fastforce
  qed
qed

lemma refuse_ends: "\<exists>d1 a s sv. runs_only Q d d1 \<and> snd (refuse e slug action err d) = done_log slug a s sv d1"
  by (auto simp: refuse_def Let_def)

text \<open>What \<open>compose_up\<close> and \<open>Pull\<close> do, case by case.\<close>

lemma compose_up_cases:
  assumes "compose_up e app auths d = Some (res, d')"
  obtains (refused) err where "checkComposeFile e app d = Some err" "(res, d') = refuse e (a_name app) ''deploy'' err d"
  | (no_config) "accepted e (dp_trace d) app" "d' = done_log (a_name app) ''deploy_failed'' [] [] d" "dr_Err res = Some ConfigNotWritten" "\<not> dr_Skipped res"
  | (ran) args out err ok cerr t1 d1 where "accepted e (dp_trace d) app" "runs_file app args" "runCmd e (a_name app) args d = ((out, err, ok), d1)"
      "finish_result e (a_name app) (project_of (a_name app)) ''deploy'' ok cerr t1 d1 = Some (res, d')"
proof (cases "checkComposeFile e app d")
  case (Some err)
  with assms show ?thesis by (intro refused [of err]) (simp_all add: compose_up_def Let_def eq_commute)
next
  case None
  then have acc: "accepted e (dp_trace d) app" by (simp add: checkComposeFile_None)
  let ?pre = "if auths = [] then Some [] else map_option (\<lambda>dir. [''--config'', dir]) (dv_tmpDir e (dp_trace d) auths)"
  show ?thesis
  proof (cases ?pre)
    case N: None
    with assms None show ?thesis
      by (intro no_config [OF acc]) (auto simp: compose_up_def Let_def failed_result_def split: if_splits)
  next
    case (Some pre)
    obtain out err ok d1 where r: "runCmd e (a_name app) (pre @ compose_args (a_compose_path app) (project_of (a_name app)) [''up'', ''-d'', ''--remove-orphans'']) d = ((out, err, ok), d1)"
      by (metis prod_cases3 surj_pair)
    from assms show ?thesis
      unfolding compose_up_def Let_def None Some option.case r prod.case by (rule ran [OF acc runs_fileI(2) r])
  qed
qed

lemma compose_up_op_up:
  assumes "compose_up e app auths d = Some (res, d')"
  shows "op_up e 0 app d d'"
  using assms
proof (cases rule: compose_up_cases)
  case (refused err)
  then obtain d1 a s sv where "runs_only quiet d d1" "d' = done_log (a_name app) a s sv d1"
    using refuse_ends [of quiet d e "a_name app" "''deploy''" err] by (metis snd_conv)
  then show ?thesis by (simp add: op_up_quiet)
next
  case no_config
  then show ?thesis by (simp add: op_up_quiet)
next
  case (ran args out err ok cerr t1 d1)
  obtain d2 a s sv where d2: "runs_only quiet d1 d2" "d' = done_log (a_name app) a s sv d2"
    using finish_result_ends [OF ran(4)] by blast
  have "op_up e (length ([] :: trace)) app d d2"
    by (rule op_up_after [OF _ _ ran(1) d2(1) ran(2)]) (simp_all add: runCmd_trace [OF ran(3)])
  with d2(2) show ?thesis by simp
qed

lemma Deploy_cases:
  assumes "Deploy e app auths d = Some (res, d')"
  obtains (skipped) "\<not> fst (TrackWithLog (a_name app) (dp_tracker d))" "res = skipped_result" "d' = d"
  | (ran) d1 where "fst (TrackWithLog (a_name app) (dp_tracker d))"
      "compose_up e app auths (d\<lparr>dp_tracker := snd (TrackWithLog (a_name app) (dp_tracker d))\<rparr>) = Some (res, d1)"
      "d' = record_audit \<lparr>dae_AppSlug = a_name app, dae_Action = (if dr_Err res \<noteq> None then ''deploy_failed'' else ''deploy_succeeded''),
             dae_Version = 0, dae_ComposeVersionID = None, dae_Error = dr_Err res\<rparr> d1"
proof (cases "TrackWithLog (a_name app) (dp_tracker d)")
  case (Pair fresh t)
  show ?thesis
  proof (cases fresh)
    case False
    with assms Pair show ?thesis by (intro skipped) (simp_all add: Deploy_def)
  next
    case True
    with assms Pair obtain d1 where d1: "compose_up e app auths (d\<lparr>dp_tracker := t\<rparr>) = Some (res, d1)" and d':
      "d' = record_audit \<lparr>dae_AppSlug = a_name app, dae_Action = (if dr_Err res \<noteq> None then ''deploy_failed'' else ''deploy_succeeded''),
             dae_Version = 0, dae_ComposeVersionID = None, dae_Error = dr_Err res\<rparr> d1"
      unfolding Deploy_def Pair prod.case by (auto simp: bind_eq_Some_conv simp del: record_audit_def)
    with True Pair show ?thesis by (intro ran [OF _ _ d']) simp_all
  qed
qed

lemma RollbackDeploy_cases:
  assumes "RollbackDeploy e app v cv auths d = Some (res, d')"
  obtains (skipped) "\<not> fst (TrackWithLog (a_name app) (dp_tracker d))" "res = skipped_result" "d' = d"
  | (ran) d1 where "fst (TrackWithLog (a_name app) (dp_tracker d))"
      "compose_up e app auths (d\<lparr>dp_tracker := snd (TrackWithLog (a_name app) (dp_tracker d))\<rparr>) = Some (res, d1)"
      "d' = record_audit \<lparr>dae_AppSlug = a_name app, dae_Action = ''rollback'', dae_Version = v, dae_ComposeVersionID = cv, dae_Error = dr_Err res\<rparr> d1"
proof (cases "TrackWithLog (a_name app) (dp_tracker d)")
  case (Pair fresh t)
  show ?thesis
  proof (cases fresh)
    case False
    with assms Pair show ?thesis by (intro skipped) (simp_all add: RollbackDeploy_def)
  next
    case True
    with assms Pair obtain d1 where d1: "compose_up e app auths (d\<lparr>dp_tracker := t\<rparr>) = Some (res, d1)" and d':
      "d' = record_audit \<lparr>dae_AppSlug = a_name app, dae_Action = ''rollback'', dae_Version = v, dae_ComposeVersionID = cv, dae_Error = dr_Err res\<rparr> d1"
      unfolding RollbackDeploy_def Pair prod.case by (auto simp: bind_eq_Some_conv simp del: record_audit_def)
    with True Pair show ?thesis by (intro ran [OF _ _ d']) simp_all
  qed
qed

lemma Deploy_op_up:
  assumes "Deploy e app auths d = Some (res, d')"
  shows "op_up e 0 app d d'"
  using assms
proof (cases rule: Deploy_cases)
  case (ran d1)
  from compose_up_op_up [OF ran(2)] show ?thesis unfolding ran(3) by simp
qed (simp add: op_up_quiet)

lemma RollbackDeploy_op_up:
  assumes "RollbackDeploy e app v cv auths d = Some (res, d')"
  shows "op_up e 0 app d d'"
  using assms
proof (cases rule: RollbackDeploy_cases)
  case (ran d1)
  from compose_up_op_up [OF ran(2)] show ?thesis unfolding ran(3) by simp
qed (simp add: op_up_quiet)

lemma Pull_op_up:
  assumes "Pull e app auths d = Some (res, d')"
  shows "op_up e 1 app d d'"
proof -
  obtain fresh t where tr: "TrackWithLog (a_name app) (dp_tracker d) = (fresh, t)" by fastforce
  let ?d0 = "d\<lparr>dp_tracker := t\<rparr>" and ?slug = "a_name app"
  let ?pre = "if auths = [] then Some [] else map_option (\<lambda>dir. [''--config'', dir]) (dv_tmpDir e (dp_trace ?d0) auths)"
  note eq = assms [unfolded Pull_def Let_def tr prod.case]
  show ?thesis
  proof (cases "fresh")
    case False
    with eq show ?thesis by (auto intro: op_up_quiet)
  next
    case fresh: True
    show ?thesis
    proof (cases "checkComposeFile e app ?d0")
      case (Some err)
      with eq fresh have "d' = snd (refuse e ?slug ''pull'' err ?d0)" by simp
      then obtain d1 a s sv where "runs_only quiet ?d0 d1" "d' = done_log ?slug a s sv d1"
        using refuse_ends [of quiet ?d0 e ?slug "''pull''" err] by metis
      with op_up_quiet [of ?d0 d1 e 1 app] show ?thesis by simp
    next
      case chk: None
      then have acc: "accepted e (dp_trace ?d0) app" by (simp add: checkComposeFile_None)
      show ?thesis
      proof (cases ?pre)
        case None
        with eq fresh chk have "d' = done_log ?slug ''pull_failed'' [] [] ?d0" by (auto split: if_splits)
        with op_up_quiet [of ?d0 ?d0 e 1 app] show ?thesis by simp
      next
        case (Some pre)
        let ?pull = "pre @ compose_args (a_compose_path app) (project_of ?slug) [''pull'']"
        have nu: "not_up ?pull" using Some by (auto simp: command_simps split: if_splits)
        obtain out err ok d1 where r: "runCmd e ?slug ?pull ?d0 = ((out, err, ok), d1)" by (metis prod_cases3 surj_pair)
        note d1 = runCmd_trace [OF r]
        show ?thesis
        proof (cases ok)
          case False
          from eq have "d' = done_log ?slug ''pull_failed'' ''failed'' [] d1"
            unfolding chk Some option.case r prod.case using fresh False by simp
          moreover have "runs_only quiet ?d0 d1" by (rule runs_only_runCmd [OF _ r]) (simp add: nu)
          ultimately show ?thesis using op_up_quiet [of ?d0 d1 e 1 app] by simp
        next
          case True
          let ?up = "compose_args (a_compose_path app) (project_of ?slug) [''up'', ''-d'', ''--remove-orphans'']"
          obtain out2 err2 ok2 d2 where r2: "runCmd e ?slug ?up d1 = ((out2, err2, ok2), d2)" by (metis prod_cases3 surj_pair)
          from eq have "\<exists>o1. finish_result e ?slug (project_of ?slug) ''pull'' ok2 (composeError ''compose up after pull'' err2 []) o1 d2 = Some (res, d')"
            unfolding chk Some option.case r r2 prod.case using fresh True by auto
          then obtain d3 a s sv where d3: "runs_only quiet d2 d3" "d' = done_log ?slug a s sv d3"
            using finish_result_ends by blast
          have "op_up e (length [Ran ?pull]) app ?d0 d3"
            by (rule op_up_after [OF _ _ acc d3(1), of "[Ran ?pull]" ?up]) (use nu d1 runCmd_trace [OF r2] in auto)
          with d3(2) show ?thesis by simp
        qed
      qed
    qed
  qed
qed

lemma op_up_plain:
  assumes "accepted e (dp_trace d) app \<and> runs_file app args \<or> not_up args"
  shows "op_up e 0 app d (snd (run_plain e oper args d))"
  using assms by (auto simp: op_up_def run_plain_trace)

datatype deploy_op =
    OpDeploy AppConfig "RegistryAuth list"
  | OpRollback AppConfig int "int option" "RegistryAuth list"
  | OpRestart AppConfig
  | OpPull AppConfig "RegistryAuth list"
  | OpScale AppConfig "(string \<times> int) list"
  | OpCancel AppConfig
  | OpTeardown string
  | OpStop string
  | OpStart string
  | OpStatus string

fun op_run :: "deploy_env \<Rightarrow> deploy_op \<Rightarrow> Deployer \<Rightarrow> Deployer option" where
  "op_run e (OpDeploy app auths) d = map_option snd (Deploy e app auths d)"
| "op_run e (OpRollback app v c auths) d = map_option snd (RollbackDeploy e app v c auths d)"
| "op_run e (OpRestart app) d = map_option snd (Restart e app d)"
| "op_run e (OpPull app auths) d = map_option snd (Pull e app auths d)"
| "op_run e (OpScale app scales) d = Some (snd (Scale e app scales d))"
| "op_run e (OpCancel app) d = Some (snd (deployer_Cancel e app d))"
| "op_run e (OpTeardown slug) d = Some (snd (Teardown e slug d))"
| "op_run e (OpStop slug) d = Some (snd (deployer_Stop e slug d))"
| "op_run e (OpStart slug) d = Some (snd (deployer_Start e slug d))"
| "op_run e (OpStatus slug) d = Some (snd (Status e slug d))"

fun op_app :: "deploy_op \<Rightarrow> AppConfig option" where
  "op_app (OpDeploy app _) = Some app"
| "op_app (OpRollback app _ _ _) = Some app"
| "op_app (OpRestart app) = Some app"
| "op_app (OpPull app _) = Some app"
| "op_app (OpScale app _) = Some app"
| "op_app (OpCancel app) = Some app"
| "op_app _ = None"

definition checks_before :: "deploy_op \<Rightarrow> nat" where
  "checks_before op = (case op of OpPull _ _ \<Rightarrow> 1 | _ \<Rightarrow> 0)"

lemma Restart_op_up:
  assumes "Restart e app d = Some (res, d')"
  shows "op_up e n app d d'"
proof -
  obtain fresh t where tr: "TrackWithLog (a_name app) (dp_tracker d) = (fresh, t)" by fastforce
  let ?args = "compose_args (a_compose_path app) (project_of (a_name app)) [''restart'']"
  obtain out err ok d1 where r: "runCmd e (a_name app) ?args (d\<lparr>dp_tracker := t\<rparr>) = ((out, err, ok), d1)" by (metis prod_cases3 surj_pair)
  show ?thesis
  proof (cases fresh)
    case False
    with assms have "d' = d" by (simp add: Restart_def Let_def tr)
    then show ?thesis by (auto intro: op_up_quiet)
  next
    case True
    from assms have "finish_result e (a_name app) (project_of (a_name app)) ''restart'' ok (composeError ''compose restart'' err [])
        (command_output out err) d1 = Some (res, d')"
      unfolding Restart_def Let_def tr prod.case r using True by simp
    then obtain d2 a s sv where d2: "runs_only quiet d1 d2" "d' = done_log (a_name app) a s sv d2" using finish_result_ends by blast
    have "runs_only quiet (d\<lparr>dp_tracker := t\<rparr>) d1" by (rule runs_only_runCmd [OF _ r]) (simp add: command_simps)
    then have "op_up e n app (d\<lparr>dp_tracker := t\<rparr>) d2" using d2(1) by (blast intro: op_up_quiet runs_only_trans)
    with d2(2) show ?thesis by simp
  qed
qed


lemma op_run_op_up:
  assumes "op_run e op d = Some d'"
  shows "case op_app op of Some app \<Rightarrow> op_up e (checks_before op) app d d' | None \<Rightarrow> runs_only quiet d d'"
proof -
  have plain: "runs_only quiet d (snd (run_plain e oper args d))" if "not_up args" for oper args
    using that by (auto simp: runs_only_def run_plain_trace) (auto simp: run_plain_def run_def split: prod.splits)
  show ?thesis
  proof (cases op)
    case (OpDeploy app auths)
    with assms obtain res where "Deploy e app auths d = Some (res, d')" by auto
    with OpDeploy show ?thesis using Deploy_op_up by (simp add: checks_before_def)
  next
    case (OpRollback app v c auths)
    with assms obtain res where "RollbackDeploy e app v c auths d = Some (res, d')" by auto
    with OpRollback show ?thesis using RollbackDeploy_op_up by (simp add: checks_before_def)
  next
    case (OpRestart app)
    with assms show ?thesis using Restart_op_up by (auto simp: checks_before_def)
  next
    case (OpPull app auths)
    with assms show ?thesis using Pull_op_up by (auto simp: checks_before_def)
  next
    case (OpScale app scales)
    with assms show ?thesis
      by (cases "checkComposeFile e app d") (auto simp: Scale_def checks_before_def checkComposeFile_None intro: op_up_quiet op_up_plain)
  next
    case (OpCancel app)
    obtain found t where tr: "tracker_Cancel (a_name app) (dp_tracker d) = (found, t)" by fastforce
    let ?d0 = "d\<lparr>dp_tracker := t\<rparr>"
    have eq: "d' = snd (deployer_Cancel e app d)" using OpCancel assms by simp
    have "op_up e 0 app d d'"
    proof (cases "checkComposeFile e app ?d0")
      case None
      then have "accepted e (dp_trace ?d0) app" by (simp add: checkComposeFile_None)
      from op_up_plain [OF disjI1 [OF conjI [OF this runs_fileI(1)]]] op_up_quiet [of d d e 0 app] None show ?thesis
        unfolding eq deployer_Cancel_def Let_def tr prod.case by (cases found) simp_all
    next
      case (Some err)
      with op_up_quiet [of d d e 0 app] op_up_quiet [of ?d0 ?d0 e 0 app] show ?thesis
        unfolding eq deployer_Cancel_def Let_def tr prod.case by (cases found) simp_all
    qed
    with OpCancel show ?thesis by (simp add: checks_before_def)
  next
    case (OpTeardown slug)
    with assms show ?thesis by (auto simp: Teardown_def command_simps intro!: plain)
  next
    case (OpStop slug)
    with assms show ?thesis by (auto simp: deployer_Stop_def command_simps intro!: plain)
  next
    case (OpStart slug)
    with assms show ?thesis by (auto simp: deployer_Start_def command_simps intro!: plain)
  next
    case (OpStatus slug)
    then have "run e [''compose'', ''-p'', project_of slug, ''ps'', ''--format'', ''json''] d =
       (fst (run e [''compose'', ''-p'', project_of slug, ''ps'', ''--format'', ''json''] d), d')"
      using assms by (auto simp: Status_def Let_def split: prod.splits)
    then have "runs_only quiet d d'" by (rule runs_only_run [rotated]) (simp add: command_simps)
    with OpStatus show ?thesis by simp
  qed
qed

text \<open>
  Docker compose is asked to bring an app's containers up only with the app's own compose file, and only after that file, as
  it was on disk at that moment, was parsed and passed every security rule; in \<open>Pull\<close> the check is the
  one made before the images were pulled. Restart, stop, start, teardown and status never bring anything up.
\<close>

theorem up_was_checked:
  assumes "op_run e op d = Some d'" "length (dp_trace d) \<le> k" "k < length (dp_trace d')"
    and "dp_trace d' ! k = Ran args" "subcommand args = Some ''up''"
  shows "\<exists>app. op_app op = Some app \<and> runs_file app args \<and> accepted e (take (k - checks_before op) (dp_trace d')) app"
proof (cases "op_app op")
  case None
  with op_run_op_up [OF assms(1)] obtain new where new: "dp_trace d' = dp_trace d @ new" "\<forall>ev \<in> set new. quiet ev"
    by (auto simp: runs_only_def)
  then have "new ! (k - length (dp_trace d)) = Ran args" "k - length (dp_trace d) < length new"
    using assms(2-4) by (auto simp: nth_append)
  then have "Ran args \<in> set new" by (metis nth_mem)
  with new(2) assms(5) show ?thesis by (auto simp: not_up_def dest: bspec)
next
  case (Some app)
  with op_run_op_up [OF assms(1)] obtain new where new: "dp_trace d' = dp_trace d @ new"
      "\<And>j a. j < length new \<Longrightarrow> new ! j = Ran a \<Longrightarrow> not_up a \<or> j = checks_before op \<and> accepted e (dp_trace d) app \<and> runs_file app a"
    by (auto simp: op_up_def)
  let ?j = "k - length (dp_trace d)"
  have "new ! ?j = Ran args" "?j < length new" using assms(2-4) new(1) by (auto simp: nth_append)
  with new(2) assms(5) have "?j = checks_before op" "accepted e (dp_trace d) app" "runs_file app args" by (auto simp: not_up_def)
  then have "take (k - checks_before op) (dp_trace d') = dp_trace d" using assms(2) new(1) by simp
  with Some \<open>accepted e (dp_trace d) app\<close> \<open>runs_file app args\<close> show ?thesis by simp
qed

subsection \<open>The wait ends\<close>

text \<open>
  Time does not run backwards, and a wait between two polls takes its two seconds (\<open>time.After\<close>).
\<close>

definition clock_runs :: "deploy_env \<Rightarrow> bool" where
  "clock_runs e \<longleftrightarrow>
     (\<forall>tr ev. dv_clock e tr \<le> dv_clock e (tr @ [ev])) \<and> (\<forall>tr. dv_clock e tr + stabilizeTick \<le> dv_clock e (tr @ [Waited]))"

lemma clock_mono: "clock_runs e \<Longrightarrow> dv_clock e tr \<le> dv_clock e (tr @ new)"
proof (induction new rule: rev_induct)
  case (snoc ev new)
  then have "dv_clock e (tr @ new) \<le> dv_clock e ((tr @ new) @ [ev])" unfolding clock_runs_def by blast
  with snoc show ?case by simp
qed simp

definition waits :: "Deployer \<Rightarrow> Deployer \<Rightarrow> nat" where
  "waits d d' = count_list (dp_trace d') Waited - count_list (dp_trace d) Waited"

lemma count_asking: "runs_only asking d d' \<Longrightarrow> count_list (dp_trace d') Waited = count_list (dp_trace d) Waited"
proof -
  assume "runs_only asking d d'"
  then obtain new where "dp_trace d' = dp_trace d @ new" "\<forall>ev \<in> set new. asking ev" by (auto simp: runs_only_def)
  moreover from this(2) have "count_list new Waited = 0" by (induction new) (auto simp: asking_def)
  ultimately show ?thesis by simp
qed

lemma stabilize_loop_ends:
  assumes "clock_runs e" "deadline - dv_clock e (dp_trace d) < int n * stabilizeTick"
  shows "\<exists>r. stabilize_loop e slug project deadline initial lastSummary d = Some r \<and>
    count_list (dp_trace (snd r)) Waited \<le> count_list (dp_trace d) Waited + n"
  using assms(2)
proof (induction n arbitrary: initial lastSummary d)
  case (0 initial lastSummary d)
  obtain services ini summary d1 where p: "poll e slug project initial lastSummary d = ((services, ini, summary), d1)"
    by (metis prod_cases3 surj_pair)
  note a = runs_only_poll [OF p]
  then obtain new where "dp_trace d1 = dp_trace d @ new" by (auto simp: runs_only_def)
  then have "deadline < dv_clock e (dp_trace d1)" using 0 clock_mono [OF assms(1), of "dp_trace d" new] by simp
  then have "\<exists>st. stabilize_loop e slug project deadline initial lastSummary d = Some ((st, services), d1)"
    by (subst stabilize_loop.simps) (simp add: p)
  with count_asking [OF a] show ?case by auto
next
  case (Suc n initial lastSummary d)
  obtain services ini summary d1 where p: "poll e slug project initial lastSummary d = ((services, ini, summary), d1)"
    by (metis prod_cases3 surj_pair)
  note a = runs_only_poll [OF p]
  then obtain new where tr: "dp_trace d1 = dp_trace d @ new" by (auto simp: runs_only_def)
  let ?d2 = "d1\<lparr>dp_trace := dp_trace d1 @ [Waited]\<rparr>"
  show ?case
  proof (cases "list_ex troubled services \<and> \<not> (deadline < dv_clock e (dp_trace d1) \<or> dv_done e (dp_trace d1))")
    case True
    then have eq: "stabilize_loop e slug project deadline initial lastSummary d =
        stabilize_loop e slug project deadline (Some ini) summary ?d2"
      by (subst stabilize_loop.simps) (simp add: p)
    have "dv_clock e (dp_trace d) \<le> dv_clock e (dp_trace d1)" using tr clock_mono [OF assms(1)] by simp
    moreover have "dv_clock e (dp_trace d1) + stabilizeTick \<le> dv_clock e (dp_trace ?d2)" using assms(1) by (simp add: clock_runs_def)
    ultimately have "deadline - dv_clock e (dp_trace ?d2) < int n * stabilizeTick"
      using Suc.prems by (simp add: algebra_simps)
    from Suc.IH [OF this, of "Some ini" summary] count_asking [OF a] show ?thesis unfolding eq by auto
  next
    case False
    then have "\<exists>st. stabilize_loop e slug project deadline initial lastSummary d = Some ((st, services), d1)"
      by (subst stabilize_loop.simps) (auto simp: p)
    with count_asking [OF a] show ?thesis by auto
  qed
qed

lemma stabilize_ends:
  assumes "clock_runs e" "0 \<le> dv_timeout e"
  shows "\<exists>r. stabilize e slug project d = Some r \<and> waits d (snd r) \<le> nat (dv_timeout e div stabilizeTick) + 1"
proof -
  let ?d = "log_line slug ''Waiting for containers to stabilize...'' ''stdout'' d" and ?n = "nat (dv_timeout e div stabilizeTick) + 1"
  have "int ?n * stabilizeTick > dv_timeout e"
  proof -
    have t: "0 < stabilizeTick" by (simp add: stabilizeTick_def time_second_def)
    then have "0 \<le> dv_timeout e div stabilizeTick" using assms(2) by (simp add: pos_imp_zdiv_nonneg_iff)
    then have "int ?n * stabilizeTick = dv_timeout e div stabilizeTick * stabilizeTick + stabilizeTick" by (simp add: distrib_right)
    moreover have "dv_timeout e div stabilizeTick * stabilizeTick + dv_timeout e mod stabilizeTick = dv_timeout e" by simp
    moreover have "dv_timeout e mod stabilizeTick < stabilizeTick" using t by simp
    ultimately show ?thesis by linarith
  qed
  then have "dv_clock e (dp_trace d) + dv_timeout e - dv_clock e (dp_trace ?d) < int ?n * stabilizeTick"
    by (simp add: log_line_def)
  from stabilize_loop_ends [OF assms(1) this] show ?thesis
    by (fastforce simp: stabilize_def waits_def log_line_def)
qed


subsection \<open>A started deploy ends\<close>

lemma done_log_idle: "slug \<notin> set (map fst (tr_logs (dp_tracker (done_log slug a s sv d))))"
  "slug \<notin> set (tr_flights (dp_tracker (done_log slug a s sv d)))"
  by (auto simp: done_log_def DoneWithLogStatus_def)

definition idle :: "string \<Rightarrow> Deployer \<Rightarrow> bool" where
  "idle slug d \<longleftrightarrow> fst (TrackWithLog slug (dp_tracker d)) \<and> \<not> IsDeploying slug (dp_tracker d)"

lemma idle_done_log: "idle slug (done_log slug a s sv d)"
  using done_log_idle [of slug a s sv d] by (auto simp: idle_def TrackWithLog_def IsDeploying_def map_of_eq_None_iff)

lemma idle_record_audit [simp]: "idle slug (record_audit r d) = idle slug d"
  by (simp add: idle_def record_audit_def)

lemma finish_result_returns:
  assumes "clock_runs e" "0 \<le> dv_timeout e"
  shows "\<exists>res d'. finish_result e slug project action ok cerr output d = Some (res, d') \<and> idle slug d'"
proof -
  obtain st sv d1 where "stabilize e slug project d = Some ((st, sv), d1)" using stabilize_ends [OF assms, of slug project d] by auto
  then show ?thesis by (auto simp: finish_result_def finishDeploy_def idle_done_log)
qed

lemma refuse_idle: "idle slug (snd (refuse e slug action err d))"
  by (simp add: refuse_def Let_def idle_done_log)

lemma compose_up_returns:
  assumes "clock_runs e" "0 \<le> dv_timeout e"
  shows "\<exists>res d'. compose_up e app auths d = Some (res, d') \<and> idle (a_name app) d'"
proof (cases "checkComposeFile e app d")
  case (Some err)
  then show ?thesis using refuse_idle [of "a_name app" e "''deploy''" err d]
    by (cases "refuse e (a_name app) ''deploy'' err d") (simp add: compose_up_def Let_def)
next
  case chk: None
  let ?pre = "if auths = [] then Some [] else map_option (\<lambda>dir. [''--config'', dir]) (dv_tmpDir e (dp_trace d) auths)"
  show ?thesis
  proof (cases ?pre)
    case None
    with chk show ?thesis by (auto simp: compose_up_def Let_def idle_done_log split: if_splits)
  next
    case (Some pre)
    obtain out err ok d1 where r: "runCmd e (a_name app) (pre @ compose_args (a_compose_path app) (project_of (a_name app)) [''up'', ''-d'', ''--remove-orphans'']) d = ((out, err, ok), d1)"
      by (metis prod_cases3 surj_pair)
    show ?thesis
      unfolding compose_up_def Let_def chk Some option.case r prod.case by (rule finish_result_returns [OF assms])
  qed
qed

lemma finish_result_audit:
  assumes "finish_result e slug project action ok cerr output d = Some (res, d')"
  shows "dp_audit d' = dp_audit d \<and> \<not> dr_Skipped res"
proof -
  obtain d1 a s sv where "runs_only quiet d d1" "d' = done_log slug a s sv d1" using finish_result_ends [OF assms] by blast
  moreover have "\<not> dr_Skipped res" using assms by (auto simp: finish_result_def bind_eq_Some_conv)
  ultimately show ?thesis by (simp add: runs_only_def done_log_def)
qed

lemma compose_up_audit:
  assumes "compose_up e app auths d = Some (res, d')"
  shows "dp_audit d' = dp_audit d \<and> \<not> dr_Skipped res"
  using assms
proof (cases rule: compose_up_cases)
  case (refused err)
  then show ?thesis by (simp add: refuse_def Let_def failed_result_def done_log_def log_lines_def)
next
  case no_config
  then show ?thesis by (simp add: done_log_def)
next
  case (ran args out err ok cerr t1 d1)
  have "runs_only (\<lambda>_. True) d d1" by (rule runs_only_runCmd [OF _ ran(3)]) simp
  with finish_result_audit [OF ran(4)] show ?thesis by (simp add: runs_only_def)
qed

text \<open>
  A deploy of an app that has none running always returns and leaves the app ready for the
  next one, whether it was refused, failed, was cancelled or came up; a deploy of an app that has one
  running changes nothing; and every deploy that ran leaves exactly one audit event, with its outcome.
\<close>

theorem Deploy_returns:
  assumes "clock_runs e" "0 \<le> dv_timeout e"
  shows "\<exists>res d'. Deploy e app auths d = Some (res, d') \<and>
    (if fst (TrackWithLog (a_name app) (dp_tracker d))
     then idle (a_name app) d' \<and> \<not> dr_Skipped res \<and>
       dp_audit d' = dp_audit d @ [\<lparr>dae_AppSlug = a_name app,
         dae_Action = (if dr_Err res = None then ''deploy_succeeded'' else ''deploy_failed''), dae_Version = 0,
         dae_ComposeVersionID = None, dae_Error = dr_Err res\<rparr>]
     else dr_Skipped res \<and> d' = d)"
proof -
  obtain fresh t where tr: "TrackWithLog (a_name app) (dp_tracker d) = (fresh, t)" by fastforce
  show ?thesis
  proof (cases fresh)
    case False
    with tr show ?thesis by (simp add: Deploy_def skipped_result_def)
  next
    case True
    obtain res d1 where c: "compose_up e app auths (d\<lparr>dp_tracker := t\<rparr>) = Some (res, d1)" "idle (a_name app) d1"
      using compose_up_returns [OF assms] by blast
    have a: "dp_audit d1 = dp_audit d \<and> \<not> dr_Skipped res" by (rule compose_up_audit [OF c(1), simplified])
    from c True tr a show ?thesis by (simp add: Deploy_def record_audit_def idle_def)
  qed
qed

subsection \<open>Replicas of a service\<close>

definition sick :: "ServiceState \<Rightarrow> bool" where
  "sick s \<longleftrightarrow> ss_State s \<in> {''exited'', ''dead'', ''restarting''} \<or> ss_State s = ''running'' \<and> ss_Health s = ''unhealthy''"

lemma sick_rank: "sick s \<longleftrightarrow> 3 \<le> state_rank s"
  by (auto simp: sick_def state_rank_def Let_def)

lemma sick_troubled: "sick s \<Longrightarrow> troubled (restart_delta ini s)"
  by (auto simp: sick_def troubled_def restart_delta_def)

lemma rank_eq: "ss_State s = ss_State t \<Longrightarrow> ss_Health s = ss_Health t \<Longrightarrow> state_rank s = state_rank t"
  by (simp add: state_rank_def)

lemma mergeWorst_rank: "state_rank (mergeWorst a b) = max (state_rank a) (state_rank b)"
proof -
  let ?a = "if state_rank b > state_rank a then a\<lparr>ss_State := ss_State b, ss_Health := ss_Health b, ss_ExitCode := ss_ExitCode b\<rparr> else a"
  have "state_rank (mergeWorst a b) = state_rank ?a"
    unfolding mergeWorst_def Let_def by (rule rank_eq) simp_all
  also have "\<dots> = max (state_rank a) (state_rank b)"
    using rank_eq [of "a\<lparr>ss_State := ss_State b, ss_Health := ss_Health b, ss_ExitCode := ss_ExitCode b\<rparr>" b]
    by (cases "state_rank b > state_rank a") (simp_all add: max_def)
  finally show ?thesis .
qed

lemma mergeWorst_service [simp]: "ss_Service (mergeWorst a b) = ss_Service a"
  by (simp add: mergeWorst_def Let_def)

text \<open>Every entry is filed under its own service; a service seen sick stays sick.\<close>

definition filed :: "(string \<times> ServiceState) list \<Rightarrow> bool" where
  "filed m \<longleftrightarrow> (\<forall>k s. map_of m k = Some s \<longrightarrow> ss_Service s = k)"

definition seen_sick :: "string \<Rightarrow> (string \<times> ServiceState) list \<Rightarrow> bool" where
  "seen_sick k m \<longleftrightarrow> (\<exists>s. map_of m k = Some s \<and> sick s)"

lemma add_state_filed: "filed m \<Longrightarrow> filed (add_state st m)"
  by (auto simp: filed_def add_state_def split: option.splits)

lemma add_state_sick: "seen_sick k m \<Longrightarrow> seen_sick k (add_state st m)"
  by (auto simp: seen_sick_def add_state_def sick_rank mergeWorst_rank split: option.splits)

lemma add_sick: "sick st \<Longrightarrow> seen_sick (ss_Service st) (add_state st m)"
  by (auto simp: seen_sick_def add_state_def sick_rank mergeWorst_rank split: option.splits)

lemma inspect_all_keeps: "inspect_all e es m d = (m', d') \<Longrightarrow> (filed m \<longrightarrow> filed m') \<and> (seen_sick k m \<longrightarrow> seen_sick k m')"
proof (induction e es m d rule: inspect_all.induct)
  case (2 e i service es m d)
  obtain st d1 where i: "inspectState e i d = (st, d1)" by (cases "inspectState e i d")
  show ?case
  proof (cases st)
    case None
    with "2.IH"(1) [OF i [symmetric]] "2.prems" i show ?thesis by simp
  next
    case (Some s)
    with "2.IH"(2) [OF i [symmetric]] "2.prems" i show ?thesis
      using add_state_filed [of m "s\<lparr>ss_Service := service\<rparr>"] add_state_sick [of k m "s\<lparr>ss_Service := service\<rparr>"] by simp
  qed
qed simp

lemma inspect_all_append: "inspect_all e (es @ es') m d = (let (m1, d1) = inspect_all e es m d in inspect_all e es' m1 d1)"
  by (induction e es m d rule: inspect_all.induct) (auto split: prod.splits option.splits)

text \<open>
  One sick replica is enough: when any container of a service is exited, dead, restarting or
  running but unhealthy, the service's merged state is in trouble, in whatever order and number the
  replicas are inspected, and whatever the restart counts were before; so the poll is not a success.
\<close>

theorem sick_replica_seen:
  assumes "inspect_all e pre [] d = (m1, d1)" "inspectState e i d1 = (Some st, d2)" "sick st"
    and "inspect_all e (pre @ (i, service) # post) [] d = (m, d')"
  shows "\<exists>s \<in> snd ` set m. ss_Service s = service \<and> troubled (restart_delta ini s)"
proof -
  let ?st = "st\<lparr>ss_Service := service\<rparr>"
  have "sick ?st" using assms(3) by (simp add: sick_def)
  then have "seen_sick service (add_state ?st m1)" using add_sick [of ?st m1] by simp
  moreover have "inspect_all e post (add_state ?st m1) d2 = (m, d')"
    using assms(4) by (simp add: inspect_all_append assms(1,2))
  moreover have "filed m1" using inspect_all_keeps [OF assms(1)] by (simp add: filed_def)
  ultimately have "seen_sick service m \<and> filed m" using inspect_all_keeps add_state_filed by blast
  then obtain s where "map_of m service = Some s" "sick s" "ss_Service s = service" by (auto simp: seen_sick_def filed_def)
  moreover from this(1) have "s \<in> snd ` set m" by (force dest: map_of_SomeD)
  ultimately show ?thesis using sick_troubled by blast
qed

text \<open>
  Milder trouble can be hidden: a replica still starting behind one that is only created, and a restart
  of a replica behind another's older, higher restart count.
\<close>

lemma starting_replica_hidden:
  "let created = \<lparr>ss_Service = ''web'', ss_State = ''created'', ss_Health = [], ss_RestartCount = 0, ss_ExitCode = 0\<rparr>;
       starting = created\<lparr>ss_State := ''running'', ss_Health := ''starting''\<rparr>
   in troubled starting \<and> \<not> troubled (mergeWorst created starting) \<and> \<not> troubled (mergeWorst starting created)"
  by code_simp

lemma bounced_replica_hidden:
  "let old = \<lparr>ss_Service = ''web'', ss_State = ''running'', ss_Health = [], ss_RestartCount = 5, ss_ExitCode = 0\<rparr>;
       before = old\<lparr>ss_RestartCount := 0\<rparr>; after = old\<lparr>ss_RestartCount := 3\<rparr>
   in \<not> troubled (restart_delta (initial_counts [mergeWorst old before]) (mergeWorst old after))"
  by code_simp

lemma no_containers_success:
  assumes "queryProjectStates e project (log_line slug ''Waiting for containers to stabilize...'' ''stdout'' d) = ((ok, []), d1)"
  shows "\<exists>d'. stabilize e slug project d = Some ((''success'', []), d')"
proof -
  obtain summary d2 ini where p: "poll e slug project None [] (log_line slug ''Waiting for containers to stabilize...'' ''stdout'' d) = (([], ini, summary), d2)"
    using assms unfolding poll_def Let_def by simp
  show ?thesis unfolding stabilize_def by (subst stabilize_loop.simps) (simp add: p)
qed

subsection \<open>Examples\<close>

definition demo_path :: string where
  "demo_path = ''/srv/apps/web/docker-compose.yml''"

definition demo_project :: Project where
  "demo_project = \<lparr>p_name = ''web'', p_services = [], p_disabled = [], p_jobs = [], p_volumes = [], p_networks = [], p_secrets = [], p_configs = []\<rparr>"

definition demo_parse :: parse_env where
  "demo_parse = \<lparr>pe_refs = \<lparr>re_fs = plain_fs, re_regular = (\<lambda>_. True), re_read = (\<lambda>_. None), re_decode = (\<lambda>_. ([], True))\<rparr>,
     pe_encode = (\<lambda>_. None), pe_dotenv = (\<lambda>_ _. None), pe_osEnv = [], pe_load = (\<lambda>_ _ _ _ _. Some (demo_project, [])), pe_abs = Some\<rparr>"

text \<open>Every command succeeds without output, but for the inspection of a container, which finds it exited.\<close>

definition demo_env :: "(trace \<Rightarrow> string \<Rightarrow> file_read) \<Rightarrow> deploy_env" where
  "demo_env files = \<lparr>dv_parse = (\<lambda>_. demo_parse), dv_files = files, dv_fs = (\<lambda>_. plain_fs), dv_protected = no_protected,
     dv_run = (\<lambda>_ _. ([], [], True)), dv_arrival = None, dv_tmpDir = (\<lambda>_ _. Some ''/tmp/c''),
     dv_clock = (\<lambda>tr. int (length tr) * stabilizeTick), dv_done = (\<lambda>_. False), dv_timeout = 30 * time_second,
     dv_state = (\<lambda>_. Some (''exited'', 1, None)), dv_status = (\<lambda>_. None), dv_status_item = (\<lambda>_. None), dv_error_lines = (\<lambda>_. [''refused''])\<rparr>"

definition demo_files :: "trace \<Rightarrow> string \<Rightarrow> file_read" where
  "demo_files tr p = (if p = demo_path then FileData ''services: {}'' else FileNotExist)"

text \<open>The file is replaced by a link while the first command runs.\<close>

definition swapped_files :: "trace \<Rightarrow> string \<Rightarrow> file_read" where
  "swapped_files tr p = (if p = demo_path then (if tr = [] then FileData ''services: {}'' else FileNotRegular) else FileNotExist)"

definition demo_app :: AppConfig where
  "demo_app = app_config_of ''web'' demo_path demo_project []"

definition idle_deployer :: Deployer where
  "idle_deployer = \<lparr>dp_tracker = NewTracker, dp_trace = [], dp_audit = []\<rparr>"

lemma demo_app_simps: "a_name demo_app = ''web''" "a_compose_path demo_app = demo_path"
  by (simp_all add: demo_app_def app_config_of_def)

lemma demo_parses:
  assumes "read demo_path = FileData ''services: {}''" "read (join_path [dir_path demo_path, ''.env'']) = FileNotExist"
  shows "ParseFile demo_parse read demo_path ''web'' = Inr demo_app"
proof -
  have "checkRawFileRefs (pe_refs demo_parse) ''services: {}'' (dir_path demo_path) = RawOk" by code_simp
  with assms show ?thesis by (simp add: ParseFile_def ReadDotEnv_def ParseContent_def demo_parse_def interpolationEnv_def demo_app_def)
qed

lemma demo_safe: "ValidateComposeSecurity plain_fs no_protected (Some demo_app) = []"
  by (simp add: ValidateComposeSecurity_def demo_app_def app_config_of_def demo_project_def project_violations_def
      values_by_key_def sortedKeys_def bindLayoutViolations_def layout_binds_def containerMounts_def Let_def all_services_def)

lemma demo_accepted:
  "accepted (demo_env demo_files) [] demo_app" "accepted (demo_env swapped_files) [] demo_app"
  "\<not> accepted (demo_env swapped_files) [a] demo_app"
proof -
  have e: "join_path [dir_path demo_path, ''.env''] \<noteq> demo_path" by code_simp
  show "accepted (demo_env demo_files) [] demo_app"
    using demo_parses [of "demo_files []"] demo_safe e by (simp add: accepted_def demo_env_def demo_app_simps demo_files_def)
  show "accepted (demo_env swapped_files) [] demo_app"
    using demo_parses [of "swapped_files []"] demo_safe e by (simp add: accepted_def demo_env_def demo_app_simps swapped_files_def)
  show "\<not> accepted (demo_env swapped_files) [a] demo_app"
    by (simp add: accepted_def demo_env_def demo_app_simps swapped_files_def ParseFile_def demo_parse_def)
qed

lemma demo_clock: "clock_runs (demo_env files)" "0 \<le> dv_timeout (demo_env files)"
  by (auto simp: clock_runs_def demo_env_def stabilizeTick_def time_second_def)

theorem up_was_checked_witness:
  "\<exists>app. op_app (OpScale demo_app [(''web'', 2)]) = Some app \<and> accepted (demo_env demo_files) [] app"
proof -
  let ?e = "demo_env demo_files" and ?op = "OpScale demo_app [(''web'', 2)]"
  let ?args = "compose_args demo_path (project_of ''web'') [''up'', ''-d'', ''--no-recreate'', ''--remove-orphans''] @ [''--scale'', ''web=2'']"
  have chk: "checkComposeFile ?e demo_app idle_deployer = None"
    unfolding checkComposeFile_None using demo_accepted(1) by (simp add: idle_deployer_def)
  have i: "show_int 2 = ''2''" by code_simp
  let ?d = "snd (run_plain ?e ''compose scale'' ?args idle_deployer)"
  have "Scale ?e demo_app [(''web'', 2)] idle_deployer = run_plain ?e ''compose scale'' ?args idle_deployer"
    unfolding Scale_def chk option.case demo_app_simps by (simp add: i)
  then have d': "op_run ?e ?op idle_deployer = Some ?d" "dp_trace ?d = [Ran ?args]"
    by (simp_all add: run_plain_trace) (simp add: idle_deployer_def)
  have "subcommand ?args = Some ''up''" by (simp add: command_simps)
  with up_was_checked [OF d'(1), of 0 ?args] d'(2) show ?thesis by (simp add: checks_before_def idle_deployer_def)
qed


theorem Deploy_returns_witness:
  "\<exists>res d'. Deploy (demo_env demo_files) demo_app [] idle_deployer = Some (res, d') \<and> idle ''web'' d' \<and> length (dp_audit d') = 1"
proof -
  have "fst (TrackWithLog (a_name demo_app) (dp_tracker idle_deployer))"
    by (simp add: TrackWithLog_def idle_deployer_def NewTracker_def)
  with Deploy_returns [OF demo_clock, of demo_files demo_app "[]" idle_deployer] show ?thesis
    by (auto simp: demo_app_simps idle_deployer_def)
qed

theorem sick_replica_seen_witness:
  "\<exists>s \<in> snd ` set (fst (inspect_all (demo_env demo_files) [(''c1'', ''web'')] [] idle_deployer)). ss_Service s = ''web'' \<and> troubled (restart_delta [] s)"
proof -
  let ?e = "demo_env demo_files"
  obtain d2 where i: "inspectState ?e ''c1'' idle_deployer =
      (Some \<lparr>ss_Service = [], ss_State = ''exited'', ss_Health = [], ss_RestartCount = scan_int (trim_space []), ss_ExitCode = 1\<rparr>, d2)"
    by (simp add: inspectState_def run_def demo_env_def Let_def)
  obtain m d' where a: "inspect_all ?e ([] @ (''c1'', ''web'') # []) [] idle_deployer = (m, d')" by fastforce
  show ?thesis
    using sick_replica_seen [OF _ i _ a, of "[]" "[]"] a by (simp add: sick_def)
qed

text \<open>
  \<open>Pull\<close> brings the containers up without looking at the file again: here it was swapped during the pull.
\<close>

lemma pull_up_unchecked:
  "\<exists>res d'. Pull (demo_env swapped_files) demo_app [] idle_deployer = Some (res, d') \<and>
     (\<exists>args. dp_trace d' ! 1 = Ran args \<and> subcommand args = Some ''up'') \<and>
     \<not> accepted (demo_env swapped_files) (take 1 (dp_trace d')) demo_app"
proof -
  let ?e = "demo_env swapped_files" and ?d0 = "idle_deployer\<lparr>dp_tracker := snd (TrackWithLog ''web'' NewTracker)\<rparr>"
  let ?pull = "compose_args demo_path (project_of ''web'') [''pull'']"
  let ?up = "compose_args demo_path (project_of ''web'') [''up'', ''-d'', ''--remove-orphans'']"
  have chk: "checkComposeFile ?e demo_app ?d0 = None"
    unfolding checkComposeFile_None using demo_accepted(2) by (simp add: idle_deployer_def)
  have tr: "TrackWithLog ''web'' (dp_tracker idle_deployer) = (True, snd (TrackWithLog ''web'' NewTracker))"
    by (simp add: TrackWithLog_def idle_deployer_def NewTracker_def demo_app_simps)
  obtain d1 where r1: "runCmd ?e ''web'' ?pull ?d0 = (([], [], True), d1)"
    by (simp add: runCmd_def run_def demo_env_def Let_def)
  obtain d2 where r2: "runCmd ?e ''web'' ?up d1 = (([], [], True), d2)"
    by (simp add: runCmd_def run_def demo_env_def Let_def)
  have d2: "dp_trace d2 = [Ran ?pull, Ran ?up]"
    using runCmd_trace [OF r1] runCmd_trace [OF r2] by (simp add: idle_deployer_def)
  let ?out = "trim_space (redactAuths (command_output [] []) [] @ [newline] @ command_output [] [])"
  obtain res d' where f: "finish_result ?e ''web'' (project_of ''web'') ''pull'' True (composeError ''compose up after pull'' [] []) ?out d2 = Some (res, d')"
    using finish_result_returns [OF demo_clock] by blast
  have "Pull ?e demo_app [] idle_deployer = Some (res, d')"
    unfolding Pull_def Let_def demo_app_simps tr prod.case
    using r1 r2 f chk by simp
  moreover obtain d3 a s sv new where "d' = done_log ''web'' a s sv d3" "dp_trace d3 = dp_trace d2 @ new"
    using finish_result_ends [OF f] by (auto simp: runs_only_def)
  ultimately show ?thesis
    using d2 demo_accepted(3) [of "Ran ?pull"] by (intro exI conjI) (auto simp: done_log_def command_simps)
qed

end
