(* ===== verification/AppStore.thy ===== *)
theory AppStore
  imports UserStore
begin

text \<open>
  internal/store/apps.go and versions.go: the app table with its labels, its compose versions and
  deploy events, and the rows of the other tables \<open>PurgeApp\<close> removes. Rows of those other tables are
  kept as their keys only; a backup run has its own, that of its configuration and that of the compose version it was made of,
  a reference that keeps the version from being deleted (migration 015). Each operation but \<open>CreateComposeVersion\<close> is one
  transaction.
\<close>

record App =
  app_ID :: int
  app_Name :: string
  app_Slug :: string
  app_ComposePath :: string
  app_Status :: string
  app_Domain :: string
  app_ComposeHash :: string
  app_CreatedAt :: instant
  app_UpdatedAt :: instant
  app_ArchivedAt :: "instant option"

record ComposeVersion =
  cv_ID :: int
  cv_AppID :: int
  cv_Version :: int
  cv_Content :: string
  cv_Hash :: string

record DeployEvent =
  de_ID :: int
  de_AppSlug :: string
  de_Action :: string
  de_UserID :: "int option"
  de_Detail :: string

record app_db =
  ad_apps :: "App list"
  ad_apps_seq :: int
  ad_labels :: "(int \<times> string \<times> string) list"
  ad_versions :: "ComposeVersion list"
  ad_events :: "DeployEvent list"
  ad_access :: "(int \<times> int) list"
  ad_audit :: "(int \<times> int option) list"
  ad_backup_configs :: "(int \<times> int) list"
  ad_backup_runs :: "(int \<times> int \<times> int option) list"
  ad_alert_rules :: "(int \<times> int option) list"
  ad_alert_history :: "(int \<times> string \<times> int option) list"

definition app_by_slug :: "app_db \<Rightarrow> string \<Rightarrow> App option" where
  "app_by_slug d slug = find (\<lambda>a. app_Slug a = slug) (ad_apps d)"

definition update_apps :: "string \<Rightarrow> (App \<Rightarrow> App) \<Rightarrow> app_db \<Rightarrow> app_db" where
  "update_apps slug f d = d\<lparr>ad_apps := map (\<lambda>a. if app_Slug a = slug then f a else a) (ad_apps d)\<rparr>"

subsection \<open>Operations\<close>

text \<open>
  The row is inserted, or the row with its slug takes the new name, path, status, domain and hash; the
  labels are replaced. Id, creation time and archive mark of an existing row stay.
\<close>

definition set_app_row :: "sql_env \<Rightarrow> App \<Rightarrow> App \<Rightarrow> App" where
  "set_app_row e new old = old\<lparr>app_Name := app_Name new, app_ComposePath := app_ComposePath new, app_Status := app_Status new,
     app_Domain := app_Domain new, app_ComposeHash := app_ComposeHash new, app_UpdatedAt := sql_now e\<rparr>"

definition new_app_row :: "sql_env \<Rightarrow> int \<Rightarrow> App \<Rightarrow> App" where
  "new_app_row e i a = a\<lparr>app_ID := i, app_CreatedAt := sql_now e, app_UpdatedAt := sql_now e, app_ArchivedAt := None\<rparr>"

definition replace_labels :: "int \<Rightarrow> (string \<times> string) list \<Rightarrow> app_db \<Rightarrow> app_db" where
  "replace_labels i labels d = d\<lparr>ad_labels := filter (\<lambda>l. fst l \<noteq> i) (ad_labels d) @ map (\<lambda>(k, v). (i, k, v)) labels\<rparr>"

definition UpsertApp :: "sql_env \<Rightarrow> App \<Rightarrow> (string \<times> string) list \<Rightarrow> app_db \<Rightarrow> (store_error + int) \<times> app_db" where
  "UpsertApp e a labels d =
     (if sql_fails e ''UpsertApp'' then (Inl SqlFailed, d)
      else if \<not> app_status_ok (app_Status a) then (Inl CheckFailed, d)
      else case app_by_slug d (app_Slug a) of
             Some old \<Rightarrow> (Inr (app_ID old), replace_labels (app_ID old) labels (update_apps (app_Slug a) (set_app_row e a) d))
           | None \<Rightarrow>
               let i = ad_apps_seq d + 1
               in (Inr i, replace_labels i labels (d\<lparr>ad_apps := ad_apps d @ [new_app_row e i a], ad_apps_seq := i\<rparr>)))"

definition GetAppByID :: "sql_env \<Rightarrow> int \<Rightarrow> app_db \<Rightarrow> store_error + App" where
  "GetAppByID e i d =
     (if sql_fails e ''GetAppByID'' then Inl SqlFailed
      else case find (\<lambda>a. app_ID a = i) (ad_apps d) of None \<Rightarrow> Inl NotFound | Some a \<Rightarrow> Inr a)"

definition GetApp :: "sql_env \<Rightarrow> string \<Rightarrow> app_db \<Rightarrow> store_error + App" where
  "GetApp e slug d =
     (if sql_fails e ''GetAppBySlug'' then Inl SqlFailed
      else case app_by_slug d slug of None \<Rightarrow> Inl NotFound | Some a \<Rightarrow> Inr a)"

record ListAppsOptions =
  IncludeArchived :: bool
  OnlyArchived :: bool

definition app_name_less :: "App \<Rightarrow> App \<Rightarrow> bool" where
  "app_name_less a b \<longleftrightarrow> app_Name a < app_Name b"

definition ListAppsWithOptions :: "sql_env \<Rightarrow> ListAppsOptions \<Rightarrow> app_db \<Rightarrow> store_error + App list" where
  "ListAppsWithOptions e opts d =
     (if sql_fails e ''ListAppsWithOptions'' then Inl SqlFailed
      else Inr (sort_by app_name_less
        (if OnlyArchived opts then filter (\<lambda>a. app_ArchivedAt a \<noteq> None) (ad_apps d)
         else if IncludeArchived opts then ad_apps d
         else filter (\<lambda>a. app_ArchivedAt a = None) (ad_apps d))))"

definition ListApps :: "sql_env \<Rightarrow> app_db \<Rightarrow> store_error + App list" where
  "ListApps e = ListAppsWithOptions e \<lparr>IncludeArchived = False, OnlyArchived = False\<rparr>"

definition ListArchivedApps :: "sql_env \<Rightarrow> app_db \<Rightarrow> store_error + App list" where
  "ListArchivedApps e = ListAppsWithOptions e \<lparr>IncludeArchived = False, OnlyArchived = True\<rparr>"

definition MarkAppArchived :: "sql_env \<Rightarrow> string \<Rightarrow> instant \<Rightarrow> app_db \<Rightarrow> store_error option \<times> app_db" where
  "MarkAppArchived e slug at d =
     (if sql_fails e ''MarkAppArchived'' then (Some SqlFailed, d)
      else (None, update_apps slug (\<lambda>a. a\<lparr>app_ArchivedAt := Some at\<rparr>) d))"

definition UpdateAppDisplayName :: "sql_env \<Rightarrow> string \<Rightarrow> string \<Rightarrow> app_db \<Rightarrow> store_error option \<times> app_db" where
  "UpdateAppDisplayName e slug name d =
     (if sql_fails e ''UpdateAppDisplayName'' then (Some SqlFailed, d)
      else (None, update_apps slug (\<lambda>a. if app_Name a \<noteq> name then a\<lparr>app_Name := name, app_UpdatedAt := sql_now e\<rparr> else a) d))"

definition UpdateAppStatus :: "sql_env \<Rightarrow> string \<Rightarrow> string \<Rightarrow> app_db \<Rightarrow> store_error option \<times> app_db" where
  "UpdateAppStatus e slug status d =
     (if sql_fails e ''UpdateAppStatus'' then (Some SqlFailed, d)
      else if app_by_slug d slug = None then (Some NotFound, d)
      else if \<not> app_status_ok status then (Some CheckFailed, d)
      else (None, update_apps slug (\<lambda>a. a\<lparr>app_Status := status, app_UpdatedAt := sql_now e\<rparr>) d))"

definition GetAppLabels :: "sql_env \<Rightarrow> string \<Rightarrow> app_db \<Rightarrow> store_error + (string \<times> string) list" where
  "GetAppLabels e slug d =
     (if sql_fails e ''GetAppLabels'' then Inl SqlFailed
      else Inr (case app_by_slug d slug of None \<Rightarrow> []
         | Some a \<Rightarrow> map snd (filter (\<lambda>l. fst l = app_ID a) (ad_labels d))))"

text \<open>Everything of an app but its audit rows, which lose their reference to it.\<close>

definition purge_rows :: "string \<Rightarrow> int \<Rightarrow> app_db \<Rightarrow> app_db" where
  "purge_rows slug i d =
     (let cfgs = map fst (filter (\<lambda>c. snd c = i) (ad_backup_configs d));
          rules = map fst (filter (\<lambda>r. snd r = Some i) (ad_alert_rules d))
      in d\<lparr>ad_audit := map (\<lambda>(n, a). (n, if a = Some i then None else a)) (ad_audit d),
           ad_events := filter (\<lambda>v. de_AppSlug v \<noteq> slug) (ad_events d),
           ad_backup_runs := filter (\<lambda>r. fst (snd r) \<notin> set cfgs) (ad_backup_runs d),
           ad_versions := filter (\<lambda>v. cv_AppID v \<noteq> i) (ad_versions d),
           ad_alert_history := filter (\<lambda>(_, s, r). s \<noteq> slug \<and> (case r of Some x \<Rightarrow> x \<notin> set rules | None \<Rightarrow> True)) (ad_alert_history d),
           ad_backup_configs := filter (\<lambda>c. snd c \<noteq> i) (ad_backup_configs d),
           ad_alert_rules := filter (\<lambda>r. snd r \<noteq> Some i) (ad_alert_rules d),
           ad_labels := filter (\<lambda>l. fst l \<noteq> i) (ad_labels d),
           ad_access := filter (\<lambda>g. snd g \<noteq> i) (ad_access d),
           ad_apps := filter (\<lambda>a. app_Slug a \<noteq> slug) (ad_apps d)\<rparr>)"

text \<open>The versions that backup runs refer to: deleting one of them is refused, with all the statement deletes.\<close>

definition version_held :: "(int \<times> int \<times> int option) list \<Rightarrow> int \<Rightarrow> bool" where
  "version_held runs v = list_ex (\<lambda>r. snd (snd r) = Some v) runs"

definition purge_refused :: "int \<Rightarrow> app_db \<Rightarrow> bool" where
  "purge_refused i d \<longleftrightarrow>
     (let cfgs = map fst (filter (\<lambda>c. snd c = i) (ad_backup_configs d));
          others = filter (\<lambda>r. fst (snd r) \<notin> set cfgs) (ad_backup_runs d)
      in list_ex (\<lambda>v. cv_AppID v = i \<and> version_held others (cv_ID v)) (ad_versions d))"

definition PurgeApp :: "sql_env \<Rightarrow> string \<Rightarrow> app_db \<Rightarrow> store_error option \<times> app_db" where
  "PurgeApp e slug d =
     (if sql_fails e ''PurgeApp'' then (Some SqlFailed, d)
      else case app_by_slug d slug of None \<Rightarrow> (Some NotFound, d)
           | Some a \<Rightarrow> if purge_refused (app_ID a) d then (Some ForeignKeyFailed, d) else (None, purge_rows slug (app_ID a) d))"

text \<open>
  \<open>DeleteApp\<close> deletes the row, and by the foreign keys what refers to it: labels, versions, grants, backup configurations with
  their runs and alert rules (whose history rows lose their rule). Audit rows lose their reference; deploy events stay.
\<close>

definition cascade_app :: "string \<Rightarrow> int \<Rightarrow> app_db \<Rightarrow> app_db" where
  "cascade_app slug i d =
     (let cfgs = map fst (filter (\<lambda>c. snd c = i) (ad_backup_configs d));
          rules = map fst (filter (\<lambda>r. snd r = Some i) (ad_alert_rules d))
      in d\<lparr>ad_audit := map (\<lambda>(n, a). (n, if a = Some i then None else a)) (ad_audit d),
           ad_backup_runs := filter (\<lambda>r. fst (snd r) \<notin> set cfgs) (ad_backup_runs d),
           ad_versions := filter (\<lambda>v. cv_AppID v \<noteq> i) (ad_versions d),
           ad_alert_history := map (\<lambda>(h, s, r). (h, s, case r of Some x \<Rightarrow> if x \<in> set rules then None else r | None \<Rightarrow> None)) (ad_alert_history d),
           ad_backup_configs := filter (\<lambda>c. snd c \<noteq> i) (ad_backup_configs d),
           ad_alert_rules := filter (\<lambda>r. snd r \<noteq> Some i) (ad_alert_rules d),
           ad_labels := filter (\<lambda>l. fst l \<noteq> i) (ad_labels d),
           ad_access := filter (\<lambda>g. snd g \<noteq> i) (ad_access d),
           ad_apps := filter (\<lambda>a. app_Slug a \<noteq> slug) (ad_apps d)\<rparr>)"

definition DeleteApp :: "sql_env \<Rightarrow> string \<Rightarrow> app_db \<Rightarrow> store_error option \<times> app_db" where
  "DeleteApp e slug d =
     (if sql_fails e ''DeleteApp'' then (Some SqlFailed, d)
      else case app_by_slug d slug of None \<Rightarrow> (Some NotFound, d)
           | Some a \<Rightarrow> if purge_refused (app_ID a) d then (Some ForeignKeyFailed, d) else (None, cascade_app slug (app_ID a) d))"

subsection \<open>Compose versions and deploy events\<close>

definition app_versions :: "int \<Rightarrow> app_db \<Rightarrow> ComposeVersion list" where
  "app_versions i d = filter (\<lambda>v. cv_AppID v = i) (ad_versions d)"

text \<open>The next version number, and the row id SQLite gives a new row.\<close>

definition next_version :: "int \<Rightarrow> app_db \<Rightarrow> int" where
  "next_version i d = fold max (map cv_Version (app_versions i d)) 0 + 1"

definition next_rowid :: "int list \<Rightarrow> int" where
  "next_rowid ids = fold max ids 0 + 1"

definition newer_version :: "ComposeVersion \<Rightarrow> ComposeVersion \<Rightarrow> bool" where
  "newer_version a b \<longleftrightarrow> cv_Version a > cv_Version b"

text \<open>Beyond the ten newest versions; refused as a whole when a backup run refers to one of them.\<close>

definition pruned_versions :: "int \<Rightarrow> app_db \<Rightarrow> ComposeVersion list" where
  "pruned_versions i d =
     (let keep = map cv_ID (take 10 (sort_by newer_version (app_versions i d)))
      in filter (\<lambda>v. cv_ID v \<notin> set keep) (app_versions i d))"

definition prune_versions :: "sql_env \<Rightarrow> int \<Rightarrow> app_db \<Rightarrow> store_error option \<times> app_db" where
  "prune_versions e i d =
     (let gone = map cv_ID (pruned_versions i d)
      in if sql_fails e ''PruneComposeVersions'' then (Some SqlFailed, d)
         else if list_ex (version_held (ad_backup_runs d)) gone then (Some ForeignKeyFailed, d)
         else (None, d\<lparr>ad_versions := filter (\<lambda>v. cv_AppID v \<noteq> i \<or> cv_ID v \<notin> set gone) (ad_versions d)\<rparr>))"

text \<open>Two statements: when the second one fails, the new version is in the table although the operation reports an error.\<close>

definition CreateComposeVersion :: "sql_env \<Rightarrow> int \<Rightarrow> string \<Rightarrow> string \<Rightarrow> app_db \<Rightarrow> store_error option \<times> app_db" where
  "CreateComposeVersion e appID content hash d =
     (if sql_fails e ''CreateComposeVersion'' then (Some SqlFailed, d)
      else if appID \<notin> app_ID ` set (ad_apps d) then (Some ForeignKeyFailed, d)
      else prune_versions e appID (d\<lparr>ad_versions := ad_versions d @
             [\<lparr>cv_ID = next_rowid (map cv_ID (ad_versions d)), cv_AppID = appID, cv_Version = next_version appID d,
               cv_Content = content, cv_Hash = hash\<rparr>]\<rparr>))"

definition ListComposeVersions :: "sql_env \<Rightarrow> int \<Rightarrow> app_db \<Rightarrow> store_error + ComposeVersion list" where
  "ListComposeVersions e appID d =
     (if sql_fails e ''ListComposeVersions'' then Inl SqlFailed
      else Inr (sort_by newer_version (app_versions appID d)))"

definition GetComposeVersion :: "sql_env \<Rightarrow> int \<Rightarrow> app_db \<Rightarrow> store_error + ComposeVersion" where
  "GetComposeVersion e i d =
     (if sql_fails e ''GetComposeVersion'' then Inl SqlFailed
      else case find (\<lambda>v. cv_ID v = i) (ad_versions d) of None \<Rightarrow> Inl NotFound | Some v \<Rightarrow> Inr v)"

definition DeleteComposeVersion :: "sql_env \<Rightarrow> int \<Rightarrow> app_db \<Rightarrow> store_error option \<times> app_db" where
  "DeleteComposeVersion e i d =
     (if sql_fails e ''DeleteComposeVersion'' then (Some SqlFailed, d)
      else if i \<notin> cv_ID ` set (ad_versions d) then (Some NotFound, d)
      else if version_held (ad_backup_runs d) i then (Some ForeignKeyFailed, d)
      else (None, d\<lparr>ad_versions := filter (\<lambda>v. cv_ID v \<noteq> i) (ad_versions d)\<rparr>))"

definition CreateDeployEvent :: "sql_env \<Rightarrow> string \<Rightarrow> string \<Rightarrow> int option \<Rightarrow> string \<Rightarrow> app_db \<Rightarrow> store_error option \<times> app_db" where
  "CreateDeployEvent e slug action userID detail d =
     (if sql_fails e ''CreateDeployEvent'' then (Some SqlFailed, d)
      else (None, d\<lparr>ad_events := ad_events d @
             [\<lparr>de_ID = next_rowid (map de_ID (ad_events d)), de_AppSlug = slug, de_Action = action, de_UserID = userID, de_Detail = detail\<rparr>]\<rparr>))"

definition newer_event :: "DeployEvent \<Rightarrow> DeployEvent \<Rightarrow> bool" where
  "newer_event a b \<longleftrightarrow> de_ID a > de_ID b"

definition ListDeployEvents :: "sql_env \<Rightarrow> string \<Rightarrow> app_db \<Rightarrow> store_error + DeployEvent list" where
  "ListDeployEvents e slug d =
     (if sql_fails e ''ListDeployEvents'' then Inl SqlFailed
      else Inr (take 50 (sort_by newer_event (filter (\<lambda>v. de_AppSlug v = slug) (ad_events d)))))"

end
