(* ===== verification/Inject.thy ===== *)
theory Inject
  imports Prelude
begin

text \<open>
  internal/compose/inject.go: the compose file is rewritten so that every service with endpoint
  labels is on the shared network of the proxy. A YAML document is a tree of nodes as
  yaml.v3 reads it (a document node and its root); reading and writing them is a parameter.
\<close>

datatype ynode = NScalar string string | NSeq "ynode list" | NMap "(ynode \<times> ynode) list" | NAlias string

text \<open>A scalar with its tag (empty for none given) and its value.\<close>

fun scalar_value :: "ynode \<Rightarrow> string option" where
  "scalar_value (NScalar _ v) = Some v"
| "scalar_value _ = None"

fun node_pairs :: "ynode \<Rightarrow> (ynode \<times> ynode) list option" where
  "node_pairs (NMap ps) = Some ps"
| "node_pairs _ = None"

definition pair_at :: "string \<Rightarrow> (ynode \<times> ynode) list \<Rightarrow> ynode option" where
  "pair_at key ps = map_option snd (find (\<lambda>p. scalar_value (fst p) = Some key) ps)"

definition mappingValue :: "ynode \<Rightarrow> string \<Rightarrow> ynode option" where
  "mappingValue m key = (case node_pairs m of None \<Rightarrow> None | Some ps \<Rightarrow> pair_at key ps)"

text \<open>The value of the first pair with a key, changed in place.\<close>

fun set_pair :: "string \<Rightarrow> ynode \<Rightarrow> (ynode \<times> ynode) list \<Rightarrow> (ynode \<times> ynode) list" where
  "set_pair key v [] = []"
| "set_pair key v (p # ps) = (if scalar_value (fst p) = Some key then (fst p, v) # ps else p # set_pair key v ps)"

fun set_value :: "string \<Rightarrow> ynode \<Rightarrow> ynode \<Rightarrow> ynode" where
  "set_value key v (NMap ps) = NMap (set_pair key v ps)"
| "set_value key v n = n"

subsection \<open>Endpoint labels\<close>

definition endpointLabelPrefixRe :: "string \<Rightarrow> bool" where
  "endpointLabelPrefixRe s \<longleftrightarrow> prefix ''simpledeploy.endpoints.'' s \<and>
     (let (ds, rest, dot) = cut_at CHR ''.'' (drop (length ''simpledeploy.endpoints.'') s) in dot \<and> ds \<noteq> [] \<and> list_all is_digit ds)"

definition serviceHasEndpointLabel :: "ynode \<Rightarrow> bool" where
  "serviceHasEndpointLabel svc =
     (case mappingValue svc ''labels'' of
        None \<Rightarrow> False
      | Some (NMap ps) \<Rightarrow> list_ex (\<lambda>(k, _). case scalar_value k of Some s \<Rightarrow> endpointLabelPrefixRe s | None \<Rightarrow> False) ps
      | Some (NSeq items) \<Rightarrow>
          list_ex (\<lambda>item. case scalar_value item of Some s \<Rightarrow> endpointLabelPrefixRe (fst (cut_at CHR ''='' s)) | None \<Rightarrow> False) items
      | Some _ \<Rightarrow> False)"

subsection \<open>Networks\<close>

definition lists_network :: "ynode \<Rightarrow> string \<Rightarrow> bool" where
  "lists_network nets name =
     (case nets of
        NSeq items \<Rightarrow> list_ex (\<lambda>item. scalar_value item = Some name) items
      | NMap ps \<Rightarrow> mappingValue nets name \<noteq> None
      | _ \<Rightarrow> False)"

definition services_of :: "ynode option \<Rightarrow> ynode list" where
  "services_of services = (case services of Some (NMap ps) \<Rightarrow> filter (\<lambda>n. node_pairs n \<noteq> None) (map snd ps) | _ \<Rightarrow> [])"

definition anyServiceAttachedAlready :: "ynode option \<Rightarrow> string \<Rightarrow> bool" where
  "anyServiceAttachedAlready services name =
     list_ex (\<lambda>svc. case mappingValue svc ''networks'' of None \<Rightarrow> False | Some nets \<Rightarrow> lists_network nets name) (services_of services)"

definition plain_scalar :: "string \<Rightarrow> ynode" where
  "plain_scalar v = NScalar [] v"

definition network_decl :: "string \<Rightarrow> ynode \<times> ynode" where
  "network_decl name = (plain_scalar name,
     NMap [(plain_scalar ''external'', NScalar ''!!bool'' ''true''), (plain_scalar ''name'', plain_scalar name)])"

fun add_pair :: "ynode \<times> ynode \<Rightarrow> ynode \<Rightarrow> ynode" where
  "add_pair p (NMap ps) = NMap (ps @ [p])"
| "add_pair p n = n"

definition ensureTopLevelNetwork :: "ynode \<Rightarrow> string \<Rightarrow> bool \<times> ynode" where
  "ensureTopLevelNetwork t name =
     (let t = (if mappingValue t ''networks'' = None then add_pair (plain_scalar ''networks'', NMap []) t else t) in
      case mappingValue t ''networks'' of
        Some (NMap ps) \<Rightarrow>
          if pair_at name ps \<noteq> None then (False, t)
          else (True, set_value ''networks'' (NMap (ps @ [network_decl name])) t)
      | _ \<Rightarrow> (False, t))"

definition attachServiceNetwork :: "ynode \<Rightarrow> string \<Rightarrow> bool \<times> ynode" where
  "attachServiceNetwork svc name =
     (case mappingValue svc ''networks'' of
        None \<Rightarrow> (True, add_pair (plain_scalar ''networks'', NSeq [plain_scalar ''default'', plain_scalar name]) svc)
      | Some nets \<Rightarrow>
          if lists_network nets name then (False, svc)
          else case nets of
            NSeq items \<Rightarrow> (True, set_value ''networks'' (NSeq (items @ [plain_scalar name])) svc)
          | NMap ps \<Rightarrow> (True, set_value ''networks'' (NMap (ps @ [(plain_scalar name, NMap [])])) svc)
          | _ \<Rightarrow> (False, svc))"

text \<open>The loop over the services.\<close>

definition attach_service :: "string \<Rightarrow> ynode \<Rightarrow> bool \<times> ynode" where
  "attach_service name svc =
     (if node_pairs svc = None \<or> \<not> serviceHasEndpointLabel svc then (False, svc) else attachServiceNetwork svc name)"

definition attach_services :: "string \<Rightarrow> (ynode \<times> ynode) list \<Rightarrow> bool \<times> (ynode \<times> ynode) list" where
  "attach_services name ps =
     (list_ex (\<lambda>p. fst (attach_service name (snd p))) ps, map (\<lambda>(k, svc). (k, snd (attach_service name svc))) ps)"

text \<open>The root of the document.\<close>

definition inject_root :: "string \<Rightarrow> ynode \<Rightarrow> bool \<times> ynode" where
  "inject_root name t =
     (case node_pairs t of None \<Rightarrow> (False, t)
      | Some _ \<Rightarrow>
          let (serviceChanged, t1) =
                (case mappingValue t ''services'' of
                   Some (NMap ps) \<Rightarrow> let (ch, ps') = attach_services name ps in (ch, set_value ''services'' (NMap ps') t)
                 | _ \<Rightarrow> (False, t));
              (declared, t2) =
                (if serviceChanged \<or> anyServiceAttachedAlready (mappingValue t1 ''services'') name then ensureTopLevelNetwork t1 name
                 else (False, t1))
          in (serviceChanged \<or> declared, t2))"

datatype inject_result = InjectError | Injected bool string

text \<open>
  \<open>decode\<close> gives the document's root (\<open>None\<close> inside for an empty document), \<open>encode\<close> writes it back.
\<close>

definition InjectSharedNetwork ::
  "(string \<Rightarrow> ynode option option) \<Rightarrow> (ynode \<Rightarrow> string option) \<Rightarrow> string \<Rightarrow> string \<Rightarrow> inject_result" where
  "InjectSharedNetwork decode encode content name =
     (case decode content of
        None \<Rightarrow> InjectError
      | Some None \<Rightarrow> Injected False content
      | Some (Some root) \<Rightarrow>
          let (changed, root') = inject_root name root in
          if \<not> changed then Injected False content
          else case encode root' of
            None \<Rightarrow> InjectError
          | Some out \<Rightarrow> if out = content then Injected False content else Injected True out)"

subsection \<open>Reading after writing\<close>

lemma pair_at_Nil [simp]: "pair_at key [] = None"
  by (simp add: pair_at_def)

lemma pair_at_Cons [simp]: "pair_at key (p # ps) = (if scalar_value (fst p) = Some key then Some (snd p) else pair_at key ps)"
  by (simp add: pair_at_def)

lemma pair_at_append: "pair_at key (ps @ qs) = (case pair_at key ps of None \<Rightarrow> pair_at key qs | Some v \<Rightarrow> Some v)"
  by (induction ps) auto

lemma pair_at_set_pair: "pair_at k (set_pair key v ps) = (if k = key \<and> pair_at key ps \<noteq> None then Some v else pair_at k ps)"
  by (induction ps) auto

lemma set_pair_same: "pair_at key ps = Some v \<Longrightarrow> set_pair key v ps = ps"
  by (induction ps) (auto split: if_splits)

lemma set_pair_twice: "set_pair key w (set_pair key v ps) = set_pair key w ps"
  by (induction ps) auto

lemma mappingValue_NMap [simp]: "mappingValue (NMap ps) key = pair_at key ps"
  by (simp add: mappingValue_def)

lemma node_pairs_cases: "node_pairs n = Some ps \<longleftrightarrow> n = NMap ps"
  by (cases n) auto

lemma mappingValue_Some: "mappingValue n key = Some v \<Longrightarrow> \<exists>ps. n = NMap ps \<and> pair_at key ps = Some v"
  by (cases n) (auto simp: mappingValue_def)

lemma plain_scalar_value [simp]: "scalar_value (plain_scalar v) = Some v"
  by (simp add: plain_scalar_def)

subsection \<open>Attaching a service\<close>

text \<open>A service's networks can be read and extended: absent, a list or a map.\<close>

definition networks_open :: "ynode \<Rightarrow> bool" where
  "networks_open n \<longleftrightarrow> (case mappingValue n ''networks'' of None \<Rightarrow> True | Some (NSeq _) \<Rightarrow> True | Some (NMap _) \<Rightarrow> True | _ \<Rightarrow> False)"

definition on_network :: "string \<Rightarrow> ynode \<Rightarrow> bool" where
  "on_network name svc \<longleftrightarrow> (case mappingValue svc ''networks'' of None \<Rightarrow> False | Some nets \<Rightarrow> lists_network nets name)"

lemma attachServiceNetwork_result:
  assumes "attachServiceNetwork (NMap ps) name = (ch, svc')"
  shows "\<exists>ps'. svc' = NMap ps' \<and> (\<forall>key. key \<noteq> ''networks'' \<longrightarrow> pair_at key ps' = pair_at key ps) \<and>
    (networks_open (NMap ps) \<longrightarrow> on_network name svc') \<and> (ch \<longrightarrow> on_network name svc') \<and> (\<not> ch \<longrightarrow> svc' = NMap ps)"
proof (cases "pair_at ''networks'' ps")
  case None
  then show ?thesis using assms
    by (auto simp: attachServiceNetwork_def pair_at_append on_network_def lists_network_def split: option.split)
next
  case (Some nets)
  show ?thesis
  proof (cases "lists_network nets name")
    case True
    with Some assms show ?thesis by (auto simp: attachServiceNetwork_def on_network_def)
  next
    case False
    show ?thesis
    proof (cases nets)
      case (NSeq items)
      with False Some assms show ?thesis
        by (auto simp: attachServiceNetwork_def on_network_def lists_network_def pair_at_set_pair)
    next
      case (NMap qs)
      with False Some assms show ?thesis
        by (auto simp: attachServiceNetwork_def on_network_def lists_network_def pair_at_set_pair pair_at_append split: option.split)
    qed (use False Some assms in \<open>auto simp: attachServiceNetwork_def networks_open_def\<close>)
  qed
qed

lemma attachServiceNetwork_on: "on_network name svc \<Longrightarrow> attachServiceNetwork svc name = (False, svc)"
  by (auto simp: on_network_def attachServiceNetwork_def split: option.splits)

lemma has_label_same:
  "pair_at ''labels'' ps' = pair_at ''labels'' ps \<Longrightarrow> serviceHasEndpointLabel (NMap ps') = serviceHasEndpointLabel (NMap ps)"
  by (simp add: serviceHasEndpointLabel_def)

lemma attach_service_result:
  "(case attach_service name svc of (ch, svc') \<Rightarrow>
     (\<forall>key. key \<noteq> ''networks'' \<longrightarrow> mappingValue svc' key = mappingValue svc key) \<and> (\<not> ch \<longrightarrow> svc' = svc) \<and>
     (node_pairs svc' = None \<longleftrightarrow> node_pairs svc = None) \<and> serviceHasEndpointLabel svc' = serviceHasEndpointLabel svc \<and>
     (node_pairs svc \<noteq> None \<and> serviceHasEndpointLabel svc \<and> networks_open svc \<longrightarrow> on_network name svc') \<and>
     (ch \<longrightarrow> on_network name svc') \<and> attach_service name svc' = (False, svc'))"
proof (cases "node_pairs svc = None \<or> \<not> serviceHasEndpointLabel svc")
  case True
  then show ?thesis by (auto simp: attach_service_def)
next
  case False
  then obtain ps where ps: "svc = NMap ps" by (auto simp: node_pairs_cases)
  obtain ch svc' where a: "attachServiceNetwork svc name = (ch, svc')" by fastforce
  from attachServiceNetwork_result [OF a [unfolded ps]] obtain ps' where r: "svc' = NMap ps'"
      "\<forall>key. key \<noteq> ''networks'' \<longrightarrow> pair_at key ps' = pair_at key ps" "networks_open svc \<longrightarrow> on_network name svc'"
      "ch \<longrightarrow> on_network name svc'" "\<not> ch \<longrightarrow> svc' = svc"
    unfolding ps by blast
  have lab: "serviceHasEndpointLabel svc' = serviceHasEndpointLabel svc" unfolding r(1) ps by (rule has_label_same) (simp add: r(2))
  have "attachServiceNetwork svc' name = (False, svc')"
  proof (cases ch)
    case True
    with r(4) show ?thesis by (simp add: attachServiceNetwork_on)
  next
    case no: False
    with r(5) a show ?thesis by simp
  qed
  then have "attach_service name svc' = (False, svc')" by (simp add: attach_service_def)
  moreover have "attach_service name svc = (ch, svc')" using False a by (auto simp: attach_service_def)
  ultimately show ?thesis using r lab ps by simp
qed

subsection \<open>The document\<close>

definition declared :: "string \<Rightarrow> ynode \<Rightarrow> bool" where
  "declared name t \<longleftrightarrow> (case mappingValue t ''networks'' of Some (NMap ps) \<Rightarrow> pair_at name ps \<noteq> None | _ \<Rightarrow> False)"

lemma ensureTopLevelNetwork_result:
  assumes "ensureTopLevelNetwork (NMap ps) name = (ch, t')"
  shows "\<exists>ps'. t' = NMap ps' \<and> (\<forall>key. key \<noteq> ''networks'' \<longrightarrow> pair_at key ps' = pair_at key ps) \<and>
    (\<not> ch \<longrightarrow> t' = NMap ps) \<and> ensureTopLevelNetwork t' name = (False, t') \<and>
    (pair_at ''networks'' ps = None \<or> (\<exists>qs. pair_at ''networks'' ps = Some (NMap qs)) \<longrightarrow> declared name t')"
proof -
  let ?ps = "if pair_at ''networks'' ps = None then ps @ [(plain_scalar ''networks'', NMap [])] else ps"
  have rest: "\<forall>key. key \<noteq> ''networks'' \<longrightarrow> pair_at key ?ps = pair_at key ps"
    by (auto simp: pair_at_append split: option.split)
  have "pair_at ''networks'' ?ps \<noteq> None" by (auto simp: pair_at_append)
  then obtain nets where nets: "pair_at ''networks'' ?ps = Some nets" by blast
  show ?thesis
  proof (cases "\<exists>qs. nets = NMap qs \<and> pair_at name qs = None")
    case True
    then obtain qs where qs: "nets = NMap qs" "pair_at name qs = None" by blast
    with assms nets have t': "ch" "t' = NMap (set_pair ''networks'' (NMap (qs @ [network_decl name])) ?ps)"
      by (auto simp: ensureTopLevelNetwork_def Let_def split: if_splits)
    have net': "pair_at ''networks'' (set_pair ''networks'' (NMap (qs @ [network_decl name])) ?ps) = Some (NMap (qs @ [network_decl name]))"
      using nets by (simp add: pair_at_set_pair)
    have nm: "pair_at name (qs @ [network_decl name]) \<noteq> None" by (auto simp: pair_at_append network_decl_def split: option.split)
    have "ensureTopLevelNetwork t' name = (False, t')" "declared name t'"
      using net' nm unfolding t'(2) by (simp_all add: ensureTopLevelNetwork_def Let_def declared_def)
    then show ?thesis using t' rest by (auto simp: pair_at_set_pair)
  next
    case False
    have ne: "pair_at ''networks'' ps \<noteq> None"
    proof
      assume "pair_at ''networks'' ps = None"
      then have "nets = NMap []" using nets by (simp add: pair_at_append)
      with False show False by simp
    qed
    then have "pair_at ''networks'' ps = Some nets" using nets unfolding if_not_P [OF ne] by simp
    then have "t' = NMap ps \<and> \<not> ch" "declared name (NMap ps) \<or> \<not> (\<exists>qs. nets = NMap qs)"
      using False assms by (auto simp: ensureTopLevelNetwork_def Let_def declared_def split: ynode.splits if_splits)
    then show ?thesis using assms \<open>pair_at ''networks'' ps = Some nets\<close> by auto
  qed
qed

lemma attach_services_twice: "attach_services name (snd (attach_services name ps)) = (False, snd (attach_services name ps))"
proof -
  have again: "attach_service name (snd (attach_service name svc)) = (False, snd (attach_service name svc))" for svc
    using attach_service_result [where name = name and svc = svc] by (simp add: case_prod_beta)
  show ?thesis by (simp add: attach_services_def list_ex_iff case_prod_beta again comp_def)
qed

lemma attach_services_none: "\<not> fst (attach_services name ps) \<Longrightarrow> snd (attach_services name ps) = ps"
proof -
  assume "\<not> fst (attach_services name ps)"
  then have "snd (attach_service name (snd p)) = snd p" if "p \<in> set ps" for p
    using that attach_service_result [where name = name and svc = "snd p"] by (auto simp: attach_services_def list_ex_iff case_prod_beta)
  then show ?thesis by (simp add: attach_services_def case_prod_beta map_idI)
qed

text \<open>The root after the services, and after the declaration.\<close>

definition attach_root :: "string \<Rightarrow> ynode \<Rightarrow> bool \<times> ynode" where
  "attach_root name t = (case mappingValue t ''services'' of
     Some (NMap ps) \<Rightarrow> let (ch, ps') = attach_services name ps in (ch, set_value ''services'' (NMap ps') t)
   | _ \<Rightarrow> (False, t))"

definition declare_root :: "string \<Rightarrow> bool \<Rightarrow> ynode \<Rightarrow> bool \<times> ynode" where
  "declare_root name ch t = (if ch \<or> anyServiceAttachedAlready (mappingValue t ''services'') name then ensureTopLevelNetwork t name else (False, t))"

lemma inject_root_alt: "inject_root name t = (case node_pairs t of None \<Rightarrow> (False, t)
    | Some _ \<Rightarrow> (fst (attach_root name t) \<or> fst (declare_root name (fst (attach_root name t)) (snd (attach_root name t))),
        snd (declare_root name (fst (attach_root name t)) (snd (attach_root name t)))))"
  by (simp add: inject_root_def attach_root_def declare_root_def case_prod_beta Let_def split: option.split)

lemma attach_root_result:
  assumes "attach_root name (NMap ps) = (ch, t1)"
  shows "\<exists>ps1. t1 = NMap ps1 \<and> (\<forall>key. key \<noteq> ''services'' \<longrightarrow> pair_at key ps1 = pair_at key ps) \<and> (\<not> ch \<longrightarrow> t1 = NMap ps) \<and>
    (\<forall>svcs. pair_at ''services'' ps = Some (NMap svcs) \<longrightarrow> pair_at ''services'' ps1 = Some (NMap (snd (attach_services name svcs)))) \<and>
    attach_root name t1 = (False, t1)"
proof (cases "\<exists>svcs. pair_at ''services'' ps = Some (NMap svcs)")
  case False
  then have "attach_root name (NMap ps) = (False, NMap ps)" by (auto simp: attach_root_def split: option.split ynode.split)
  with assms False show ?thesis by auto
next
  case True
  then obtain svcs where svcs: "pair_at ''services'' ps = Some (NMap svcs)" by blast
  obtain c svcs' where at: "attach_services name svcs = (c, svcs')" by fastforce
  have t1: "ch = c" "t1 = NMap (set_pair ''services'' (NMap svcs') ps)"
    using assms svcs at by (auto simp: attach_root_def)
  have again: "attach_services name svcs' = (False, svcs')" using attach_services_twice [of name svcs] at by simp
  have same: "\<not> c \<Longrightarrow> svcs' = svcs" using attach_services_none [of name svcs] at by simp
  have new: "pair_at ''services'' (set_pair ''services'' (NMap svcs') ps) = Some (NMap svcs')"
    using svcs by (simp add: pair_at_set_pair)
  have "attach_root name t1 = (False, t1)" using new again unfolding t1(2) by (simp add: attach_root_def set_pair_same)
  then show ?thesis using t1 new svcs at same by (auto simp: pair_at_set_pair set_pair_same)
qed

lemma declare_root_result:
  assumes "declare_root name b (NMap ps) = (ch, t')" "b \<longrightarrow> anyServiceAttachedAlready (pair_at ''services'' ps) name"
  shows "\<exists>ps'. t' = NMap ps' \<and> (\<forall>key. key \<noteq> ''networks'' \<longrightarrow> pair_at key ps' = pair_at key ps) \<and> (\<not> ch \<longrightarrow> t' = NMap ps) \<and>
    declare_root name False t' = (False, t')"
proof (cases "anyServiceAttachedAlready (pair_at ''services'' ps) name")
  case True
  with assms have e: "ensureTopLevelNetwork (NMap ps) name = (ch, t')" by (simp add: declare_root_def)
  from ensureTopLevelNetwork_result [OF e] obtain ps' where r: "t' = NMap ps'" "\<forall>key. key \<noteq> ''networks'' \<longrightarrow> pair_at key ps' = pair_at key ps"
      "\<not> ch \<longrightarrow> t' = NMap ps" "ensureTopLevelNetwork t' name = (False, t')"
    by blast
  then show ?thesis by (simp add: declare_root_def)
next
  case False
  with assms(2) have "declare_root name b (NMap ps) = (False, NMap ps)" by (simp add: declare_root_def)
  with assms(1) have t': "t' = NMap ps" and "\<not> ch" by simp_all
  with False show ?thesis unfolding t' by (simp add: declare_root_def)
qed

lemma any_attachedI:
  assumes "(k, v) \<in> set ss" "node_pairs v \<noteq> None" "on_network name v"
  shows "anyServiceAttachedAlready (Some (NMap ss)) name"
proof -
  have "v \<in> set (services_of (Some (NMap ss)))" using assms(1,2) by (force simp: services_of_def)
  with assms(3) show ?thesis unfolding anyServiceAttachedAlready_def on_network_def list_ex_iff by blast
qed

lemma attach_root_attached:
  assumes "attach_root name (NMap ps) = (True, NMap ps1)"
  shows "anyServiceAttachedAlready (pair_at ''services'' ps1) name"
proof -
  obtain svcs where svcs: "pair_at ''services'' ps = Some (NMap svcs)" "fst (attach_services name svcs)"
    using assms by (auto simp: attach_root_def split: option.splits ynode.splits prod.splits)
  then obtain k svc where s: "(k, svc) \<in> set svcs" "fst (attach_service name svc)" by (auto simp: attach_services_def list_ex_iff)
  have on: "on_network name (snd (attach_service name svc))" "node_pairs (snd (attach_service name svc)) \<noteq> None"
    using s(2) attach_service_result [where name = name and svc = svc] by (auto simp: case_prod_beta attach_service_def split: if_splits)
  have "pair_at ''services'' ps1 = Some (NMap (snd (attach_services name svcs)))"
    using attach_root_result [OF assms] svcs(1) by auto
  moreover have "(k, snd (attach_service name svc)) \<in> set (snd (attach_services name svcs))"
    using s(1) by (force simp: attach_services_def)
  ultimately show ?thesis using any_attachedI on by metis
qed

lemma inject_root_result:
  assumes "inject_root name t = (ch, t')"
  shows "inject_root name t' = (False, t') \<and> (\<not> ch \<longrightarrow> t' = t) \<and>
    (\<forall>key. key \<noteq> ''services'' \<and> key \<noteq> ''networks'' \<longrightarrow> mappingValue t' key = mappingValue t key)"
proof (cases "node_pairs t")
  case None
  with assms show ?thesis by (simp add: inject_root_alt)
next
  case (Some ps)
  then have t: "t = NMap ps" by (simp add: node_pairs_cases)
  obtain c1 t1 where a: "attach_root name (NMap ps) = (c1, t1)" by fastforce
  from attach_root_result [OF a] obtain ps1 where r1: "t1 = NMap ps1" "\<forall>key. key \<noteq> ''services'' \<longrightarrow> pair_at key ps1 = pair_at key ps"
      "\<not> c1 \<longrightarrow> t1 = NMap ps" "attach_root name t1 = (False, t1)"
    by blast
  obtain c2 t2 where d0: "declare_root name c1 (NMap ps1) = (c2, t2)" by fastforce
  have ch: "ch = (c1 \<or> c2)" and t2: "t2 = t'" using assms a r1(1) d0 by (auto simp: inject_root_alt t)
  note d = d0 [unfolded t2]
  have "c1 \<longrightarrow> anyServiceAttachedAlready (pair_at ''services'' ps1) name"
    using attach_root_attached a unfolding r1(1) by (cases c1) simp_all
  from declare_root_result [OF d this] obtain ps' where r2: "t' = NMap ps'" "\<forall>key. key \<noteq> ''networks'' \<longrightarrow> pair_at key ps' = pair_at key ps1"
      "\<not> c2 \<longrightarrow> t' = NMap ps1" "declare_root name False t' = (False, t')"
    by blast
  have svc': "pair_at ''services'' ps' = pair_at ''services'' ps1" using r2(2) by simp
  have "attach_root name (NMap ps') = (False, NMap ps')"
  proof (cases "\<exists>svcs. pair_at ''services'' ps = Some (NMap svcs)")
    case True
    then obtain svcs where "pair_at ''services'' ps = Some (NMap svcs)" by blast
    with attach_root_result [OF a] r1(1) have "pair_at ''services'' ps1 = Some (NMap (snd (attach_services name svcs)))" by auto
    then show ?thesis using svc' attach_services_twice [of name svcs] by (simp add: attach_root_def set_pair_same)
  next
    case False
    then have "attach_root name (NMap ps) = (False, NMap ps)" by (auto simp: attach_root_def split: option.split ynode.split)
    with a r1(1) have "ps1 = ps" by simp
    with False svc' show ?thesis by (auto simp: attach_root_def split: option.split ynode.split)
  qed
  then have "inject_root name t' = (False, t')" using r2 by (simp add: inject_root_alt)
  then show ?thesis using r1 r2 ch t by auto
qed

text \<open>
  Attaching apps to the proxy's network is idempotent: a file the injection has rewritten,
  and one it left alone, is left alone the next time, so the reconciler's watcher does not rewrite a
  file for ever. Keys other than services and networks are not touched.
\<close>

theorem inject_idempotent:
  assumes "InjectSharedNetwork decode encode content name = Injected ch out"
    and "\<And>root text. encode root = Some text \<Longrightarrow> decode text = Some (Some root)"
  shows "InjectSharedNetwork decode encode out name = Injected False out"
proof (cases "decode content")
  case (Some r)
  show ?thesis
  proof (cases r)
    case None
    with Some assms(1) show ?thesis by (auto simp: InjectSharedNetwork_def)
  next
    case root: (Some root)
    obtain c root' where i: "inject_root name root = (c, root')" by fastforce
    have again: "inject_root name root' = (False, root')" using inject_root_result [OF i] by simp
    show ?thesis
    proof (cases "c \<and> encode root' \<noteq> Some content")
      case True
      with assms(1) Some root i have "encode root' = Some out" by (auto simp: InjectSharedNetwork_def split: option.splits if_splits)
      from assms(2) [OF this] again show ?thesis by (simp add: InjectSharedNetwork_def)
    next
      case False
      with assms(1) Some root i have "out = content" by (auto simp: InjectSharedNetwork_def split: option.splits if_splits)
      with False Some root i show ?thesis by (auto simp: InjectSharedNetwork_def)
    qed
  qed
qed (use assms(1) in \<open>simp add: InjectSharedNetwork_def\<close>)

text \<open>
  After the injection every service with an endpoint label is on the shared network
  and, when there is one, the network is declared at the top of the file, as long as each of those
  services lists its networks, if at all, as a list or a map, and so does the file.
\<close>

theorem inject_attaches:
  assumes "mappingValue t ''services'' = Some (NMap svcs)" "(k, svc) \<in> set svcs"
    and "node_pairs svc \<noteq> None" "serviceHasEndpointLabel svc" "networks_open svc"
    and "mappingValue t ''networks'' = None \<or> (\<exists>qs. mappingValue t ''networks'' = Some (NMap qs))"
    and "inject_root name t = (ch, t')"
  shows "declared name t' \<and> (\<exists>svcs' svc'. mappingValue t' ''services'' = Some (NMap svcs') \<and> (k, svc') \<in> set svcs' \<and>
    on_network name svc' \<and> (\<forall>key. key \<noteq> ''networks'' \<longrightarrow> mappingValue svc' key = mappingValue svc key))"
proof -
  obtain ps where t: "t = NMap ps" using mappingValue_Some [OF assms(1)] by blast
  obtain c1 t1 where a: "attach_root name (NMap ps) = (c1, t1)" by fastforce
  from attach_root_result [OF a] obtain ps1 where r1: "t1 = NMap ps1" "\<forall>key. key \<noteq> ''services'' \<longrightarrow> pair_at key ps1 = pair_at key ps"
      "pair_at ''services'' ps1 = Some (NMap (snd (attach_services name svcs)))"
    using assms(1) by (auto simp: t)
  let ?svc = "snd (attach_service name svc)"
  have s: "on_network name ?svc" "\<forall>key. key \<noteq> ''networks'' \<longrightarrow> mappingValue ?svc key = mappingValue svc key" "node_pairs ?svc \<noteq> None"
    using attach_service_result [where name = name and svc = svc] assms(3-5) by (auto simp: case_prod_beta)
  have i: "(k, ?svc) \<in> set (snd (attach_services name svcs))" using assms(2) by (force simp: attach_services_def)
  then have "anyServiceAttachedAlready (pair_at ''services'' ps1) name"
    unfolding r1(3) by (rule any_attachedI) (rule s)+
  then have "t' = snd (ensureTopLevelNetwork (NMap ps1) name)"
    using assms(7) a r1(1) by (simp add: inject_root_alt t declare_root_def)
  then have e: "ensureTopLevelNetwork (NMap ps1) name = (fst (ensureTopLevelNetwork (NMap ps1) name), t')" by simp
  have "pair_at ''networks'' ps1 = None \<or> (\<exists>qs. pair_at ''networks'' ps1 = Some (NMap qs))" using assms(6) r1(2) by (simp add: t)
  with ensureTopLevelNetwork_result [OF e] obtain ps' where r2: "t' = NMap ps'" "pair_at ''services'' ps' = pair_at ''services'' ps1" "declared name t'"
    by auto
  then show ?thesis using r1(3) i s(1,2) by auto
qed

subsection \<open>Examples\<close>

definition web_service :: "(ynode \<times> ynode) list \<Rightarrow> ynode" where
  "web_service extra = NMap ((plain_scalar ''labels'', NMap [(plain_scalar ''simpledeploy.endpoints.0.domain'', plain_scalar ''a.org'')]) # extra)"

definition compose_root :: "ynode \<Rightarrow> (ynode \<times> ynode) list \<Rightarrow> ynode" where
  "compose_root svc extra = NMap ((plain_scalar ''services'', NMap [(plain_scalar ''web'', svc)]) # extra)"

theorem inject_idempotent_witness:
  "InjectSharedNetwork (\<lambda>s. if s = ''in'' then Some (Some (compose_root (web_service []) [])) else
       if s = ''out'' then Some (Some (snd (inject_root ''net'' (compose_root (web_service []) [])))) else None)
     (\<lambda>n. if n = snd (inject_root ''net'' (compose_root (web_service []) [])) then Some ''out'' else None) ''out'' ''net'' = Injected False ''out''"
proof (rule inject_idempotent [where content = "''in''" and ch = True])
  have "fst (inject_root ''net'' (compose_root (web_service []) []))" by code_simp
  then show "InjectSharedNetwork (\<lambda>s. if s = ''in'' then Some (Some (compose_root (web_service []) [])) else
       if s = ''out'' then Some (Some (snd (inject_root ''net'' (compose_root (web_service []) [])))) else None)
     (\<lambda>n. if n = snd (inject_root ''net'' (compose_root (web_service []) [])) then Some ''out'' else None) ''in'' ''net'' = Injected True ''out''"
    by (cases "inject_root ''net'' (compose_root (web_service []) [])") (simp add: InjectSharedNetwork_def)
qed (auto split: if_splits)

theorem inject_attaches_witness:
  "declared ''net'' (snd (inject_root ''net'' (compose_root (web_service []) [])))"
proof -
  let ?t = "compose_root (web_service []) []"
  have f: "mappingValue ?t ''services'' = Some (NMap [(plain_scalar ''web'', web_service [])])" "mappingValue ?t ''networks'' = None"
      "node_pairs (web_service []) \<noteq> None" "serviceHasEndpointLabel (web_service [])" "networks_open (web_service [])"
    by code_simp+
  from inject_attaches [OF f(1) _ f(3-5) disjI1 [OF f(2)], of _ "''net''" "fst (inject_root ''net'' ?t)"] show ?thesis by simp
qed

text \<open>
  A file whose top-level networks key is there but empty (a null scalar) is left without the declaration, though
  its services are attached: compose refuses it for an undefined network.
\<close>

lemma null_networks_undeclared:
  "let t = compose_root (web_service []) [(plain_scalar ''networks'', NScalar ''!!null'' [])];
       (ch, t') = inject_root ''net'' t
   in ch \<and> \<not> declared ''net'' t' \<and> anyServiceAttachedAlready (mappingValue t' ''services'') ''net''"
  by code_simp

end
