(* ===== verification/ProxyConfig.thy ===== *)
theory ProxyConfig
  imports RouteOrder
begin

text \<open>
  internal/proxy/proxy.go, the part that builds the Caddy config: \<open>buildConfigFrom\<close> and its
  helpers, one definition per block of the function. The order of the members of a JSON object
  has no meaning (\<open>json.Marshal\<close> sorts them).
\<close>

record CaddyConfig =
  listenAddr :: string
  extraListenAddrs :: "string list"
  httpListenAddr :: string
  tlsMode :: string
  tlsEmail :: string
  dataDir :: string

text \<open>\<open>os.Stat\<close>: size, modification time, and whether it is a directory; \<open>None\<close> for an error.\<close>

record file_info =
  fi_size :: int
  fi_mtime :: instant
  fi_dir :: bool

type_synonym file_stat = "string \<Rightarrow> file_info option"

definition fileExists :: "file_stat \<Rightarrow> string \<Rightarrow> bool" where
  "fileExists stat path = (case stat path of None \<Rightarrow> False | Some fi \<Rightarrow> \<not> fi_dir fi)"

subsection \<open>Route entries\<close>

type_synonym securityHeader = "string \<times> string"

definition defaultSecurityHeaders :: "securityHeader list" where
  "defaultSecurityHeaders =
     [(''X-Content-Type-Options'', ''nosniff''), (''X-Frame-Options'', ''SAMEORIGIN''),
      (''Referrer-Policy'', ''strict-origin-when-cross-origin'')]"

definition hstsHeader :: securityHeader where
  "hstsHeader = (''Strict-Transport-Security'', ''max-age=31536000; includeSubDomains'')"

definition security_handler :: "securityHeader \<Rightarrow> json" where
  "security_handler h =
     JObj [(''handler'', JStr ''headers''),
           (''response'', JObj [(''require'', JObj [(''headers'', JObj [(fst h, JNull)])]),
                                (''set'', JObj [(fst h, jstrs [snd h])])])]"

definition securityHeaderHandlers :: "Route \<Rightarrow> json list" where
  "securityHeaderHandlers r =
     (let hdrs = (if TLS r \<noteq> ''off'' \<and> TLS r \<noteq> [] then defaultSecurityHeaders @ [hstsHeader] else defaultSecurityHeaders)
      in map security_handler hdrs)"

definition requestBodyIdleTimeout :: duration where
  "requestBodyIdleTimeout = time_minute"

definition maxRequestHeaderBytes :: int where
  "maxRequestHeaderBytes = 1048576"

definition route_handlers :: "Route \<Rightarrow> json list" where
  "route_handlers r =
     (let ruleKey = normalizeDomain (Domain r) in
      [JObj [(''handler'', JStr ''simpledeploy_ipaccess''), (''domain'', JStr ruleKey)],
       JObj [(''handler'', JStr ''simpledeploy_ratelimit''), (''domain'', JStr ruleKey)],
       JObj [(''handler'', JStr ''simpledeploy_metrics'')]] @
      securityHeaderHandlers r @
      (if \<not> isH2CUpstream r
       then [JObj [(''handler'', JStr ''timeouts''), (''read_timeout'', JInt requestBodyIdleTimeout)]] else []) @
      [reverseProxyHandler r])"

definition route_entry :: "Route \<Rightarrow> json" where
  "route_entry r = JObj [(''match'', JArr [routeMatcher r]), (''handle'', JArr (route_handlers r)), (''terminal'', JBool True)]"

text \<open>Domains with their own TLS handling, collected by the same loop.\<close>

definition localTLSDomains :: "Route list \<Rightarrow> string list" where
  "localTLSDomains rs = map Domain (filter (\<lambda>r. TLS r = ''local'') rs)"

fun custom_domains :: "string set \<Rightarrow> Route list \<Rightarrow> string list" where
  "custom_domains seenCustom [] = []"
| "custom_domains seenCustom (r # rs) =
     (if TLS r = ''custom'' \<and> Domain r \<notin> seenCustom
      then Domain r # custom_domains (insert (Domain r) seenCustom) rs
      else custom_domains seenCustom rs)"

definition cert_file :: "Route \<Rightarrow> string \<Rightarrow> string" where
  "cert_file r ext = join_path [CertDir r, Domain r @ ext]"

fun load_files :: "file_stat \<Rightarrow> string set \<Rightarrow> Route list \<Rightarrow> json list" where
  "load_files stat seenCertDomains [] = []"
| "load_files stat seenCertDomains (r # rs) =
     (if TLS r = ''custom'' \<and> CertDir r \<noteq> [] \<and> Domain r \<notin> seenCertDomains
      then (let crt = cert_file r ''.crt''; key = cert_file r ''.key'';
                rest = load_files stat (insert (Domain r) seenCertDomains) rs
            in if \<not> fileExists stat crt \<or> \<not> fileExists stat key then rest
               else JObj [(''certificate'', JStr crt), (''key'', JStr key), (''tags'', jstrs [Domain r])] # rest)
      else load_files stat seenCertDomains rs)"

subsection \<open>Servers\<close>

text \<open>\<open>cloneJSONValue\<close> copies a value; values have no identity here, so it returns an equal one.\<close>

fun cloneJSONValue :: "json \<Rightarrow> json" where
  "cloneJSONValue (JObj t) = JObj (map (\<lambda>(k, v). (k, cloneJSONValue v)) t)"
| "cloneJSONValue (JArr t) = JArr (map cloneJSONValue t)"
| "cloneJSONValue v = v"

definition server_tls :: "CaddyConfig \<Rightarrow> Route list \<Rightarrow> (string \<times> json) list" where
  "server_tls c rs =
     (if tlsMode c = ''off'' \<and> localTLSDomains rs = []
      then [(''automatic_https'', JObj [(''disable'', JBool True)]), (''protocols'', jstrs [''h1'', ''h2'', ''h2c''])]
      else [(''tls_connection_policies'', JArr [JObj []]),
            (''automatic_https'', JObj ((''disable_redirects'', JBool True) #
               (if custom_domains {} rs \<noteq> [] then [(''skip_certificates'', jstrs (custom_domains {} rs))] else [])))])"

definition main_server :: "CaddyConfig \<Rightarrow> Route list \<Rightarrow> (string \<times> json) list" where
  "main_server c rs =
     [(''listen'', jstrs [listenAddr c]), (''routes'', JArr (map route_entry rs)),
      (''max_header_bytes'', JInt maxRequestHeaderBytes), (''read_idle_timeout'', JInt (- 1))] @ server_tls c rs"

definition extra_server :: "CaddyConfig \<Rightarrow> Route list \<Rightarrow> (string \<times> json) list" where
  "extra_server c rs =
     (let server = main_server c rs in
      [(''listen'', jstrs (extraListenAddrs c)), (''routes'', cloneJSONValue (JArr (map route_entry rs)))] @
      List.map_filter (\<lambda>k. map_option (\<lambda>v. (k, cloneJSONValue v)) (map_of server k))
        [''tls_connection_policies'', ''automatic_https'', ''max_header_bytes'', ''read_idle_timeout''] @
      [(''protocols'', case map_of server ''protocols'' of Some p \<Rightarrow> p | None \<Rightarrow> jstrs [''h1'', ''h2''])])"

definition redirect_server :: "CaddyConfig \<Rightarrow> (string \<times> json) list" where
  "redirect_server c =
     [(''listen'', jstrs [httpListenAddr c]), (''max_header_bytes'', JInt maxRequestHeaderBytes),
      (''routes'', JArr [JObj [(''handle'', JArr [JObj
         [(''handler'', JStr ''static_response''), (''status_code'', JInt 308),
          (''headers'', JObj [(''Location'', jstrs [''https://{http.request.host}{http.request.uri}''])])]])]]),
      (''automatic_https'', JObj [(''disable'', JBool True)])]"

definition config_servers :: "CaddyConfig \<Rightarrow> Route list \<Rightarrow> (string \<times> json) list" where
  "config_servers c rs =
     [(''proxy'', JObj (main_server c rs))] @
     (if extraListenAddrs c \<noteq> [] then [(''proxy_extra'', JObj (extra_server c rs))] else []) @
     (if httpListenAddr c \<noteq> [] \<and> tlsMode c \<noteq> ''off'' then [(''proxy_http'', JObj (redirect_server c))] else [])"

subsection \<open>TLS automation\<close>

definition acme_policy :: "CaddyConfig \<Rightarrow> json" where
  "acme_policy c = JObj [(''issuers'', JArr [JObj [(''module'', JStr ''acme''), (''email'', JStr (tlsEmail c))]])]"

definition internal_policy :: json where
  "internal_policy = JObj [(''issuers'', JArr [JObj [(''module'', JStr ''internal'')]])]"

definition local_policy :: "string \<Rightarrow> json" where
  "local_policy domain =
     JObj [(''subjects'', jstrs [domain]), (''issuers'', JArr [JObj [(''module'', JStr ''internal'')]])]"

definition global_policies :: "CaddyConfig \<Rightarrow> json list" where
  "global_policies c =
     (if tlsMode c = ''auto'' \<and> tlsEmail c \<noteq> [] then [acme_policy c]
      else if tlsMode c = ''local'' then [internal_policy] else [])"

definition automation_policies :: "CaddyConfig \<Rightarrow> Route list \<Rightarrow> json list" where
  "automation_policies c rs =
     global_policies c @
     (if localTLSDomains rs \<noteq> [] \<and> tlsMode c \<noteq> ''local''
      then map local_policy (rev (remdups (rev (localTLSDomains rs)))) else [])"

definition tls_app :: "CaddyConfig \<Rightarrow> file_stat \<Rightarrow> Route list \<Rightarrow> (string \<times> json) list" where
  "tls_app c stat rs =
     (if automation_policies c rs \<noteq> [] then [(''automation'', JObj [(''policies'', JArr (automation_policies c rs))])] else []) @
     (if load_files stat {} rs \<noteq> [] then [(''certificates'', JObj [(''load_files'', JArr (load_files stat {} rs))])] else [])"

definition buildConfigFrom :: "CaddyConfig \<Rightarrow> file_stat \<Rightarrow> Route list \<Rightarrow> json" where
  "buildConfigFrom c stat routes =
     (let rs = orderRoutes routes in
      JObj ([(''admin'', JObj [(''disabled'', JBool True)]),
        (''apps'', JObj ([(''http'', JObj [(''servers'', JObj (config_servers c rs))])] @
           (if tls_app c stat rs \<noteq> [] then [(''tls'', JObj (tls_app c stat rs))] else [])))] @
        (if dataDir c \<noteq> []
         then [(''storage'', JObj [(''module'', JStr ''file_system''), (''root'', JStr (join_path [dataDir c, ''caddy'']))])]
         else [])))"

subsection \<open>Reading a config\<close>

fun jpath :: "string list \<Rightarrow> json \<Rightarrow> json option" where
  "jpath [] j = Some j"
| "jpath (k # ks) (JObj kvs) = (case map_of kvs k of Some j \<Rightarrow> jpath ks j | None \<Rightarrow> None)"
| "jpath (k # ks) _ = None"

fun jlist :: "json option \<Rightarrow> json list" where
  "jlist (Some (JArr xs)) = xs"
| "jlist _ = []"

definition config_server :: "json \<Rightarrow> string \<Rightarrow> json option" where
  "config_server cfg srv = jpath [''apps'', ''http'', ''servers'', srv] cfg"

definition server_field :: "json \<Rightarrow> string \<Rightarrow> string list \<Rightarrow> json option" where
  "server_field cfg srv path = (case config_server cfg srv of Some s \<Rightarrow> jpath path s | None \<Rightarrow> None)"

lemma config_server_build:
  "config_server (buildConfigFrom c stat routes) srv = map_of (config_servers c (orderRoutes routes)) srv"
  by (simp add: config_server_def buildConfigFrom_def Let_def split: option.splits)

lemma clone_id [simp]: "cloneJSONValue v = v"
  by (induction v rule: cloneJSONValue.induct) (auto intro!: map_idI)

lemma main_server_build: "config_server (buildConfigFrom c stat routes) ''proxy'' = Some (JObj (main_server c (orderRoutes routes)))"
  by (simp add: config_server_build config_servers_def)

lemma extra_server_build:
  "extraListenAddrs c \<noteq> [] \<Longrightarrow>
     config_server (buildConfigFrom c stat routes) ''proxy_extra'' = Some (JObj (extra_server c (orderRoutes routes)))"
  by (simp add: config_server_build config_servers_def)

text \<open>The extra server repeats these fields of the main one.\<close>

lemma extra_server_field:
  "k \<in> {''routes'', ''tls_connection_policies'', ''automatic_https'', ''max_header_bytes'', ''read_idle_timeout''} \<Longrightarrow>
     map_of (extra_server c rs) k = map_of (main_server c rs) k"
  by (auto simp: extra_server_def main_server_def server_tls_def Let_def List.map_filter_simps)

lemma custom_domains_set:
  "set (custom_domains seen rs) = {Domain r | r. r \<in> set rs \<and> TLS r = ''custom'' \<and> Domain r \<notin> seen}"
  by (induction seen rs rule: custom_domains.induct) (auto split: if_splits)

lemma load_files_sound:
  "f \<in> set (load_files stat seen rs) \<Longrightarrow> \<exists>r \<in> set rs. TLS r = ''custom'' \<and> CertDir r \<noteq> [] \<and>
     fileExists stat (cert_file r ''.crt'') \<and> fileExists stat (cert_file r ''.key'') \<and>
     f = JObj [(''certificate'', JStr (cert_file r ''.crt'')), (''key'', JStr (cert_file r ''.key'')), (''tags'', jstrs [Domain r])]"
  by (induction stat seen rs rule: load_files.induct) (auto simp: Let_def split: if_splits)

text \<open>
  A domain with a custom certificate is never left to automatic certificate
  management: on every server that terminates TLS, the config lists it among the
  domains to skip, whether or not its certificate files exist.
\<close>

theorem custom_domain_skipped:
  assumes "r \<in> set routes" "TLS r = ''custom''"
    and "srv = ''proxy'' \<or> srv = ''proxy_extra'' \<and> extraListenAddrs c \<noteq> []"
    and "server_field (buildConfigFrom c stat routes) srv [''tls_connection_policies''] \<noteq> None"
  shows "JStr (Domain r) \<in> set (jlist (server_field (buildConfigFrom c stat routes) srv [''automatic_https'', ''skip_certificates'']))"
proof -
  let ?rs = "orderRoutes routes"
  obtain s where s: "config_server (buildConfigFrom c stat routes) srv = Some (JObj s)"
    and eq: "map_of s ''tls_connection_policies'' = map_of (main_server c ?rs) ''tls_connection_policies''"
      "map_of s ''automatic_https'' = map_of (main_server c ?rs) ''automatic_https''"
    using assms(3) main_server_build [of c stat routes] extra_server_build [of c stat routes]
      extra_server_field [of "''tls_connection_policies''" c ?rs] extra_server_field [of "''automatic_https''" c ?rs]
    by auto
  have "map_of (main_server c ?rs) ''tls_connection_policies'' \<noteq> None"
    using assms(4) s eq by (auto simp: server_field_def split: option.splits)
  then have on: "\<not> (tlsMode c = ''off'' \<and> localTLSDomains ?rs = [])"
    by (auto simp: main_server_def server_tls_def)
  have d: "Domain r \<in> set (custom_domains {} ?rs)"
    unfolding custom_domains_set using assms(1,2) by auto
  then have "custom_domains {} ?rs \<noteq> []" by auto
  then have "map_of (main_server c ?rs) ''automatic_https'' =
      Some (JObj [(''disable_redirects'', JBool True), (''skip_certificates'', jstrs (custom_domains {} ?rs))])"
    using on by (simp add: main_server_def server_tls_def)
  then have "server_field (buildConfigFrom c stat routes) srv [''automatic_https'', ''skip_certificates''] =
      Some (jstrs (custom_domains {} ?rs))"
    using s eq by (simp add: server_field_def)
  then show ?thesis using d by (simp add: jstrs_def)
qed

definition example_caddy :: CaddyConfig where
  "example_caddy = \<lparr>listenAddr = '':443'', extraListenAddrs = [], httpListenAddr = [], tlsMode = ''auto'',
     tlsEmail = ''a@b.c'', dataDir = []\<rparr>"

theorem custom_domain_skipped_witness:
  "JStr ''a.b'' \<in> set (jlist (server_field
     (buildConfigFrom example_caddy (\<lambda>_. None) [(example_route ''a.b'')\<lparr>TLS := ''custom''\<rparr>])
     ''proxy'' [''automatic_https'', ''skip_certificates'']))"
proof -
  let ?r = "(example_route ''a.b'')\<lparr>TLS := ''custom''\<rparr>"
  have "server_field (buildConfigFrom example_caddy (\<lambda>_. None) [?r]) ''proxy'' [''tls_connection_policies''] \<noteq> None"
    by (simp add: server_field_def main_server_build main_server_def server_tls_def example_caddy_def)
  from custom_domain_skipped [OF _ _ _ this] show ?thesis by (simp add: example_route_def)
qed

text \<open>
  Every certificate pair the config tells Caddy to load belongs to a route with a
  custom certificate and exists on disk when the config is built, so one missing file cannot make
  the whole config fail to load.
\<close>

theorem loaded_certs_exist:
  "list_all (\<lambda>f. \<exists>r \<in> set routes. TLS r = ''custom'' \<and>
      fileExists stat (cert_file r ''.crt'') \<and> fileExists stat (cert_file r ''.key'') \<and>
      jpath [''certificate''] f = Some (JStr (cert_file r ''.crt'')) \<and> jpath [''key''] f = Some (JStr (cert_file r ''.key'')))
    (jlist (jpath [''apps'', ''tls'', ''certificates'', ''load_files''] (buildConfigFrom c stat routes)))"
proof -
  let ?rs = "orderRoutes routes"
  have "jlist (jpath [''apps'', ''tls'', ''certificates'', ''load_files''] (buildConfigFrom c stat routes)) =
      load_files stat {} ?rs"
    by (simp add: buildConfigFrom_def tls_app_def Let_def)
  then show ?thesis using load_files_sound [of _ stat "{}" ?rs] by (fastforce simp: list_all_iff)
qed

text \<open>
  Caddy applies the first automation policy whose subjects match, and a policy without subjects
  matches every name. With TLS mode auto and an e-mail the first policy is the ACME one, so
  the internal-CA policies appended for \<open>tls: local\<close> domains are never reached.
\<close>

lemma local_policies_shadowed:
  assumes "tlsMode c = ''auto''" "tlsEmail c \<noteq> []"
  shows "hd (jlist (jpath [''apps'', ''tls'', ''automation'', ''policies''] (buildConfigFrom c stat routes))) = acme_policy c
    \<and> jpath [''subjects''] (acme_policy c) = None"
  using assms by (simp add: buildConfigFrom_def tls_app_def automation_policies_def global_policies_def acme_policy_def Let_def)

end
