(* ===== verification/IPAccess.thy ===== *)
theory IPAccess
  imports HostMatch GoHttp
begin

text \<open>
  internal/proxy/ipaccess.go: the parsed allowlists, their registry by normalized domain, the
  check of a request's peer address and the Caddy handler that enforces it.
\<close>

record parsedAllowlist =
  al_ips :: "nat list list"
  al_nets :: "ipnet list"

fun parse_entries :: "string list \<Rightarrow> parsedAllowlist \<Rightarrow> parsedAllowlist" where
  "parse_entries [] parsed = parsed"
| "parse_entries (entry # es) parsed =
     (case parse_ip entry of
        Some ip \<Rightarrow> parse_entries es (parsed\<lparr>al_ips := al_ips parsed @ [ip]\<rparr>)
      | None \<Rightarrow>
          (case parse_cidr entry of
             Some n \<Rightarrow> parse_entries es (parsed\<lparr>al_nets := al_nets parsed @ [n]\<rparr>)
           | None \<Rightarrow> parse_entries es parsed))"

definition parseAllowlist :: "string list \<Rightarrow> parsedAllowlist" where
  "parseAllowlist es = parse_entries es \<lparr>al_ips = [], al_nets = []\<rparr>"

type_synonym ip_registry = "(string \<times> parsedAllowlist) list"

definition access_Set :: "string \<Rightarrow> string list \<Rightarrow> ip_registry \<Rightarrow> ip_registry" where
  "access_Set domain es reg = AList.update (normalizeDomain domain) (parseAllowlist es) reg"

definition access_Remove :: "string \<Rightarrow> ip_registry \<Rightarrow> ip_registry" where
  "access_Remove domain reg = AList.delete (normalizeDomain domain) reg"

fun access_replace_loop :: "(string \<times> string list) list \<Rightarrow> ip_registry \<Rightarrow> ip_registry" where
  "access_replace_loop [] nxt = nxt"
| "access_replace_loop ((domain, es) # rules) nxt =
     access_replace_loop rules (AList.update (normalizeDomain domain) (parseAllowlist es) nxt)"

text \<open>\<open>Replace\<close> builds the new rule set from nothing; \<open>reg\<close> is only overwritten.\<close>

definition access_Replace :: "(string \<times> string list) list \<Rightarrow> ip_registry \<Rightarrow> ip_registry" where
  "access_Replace rules reg = access_replace_loop rules []"

definition access_snapshot :: "ip_registry \<Rightarrow> ip_registry" where
  "access_snapshot reg = reg"

definition access_restore :: "ip_registry \<Rightarrow> ip_registry \<Rightarrow> ip_registry" where
  "access_restore rules reg = rules"

definition access_allows :: "parsedAllowlist \<Rightarrow> http_request \<Rightarrow> bool" where
  "access_allows al r =
     (if al_ips al = [] \<and> al_nets al = [] then True
      else case split_host_port (RemoteAddr r) of
        None \<Rightarrow> False
      | Some (host, _) \<Rightarrow>
          (case parse_ip host of
             None \<Rightarrow> False
           | Some clientIP \<Rightarrow>
               list_ex (\<lambda>ip. ip_equal ip clientIP) (al_ips al) \<or>
               list_ex (\<lambda>n. net_contains n clientIP) (al_nets al)))"

definition access_Allowed :: "ip_registry \<Rightarrow> string \<Rightarrow> http_request \<Rightarrow> bool" where
  "access_Allowed reg host r = (case lookupHost reg host of None \<Rightarrow> True | Some al \<Rightarrow> access_allows al r)"

definition access_AllowedFor :: "ip_registry \<Rightarrow> string \<Rightarrow> http_request \<Rightarrow> bool" where
  "access_AllowedFor reg domain r =
     (case map_of reg (normalizeDomain domain) of None \<Rightarrow> True | Some al \<Rightarrow> access_allows al r)"

definition IPAccessHandler_ServeHTTP :: "string \<Rightarrow> http_request \<Rightarrow> ip_registry \<Rightarrow> outcome" where
  "IPAccessHandler_ServeHTTP domain r reg =
     (let allowed = (if domain \<noteq> [] then access_AllowedFor reg domain r else access_Allowed reg (Host r) r)
      in if \<not> allowed then Responded StatusNotFound [] else CalledNext)"

subsection \<open>What an allowlist admits\<close>

lemma parse_entries_sets:
  "al_ips (parse_entries es p) = al_ips p @ List.map_filter parse_ip es"
  "al_nets (parse_entries es p) =
     al_nets p @ List.map_filter (\<lambda>e. if parse_ip e = None then parse_cidr e else None) es"
  by (induction es p rule: parse_entries.induct)
    (auto simp: List.map_filter_simps split: option.splits)

text \<open>The addresses a list of entries names.\<close>

definition names_ip :: "string list \<Rightarrow> nat list \<Rightarrow> bool" where
  "names_ip es ip \<longleftrightarrow> (\<exists>e \<in> set es. case parse_ip e of
     Some a \<Rightarrow> ip_equal a ip
   | None \<Rightarrow> (case parse_cidr e of Some n \<Rightarrow> net_contains n ip | None \<Rightarrow> False))"

definition valid_entry :: "string \<Rightarrow> bool" where
  "valid_entry e \<longleftrightarrow> parse_ip e \<noteq> None \<or> parse_cidr e \<noteq> None"

lemma map_filter_Nil: "List.map_filter f xs = [] \<longleftrightarrow> (\<forall>e \<in> set xs. f e = None)"
  by (induction xs) (auto simp: List.map_filter_simps split: option.splits)

lemma parseAllowlist_fields:
  "al_ips (parseAllowlist es) = List.map_filter parse_ip es"
  "al_nets (parseAllowlist es) = List.map_filter (\<lambda>e. if parse_ip e = None then parse_cidr e else None) es"
  by (simp_all add: parseAllowlist_def parse_entries_sets)

lemma parseAllowlist_empty:
  "al_ips (parseAllowlist es) = [] \<and> al_nets (parseAllowlist es) = [] \<longleftrightarrow> (\<forall>e \<in> set es. \<not> valid_entry e)"
  unfolding parseAllowlist_fields map_filter_Nil valid_entry_def by auto

lemma names_ip_Cons:
  "names_ip (e # es) ip \<longleftrightarrow> (case parse_ip e of Some a \<Rightarrow> ip_equal a ip
     | None \<Rightarrow> (case parse_cidr e of Some n \<Rightarrow> net_contains n ip | None \<Rightarrow> False)) \<or> names_ip es ip"
  by (simp add: names_ip_def)

lemma names_ip_Nil: "\<not> names_ip [] ip"
  by (simp add: names_ip_def)

lemma parse_entries_member:
  "list_ex (\<lambda>ip. ip_equal ip c) (al_ips (parse_entries es p)) \<or> list_ex (\<lambda>n. net_contains n c) (al_nets (parse_entries es p))
   \<longleftrightarrow> list_ex (\<lambda>ip. ip_equal ip c) (al_ips p) \<or> list_ex (\<lambda>n. net_contains n c) (al_nets p) \<or> names_ip es c"
  by (induction es p rule: parse_entries.induct) (auto simp: names_ip_Cons names_ip_Nil split: option.splits)

lemma parseAllowlist_member:
  "list_ex (\<lambda>ip. ip_equal ip c) (al_ips (parseAllowlist es)) \<or> list_ex (\<lambda>n. net_contains n c) (al_nets (parseAllowlist es))
   \<longleftrightarrow> names_ip es c"
  by (simp add: parseAllowlist_def parse_entries_member)

lemma access_allows_parsed:
  "access_allows (parseAllowlist es) r \<longleftrightarrow>
     (\<forall>e \<in> set es. \<not> valid_entry e) \<or>
     (\<exists>h p ip. split_host_port (RemoteAddr r) = Some (h, p) \<and> parse_ip h = Some ip \<and> names_ip es ip)"
proof (cases "\<forall>e \<in> set es. \<not> valid_entry e")
  case True
  then show ?thesis using parseAllowlist_empty by (simp add: access_allows_def)
next
  case False
  then have "\<not> (al_ips (parseAllowlist es) = [] \<and> al_nets (parseAllowlist es) = [])"
    using parseAllowlist_empty by blast
  then show ?thesis using False
    by (auto simp: access_allows_def parseAllowlist_member split: option.splits)
qed

lemma access_replace_loop_map:
  "distinct (map (normalizeDomain \<circ> fst) rules) \<Longrightarrow>
   map_of (access_replace_loop rules nxt) k =
     (case find (\<lambda>(d, _). normalizeDomain d = k) rules of Some (_, es) \<Rightarrow> Some (parseAllowlist es) | None \<Rightarrow> map_of nxt k)"
proof (induction rules nxt rule: access_replace_loop.induct)
  case (2 domain es rules nxt)
  then have ih: "map_of (access_replace_loop rules (AList.update (normalizeDomain domain) (parseAllowlist es) nxt)) k =
     (case find (\<lambda>(d, _). normalizeDomain d = k) rules of Some (_, es) \<Rightarrow> Some (parseAllowlist es)
      | None \<Rightarrow> map_of (AList.update (normalizeDomain domain) (parseAllowlist es) nxt) k)"
    by simp
  show ?case
  proof (cases "normalizeDomain domain = k")
    case True
    then have "find (\<lambda>(d, _). normalizeDomain d = k) rules = None"
      using 2(2) unfolding find_None_iff by (force simp: comp_def)
    with True ih show ?thesis by simp
  next
    case False
    with ih show ?thesis by (simp split: option.splits)
  qed
qed simp

text \<open>
  After \<open>Replace\<close>, the handler of a route domain lets a request through exactly when
  the domain has no rule, its rule has no valid entry, or the peer address of the request is
  one of the addresses or inside one of the networks of the rule; otherwise it answers 404 and
  does not call the next handler. A domain that is not given has no rule, whatever
  the registry held before.
\<close>

theorem access_enforced:
  assumes rules: "distinct (map (normalizeDomain \<circ> fst) rules)" and d: "domain \<noteq> []"
  shows "IPAccessHandler_ServeHTTP domain r (access_Replace rules reg) =
    (case find (\<lambda>(d, _). normalizeDomain d = normalizeDomain domain) rules of
       None \<Rightarrow> CalledNext
     | Some (_, es) \<Rightarrow>
         if (\<forall>e \<in> set es. \<not> valid_entry e) \<or>
            (\<exists>h p ip. split_host_port (RemoteAddr r) = Some (h, p) \<and> parse_ip h = Some ip \<and> names_ip es ip)
         then CalledNext else Responded StatusNotFound [])"
  using d
  by (simp add: IPAccessHandler_ServeHTTP_def access_AllowedFor_def access_Replace_def access_replace_loop_map [OF rules]
      access_allows_parsed split: option.splits)

theorem access_enforced_witness:
  "IPAccessHandler_ServeHTTP ''a.b''
     \<lparr>Method = ''GET'', Host = ''a.b'', RemoteAddr = ''10.0.0.9:5'', Header = [], URL_Path = ''/'', TLS_state = False\<rparr>
     (access_Replace [(''a.b'', [''10.0.0.0/8''])] []) = CalledNext"
proof -
  have n: "normalizeDomain ''a.b'' = ''a.b''" by (simp add: normalizeDomain_def go_simps Let_def)
  have "split_host_port ''10.0.0.9:5'' = Some (''10.0.0.9'', ''5'')" by (simp add: go_simps Let_def)
  moreover have "parse_ip ''10.0.0.9'' = Some (v4_prefix @ [10, 0, 0, 9])" by (simp add: go_simps Let_def)
  moreover have "names_ip [''10.0.0.0/8''] (v4_prefix @ [10, 0, 0, 9])"
    by (simp add: names_ip_def go_simps Let_def)
  ultimately have a: "(\<exists>h p ip. split_host_port ''10.0.0.9:5'' = Some (h, p) \<and> parse_ip h = Some ip \<and> names_ip [''10.0.0.0/8''] ip)"
    by blast
  show ?thesis
    by (subst access_enforced) (simp_all only: n find.simps case_prod_conv refl if_True option.case a http_request.select_convs disj_assoc simp_thms list.simps distinct.simps empty_iff set_simps not_Cons_self2 fst_conv comp_apply)
qed

end
