(* ===== verification/Proxy.thy ===== *)
theory Proxy
  imports ProxyConfig RateLimit IPAccess
begin

text \<open>
  internal/proxy/proxy.go: the state of the proxy and its updates. \<open>px_running\<close> is what Caddy
  runs: a successful \<open>caddy.Load\<close> installs the config, a failed one leaves the old one (Caddy's
  documented behaviour); the code never reads it. \<open>json.Marshal\<close>, \<open>caddy.Load\<close> and \<open>os.Stat\<close> are
  parameters. The locks make each operation one step.
\<close>

record proxy_env =
  marshal :: "json \<Rightarrow> string option"
  file_state :: file_stat
  load_ok :: "string \<Rightarrow> bool"

record proxy_state =
  px_config :: CaddyConfig
  px_routes :: "Route list"
  px_owners :: "(string \<times> string) list"
  px_lastKey :: "string option"
  px_limits :: limiter_registry
  px_access :: ip_registry
  px_running :: "string option"

definition NewCaddyProxy :: "CaddyConfig \<Rightarrow> limiter_registry \<Rightarrow> ip_registry \<Rightarrow> proxy_state" where
  "NewCaddyProxy cfg limits access =
     \<lparr>px_config = cfg, px_routes = [], px_owners = [], px_lastKey = None, px_limits = limits,
      px_access = access, px_running = None\<rparr>"

subsection \<open>Owners of domains\<close>

text \<open>\<open>claimants\<close>: normalized domain to app slug to the lowest app ID among its routes.\<close>

type_synonym claims = "(string \<times> (string \<times> int) list) list"

definition lookup_default :: "'v \<Rightarrow> ('k \<times> 'v) list \<Rightarrow> 'k \<Rightarrow> 'v" where
  "lookup_default d m k = (case map_of m k of Some v \<Rightarrow> v | None \<Rightarrow> d)"

definition claim_route :: "Route \<Rightarrow> claims \<Rightarrow> claims" where
  "claim_route r claimants =
     (let key = normalizeDomain (Domain r);
          apps = lookup_default [] claimants key;
          apps' = (case map_of apps (AppSlug r) of
                     Some i \<Rightarrow> if AppID r < i then AList.update (AppSlug r) (AppID r) apps else apps
                   | None \<Rightarrow> AList.update (AppSlug r) (AppID r) apps)
      in AList.update key apps' claimants)"

definition claimants :: "Route list \<Rightarrow> claims" where
  "claimants routes = fold claim_route routes []"

definition slug_less :: "(string \<times> int) list \<Rightarrow> string \<Rightarrow> string \<Rightarrow> bool" where
  "slug_less apps s t =
     (let a = lookup_default 0 apps s; b = lookup_default 0 apps t in if a \<noteq> b then a < b else s < t)"

definition choose_owner :: "(string \<times> string) list \<Rightarrow> string \<Rightarrow> (string \<times> int) list \<Rightarrow> string" where
  "choose_owner prev key apps =
     (let slugs = sort_by (slug_less apps) (map fst apps);
          owner = lookup_default [] prev key
      in if map_of prev key = None \<or> map_of apps owner = None then hd slugs else owner)"

definition claimDomains :: "Route list \<Rightarrow> (string \<times> string) list \<Rightarrow> Route list \<times> (string \<times> string) list" where
  "claimDomains routes prev =
     (let owners = map (\<lambda>(key, apps). (key, choose_owner prev key apps)) (claimants routes);
          kept = filter (\<lambda>r. lookup_default [] owners (normalizeDomain (Domain r)) = AppSlug r) routes
      in (kept, owners))"

subsection \<open>Rules of the routes\<close>

fun route_limits :: "Route list \<Rightarrow> (string \<times> RateLimitConfig) list \<Rightarrow> (string \<times> RateLimitConfig) list" where
  "route_limits [] limits = limits"
| "route_limits (r # rs) limits =
     (let key = normalizeDomain (Domain r) in
      case (map_of limits key, RateLimit r) of
        (None, Some rl) \<Rightarrow> route_limits rs (AList.update key rl limits)
      | _ \<Rightarrow> route_limits rs limits)"

text \<open>A nil allowlist is the empty list: \<open>ResolveRoutes\<close> never makes an empty one that is not nil.\<close>

fun route_allow :: "Route list \<Rightarrow> (string \<times> string list) list \<Rightarrow> (string \<times> string list) list" where
  "route_allow [] allow = allow"
| "route_allow (r # rs) allow =
     (let key = normalizeDomain (Domain r) in
      if map_of allow key = None \<and> AllowedIPs r \<noteq> []
      then route_allow rs (AList.update key (AllowedIPs r) allow) else route_allow rs allow)"

definition registerRouteRules :: "Route list \<Rightarrow> proxy_state \<Rightarrow> proxy_state" where
  "registerRouteRules routes s =
     s\<lparr>px_limits := limiter_replace (route_limits routes []) (px_limits s),
       px_access := access_Replace (route_allow routes []) (px_access s)\<rparr>"

record routeRules =
  rules_allow :: ip_registry
  rules_limits :: "(string \<times> nat) list"

definition snapshotRouteRules :: "proxy_state \<Rightarrow> routeRules" where
  "snapshotRouteRules s = \<lparr>rules_allow = access_snapshot (px_access s), rules_limits = limiter_snapshot (px_limits s)\<rparr>"

definition restore_rules :: "routeRules \<Rightarrow> proxy_state \<Rightarrow> proxy_state" where
  "restore_rules rules s =
     s\<lparr>px_access := access_restore (rules_allow rules) (px_access s),
       px_limits := limiter_restore (rules_limits rules) (px_limits s)\<rparr>"

subsection \<open>Loading\<close>

definition decimal :: "int \<Rightarrow> string" where
  "decimal i = (if i < 0 then ''-'' @ itoa (nat (- i)) else itoa (nat i))"

definition newline :: char where
  "newline = char_of (10 :: nat)"

definition file_print :: "file_stat \<Rightarrow> string \<Rightarrow> string" where
  "file_print stat path = (case stat path of
     Some fi \<Rightarrow> newline # path @ ''|'' @ decimal (fi_size fi) @ ''|'' @ decimal (fi_mtime fi)
   | None \<Rightarrow> newline # path @ ''|missing'')"

fun cert_prints :: "file_stat \<Rightarrow> string set \<Rightarrow> Route list \<Rightarrow> string" where
  "cert_prints stat seen [] = []"
| "cert_prints stat seen (r # rs) =
     (if TLS r \<noteq> ''custom'' \<or> CertDir r = [] \<or> Domain r \<in> seen then cert_prints stat seen rs
      else file_print stat (cert_file r ''.crt'') @ file_print stat (cert_file r ''.key'') @
           cert_prints stat (insert (Domain r) seen) rs)"

definition certFingerprint :: "file_stat \<Rightarrow> Route list \<Rightarrow> string" where
  "certFingerprint stat routes = cert_prints stat {} (orderRoutes routes)"

datatype proxy_error = MarshalFailed | LoadFailed

definition BuildConfigJSON :: "proxy_env \<Rightarrow> proxy_state \<Rightarrow> string option" where
  "BuildConfigJSON env s = marshal env (buildConfigFrom (px_config s) (file_state env) (px_routes s))"

definition reloadLocked :: "proxy_env \<Rightarrow> bool \<Rightarrow> proxy_state \<Rightarrow> proxy_error option \<times> proxy_state" where
  "reloadLocked env force s =
     (case BuildConfigJSON env s of
        None \<Rightarrow> (Some MarshalFailed, s)
      | Some data \<Rightarrow>
          (let key = data @ certFingerprint (file_state env) (px_routes s) in
           if \<not> force \<and> px_lastKey s = Some key then (None, s)
           else if \<not> load_ok env data then (Some LoadFailed, s\<lparr>px_lastKey := None\<rparr>)
           else (None, s\<lparr>px_lastKey := Some key, px_running := Some data\<rparr>)))"

definition valid_routes :: "Route list \<Rightarrow> Route list" where
  "valid_routes routes = filter (\<lambda>r. validDomain (Domain r)) routes"

definition install_routes :: "Route list \<Rightarrow> proxy_state \<Rightarrow> proxy_state" where
  "install_routes routes s =
     (let (kept, owners) = claimDomains routes (px_owners s)
      in registerRouteRules kept (s\<lparr>px_routes := kept, px_owners := owners\<rparr>))"

definition SetRoutes :: "proxy_env \<Rightarrow> Route list \<Rightarrow> proxy_state \<Rightarrow> proxy_error option \<times> proxy_state" where
  "SetRoutes env routes s =
     (let prevRules = snapshotRouteRules s in
      case reloadLocked env False (install_routes (valid_routes routes) s) of
        (None, s') \<Rightarrow> (None, s')
      | (Some err, s') \<Rightarrow>
          (Some err, restore_rules prevRules (s'\<lparr>px_routes := px_routes s, px_owners := px_owners s\<rparr>)))"

definition ForceReload :: "proxy_env \<Rightarrow> proxy_state \<Rightarrow> proxy_error option \<times> proxy_state" where
  "ForceReload env s = reloadLocked env True s"

definition proxy_Stop :: "proxy_state \<Rightarrow> proxy_state" where
  "proxy_Stop s = s\<lparr>px_lastKey := None, px_running := None\<rparr>"

subsection \<open>Who owns a domain\<close>

definition claims_domain :: "Route list \<Rightarrow> string \<Rightarrow> string \<Rightarrow> bool" where
  "claims_domain rs key slug \<longleftrightarrow> (\<exists>r \<in> set rs. normalizeDomain (Domain r) = key \<and> AppSlug r = slug)"

definition lowest_id :: "Route list \<Rightarrow> string \<Rightarrow> string \<Rightarrow> int" where
  "lowest_id rs key slug = Min (AppID ` {r \<in> set rs. normalizeDomain (Domain r) = key \<and> AppSlug r = slug})"

text \<open>
  The owner the documentation promises: the previous owner if it still claims the domain, else the
  claimant with the lowest app ID, the slug breaking ties.
\<close>

definition first_claimant :: "Route list \<Rightarrow> string \<Rightarrow> string \<Rightarrow> bool" where
  "first_claimant rs key o1 \<longleftrightarrow> claims_domain rs key o1 \<and>
     (\<forall>slug. claims_domain rs key slug \<longrightarrow> slug = o1 \<or> lowest_id rs key o1 < lowest_id rs key slug \<or>
       lowest_id rs key o1 = lowest_id rs key slug \<and> o1 < slug)"

definition domain_owner :: "Route list \<Rightarrow> (string \<times> string) list \<Rightarrow> string \<Rightarrow> string \<Rightarrow> bool" where
  "domain_owner rs prev key o1 \<longleftrightarrow>
     (case map_of prev key of
        Some p \<Rightarrow> if claims_domain rs key p then o1 = p else first_claimant rs key o1
      | None \<Rightarrow> first_claimant rs key o1)"

lemma domain_owner_unique: "domain_owner rs prev key a \<Longrightarrow> domain_owner rs prev key b \<Longrightarrow> a = b"
proof -
  have "first_claimant rs key a \<Longrightarrow> first_claimant rs key b \<Longrightarrow> a = b"
    unfolding first_claimant_def by (metis not_less_iff_gr_or_eq)
  then show "domain_owner rs prev key a \<Longrightarrow> domain_owner rs prev key b \<Longrightarrow> a = b"
    by (auto simp: domain_owner_def split: option.splits if_splits)
qed

lemma domain_owner_set_cong: "set rs = set rs' \<Longrightarrow> domain_owner rs = domain_owner rs'"
  by (auto simp: fun_eq_iff domain_owner_def first_claimant_def claims_domain_def lowest_id_def
      split: option.splits)

lemma claims_domain_snoc:
  "claims_domain (rs @ [r]) key slug \<longleftrightarrow>
     claims_domain rs key slug \<or> normalizeDomain (Domain r) = key \<and> AppSlug r = slug"
  by (auto simp: claims_domain_def)

lemma lowest_id_snoc:
  "lowest_id (rs @ [r]) key slug =
     (if normalizeDomain (Domain r) = key \<and> AppSlug r = slug
      then if claims_domain rs key slug then min (AppID r) (lowest_id rs key slug) else AppID r
      else lowest_id rs key slug)"
proof -
  let ?S = "{x \<in> set rs. normalizeDomain (Domain x) = key \<and> AppSlug x = slug}"
  have S: "{x \<in> set (rs @ [r]). normalizeDomain (Domain x) = key \<and> AppSlug x = slug} =
      (if normalizeDomain (Domain r) = key \<and> AppSlug r = slug then insert r ?S else ?S)" by auto
  have e: "claims_domain rs key slug \<longleftrightarrow> ?S \<noteq> {}" by (auto simp: claims_domain_def)
  show ?thesis
  proof (cases "normalizeDomain (Domain r) = key \<and> AppSlug r = slug")
    case True
    then have "lowest_id (rs @ [r]) key slug = Min (insert (AppID r) (AppID ` ?S))"
      unfolding lowest_id_def S by simp
    then show ?thesis using True e by (cases "?S = {}") (simp_all add: lowest_id_def del: Collect_empty_eq)
  next
    case False
    then show ?thesis unfolding lowest_id_def S by auto
  qed
qed

text \<open>The map of claimants holds exactly the claims, with their lowest app IDs.\<close>

definition claims_ok :: "Route list \<Rightarrow> claims \<Rightarrow> bool" where
  "claims_ok rs cl \<longleftrightarrow> gomap_ok cl \<and>
     (\<forall>key. gomap_ok (lookup_default [] cl key) \<and>
        (\<forall>slug. map_of (lookup_default [] cl key) slug =
           (if claims_domain rs key slug then Some (lowest_id rs key slug) else None)) \<and>
        (map_of cl key = None \<longleftrightarrow> (\<forall>slug. \<not> claims_domain rs key slug)))"

lemma claims_okD:
  assumes "claims_ok rs cl"
  shows "gomap_ok cl" "gomap_ok (lookup_default [] cl key)"
    "map_of (lookup_default [] cl key) slug = (if claims_domain rs key slug then Some (lowest_id rs key slug) else None)"
    "map_of cl key = None \<longleftrightarrow> (\<forall>slug. \<not> claims_domain rs key slug)"
  using assms by (simp_all add: claims_ok_def)

lemma lookup_default_update:
  "lookup_default d (AList.update k v m) j = (if j = k then v else lookup_default d m j)"
  by (simp add: lookup_default_def)

lemma claim_route_ok:
  assumes ok: "claims_ok rs cl"
  shows "claims_ok (rs @ [r]) (claim_route r cl)"
proof -
  let ?key = "normalizeDomain (Domain r)" and ?s = "AppSlug r"
  let ?apps = "lookup_default [] cl ?key"
  note D = claims_okD [OF ok]
  obtain apps' where a: "apps' = (case map_of ?apps ?s of Some i \<Rightarrow> if AppID r < i then AList.update ?s (AppID r) ?apps else ?apps
      | None \<Rightarrow> AList.update ?s (AppID r) ?apps)" by blast
  have g: "gomap_ok apps'" unfolding a using D(2) by (auto split: option.splits)
  have m: "map_of apps' slug = (if claims_domain (rs @ [r]) ?key slug then Some (lowest_id (rs @ [r]) ?key slug) else None)"
    for slug
    unfolding a by (auto simp: D(3) claims_domain_snoc lowest_id_snoc min_def)
  have c: "claim_route r cl = AList.update ?key apps' cl"
    unfolding a claim_route_def Let_def ..
  show ?thesis
    unfolding claims_ok_def c
  proof (intro conjI allI)
    show "gomap_ok (AList.update ?key apps' cl)" using D(1) by simp
    fix key slug
    show "gomap_ok (lookup_default [] (AList.update ?key apps' cl) key)"
      using g D(2) by (simp add: lookup_default_update)
    show "map_of (lookup_default [] (AList.update ?key apps' cl) key) slug =
      (if claims_domain (rs @ [r]) key slug then Some (lowest_id (rs @ [r]) key slug) else None)"
      using m D(3) by (simp add: lookup_default_update claims_domain_snoc lowest_id_snoc)
    show "map_of (AList.update ?key apps' cl) key = None \<longleftrightarrow> (\<forall>slug. \<not> claims_domain (rs @ [r]) key slug)"
      using D(4) by (auto simp: claims_domain_snoc)
  qed
qed

lemma claimants_ok: "claims_ok rs (claimants rs)"
proof (induction rs rule: rev_induct)
  case Nil
  then show ?case by (simp add: claims_ok_def claimants_def lookup_default_def claims_domain_def)
next
  case (snoc r rs)
  from claim_route_ok [OF this] show ?case by (simp add: claimants_def)
qed

lemma slug_order: "go_total_less (slug_less apps)"
  by unfold_locales (auto simp: slug_less_def Let_def split: if_splits)

lemma hd_sorted_least:
  assumes "xs \<noteq> []" "y \<in> set xs"
  shows "hd (sort_by (slug_less apps) xs) \<in> set xs \<and> (y = hd (sort_by (slug_less apps) xs) \<or> slug_less apps (hd (sort_by (slug_less apps) xs)) y)"
proof -
  let ?s = "sort_by (slug_less apps) xs"
  have "set ?s = set xs" by simp
  with assms(1) obtain z zs where z: "?s = z # zs" by (cases ?s) auto
  have "sorted_wrt (\<lambda>a b. \<not> slug_less apps b a) (z # zs)"
    using go_less.sorted_sort_by [of "slug_less apps" xs] slug_order z unfolding go_total_less_def by metis
  moreover have "y \<in> set (z # zs)" using assms(2) z \<open>set ?s = set xs\<close> by metis
  ultimately have "y = z \<or> slug_less apps z y"
    using go_total_less.total [OF slug_order] by auto
  moreover have "z \<in> set xs" using z \<open>set ?s = set xs\<close> by (metis list.set_intros(1))
  ultimately show ?thesis using z by simp
qed

lemma choose_owner_spec:
  assumes ok: "claims_ok rs cl" and k: "map_of cl key = Some apps"
  shows "domain_owner rs prev key (choose_owner prev key apps)"
proof -
  have apps: "apps = lookup_default [] cl key" using k by (simp add: lookup_default_def)
  note D = claims_okD [OF ok]
  have m: "map_of apps slug = (if claims_domain rs key slug then Some (lowest_id rs key slug) else None)" for slug
    using D(3) apps by simp
  have keys: "slug \<in> fst ` set apps \<longleftrightarrow> claims_domain rs key slug" for slug
    using m [of slug] map_of_eq_None_iff [of apps slug] by (auto split: if_splits)
  have ne: "map fst apps \<noteq> []" using D(4) [of key] k keys by fastforce
  let ?hd = "hd (sort_by (slug_less apps) (map fst apps))"
  have hd: "first_claimant rs key ?hd"
    unfolding first_claimant_def
  proof (intro conjI allI impI)
    show c: "claims_domain rs key ?hd"
      using hd_sorted_least [OF ne, of "hd (map fst apps)" apps] ne keys by (metis hd_in_set list.set_map)
    fix slug assume s: "claims_domain rs key slug"
    then have "slug \<in> set (map fst apps)" using keys by simp
    from hd_sorted_least [OF ne this, of apps] have "slug = ?hd \<or> slug_less apps ?hd slug" by blast
    then show "slug = ?hd \<or> lowest_id rs key ?hd < lowest_id rs key slug \<or>
        lowest_id rs key ?hd = lowest_id rs key slug \<and> ?hd < slug"
      using m [of slug] m [of ?hd] s c by (auto simp: slug_less_def lookup_default_def Let_def split: if_splits)
  qed
  show ?thesis
  proof (cases "map_of prev key")
    case None
    then show ?thesis using hd by (simp add: choose_owner_def domain_owner_def Let_def)
  next
    case (Some p)
    show ?thesis
    proof (cases "claims_domain rs key p")
      case True
      then show ?thesis using Some m [of p] by (simp add: choose_owner_def domain_owner_def lookup_default_def Let_def)
    next
      case False
      then show ?thesis using Some hd m [of p] by (simp add: choose_owner_def domain_owner_def lookup_default_def Let_def)
    qed
  qed
qed

lemma map_of_owners:
  "map_of (map (\<lambda>(key, apps). (key, f key apps)) m) key = map_option (f key) (map_of m key)"
  by (induction m) auto

lemma claimDomains_owner:
  "map_of (snd (claimDomains rs prev)) key = map_option (choose_owner prev key) (map_of (claimants rs) key)"
  by (simp add: claimDomains_def Let_def map_of_owners)

lemma claimDomains_owner_spec:
  assumes "r \<in> set rs"
  shows "\<exists>o1. map_of (snd (claimDomains rs prev)) (normalizeDomain (Domain r)) = Some o1 \<and>
    domain_owner rs prev (normalizeDomain (Domain r)) o1"
proof -
  let ?key = "normalizeDomain (Domain r)"
  have "claims_domain rs ?key (AppSlug r)" using assms by (auto simp: claims_domain_def)
  then obtain apps where "map_of (claimants rs) ?key = Some apps"
    using claims_okD(4) [OF claimants_ok, of rs ?key] by auto
  with choose_owner_spec [OF claimants_ok this] show ?thesis by (simp add: claimDomains_owner)
qed

lemma claimDomains_owners_filter:
  "fst (claimDomains rs prev) = filter (\<lambda>r. domain_owner rs prev (normalizeDomain (Domain r)) (AppSlug r)) rs"
proof -
  have own: "lookup_default [] (snd (claimDomains rs prev)) (normalizeDomain (Domain r)) = AppSlug r \<longleftrightarrow>
      domain_owner rs prev (normalizeDomain (Domain r)) (AppSlug r)" if "r \<in> set rs" for r
    using claimDomains_owner_spec [OF that, of prev] domain_owner_unique
    by (auto simp: lookup_default_def)
  have kept: "fst (claimDomains rs prev) =
      filter (\<lambda>r. lookup_default [] (snd (claimDomains rs prev)) (normalizeDomain (Domain r)) = AppSlug r) rs"
    by (simp add: claimDomains_def Let_def)
  also have "\<dots> = filter (\<lambda>r. domain_owner rs prev (normalizeDomain (Domain r)) (AppSlug r)) rs"
    by (rule filter_cong [OF refl]) (rule own)
  finally show ?thesis .
qed

text \<open>
  Property C21. \<open>claimDomains\<close> leaves one app per domain: it keeps exactly the routes whose app owns
  their domain, in input order, and the owner is the app that owned the domain before if it
  still claims it, and otherwise the claimant with the lowest app ID, the slug breaking
  ties. Every domain of the routes has an owner, so it keeps at least one route.
\<close>

theorem claimDomains_owners:
  "fst (claimDomains rs prev) =
     filter (\<lambda>r. domain_owner rs prev (normalizeDomain (Domain r)) (AppSlug r)) rs \<and>
   list_all (\<lambda>r. list_ex (\<lambda>q. normalizeDomain (Domain q) = normalizeDomain (Domain r)) (fst (claimDomains rs prev)) \<and>
     list_all (\<lambda>q. map_of (snd (claimDomains rs prev)) (normalizeDomain (Domain r)) = Some (AppSlug q))
       (filter (\<lambda>q. normalizeDomain (Domain q) = normalizeDomain (Domain r)) (fst (claimDomains rs prev)))) rs"
proof -
  note k = claimDomains_owners_filter [of rs prev]
  have "list_ex (\<lambda>q. normalizeDomain (Domain q) = normalizeDomain (Domain r)) (fst (claimDomains rs prev))"
    if r: "r \<in> set rs" for r
  proof -
    obtain o1 where o: "domain_owner rs prev (normalizeDomain (Domain r)) o1" using claimDomains_owner_spec [OF r] by blast
    then have "claims_domain rs (normalizeDomain (Domain r)) o1"
      by (auto simp: domain_owner_def first_claimant_def split: option.splits if_splits)
    then obtain q where "q \<in> set rs" "normalizeDomain (Domain q) = normalizeDomain (Domain r)" "AppSlug q = o1"
      by (auto simp: claims_domain_def)
    with o show ?thesis unfolding k list_ex_iff by auto
  qed
  moreover have "map_of (snd (claimDomains rs prev)) (normalizeDomain (Domain r)) = Some (AppSlug q)"
    if h: "r \<in> set rs" "q \<in> set (fst (claimDomains rs prev))" "normalizeDomain (Domain q) = normalizeDomain (Domain r)" for r q
  proof -
    obtain o1 where o: "map_of (snd (claimDomains rs prev)) (normalizeDomain (Domain r)) = Some o1"
      "domain_owner rs prev (normalizeDomain (Domain r)) o1" using claimDomains_owner_spec [OF h(1)] by blast
    moreover have "domain_owner rs prev (normalizeDomain (Domain q)) (AppSlug q)" using h(2) unfolding k by simp
    ultimately show ?thesis using h(3) domain_owner_unique by metis
  qed
  ultimately show ?thesis using k unfolding list_all_iff by auto
qed

text \<open>
  The outcome does not depend on the order of the routes: for the same routes in
  another order, every domain has the same owner and the same routes are kept.
\<close>

theorem claimDomains_order_independent:
  assumes "mset rs = mset rs'"
  shows "map_of (snd (claimDomains rs prev)) = map_of (snd (claimDomains rs' prev)) \<and>
    mset (fst (claimDomains rs prev)) = mset (fst (claimDomains rs' prev))"
proof
  have s: "set rs = set rs'" using assms by (rule mset_eq_setD)
  then have o: "domain_owner rs = domain_owner rs'" by (rule domain_owner_set_cong)
  show "map_of (snd (claimDomains rs prev)) = map_of (snd (claimDomains rs' prev))"
  proof
    fix key
    have none: "map_of (snd (claimDomains xs prev)) key = None \<longleftrightarrow> (\<forall>slug. \<not> claims_domain xs key slug)" for xs
      by (simp add: claimDomains_owner claims_okD(4) [OF claimants_ok])
    show "map_of (snd (claimDomains rs prev)) key = map_of (snd (claimDomains rs' prev)) key"
    proof (cases "\<forall>slug. \<not> claims_domain rs key slug")
      case True
      then have "\<forall>slug. \<not> claims_domain rs' key slug" using s by (simp add: claims_domain_def)
      with True none show ?thesis by metis
    next
      case False
      then obtain r where r: "r \<in> set rs" "normalizeDomain (Domain r) = key" by (auto simp: claims_domain_def)
      then have r': "r \<in> set rs'" using s by simp
      from claimDomains_owner_spec [OF r(1)] claimDomains_owner_spec [OF r'] show ?thesis
        using r(2) o domain_owner_unique by metis
    qed
  qed
  have "mset (filter P rs) = mset (filter P rs')" for P using assms by (simp add: mset_filter)
  then show "mset (fst (claimDomains rs prev)) = mset (fst (claimDomains rs' prev))"
    unfolding claimDomains_owners_filter o by blast
qed

subsection \<open>Updates\<close>

lemma replace_loop_heap: "\<exists>ds. fst (replace_loop reg cfgs (hp, nxt)) = hp @ ds"
proof (induction cfgs arbitrary: hp nxt)
  case (Cons c cfgs)
  obtain d cfg where c: "c = (d, cfg)" by (cases c)
  show ?case
    using Cons.IH [of hp] Cons.IH [of "hp @ [newDomainLimiter cfg]"]
    by (auto simp: c replace_loop_Cons simp del: replace_loop.simps split: option.splits)
qed simp

lemma limiter_replace_heap: "\<exists>ds. heap (limiter_replace cfgs reg) = heap reg @ ds"
  using replace_loop_heap [of reg cfgs "heap reg" "[]"] by (auto simp: limiter_replace_def case_prod_beta)

lemma install_routes_fields:
  "px_config (install_routes routes s) = px_config s"
  "px_routes (install_routes routes s) = fst (claimDomains routes (px_owners s))"
  "px_owners (install_routes routes s) = snd (claimDomains routes (px_owners s))"
  "px_lastKey (install_routes routes s) = px_lastKey s"
  "px_running (install_routes routes s) = px_running s"
  "px_access (install_routes routes s) = access_Replace (route_allow (fst (claimDomains routes (px_owners s))) []) (px_access s)"
  "px_limits (install_routes routes s) = limiter_replace (route_limits (fst (claimDomains routes (px_owners s))) []) (px_limits s)"
  by (simp_all add: install_routes_def registerRouteRules_def case_prod_beta)

lemma reloadLocked_fields:
  "px_config (snd (reloadLocked env f s)) = px_config s" "px_routes (snd (reloadLocked env f s)) = px_routes s"
  "px_owners (snd (reloadLocked env f s)) = px_owners s" "px_access (snd (reloadLocked env f s)) = px_access s"
  "px_limits (snd (reloadLocked env f s)) = px_limits s"
  "fst (reloadLocked env f s) \<noteq> None \<Longrightarrow> px_running (snd (reloadLocked env f s)) = px_running s"
  by (auto simp: reloadLocked_def Let_def split: option.splits)

lemma SetRoutes_cases:
  "SetRoutes env routes s =
     (let t = install_routes (valid_routes routes) s; err = fst (reloadLocked env False t); s' = snd (reloadLocked env False t) in
      (err, if err = None then s'
            else restore_rules (snapshotRouteRules s) (s'\<lparr>px_routes := px_routes s, px_owners := px_owners s\<rparr>)))"
  by (auto simp: SetRoutes_def Let_def split: prod.splits option.splits)

text \<open>
  Property C5. A failed update changes nothing that is served: routes, owners, allowlists, the set
  of limiters and the config Caddy runs are the ones from before, and the limiters keep the
  counters they had.
\<close>

theorem SetRoutes_all_or_nothing:
  assumes "SetRoutes env routes s = (Some err, s')"
  shows "px_routes s' = px_routes s \<and> px_owners s' = px_owners s \<and> px_access s' = px_access s \<and>
    limiters (px_limits s') = limiters (px_limits s) \<and>
    take (length (heap (px_limits s))) (heap (px_limits s')) = heap (px_limits s) \<and>
    px_running s' = px_running s"
proof -
  let ?t = "install_routes (valid_routes routes) s"
  have e: "fst (reloadLocked env False ?t) \<noteq> None"
    and s': "s' = restore_rules (snapshotRouteRules s)
      ((snd (reloadLocked env False ?t))\<lparr>px_routes := px_routes s, px_owners := px_owners s\<rparr>)"
    using assms by (auto simp: SetRoutes_cases Let_def split: if_splits)
  obtain ds where ds: "heap (px_limits ?t) = heap (px_limits s) @ ds"
    using limiter_replace_heap install_routes_fields(7) by metis
  have run: "px_running (snd (reloadLocked env False ?t)) = px_running s"
    using reloadLocked_fields(6) [OF e] install_routes_fields by simp
  show ?thesis
    unfolding s' using ds run
    by (simp add: restore_rules_def snapshotRouteRules_def access_restore_def access_snapshot_def limiter_restore_def
        limiter_snapshot_def reloadLocked_fields)
qed

subsection \<open>Reachable states\<close>

text \<open>The environment (files, what loads) may differ at every step.\<close>

inductive proxy_reachable :: "CaddyConfig \<Rightarrow> (json \<Rightarrow> string option) \<Rightarrow> proxy_state \<Rightarrow> bool" for cfg m where
  start: "proxy_reachable cfg m (NewCaddyProxy cfg \<lparr>heap = [], limiters = []\<rparr> [])"
| set: "proxy_reachable cfg m s \<Longrightarrow> marshal env = m \<Longrightarrow> proxy_reachable cfg m (snd (SetRoutes env routes s))"
| force: "proxy_reachable cfg m s \<Longrightarrow> marshal env = m \<Longrightarrow> proxy_reachable cfg m (snd (ForceReload env s))"
| stop: "proxy_reachable cfg m s \<Longrightarrow> proxy_reachable cfg m (proxy_Stop s)"
| request: "proxy_reachable cfg m s \<Longrightarrow>
    proxy_reachable cfg m (s\<lparr>px_limits := snd (RateLimitHandler_ServeHTTP sha256 now domain r (px_limits s))\<rparr>)"

text \<open>The load key remembers the config Caddy runs; the rules are those of the routes.\<close>

definition proxy_inv :: "CaddyConfig \<Rightarrow> proxy_state \<Rightarrow> bool" where
  "proxy_inv cfg s \<longleftrightarrow> px_config s = cfg \<and>
     (\<forall>k. px_lastKey s = Some k \<longrightarrow> px_running s = Some (takeWhile (\<lambda>c. c \<noteq> newline) k)) \<and>
     px_access s = access_Replace (route_allow (px_routes s) []) [] \<and>
     (\<forall>r \<in> set (px_routes s). validDomain (Domain r) \<and>
        map_of (px_owners s) (normalizeDomain (Domain r)) = Some (AppSlug r))"

lemma cert_prints_line: "cert_prints stat seen rs = [] \<or> hd (cert_prints stat seen rs) = newline"
  by (induction stat seen rs rule: cert_prints.induct) (auto simp: file_print_def split: option.splits)

lemma takeWhile_key:
  assumes "newline \<notin> set data"
  shows "takeWhile (\<lambda>c. c \<noteq> newline) (data @ certFingerprint stat rs) = data"
proof -
  have "takeWhile (\<lambda>c. c \<noteq> newline) (certFingerprint stat rs) = []"
    using cert_prints_line [of stat "{}" "orderRoutes rs"]
    by (cases "certFingerprint stat rs") (auto simp: certFingerprint_def)
  then show ?thesis using assms by (subst takeWhile_append2) auto
qed

text \<open>\<open>json.Marshal\<close> writes compact JSON: no line breaks.\<close>

definition one_line :: "(json \<Rightarrow> string option) \<Rightarrow> bool" where
  "one_line m \<longleftrightarrow> (\<forall>j s. m j = Some s \<longrightarrow> newline \<notin> set s)"

lemma reloadLocked_key:
  assumes m: "one_line (marshal env)"
    and k: "\<forall>k. px_lastKey s = Some k \<longrightarrow> px_running s = Some (takeWhile (\<lambda>c. c \<noteq> newline) k)"
  shows "(\<forall>k. px_lastKey (snd (reloadLocked env f s)) = Some k \<longrightarrow>
      px_running (snd (reloadLocked env f s)) = Some (takeWhile (\<lambda>c. c \<noteq> newline) k)) \<and>
    (fst (reloadLocked env f s) = None \<longrightarrow> px_running (snd (reloadLocked env f s)) = BuildConfigJSON env s)"
proof (cases "BuildConfigJSON env s")
  case None
  then show ?thesis using k by (simp add: reloadLocked_def)
next
  case (Some data)
  then have "newline \<notin> set data" using m by (auto simp: BuildConfigJSON_def one_line_def)
  note tw = takeWhile_key [OF this, of "file_state env" "px_routes s"]
  show ?thesis using Some k tw by (auto simp: reloadLocked_def Let_def)
qed

lemma claimDomains_kept_owner:
  assumes "r \<in> set (fst (claimDomains rs prev))"
  shows "r \<in> set rs \<and> map_of (snd (claimDomains rs prev)) (normalizeDomain (Domain r)) = Some (AppSlug r)"
proof -
  have r: "r \<in> set rs" and o: "domain_owner rs prev (normalizeDomain (Domain r)) (AppSlug r)"
    using assms claimDomains_owners_filter [of rs prev] by auto
  from claimDomains_owner_spec [OF r] obtain o1 where o1: "map_of (snd (claimDomains rs prev)) (normalizeDomain (Domain r)) = Some o1"
    "domain_owner rs prev (normalizeDomain (Domain r)) o1" by blast
  have "o1 = AppSlug r" by (rule domain_owner_unique [OF o1(2) o])
  with r o1(1) show ?thesis by simp
qed

lemma access_Replace_forget: "access_Replace rules reg = access_Replace rules []"
  by (simp add: access_Replace_def)

lemma proxy_inv_installed:
  assumes "proxy_inv cfg s"
  shows "proxy_inv cfg (install_routes (valid_routes routes) s)"
proof -
  have "validDomain (Domain r) \<and> map_of (snd (claimDomains (valid_routes routes) (px_owners s))) (normalizeDomain (Domain r)) = Some (AppSlug r)"
    if "r \<in> set (fst (claimDomains (valid_routes routes) (px_owners s)))" for r
    using claimDomains_kept_owner [OF that] by (simp add: valid_routes_def)
  then show ?thesis
    using assms unfolding proxy_inv_def install_routes_fields access_Replace_forget [of _ "px_access s"] by blast
qed

lemma proxy_inv_reload:
  assumes "proxy_inv cfg s" "one_line (marshal env)"
  shows "proxy_inv cfg (snd (reloadLocked env f s))"
  using assms reloadLocked_key [OF assms(2), of s f] by (simp add: proxy_inv_def reloadLocked_fields)

lemma proxy_inv_SetRoutes:
  assumes inv: "proxy_inv cfg s" and m: "one_line (marshal env)"
  shows "proxy_inv cfg (snd (SetRoutes env routes s))"
proof -
  let ?t = "install_routes (valid_routes routes) s"
  have r: "proxy_inv cfg (snd (reloadLocked env False ?t))"
    by (rule proxy_inv_reload [OF proxy_inv_installed [OF inv] m])
  show ?thesis
  proof (cases "fst (reloadLocked env False ?t) = None")
    case True
    then show ?thesis using r by (simp add: SetRoutes_cases Let_def)
  next
    case False
    then show ?thesis using r inv
      by (simp add: SetRoutes_cases Let_def proxy_inv_def restore_rules_def snapshotRouteRules_def access_restore_def
          access_snapshot_def)
  qed
qed

lemma reachable_inv: "proxy_reachable cfg m s \<Longrightarrow> one_line m \<Longrightarrow> proxy_inv cfg s"
proof (induction rule: proxy_reachable.induct)
  case start
  then show ?case by (simp add: proxy_inv_def NewCaddyProxy_def access_Replace_def)
next
  case (set s env routes)
  then show ?case by (simp add: proxy_inv_SetRoutes)
next
  case (force s env)
  then show ?case by (simp add: proxy_inv_reload ForceReload_def)
qed (simp_all add: proxy_inv_def proxy_Stop_def)

subsection \<open>What Caddy runs\<close>

text \<open>
  Property C22. After a successful update Caddy runs the config built from the routes the proxy keeps
  (the valid ones whose app owns the domain), including when the load was skipped because config and
  certificate files looked unchanged. \<open>json.Marshal\<close> is assumed to write one line.
\<close>

theorem SetRoutes_running:
  assumes "proxy_reachable cfg m s" "one_line m" "marshal env = m" "SetRoutes env routes s = (None, s')"
  shows "px_routes s' = fst (claimDomains (valid_routes routes) (px_owners s)) \<and>
    px_running s' = m (buildConfigFrom cfg (file_state env) (px_routes s'))"
proof -
  let ?t = "install_routes (valid_routes routes) s"
  have inv: "proxy_inv cfg ?t" by (rule proxy_inv_installed [OF reachable_inv [OF assms(1,2)]])
  have n: "fst (reloadLocked env False ?t) = None" and s': "s' = snd (reloadLocked env False ?t)"
    using assms(4) by (auto simp: SetRoutes_cases Let_def split: if_splits)
  have "one_line (marshal env)" using assms(2,3) by simp
  moreover have "\<forall>k. px_lastKey ?t = Some k \<longrightarrow> px_running ?t = Some (takeWhile (\<lambda>c. c \<noteq> newline) k)"
    using inv by (simp add: proxy_inv_def)
  ultimately have "px_running s' = BuildConfigJSON env ?t"
    using reloadLocked_key [of env ?t False] n s' by blast
  moreover have "px_config ?t = cfg" using inv by (simp add: proxy_inv_def)
  ultimately show ?thesis
    using assms(3) s' by (simp add: BuildConfigJSON_def reloadLocked_fields install_routes_fields)
qed

definition example_proxy_env :: proxy_env where
  "example_proxy_env = \<lparr>marshal = (\<lambda>_. Some ''{}''), file_state = (\<lambda>_. None), load_ok = (\<lambda>_. True)\<rparr>"

lemma example_one_line: "one_line (marshal example_proxy_env)"
  by (simp add: one_line_def example_proxy_env_def newline_def char_of_def)

theorem SetRoutes_running_witness:
  "px_running (snd (SetRoutes example_proxy_env [] (NewCaddyProxy example_caddy \<lparr>heap = [], limiters = []\<rparr> []))) = Some ''{}''"
proof -
  let ?s = "NewCaddyProxy example_caddy \<lparr>heap = [], limiters = []\<rparr> []"
  have "fst (SetRoutes example_proxy_env [] ?s) = None"
    by (simp add: SetRoutes_cases Let_def reloadLocked_def BuildConfigJSON_def example_proxy_env_def)
  then have "SetRoutes example_proxy_env [] ?s = (None, snd (SetRoutes example_proxy_env [] ?s))"
    by (metis prod.collapse)
  from SetRoutes_running [OF proxy_reachable.start example_one_line refl this] show ?thesis
    by (simp add: example_proxy_env_def)
qed

theorem SetRoutes_all_or_nothing_witness:
  "px_routes (snd (SetRoutes (example_proxy_env\<lparr>load_ok := \<lambda>_. False\<rparr>) [example_route ''a.b'']
     (NewCaddyProxy example_caddy \<lparr>heap = [], limiters = []\<rparr> []))) = []"
proof -
  let ?env = "example_proxy_env\<lparr>load_ok := \<lambda>_. False\<rparr>"
  let ?s = "NewCaddyProxy example_caddy \<lparr>heap = [], limiters = []\<rparr> []"
  have "fst (SetRoutes ?env [example_route ''a.b''] ?s) = Some LoadFailed"
    by (simp add: SetRoutes_cases Let_def reloadLocked_def BuildConfigJSON_def example_proxy_env_def install_routes_fields
        NewCaddyProxy_def)
  then have "SetRoutes ?env [example_route ''a.b''] ?s = (Some LoadFailed, snd (SetRoutes ?env [example_route ''a.b''] ?s))"
    by (metis prod.collapse)
  from SetRoutes_all_or_nothing [OF this] show ?thesis by (simp add: NewCaddyProxy_def)
qed

theorem claimDomains_order_independent_witness:
  "map_of (snd (claimDomains [example_route ''a.b'', (example_route ''a.b'')\<lparr>AppSlug := ''x''\<rparr>] [])) =
   map_of (snd (claimDomains [(example_route ''a.b'')\<lparr>AppSlug := ''x''\<rparr>, example_route ''a.b''] []))"
  by (rule claimDomains_order_independent [THEN conjunct1]) simp

subsection \<open>Allowlists in force\<close>

lemma route_allow_map:
  "map_of (route_allow rs allow) k = (case map_of allow k of Some v \<Rightarrow> Some v
     | None \<Rightarrow> map_option AllowedIPs (find (\<lambda>r. normalizeDomain (Domain r) = k \<and> AllowedIPs r \<noteq> []) rs))"
  by (induction rs allow rule: route_allow.induct) (auto simp: Let_def split: option.splits)

lemma route_allow_distinct: "gomap_ok allow \<Longrightarrow> gomap_ok (route_allow rs allow)"
  by (induction rs allow rule: route_allow.induct) (auto simp: Let_def)

lemma route_allow_keys:
  assumes "k \<in> fst ` set (route_allow rs [])"
  shows "\<exists>r \<in> set rs. normalizeDomain (Domain r) = k"
proof -
  have "map_of (route_allow rs []) k \<noteq> None" using assms by (simp add: map_of_eq_None_iff)
  then have "find (\<lambda>r. normalizeDomain (Domain r) = k \<and> AllowedIPs r \<noteq> []) rs \<noteq> None"
    by (auto simp: route_allow_map)
  then show ?thesis unfolding find_None_iff by blast
qed

lemma find_normalized:
  assumes "\<forall>d \<in> fst ` set rules. normalizeDomain d = d"
  shows "find (\<lambda>(d, _). normalizeDomain d = k) rules = map_option (Pair k) (map_of rules k)"
  using assms by (induction rules) auto

text \<open>The registry holds, for a normalized domain, the first allowlist its routes carry.\<close>

lemma access_of_routes:
  assumes nn: "\<forall>r \<in> set rs. normalizeDomain (normalizeDomain (Domain r)) = normalizeDomain (Domain r)"
  shows "map_of (access_Replace (route_allow rs []) reg) k =
    map_option (parseAllowlist \<circ> AllowedIPs) (find (\<lambda>r. normalizeDomain (Domain r) = k \<and> AllowedIPs r \<noteq> []) rs)"
proof -
  let ?m = "route_allow rs []"
  have n: "\<forall>d \<in> fst ` set ?m. normalizeDomain d = d"
    using route_allow_keys [of _ rs] nn by metis
  have "map (normalizeDomain \<circ> fst) ?m = map fst ?m" using n by simp
  then have "distinct (map (normalizeDomain \<circ> fst) ?m)" using route_allow_distinct [of "[]" rs] by (simp only: list.map distinct.simps simp_thms)
  then show ?thesis
    by (simp add: access_Replace_def access_replace_loop_map find_normalized [OF n] route_allow_map option.map_comp
        split: option.splits)
qed

text \<open>
  The chain of handlers of a route as Caddy runs it: each handler answers the request or calls
  the next one, and \<open>reverse_proxy\<close> forwards it to the upstream. The result says whether it
  was forwarded, and the limiters after it.
\<close>

definition handler_domain :: "json \<Rightarrow> string" where
  "handler_domain h = (case jpath [''domain''] h of Some (JStr d) \<Rightarrow> d | _ \<Rightarrow> [])"

fun serve ::
  "(string \<Rightarrow> string) \<Rightarrow> instant \<Rightarrow> ip_registry \<Rightarrow> http_request \<Rightarrow> json list \<Rightarrow> limiter_registry \<Rightarrow> bool \<times> limiter_registry" where
  "serve sha256 now access req [] lim = (False, lim)"
| "serve sha256 now access req (h # hs) lim =
     (if jpath [''handler''] h = Some (JStr ''simpledeploy_ipaccess'')
      then (if IPAccessHandler_ServeHTTP (handler_domain h) req access = CalledNext
            then serve sha256 now access req hs lim else (False, lim))
      else if jpath [''handler''] h = Some (JStr ''simpledeploy_ratelimit'')
      then (let (res, lim) = RateLimitHandler_ServeHTTP sha256 now (handler_domain h) req lim
            in if res = CalledNext then serve sha256 now access req hs lim else (False, lim))
      else if jpath [''handler''] h = Some (JStr ''reverse_proxy'') then (True, lim)
      else serve sha256 now access req hs lim)"

lemma serve_route:
  assumes "fst (serve sha256 now access req (route_handlers r) lim)"
  shows "IPAccessHandler_ServeHTTP (normalizeDomain (Domain r)) req access = CalledNext \<and>
    fst (RateLimitHandler_ServeHTTP sha256 now (normalizeDomain (Domain r)) req lim) = CalledNext"
  using assms by (simp add: route_handlers_def handler_domain_def case_prod_beta Let_def split: if_splits)

lemma normalizeDomain_ne: "validDomain d \<Longrightarrow> normalizeDomain d \<noteq> []"
  by (cases d) (auto simp: normalizeDomain_valid trim_suffix_def validDomain_def suffix_def is_alnum_def is_letter_def
      is_digit_def lower_char_eq_nonletter append_eq_Cons_conv split: if_splits)

text \<open>
  Property C10. End to end: in every reachable state of the proxy in which no kept domain ends in two dots and the
  kept routes of an app share one allowlist, as \<open>ResolveRoutes\<close> makes them, a request is forwarded to the upstream of
  a kept route whose allowlist has a valid entry only if its peer address is on that list, and only if the domain's
  rate limiter lets it through. A domain that ends in two dots can take over the list of another (see
  \<open>double_dot_takes_over\<close>).
\<close>

theorem allowlist_enforced:
  assumes reach: "proxy_reachable cfg m s" "one_line m"
    and dots: "\<forall>q \<in> set (px_routes s). \<not> suffix ''..'' (Domain q)"
    and uniform: "\<forall>q \<in> set (px_routes s). \<forall>p \<in> set (px_routes s). AppSlug q = AppSlug p \<longrightarrow> AllowedIPs q = AllowedIPs p"
    and r: "r \<in> set (px_routes s)" "list_ex valid_entry (AllowedIPs r)"
    and fwd: "fst (serve sha256 now (px_access s) req (route_handlers r) (px_limits s))"
  shows "(\<exists>h p ip. split_host_port (RemoteAddr req) = Some (h, p) \<and> parse_ip h = Some ip \<and> names_ip (AllowedIPs r) ip) \<and>
    fst (limiter_AllowFor sha256 now (normalizeDomain (Domain r)) req (px_limits s))"
proof -
  let ?k = "normalizeDomain (Domain r)"
  have inv: "proxy_inv cfg s" by (rule reachable_inv [OF reach])
  then have v: "validDomain (Domain q)" if "q \<in> set (px_routes s)" for q using that by (simp add: proxy_inv_def)
  have nn: "\<forall>q \<in> set (px_routes s). normalizeDomain (normalizeDomain (Domain q)) = normalizeDomain (Domain q)"
    using v dots normalizeDomain_idem by blast
  have kne: "?k \<noteq> []" using normalizeDomain_ne v r(1) by blast
  have "AllowedIPs r \<noteq> []" using r(2) by auto
  then have "find (\<lambda>q. normalizeDomain (Domain q) = ?k \<and> AllowedIPs q \<noteq> []) (px_routes s) \<noteq> None"
    using r(1) by (auto simp: find_None_iff)
  then obtain q where q: "find (\<lambda>q. normalizeDomain (Domain q) = ?k \<and> AllowedIPs q \<noteq> []) (px_routes s) = Some q" by blast
  then have q': "q \<in> set (px_routes s)" "normalizeDomain (Domain q) = ?k" by (auto simp: find_Some_iff)
  have "map_of (px_owners s) ?k = Some (AppSlug q)" "map_of (px_owners s) ?k = Some (AppSlug r)"
    using inv q' r(1) unfolding proxy_inv_def by metis+
  then have "AppSlug q = AppSlug r" by simp
  then have "AllowedIPs q = AllowedIPs r" using uniform q'(1) r(1) by blast
  then have "map_of (px_access s) ?k = Some (parseAllowlist (AllowedIPs r))"
    using inv access_of_routes [OF nn, of "[]" ?k] q by (simp add: proxy_inv_def)
  then have "access_allows (parseAllowlist (AllowedIPs r)) req"
    using serve_route [OF fwd] kne nn r(1)
    by (simp add: IPAccessHandler_ServeHTTP_def access_AllowedFor_def split: if_splits)
  moreover have "\<not> (\<forall>e \<in> set (AllowedIPs r). \<not> valid_entry e)" using r(2) by (auto simp: list_ex_iff)
  ultimately have "\<exists>h p ip. split_host_port (RemoteAddr req) = Some (h, p) \<and> parse_ip h = Some ip \<and> names_ip (AllowedIPs r) ip"
    unfolding access_allows_parsed by blast
  moreover have "fst (limiter_AllowFor sha256 now ?k req (px_limits s))"
    using serve_route [OF fwd] kne by (simp add: RateLimitHandler_ServeHTTP_def case_prod_beta split: if_splits)
  ultimately show ?thesis by blast
qed

definition example_guarded :: Route where
  "example_guarded = (example_route ''a.b'')\<lparr>AllowedIPs := [''10.0.0.0/8'']\<rparr>"

definition example_running :: proxy_state where
  "example_running = snd (SetRoutes example_proxy_env [example_guarded]
     (NewCaddyProxy example_caddy \<lparr>heap = [], limiters = []\<rparr> []))"

definition example_request :: http_request where
  "example_request = \<lparr>Method = ''GET'', Host = ''a.b'', RemoteAddr = ''10.0.0.9:5'', Header = [], URL_Path = ''/'', TLS_state = False\<rparr>"

lemma normalize_ab: "normalizeDomain ''a.b'' = ''a.b''"
  by (simp add: normalizeDomain_def go_simps Let_def)

lemma example_kept: "fst (claimDomains (valid_routes [example_guarded]) []) = [example_guarded]"
  by (simp add: claimDomains_def valid_routes_def validDomain_def example_guarded_def example_route_def claimants_def
      claim_route_def lookup_default_def choose_owner_def normalize_ab go_simps Let_def)

lemma example_running_fields:
  "px_routes example_running = [example_guarded]"
  "px_access example_running = [(''a.b'', parseAllowlist [''10.0.0.0/8''])]"
  "limiters (px_limits example_running) = []"
proof -
  let ?s = "NewCaddyProxy example_caddy \<lparr>heap = [], limiters = []\<rparr> []"
  let ?t = "install_routes (valid_routes [example_guarded]) ?s"
  have o: "px_owners ?s = []" by (simp add: NewCaddyProxy_def)
  have "fst (reloadLocked example_proxy_env False ?t) = None"
    by (simp add: reloadLocked_def BuildConfigJSON_def example_proxy_env_def Let_def)
  then have e: "example_running = snd (reloadLocked example_proxy_env False ?t)"
    by (simp add: example_running_def SetRoutes_cases Let_def)
  show "px_routes example_running = [example_guarded]"
    unfolding e reloadLocked_fields install_routes_fields o by (rule example_kept)
  show "px_access example_running = [(''a.b'', parseAllowlist [''10.0.0.0/8''])]"
    unfolding e reloadLocked_fields install_routes_fields o example_kept
    by (simp add: example_guarded_def example_route_def access_Replace_def normalize_ab)
  show "limiters (px_limits example_running) = []"
    unfolding e reloadLocked_fields install_routes_fields o example_kept
    by (simp add: example_guarded_def example_route_def limiter_replace_def)
qed

theorem allowlist_enforced_witness:
  "\<exists>h p ip. split_host_port (RemoteAddr example_request) = Some (h, p) \<and> parse_ip h = Some ip \<and>
     names_ip (AllowedIPs example_guarded) ip"
proof -
  have reach: "proxy_reachable example_caddy (marshal example_proxy_env) example_running"
    unfolding example_running_def by (rule proxy_reachable.set [OF proxy_reachable.start]) simp
  have al: "access_allows (parseAllowlist [''10.0.0.0/8'']) example_request"
    by (simp add: access_allows_def parseAllowlist_def example_request_def go_simps Let_def)
  have "fst (serve (\<lambda>s. s) 0 (px_access example_running) example_request (route_handlers example_guarded) (px_limits example_running))"
    using al example_running_fields
    by (simp add: route_handlers_def handler_domain_def securityHeaderHandlers_def defaultSecurityHeaders_def hstsHeader_def
        security_handler_def reverseProxyHandler_def IPAccessHandler_ServeHTTP_def access_AllowedFor_def
        RateLimitHandler_ServeHTTP_def limiter_AllowFor_def example_guarded_def example_route_def normalize_ab Let_def)
  moreover have "list_ex valid_entry (AllowedIPs example_guarded)"
    by (simp add: valid_entry_def example_guarded_def go_simps Let_def)
  moreover have "\<forall>q \<in> set (px_routes example_running). \<not> suffix ''..'' (Domain q)"
    by (simp add: example_running_fields example_guarded_def example_route_def go_simps)
  ultimately show ?thesis
    using allowlist_enforced [OF reach example_one_line, of example_guarded] example_running_fields(1) by auto
qed

text \<open>
  Why the property asks for domains without two dots at the end: \<open>validDomainRe\<close> accepts them, and
  their canonical form still ends in a dot. \<open>claimDomains\<close> then takes \<open>v.c..\<close> and \<open>v.c\<close> for two
  domains, but the registries normalize the rule keys a second time, so the allowlist of the
  one replaces that of the other.
\<close>

lemma double_dot_takes_over:
  "map_of (access_Replace (route_allow
     [(example_route ''v.c'')\<lparr>AllowedIPs := [''10.0.0.1'']\<rparr>,
      (example_route ''v.c..'')\<lparr>AppSlug := ''other'', AllowedIPs := [''0.0.0.0/0'']\<rparr>] []) []) ''v.c'' =
   Some (parseAllowlist [''0.0.0.0/0''])"
proof -
  have "normalizeDomain ''v.c'' = ''v.c''" "normalizeDomain ''v.c..'' = ''v.c.''" "normalizeDomain ''v.c.'' = ''v.c''"
    by (simp_all add: normalizeDomain_def go_simps Let_def)
  then show ?thesis by (simp add: access_Replace_def example_route_def Let_def)
qed

end
