(* ===== verification/Mirror.thy ===== *)
theory Mirror
  imports GoPath
begin

text \<open>
  internal/mirror/rewrite.go: the two line rewritings a compose file goes through before it is stored.
  Both regular expressions match whole lines, without ambiguity, so each is a parser of one line; the file
  is rewritten line by line.
\<close>

definition line_end :: char where
  "line_end = CHR 0x0A"

definition on_lines :: "(string \<Rightarrow> string) \<Rightarrow> string \<Rightarrow> string" where
  "on_lines f s = join_with [line_end] (map f (split_on line_end s))"

definition is_blank :: "char \<Rightarrow> bool" where
  "is_blank c \<longleftrightarrow> c = CHR '' '' \<or> c = CHR 0x09"

definition is_quote :: "char \<Rightarrow> bool" where
  "is_quote c \<longleftrightarrow> c = CHR 0x27 \<or> c = CHR 0x22"

text \<open>An optional quote at the front, and a tail of blanks with an optional comment.\<close>

definition quote_of :: "string \<Rightarrow> string" where
  "quote_of s = (case s of c # _ \<Rightarrow> if is_quote c then [c] else [] | [] \<Rightarrow> [])"

definition after_quote :: "string \<Rightarrow> string" where
  "after_quote s = drop (length (quote_of s)) s"

definition comment_tail :: "string \<Rightarrow> bool" where
  "comment_tail s \<longleftrightarrow> (case dropWhile is_blank s of [] \<Rightarrow> True | c # _ \<Rightarrow> c = CHR ''#'')"

subsection \<open>Ports\<close>

definition after_protocol :: "string \<Rightarrow> string option" where
  "after_protocol s =
     (case s of
        c # r \<Rightarrow>
          if c = CHR ''/''
          then (if takeWhile (\<lambda>c. CHR ''a'' \<le> c \<and> c \<le> CHR ''z'') r = [] then None
                else Some (dropWhile (\<lambda>c. CHR ''a'' \<le> c \<and> c \<le> CHR ''z'') r))
          else Some s
      | [] \<Rightarrow> Some [])"

definition port_mapping :: "string \<Rightarrow> bool" where
  "port_mapping s \<longleftrightarrow>
     takeWhile is_digit s \<noteq> [] \<and>
     (case dropWhile is_digit s of
        [] \<Rightarrow> False
      | c # r \<Rightarrow> c = CHR '':'' \<and> takeWhile is_digit r \<noteq> [] \<and>
          (case after_protocol (dropWhile is_digit r) of None \<Rightarrow> False | Some t \<Rightarrow> comment_tail (after_quote t)))"

definition loopback :: string where
  "loopback = ''127.0.0.1:''"

text \<open>The front of a list entry up to its opening quote, and the value behind it.\<close>

definition list_entry :: "string \<Rightarrow> (string \<times> string) option" where
  "list_entry l =
     (case dropWhile is_blank l of
        [] \<Rightarrow> None
      | c # r \<Rightarrow>
          if c = CHR ''-'' \<and> takeWhile is_blank l \<noteq> [] \<and> takeWhile is_blank r \<noteq> []
          then (let v = dropWhile is_blank r
                in Some (takeWhile is_blank l @ [c] @ takeWhile is_blank r @ quote_of v, after_quote v))
          else None)"

definition rewrite_port_line :: "string \<Rightarrow> string" where
  "rewrite_port_line l =
     (case list_entry l of
        None \<Rightarrow> l
      | Some (pre, v) \<Rightarrow> if port_mapping v then pre @ loopback @ v else l)"

definition RewritePortsLoopback :: "string \<Rightarrow> string" where
  "RewritePortsLoopback composeYAML = on_lines rewrite_port_line composeYAML"

subsection \<open>Images\<close>

definition isRegistryHost :: "string \<Rightarrow> bool" where
  "isRegistryHost s \<longleftrightarrow> s = ''localhost'' \<or> contains_any s ''.:''"

definition rewriteRef :: "string \<Rightarrow> string \<Rightarrow> string option" where
  "rewriteRef ref mirror =
     (if ref = [] then None
      else if prefix mirror ref then None
      else let (first, rest, hasSlash) = cut_at CHR ''/'' ref in
        if hasSlash \<and> isRegistryHost first
        then (if first = ''docker.io'' then Some (mirror @ trim_prefix rest ''library/'') else None)
        else Some (mirror @ ref))"

definition image_char :: "char \<Rightarrow> bool" where
  "image_char c \<longleftrightarrow> \<not> is_quote c \<and> c \<noteq> CHR ''#''"

text \<open>
  The groups of a matched line: front with opening quote, value, rest. The value is as short as the rest
  of the line allows: without the blanks before a comment or the end of the line, but up to a closing quote.
\<close>

definition image_line :: "string \<Rightarrow> (string \<times> string \<times> string) option" where
  "image_line l =
     (let ind = takeWhile is_blank l; r = dropWhile is_blank l in
      if ind = [] \<or> \<not> prefix ''image:'' r then None
      else let r1 = drop (length ''image:'') r; sp = takeWhile is_blank r1; r2 = dropWhile is_blank r1;
               v = takeWhile image_char (after_quote r2); t = dropWhile image_char (after_quote r2);
               pre = ind @ ''image:'' @ sp @ quote_of r2
           in if v = [] then None
              else if quote_of t \<noteq> [] then (if comment_tail (after_quote t) then Some (pre, v, t) else None)
              else let v' = drop_end_while is_blank v in
                Some (pre, (if v' = [] then [hd v] else v'), drop (length (if v' = [] then [hd v] else v')) v @ t))"

definition rewrite_image_line :: "string \<Rightarrow> string \<Rightarrow> string" where
  "rewrite_image_line mirror l =
     (case image_line l of
        None \<Rightarrow> l
      | Some (pre, v, post) \<Rightarrow> (case rewriteRef (trim_space v) mirror of None \<Rightarrow> l | Some ref \<Rightarrow> pre @ ref @ post))"

definition RewriteCompose :: "string \<Rightarrow> string \<Rightarrow> string" where
  "RewriteCompose composeYAML mirror =
     (if mirror = [] then composeYAML
      else on_lines (rewrite_image_line (if suffix ''/'' mirror then mirror else mirror @ ''/'')) composeYAML)"

subsection \<open>Rewriting by lines\<close>

lemma lines_on_lines:
  assumes "\<And>l. line_end \<notin> set l \<Longrightarrow> line_end \<notin> set (f l)"
  shows "split_on line_end (on_lines f s) = map f (split_on line_end s)"
  unfolding on_lines_def using assms split_on_elem by (intro split_join) (fastforce simp: list_all_iff)+

lemma on_lines_idem:
  assumes "\<And>l. line_end \<notin> set l \<Longrightarrow> line_end \<notin> set (f l)" "\<And>l. f (f l) = f l"
  shows "on_lines f (on_lines f s) = on_lines f s"
proof -
  have "map f (split_on line_end (on_lines f s)) = map f (split_on line_end s)"
    by (simp add: lines_on_lines [OF assms(1)] assms(2))
  then show ?thesis by (simp add: on_lines_def)
qed

lemma dropWhile_takeWhile: "dropWhile P (takeWhile P xs @ ys) = dropWhile P ys"
  by (induction xs) auto

lemma takeWhile_takeWhile_append: "takeWhile P (takeWhile P xs @ ys) = takeWhile P xs @ takeWhile P ys"
  by (induction xs) auto

lemma quote_after: "quote_of s @ after_quote s = s"
  by (cases s) (auto simp: quote_of_def after_quote_def)

lemma quote_of_cases: "quote_of s = [] \<or> (\<exists>c. quote_of s = [c] \<and> is_quote c)"
  by (cases s) (auto simp: quote_of_def)

lemma quote_of_again: "(v = [] \<or> \<not> is_quote (hd v)) \<Longrightarrow> quote_of (quote_of s @ v) = quote_of s \<and> after_quote (quote_of s @ v) = v"
  using quote_of_cases [of s] by (cases v) (auto simp: quote_of_def after_quote_def split: list.splits)

lemma list_entry_parts:
  assumes "list_entry l = Some (pre, v)"
  shows "l = pre @ v"
proof -
  obtain r where r: "dropWhile is_blank l = CHR ''-'' # r" and
      e: "pre = takeWhile is_blank l @ CHR ''-'' # takeWhile is_blank r @ quote_of (dropWhile is_blank r)" "v = after_quote (dropWhile is_blank r)"
    using assms by (auto simp: list_entry_def Let_def split: list.splits if_splits)
  have "l = takeWhile is_blank l @ CHR ''-'' # takeWhile is_blank r @ dropWhile is_blank r"
    by (metis r takeWhile_dropWhile_id)
  then show ?thesis using quote_after [of "dropWhile is_blank r"] unfolding e by (metis append.assoc append_Cons)
qed

lemma list_entry_again:
  assumes "list_entry l = Some (pre, v)" "w \<noteq> []" "\<not> is_blank (hd w)" "\<not> is_quote (hd w)"
  shows "list_entry (pre @ w) = Some (pre, w)"
proof -
  obtain r where r: "dropWhile is_blank l = CHR ''-'' # r" and ne: "takeWhile is_blank l \<noteq> []" "takeWhile is_blank r \<noteq> []" and
      e: "pre = takeWhile is_blank l @ CHR ''-'' # takeWhile is_blank r @ quote_of (dropWhile is_blank r)"
    using assms(1) by (auto simp: list_entry_def Let_def split: list.splits if_splits)
  let ?q = "quote_of (dropWhile is_blank r)"
  have nb: "\<not> is_blank CHR ''-''" "is_quote c \<Longrightarrow> \<not> is_blank c" for c by (auto simp: is_blank_def is_quote_def)
  have qw: "takeWhile is_blank (?q @ w) = []" "dropWhile is_blank (?q @ w) = ?q @ w"
    using quote_of_cases [of "dropWhile is_blank r"] assms(2,3) nb(2) by (cases w; auto)+
  have "quote_of (?q @ w) = ?q \<and> after_quote (?q @ w) = w" using assms(2,4) by (intro quote_of_again) auto
  then show ?thesis
    using ne nb(1) qw unfolding e
    by (simp add: list_entry_def Let_def dropWhile_takeWhile takeWhile_takeWhile_append)
qed

subsection \<open>Every plain port entry is pinned to the loopback interface\<close>

lemma loopback_not_mapping: "\<not> port_mapping (loopback @ v)"
  by (simp add: port_mapping_def loopback_def is_digit_def)

lemma rewrite_port_line_done:
  assumes "list_entry (rewrite_port_line l) = Some (pre, v)"
  shows "\<not> port_mapping v"
proof (cases "\<exists>p w. list_entry l = Some (p, w) \<and> port_mapping w")
  case True
  then obtain p w where l: "list_entry l = Some (p, w)" "port_mapping w" by blast
  have "list_entry (p @ loopback @ w) = Some (p, loopback @ w)"
    by (rule list_entry_again [OF l(1)]) (simp_all add: loopback_def is_blank_def is_quote_def)
  moreover have "rewrite_port_line l = p @ loopback @ w" using l by (simp add: rewrite_port_line_def)
  ultimately show ?thesis using assms loopback_not_mapping [of w] by auto
next
  case False
  then have "rewrite_port_line l = l" by (auto simp: rewrite_port_line_def split: option.splits)
  with False assms show ?thesis by auto
qed

lemma rewrite_port_line_idem: "rewrite_port_line (rewrite_port_line l) = rewrite_port_line l"
  by (subst rewrite_port_line_def) (auto split: option.split dest: rewrite_port_line_done)

lemma rewrite_port_line_end: "line_end \<notin> set l \<Longrightarrow> line_end \<notin> set (rewrite_port_line l)"
proof (cases "list_entry l")
  case (Some p)
  then obtain pre v where p: "list_entry l = Some (pre, v)" by (cases p) auto
  assume "line_end \<notin> set l"
  moreover have "set l = set pre \<union> set v" using list_entry_parts [OF p] by simp
  moreover have "rewrite_port_line l = (if port_mapping v then pre @ loopback @ v else l)" by (simp add: rewrite_port_line_def p)
  moreover have "line_end \<notin> set loopback" by (simp add: loopback_def line_end_def)
  ultimately show ?thesis by simp
qed (simp add: rewrite_port_line_def)

text \<open>
  After the rewriting no line of a compose file publishes a port with a plain host:container
  list entry: each such entry got the loopback address in front, every other line is as it was, and
  rewriting again changes nothing.
\<close>

theorem ports_pinned:
  "split_on line_end (RewritePortsLoopback s) =
     map (\<lambda>l. case list_entry l of Some (pre, v) \<Rightarrow> if port_mapping v then pre @ loopback @ v else l | None \<Rightarrow> l) (split_on line_end s) \<and>
   (\<forall>l \<in> set (split_on line_end (RewritePortsLoopback s)). \<forall>pre v. list_entry l = Some (pre, v) \<longrightarrow> \<not> port_mapping v) \<and>
   RewritePortsLoopback (RewritePortsLoopback s) = RewritePortsLoopback s"
proof -
  have "split_on line_end (RewritePortsLoopback s) = map rewrite_port_line (split_on line_end s)"
    unfolding RewritePortsLoopback_def by (rule lines_on_lines) (rule rewrite_port_line_end)
  moreover have "rewrite_port_line = (\<lambda>l. case list_entry l of Some (pre, v) \<Rightarrow> if port_mapping v then pre @ loopback @ v else l | None \<Rightarrow> l)"
    by (auto simp: rewrite_port_line_def fun_eq_iff split: option.splits)
  moreover have "RewritePortsLoopback (RewritePortsLoopback s) = RewritePortsLoopback s"
    unfolding RewritePortsLoopback_def by (rule on_lines_idem) (rule rewrite_port_line_end rewrite_port_line_idem, assumption?)+
  ultimately show ?thesis using rewrite_port_line_done by auto
qed

theorem ports_pinned_witness:
  "RewritePortsLoopback ''      - 8080:80 # web'' = ''      - 127.0.0.1:8080:80 # web'' \<and>
   list_entry ''      - 127.0.0.1:8080:80 # web'' = Some (''      - '', ''127.0.0.1:8080:80 # web'') \<and>
   \<not> port_mapping ''127.0.0.1:8080:80 # web''"
proof -
  have e: "RewritePortsLoopback ''      - 8080:80 # web'' = ''      - 127.0.0.1:8080:80 # web''"
    "list_entry ''      - 127.0.0.1:8080:80 # web'' = Some (''      - '', ''127.0.0.1:8080:80 # web'')"
    "split_on line_end ''      - 127.0.0.1:8080:80 # web'' = [''      - 127.0.0.1:8080:80 # web'']"
    by code_simp+
  then show ?thesis using ports_pinned [of "''      - 8080:80 # web''"] by simp
qed

text \<open>A range of ports is no plain entry and stays published on every interface.\<close>

lemma port_range_unpinned: "RewritePortsLoopback ''    - 8000-8010:8000-8010'' = ''    - 8000-8010:8000-8010''"
  by code_simp

lemma image_examples:
  "RewriteCompose ''    image: nginx:1 # web'' ''ghcr.io/m'' = ''    image: ghcr.io/m/nginx:1 # web''"
  "RewriteCompose ''    image: docker.io/library/nginx'' ''ghcr.io/m/'' = ''    image: ghcr.io/m/nginx''"
  "RewriteCompose ''    image: quay.io/x/y'' ''ghcr.io/m/'' = ''    image: quay.io/x/y''"
  by code_simp+

end
