(* ===== verification/Reconciler.thy ===== *)
theory Reconciler
  imports Deployer AppStore Inject Proxy Mirror
begin

text \<open>
  internal/reconciler/reconciler.go with internal/fsutil: keeping the running apps, the store and the proxy
  routes in line with the apps folder. The state holds the files of the apps folder, the store, the deployer,
  the proxy and the queue of retries. Deploys that the code starts in parallel run one after the other here,
  in the order of the map; what runs later in a goroutine (the route refresh after a deploy, the retry behind a
  running deploy) is queued and is an operation of its own. The configuration syncer is nil. What the
  reconciler does not decide (hashing, YAML codec, registry credentials, the clock) is in the environment.
\<close>

subsection \<open>Files\<close>

datatype fnode = Missing | RegularF string | LinkF "string option" | OtherF | UnreadableF | UnstatableF

text \<open>
  \<open>ReadRegularFile\<close>, \<open>os.ReadFile\<close>, \<open>os.Stat\<close> and \<open>WriteFileAtomic\<close>: reads without and through a link. A stat
  can also fail for another reason than a missing file (\<open>UnstatableF\<close>: no permission, an input/output error).
\<close>

definition ReadRegularFile :: "(string \<Rightarrow> fnode) \<Rightarrow> string \<Rightarrow> file_read" where
  "ReadRegularFile files p =
     (case files p of Missing \<Rightarrow> FileNotExist | RegularF c \<Rightarrow> FileData c | LinkF _ \<Rightarrow> FileNotRegular
      | OtherF \<Rightarrow> FileNotRegular | UnreadableF \<Rightarrow> FileError | UnstatableF \<Rightarrow> FileError)"

definition ReadFile :: "(string \<Rightarrow> fnode) \<Rightarrow> string \<Rightarrow> file_read" where
  "ReadFile files p =
     (case files p of Missing \<Rightarrow> FileNotExist | RegularF c \<Rightarrow> FileData c | LinkF (Some c) \<Rightarrow> FileData c | LinkF None \<Rightarrow> FileNotExist
      | OtherF \<Rightarrow> FileError | UnreadableF \<Rightarrow> FileError | UnstatableF \<Rightarrow> FileError)"

definition stat_missing :: "(string \<Rightarrow> fnode) \<Rightarrow> string \<Rightarrow> bool" where
  "stat_missing files p \<longleftrightarrow> files p = Missing \<or> files p = LinkF None"

definition stat_fails :: "(string \<Rightarrow> fnode) \<Rightarrow> string \<Rightarrow> bool" where
  "stat_fails files p \<longleftrightarrow> stat_missing files p \<or> files p = UnstatableF"

record recon_env =
  rv_dep :: deploy_env
  rv_sql :: sql_env
  rv_appsDir :: string
  rv_hash :: "string \<Rightarrow> string"
  rv_decode :: "string \<Rightarrow> ynode option option"
  rv_encode :: "ynode \<Rightarrow> string option"
  rv_unwritable :: "string \<Rightarrow> bool"
  rv_master :: string
  rv_registries :: "string list"
  rv_registry :: "string \<Rightarrow> RegistryAuth option"
  rv_routes :: route_env
  rv_proxy :: proxy_env
  rv_now :: instant
  rv_mirror :: string
  rv_noLoopback :: bool

record recon =
  rs_files :: "string \<Rightarrow> fnode"
  rs_entries :: "(string \<times> bool) list option"
  rs_db :: app_db
  rs_dep :: Deployer
  rs_proxy :: "proxy_state option"
  rs_retrying :: "string list"
  rs_refreshes :: nat
  rs_archived :: "(int option \<times> string) list"
  rs_bus :: "string list"

definition WriteFileAtomic :: "recon_env \<Rightarrow> string \<Rightarrow> string \<Rightarrow> recon \<Rightarrow> bool \<times> recon" where
  "WriteFileAtomic env p data s =
     (if rv_unwritable env p then (False, s) else (True, s\<lparr>rs_files := (rs_files s)(p := RegularF data)\<rparr>))"

text \<open>The deployer and the parser see the files as they are now.\<close>

definition dep_env :: "recon_env \<Rightarrow> recon \<Rightarrow> deploy_env" where
  "dep_env env s = (rv_dep env)\<lparr>dv_files := (\<lambda>_. ReadRegularFile (rs_files s))\<rparr>"

definition parse_of :: "recon_env \<Rightarrow> recon \<Rightarrow> parse_env" where
  "parse_of env s = dv_parse (rv_dep env) (dp_trace (rs_dep s))"

definition compose_file :: "recon_env \<Rightarrow> string \<Rightarrow> string" where
  "compose_file env name = join_path [rv_appsDir env, name, ''docker-compose.yml'']"

definition parse_file :: "recon_env \<Rightarrow> recon \<Rightarrow> string \<Rightarrow> string \<Rightarrow> parse_error + AppConfig" where
  "parse_file env s = ParseFile (parse_of env s) (ReadRegularFile (rs_files s))"

definition security_violations :: "recon_env \<Rightarrow> recon \<Rightarrow> AppConfig \<Rightarrow> violation list" where
  "security_violations env s cfg =
     ValidateComposeSecurity (dv_fs (rv_dep env) (dp_trace (rs_dep s))) (dv_protected (rv_dep env)) (Some cfg)"

subsection \<open>Scanning the apps folder\<close>

definition sharedNetworkName :: string where
  "sharedNetworkName = ''simpledeploy-public''"

definition ensureSharedNetwork :: "recon_env \<Rightarrow> string \<Rightarrow> recon \<Rightarrow> bool \<times> recon" where
  "ensureSharedNetwork env path s =
     (case ReadRegularFile (rs_files s) path of
        FileData content \<Rightarrow>
          (case InjectSharedNetwork (rv_decode env) (rv_encode env) content sharedNetworkName of
             InjectError \<Rightarrow> (False, s)
           | Injected changed out \<Rightarrow> if \<not> changed then (False, s) else WriteFileAtomic env path out s)
      | _ \<Rightarrow> (False, s))"

definition parseNoDotEnv :: "recon_env \<Rightarrow> recon \<Rightarrow> string \<Rightarrow> string \<Rightarrow> bool \<Rightarrow> parse_error + AppConfig" where
  "parseNoDotEnv env s composePath name followLink =
     (case (if followLink then ReadFile else ReadRegularFile) (rs_files s) composePath of
        FileData content \<Rightarrow> ParseContent (parse_of env s) content composePath name None
      | err \<Rightarrow> Inl (ReadFailed err))"

datatype scan_entry = ScanSkipped | ScanDesired AppConfig | ScanRefused AppConfig

definition scan_parsed :: "recon_env \<Rightarrow> string \<Rightarrow> parse_error + AppConfig \<Rightarrow> recon \<Rightarrow> scan_entry" where
  "scan_parsed env name r s =
     (case r of
        Inl err \<Rightarrow>
          if is_violation err
          then (case ParseForRoutes (parse_of env s) (ReadRegularFile (rs_files s)) (compose_file env name) name of
                  Inr routes \<Rightarrow> ScanRefused routes | Inl _ \<Rightarrow> ScanSkipped)
          else ScanSkipped
      | Inr cfg \<Rightarrow> if security_violations env s cfg \<noteq> [] then ScanRefused cfg else ScanDesired cfg)"

definition scan_app :: "recon_env \<Rightarrow> string \<Rightarrow> recon \<Rightarrow> scan_entry \<times> recon" where
  "scan_app env name s =
     (let path = compose_file env name in
      if stat_missing (rs_files s) path then (ScanSkipped, s)
      else let s1 = snd (ensureSharedNetwork env path s) in
        ((case parse_file env s1 path name of
            Inl err \<Rightarrow>
              if is_dotenv_error err then scan_parsed env name (parseNoDotEnv env s1 path name False) s1
              else if is_not_regular err
                then (case parseNoDotEnv env s1 path name True of
                        Inr linked \<Rightarrow> ScanRefused linked
                      | Inl _ \<Rightarrow> scan_parsed env name (Inl err) s1)
              else scan_parsed env name (Inl err) s1
          | Inr cfg \<Rightarrow> scan_parsed env name (Inr cfg) s1), s1))"

record scanResult =
  sn_desired :: "(string \<times> AppConfig) list"
  sn_refused :: "(string \<times> AppConfig) list"

definition add_scanned :: "string \<Rightarrow> scan_entry \<Rightarrow> scanResult \<Rightarrow> scanResult" where
  "add_scanned name r acc =
     (case r of
        ScanSkipped \<Rightarrow> acc
      | ScanDesired cfg \<Rightarrow> acc\<lparr>sn_desired := sn_desired acc @ [(name, cfg)]\<rparr>
      | ScanRefused cfg \<Rightarrow> acc\<lparr>sn_refused := sn_refused acc @ [(name, cfg)]\<rparr>)"

fun scan_entries :: "recon_env \<Rightarrow> (string \<times> bool) list \<Rightarrow> scanResult \<Rightarrow> recon \<Rightarrow> scanResult \<times> recon" where
  "scan_entries env [] acc s = (acc, s)"
| "scan_entries env ((name, isDir) # es) acc s =
     (if \<not> isDir \<or> prefix ''.'' name then scan_entries env es acc s
      else let (r, s1) = scan_app env name s in scan_entries env es (add_scanned name r acc) s1)"

definition scanAppsDir :: "recon_env \<Rightarrow> recon \<Rightarrow> scanResult option \<times> recon" where
  "scanAppsDir env s =
     (case rs_entries s of
        None \<Rightarrow> (None, s)
      | Some es \<Rightarrow> let (r, s1) = scan_entries env es \<lparr>sn_desired = [], sn_refused = []\<rparr> s in (Some r, s1))"

subsection \<open>Routes\<close>

text \<open>The hash of a file; \<open>None\<close> is an error, which the callers that ignore it read as the empty string.\<close>

definition hashFile :: "recon_env \<Rightarrow> recon \<Rightarrow> string \<Rightarrow> string option" where
  "hashFile env s path = (case ReadRegularFile (rs_files s) path of FileData d \<Rightarrow> Some (rv_hash env d) | _ \<Rightarrow> None)"

definition hashLinkedFile :: "recon_env \<Rightarrow> recon \<Rightarrow> string \<Rightarrow> string option" where
  "hashLinkedFile env s path = (case ReadFile (rs_files s) path of FileData d \<Rightarrow> Some (rv_hash env d) | _ \<Rightarrow> None)"

definition keeps_routes :: "recon_env \<Rightarrow> recon \<Rightarrow> string \<times> AppConfig \<Rightarrow> bool" where
  "keeps_routes env s = (\<lambda>(slug, cfg).
     case GetApp (rv_sql env) slug (rs_db s) of
       Inl _ \<Rightarrow> False
     | Inr existing \<Rightarrow>
         app_ArchivedAt existing = None \<and> app_ComposeHash existing \<noteq> [] \<and>
         (let path = a_compose_path cfg;
              h = (if ReadRegularFile (rs_files s) path = FileNotRegular then hashLinkedFile env s path else hashFile env s path)
          in h = Some (app_ComposeHash existing)))"

definition withRouteOnlyApps :: "recon_env \<Rightarrow> recon \<Rightarrow> scanResult \<Rightarrow> (string \<times> AppConfig) list" where
  "withRouteOnlyApps env s scan =
     (if sn_refused scan = [] then sn_desired scan
      else sn_desired scan @ filter (\<lambda>p. map_of (sn_desired scan) (fst p) = None \<and> keeps_routes env s p) (sn_refused scan))"

definition appIDs :: "recon_env \<Rightarrow> recon \<Rightarrow> (string \<times> int) list" where
  "appIDs env s = (case ListApps (rv_sql env) (rs_db s) of Inl _ \<Rightarrow> [] | Inr apps \<Rightarrow> map (\<lambda>a. (app_Slug a, app_ID a)) apps)"

definition app_routes_of :: "recon_env \<Rightarrow> recon \<Rightarrow> (string \<times> AppConfig) list \<Rightarrow> Route list" where
  "app_routes_of env s apps =
     concat (map (\<lambda>slug. map (\<lambda>r. r\<lparr>AppID := (case map_of (appIDs env s) slug of Some i \<Rightarrow> i | None \<Rightarrow> max_i64)\<rparr>)
                            (ResolveRoutes (rv_routes env) (the (map_of apps slug))))
                (sort_by (<) (map fst apps)))"

definition updateProxyRoutes :: "recon_env \<Rightarrow> scanResult \<Rightarrow> recon \<Rightarrow> recon" where
  "updateProxyRoutes env scan s =
     (case rs_proxy s of
        None \<Rightarrow> s
      | Some px \<Rightarrow>
          s\<lparr>rs_proxy := Some (snd (SetRoutes (rv_proxy env) (app_routes_of env s (withRouteOnlyApps env s scan)) px))\<rparr>)"

subsection \<open>Deploying, archiving and removing an app\<close>

datatype recon_error =
    ScanFailed | StoreFailed store_error | DeployFailed deploy_error | ParseFailed parse_error
  | RegistriesFailed | InProgress | VersionNotFound | RolledBackRefused "violation list" | WriteFailed
  | CommandRefused deploy_error | ActionFailed

definition registry_names :: "recon_env \<Rightarrow> AppConfig \<Rightarrow> string list" where
  "registry_names env app =
     (let v = lc_registries (a_labels app) in
      if v = ''none'' then []
      else if v = [] then rv_registries env
      else filter (\<lambda>n. n \<noteq> []) (map trim_space (split_on CHR '','' v)))"

fun lookup_registries :: "recon_env \<Rightarrow> string list \<Rightarrow> RegistryAuth list option" where
  "lookup_registries env [] = Some []"
| "lookup_registries env (n # ns) =
     (case rv_registry env n of None \<Rightarrow> None | Some a \<Rightarrow> map_option (\<lambda>as. a # as) (lookup_registries env ns))"

definition resolveRegistries :: "recon_env \<Rightarrow> AppConfig \<Rightarrow> RegistryAuth list option" where
  "resolveRegistries env app = (if rv_master env = [] then Some [] else lookup_registries env (registry_names env app))"

definition recon_deploying :: "string \<Rightarrow> recon \<Rightarrow> bool" where
  "recon_deploying slug s \<longleftrightarrow> IsDeploying slug (dp_tracker (rs_dep s))"

definition reconcileAfterDeploy :: "string \<Rightarrow> recon \<Rightarrow> recon" where
  "reconcileAfterDeploy slug s = (if slug \<in> set (rs_retrying s) then s else s\<lparr>rs_retrying := rs_retrying s @ [slug]\<rparr>)"

definition refusedByDeployer :: "deploy_error option \<Rightarrow> bool" where
  "refusedByDeployer err =
     (case err of Some (FileRefused _) \<Rightarrow> True | Some (FileUnreadable pe) \<Rightarrow> is_violation pe \<or> is_dotenv_error pe | _ \<Rightarrow> False)"

text \<open>The labels kept of an app: those with the prefix, the first service that has one wins.\<close>

definition app_labels :: "AppConfig \<Rightarrow> (string \<times> string) list" where
  "app_labels cfg =
     fold (\<lambda>(k, v) m. if prefix ''simpledeploy.'' k \<and> map_of m k = None then m @ [(k, v)] else m)
       (concat (map sc_labels (a_services cfg))) []"

definition row_of :: "string \<Rightarrow> AppConfig \<Rightarrow> string \<Rightarrow> string \<Rightarrow> App" where
  "row_of slug cfg status hash =
     \<lparr>app_ID = 0, app_Name = slug, app_Slug = slug, app_ComposePath = a_compose_path cfg, app_Status = status,
      app_Domain = PrimaryDomain cfg, app_ComposeHash = hash, app_CreatedAt = 0, app_UpdatedAt = 0, app_ArchivedAt = None\<rparr>"

definition outcome_status :: "DeployResult \<Rightarrow> string" where
  "outcome_status res = (if dr_Err res \<noteq> None then ''error'' else if dr_Status res = ''unstable'' then ''unstable'' else ''running'')"

definition outcome_action :: "string \<Rightarrow> DeployResult \<Rightarrow> string" where
  "outcome_action act res =
     (if dr_Err res \<noteq> None then act @ ''_failed'' else if dr_Status res = ''unstable'' then act @ ''_unstable'' else act)"

definition stored_hash :: "recon_env \<Rightarrow> recon \<Rightarrow> string \<Rightarrow> string" where
  "stored_hash env s slug = (case GetApp (rv_sql env) slug (rs_db s) of Inr a \<Rightarrow> app_ComposeHash a | Inl _ \<Rightarrow> [])"

definition file_hash :: "recon_env \<Rightarrow> recon \<Rightarrow> string \<Rightarrow> string" where
  "file_hash env s path = (case hashFile env s path of Some h \<Rightarrow> h | None \<Rightarrow> [])"

definition with_event :: "recon_env \<Rightarrow> string \<Rightarrow> string \<Rightarrow> string \<Rightarrow> recon \<Rightarrow> recon" where
  "with_event env slug action detail s = s\<lparr>rs_db := snd (CreateDeployEvent (rv_sql env) slug action None detail (rs_db s))\<rparr>"

definition with_version :: "recon_env \<Rightarrow> int \<Rightarrow> string \<Rightarrow> string \<Rightarrow> recon \<Rightarrow> recon" where
  "with_version env i path hash s =
     (case ReadRegularFile (rs_files s) path of
        FileData content \<Rightarrow>
          (if content = [] then s else s\<lparr>rs_db := snd (CreateComposeVersion (rv_sql env) i content hash (rs_db s))\<rparr>)
      | _ \<Rightarrow> s)"

text \<open>What follows a deploy that ran: the row, the version and the event, and a route refresh is queued.\<close>

definition record_deploy :: "recon_env \<Rightarrow> string \<Rightarrow> AppConfig \<Rightarrow> DeployResult \<Rightarrow> recon \<Rightarrow> recon_error option \<times> recon" where
  "record_deploy env slug cfg res s =
     (let refused = refusedByDeployer (dr_Err res);
          hash = (if refused then stored_hash env s slug else file_hash env s (a_compose_path cfg))
      in case UpsertApp (rv_sql env) (row_of slug cfg (outcome_status res) hash) (app_labels cfg) (rs_db s) of
           (Inl e, db) \<Rightarrow> (Some (StoreFailed e), s\<lparr>rs_db := db\<rparr>)
         | (Inr i, db) \<Rightarrow>
             let s1 = s\<lparr>rs_db := db\<rparr>;
                 s2 = (if refused then s1 else with_version env i (a_compose_path cfg) hash s1);
                 s3 = with_event env slug (outcome_action ''deploy'' res) (dr_Output res) s2;
                 s4 = (if dr_Err res = None \<and> rs_proxy s \<noteq> None then s3\<lparr>rs_refreshes := rs_refreshes s3 + 1\<rparr> else s3)
             in (map_option DeployFailed (dr_Err res), s4))"

definition deployApp :: "recon_env \<Rightarrow> string \<Rightarrow> AppConfig \<Rightarrow> recon \<Rightarrow> (recon_error option \<times> recon) option" where
  "deployApp env slug cfg s =
     (let auths = (case resolveRegistries env cfg of Some a \<Rightarrow> a | None \<Rightarrow> [])
      in Option.bind (Deploy (dep_env env s) cfg auths (rs_dep s)) (\<lambda>(res, dep).
           let s1 = s\<lparr>rs_dep := dep\<rparr>
           in Some (if dr_Skipped res then (None, reconcileAfterDeploy slug s1) else record_deploy env slug cfg res s1)))"

text \<open>The goroutine a successful deploy starts.\<close>

definition post_deploy_refresh :: "recon_env \<Rightarrow> recon \<Rightarrow> recon" where
  "post_deploy_refresh env s =
     (if rs_refreshes s = 0 then s
      else let s1 = s\<lparr>rs_refreshes := rs_refreshes s - 1\<rparr> in
        case scanAppsDir env s1 of (None, s2) \<Rightarrow> s2 | (Some scan, s2) \<Rightarrow> updateProxyRoutes env scan s2)"

definition archiveApp :: "recon_env \<Rightarrow> string \<Rightarrow> recon \<Rightarrow> recon_error option \<times> recon" where
  "archiveApp env slug s =
     (let appID = (case GetApp (rv_sql env) slug (rs_db s) of Inr a \<Rightarrow> Some (app_ID a) | Inl _ \<Rightarrow> None);
          s1 = s\<lparr>rs_dep := snd (Teardown (dep_env env s) slug (rs_dep s))\<rparr>
      in case MarkAppArchived (rv_sql env) slug (rv_now env) (rs_db s1) of
           (Some e, db) \<Rightarrow> (Some (StoreFailed e), s1\<lparr>rs_db := db\<rparr>)
         | (None, db) \<Rightarrow> (None, s1\<lparr>rs_db := db, rs_archived := rs_archived s1 @ [(appID, slug)]\<rparr>))"

definition removeApp :: "recon_env \<Rightarrow> string \<Rightarrow> recon \<Rightarrow> recon_error option \<times> recon" where
  "removeApp env slug s =
     (case Teardown (dep_env env s) slug (rs_dep s) of
        (Some e, dep) \<Rightarrow> (Some (CommandRefused e), s\<lparr>rs_dep := dep\<rparr>)
      | (None, dep) \<Rightarrow>
          (case PurgeApp (rv_sql env) slug (rs_db s) of
             (Some e, db) \<Rightarrow> (Some (StoreFailed e), s\<lparr>rs_dep := dep, rs_db := db\<rparr>)
           | (None, db) \<Rightarrow> (None, s\<lparr>rs_dep := dep, rs_db := db\<rparr>)))"

subsection \<open>Reconcile\<close>

definition row_by_slug :: "App list \<Rightarrow> string \<Rightarrow> App option" where
  "row_by_slug rows slug = find (\<lambda>a. app_Slug a = slug) rows"

text \<open>Whether the app is new or its file changed, and the row with the path normalised.\<close>

definition needs_deploy :: "recon_env \<Rightarrow> recon \<Rightarrow> App option \<Rightarrow> AppConfig \<Rightarrow> bool" where
  "needs_deploy env s existing cfg =
     (case existing of None \<Rightarrow> True
      | Some a \<Rightarrow> file_hash env s (a_compose_path cfg) \<noteq> [] \<and> file_hash env s (a_compose_path cfg) \<noteq> app_ComposeHash a)"

definition normalize_path :: "recon_env \<Rightarrow> App option \<Rightarrow> AppConfig \<Rightarrow> recon \<Rightarrow> recon" where
  "normalize_path env existing cfg s =
     (case existing of None \<Rightarrow> s
      | Some a \<Rightarrow>
          if app_ComposePath a \<noteq> a_compose_path cfg
          then s\<lparr>rs_db := snd (UpsertApp (rv_sql env) (a\<lparr>app_ComposePath := a_compose_path cfg\<rparr>) [] (rs_db s))\<rparr> else s)"

definition reconcile_app :: "recon_env \<Rightarrow> App list \<Rightarrow> string \<Rightarrow> AppConfig \<Rightarrow> recon \<Rightarrow> recon option" where
  "reconcile_app env current slug cfg s =
     (let existing = row_by_slug current slug;
          deploy = needs_deploy env s existing cfg;
          s1 = normalize_path env existing cfg s
      in if \<not> deploy then Some s1
         else if recon_deploying slug s1 then Some (reconcileAfterDeploy slug s1)
         else map_option snd (deployApp env slug cfg s1))"

fun reconcile_apps :: "recon_env \<Rightarrow> App list \<Rightarrow> (string \<times> AppConfig) list \<Rightarrow> recon \<Rightarrow> recon option" where
  "reconcile_apps env current [] s = Some s"
| "reconcile_apps env current ((slug, cfg) # rest) s =
     Option.bind (reconcile_app env current slug cfg s) (reconcile_apps env current rest)"

definition archive_due :: "recon_env \<Rightarrow> scanResult \<Rightarrow> recon \<Rightarrow> App \<Rightarrow> bool" where
  "archive_due env scan s a \<longleftrightarrow>
     app_ArchivedAt a = None \<and> map_of (sn_desired scan) (app_Slug a) = None \<and> map_of (sn_refused scan) (app_Slug a) = None \<and>
     stat_fails (rs_files s) (compose_file env (app_Slug a))"

fun archive_apps :: "recon_env \<Rightarrow> scanResult \<Rightarrow> App list \<Rightarrow> recon \<Rightarrow> recon" where
  "archive_apps env scan [] s = s"
| "archive_apps env scan (a # as) s =
     archive_apps env scan as (if archive_due env scan s a then snd (archiveApp env (app_Slug a) s) else s)"

definition Reconcile :: "recon_env \<Rightarrow> recon \<Rightarrow> (recon_error option \<times> recon) option" where
  "Reconcile env s =
     (case scanAppsDir env s of
        (None, s1) \<Rightarrow> Some (Some ScanFailed, s1)
      | (Some scan, s1) \<Rightarrow>
          (case ListApps (rv_sql env) (rs_db s1) of
             Inl e \<Rightarrow> Some (Some (StoreFailed e), s1)
           | Inr current \<Rightarrow>
               map_option (\<lambda>s2. (None, updateProxyRoutes env scan (archive_apps env scan current s2)))
                 (reconcile_apps env current (sn_desired scan) s1)))"

text \<open>The goroutine of \<open>reconcileAfterDeploy\<close>, once the deploy is over or the wait was long enough.\<close>

definition run_retry :: "recon_env \<Rightarrow> string \<Rightarrow> recon \<Rightarrow> recon option" where
  "run_retry env slug s =
     (if slug \<notin> set (rs_retrying s) then Some s
      else map_option (\<lambda>(_, s1). s1\<lparr>rs_retrying := removeAll slug (rs_retrying s1)\<rparr>) (Reconcile env s))"

fun refresh_hashes :: "recon_env \<Rightarrow> (string \<times> AppConfig) list \<Rightarrow> recon \<Rightarrow> recon" where
  "refresh_hashes env [] s = s"
| "refresh_hashes env ((slug, cfg) # rest) s =
     refresh_hashes env rest
       (case (hashFile env s (a_compose_path cfg), GetApp (rv_sql env) slug (rs_db s)) of
          (Some h, Inr a) \<Rightarrow>
            if h = [] \<or> app_ComposeHash a = h then s
            else s\<lparr>rs_db := snd (UpsertApp (rv_sql env) (a\<lparr>app_ComposeHash := h, app_ComposePath := a_compose_path cfg\<rparr>) [] (rs_db s))\<rparr>
        | _ \<Rightarrow> s)"

definition RefreshRoutes :: "recon_env \<Rightarrow> recon \<Rightarrow> recon_error option \<times> recon" where
  "RefreshRoutes env s =
     (case scanAppsDir env s of
        (None, s1) \<Rightarrow> (Some ScanFailed, s1)
      | (Some scan, s1) \<Rightarrow> (None, updateProxyRoutes env scan (refresh_hashes env (sn_desired scan) s1)))"

subsection \<open>Single apps\<close>

definition loadAppConfig :: "recon_env \<Rightarrow> recon \<Rightarrow> string \<Rightarrow> parse_error + AppConfig" where
  "loadAppConfig env s slug = parse_file env s (compose_file env slug) slug"

definition DeployOne :: "recon_env \<Rightarrow> string \<Rightarrow> string \<Rightarrow> recon \<Rightarrow> (recon_error option \<times> recon) option" where
  "DeployOne env composePath appName s =
     (case parse_file env s composePath appName of Inl e \<Rightarrow> Some (Some (ParseFailed e), s) | Inr cfg \<Rightarrow> deployApp env appName cfg s)"

definition RemoveOne :: "recon_env \<Rightarrow> string \<Rightarrow> recon \<Rightarrow> recon_error option \<times> recon" where
  "RemoveOne env appName s = removeApp env appName s"

definition set_status :: "recon_env \<Rightarrow> string \<Rightarrow> string \<Rightarrow> recon \<Rightarrow> recon" where
  "set_status env slug status s = s\<lparr>rs_db := snd (UpdateAppStatus (rv_sql env) slug status (rs_db s))\<rparr>"

definition RestartOne :: "recon_env \<Rightarrow> string \<Rightarrow> recon \<Rightarrow> (recon_error option \<times> recon) option" where
  "RestartOne env slug s =
     (case loadAppConfig env s slug of
        Inl e \<Rightarrow> Some (Some (ParseFailed e), s)
      | Inr cfg \<Rightarrow>
          Option.bind (Restart (dep_env env s) cfg (rs_dep s)) (\<lambda>(res, dep).
            let s1 = s\<lparr>rs_dep := dep\<rparr> in
            Some (if dr_Skipped res then (Some InProgress, s1)
                  else (if dr_Err res \<noteq> None then Some ActionFailed else None,
                        set_status env slug (outcome_status res) (with_event env slug (outcome_action ''restart'' res) (dr_Output res) s1)))))"

definition plain_action ::
  "(deploy_env \<Rightarrow> string \<Rightarrow> Deployer \<Rightarrow> deploy_error option \<times> Deployer) \<Rightarrow> recon_env \<Rightarrow> string \<Rightarrow> string \<Rightarrow> recon \<Rightarrow> recon_error option \<times> recon" where
  "plain_action act env slug status s =
     (case act (dep_env env s) slug (rs_dep s) of
        (Some e, dep) \<Rightarrow> (Some (CommandRefused e), s\<lparr>rs_dep := dep\<rparr>)
      | (None, dep) \<Rightarrow>
          (case UpdateAppStatus (rv_sql env) slug status (rs_db s) of
             (Some e, db) \<Rightarrow> (Some (StoreFailed e), s\<lparr>rs_dep := dep, rs_db := db\<rparr>)
           | (None, db) \<Rightarrow> (None, s\<lparr>rs_dep := dep, rs_db := db\<rparr>)))"

definition StopOne :: "recon_env \<Rightarrow> string \<Rightarrow> recon \<Rightarrow> recon_error option \<times> recon" where
  "StopOne env slug s = plain_action deployer_Stop env slug ''stopped'' s"

definition StartOne :: "recon_env \<Rightarrow> string \<Rightarrow> recon \<Rightarrow> recon_error option \<times> recon" where
  "StartOne env slug s = plain_action deployer_Start env slug ''running'' s"

definition PullOne :: "recon_env \<Rightarrow> string \<Rightarrow> recon \<Rightarrow> (recon_error option \<times> recon) option" where
  "PullOne env slug s =
     (case loadAppConfig env s slug of
        Inl e \<Rightarrow> Some (Some (ParseFailed e), s)
      | Inr cfg \<Rightarrow>
          (case resolveRegistries env cfg of
             None \<Rightarrow> Some (Some RegistriesFailed, s)
           | Some auths \<Rightarrow>
               Option.bind (Pull (dep_env env s) cfg auths (rs_dep s)) (\<lambda>(res, dep).
                 let s1 = s\<lparr>rs_dep := dep\<rparr> in
                 Some (if dr_Skipped res then (Some InProgress, s1)
                       else (if dr_Err res \<noteq> None then Some ActionFailed else None,
                             set_status env slug (if dr_Err res \<noteq> None then ''error'' else ''running'')
                               (with_event env slug (if dr_Err res \<noteq> None then ''pull_failed'' else ''pull'') (dr_Output res) s1))))))"

definition ScaleOne :: "recon_env \<Rightarrow> string \<Rightarrow> (string \<times> int) list \<Rightarrow> recon \<Rightarrow> recon_error option \<times> recon" where
  "ScaleOne env slug scales s =
     (case loadAppConfig env s slug of
        Inl e \<Rightarrow> (Some (ParseFailed e), s)
      | Inr cfg \<Rightarrow>
          (let (r, dep) = Scale (dep_env env s) cfg scales (rs_dep s) in (map_option CommandRefused r, s\<lparr>rs_dep := dep\<rparr>)))"

definition CancelOne :: "recon_env \<Rightarrow> string \<Rightarrow> recon \<Rightarrow> recon_error option \<times> recon" where
  "CancelOne env slug s =
     (case loadAppConfig env s slug of
        Inl e \<Rightarrow> (Some (ParseFailed e), s)
      | Inr cfg \<Rightarrow>
          (let (r, dep) = deployer_Cancel (dep_env env s) cfg (rs_dep s) in (map_option CommandRefused r, s\<lparr>rs_dep := dep\<rparr>)))"

definition AppServices :: "recon_env \<Rightarrow> string \<Rightarrow> recon \<Rightarrow> (deploy_error + ServiceStatus list) \<times> recon" where
  "AppServices env slug s = (let (r, dep) = Status (dep_env env s) slug (rs_dep s) in (r, s\<lparr>rs_dep := dep\<rparr>))"

definition recon_ListVersions :: "recon_env \<Rightarrow> recon \<Rightarrow> string \<Rightarrow> store_error + ComposeVersion list" where
  "recon_ListVersions env s slug =
     (case GetApp (rv_sql env) slug (rs_db s) of Inl e \<Rightarrow> Inl e | Inr a \<Rightarrow> ListComposeVersions (rv_sql env) (app_ID a) (rs_db s))"

subsection \<open>Statuses\<close>

definition unhealthy_service :: "ServiceStatus \<Rightarrow> bool" where
  "unhealthy_service v \<longleftrightarrow> st_State v = ''restarting'' \<or> st_Health v = ''unhealthy''"

definition flipped_status :: "string \<Rightarrow> ServiceStatus list \<Rightarrow> string" where
  "flipped_status status services =
     (let bad = list_ex unhealthy_service services
      in if bad \<and> status = ''running'' then ''unstable'' else if \<not> bad \<and> status = ''unstable'' then ''running'' else status)"

definition refresh_status :: "recon_env \<Rightarrow> App \<Rightarrow> recon \<Rightarrow> recon" where
  "refresh_status env app s =
     (let slug = app_Slug app; status = app_Status app in
      if status \<noteq> ''running'' \<and> status \<noteq> ''unstable'' then s
      else if recon_deploying slug s then s
      else let (r, dep) = Status (dep_env env s) slug (rs_dep s); s1 = s\<lparr>rs_dep := dep\<rparr> in
        case r of
          Inl _ \<Rightarrow> s1
        | Inr services \<Rightarrow>
            (if services = [] \<or> flipped_status status services = status then s1
             else case UpdateAppStatus (rv_sql env) slug (flipped_status status services) (rs_db s1) of
               (Some _, db) \<Rightarrow> s1\<lparr>rs_db := db\<rparr>
             | (None, db) \<Rightarrow> s1\<lparr>rs_db := db, rs_bus := rs_bus s1 @ [''app:'' @ slug, ''global:apps'']\<rparr>))"

definition RefreshStatuses :: "recon_env \<Rightarrow> recon \<Rightarrow> recon" where
  "RefreshStatuses env s =
     (case ListApps (rv_sql env) (rs_db s) of Inl _ \<Rightarrow> s | Inr apps \<Rightarrow> fold (refresh_status env) apps s)"

definition classifyStatus :: "ServiceStatus list \<Rightarrow> string" where
  "classifyStatus services =
     (let up = (\<lambda>v. st_State v = ''running'') in
      if services = [] then []
      else if list_ex (\<lambda>v. st_State v = ''restarting'' \<or> up v \<and> st_Health v = ''unhealthy'') services then ''unstable''
      else let running = list_ex up services;
               stopped = list_ex (\<lambda>v. st_State v \<in> {''exited'', ''dead'', ''removing''}) services
           in if running \<and> stopped then ''degraded'' else if running then ''running'' else ''stopped'')"

subsection \<open>Rolling back\<close>

definition rollback_content :: "recon_env \<Rightarrow> string \<Rightarrow> string" where
  "rollback_content env content =
     (let c = (if rv_mirror env \<noteq> [] then RewriteCompose content (rv_mirror env) else content)
      in if rv_noLoopback env then c else RewritePortsLoopback c)"

text \<open>The checks made before anything is written: the content to write, or the error.\<close>

definition rollback_checks :: "recon_env \<Rightarrow> recon \<Rightarrow> string \<Rightarrow> int \<Rightarrow> recon_error + (App \<times> ComposeVersion \<times> string)" where
  "rollback_checks env s slug versionID =
     (case GetApp (rv_sql env) slug (rs_db s) of
        Inl e \<Rightarrow> Inl (StoreFailed e)
      | Inr app \<Rightarrow>
          (case GetComposeVersion (rv_sql env) versionID (rs_db s) of
             Inl _ \<Rightarrow> Inl VersionNotFound
           | Inr ver \<Rightarrow>
               if cv_AppID ver \<noteq> app_ID app then Inl VersionNotFound
               else let path = compose_file env slug; content = rollback_content env (cv_Content ver) in
                 case ReadDotEnv (ReadRegularFile (rs_files s)) (dir_path path) of
                   Inl e \<Rightarrow> Inl (ParseFailed e)
                 | Inr dotEnv \<Rightarrow>
                     (case ParseContent (parse_of env s) content path slug dotEnv of
                        Inl e \<Rightarrow> Inl (ParseFailed e)
                      | Inr pre \<Rightarrow>
                          if security_violations env s pre \<noteq> [] then Inl (RolledBackRefused (security_violations env s pre))
                          else if recon_deploying slug s then Inl InProgress
                          else Inr (app, ver, content))))"

definition restore_file :: "recon_env \<Rightarrow> string \<Rightarrow> file_read \<Rightarrow> recon \<Rightarrow> recon" where
  "restore_file env path prev s = (case prev of FileData c \<Rightarrow> snd (WriteFileAtomic env path c s) | _ \<Rightarrow> s)"

definition record_rollback ::
  "recon_env \<Rightarrow> string \<Rightarrow> App \<Rightarrow> ComposeVersion \<Rightarrow> AppConfig \<Rightarrow> DeployResult \<Rightarrow> recon \<Rightarrow> recon_error option \<times> recon" where
  "record_rollback env slug app ver cfg res s =
     (let hash = (if refusedByDeployer (dr_Err res) then app_ComposeHash app else file_hash env s (a_compose_path cfg))
      in case UpsertApp (rv_sql env) (row_of slug cfg (outcome_status res) hash) (app_labels cfg) (rs_db s) of
           (Inl e, db) \<Rightarrow> (Some (StoreFailed e), s\<lparr>rs_db := db\<rparr>)
         | (Inr _, db) \<Rightarrow>
             (map_option DeployFailed (dr_Err res),
              with_event env slug (outcome_action ''rollback'' res)
                (''rollback to version '' @ show_int (cv_Version ver) @ '': '' @ dr_Output res) (s\<lparr>rs_db := db\<rparr>)))"

definition RollbackOne :: "recon_env \<Rightarrow> string \<Rightarrow> int \<Rightarrow> recon \<Rightarrow> (recon_error option \<times> recon) option" where
  "RollbackOne env slug versionID s =
     (case rollback_checks env s slug versionID of
        Inl e \<Rightarrow> Some (Some e, s)
      | Inr (app, ver, content) \<Rightarrow>
          (let path = compose_file env slug; prev = ReadRegularFile (rs_files s) path;
               (written, s1) = WriteFileAtomic env path content s
           in if \<not> written then Some (Some WriteFailed, s1)
              else case parse_file env s1 path slug of
                Inl e \<Rightarrow> Some (Some (ParseFailed e), s1)
              | Inr cfg \<Rightarrow>
                  (let auths = (case resolveRegistries env cfg of Some a \<Rightarrow> a | None \<Rightarrow> [])
                   in Option.bind (RollbackDeploy (dep_env env s1) cfg (cv_Version ver) (Some versionID) auths (rs_dep s1)) (\<lambda>(res, dep).
                        let s2 = s1\<lparr>rs_dep := dep\<rparr>
                        in Some (if dr_Skipped res then (Some InProgress, restore_file env path prev s2)
                                 else record_rollback env slug app ver cfg res s2)))))"

subsection \<open>What each step leaves alone\<close>

definition same_disk :: "recon \<Rightarrow> recon \<Rightarrow> bool" where
  "same_disk s s' \<longleftrightarrow> rs_files s' = rs_files s \<and> rs_entries s' = rs_entries s"

lemma same_disk_refl [simp]: "same_disk s s"
  by (simp add: same_disk_def)

lemma same_disk_trans: "same_disk s s1 \<Longrightarrow> same_disk s1 s2 \<Longrightarrow> same_disk s s2"
  by (simp add: same_disk_def)

lemma dep_env_disk: "same_disk s s' \<Longrightarrow> dep_env env s' = dep_env env s"
  by (simp add: same_disk_def dep_env_def)

text \<open>
  Every \<open>up\<close> between two traces was of a file accepted, with the events and files as they were, \<open>n\<close> events before it.
\<close>

definition ups_ok :: "deploy_env \<Rightarrow> nat \<Rightarrow> trace \<Rightarrow> trace \<Rightarrow> bool" where
  "ups_ok e n tr tr' \<longleftrightarrow>
     (\<exists>new. tr' = tr @ new) \<and>
     (\<forall>k args. length tr \<le> k \<longrightarrow> k < length tr' \<longrightarrow> tr' ! k = Ran args \<longrightarrow> \<not> not_up args \<longrightarrow>
        (\<exists>app. runs_file app args \<and> accepted e (take (k - n) tr') app))"

lemma ups_ok_refl [simp]: "ups_ok e n tr tr"
  by (simp add: ups_ok_def)

lemma ups_ok_trans:
  assumes "ups_ok e n tr tr1" "ups_ok e n tr1 tr2"
  shows "ups_ok e n tr tr2"
proof -
  obtain new1 new2 where tr: "tr1 = tr @ new1" "tr2 = tr1 @ new2" using assms by (auto simp: ups_ok_def)
  have "\<exists>app. runs_file app args \<and> accepted e (take (k - n) tr2) app"
    if "length tr \<le> k" "k < length tr2" "tr2 ! k = Ran args" "\<not> not_up args" for k args
  proof (cases "k < length tr1")
    case True
    then have "tr1 ! k = Ran args" "take (k - n) tr2 = take (k - n) tr1" using that(3) tr(2) by (simp_all add: nth_append)
    with assms(1) that(1,4) True show ?thesis by (auto simp: ups_ok_def)
  next
    case False
    with assms(2) that show ?thesis by (auto simp: ups_ok_def)
  qed
  with tr show ?thesis by (auto simp: ups_ok_def)
qed

lemma ups_ok_op_up:
  assumes "op_up e n app d d'"
  shows "ups_ok e n (dp_trace d) (dp_trace d')"
proof -
  obtain new where new: "dp_trace d' = dp_trace d @ new"
      "\<And>j a. j < length new \<Longrightarrow> new ! j = Ran a \<Longrightarrow> not_up a \<or> j = n \<and> accepted e (dp_trace d) app \<and> runs_file app a"
    using assms by (auto simp: op_up_def)
  have "\<exists>app. runs_file app args \<and> accepted e (take (k - n) (dp_trace d')) app"
    if "length (dp_trace d) \<le> k" "k < length (dp_trace d')" "dp_trace d' ! k = Ran args" "\<not> not_up args" for k args
  proof -
    let ?j = "k - length (dp_trace d)"
    have j: "?j < length new" "new ! ?j = Ran args" using that new(1) by (auto simp: nth_append)
    have "?j = n \<and> accepted e (dp_trace d) app \<and> runs_file app args" using new(2) [OF j] that(4) by simp
    moreover from this have "take (k - n) (dp_trace d') = dp_trace d" using that(1) new(1) by (auto simp: le_imp_diff_is_add)
    ultimately show ?thesis by auto
  qed
  with new(1) show ?thesis by (auto simp: ups_ok_def)
qed

lemma ups_ok_quiet: "runs_only quiet d d' \<Longrightarrow> ups_ok e n (dp_trace d) (dp_trace d')"
  by (rule ups_ok_op_up [OF op_up_quiet])

lemma plain_quiet: "not_up args \<Longrightarrow> ups_ok e n (dp_trace d) (dp_trace (snd (run_plain e' oper args d)))"
  by (rule ups_ok_op_up [where app = undefined]) (auto simp: op_up_def run_plain_trace)

lemma Teardown_quiet: "ups_ok e n (dp_trace d) (dp_trace (snd (Teardown e' slug d)))"
  unfolding Teardown_def by (rule plain_quiet) (simp add: command_simps)

lemma Stop_quiet: "ups_ok e n (dp_trace d) (dp_trace (snd (deployer_Stop e' slug d)))"
  unfolding deployer_Stop_def by (rule plain_quiet) (simp add: command_simps)

lemma Start_quiet: "ups_ok e n (dp_trace d) (dp_trace (snd (deployer_Start e' slug d)))"
  unfolding deployer_Start_def by (rule plain_quiet) (simp add: command_simps)

lemma Status_quiet:
  assumes "Status e' slug d = (r, d')"
  shows "ups_ok e n (dp_trace d) (dp_trace d')"
proof -
  have "op_run e' (OpStatus slug) d = Some d'" using assms by simp
  from op_run_op_up [OF this] show ?thesis by (intro ups_ok_quiet) simp
qed

text \<open>The same disk, and every \<open>up\<close> checked on it: what the steps of a reconciliation have in common.\<close>

definition tidy :: "recon_env \<Rightarrow> recon \<Rightarrow> recon \<Rightarrow> bool" where
  "tidy env s s' \<longleftrightarrow> same_disk s s' \<and> ups_ok (dep_env env s) 0 (dp_trace (rs_dep s)) (dp_trace (rs_dep s'))"

lemma tidy_refl [simp]: "tidy env s s"
  by (simp add: tidy_def)

lemma tidy_trans: "tidy env s s1 \<Longrightarrow> tidy env s1 s2 \<Longrightarrow> tidy env s s2"
  unfolding tidy_def using same_disk_trans ups_ok_trans dep_env_disk by metis

lemma tidy_same: "same_disk s s' \<Longrightarrow> rs_dep s' = rs_dep s \<Longrightarrow> tidy env s s'"
  by (simp add: tidy_def)

lemma tidy_ups:
  assumes "tidy env s s'"
  shows "ups_ok (dep_env env s') 0 (dp_trace (rs_dep s)) (dp_trace (rs_dep s'))"
proof -
  have "dep_env env s' = dep_env env s" using assms dep_env_disk unfolding tidy_def by blast
  with assms show ?thesis by (simp add: tidy_def)
qed

lemma record_deploy_tidy: "record_deploy env slug cfg res s = (r, s') \<Longrightarrow> same_disk s s' \<and> rs_dep s' = rs_dep s"
  by (auto simp: record_deploy_def with_version_def with_event_def same_disk_def Let_def split: prod.splits sum.splits file_read.splits if_splits)

lemma reconcileAfterDeploy_tidy: "same_disk s (reconcileAfterDeploy slug s) \<and> rs_dep (reconcileAfterDeploy slug s) = rs_dep s"
  by (simp add: reconcileAfterDeploy_def same_disk_def)

lemma deployApp_cases:
  assumes "deployApp env slug cfg s = Some (r, s')"
  obtains auths res dep where "Deploy (dep_env env s) cfg auths (rs_dep s) = Some (res, dep)"
    "(r, s') = (if dr_Skipped res then (None, reconcileAfterDeploy slug (s\<lparr>rs_dep := dep\<rparr>)) else record_deploy env slug cfg res (s\<lparr>rs_dep := dep\<rparr>))"
  using assms by (auto simp: deployApp_def Let_def bind_eq_Some_conv)

lemma deployApp_tidy:
  assumes "deployApp env slug cfg s = Some (r, s')"
  shows "tidy env s s'"
proof -
  obtain auths res dep where d: "Deploy (dep_env env s) cfg auths (rs_dep s) = Some (res, dep)" and
      r: "(r, s') = (if dr_Skipped res then (None, reconcileAfterDeploy slug (s\<lparr>rs_dep := dep\<rparr>)) else record_deploy env slug cfg res (s\<lparr>rs_dep := dep\<rparr>))"
    using deployApp_cases [OF assms] .
  have "same_disk (s\<lparr>rs_dep := dep\<rparr>) s' \<and> rs_dep s' = dep"
  proof (cases "dr_Skipped res")
    case True
    with r show ?thesis using reconcileAfterDeploy_tidy [of "s\<lparr>rs_dep := dep\<rparr>" slug] by simp
  next
    case False
    with r have "record_deploy env slug cfg res (s\<lparr>rs_dep := dep\<rparr>) = (r, s')" by simp
    from record_deploy_tidy [OF this] show ?thesis by simp
  qed
  moreover have "ups_ok (dep_env env s) 0 (dp_trace (rs_dep s)) (dp_trace dep)" by (rule ups_ok_op_up [OF Deploy_op_up [OF d]])
  ultimately show ?thesis by (simp add: tidy_def same_disk_def)
qed

lemma normalize_path_tidy: "same_disk s (normalize_path env a cfg s) \<and> rs_dep (normalize_path env a cfg s) = rs_dep s"
  by (auto simp: normalize_path_def same_disk_def split: option.splits)

lemma reconcile_app_tidy:
  assumes "reconcile_app env current slug cfg s = Some s'"
  shows "tidy env s s'"
proof -
  let ?s1 = "normalize_path env (row_by_slug current slug) cfg s"
  have t1: "tidy env s ?s1" using normalize_path_tidy by (blast intro: tidy_same)
  consider "s' = ?s1" | "s' = reconcileAfterDeploy slug ?s1" | r where "deployApp env slug cfg ?s1 = Some (r, s')"
    using assms by (auto simp: reconcile_app_def Let_def split: if_splits)
  then show ?thesis
  proof cases
    case 2
    have "tidy env ?s1 s'" unfolding 2 using reconcileAfterDeploy_tidy by (blast intro: tidy_same)
    with t1 show ?thesis by (rule tidy_trans)
  next
    case 3
    from tidy_trans [OF t1 deployApp_tidy [OF 3]] show ?thesis .
  qed (use t1 in simp)
qed

lemma reconcile_apps_tidy: "reconcile_apps env current ds s = Some s' \<Longrightarrow> tidy env s s'"
proof (induction env current ds s rule: reconcile_apps.induct)
  case (2 env current slug cfg rest s)
  then obtain s1 where s1: "reconcile_app env current slug cfg s = Some s1" "reconcile_apps env current rest s1 = Some s'"
    by (auto simp: bind_eq_Some_conv)
  from tidy_trans [OF reconcile_app_tidy [OF s1(1)] "2.IH" [OF s1]] show ?case .
qed simp

lemma archiveApp_tidy: "tidy env s (snd (archiveApp env slug s))"
proof -
  have "rs_files (snd (archiveApp env slug s)) = rs_files s" "rs_entries (snd (archiveApp env slug s)) = rs_entries s"
      "rs_dep (snd (archiveApp env slug s)) = snd (Teardown (dep_env env s) slug (rs_dep s))"
    by (auto simp: archiveApp_def Let_def split: prod.split option.split)
  then show ?thesis using Teardown_quiet by (simp add: tidy_def same_disk_def)
qed

lemma archive_apps_tidy: "tidy env s (archive_apps env scan as s)"
proof (induction as arbitrary: s)
  case (Cons a as)
  let ?s1 = "if archive_due env scan s a then snd (archiveApp env (app_Slug a) s) else s"
  have "tidy env s ?s1" using archiveApp_tidy by simp
  from tidy_trans [OF this Cons.IH] show ?case by simp
qed simp

lemma updateProxyRoutes_tidy: "same_disk s (updateProxyRoutes env scan s) \<and> rs_dep (updateProxyRoutes env scan s) = rs_dep s"
  by (auto simp: updateProxyRoutes_def same_disk_def split: option.split)

lemma scan_app_dep: "rs_dep (snd (scan_app env name s)) = rs_dep s \<and> rs_db (snd (scan_app env name s)) = rs_db s"
  by (auto simp: scan_app_def ensureSharedNetwork_def WriteFileAtomic_def Let_def split: file_read.split inject_result.split)

lemma scan_entries_dep: "rs_dep (snd (scan_entries env es acc s)) = rs_dep s \<and> rs_db (snd (scan_entries env es acc s)) = rs_db s"
  by (induction env es acc s rule: scan_entries.induct) (auto simp: scan_app_dep split: prod.split, (metis scan_app_dep snd_conv)+)

lemma scanAppsDir_dep:
  assumes "scanAppsDir env s = (r, s1)"
  shows "rs_dep s1 = rs_dep s \<and> rs_db s1 = rs_db s"
proof (cases "rs_entries s")
  case None
  with assms show ?thesis by (simp add: scanAppsDir_def)
next
  case (Some es)
  with assms have "s1 = snd (scan_entries env es \<lparr>sn_desired = [], sn_refused = []\<rparr> s)"
    by (auto simp: scanAppsDir_def split: prod.splits)
  then show ?thesis using scan_entries_dep by simp
qed

lemma Reconcile_cases:
  assumes "Reconcile env s = Some (r, s')"
  obtains (no_scan) "scanAppsDir env s = (None, s')" "r = Some ScanFailed"
  | (no_list) scan e where "scanAppsDir env s = (Some scan, s')" "ListApps (rv_sql env) (rs_db s') = Inl e" "r = Some (StoreFailed e)"
  | (went) scan current s1 s2 where "scanAppsDir env s = (Some scan, s1)" "ListApps (rv_sql env) (rs_db s1) = Inr current"
      "reconcile_apps env current (sn_desired scan) s1 = Some s2"
      "s' = updateProxyRoutes env scan (archive_apps env scan current s2)" "r = None"
proof -
  obtain sc s1 where sc: "scanAppsDir env s = (sc, s1)" by fastforce
  show ?thesis
  proof (cases sc)
    case None
    with assms sc show ?thesis by (intro no_scan) (simp_all add: Reconcile_def)
  next
    case (Some scan)
    show ?thesis
    proof (cases "ListApps (rv_sql env) (rs_db s1)")
      case (Inl e)
      with assms sc Some show ?thesis by (intro no_list [of scan e]) (auto simp: Reconcile_def)
    next
      case (Inr current)
      with assms sc Some obtain s2 where "reconcile_apps env current (sn_desired scan) s1 = Some s2" "r = None"
        "s' = updateProxyRoutes env scan (archive_apps env scan current s2)" by (auto simp: Reconcile_def)
      with sc Some Inr show ?thesis by (intro went [of scan s1 current s2]) simp_all
    qed
  qed
qed

text \<open>Reconciling: the files are those the scan left, and every \<open>up\<close> was of one of them, accepted.\<close>

lemma Reconcile_ups:
  assumes "Reconcile env s = Some (r, s')"
  shows "ups_ok (dep_env env s') 0 (dp_trace (rs_dep s)) (dp_trace (rs_dep s'))"
  using assms
proof (cases rule: Reconcile_cases)
  case (went scan current s1 s2)
  have "tidy env s1 s'"
    using tidy_trans [OF tidy_trans [OF reconcile_apps_tidy [OF went(3)] archive_apps_tidy]] updateProxyRoutes_tidy tidy_same
    unfolding went(4) by blast
  from tidy_ups [OF this] show ?thesis using scanAppsDir_dep [OF went(1)] by simp
qed (use scanAppsDir_dep in \<open>simp, metis ups_ok_refl\<close>)+

subsection \<open>Every operation\<close>

datatype recon_op =
    RcReconcile | RcRetry string | RcRefreshRoutes | RcPostDeploy | RcDeploy string string | RcRemove string | RcRestart string
  | RcStop string | RcStart string | RcPull string | RcScale string "(string \<times> int) list" | RcCancel string
  | RcServices string | RcStatuses | RcRollback string int

fun recon_step :: "recon_env \<Rightarrow> recon_op \<Rightarrow> recon \<Rightarrow> recon option" where
  "recon_step env RcReconcile s = map_option snd (Reconcile env s)"
| "recon_step env (RcRetry slug) s = run_retry env slug s"
| "recon_step env RcRefreshRoutes s = Some (snd (RefreshRoutes env s))"
| "recon_step env RcPostDeploy s = Some (post_deploy_refresh env s)"
| "recon_step env (RcDeploy path name) s = map_option snd (DeployOne env path name s)"
| "recon_step env (RcRemove slug) s = Some (snd (RemoveOne env slug s))"
| "recon_step env (RcRestart slug) s = map_option snd (RestartOne env slug s)"
| "recon_step env (RcStop slug) s = Some (snd (StopOne env slug s))"
| "recon_step env (RcStart slug) s = Some (snd (StartOne env slug s))"
| "recon_step env (RcPull slug) s = map_option snd (PullOne env slug s)"
| "recon_step env (RcScale slug scales) s = Some (snd (ScaleOne env slug scales s))"
| "recon_step env (RcCancel slug) s = Some (snd (CancelOne env slug s))"
| "recon_step env (RcServices slug) s = Some (snd (AppServices env slug s))"
| "recon_step env RcStatuses s = Some (RefreshStatuses env s)"
| "recon_step env (RcRollback slug v) s = map_option snd (RollbackOne env slug v s)"

definition pull_lag :: "recon_op \<Rightarrow> nat" where
  "pull_lag op = (case op of RcPull _ \<Rightarrow> 1 | _ \<Rightarrow> 0)"

lemma quiet_step: "rs_dep s' = dep \<Longrightarrow> (\<And>e. ups_ok e n (dp_trace (rs_dep s)) (dp_trace dep)) \<Longrightarrow> ups_ok e n (dp_trace (rs_dep s)) (dp_trace (rs_dep s'))"
  by simp

lemma same_dep_ups: "rs_dep s' = rs_dep s \<Longrightarrow> ups_ok e n (dp_trace (rs_dep s)) (dp_trace (rs_dep s'))"
  by simp

lemma with_event_simps [simp]:
  "rs_dep (with_event env slug act detail s) = rs_dep s" "rs_files (with_event env slug act detail s) = rs_files s"
  "rs_dep (set_status env slug st s) = rs_dep s" "rs_files (set_status env slug st s) = rs_files s"
  by (simp_all add: with_event_def set_status_def)

lemma refresh_hashes_dep: "rs_dep (refresh_hashes env ds s) = rs_dep s"
  by (induction env ds s rule: refresh_hashes.induct) (auto split: option.split sum.split)

lemma RefreshRoutes_dep: "rs_dep (snd (RefreshRoutes env s)) = rs_dep s"
proof -
  obtain r s1 where sc: "scanAppsDir env s = (r, s1)" by fastforce
  then show ?thesis using scanAppsDir_dep [OF sc] updateProxyRoutes_tidy refresh_hashes_dep
    by (cases r) (simp_all add: RefreshRoutes_def)
qed

lemma post_deploy_refresh_dep: "rs_dep (post_deploy_refresh env s) = rs_dep s"
proof (cases "rs_refreshes s = 0")
  case False
  let ?s1 = "s\<lparr>rs_refreshes := rs_refreshes s - 1\<rparr>"
  obtain r s2 where sc: "scanAppsDir env ?s1 = (r, s2)" by fastforce
  have "rs_dep s2 = rs_dep s" using scanAppsDir_dep [OF sc] by simp
  with False sc updateProxyRoutes_tidy show ?thesis by (cases r) (simp_all add: post_deploy_refresh_def Let_def)
qed (simp add: post_deploy_refresh_def)

lemma plain_action_ups:
  assumes "\<And>e e' d. ups_ok e n (dp_trace d) (dp_trace (snd (act e' slug d)))"
  shows "ups_ok e n (dp_trace (rs_dep s)) (dp_trace (rs_dep (snd (plain_action act env slug st s))))"
proof -
  have "rs_dep (snd (plain_action act env slug st s)) = snd (act (dep_env env s) slug (rs_dep s))"
    by (auto simp: plain_action_def split: prod.splits option.splits)
  with assms show ?thesis by simp
qed

lemma refresh_status_ups: "ups_ok e n (dp_trace (rs_dep s)) (dp_trace (rs_dep (refresh_status env app s)))"
proof -
  obtain r dep where st: "Status (dep_env env s) (app_Slug app) (rs_dep s) = (r, dep)" by fastforce
  have "rs_dep (refresh_status env app s) = rs_dep s \<or> rs_dep (refresh_status env app s) = dep"
    by (auto simp: refresh_status_def Let_def st split: sum.split option.split prod.split)
  with Status_quiet [OF st, of e n] show ?thesis by auto
qed

lemma RefreshStatuses_ups: "ups_ok e n (dp_trace (rs_dep s)) (dp_trace (rs_dep (RefreshStatuses env s)))"
proof -
  have "ups_ok e n (dp_trace (rs_dep s)) (dp_trace (rs_dep (fold (refresh_status env) apps s)))" for apps
    by (induction apps arbitrary: s) (auto intro: ups_ok_trans refresh_status_ups)
  then show ?thesis by (auto simp: RefreshStatuses_def split: sum.split)
qed

lemma PullOne_ups:
  assumes "PullOne env slug s = Some (r, s')"
  shows "ups_ok (dep_env env s') 1 (dp_trace (rs_dep s)) (dp_trace (rs_dep s'))"
proof -
  consider "s' = s" | cfg auths res dep where "Pull (dep_env env s) cfg auths (rs_dep s) = Some (res, dep)" "rs_dep s' = dep" "rs_files s' = rs_files s"
    using assms by (auto simp: PullOne_def Let_def bind_eq_Some_conv split: sum.splits option.splits if_splits)
  then show ?thesis
  proof cases
    case 2
    then have "dep_env env s' = dep_env env s" by (simp add: dep_env_def)
    with 2(2) ups_ok_op_up [OF Pull_op_up [OF 2(1)]] show ?thesis by simp
  qed simp
qed

lemma RestartOne_ups:
  assumes "RestartOne env slug s = Some (r, s')"
  shows "ups_ok (dep_env env s') 0 (dp_trace (rs_dep s)) (dp_trace (rs_dep s'))"
proof -
  consider "s' = s" | cfg res dep where "Restart (dep_env env s) cfg (rs_dep s) = Some (res, dep)" "rs_dep s' = dep" "rs_files s' = rs_files s"
    using assms by (auto simp: RestartOne_def Let_def bind_eq_Some_conv split: sum.splits if_splits)
  then show ?thesis
  proof cases
    case 2
    then have "dep_env env s' = dep_env env s" by (simp add: dep_env_def)
    with 2(2) ups_ok_op_up [OF Restart_op_up [OF 2(1)]] show ?thesis by simp
  qed simp
qed

lemma RollbackDeploy_skipped:
  assumes "RollbackDeploy e app v c auths d = Some (res, d')" "dr_Skipped res"
  shows "d' = d"
  using assms(1)
proof (cases rule: RollbackDeploy_cases)
  case (ran d1)
  with compose_up_audit [OF ran(2)] assms(2) show ?thesis by simp
qed

lemma RollbackOne_cases:
  assumes "RollbackOne env slug v s = Some (r, s')"
  obtains (refused) e where "rollback_checks env s slug v = Inl e" "r = Some e" "s' = s"
  | (failed) app ver content s1 where "rollback_checks env s slug v = Inr (app, ver, content)"
      "s1 = snd (WriteFileAtomic env (compose_file env slug) content s)" "s' = s1"
      "r = Some WriteFailed \<or> (\<exists>e. r = Some (ParseFailed e))"
  | (ran) app ver content s1 cfg auths res dep where "rollback_checks env s slug v = Inr (app, ver, content)"
      "WriteFileAtomic env (compose_file env slug) content s = (True, s1)" "parse_file env s1 (compose_file env slug) slug = Inr cfg"
      "RollbackDeploy (dep_env env s1) cfg (cv_Version ver) (Some v) auths (rs_dep s1) = Some (res, dep)"
      "(r, s') = (if dr_Skipped res then (Some InProgress, restore_file env (compose_file env slug) (ReadRegularFile (rs_files s) (compose_file env slug)) (s1\<lparr>rs_dep := dep\<rparr>))
                  else record_rollback env slug app ver cfg res (s1\<lparr>rs_dep := dep\<rparr>))"
proof (cases "rollback_checks env s slug v")
  case (Inl e)
  with assms show ?thesis by (intro refused [of e]) (auto simp: RollbackOne_def)
next
  case (Inr t)
  obtain app ver content where t: "t = (app, ver, content)" by (cases t) auto
  obtain written s1 where w: "WriteFileAtomic env (compose_file env slug) content s = (written, s1)" by fastforce
  note eq = assms [unfolded RollbackOne_def Inr t sum.case prod.case w Let_def]
  show ?thesis
  proof (cases "written")
    case False
    with eq w Inr t show ?thesis by (intro failed [of app ver content s1]) auto
  next
    case True
    show ?thesis
    proof (cases "parse_file env s1 (compose_file env slug) slug")
      case (Inl e)
      with eq w True Inr t show ?thesis by (intro failed [of app ver content s1]) auto
    next
      case P: (Inr cfg)
      let ?auths = "case resolveRegistries env cfg of Some a \<Rightarrow> a | None \<Rightarrow> []"
      from eq True P obtain res dep where
        "RollbackDeploy (dep_env env s1) cfg (cv_Version ver) (Some v) ?auths (rs_dep s1) = Some (res, dep)"
        "(r, s') = (if dr_Skipped res then (Some InProgress, restore_file env (compose_file env slug) (ReadRegularFile (rs_files s) (compose_file env slug)) (s1\<lparr>rs_dep := dep\<rparr>))
                  else record_rollback env slug app ver cfg res (s1\<lparr>rs_dep := dep\<rparr>))"
        by (auto simp: bind_eq_Some_conv)
      with True P Inr t w show ?thesis by (intro ran [of app ver content s1 cfg ?auths res dep]) simp_all
    qed
  qed
qed

lemma WriteFileAtomic_dep: "rs_dep (snd (WriteFileAtomic env p c s)) = rs_dep s" "rs_db (snd (WriteFileAtomic env p c s)) = rs_db s"
  by (simp_all add: WriteFileAtomic_def)

lemma record_rollback_tidy: "record_rollback env slug app ver cfg res s = (r, s') \<Longrightarrow> rs_files s' = rs_files s \<and> rs_dep s' = rs_dep s"
  by (auto simp: record_rollback_def Let_def split: prod.splits sum.splits)

lemma RollbackOne_ups:
  assumes "RollbackOne env slug v s = Some (r, s')"
  shows "ups_ok (dep_env env s') 0 (dp_trace (rs_dep s)) (dp_trace (rs_dep s'))"
  using assms
proof (cases rule: RollbackOne_cases)
  case (failed app ver content s1)
  then show ?thesis by (simp add: WriteFileAtomic_dep)
next
  case (ran app ver content s1 cfg auths res dep)
  have d1: "rs_dep s1 = rs_dep s" using WriteFileAtomic_dep [of env "compose_file env slug" content s] ran(2) by simp
  show ?thesis
  proof (cases "dr_Skipped res")
    case True
    with RollbackDeploy_skipped [OF ran(4)] have "dep = rs_dep s" using d1 by simp
    moreover have "rs_dep s' = dep" using ran(5) True by (auto simp: restore_file_def WriteFileAtomic_dep split: file_read.split)
    ultimately show ?thesis by simp
  next
    case False
    with ran(5) have "record_rollback env slug app ver cfg res (s1\<lparr>rs_dep := dep\<rparr>) = (r, s')" by simp
    from record_rollback_tidy [OF this] have "rs_dep s' = dep" "dep_env env s' = dep_env env s1" by (simp_all add: dep_env_def)
    with ups_ok_op_up [OF RollbackDeploy_op_up [OF ran(4)]] d1 show ?thesis by simp
  qed
qed simp

lemma ScaleOne_ups: "ups_ok (dep_env env s') 0 (dp_trace (rs_dep s)) (dp_trace (rs_dep s'))" if "snd (ScaleOne env slug scales s) = s'"
proof (cases "loadAppConfig env s slug")
  case (Inl e)
  with that show ?thesis by (auto simp: ScaleOne_def)
next
  case (Inr cfg)
  obtain r dep where d: "Scale (dep_env env s) cfg scales (rs_dep s) = (r, dep)" by fastforce
  then have "op_run (dep_env env s) (OpScale cfg scales) (rs_dep s) = Some dep" by simp
  from op_run_op_up [OF this] have "op_up (dep_env env s) 0 cfg (rs_dep s) dep" by (simp add: checks_before_def)
  moreover have "s' = s\<lparr>rs_dep := dep\<rparr>" using that Inr d by (auto simp: ScaleOne_def)
  ultimately show ?thesis using ups_ok_op_up by (simp add: dep_env_def)
qed

lemma CancelOne_ups: "ups_ok (dep_env env s') 0 (dp_trace (rs_dep s)) (dp_trace (rs_dep s'))" if "snd (CancelOne env slug s) = s'"
proof (cases "loadAppConfig env s slug")
  case (Inl e)
  with that show ?thesis by (auto simp: CancelOne_def)
next
  case (Inr cfg)
  obtain r dep where d: "deployer_Cancel (dep_env env s) cfg (rs_dep s) = (r, dep)" by fastforce
  then have "op_run (dep_env env s) (OpCancel cfg) (rs_dep s) = Some dep" by simp
  from op_run_op_up [OF this] have "op_up (dep_env env s) 0 cfg (rs_dep s) dep" by (simp add: checks_before_def)
  moreover have "s' = s\<lparr>rs_dep := dep\<rparr>" using that Inr d by (auto simp: CancelOne_def)
  ultimately show ?thesis using ups_ok_op_up by (simp add: dep_env_def)
qed

lemma removeApp_dep: "rs_dep (snd (removeApp env slug s)) = snd (Teardown (dep_env env s) slug (rs_dep s))"
  by (auto simp: removeApp_def split: prod.splits option.splits)

lemma recon_step_ups:
  assumes "recon_step env op s = Some s'"
  shows "ups_ok (dep_env env s') (pull_lag op) (dp_trace (rs_dep s)) (dp_trace (rs_dep s'))"
proof (cases op)
  case RcReconcile
  with assms Reconcile_ups show ?thesis by (auto simp: pull_lag_def)
next
  case (RcRetry slug)
  show ?thesis
  proof (cases "slug \<in> set (rs_retrying s)")
    case True
    with assms RcRetry obtain r s1 where r: "Reconcile env s = Some (r, s1)" "s' = s1\<lparr>rs_retrying := removeAll slug (rs_retrying s1)\<rparr>"
      by (auto simp: run_retry_def)
    from Reconcile_ups [OF r(1)] r(2) RcRetry show ?thesis by (simp add: dep_env_def pull_lag_def)
  next
    case False
    with assms RcRetry show ?thesis by (simp add: run_retry_def)
  qed
next
  case RcRefreshRoutes
  with assms RefreshRoutes_dep show ?thesis by (intro same_dep_ups) auto
next
  case RcPostDeploy
  with assms post_deploy_refresh_dep show ?thesis by (intro same_dep_ups) auto
next
  case (RcDeploy path name)
  with assms obtain r where r: "DeployOne env path name s = Some (r, s')" by auto
  show ?thesis
  proof (cases "parse_file env s path name")
    case (Inl e)
    with r show ?thesis by (simp add: DeployOne_def)
  next
    case (Inr cfg)
    with r have "deployApp env name cfg s = Some (r, s')" by (simp add: DeployOne_def)
    from tidy_ups [OF deployApp_tidy [OF this]] RcDeploy show ?thesis by (simp add: pull_lag_def)
  qed
next
  case (RcRemove slug)
  with assms removeApp_dep Teardown_quiet show ?thesis by (auto simp: RemoveOne_def)
next
  case (RcRestart slug)
  with assms RestartOne_ups show ?thesis by (auto simp: pull_lag_def)
next
  case (RcStop slug)
  with assms plain_action_ups [OF Stop_quiet] show ?thesis by (auto simp: StopOne_def)
next
  case (RcStart slug)
  with assms plain_action_ups [OF Start_quiet] show ?thesis by (auto simp: StartOne_def)
next
  case (RcPull slug)
  with assms PullOne_ups show ?thesis by (auto simp: pull_lag_def)
next
  case (RcScale slug scales)
  with assms ScaleOne_ups show ?thesis by (auto simp: pull_lag_def)
next
  case (RcCancel slug)
  with assms CancelOne_ups show ?thesis by (auto simp: pull_lag_def)
next
  case (RcServices slug)
  obtain r dep where st: "Status (dep_env env s) slug (rs_dep s) = (r, dep)" by fastforce
  with RcServices assms have "rs_dep s' = dep" by (auto simp: AppServices_def)
  with Status_quiet [OF st] show ?thesis by simp
next
  case RcStatuses
  with assms RefreshStatuses_ups show ?thesis by auto
next
  case (RcRollback slug v)
  with assms RollbackOne_ups show ?thesis by (auto simp: pull_lag_def)
qed

text \<open>
  A pull checks the file before its first command, \<open>docker compose pull\<close>, and not again before the up that follows (see
  \<open>pull_up_unchecked\<close> for what can happen in between).
\<close>

lemma pull_checked_before:
  assumes "recon_step env (RcPull slug) s = Some s'" "length (dp_trace (rs_dep s)) \<le> k" "k < length (dp_trace (rs_dep s'))"
    and "dp_trace (rs_dep s') ! k = Ran args" "subcommand args = Some ''up''"
  shows "\<exists>app. runs_file app args \<and> accepted (dep_env env s') (take (k - 1) (dp_trace (rs_dep s'))) app"
  using recon_step_ups [OF assms(1)] assms(2-5) unfolding ups_ok_def not_up_def pull_lag_def by fastforce

text \<open>
  Property C6. Whatever the reconciler does other than a pull (a reconciliation, a retry, a deploy, a rollback, a
  restart, scaling, cancelling, refreshing or removing), it brings containers up only with the compose file of
  an app that, with the files as the step left them, parses and passes every security rule at the very moment
  the command starts.
\<close>

theorem recon_up_checked:
  assumes "recon_step env op s = Some s'" "\<forall>slug. op \<noteq> RcPull slug"
    and "length (dp_trace (rs_dep s)) \<le> k" "k < length (dp_trace (rs_dep s'))"
    and "dp_trace (rs_dep s') ! k = Ran args" "subcommand args = Some ''up''"
  shows "\<exists>app. runs_file app args \<and> accepted (dep_env env s') (take k (dp_trace (rs_dep s'))) app"
proof -
  have "pull_lag op = 0" using assms(2) by (simp add: pull_lag_def split: recon_op.split)
  then show ?thesis
    using recon_step_ups [OF assms(1)] assms(3-6) unfolding ups_ok_def not_up_def by fastforce
qed

subsection \<open>What is archived\<close>

lemma archive_due_disk: "same_disk s s' \<Longrightarrow> archive_due env scan s' a = archive_due env scan s a"
  by (simp add: archive_due_def same_disk_def)

text \<open>Which slugs have an archived row.\<close>

definition archived_slugs :: "app_db \<Rightarrow> string set" where
  "archived_slugs d = {app_Slug a |a. a \<in> set (ad_apps d) \<and> app_ArchivedAt a \<noteq> None}"

definition app_slugs :: "app_db \<Rightarrow> string set" where
  "app_slugs d = app_Slug ` set (ad_apps d)"

definition active_slugs :: "app_db \<Rightarrow> string set" where
  "active_slugs d = {app_Slug a |a. a \<in> set (ad_apps d) \<and> app_ArchivedAt a = None}"

text \<open>No row disappears and none changes between archived and active.\<close>

definition rows_kept :: "app_db \<Rightarrow> app_db \<Rightarrow> bool" where
  "rows_kept d d' \<longleftrightarrow> archived_slugs d' = archived_slugs d \<and> app_slugs d \<subseteq> app_slugs d'"

lemma rows_kept_refl [simp]: "rows_kept d d"
  by (simp add: rows_kept_def)

lemma rows_kept_trans: "rows_kept d d1 \<Longrightarrow> rows_kept d1 d2 \<Longrightarrow> rows_kept d d2"
  by (auto simp: rows_kept_def)

lemma archived_map:
  assumes "ad_apps d' = map f (ad_apps d)" "\<And>a. app_Slug (f a) = app_Slug a" "\<And>a. app_ArchivedAt (f a) = app_ArchivedAt a"
  shows "rows_kept d d'"
proof -
  have "archived_slugs d' = {app_Slug (f a) |a. a \<in> set (ad_apps d) \<and> app_ArchivedAt (f a) \<noteq> None}"
    by (auto simp: archived_slugs_def assms(1))
  moreover have "app_slugs d' = app_slugs d" by (auto simp: app_slugs_def assms(1,2) image_image)
  ultimately show ?thesis by (simp add: rows_kept_def assms(2,3) archived_slugs_def)
qed

lemma UpsertApp_kept: "rows_kept d (snd (UpsertApp e a labels d))"
proof (cases "app_by_slug d (app_Slug a)")
  case None
  have "archived_slugs (snd (UpsertApp e a labels d)) = archived_slugs d"
    using None by (auto simp: UpsertApp_def archived_slugs_def replace_labels_def new_app_row_def Let_def)
  moreover have "app_slugs d \<subseteq> app_slugs (snd (UpsertApp e a labels d))"
    using None by (auto simp: UpsertApp_def app_slugs_def replace_labels_def Let_def)
  ultimately show ?thesis by (simp add: rows_kept_def)
next
  case (Some old)
  let ?f = "\<lambda>r. if app_Slug r = app_Slug a then set_app_row e a r else r"
  have "rows_kept d (replace_labels (app_ID old) labels (update_apps (app_Slug a) (set_app_row e a) d))"
    by (rule archived_map [where f = ?f]) (simp_all add: replace_labels_def update_apps_def set_app_row_def)
  with Some show ?thesis by (simp add: UpsertApp_def)
qed

lemma rows_kept_apps: "ad_apps d' = ad_apps d \<Longrightarrow> rows_kept d d'"
  by (simp add: rows_kept_def archived_slugs_def app_slugs_def)

lemma CreateDeployEvent_kept: "rows_kept d (snd (CreateDeployEvent e slug act u detail d))"
  by (rule rows_kept_apps) (simp add: CreateDeployEvent_def)

lemma CreateComposeVersion_kept: "rows_kept d (snd (CreateComposeVersion e i c h d))"
  by (rule rows_kept_apps) (simp add: CreateComposeVersion_def prune_versions_def Let_def)

lemma record_deploy_kept: "rows_kept (rs_db s) (rs_db (snd (record_deploy env slug cfg res s)))"
proof -
  let ?hash = "if refusedByDeployer (dr_Err res) then stored_hash env s slug else file_hash env s (a_compose_path cfg)"
  obtain r db where u: "UpsertApp (rv_sql env) (row_of slug cfg (outcome_status res) ?hash) (app_labels cfg) (rs_db s) = (r, db)"
    by fastforce
  have k: "rows_kept (rs_db s) db" using UpsertApp_kept [of "rs_db s" "rv_sql env" "row_of slug cfg (outcome_status res) ?hash" "app_labels cfg"] u by simp
  show ?thesis
  proof (cases r)
    case (Inl e)
    with u k show ?thesis by (simp add: record_deploy_def Let_def)
  next
    case (Inr i)
    let ?s1 = "s\<lparr>rs_db := db\<rparr>"
    let ?s2 = "if refusedByDeployer (dr_Err res) then ?s1 else with_version env i (a_compose_path cfg) ?hash ?s1"
    have "rows_kept db (rs_db ?s2)" using CreateComposeVersion_kept by (auto simp: with_version_def split: file_read.split)
    moreover have "rows_kept (rs_db ?s2) (rs_db (snd (record_deploy env slug cfg res s)))"
      using CreateDeployEvent_kept u Inr by (simp add: record_deploy_def Let_def with_event_def)
    ultimately show ?thesis using k rows_kept_trans by blast
  qed
qed

lemma reconcile_app_kept:
  assumes "reconcile_app env current slug cfg s = Some s'"
  shows "rows_kept (rs_db s) (rs_db s')"
proof -
  let ?s1 = "normalize_path env (row_by_slug current slug) cfg s"
  have k1: "rows_kept (rs_db s) (rs_db ?s1)" using UpsertApp_kept by (auto simp: normalize_path_def split: option.split)
  consider "s' = ?s1" | "s' = reconcileAfterDeploy slug ?s1" | r where "deployApp env slug cfg ?s1 = Some (r, s')"
    using assms by (auto simp: reconcile_app_def Let_def split: if_splits)
  then show ?thesis
  proof cases
    case 3
    then obtain auths res dep where
      "(r, s') = (if dr_Skipped res then (None, reconcileAfterDeploy slug (?s1\<lparr>rs_dep := dep\<rparr>)) else record_deploy env slug cfg res (?s1\<lparr>rs_dep := dep\<rparr>))"
      using deployApp_cases by metis
    then have "s' = (if dr_Skipped res then reconcileAfterDeploy slug (?s1\<lparr>rs_dep := dep\<rparr>)
        else snd (record_deploy env slug cfg res (?s1\<lparr>rs_dep := dep\<rparr>)))"
      by (metis snd_conv)
    then have "rows_kept (rs_db ?s1) (rs_db s')"
      using record_deploy_kept [of "?s1\<lparr>rs_dep := dep\<rparr>" env slug cfg res]
      by (cases "dr_Skipped res") (simp_all add: reconcileAfterDeploy_def)
    with k1 show ?thesis by (rule rows_kept_trans)
  qed (use k1 in \<open>auto simp: reconcileAfterDeploy_def\<close>)
qed

lemma reconcile_apps_kept: "reconcile_apps env current ds s = Some s' \<Longrightarrow> rows_kept (rs_db s) (rs_db s')"
proof (induction env current ds s rule: reconcile_apps.induct)
  case (2 env current slug cfg rest s)
  then obtain s1 where s1: "reconcile_app env current slug cfg s = Some s1" "reconcile_apps env current rest s1 = Some s'"
    by (auto simp: bind_eq_Some_conv)
  from rows_kept_trans [OF reconcile_app_kept [OF s1(1)] "2.IH" [OF s1]] show ?case .
qed simp

lemma archiveApp_rows:
  assumes "\<not> sql_fails (rv_sql env) ''MarkAppArchived''"
  shows "rs_db (snd (archiveApp env slug s)) = update_apps slug (\<lambda>a. a\<lparr>app_ArchivedAt := Some (rv_now env)\<rparr>) (rs_db s)"
  using assms by (simp add: archiveApp_def MarkAppArchived_def Let_def)

lemma map_filter_set: "set (map g (filter P (map f xs))) = {g (f a) |a. a \<in> set xs \<and> P (f a)}"
  by auto

lemma archived_slugs_alt: "archived_slugs d = set (map app_Slug (filter (\<lambda>a. app_ArchivedAt a \<noteq> None) (ad_apps d)))"
  by (auto simp: archived_slugs_def)

lemma archive_mark:
  "archived_slugs (update_apps slug (\<lambda>a. a\<lparr>app_ArchivedAt := Some t\<rparr>) d) = archived_slugs d \<union> (if slug \<in> app_slugs d then {slug} else {})"
  "app_slugs (update_apps slug (\<lambda>a. a\<lparr>app_ArchivedAt := Some t\<rparr>) d) = app_slugs d"
proof -
  let ?f = "\<lambda>a. if app_Slug a = slug then a\<lparr>app_ArchivedAt := Some t\<rparr> else a"
  have P: "(app_ArchivedAt (?f a) \<noteq> None) = (app_Slug a = slug \<or> app_ArchivedAt a \<noteq> None)" for a by simp
  have S: "app_Slug (?f a) = app_Slug a" for a by simp
  have apps: "ad_apps (update_apps slug (\<lambda>a. a\<lparr>app_ArchivedAt := Some t\<rparr>) d) = map ?f (ad_apps d)" by (simp add: update_apps_def)
  have "archived_slugs (update_apps slug (\<lambda>a. a\<lparr>app_ArchivedAt := Some t\<rparr>) d) =
      {app_Slug a |a. a \<in> set (ad_apps d) \<and> (app_Slug a = slug \<or> app_ArchivedAt a \<noteq> None)}"
    unfolding archived_slugs_alt apps map_filter_set P S ..
  then show "archived_slugs (update_apps slug (\<lambda>a. a\<lparr>app_ArchivedAt := Some t\<rparr>) d) = archived_slugs d \<union> (if slug \<in> app_slugs d then {slug} else {})"
    by (auto simp: archived_slugs_def app_slugs_def)
  show "app_slugs (update_apps slug (\<lambda>a. a\<lparr>app_ArchivedAt := Some t\<rparr>) d) = app_slugs d"
    unfolding app_slugs_def apps set_map image_image S ..
qed

lemma archive_apps_rows:
  assumes "\<not> sql_fails (rv_sql env) ''MarkAppArchived''"
  shows "app_slugs (rs_db (archive_apps env scan as s)) = app_slugs (rs_db s) \<and>
    archived_slugs (rs_db (archive_apps env scan as s)) =
      archived_slugs (rs_db s) \<union> {app_Slug a |a. a \<in> set as \<and> archive_due env scan s a \<and> app_Slug a \<in> app_slugs (rs_db s)}"
proof (induction as arbitrary: s)
  case (Cons a as)
  let ?s1 = "if archive_due env scan s a then snd (archiveApp env (app_Slug a) s) else s"
  have d: "same_disk s ?s1" using archiveApp_tidy [of env s "app_Slug a"] by (auto simp: tidy_def)
  note due = archive_due_disk [OF d, of env scan]
  show ?case
    using Cons.IH [of ?s1] unfolding due
    by (cases "archive_due env scan s a") (auto simp: archiveApp_rows [OF assms] archive_mark)
qed simp

lemma updateProxyRoutes_db [simp]: "rs_db (updateProxyRoutes env scan s) = rs_db s"
  by (auto simp: updateProxyRoutes_def split: option.split)

definition gone :: "recon_env \<Rightarrow> scanResult \<Rightarrow> recon \<Rightarrow> string \<Rightarrow> bool" where
  "gone env scan s slug \<longleftrightarrow> map_of (sn_desired scan) slug = None \<and> map_of (sn_refused scan) slug = None \<and>
     stat_fails (rs_files s) (compose_file env slug)"

lemma Reconcile_archived:
  assumes "Reconcile env s = Some (None, s')" "scanAppsDir env s = (Some scan, s1)"
    and "\<not> sql_fails (rv_sql env) ''MarkAppArchived''"
  shows "archived_slugs (rs_db s') = archived_slugs (rs_db s) \<union> {slug \<in> active_slugs (rs_db s). gone env scan s1 slug}"
  using assms(1)
proof (cases rule: Reconcile_cases)
  case (went scan' current s1' s2)
  with assms(2) have eq: "scan' = scan" "s1' = s1" by simp_all
  have db1: "rs_db s1 = rs_db s" using scanAppsDir_dep [OF assms(2)] by simp
  have disk: "same_disk s1 s2" using reconcile_apps_tidy went(3) eq by (auto simp: tidy_def)
  have kept: "rows_kept (rs_db s) (rs_db s2)" using reconcile_apps_kept went(3) eq db1 by fastforce
  have cur: "set current = {a \<in> set (ad_apps (rs_db s)). app_ArchivedAt a = None}"
    using went(2) db1 eq by (auto simp: ListApps_def ListAppsWithOptions_def split: if_splits)
  have "archived_slugs (rs_db s') = archived_slugs (rs_db s2) \<union>
      {app_Slug a |a. a \<in> set current \<and> archive_due env scan s2 a \<and> app_Slug a \<in> app_slugs (rs_db s2)}"
    using archive_apps_rows [OF assms(3), of scan current s2] went(4) eq by simp
  also have "archived_slugs (rs_db s2) = archived_slugs (rs_db s)" using kept by (simp add: rows_kept_def)
  also have "{app_Slug a |a. a \<in> set current \<and> archive_due env scan s2 a \<and> app_Slug a \<in> app_slugs (rs_db s2)} =
      {slug \<in> active_slugs (rs_db s). gone env scan s1 slug}"
  proof -
    have "app_Slug a \<in> app_slugs (rs_db s2)" if "a \<in> set current" for a
      using that cur kept by (auto simp: rows_kept_def app_slugs_def)
    moreover have "archive_due env scan s2 a \<longleftrightarrow> gone env scan s1 (app_Slug a)" if "a \<in> set current" for a
      using that cur unfolding archive_due_disk [OF disk] by (simp add: archive_due_def gone_def)
    ultimately show ?thesis using cur by (auto simp: active_slugs_def)
  qed
  finally show ?thesis .
qed simp_all

text \<open>
  A reconciliation archives exactly the active apps whose compose file cannot be found: not one that is
  still on disk, be it unchanged, refused by the security rules or unreadable; and an archived app stays archived.
\<close>

theorem Reconcile_archives:
  assumes "Reconcile env s = Some (None, s')" "scanAppsDir env s = (Some scan, s1)"
    and "\<not> sql_fails (rv_sql env) ''MarkAppArchived''"
  shows "archived_slugs (rs_db s') = archived_slugs (rs_db s) \<union> {slug \<in> active_slugs (rs_db s). gone env scan s1 slug}"
  by (rule Reconcile_archived [OF assms])

subsection \<open>Rows by slug\<close>

lemma find_key: "distinct (map g xs) \<Longrightarrow> find (\<lambda>a. g a = k) xs = Some a \<longleftrightarrow> a \<in> set xs \<and> g a = k"
  by (induction xs) (auto simp: image_iff)

lemma find_key_None: "find (\<lambda>a. g a = k) xs = None \<longleftrightarrow> k \<notin> g ` set xs"
  by (induction xs) auto

lemma find_key_map:
  "(\<And>a. g (f a) = g a) \<Longrightarrow> find (\<lambda>a. g a = k) (map (\<lambda>a. if g a = j then f a else a) xs) =
    (if k = j then map_option f (find (\<lambda>a. g a = k) xs) else find (\<lambda>a. g a = k) xs)"
  by (induction xs) auto

lemma find_key_append: "find (\<lambda>a. g a = k) (xs @ [b]) =
    (case find (\<lambda>a. g a = k) xs of Some a \<Rightarrow> Some a | None \<Rightarrow> if g b = k then Some b else None)"
  by (induction xs) auto

definition slugs_distinct :: "app_db \<Rightarrow> bool" where
  "slugs_distinct d \<longleftrightarrow> distinct (map app_Slug (ad_apps d))"

lemma update_apps_slugs: "(\<And>a. app_Slug (f a) = app_Slug a) \<Longrightarrow> map app_Slug (ad_apps (update_apps slug f d)) = map app_Slug (ad_apps d)"
  by (simp add: update_apps_def)

lemma app_by_slug_update: "(\<And>a. app_Slug (f a) = app_Slug a) \<Longrightarrow>
    app_by_slug (update_apps slug f d) k = (if k = slug then map_option f (app_by_slug d k) else app_by_slug d k)"
  by (simp add: app_by_slug_def update_apps_def find_key_map)

lemma app_by_slug_apps: "ad_apps d' = ad_apps d \<Longrightarrow> app_by_slug d' = app_by_slug d"
  by (simp add: app_by_slug_def fun_eq_iff)

lemma UpsertApp_by_slug:
  assumes "\<not> sql_fails e ''UpsertApp''" "app_status_ok (app_Status a)" "slugs_distinct d"
  shows "app_by_slug (snd (UpsertApp e a labels d)) k =
      (if k = app_Slug a
       then Some (case app_by_slug d k of Some old \<Rightarrow> set_app_row e a old | None \<Rightarrow> new_app_row e (ad_apps_seq d + 1) a)
       else app_by_slug d k) \<and>
    slugs_distinct (snd (UpsertApp e a labels d)) \<and>
    app_slugs (snd (UpsertApp e a labels d)) = insert (app_Slug a) (app_slugs d) \<and> (\<exists>i. fst (UpsertApp e a labels d) = Inr i)"
proof (cases "app_by_slug d (app_Slug a)")
  case None
  let ?d = "d\<lparr>ad_apps := ad_apps d @ [new_app_row e (ad_apps_seq d + 1) a], ad_apps_seq := ad_apps_seq d + 1\<rparr>"
  have eq: "snd (UpsertApp e a labels d) = replace_labels (ad_apps_seq d + 1) labels ?d" "fst (UpsertApp e a labels d) = Inr (ad_apps_seq d + 1)"
    using assms None by (simp_all add: UpsertApp_def Let_def)
  have apps: "ad_apps (snd (UpsertApp e a labels d)) = ad_apps d @ [new_app_row e (ad_apps_seq d + 1) a]"
    unfolding eq by (simp add: replace_labels_def)
  have "app_Slug a \<notin> app_Slug ` set (ad_apps d)" using None by (simp add: app_by_slug_def find_key_None)
  then show ?thesis
    using assms(3) None eq(2) find_key_append [of app_Slug k "ad_apps d"]
    by (auto simp: app_by_slug_def apps slugs_distinct_def app_slugs_def new_app_row_def split: option.split)
next
  case (Some old)
  have sl: "app_Slug (set_app_row e a r) = app_Slug r" for r by (simp add: set_app_row_def)
  have eq: "snd (UpsertApp e a labels d) = replace_labels (app_ID old) labels (update_apps (app_Slug a) (set_app_row e a) d)"
      "fst (UpsertApp e a labels d) = Inr (app_ID old)"
    using assms Some by (simp_all add: UpsertApp_def)
  have apps: "ad_apps (snd (UpsertApp e a labels d)) = ad_apps (update_apps (app_Slug a) (set_app_row e a) d)"
    unfolding eq by (simp add: replace_labels_def)
  have "app_Slug a \<in> app_slugs d" using Some find_key_None [of app_Slug "app_Slug a" "ad_apps d"]
    by (simp add: app_by_slug_def app_slugs_def)
  then show ?thesis
    using assms(3) Some eq(2) app_by_slug_update [OF sl, of "app_Slug a" d k] update_apps_slugs [OF sl, of "app_Slug a" d]
    unfolding app_by_slug_apps [OF apps] slugs_distinct_def app_slugs_def apps
    by (auto simp flip: set_map)
qed

lemma CreateComposeVersion_apps [simp]: "ad_apps (snd (CreateComposeVersion e i c h d)) = ad_apps d"
  by (simp add: CreateComposeVersion_def prune_versions_def Let_def)

lemma CreateDeployEvent_apps [simp]: "ad_apps (snd (CreateDeployEvent e slug act u detail d)) = ad_apps d"
  by (simp add: CreateDeployEvent_def)

lemma with_version_apps [simp]: "ad_apps (rs_db (with_version env i path h s)) = ad_apps (rs_db s)"
  by (simp add: with_version_def split: file_read.split)

lemma with_event_apps [simp]: "ad_apps (rs_db (with_event env slug act detail s)) = ad_apps (rs_db s)"
  by (simp add: with_event_def)

text \<open>The rows after a deploy that was not refused: those of the upsert.\<close>

lemma record_deploy_apps:
  assumes "\<not> sql_fails (rv_sql env) ''UpsertApp''" "\<not> refusedByDeployer (dr_Err res)" "slugs_distinct (rs_db s)"
  shows "ad_apps (rs_db (snd (record_deploy env slug cfg res s))) =
    ad_apps (snd (UpsertApp (rv_sql env) (row_of slug cfg (outcome_status res) (file_hash env s (a_compose_path cfg))) (app_labels cfg) (rs_db s)))"
proof -
  let ?row = "row_of slug cfg (outcome_status res) (file_hash env s (a_compose_path cfg))"
  have ok: "app_status_ok (app_Status ?row)" by (simp add: row_of_def outcome_status_def app_status_ok_def)
  obtain i where i: "fst (UpsertApp (rv_sql env) ?row (app_labels cfg) (rs_db s)) = Inr i"
    using UpsertApp_by_slug [OF assms(1) ok assms(3)] by blast
  obtain db where u: "UpsertApp (rv_sql env) ?row (app_labels cfg) (rs_db s) = (Inr i, db)"
    using i by (cases "UpsertApp (rv_sql env) ?row (app_labels cfg) (rs_db s)") auto
  show ?thesis using assms(2) u by (simp add: record_deploy_def Let_def)
qed

subsection \<open>Convergence\<close>

definition no_deploys :: "Deployer \<Rightarrow> bool" where
  "no_deploys d \<longleftrightarrow> tr_logs (dp_tracker d) = [] \<and> tr_flights (dp_tracker d) = []"

definition only_deploy :: "string \<Rightarrow> Deployer \<Rightarrow> bool" where
  "only_deploy slug d \<longleftrightarrow> set (map fst (tr_logs (dp_tracker d))) \<subseteq> {slug} \<and> set (tr_flights (dp_tracker d)) \<subseteq> {slug}"

lemma only_deploy_runs: "only_deploy slug d \<Longrightarrow> runs_only Q d d' \<Longrightarrow> only_deploy slug d'"
  unfolding only_deploy_def runs_only_def by (metis list.set_map)

lemma only_deploy_done: "only_deploy slug d \<Longrightarrow> no_deploys (done_log slug a s sv d)"
  by (auto simp: only_deploy_def no_deploys_def done_log_def DoneWithLogStatus_def filter_empty_conv removeAll_filter_not_eq)

lemma compose_up_settles:
  assumes "compose_up e app auths d = Some (res, d')" "accepted e (dp_trace d) app" "only_deploy (a_name app) d"
  shows "no_deploys d' \<and> \<not> dr_Skipped res \<and> \<not> refusedByDeployer (dr_Err res)"
  using assms(1)
proof (cases rule: compose_up_cases)
  case (refused err)
  with assms(2) show ?thesis by (simp flip: checkComposeFile_None)
next
  case no_config
  with only_deploy_done [OF assms(3)] show ?thesis by (simp add: refusedByDeployer_def)
next
  case (ran args out err ok cerr t1 d1)
  have "runs_only (\<lambda>_. True) d d1" by (rule runs_only_runCmd [OF _ ran(3)]) simp
  from only_deploy_runs [OF assms(3) this] have o: "only_deploy (a_name app) d1" .
  obtain d2 a s sv where d2: "runs_only quiet d1 d2" "d' = done_log (a_name app) a s sv d2"
    using finish_result_ends [OF ran(4)] by blast
  have "\<not> dr_Skipped res \<and> \<not> refusedByDeployer (dr_Err res)"
    using ran(4) by (cases ok) (auto simp: finish_result_def bind_eq_Some_conv refusedByDeployer_def)
  with only_deploy_done [OF only_deploy_runs [OF o d2(1)]] d2(2) show ?thesis by simp
qed

lemma Deploy_accepted:
  assumes "clock_runs e" "0 \<le> dv_timeout e" "no_deploys d" "accepted e (dp_trace d) app"
  obtains res d' where "Deploy e app auths d = Some (res, d')" "no_deploys d'" "\<not> dr_Skipped res" "\<not> refusedByDeployer (dr_Err res)"
proof -
  obtain t where tr: "TrackWithLog (a_name app) (dp_tracker d) = (True, t)"
      and o: "only_deploy (a_name app) (d\<lparr>dp_tracker := t\<rparr>)"
    using assms(3) by (simp add: TrackWithLog_def no_deploys_def only_deploy_def)
  obtain res d1 where c: "compose_up e app auths (d\<lparr>dp_tracker := t\<rparr>) = Some (res, d1)"
    using compose_up_returns [OF assms(1,2)] by blast
  have s: "no_deploys d1 \<and> \<not> dr_Skipped res \<and> \<not> refusedByDeployer (dr_Err res)"
    using compose_up_settles [OF c _ o] assms(4) by simp
  let ?r = "\<lparr>dae_AppSlug = a_name app, dae_Action = (if dr_Err res \<noteq> None then ''deploy_failed'' else ''deploy_succeeded''),
             dae_Version = 0, dae_ComposeVersionID = None, dae_Error = dr_Err res\<rparr>"
  have "Deploy e app auths d = Some (res, record_audit ?r d1)"
    unfolding Deploy_def tr prod.case using c by (simp add: Let_def)
  moreover have "no_deploys (record_audit ?r d1)" using s by (simp add: no_deploys_def record_audit_def)
  ultimately show ?thesis using that s by blast
qed

text \<open>An app in line with its file: one active row, with the path and the hash of the file.\<close>

definition settled :: "recon_env \<Rightarrow> recon \<Rightarrow> string \<times> AppConfig \<Rightarrow> bool" where
  "settled env s = (\<lambda>(slug, cfg).
     case app_by_slug (rs_db s) slug of
       None \<Rightarrow> False
     | Some a \<Rightarrow> app_ArchivedAt a = None \<and> app_ComposePath a = a_compose_path cfg \<and> app_ComposeHash a = file_hash env s (a_compose_path cfg))"

lemma file_hash_disk: "same_disk s s' \<Longrightarrow> file_hash env s' p = file_hash env s p"
  by (simp add: file_hash_def hashFile_def same_disk_def)

lemma settled_mono:
  assumes "same_disk s s'" "app_by_slug (rs_db s') slug = app_by_slug (rs_db s) slug"
  shows "settled env s' (slug, cfg) = settled env s (slug, cfg)"
  by (simp add: settled_def file_hash_disk [OF assms(1)] assms(2) split: option.split)

text \<open>What the loop over the desired apps works with.\<close>

definition loop_ok :: "recon_env \<Rightarrow> recon \<Rightarrow> bool" where
  "loop_ok env s \<longleftrightarrow> slugs_distinct (rs_db s) \<and> no_deploys (rs_dep s) \<and>
     (\<forall>a \<in> set (ad_apps (rs_db s)). app_status_ok (app_Status a))"

definition deployable :: "recon_env \<Rightarrow> recon \<Rightarrow> string \<times> AppConfig \<Rightarrow> bool" where
  "deployable env s = (\<lambda>(slug, cfg). (\<forall>tr. accepted (dep_env env s) tr cfg) \<and> file_hash env s (a_compose_path cfg) \<noteq> [])"

lemma deployable_disk: "same_disk s s' \<Longrightarrow> deployable env s' p = deployable env s p"
  by (simp add: deployable_def dep_env_disk file_hash_disk)

lemma UpsertApp_statuses:
  assumes "\<forall>a \<in> set (ad_apps d). app_status_ok (app_Status a)"
  shows "\<forall>a \<in> set (ad_apps (snd (UpsertApp e a labels d))). app_status_ok (app_Status a)"
  using assms by (auto simp: UpsertApp_def Let_def replace_labels_def update_apps_def set_app_row_def new_app_row_def split: option.split)

text \<open>A good upsert of one app's row: nothing else moves.\<close>

definition row_set :: "recon_env \<Rightarrow> string \<Rightarrow> App \<Rightarrow> recon \<Rightarrow> recon \<Rightarrow> bool" where
  "row_set env slug row s s' \<longleftrightarrow>
     app_by_slug (rs_db s') slug =
       Some (case app_by_slug (rs_db s) slug of Some old \<Rightarrow> set_app_row (rv_sql env) row old
         | None \<Rightarrow> new_app_row (rv_sql env) (ad_apps_seq (rs_db s) + 1) row) \<and>
     (\<forall>k. k \<noteq> slug \<longrightarrow> app_by_slug (rs_db s') k = app_by_slug (rs_db s) k) \<and> slugs_distinct (rs_db s') \<and>
     (\<forall>a \<in> set (ad_apps (rs_db s')). app_status_ok (app_Status a))"

lemma row_setI:
  assumes "\<not> sql_fails (rv_sql env) ''UpsertApp''" "loop_ok env s" "app_status_ok (app_Status row)" "app_Slug row = slug"
    and "ad_apps (rs_db s') = ad_apps (snd (UpsertApp (rv_sql env) row labels (rs_db s)))"
  shows "row_set env slug row s s'"
proof -
  have d: "slugs_distinct (rs_db s)" "\<forall>a \<in> set (ad_apps (rs_db s)). app_status_ok (app_Status a)" using assms(2) by (simp_all add: loop_ok_def)
  note up = UpsertApp_by_slug [OF assms(1,3) d(1), of labels]
  have "app_by_slug (rs_db s') = app_by_slug (snd (UpsertApp (rv_sql env) row labels (rs_db s)))"
    by (rule app_by_slug_apps [OF assms(5)])
  moreover have "slugs_distinct (rs_db s') = slugs_distinct (snd (UpsertApp (rv_sql env) row labels (rs_db s)))"
    by (simp add: slugs_distinct_def assms(5))
  ultimately show ?thesis
    using up UpsertApp_statuses [OF d(2)] assms(4) unfolding row_set_def assms(5) by simp
qed

lemma row_of_simps [simp]: "app_Slug (row_of slug cfg st h) = slug" "app_Status (row_of slug cfg st h) = st"
  "app_ComposePath (row_of slug cfg st h) = a_compose_path cfg" "app_ComposeHash (row_of slug cfg st h) = h"
  "app_ArchivedAt (row_of slug cfg st h) = None"
  by (simp_all add: row_of_def)

definition unarchived :: "App option \<Rightarrow> bool" where
  "unarchived a \<longleftrightarrow> (case a of None \<Rightarrow> True | Some a \<Rightarrow> app_ArchivedAt a = None)"

lemma row_set_settled:
  assumes "row_set env slug row s s'" "same_disk s s'" "unarchived (app_by_slug (rs_db s) slug)"
    and "app_ComposePath row = a_compose_path cfg" "app_ComposeHash row = file_hash env s (a_compose_path cfg)"
  shows "settled env s' (slug, cfg)"
  using assms(1,3-5)
  by (cases "app_by_slug (rs_db s) slug")
     (simp_all add: settled_def row_set_def file_hash_disk [OF assms(2)] unarchived_def set_app_row_def new_app_row_def)

lemma deployApp_settles:
  assumes "clock_runs (rv_dep env)" "0 \<le> dv_timeout (rv_dep env)" "\<not> sql_fails (rv_sql env) ''UpsertApp''"
    and "loop_ok env s" "deployable env s (slug, cfg)" "unarchived (app_by_slug (rs_db s) slug)"
  shows "\<exists>r s'. deployApp env slug cfg s = Some (r, s') \<and> loop_ok env s' \<and> settled env s' (slug, cfg) \<and>
    (\<forall>k. k \<noteq> slug \<longrightarrow> app_by_slug (rs_db s') k = app_by_slug (rs_db s) k)"
proof -
  let ?auths = "case resolveRegistries env cfg of Some a \<Rightarrow> a | None \<Rightarrow> []"
  have e: "clock_runs (dep_env env s)" "0 \<le> dv_timeout (dep_env env s)" using assms(1,2) by (simp_all add: dep_env_def clock_runs_def)
  have d: "no_deploys (rs_dep s)" "accepted (dep_env env s) (dp_trace (rs_dep s)) cfg"
    using assms(4,5) by (simp_all add: loop_ok_def deployable_def)
  obtain res dep where D: "Deploy (dep_env env s) cfg ?auths (rs_dep s) = Some (res, dep)" "no_deploys dep"
      "\<not> dr_Skipped res" "\<not> refusedByDeployer (dr_Err res)"
    using Deploy_accepted [OF e d] .
  let ?s1 = "s\<lparr>rs_dep := dep\<rparr>"
  obtain r s' where r: "record_deploy env slug cfg res ?s1 = (r, s')" by fastforce
  note t = record_deploy_tidy [OF r]
  let ?row = "row_of slug cfg (outcome_status res) (file_hash env ?s1 (a_compose_path cfg))"
  have disk: "same_disk s s'" using t by (simp add: same_disk_def)
  have "ad_apps (rs_db s') = ad_apps (snd (UpsertApp (rv_sql env) ?row (app_labels cfg) (rs_db s)))"
    using record_deploy_apps [OF assms(3) D(4), of ?s1 slug cfg] assms(4) r by (simp add: loop_ok_def)
  then have rs: "row_set env slug ?row s s'"
    by (rule row_setI [OF assms(3,4), rotated 2]) (simp_all add: outcome_status_def app_status_ok_def)
  have "file_hash env ?s1 (a_compose_path cfg) = file_hash env s (a_compose_path cfg)" by (rule file_hash_disk) (simp add: same_disk_def)
  then have "settled env s' (slug, cfg)" by (intro row_set_settled [OF rs disk assms(6)]) simp_all
  moreover have "loop_ok env s'" using rs t D(2) by (simp add: loop_ok_def row_set_def)
  moreover have "deployApp env slug cfg s = Some (r, s')" using D(1,3) r by (simp add: deployApp_def)
  ultimately show ?thesis using rs by (auto simp: row_set_def)
qed

lemma normalize_path_settles:
  fixes cfg :: AppConfig
  assumes "\<not> sql_fails (rv_sql env) ''UpsertApp''" "loop_ok env s" "app_by_slug (rs_db s) slug = existing" "unarchived existing"
  defines "s1 \<equiv> normalize_path env existing cfg s"
  shows "loop_ok env s1 \<and> unarchived (app_by_slug (rs_db s1) slug) \<and>
    (\<forall>k. k \<noteq> slug \<longrightarrow> app_by_slug (rs_db s1) k = app_by_slug (rs_db s) k) \<and>
    (\<not> needs_deploy env s existing cfg \<longrightarrow> file_hash env s (a_compose_path cfg) \<noteq> [] \<longrightarrow> settled env s1 (slug, cfg))"
proof (cases existing)
  case None
  with assms show ?thesis by (simp add: normalize_path_def needs_deploy_def)
next
  case (Some a)
  have a: "a \<in> set (ad_apps (rs_db s))" "app_Slug a = slug"
    using assms(3) Some by (auto simp: app_by_slug_def find_Some_iff)
  show ?thesis
  proof (cases "app_ComposePath a = a_compose_path cfg")
    case True
    with assms Some show ?thesis by (auto simp: normalize_path_def needs_deploy_def settled_def unarchived_def)
  next
    case False
    let ?row = "a\<lparr>app_ComposePath := a_compose_path cfg\<rparr>"
    have s1: "s1 = s\<lparr>rs_db := snd (UpsertApp (rv_sql env) ?row [] (rs_db s))\<rparr>" using Some False by (simp add: s1_def normalize_path_def)
    have rs: "row_set env slug ?row s s1"
      using assms(2) a by (intro row_setI [OF assms(1,2), where labels = "[]"]) (auto simp: s1 loop_ok_def)
    have disk: "same_disk s s1" "rs_dep s1 = rs_dep s" using normalize_path_tidy unfolding s1_def by blast+
    have ar: "unarchived (app_by_slug (rs_db s) slug)" using assms(3,4) by simp
    have "settled env s1 (slug, cfg)"
      if "\<not> needs_deploy env s existing cfg" "file_hash env s (a_compose_path cfg) \<noteq> []"
      using that Some by (intro row_set_settled [OF rs disk(1) ar]) (auto simp: needs_deploy_def)
    moreover have "unarchived (app_by_slug (rs_db s1) slug)"
      using rs assms(3,4) Some by (simp add: row_set_def unarchived_def set_app_row_def)
    moreover have "loop_ok env s1" using rs disk(2) assms(2) by (simp add: row_set_def loop_ok_def)
    ultimately show ?thesis using rs by (simp add: row_set_def)
  qed
qed

lemma reconcile_app_settles:
  assumes "clock_runs (rv_dep env)" "0 \<le> dv_timeout (rv_dep env)" "\<not> sql_fails (rv_sql env) ''UpsertApp''"
    and "loop_ok env s" "deployable env s (slug, cfg)" "row_by_slug current slug = app_by_slug (rs_db s) slug"
    and "unarchived (app_by_slug (rs_db s) slug)"
  shows "\<exists>s'. reconcile_app env current slug cfg s = Some s' \<and> loop_ok env s' \<and> settled env s' (slug, cfg) \<and>
    (\<forall>k. k \<noteq> slug \<longrightarrow> app_by_slug (rs_db s') k = app_by_slug (rs_db s) k)"
proof -
  let ?ex = "app_by_slug (rs_db s) slug"
  let ?s1 = "normalize_path env ?ex cfg s"
  note n = normalize_path_settles [OF assms(3,4) refl assms(7), of cfg]
  have disk: "same_disk s ?s1" using normalize_path_tidy by blast
  show ?thesis
  proof (cases "needs_deploy env s ?ex cfg")
    case False
    with n assms(5) show ?thesis by (auto simp: reconcile_app_def Let_def assms(6) deployable_def)
  next
    case True
    have "\<not> recon_deploying slug ?s1" using n by (simp add: loop_ok_def no_deploys_def recon_deploying_def IsDeploying_def)
    moreover have "deployable env ?s1 (slug, cfg)" using assms(5) deployable_disk [OF disk] by blast
    with deployApp_settles [OF assms(1-3)] n obtain r s' where
      "deployApp env slug cfg ?s1 = Some (r, s')" "loop_ok env s'" "settled env s' (slug, cfg)"
      "\<forall>k. k \<noteq> slug \<longrightarrow> app_by_slug (rs_db s') k = app_by_slug (rs_db ?s1) k" by blast
    ultimately show ?thesis using True n by (simp add: reconcile_app_def Let_def assms(6))
  qed
qed

lemma reconcile_apps_settles:
  assumes "clock_runs (rv_dep env)" "0 \<le> dv_timeout (rv_dep env)" "\<not> sql_fails (rv_sql env) ''UpsertApp''"
  shows "loop_ok env s \<Longrightarrow> distinct (map fst ds) \<Longrightarrow>
    (\<forall>p \<in> set ds. deployable env s p \<and> row_by_slug current (fst p) = app_by_slug (rs_db s) (fst p) \<and> unarchived (app_by_slug (rs_db s) (fst p))) \<Longrightarrow>
    \<exists>s'. reconcile_apps env current ds s = Some s' \<and> loop_ok env s' \<and> (\<forall>p \<in> set ds. settled env s' p) \<and>
      (\<forall>k. k \<notin> fst ` set ds \<longrightarrow> app_by_slug (rs_db s') k = app_by_slug (rs_db s) k)"
proof (induction ds arbitrary: s)
  case (Cons p ds)
  obtain slug cfg where p: "p = (slug, cfg)" by fastforce
  obtain s1 where s1: "reconcile_app env current slug cfg s = Some s1" "loop_ok env s1" "settled env s1 (slug, cfg)"
      "\<forall>k. k \<noteq> slug \<longrightarrow> app_by_slug (rs_db s1) k = app_by_slug (rs_db s) k"
    using reconcile_app_settles [OF assms Cons.prems(1), of slug cfg current] Cons.prems(3) p by auto
  have disk: "same_disk s s1" using reconcile_app_tidy [OF s1(1)] by (simp add: tidy_def)
  have "\<forall>q \<in> set ds. fst q \<noteq> slug" using Cons.prems(2) p by force
  then have "\<forall>q \<in> set ds. deployable env s1 q \<and> row_by_slug current (fst q) = app_by_slug (rs_db s1) (fst q) \<and> unarchived (app_by_slug (rs_db s1) (fst q))"
    using Cons.prems(3) s1(4) deployable_disk [OF disk] by simp
  with Cons.IH [OF s1(2)] Cons.prems(2) obtain s' where s': "reconcile_apps env current ds s1 = Some s'" "loop_ok env s'"
      "\<forall>q \<in> set ds. settled env s' q" "\<forall>k. k \<notin> fst ` set ds \<longrightarrow> app_by_slug (rs_db s') k = app_by_slug (rs_db s1) k" by auto
  have "slug \<notin> fst ` set ds" using Cons.prems(2) p by simp
  then have "app_by_slug (rs_db s') slug = app_by_slug (rs_db s1) slug" using s'(4) by simp
  moreover have "same_disk s1 s'" using reconcile_apps_tidy [OF s'(1)] by (simp add: tidy_def)
  ultimately have "settled env s' (slug, cfg)" using s1(3) settled_mono by blast
  with s1 s' p show ?case by auto
qed simp

lemma ListApps_set:
  assumes "ListApps e d = Inr current"
  shows "set current = {a \<in> set (ad_apps d). app_ArchivedAt a = None}"
  using assms by (auto simp: ListApps_def ListAppsWithOptions_def split: if_splits)

lemma app_by_slug_row: "slugs_distinct d \<Longrightarrow> app_by_slug d slug = Some a \<longleftrightarrow> a \<in> set (ad_apps d) \<and> app_Slug a = slug"
  unfolding app_by_slug_def slugs_distinct_def by (rule find_key)

lemma active_not_archived:
  assumes "slugs_distinct d" "slug \<in> active_slugs d"
  shows "slug \<notin> archived_slugs d"
proof
  assume "slug \<in> archived_slugs d"
  then obtain a where "a \<in> set (ad_apps d)" "app_Slug a = slug" "app_ArchivedAt a \<noteq> None" by (auto simp: archived_slugs_def)
  moreover obtain b where "b \<in> set (ad_apps d)" "app_Slug b = slug" "app_ArchivedAt b = None"
    using assms(2) by (auto simp: active_slugs_def)
  ultimately show False using app_by_slug_row [OF assms(1), of slug a] app_by_slug_row [OF assms(1), of slug b] by auto
qed

lemma row_by_slug_listed:
  assumes "slugs_distinct d" "ListApps e d = Inr current" "unarchived (app_by_slug d slug)"
  shows "row_by_slug current slug = app_by_slug d slug"
proof (cases "app_by_slug d slug")
  case None
  then have "row_by_slug current slug = None"
    using ListApps_set [OF assms(2)] unfolding row_by_slug_def app_by_slug_def find_key_None by auto
  with None show ?thesis by simp
next
  case (Some a)
  have key: "b = a" if "b \<in> set (ad_apps d)" "app_Slug b = slug" for b
    using Some that app_by_slug_row [OF assms(1), of slug b] by simp
  have "a \<in> set current" "app_Slug a = slug"
    using Some assms(3) app_by_slug_row [OF assms(1), of slug a] ListApps_set [OF assms(2)] by (simp_all add: unarchived_def)
  then have "row_by_slug current slug \<noteq> None" unfolding row_by_slug_def find_key_None by auto
  then obtain b where b: "row_by_slug current slug = Some b" by auto
  then have "b \<in> set current" "app_Slug b = slug" by (auto simp: row_by_slug_def find_Some_iff)
  with key ListApps_set [OF assms(2)] have "b = a" by auto
  with b Some show ?thesis by simp
qed

lemma archive_apps_desired:
  assumes "map_of (sn_desired scan) slug \<noteq> None"
  shows "app_by_slug (rs_db (archive_apps env scan as s)) slug = app_by_slug (rs_db s) slug"
proof (induction as arbitrary: s)
  case (Cons a as)
  let ?s1 = "if archive_due env scan s a then snd (archiveApp env (app_Slug a) s) else s"
  have "app_by_slug (rs_db ?s1) slug = app_by_slug (rs_db s) slug"
  proof (cases "archive_due env scan s a \<and> \<not> sql_fails (rv_sql env) ''MarkAppArchived''")
    case True
    then have "slug \<noteq> app_Slug a" using assms by (auto simp: archive_due_def)
    with True show ?thesis by (simp add: archiveApp_rows app_by_slug_update)
  qed (auto simp: archiveApp_def MarkAppArchived_def Let_def)
  with Cons.IH [of ?s1] show ?case by simp
qed simp

lemma archive_apps_none: "\<forall>a \<in> set as. \<not> archive_due env scan s a \<Longrightarrow> archive_apps env scan as s = s"
  by (induction as) auto

lemma archive_apps_distinct: "slugs_distinct (rs_db (archive_apps env scan as s)) = slugs_distinct (rs_db s)"
proof (induction as arbitrary: s)
  case (Cons a as)
  have "slugs_distinct (rs_db (snd (archiveApp env (app_Slug a) s))) = slugs_distinct (rs_db s)"
    by (cases "sql_fails (rv_sql env) ''MarkAppArchived''")
       (simp_all add: archiveApp_rows slugs_distinct_def update_apps_slugs, simp add: archiveApp_def MarkAppArchived_def Let_def)
  with Cons.IH show ?case by simp
qed simp

lemma reconcile_app_settled:
  assumes "settled env s (slug, cfg)" "row_by_slug current slug = app_by_slug (rs_db s) slug"
  shows "reconcile_app env current slug cfg s = Some s"
  using assms(1)
  by (cases "app_by_slug (rs_db s) slug")
     (auto simp: settled_def reconcile_app_def assms(2) needs_deploy_def normalize_path_def Let_def)

lemma reconcile_apps_settled:
  "\<forall>p \<in> set ds. settled env s p \<and> row_by_slug current (fst p) = app_by_slug (rs_db s) (fst p) \<Longrightarrow>
    reconcile_apps env current ds s = Some s"
  by (induction ds) (auto simp: reconcile_app_settled)

text \<open>A store and a proxy in line with the folder are left alone.\<close>

lemma Reconcile_idle:
  assumes "scanAppsDir env s = (Some scan, s)" "\<not> sql_fails (rv_sql env) ''ListAppsWithOptions''" "slugs_distinct (rs_db s)"
    and "\<forall>p \<in> set (sn_desired scan). settled env s p" "\<forall>slug \<in> active_slugs (rs_db s). \<not> gone env scan s slug"
  shows "Reconcile env s = Some (None, updateProxyRoutes env scan s)"
proof -
  obtain current where c: "ListApps (rv_sql env) (rs_db s) = Inr current"
    using assms(2) by (simp add: ListApps_def ListAppsWithOptions_def)
  have "row_by_slug current (fst p) = app_by_slug (rs_db s) (fst p)" if "p \<in> set (sn_desired scan)" for p
  proof (rule row_by_slug_listed [OF assms(3) c])
    from assms(4) that have "settled env s (fst p, snd p)" by simp
    then show "unarchived (app_by_slug (rs_db s) (fst p))" by (auto simp: settled_def unarchived_def split: option.splits)
  qed
  then have "reconcile_apps env current (sn_desired scan) s = Some s" using assms(4) by (intro reconcile_apps_settled) auto
  moreover have "\<not> archive_due env scan s a" if "a \<in> set current" for a
  proof -
    have "app_ArchivedAt a = None" "app_Slug a \<in> active_slugs (rs_db s)"
      using that ListApps_set [OF c] by (auto simp: active_slugs_def)
    with assms(5) show ?thesis by (auto simp: archive_due_def gone_def)
  qed
  ultimately show ?thesis using c archive_apps_none by (simp add: Reconcile_def assms(1))
qed

text \<open>
  Property C7. Reconciling converges: when every app of the folder stays acceptable, has a file that can be hashed and no
  archived row, the folder's slugs and those of the rows are distinct, the rows' statuses are known ones, no deploy is
  running, the database answers and the clock runs, it returns, whatever docker answers; every app of the folder then
  has its row, active and with the path and hash of its file, no active row is left without its file, and another run
  that scans the same folder to the same result deploys and archives nothing: it runs no command and leaves the store
  as it is. An app that is added again after it was archived is not covered (see \<open>archived_app_redeployed\<close>).
\<close>

theorem Reconcile_converges:
  assumes "clock_runs (rv_dep env)" "0 \<le> dv_timeout (rv_dep env)" "\<And>oper. \<not> sql_fails (rv_sql env) oper"
    and "loop_ok env s" "scanAppsDir env s = (Some scan, s1)" "distinct (map fst (sn_desired scan))"
    and "\<forall>p \<in> set (sn_desired scan). deployable env s1 p \<and> unarchived (app_by_slug (rs_db s) (fst p))"
  shows "\<exists>s'. Reconcile env s = Some (None, s') \<and> (\<forall>p \<in> set (sn_desired scan). settled env s' p) \<and>
    (\<forall>slug \<in> active_slugs (rs_db s'). \<not> gone env scan s1 slug) \<and>
    (scanAppsDir env s' = (Some scan, s') \<longrightarrow>
       (\<exists>s''. Reconcile env s' = Some (None, s'') \<and> rs_db s'' = rs_db s' \<and> rs_dep s'' = rs_dep s'))"
proof -
  note dep1 = scanAppsDir_dep [OF assms(5)]
  obtain current where c: "ListApps (rv_sql env) (rs_db s1) = Inr current"
    using assms(3) by (simp add: ListApps_def ListAppsWithOptions_def)
  have ok1: "loop_ok env s1" using assms(4) dep1 by (simp add: loop_ok_def)
  then have "\<forall>p \<in> set (sn_desired scan). deployable env s1 p \<and> row_by_slug current (fst p) = app_by_slug (rs_db s1) (fst p) \<and>
      unarchived (app_by_slug (rs_db s1) (fst p))"
    using assms(7) dep1 row_by_slug_listed [OF _ c] by (simp add: loop_ok_def)
  with reconcile_apps_settles [OF assms(1-3) ok1 assms(6)] obtain s2 where
    s2: "reconcile_apps env current (sn_desired scan) s1 = Some s2" "loop_ok env s2" "\<forall>p \<in> set (sn_desired scan). settled env s2 p"
      "\<forall>k. k \<notin> fst ` set (sn_desired scan) \<longrightarrow> app_by_slug (rs_db s2) k = app_by_slug (rs_db s1) k"
    by blast
  let ?s3 = "archive_apps env scan current s2"
  let ?s' = "updateProxyRoutes env scan ?s3"
  have R: "Reconcile env s = Some (None, ?s')" using s2(1) c by (simp add: Reconcile_def assms(5))
  have disk: "same_disk s2 ?s'" "same_disk s1 ?s'"
    using archive_apps_tidy reconcile_apps_tidy [OF s2(1)] updateProxyRoutes_tidy same_disk_trans unfolding tidy_def by blast+
  have settled: "settled env ?s' p" if "p \<in> set (sn_desired scan)" for p
  proof -
    obtain slug cfg where p: "p = (slug, cfg)" by fastforce
    have "map_of (sn_desired scan) slug \<noteq> None" using that unfolding p map_of_eq_None_iff by force
    then have "app_by_slug (rs_db ?s') slug = app_by_slug (rs_db s2) slug" by (simp add: archive_apps_desired)
    with s2(3) that p settled_mono [OF disk(1)] show ?thesis by blast
  qed
  have distinct: "slugs_distinct (rs_db ?s')" using s2(2) by (simp add: archive_apps_distinct loop_ok_def)
  note archived = Reconcile_archived [OF R assms(5,3)]
  have none_gone: "\<not> gone env scan s1 slug" if active: "slug \<in> active_slugs (rs_db ?s')" for slug
  proof
    assume gone: "gone env scan s1 slug"
    obtain a where a: "a \<in> set (ad_apps (rs_db ?s'))" "app_Slug a = slug" "app_ArchivedAt a = None"
      using active by (auto simp: active_slugs_def)
    have "slug \<notin> archived_slugs (rs_db ?s')"
      by (rule active_not_archived [OF distinct active])
    then have "slug \<notin> active_slugs (rs_db s)" "slug \<notin> archived_slugs (rs_db s)" using gone archived by auto
    then have "slug \<notin> app_slugs (rs_db s1)" using dep1 by (auto simp: active_slugs_def archived_slugs_def app_slugs_def)
    moreover have "slug \<notin> fst ` set (sn_desired scan)" using gone by (simp add: gone_def map_of_eq_None_iff)
    ultimately have "app_by_slug (rs_db s2) slug = None"
      using s2(4) find_key_None [of app_Slug slug "ad_apps (rs_db s1)"] by (simp add: app_by_slug_def app_slugs_def)
    then have "slug \<notin> app_slugs (rs_db ?s')"
      using archive_apps_rows [OF assms(3), of scan current s2] unfolding app_by_slug_def find_key_None by (simp add: app_slugs_def)
    with a show False by (auto simp: app_slugs_def)
  qed
  have "\<exists>s''. Reconcile env ?s' = Some (None, s'') \<and> rs_db s'' = rs_db ?s' \<and> rs_dep s'' = rs_dep ?s'"
    if again: "scanAppsDir env ?s' = (Some scan, ?s')"
  proof -
    have "gone env scan ?s' = gone env scan s1" using disk(2) unfolding gone_def same_disk_def by presburger
    then have "Reconcile env ?s' = Some (None, updateProxyRoutes env scan ?s')"
      using none_gone settled by (intro Reconcile_idle [OF again assms(3) distinct]) auto
    then show ?thesis using updateProxyRoutes_tidy by auto
  qed
  with R settled none_gone show ?thesis by blast
qed

subsection \<open>Refreshing the statuses\<close>

text \<open>What a refresh may do to a row: flip its status between running and unstable.\<close>

definition flips :: "App \<Rightarrow> App \<Rightarrow> bool" where
  "flips a b \<longleftrightarrow> b\<lparr>app_UpdatedAt := app_UpdatedAt a, app_Status := app_Status a\<rparr> = a \<and>
     (app_Status b = app_Status a \<or> {app_Status a, app_Status b} = {''running'', ''unstable''})"

lemma flips_refl [simp]: "flips a a"
  by (simp add: flips_def)

lemma flips_trans: "flips a b \<Longrightarrow> flips b c \<Longrightarrow> flips a c"
  unfolding flips_def by (cases a; cases b; cases c) auto

definition rows_flip :: "(string \<Rightarrow> bool) \<Rightarrow> app_db \<Rightarrow> app_db \<Rightarrow> bool" where
  "rows_flip may d d' \<longleftrightarrow> d'\<lparr>ad_apps := ad_apps d\<rparr> = d \<and>
     list_all2 (\<lambda>a b. b = a \<or> may (app_Slug a) \<and> flips a b) (ad_apps d) (ad_apps d')"

lemma rows_flip_refl [simp]: "rows_flip may d d"
  by (simp add: rows_flip_def list_all2_refl)

lemma rows_flip_trans:
  assumes "rows_flip may d d1" "rows_flip may d1 d2"
  shows "rows_flip may d d2"
proof -
  have slug: "app_Slug b = app_Slug a" if "flips a b" for a b using that by (cases a; cases b) (auto simp: flips_def)
  have "list_all2 (\<lambda>a b. b = a \<or> may (app_Slug a) \<and> flips a b) (ad_apps d) (ad_apps d2)"
    by (rule list_all2_trans [OF _ assms(1) [unfolded rows_flip_def, THEN conjunct2] assms(2) [unfolded rows_flip_def, THEN conjunct2]])
       (use flips_trans slug in metis)
  moreover have "d2\<lparr>ad_apps := ad_apps d\<rparr> = d"
    using assms by (cases d; cases d1; cases d2) (simp add: rows_flip_def)
  ultimately show ?thesis by (simp add: rows_flip_def)
qed

lemma rows_flip_length: "rows_flip may d d' \<Longrightarrow> length (ad_apps d') = length (ad_apps d)"
  using list_all2_lengthD unfolding rows_flip_def by fastforce

lemma rows_flip_mono: "rows_flip may d d' \<Longrightarrow> (\<And>k. may k \<Longrightarrow> may' k) \<Longrightarrow> rows_flip may' d d'"
  unfolding rows_flip_def by (auto elim!: list_all2_mono)

lemma flipped_status_pair:
  "status \<in> {''running'', ''unstable''} \<Longrightarrow> flipped_status status services = status \<or> {status, flipped_status status services} = {''running'', ''unstable''}"
  by (auto simp: flipped_status_def Let_def)

text \<open>One step: nothing but the app's own status, flipped and published.\<close>

lemma refresh_status_cases:
  obtains (same) "rs_db (refresh_status env app s) = rs_db s" "rs_bus (refresh_status env app s) = rs_bus s"
  | (flip) new where "rs_db (refresh_status env app s) =
        update_apps (app_Slug app) (\<lambda>a. a\<lparr>app_Status := new, app_UpdatedAt := sql_now (rv_sql env)\<rparr>) (rs_db s)"
      "{app_Status app, new} = {''running'', ''unstable''}" "\<not> recon_deploying (app_Slug app) s"
      "rs_bus (refresh_status env app s) = rs_bus s @ [''app:'' @ app_Slug app, ''global:apps'']"
proof -
  obtain r dep where st: "Status (dep_env env s) (app_Slug app) (rs_dep s) = (r, dep)" by fastforce
  show ?thesis
  proof (cases "app_Status app \<in> {''running'', ''unstable''} \<and> \<not> recon_deploying (app_Slug app) s")
    case False
    then show ?thesis by (intro same) (auto simp: refresh_status_def Let_def)
  next
    case steady: True
    show ?thesis
    proof (cases r)
      case (Inl err)
      then show ?thesis by (intro same) (auto simp: refresh_status_def Let_def st)
    next
      case (Inr services)
      let ?new = "flipped_status (app_Status app) services"
      show ?thesis
      proof (cases "services = [] \<or> ?new = app_Status app")
        case True
        then show ?thesis using Inr st by (intro same) (auto simp: refresh_status_def Let_def)
      next
        case False
        obtain err db where u: "UpdateAppStatus (rv_sql env) (app_Slug app) ?new (rs_db s) = (err, db)" by fastforce
        have eq: "refresh_status env app s =
          (case err of Some _ \<Rightarrow> s\<lparr>rs_dep := dep, rs_db := db\<rparr>
           | None \<Rightarrow> s\<lparr>rs_dep := dep, rs_db := db, rs_bus := rs_bus s @ [''app:'' @ app_Slug app, ''global:apps'']\<rparr>)"
          using steady False Inr st u by (auto simp: refresh_status_def Let_def split: option.split)
        have db: "db = (if err = None then update_apps (app_Slug app) (\<lambda>a. a\<lparr>app_Status := ?new, app_UpdatedAt := sql_now (rv_sql env)\<rparr>) (rs_db s) else rs_db s)"
          using u by (auto simp: UpdateAppStatus_def split: if_splits)
        show ?thesis
        proof (cases err)
          case None
          with eq db steady False flipped_status_pair [of "app_Status app" services] show ?thesis by (intro flip [of ?new]) auto
        next
          case (Some x)
          with eq db show ?thesis by (intro same) simp_all
        qed
      qed
    qed
  qed
qed

lemma refresh_status_deploying: "recon_deploying k (refresh_status env app s) = recon_deploying k s"
proof -
  obtain r dep where st: "Status (dep_env env s) (app_Slug app) (rs_dep s) = (r, dep)" by fastforce
  then have "op_run (dep_env env s) (OpStatus (app_Slug app)) (rs_dep s) = Some dep" by simp
  from op_run_op_up [OF this] have "IsDeploying k (dp_tracker dep) = IsDeploying k (dp_tracker (rs_dep s))"
    by (simp add: runs_only_def IsDeploying_def)
  moreover have "rs_dep (refresh_status env app s) = rs_dep s \<or> rs_dep (refresh_status env app s) = dep"
    by (auto simp: refresh_status_def Let_def st split: sum.split option.split prod.split)
  ultimately show ?thesis by (auto simp: recon_deploying_def)
qed

lemma update_status_flips:
  assumes "\<forall>r \<in> set (ad_apps d). app_Slug r = slug \<longrightarrow> {app_Status r, new} = {''running'', ''unstable''}" "may slug"
  shows "rows_flip may d (update_apps slug (\<lambda>a. a\<lparr>app_Status := new, app_UpdatedAt := t\<rparr>) d)"
proof -
  have "list_all2 (\<lambda>a b. b = a \<or> may (app_Slug a) \<and> flips a b) xs
      (map (\<lambda>a. if app_Slug a = slug then a\<lparr>app_Status := new, app_UpdatedAt := t\<rparr> else a) xs)"
    if "set xs \<subseteq> set (ad_apps d)" for xs
    using that assms by (induction xs) (auto simp: flips_def)
  then show ?thesis by (simp add: rows_flip_def update_apps_def)
qed

lemma refresh_statuses_flip:
  assumes "distinct (map app_Slug apps)"
    and "\<forall>a \<in> set apps. \<forall>r \<in> set (ad_apps (rs_db s)). app_Slug r = app_Slug a \<longrightarrow> app_Status r = app_Status a"
  shows "rows_flip (\<lambda>k. k \<in> app_Slug ` set apps \<and> \<not> recon_deploying k s \<and> ''app:'' @ k \<in> set (rs_bus (fold (refresh_status env) apps s)))
      (rs_db s) (rs_db (fold (refresh_status env) apps s)) \<and> set (rs_bus s) \<subseteq> set (rs_bus (fold (refresh_status env) apps s))"
  using assms
proof (induction apps arbitrary: s)
  case (Cons a apps)
  let ?s1 = "refresh_status env a s" and ?s' = "fold (refresh_status env) (a # apps) s"
  let ?may = "\<lambda>k. k \<in> app_Slug ` set (a # apps) \<and> \<not> recon_deploying k s \<and> ''app:'' @ k \<in> set (rs_bus ?s')"
  have snap: "\<forall>b \<in> set apps. \<forall>r \<in> set (ad_apps (rs_db ?s1)). app_Slug r = app_Slug b \<longrightarrow> app_Status r = app_Status b"
  proof (cases rule: refresh_status_cases [of env a s])
    case same
    with Cons.prems(2) show ?thesis by simp
  next
    case (flip new)
    have "app_Slug b \<noteq> app_Slug a" if "b \<in> set apps" for b
      using that Cons.prems(1) by (metis distinct.simps(2) imageI list.set_map list.simps(9))
    note other = this
    show ?thesis
    proof (intro ballI impI)
      fix b r
      assume b: "b \<in> set apps" and r: "r \<in> set (ad_apps (rs_db ?s1))" "app_Slug r = app_Slug b"
      from r(1) obtain q where q: "q \<in> set (ad_apps (rs_db s))"
          "r = (if app_Slug q = app_Slug a then q\<lparr>app_Status := new, app_UpdatedAt := sql_now (rv_sql env)\<rparr> else q)"
        unfolding flip(1) update_apps_def by auto
      have "app_Slug q \<noteq> app_Slug a" using other [OF b] r(2) q(2) by (auto split: if_splits)
      with q Cons.prems(2) b r(2) show "app_Status r = app_Status b" by simp
    qed
  qed
  have "distinct (map app_Slug apps)" using Cons.prems(1) by simp
  note IH = Cons.IH [OF this snap]
  have rest: "set (rs_bus ?s1) \<subseteq> set (rs_bus ?s')" "rows_flip ?may (rs_db ?s1) (rs_db ?s')"
    using IH apply (simp_all only: fold.simps o_apply) subgoal by (elim conjE rows_flip_mono) (auto simp: refresh_status_deploying) done
  have "rows_flip ?may (rs_db s) (rs_db ?s1) \<and> set (rs_bus s) \<subseteq> set (rs_bus ?s1)"
  proof (cases rule: refresh_status_cases [of env a s])
    case (flip new)
    have "''app:'' @ app_Slug a \<in> set (rs_bus ?s1)" "set (rs_bus s) \<subseteq> set (rs_bus ?s1)" unfolding flip(4) by auto
    then have "?may (app_Slug a)" using flip(3) rest(1) by (simp only: subset_iff list.set_map [symmetric] list.map list.set_intros simp_thms)
    moreover have "\<forall>r \<in> set (ad_apps (rs_db s)). app_Slug r = app_Slug a \<longrightarrow> {app_Status r, new} = {''running'', ''unstable''}"
      using flip(2) Cons.prems(2) by (metis list.set_intros(1))
    ultimately have "rows_flip ?may (rs_db s) (rs_db ?s1)" unfolding flip(1) by (intro update_status_flips)
    then show ?thesis using \<open>set (rs_bus s) \<subseteq> set (rs_bus ?s1)\<close> by (rule conjI)
  qed simp
  note step = this
  have "rows_flip ?may (rs_db s) (rs_db ?s')" by (rule rows_flip_trans [OF conjunct1 [OF step] rest(2)])
  moreover have "set (rs_bus s) \<subseteq> set (rs_bus ?s')" by (rule subset_trans [OF conjunct2 [OF step] rest(1)])
  ultimately show ?case by (rule conjI)
qed simp

text \<open>
  Refreshing the statuses never does more than flip an app between running and unstable: a stopped
  or failed app, an app being deployed or an archived one keeps its row, every flip is published, and nothing
  else of the store, the files or the proxy changes.
\<close>

theorem RefreshStatuses_flips:
  assumes "slugs_distinct (rs_db s)"
  shows "rows_flip (\<lambda>k. k \<in> active_slugs (rs_db s) \<and> \<not> recon_deploying k s \<and> ''app:'' @ k \<in> set (rs_bus (RefreshStatuses env s)))
    (rs_db s) (rs_db (RefreshStatuses env s))"
proof (cases "ListApps (rv_sql env) (rs_db s)")
  case (Inl err)
  then show ?thesis by (simp add: RefreshStatuses_def)
next
  case (Inr apps)
  then have apps: "apps = sort_by app_name_less (filter (\<lambda>a. app_ArchivedAt a = None) (ad_apps (rs_db s)))"
    by (auto simp: ListApps_def ListAppsWithOptions_def split: if_splits)
  have "mset (map app_Slug apps) = mset (map app_Slug (filter (\<lambda>a. app_ArchivedAt a = None) (ad_apps (rs_db s))))" by (simp add: apps)
  moreover have "distinct (map app_Slug (filter (\<lambda>a. app_ArchivedAt a = None) (ad_apps (rs_db s))))"
    using assms by (simp add: slugs_distinct_def distinct_map_filter)
  ultimately have d: "distinct (map app_Slug apps)" by (metis mset_eq_imp_distinct_iff)
  have "r = a" if "r \<in> set (ad_apps (rs_db s))" "app_Slug r = app_Slug a" "a \<in> set (ad_apps (rs_db s))" for r a
    using that app_by_slug_row [OF assms, of "app_Slug a" a] app_by_slug_row [OF assms, of "app_Slug a" r] by simp
  then have "\<forall>a \<in> set apps. \<forall>r \<in> set (ad_apps (rs_db s)). app_Slug r = app_Slug a \<longrightarrow> app_Status r = app_Status a"
    by (fastforce simp: apps)
  note flip = conjunct1 [OF refresh_statuses_flip [OF d this, of env]]
  have "RefreshStatuses env s = fold (refresh_status env) apps s" by (simp add: RefreshStatuses_def Inr)
  with flip show ?thesis by (auto elim!: rows_flip_mono simp: active_slugs_def apps)
qed

text \<open>
  The rules a refresh goes by are not those of \<open>classifyStatus\<close>: an unstable app whose containers have all
  exited is flipped to running.
\<close>

lemma exited_reads_running:
  "let services = [\<lparr>st_Service = ''web'', st_State = ''exited'', st_Health = []\<rparr>]
   in classifyStatus services = ''stopped'' \<and> flipped_status ''unstable'' services = ''running''"
  by code_simp

subsection \<open>Failed rollbacks\<close>

lemma WriteFileAtomic_ok: "WriteFileAtomic env p c s = (True, s1) \<Longrightarrow> s1 = s\<lparr>rs_files := (rs_files s)(p := RegularF c)\<rparr> \<and> \<not> rv_unwritable env p"
  by (auto simp: WriteFileAtomic_def split: if_splits)

text \<open>The version passed every check that precedes the write.\<close>

definition vetted :: "recon_env \<Rightarrow> recon \<Rightarrow> string \<Rightarrow> int \<Rightarrow> string \<Rightarrow> bool" where
  "vetted env s slug v content \<longleftrightarrow>
     (\<exists>app ver dotEnv pre. GetApp (rv_sql env) slug (rs_db s) = Inr app \<and> GetComposeVersion (rv_sql env) v (rs_db s) = Inr ver \<and>
        cv_AppID ver = app_ID app \<and> content = rollback_content env (cv_Content ver) \<and>
        ReadDotEnv (ReadRegularFile (rs_files s)) (dir_path (compose_file env slug)) = Inr dotEnv \<and>
        ParseContent (parse_of env s) content (compose_file env slug) slug dotEnv = Inr pre \<and>
        security_violations env s pre = [] \<and> \<not> recon_deploying slug s)"

lemma rollback_checks_vetted: "rollback_checks env s slug v = Inr (app, ver, content) \<Longrightarrow> vetted env s slug v content"
  by (auto simp: rollback_checks_def vetted_def Let_def split: sum.splits if_splits)

text \<open>
  Property C28. A rollback replaces the compose file only with a version of the very app that parses and passes
  every security rule, while no deploy of it runs, and touches no other file. When it is refused or finds a
  deploy running, even one that started after the write, the file has the content it had, and
  the store and the command log are as before.
\<close>

theorem RollbackOne_vetted:
  assumes "RollbackOne env slug v s = Some (r, s')" "rs_files s (compose_file env slug) = RegularF old"
  defines "undone \<equiv> rs_files s' = rs_files s \<and> rs_db s' = rs_db s \<and> rs_dep s' = rs_dep s"
  shows "(undone \<or> (\<exists>content. vetted env s slug v content \<and> rs_files s' = (rs_files s)(compose_file env slug := RegularF content))) \<and>
    (r = Some VersionNotFound \<or> r = Some InProgress \<or> (\<exists>vs. r = Some (RolledBackRefused vs)) \<longrightarrow> undone)"
  using assms(1)
proof (cases rule: RollbackOne_cases)
  case (refused e)
  then show ?thesis by (simp add: undone_def)
next
  case (failed app ver content s1)
  then have "undone \<or> rs_files s' = (rs_files s)(compose_file env slug := RegularF content)"
    by (auto simp: undone_def WriteFileAtomic_def)
  with rollback_checks_vetted [OF failed(1)] failed(4) show ?thesis by auto
next
  case (ran app ver content s1 cfg auths res dep)
  note s1 = WriteFileAtomic_ok [OF ran(2)]
  show ?thesis
  proof (cases "dr_Skipped res")
    case True
    with RollbackDeploy_skipped [OF ran(4)] have dep: "dep = rs_dep s1" by simp
    have "ReadRegularFile (rs_files s) (compose_file env slug) = FileData old" using assms(2) by (simp add: ReadRegularFile_def)
    with ran(5) True have "s' = snd (WriteFileAtomic env (compose_file env slug) old (s1\<lparr>rs_dep := dep\<rparr>))"
      by (simp add: restore_file_def)
    with s1 dep assms(2) have undone by (auto simp: undone_def WriteFileAtomic_def fun_upd_idem_iff)
    then show ?thesis by simp
  next
    case False
    with ran(5) have R: "record_rollback env slug app ver cfg res (s1\<lparr>rs_dep := dep\<rparr>) = (r, s')" by simp
    have "rs_files s' = (rs_files s)(compose_file env slug := RegularF content)"
      using record_rollback_tidy [OF R] s1 by simp
    moreover have "\<not> (r = Some VersionNotFound \<or> r = Some InProgress \<or> (\<exists>vs. r = Some (RolledBackRefused vs)))"
      using R by (auto simp: record_rollback_def Let_def split: prod.splits sum.splits)
    ultimately show ?thesis using rollback_checks_vetted [OF ran(1)] by blast
  qed
qed

subsection \<open>An archived app that comes back\<close>

text \<open>
  When the folder of an archived app is there again, every reconciliation deploys it anew, its file changed or
  not, because its row is not listed, and the row stays archived, because an upsert keeps the mark.
\<close>

lemma archived_app_redeployed:
  assumes "slugs_distinct (rs_db s)" "slug \<in> archived_slugs (rs_db s)" "ListApps (rv_sql env) (rs_db s) = Inr current"
  shows "needs_deploy env s (row_by_slug current slug) cfg"
    "reconcile_app env current slug cfg s = Some s' \<Longrightarrow> slug \<in> archived_slugs (rs_db s')"
proof -
  have "slug \<notin> active_slugs (rs_db s)" using active_not_archived [OF assms(1)] assms(2) by blast
  then have "row_by_slug current slug = None"
    using ListApps_set [OF assms(3)] unfolding row_by_slug_def find_key_None by (auto simp: active_slugs_def)
  then show "needs_deploy env s (row_by_slug current slug) cfg" by (simp add: needs_deploy_def)
  show "slug \<in> archived_slugs (rs_db s')" if "reconcile_app env current slug cfg s = Some s'"
    using reconcile_app_kept [OF that] assms(2) by (simp add: rows_kept_def)
qed

text \<open>A stat that fails for a passing reason counts as a missing file.\<close>

lemma unstatable_app_archived:
  assumes "rs_files s (compose_file env slug) = UnstatableF" "map_of (sn_desired scan) slug = None" "map_of (sn_refused scan) slug = None"
  shows "gone env scan s slug" "\<not> stat_missing (rs_files s) (compose_file env slug)"
  using assms by (simp_all add: gone_def stat_fails_def stat_missing_def)

text \<open>Two places write a row back without its labels, which deletes them.\<close>

lemma normalize_path_drops_labels:
  assumes "\<not> sql_fails (rv_sql env) ''UpsertApp''" "app_by_slug (rs_db s) (app_Slug a) = Some a" "app_status_ok (app_Status a)"
    and "app_ComposePath a \<noteq> a_compose_path cfg"
  shows "\<forall>l \<in> set (ad_labels (rs_db (normalize_path env (Some a) cfg s))). fst l \<noteq> app_ID a"
  using assms by (auto simp: normalize_path_def UpsertApp_def replace_labels_def update_apps_def)

subsection \<open>Examples\<close>

definition demo_recon_env :: recon_env where
  "demo_recon_env = \<lparr>rv_dep = demo_env demo_files, rv_sql = \<lparr>sql_fails = (\<lambda>_. False), sql_now = 0\<rparr>, rv_appsDir = ''/srv/apps'',
     rv_hash = (\<lambda>c. c), rv_decode = (\<lambda>_. None), rv_encode = (\<lambda>_. None), rv_unwritable = (\<lambda>_. False), rv_master = [],
     rv_registries = [], rv_registry = (\<lambda>_. None), rv_routes = \<lparr>upstream_env = [], docker = None, parse_duration = (\<lambda>_. None)\<rparr>, rv_proxy = example_proxy_env, rv_now = 7, rv_mirror = [], rv_noLoopback = False\<rparr>"

definition no_apps :: app_db where
  "no_apps = \<lparr>ad_apps = [], ad_apps_seq = 0, ad_labels = [], ad_versions = [], ad_events = [], ad_access = [], ad_audit = [],
     ad_backup_configs = [], ad_backup_runs = [], ad_alert_rules = [], ad_alert_history = []\<rparr>"

definition old_row :: App where
  "old_row = (row_of ''old'' demo_app ''running'' [])\<lparr>app_ID := 1\<rparr>"

definition demo_recon :: "(string \<times> bool) list \<Rightarrow> App list \<Rightarrow> recon" where
  "demo_recon entries apps = \<lparr>rs_files = (\<lambda>p. if p = demo_path then RegularF ''services: {}'' else Missing), rs_entries = Some entries,
     rs_db = no_apps\<lparr>ad_apps := apps, ad_apps_seq := 1\<rparr>, rs_dep = idle_deployer, rs_proxy = None, rs_retrying = [], rs_refreshes = 0,
     rs_archived = [], rs_bus = []\<rparr>"

lemma demo_dep_env: "dep_env demo_recon_env (demo_recon es apps) = demo_env demo_files"
proof -
  have "ReadRegularFile (rs_files (demo_recon es apps)) = demo_files tr" for tr
    by (rule ext) (simp add: ReadRegularFile_def demo_recon_def demo_files_def)
  then show ?thesis by (simp add: dep_env_def demo_recon_env_def demo_env_def fun_eq_iff)
qed

lemma demo_parse_file: "ParseFile demo_parse (demo_files tr) demo_path ''web'' = Inr demo_app"
proof -
  have "join_path [dir_path demo_path, ''.env''] \<noteq> demo_path" by code_simp
  then show ?thesis by (intro demo_parses) (simp_all add: demo_files_def)
qed

lemma demo_accepted_always: "accepted (demo_env demo_files) tr demo_app"
  using demo_parse_file [of tr] demo_safe by (simp add: accepted_def demo_env_def demo_app_simps)

lemma demo_compose_file: "compose_file demo_recon_env ''web'' = demo_path"
  unfolding compose_file_def demo_recon_env_def by (simp add: demo_path_def) code_simp

lemma demo_reads: "ReadRegularFile (rs_files (demo_recon es apps)) = demo_files []"
  by (rule ext) (simp add: ReadRegularFile_def demo_recon_def demo_files_def)

lemma demo_parse_recon: "parse_file demo_recon_env (demo_recon es apps) demo_path ''web'' = Inr demo_app"
  using demo_parse_file [of "[]"]
  by (simp add: parse_file_def parse_of_def demo_reads) (simp add: demo_recon_env_def demo_env_def)

lemma demo_scan:
  "scanAppsDir demo_recon_env (demo_recon [(''web'', True)] apps) =
     (Some \<lparr>sn_desired = [(''web'', demo_app)], sn_refused = []\<rparr>, demo_recon [(''web'', True)] apps)"
proof -
  let ?s = "demo_recon [(''web'', True)] apps"
  have safe: "security_violations demo_recon_env ?s demo_app = []"
    using demo_safe by (simp add: security_violations_def demo_recon_env_def demo_env_def)
  have "InjectSharedNetwork (rv_decode demo_recon_env) (rv_encode demo_recon_env) ''services: {}'' sharedNetworkName = InjectError"
    by (simp add: InjectSharedNetwork_def demo_recon_env_def)
  then have "ensureSharedNetwork demo_recon_env demo_path ?s = (False, ?s)"
    by (simp add: ensureSharedNetwork_def demo_reads demo_files_def)
  moreover have "\<not> stat_missing (rs_files ?s) demo_path" by (simp add: stat_missing_def demo_recon_def)
  ultimately have "scan_app demo_recon_env ''web'' ?s = (ScanDesired demo_app, ?s)"
    using demo_parse_recon safe by (simp add: scan_app_def demo_compose_file scan_parsed_def Let_def)
  then show ?thesis by (simp add: scanAppsDir_def add_scanned_def demo_recon_def)
qed

lemma demo_clock_recon: "clock_runs (rv_dep demo_recon_env)" "0 \<le> dv_timeout (rv_dep demo_recon_env)"
  using demo_clock by (simp_all add: demo_recon_env_def)

lemma demo_sql: "\<not> sql_fails (rv_sql demo_recon_env) oper"
  by (simp add: demo_recon_env_def)

theorem recon_up_checked_witness:
  "\<exists>s' app. recon_step demo_recon_env (RcScale ''web'' [(''web'', 2)]) (demo_recon [] []) = Some s' \<and>
     accepted (dep_env demo_recon_env s') [] app"
proof -
  let ?s = "demo_recon [] []" and ?e = "demo_env demo_files"
  let ?args = "compose_args demo_path (project_of ''web'') [''up'', ''-d'', ''--no-recreate'', ''--remove-orphans''] @ [''--scale'', ''web=2'']"
  let ?s' = "?s\<lparr>rs_dep := snd (run_plain ?e ''compose scale'' ?args idle_deployer)\<rparr>"
  have chk: "checkComposeFile ?e demo_app idle_deployer = None"
    unfolding checkComposeFile_None using demo_accepted_always by (simp add: idle_deployer_def)
  have i: "show_int 2 = ''2''" by code_simp
  have "Scale ?e demo_app [(''web'', 2)] idle_deployer = run_plain ?e ''compose scale'' ?args idle_deployer"
    unfolding Scale_def chk option.case demo_app_simps by (simp add: i)
  moreover have "loadAppConfig demo_recon_env ?s ''web'' = Inr demo_app"
    by (simp add: loadAppConfig_def demo_compose_file demo_parse_recon)
  moreover have d: "rs_dep ?s = idle_deployer" by (simp add: demo_recon_def)
  ultimately have step: "recon_step demo_recon_env (RcScale ''web'' [(''web'', 2)]) ?s = Some ?s'"
    by (simp add: ScaleOne_def demo_dep_env split: prod.split)
  have tr: "dp_trace (rs_dep ?s') = [Ran ?args]"
    by (simp add: run_plain_trace) (simp add: idle_deployer_def)
  have "subcommand ?args = Some ''up''" by (simp add: command_simps)
  with recon_up_checked [OF step, of 0 ?args] tr d step show ?thesis
    by (auto simp: idle_deployer_def)
qed

lemma old_folder_gone: "compose_file demo_recon_env ''old'' \<noteq> demo_path"
  unfolding compose_file_def demo_recon_env_def by (simp add: demo_path_def) code_simp

theorem Reconcile_archives_witness:
  "\<exists>s'. Reconcile demo_recon_env (demo_recon [] [old_row]) = Some (None, s') \<and> archived_slugs (rs_db s') = {''old''}"
proof -
  let ?s = "demo_recon [] [old_row]" and ?scan = "\<lparr>sn_desired = [], sn_refused = []\<rparr>"
  have scan: "scanAppsDir demo_recon_env ?s = (Some ?scan, ?s)" by (simp add: scanAppsDir_def demo_recon_def)
  have row: "app_ArchivedAt old_row = None" "app_Slug old_row = ''old''" by (simp_all add: old_row_def row_of_def)
  obtain current where "ListApps (rv_sql demo_recon_env) (rs_db ?s) = Inr current"
    using demo_sql by (simp add: ListApps_def ListAppsWithOptions_def)
  then obtain s' where R: "Reconcile demo_recon_env ?s = Some (None, s')" by (simp add: Reconcile_def scan)
  have "gone demo_recon_env ?scan ?s ''old''"
    using old_folder_gone by (simp add: gone_def stat_fails_def stat_missing_def demo_recon_def)
  moreover have "active_slugs (rs_db ?s) = {''old''}" "archived_slugs (rs_db ?s) = {}"
    using row by (auto simp: active_slugs_def archived_slugs_def demo_recon_def)
  ultimately show ?thesis using R Reconcile_archives [OF R scan demo_sql] by auto
qed

theorem Reconcile_converges_witness:
  "\<exists>s'. Reconcile demo_recon_env (demo_recon [(''web'', True)] []) = Some (None, s') \<and> settled demo_recon_env s' (''web'', demo_app)"
proof -
  let ?s = "demo_recon [(''web'', True)] []"
  have "loop_ok demo_recon_env ?s"
    by (simp add: loop_ok_def demo_recon_def slugs_distinct_def no_apps_def no_deploys_def idle_deployer_def NewTracker_def)
  moreover have "deployable demo_recon_env ?s (''web'', demo_app)"
    using demo_accepted_always
    by (simp add: deployable_def demo_dep_env demo_app_simps file_hash_def hashFile_def demo_reads)
       (simp add: demo_files_def demo_recon_env_def)
  moreover have "unarchived (app_by_slug (rs_db ?s) ''web'')" by (simp add: demo_recon_def app_by_slug_def unarchived_def)
  ultimately show ?thesis
    using Reconcile_converges [OF demo_clock_recon demo_sql _ demo_scan, of "[]"] by auto
qed

theorem RefreshStatuses_flips_witness:
  "slugs_distinct (rs_db (demo_recon [] [old_row])) \<and>
   length (ad_apps (rs_db (RefreshStatuses demo_recon_env (demo_recon [] [old_row])))) = 1"
proof -
  let ?s = "demo_recon [] [old_row]"
  have d: "slugs_distinct (rs_db ?s)" "length (ad_apps (rs_db ?s)) = 1" by (simp_all add: slugs_distinct_def demo_recon_def)
  then show ?thesis using rows_flip_length [OF RefreshStatuses_flips [OF d(1), of demo_recon_env]] by (simp only: simp_thms)
qed

theorem RollbackOne_vetted_witness:
  "\<exists>s'. RollbackOne demo_recon_env ''web'' 9 (demo_recon [] [old_row\<lparr>app_Slug := ''web''\<rparr>]) = Some (Some VersionNotFound, s') \<and>
     rs_files s' demo_path = RegularF ''services: {}''"
proof -
  let ?s = "demo_recon [] [old_row\<lparr>app_Slug := ''web''\<rparr>]"
  have R: "RollbackOne demo_recon_env ''web'' 9 ?s = Some (Some VersionNotFound, ?s)"
    by (simp add: RollbackOne_def rollback_checks_def GetApp_def GetComposeVersion_def demo_sql app_by_slug_def demo_recon_def no_apps_def)
  have f: "rs_files ?s demo_path = RegularF ''services: {}''" by (simp add: demo_recon_def)
  with RollbackOne_vetted [OF R, of "''services: {}''"] R show ?thesis by (simp add: demo_compose_file)
qed

end
