(* ===== verification/AppEdit.thy ===== *)
theory AppEdit
  imports Inject ComposeModel
begin

text \<open>
  The edits of a compose file in internal/api/domain.go and internal/api/access.go: the endpoint labels of its services
  are replaced in the YAML tree, the IP allowlist in the tree or, when a service has the label, on the line
  of its value. Reading and writing YAML and the line of a node are parameters. A node can be appended to any
  other; under a scalar or an alias it is not written out.
\<close>

subsection \<open>Nodes\<close>

fun node_value :: "ynode \<Rightarrow> string" where
  "node_value (NScalar _ v) = v"
| "node_value (NAlias a) = a"
| "node_value _ = []"

definition has_key :: "string \<Rightarrow> ynode \<times> ynode \<Rightarrow> bool" where
  "has_key key p \<longleftrightarrow> node_value (fst p) = key"

definition findMapValue :: "ynode \<Rightarrow> string \<Rightarrow> ynode option" where
  "findMapValue mapping key =
     (case node_pairs mapping of None \<Rightarrow> None | Some ps \<Rightarrow> map_option snd (find (has_key key) ps))"

text \<open>The node \<open>findMapValue\<close> gives, changed in place.\<close>

fun set_first :: "string \<Rightarrow> ynode \<Rightarrow> (ynode \<times> ynode) list \<Rightarrow> (ynode \<times> ynode) list" where
  "set_first key v [] = []"
| "set_first key v (p # ps) = (if has_key key p then (fst p, v) # ps else p # set_first key v ps)"

fun set_found :: "string \<Rightarrow> ynode \<Rightarrow> ynode \<Rightarrow> ynode" where
  "set_found key v (NMap ps) = NMap (set_first key v ps)"
| "set_found key v n = n"

definition str_node :: "string \<Rightarrow> ynode" where
  "str_node v = NScalar ''!!str'' v"

fun append_pair :: "ynode \<Rightarrow> ynode \<Rightarrow> ynode \<Rightarrow> ynode" where
  "append_pair k v (NMap ps) = NMap (ps @ [(k, v)])"
| "append_pair k v (NSeq items) = NSeq (items @ [k, v])"
| "append_pair k v n = n"

definition addLabel :: "string \<Rightarrow> string \<Rightarrow> ynode \<Rightarrow> ynode" where
  "addLabel key value = append_pair (str_node key) (str_node value)"

subsection \<open>Endpoint labels\<close>

definition endpoint_label_prefix :: string where
  "endpoint_label_prefix = ''simpledeploy.endpoints.''"

definition removeEndpointLabels :: "(ynode \<times> ynode) list \<Rightarrow> (ynode \<times> ynode) list" where
  "removeEndpointLabels ps = filter (\<lambda>p. \<not> prefix endpoint_label_prefix (node_value (fst p))) ps"

definition strip_labels :: "ynode \<Rightarrow> ynode" where
  "strip_labels svc =
     (case findMapValue svc ''labels'' of
        Some (NMap ps) \<Rightarrow> set_found ''labels'' (NMap (removeEndpointLabels ps)) svc
      | _ \<Rightarrow> svc)"

text \<open>The endpoints of a service with the index their labels get.\<close>

definition indexed_endpoints :: "string \<Rightarrow> EndpointConfig list \<Rightarrow> (nat \<times> EndpointConfig) list" where
  "indexed_endpoints service eps = enumerate 0 (filter (\<lambda>ep. ep_service ep = service) eps)"

definition optional_label :: "string \<Rightarrow> string \<Rightarrow> (string \<times> string) list" where
  "optional_label key value = (if value \<noteq> [] then [(key, value)] else [])"

definition endpoint_labels :: "nat \<times> EndpointConfig \<Rightarrow> (string \<times> string) list" where
  "endpoint_labels = (\<lambda>(i, ep).
     let pre = endpoint_label_prefix @ itoa i in
     [(pre @ ''.domain'', ep_domain ep)] @ optional_label (pre @ ''.port'') (ep_port ep) @ optional_label (pre @ ''.tls'') (ep_tls ep) @
     optional_label (pre @ ''.protocol'') (ep_protocol ep) @ optional_label (pre @ ''.path'') (ep_path ep))"

definition label_service :: "EndpointConfig list \<Rightarrow> string \<Rightarrow> ynode \<Rightarrow> ynode" where
  "label_service eps name svc =
     (let ieps = indexed_endpoints name eps; ls = concat (map endpoint_labels ieps) in
      if ieps = [] then svc
      else case findMapValue svc ''labels'' of
        None \<Rightarrow> append_pair (str_node ''labels'') (fold (\<lambda>(k, v). addLabel k v) ls (NMap [])) svc
      | Some labels \<Rightarrow> set_found ''labels'' (fold (\<lambda>(k, v). addLabel k v) ls labels) svc)"

definition edit_endpoints :: "EndpointConfig list \<Rightarrow> ynode \<Rightarrow> ynode option" where
  "edit_endpoints eps root =
     (case findMapValue root ''services'' of
        Some (NMap ps) \<Rightarrow>
          if ps = [] then None
          else Some (set_found ''services'' (NMap (map (\<lambda>(k, svc). (k, label_service eps (node_value k) (strip_labels svc))) ps)) root)
      | _ \<Rightarrow> None)"

text \<open>The new content of the file; \<open>None\<close> is an error, nothing is written then.\<close>

definition updateComposeEndpoints ::
  "(string \<Rightarrow> ynode option option) \<Rightarrow> (ynode \<Rightarrow> string option) \<Rightarrow> EndpointConfig list \<Rightarrow> string \<Rightarrow> string option" where
  "updateComposeEndpoints decode marshal endpoints data =
     (case decode data of
        Some (Some root) \<Rightarrow> Option.bind (edit_endpoints endpoints root) marshal
      | _ \<Rightarrow> None)"

subsection \<open>The IP allowlist\<close>

definition allow_label :: string where
  "allow_label = ''simpledeploy.access.allow''"

fun find_sub :: "string \<Rightarrow> string \<Rightarrow> nat option" where
  "find_sub pat [] = (if pat = [] then Some 0 else None)"
| "find_sub pat (c # cs) = (if prefix pat (c # cs) then Some 0 else map_option Suc (find_sub pat cs))"

definition replace_first :: "string \<Rightarrow> string \<Rightarrow> string \<Rightarrow> string option" where
  "replace_first pat new line =
     map_option (\<lambda>i. take i line @ new @ drop (i + length pat) line) (find_sub pat line)"

definition replaceAllowValue :: "string \<Rightarrow> string \<Rightarrow> string \<Rightarrow> string" where
  "replaceAllowValue line oldVal newVal =
     (case replace_first (CHR 0x22 # oldVal @ [CHR 0x22]) (CHR 0x22 # newVal @ [CHR 0x22]) line of
        Some l \<Rightarrow> l
      | None \<Rightarrow>
          (case replace_first (CHR 0x27 # oldVal @ [CHR 0x27]) (CHR 0x27 # newVal @ [CHR 0x27]) line of
             Some l \<Rightarrow> l
           | None \<Rightarrow> (case replace_first oldVal newVal line of Some l \<Rightarrow> l | None \<Rightarrow> line)))"

text \<open>The values of the label with the number of their service.\<close>

definition allow_values :: "(ynode \<times> ynode) list \<Rightarrow> (nat \<times> string) list" where
  "allow_values ps =
     List.map_filter (\<lambda>(i, p). case findMapValue (snd p) ''labels'' of None \<Rightarrow> None
        | Some labels \<Rightarrow> map_option (\<lambda>v. (i, node_value v)) (findMapValue labels allow_label)) (enumerate 0 ps)"

definition nl :: char where
  "nl = CHR 0x0A"

definition replace_line :: "(nat \<Rightarrow> int) \<Rightarrow> string \<Rightarrow> nat \<times> string \<Rightarrow> string list \<Rightarrow> string list" where
  "replace_line line_of allow = (\<lambda>(i, old) lines.
     let n = line_of i - 1 in
     if n < 0 \<or> n \<ge> int (length lines) then lines
     else lines[nat n := replaceAllowValue (lines ! nat n) old allow])"

definition add_allow :: "string \<Rightarrow> ynode \<Rightarrow> ynode" where
  "add_allow allow svc =
     (case findMapValue svc ''labels'' of
        None \<Rightarrow> append_pair (str_node ''labels'') (addLabel allow_label allow (NMap [])) svc
      | Some labels \<Rightarrow> set_found ''labels'' (addLabel allow_label allow labels) svc)"

text \<open>\<open>line_of\<close> gives the line of the label's value in the service with a number. The result is the content to write, if any.\<close>

definition updateComposeAccessAllow ::
  "(string \<Rightarrow> ynode option option) \<Rightarrow> (ynode \<Rightarrow> string option) \<Rightarrow> (string \<Rightarrow> nat \<Rightarrow> int) \<Rightarrow> string \<Rightarrow> string \<Rightarrow> string option option" where
  "updateComposeAccessAllow decode marshal line_of allow data =
     (case decode data of
        Some (Some root) \<Rightarrow>
          (case findMapValue root ''services'' of
             Some (NMap (p # ps)) \<Rightarrow>
               (let vals = allow_values (p # ps) in
                if vals \<noteq> [] then Some (Some (join_with [nl] (fold (replace_line (line_of data) allow) vals (split_on nl data))))
                else if allow = [] then Some None
                else map_option Some (marshal (set_found ''services'' (NMap ((fst p, add_allow allow (snd p)) # ps)) root)))
           | _ \<Rightarrow> None)
      | _ \<Rightarrow> None)"


subsection \<open>Decimal numbers\<close>

lemma digit_char:
  assumes "d < 10"
  shows "is_digit (char_of (d + 48))" "digit_val (char_of (d + 48)) = d"
proof -
  have n: "(of_char (char_of (d + 48) :: char) :: nat) = d + 48"
    using assms by (simp add: of_char_of)
  show "is_digit (char_of (d + 48))" "digit_val (char_of (d + 48)) = d"
    using assms by (simp_all add: is_digit_def digit_val_def n)
qed

lemma itoa_digits: "itoa n \<noteq> [] \<and> list_all is_digit (itoa n)"
proof (induction n rule: less_induct)
  case (less n)
  show ?case
  proof (cases "n < 10")
    case True
    then show ?thesis by (subst (1 2) itoa.simps) (simp add: digit_char)
  next
    case False
    then have "n div 10 < n" by simp
    from less.IH [OF this] False show ?thesis
      by (subst (1 2) itoa.simps) (simp add: digit_char)
  qed
qed

lemma dec_value_snoc: "dec_value a (s @ [c]) = dec_value a s * 10 + digit_val c"
  by (induction a s rule: dec_value.induct) simp_all

lemma dec_value_itoa: "dec_value 0 (itoa n) = n"
proof (induction n rule: less_induct)
  case (less n)
  show ?case
  proof (cases "n < 10")
    case True
    then show ?thesis by (subst itoa.simps) (simp add: digit_char)
  next
    case False
    then have "n div 10 < n" by simp
    from less.IH [OF this] False show ?thesis
      by (subst itoa.simps) (simp add: digit_char dec_value_snoc)
  qed
qed

lemma digit_not: "is_digit c \<Longrightarrow> c \<noteq> CHR ''.'' \<and> c \<noteq> CHR ''-'' \<and> c \<noteq> CHR ''+''"
  by (auto simp: is_digit_def)

lemma atoi_itoa: "int n \<le> max_i64 \<Longrightarrow> atoi (itoa n) = (int n, True)"
proof -
  assume n: "int n \<le> max_i64"
  obtain c cs where c: "itoa n = c # cs" using itoa_digits [of n] by (cases "itoa n") auto
  moreover have "c \<noteq> CHR ''-''" "c \<noteq> CHR ''+''"
    using itoa_digits [of n] c digit_not [of c] by auto
  ultimately show ?thesis
    using itoa_digits [of n] dec_value_itoa [of n] n by (simp add: atoi_def)
qed

lemma cut_at_append: "c \<notin> set s \<Longrightarrow> cut_at c (s @ c # t) = (s, t, True)"
  by (simp add: cut_at_def takeWhile_tail takeWhile_append Let_def)

subsection \<open>Reading the labels of an endpoint back\<close>

fun field_name :: "ep_field \<Rightarrow> string" where
  "field_name EDomain = ''domain''"
| "field_name EPort = ''port''"
| "field_name ETLS = ''tls''"
| "field_name EProtocol = ''protocol''"
| "field_name EPath = ''path''"

fun ep_get :: "ep_field \<Rightarrow> EndpointConfig \<Rightarrow> string" where
  "ep_get EDomain ep = ep_domain ep"
| "ep_get EPort ep = ep_port ep"
| "ep_get ETLS ep = ep_tls ep"
| "ep_get EProtocol ep = ep_protocol ep"
| "ep_get EPath ep = ep_path ep"

text \<open>What the parser makes of the value of a field's label.\<close>

fun read_field :: "ep_field \<Rightarrow> string \<Rightarrow> string" where
  "read_field EProtocol v = NormalizeProtocol v"
| "read_field EPath v = trim_space v"
| "read_field f v = v"

definition endpoint_key :: "nat \<Rightarrow> ep_field \<Rightarrow> string" where
  "endpoint_key i f = endpoint_label_prefix @ itoa i @ CHR ''.'' # field_name f"

lemma ep_field_of_name: "ep_field_of (field_name f) = Some f"
  by (cases f) (simp_all add: ep_field_of_def)

lemma endpointLabelRe_key:
  assumes "int i \<le> max_i64"
  shows "endpointLabelRe (endpoint_key i f) = Some (int i, f)"
proof -
  have "CHR ''.'' \<notin> set (itoa i)"
    using itoa_digits [of i] digit_not by (auto simp: list_all_iff)
  then have "cut_at CHR ''.'' (itoa i @ CHR ''.'' # field_name f) = (itoa i, field_name f, True)"
    by (rule cut_at_append)
  moreover have "drop (length ''simpledeploy.endpoints.'') (endpoint_key i f) = itoa i @ CHR ''.'' # field_name f"
    "prefix ''simpledeploy.endpoints.'' (endpoint_key i f)"
    by (simp_all add: endpoint_key_def endpoint_label_prefix_def)
  ultimately show ?thesis
    using itoa_digits [of i] atoi_itoa [OF assms] by (simp add: endpointLabelRe_def ep_field_of_name)
qed

lemma endpoint_labels_fields:
  "endpoint_labels (i, ep) = map (\<lambda>f. (endpoint_key i f, ep_get f ep))
     (filter (\<lambda>f. f = EDomain \<or> ep_get f ep \<noteq> []) [EDomain, EPort, ETLS, EProtocol, EPath])"
  by (simp add: endpoint_labels_def optional_label_def endpoint_key_def Let_def)

lemma ep_eqI:
  assumes "\<And>f. ep_get f a = ep_get f b" "ep_service a = ep_service b" "ep_index a = ep_index b"
  shows "a = b"
  using assms(1) [of EDomain] assms(1) [of EPort] assms(1) [of ETLS] assms(1) [of EProtocol] assms(1) [of EPath] assms(2,3)
  by simp

lemma ep_get_set: "ep_get f (set_ep_field g v e) = (if f = g then read_field f v else ep_get f e)"
  by (cases f; cases g) (simp_all add: set_ep_field_def)

definition ep_at :: "string \<Rightarrow> (int \<times> EndpointConfig) list \<Rightarrow> int \<Rightarrow> EndpointConfig" where
  "ep_at svc m i = (case map_of m i of Some e \<Rightarrow> e | None \<Rightarrow> new_endpoint svc i)"

lemma ep_at_update: "ep_at svc (AList.update j e m) i = (if i = j then e else ep_at svc m i)"
  by (simp add: ep_at_def)

definition label_at :: "(string \<times> string) list \<Rightarrow> int \<Rightarrow> ep_field \<Rightarrow> string \<Rightarrow> bool" where
  "label_at ls i f v \<longleftrightarrow> (\<exists>k. (k, v) \<in> set ls \<and> endpointLabelRe k = Some (i, f))"

lemma label_at_Cons: "label_at ((k, w) # ls) i f v \<longleftrightarrow> v = w \<and> endpointLabelRe k = Some (i, f) \<or> label_at ls i f v"
  by (auto simp: label_at_def)

lemma endpoints_by_index_step:
  "endpoints_by_index svc ((k, v) # ls) m = (case endpointLabelRe k of None \<Rightarrow> endpoints_by_index svc ls m
     | Some (idx, f) \<Rightarrow> endpoints_by_index svc ls (AList.update idx (set_ep_field f v (ep_at svc m idx)) m))"
  by (simp add: ep_at_def split: option.split)

lemma field_unlabelled:
  "(\<And>v. \<not> label_at ls i f v) \<Longrightarrow> ep_get f (ep_at svc (endpoints_by_index svc ls m) i) = ep_get f (ep_at svc m i)"
proof (induction ls arbitrary: m)
  case (Cons p ls)
  obtain k v where p: "p = (k, v)" by (cases p)
  have ih: "ep_get f (ep_at svc (endpoints_by_index svc ls m') i) = ep_get f (ep_at svc m' i)" for m'
    using Cons.prems p by (intro Cons.IH) (auto simp: label_at_Cons)
  have "endpointLabelRe k \<noteq> Some (i, f)" using Cons.prems p by (auto simp: label_at_Cons)
  then show ?case
    unfolding p endpoints_by_index_step using ih
    by (auto simp: ep_at_update ep_get_set split: option.split)
qed simp

text \<open>The ids (index and field) of the endpoint labels in a list of labels.\<close>

abbreviation label_ids :: "(string \<times> string) list \<Rightarrow> (int \<times> ep_field) list" where
  "label_ids ls \<equiv> List.map_filter (\<lambda>p. endpointLabelRe (fst p)) ls"

lemma field_labelled:
  "distinct (label_ids ls) \<Longrightarrow> label_at ls i f v \<Longrightarrow>
     ep_get f (ep_at svc (endpoints_by_index svc ls m) i) = read_field f v"
proof (induction ls arbitrary: m)
  case (Cons p ls)
  obtain k w where p: "p = (k, w)" by (cases p)
  show ?case
  proof (cases "endpointLabelRe k = Some (i, f)")
    case True
    with Cons.prems(1) p have "\<not> label_at ls i f x" for x
      by (force simp: label_at_def List.map_filter_def)
    then have "\<And>m'. ep_get f (ep_at svc (endpoints_by_index svc ls m') i) = ep_get f (ep_at svc m' i)" and "v = w"
      using Cons.prems(2) p by (auto simp: label_at_Cons intro: field_unlabelled)
    then show ?thesis
      unfolding p endpoints_by_index_step using True by (simp add: ep_at_update ep_get_set)
  next
    case False
    then have "label_at ls i f v" using Cons.prems(2) p by (auto simp: label_at_Cons)
    moreover have "distinct (label_ids ls)"
      using Cons.prems(1) p by (cases "endpointLabelRe k") (simp_all add: List.map_filter_simps)
    ultimately show ?thesis
      unfolding p endpoints_by_index_step by (auto intro: Cons.IH split: option.split)
  qed
qed (simp add: label_at_def)


lemma endpoints_by_index_keys:
  "fst ` set (endpoints_by_index svc ls m) = fst ` set m \<union> {i. \<exists>f v. label_at ls i f v}"
proof (induction ls arbitrary: m)
  case (Cons p ls)
  obtain k v where p: "p = (k, v)" by (cases p)
  show ?case
  proof (cases "endpointLabelRe k")
    case None
    then show ?thesis unfolding p endpoints_by_index_step by (simp add: Cons.IH label_at_Cons)
  next
    case (Some q)
    obtain idx f where q: "q = (idx, f)" by (cases q)
    have u: "fst ` set (AList.update idx e m) = insert idx (fst ` set m)" for e
      using dom_update [of idx e m] by (simp add: dom_map_of_conv_image_fst)
    have "{i. \<exists>g w. label_at ((k, v) # ls) i g w} = insert idx {i. \<exists>g w. label_at ls i g w}"
      using Some q by (auto simp: label_at_Cons)
    then show ?thesis
      unfolding p endpoints_by_index_step using Some q Cons.IH u by simp
  qed
qed (auto simp: label_at_def)

lemma map_filter_append: "List.map_filter g (xs @ ys) = List.map_filter g xs @ List.map_filter g ys"
  by (simp add: List.map_filter_def)

definition written_fields :: "EndpointConfig \<Rightarrow> ep_field list" where
  "written_fields ep = filter (\<lambda>f. f = EDomain \<or> ep_get f ep \<noteq> []) [EDomain, EPort, ETLS, EProtocol, EPath]"

lemma written_fields: "distinct (written_fields ep)" "f \<in> set (written_fields ep) \<longleftrightarrow> f = EDomain \<or> ep_get f ep \<noteq> []"
  unfolding written_fields_def by (simp, cases f) auto

lemma endpoint_labels_map: "endpoint_labels (i, ep) = map (\<lambda>f. (endpoint_key i f, ep_get f ep)) (written_fields ep)"
  unfolding written_fields_def by (rule endpoint_labels_fields)

lemma label_ids_endpoint:
  assumes "int i \<le> max_i64"
  shows "label_ids (endpoint_labels (i, ep)) = map (Pair (int i)) (written_fields ep)"
proof -
  have "label_ids (map (\<lambda>f. (endpoint_key i f, ep_get f ep)) fs) = map (Pair (int i)) fs" for fs
    by (induction fs) (simp_all add: List.map_filter_simps endpointLabelRe_key [OF assms])
  then show ?thesis by (simp only: endpoint_labels_map)
qed

lemma label_ids_written:
  "int (j + length es) \<le> max_i64 \<Longrightarrow> distinct (label_ids (concat (map endpoint_labels (enumerate j es)))) \<and>
     (\<forall>p \<in> set (label_ids (concat (map endpoint_labels (enumerate j es)))). int j \<le> fst p)"
proof (induction es arbitrary: j)
  case (Cons e es)
  have "int (Suc j + length es) \<le> max_i64" using Cons.prems by simp
  from Cons.IH [OF this] have ih: "distinct (label_ids (concat (map endpoint_labels (enumerate (Suc j) es))))"
    "\<forall>p \<in> set (label_ids (concat (map endpoint_labels (enumerate (Suc j) es)))). int (Suc j) \<le> fst p" by auto
  have h: "label_ids (endpoint_labels (j, e)) = map (Pair (int j)) (written_fields e)"
    using Cons.prems by (intro label_ids_endpoint) simp
  have "distinct (map (Pair (int j)) (written_fields e))"
    by (simp add: distinct_map inj_on_def written_fields)
  with h ih show ?case by (fastforce simp: map_filter_append)
qed (simp add: List.map_filter_def)

lemma label_at_written:
  assumes "int (length es) \<le> max_i64"
  shows "label_at (concat (map endpoint_labels (enumerate 0 es))) k f v \<longleftrightarrow>
     (\<exists>i < length es. k = int i \<and> v = ep_get f (es ! i) \<and> f \<in> set (written_fields (es ! i)))"
proof -
  have key: "endpointLabelRe (endpoint_key i g) = Some (int i, g)" if "i < length es" for i g
    using that assms by (intro endpointLabelRe_key) simp
  have "label_at (concat (map endpoint_labels (enumerate 0 es))) k f v \<longleftrightarrow>
     (\<exists>i < length es. \<exists>g \<in> set (written_fields (es ! i)).
        v = ep_get g (es ! i) \<and> endpointLabelRe (endpoint_key i g) = Some (k, f))"
    by (auto simp: label_at_def in_set_enumerate_eq endpoint_labels_map Bex_def)
  also have "\<dots> \<longleftrightarrow> (\<exists>i < length es. k = int i \<and> v = ep_get f (es ! i) \<and> f \<in> set (written_fields (es ! i)))"
    using key by auto
  finally show ?thesis .
qed

text \<open>An endpoint whose values the parser reads as they are.\<close>

definition readable :: "EndpointConfig \<Rightarrow> bool" where
  "readable ep \<longleftrightarrow> NormalizeProtocol (ep_protocol ep) = ep_protocol ep \<and> trim_space (ep_path ep) = ep_path ep"

lemma readable_field: "readable ep \<Longrightarrow> read_field f (ep_get f ep) = ep_get f ep"
  by (cases f) (simp_all add: readable_def)

definition set_index :: "nat \<times> EndpointConfig \<Rightarrow> EndpointConfig" where
  "set_index = (\<lambda>(i, ep). ep\<lparr>ep_index := int i\<rparr>)"

lemma extract_written:
  assumes n: "int (length es) \<le> max_i64"
    and es: "\<forall>ep \<in> set es. readable ep \<and> ep_service ep = name"
    and base: "\<forall>p \<in> set base. endpointLabelRe (fst p) = None"
    and ls: "mset ls = mset (base @ concat (map endpoint_labels (enumerate 0 es)))"
  shows "extractEndpoints ls name = map set_index (enumerate 0 es)"
proof -
  let ?m = "endpoints_by_index name ls []"
  have at: "label_at ls k f v \<longleftrightarrow> (\<exists>i < length es. k = int i \<and> v = ep_get f (es ! i) \<and> f \<in> set (written_fields (es ! i)))" for k f v
  proof -
    have "label_at ls k f v \<longleftrightarrow> label_at (base @ concat (map endpoint_labels (enumerate 0 es))) k f v"
      using mset_eq_setD [OF ls] by (simp only: label_at_def)
    also have "\<dots> \<longleftrightarrow> label_at (concat (map endpoint_labels (enumerate 0 es))) k f v"
      using base by (force simp: label_at_def)
    finally show ?thesis by (simp only: label_at_written [OF n])
  qed
  have "label_ids base = []"
    using base by (induction base) (auto simp: List.map_filter_simps)
  then have "distinct (label_ids (base @ concat (map endpoint_labels (enumerate 0 es))))"
    using label_ids_written [of 0 es] n by (simp add: map_filter_append)
  moreover have "mset (label_ids ls) = mset (label_ids (base @ concat (map endpoint_labels (enumerate 0 es))))"
    unfolding List.map_filter_def mset_map mset_filter ls ..
  ultimately have dis: "distinct (label_ids ls)" by (metis mset_eq_imp_distinct_iff)
  have "fst ` set ?m = int ` {0..<length es}"
  proof -
    have "(\<exists>f v. label_at ls k f v) \<longleftrightarrow> (\<exists>i < length es. k = int i)" for k
      unfolding at using written_fields(2) by blast
    then show ?thesis by (auto simp: endpoints_by_index_keys)
  qed
  moreover have "gomap_ok ?m" by (rule gomap_ok_endpoints_by_index) simp
  ultimately have "mset (map fst ?m) = mset (map int [0..<length es])"
    by (intro set_eq_iff_mset_eq_distinct [THEN iffD1]) (simp_all add: distinct_map)
  then have sorted: "sort_by (<) (map fst ?m) = map int [0..<length es]"
  proof (intro int_order.sorted_unique int_order.sorted_sort_by)
    show "sorted_wrt (\<lambda>a b. \<not> b < a) (map int [0..<length es])"
      by (simp add: sorted_wrt_map sorted_wrt_iff_nth_less)
  qed simp
  have "the (map_of ?m (int i)) = set_index (i, es ! i)" if i: "i < length es" for i
  proof -
    have "int i \<in> fst ` set ?m" using \<open>fst ` set ?m = _\<close> i by simp
    then obtain e where e: "map_of ?m (int i) = Some e" by (metis map_of_eq_None_iff not_None_eq)
    have "\<forall>p \<in> set ?m. index_ok name p" by (rule endpoints_by_index_ok) simp
    with map_of_SomeD [OF e] have io: "ep_index e = int i" "ep_service e = name" by (auto simp: index_ok_def)
    have esi: "readable (es ! i)" "ep_service (es ! i) = name" using es i by auto
    have g: "ep_get f e = ep_get f (es ! i)" for f
    proof (cases "f \<in> set (written_fields (es ! i))")
      case True
      then have "label_at ls (int i) f (ep_get f (es ! i))" using i unfolding at by blast
      from field_labelled [OF dis this, of name "[]"] show ?thesis
        using e readable_field [OF esi(1)] by (simp add: ep_at_def)
    next
      case False
      then have "\<And>v. \<not> label_at ls (int i) f v" by (simp add: at)
      from field_unlabelled [OF this, of name "[]"] have "ep_get f e = []"
        using e by (cases f) (simp_all add: ep_at_def new_endpoint_def)
      with False show ?thesis by (simp add: written_fields)
    qed
    have si: "ep_get f (set_index (i, es ! i)) = ep_get f (es ! i)" for f
      by (cases f) (simp_all add: set_index_def)
    have "e = set_index (i, es ! i)"
      using g si io esi(2) by (intro ep_eqI) (simp_all add: set_index_def)
    with e show ?thesis by simp
  qed
  then have "map (\<lambda>k. the (map_of ?m k)) (map int [0..<length es]) = map (\<lambda>i. set_index (i, es ! i)) [0..<length es]"
    by simp
  moreover have "map set_index (enumerate 0 es) = map (\<lambda>i. set_index (i, es ! i)) [0..<length es]"
    by (intro nth_equalityI) (simp_all add: nth_enumerate_eq)
  ultimately show ?thesis by (simp only: extractEndpoints_def Let_def sorted)
qed


subsection \<open>The edited file\<close>

definition service_labels :: "ynode \<Rightarrow> (string \<times> string) list" where
  "service_labels svc =
     (case findMapValue svc ''labels'' of
        Some (NMap ps) \<Rightarrow> map (\<lambda>(k, v). (node_value k, node_value v)) ps
      | _ \<Rightarrow> [])"

text \<open>A service whose labels, if any, have the mapping form.\<close>

definition labels_editable :: "ynode \<Rightarrow> bool" where
  "labels_editable svc \<longleftrightarrow> node_pairs svc \<noteq> None \<and>
     (case findMapValue svc ''labels'' of None \<Rightarrow> True | Some n \<Rightarrow> node_pairs n \<noteq> None)"

definition other_label :: "string \<times> string \<Rightarrow> bool" where
  "other_label p \<longleftrightarrow> \<not> prefix endpoint_label_prefix (fst p)"

lemma node_pairs_Some: "node_pairs n = Some ps \<longleftrightarrow> n = NMap ps"
  by (cases n) auto

lemma has_key_simp [simp]: "has_key key (k, v) \<longleftrightarrow> node_value k = key"
  by (simp add: has_key_def)

lemma findMapValue_NMap: "findMapValue (NMap ps) key = map_option snd (find (has_key key) ps)"
  by (simp add: findMapValue_def)

lemma find_set_first: "find (has_key key) ps = Some p \<Longrightarrow> find (has_key key) (set_first key w ps) = Some (fst p, w)"
  by (induction ps) (auto simp: has_key_def split: if_splits)

lemma findMapValue_set_found:
  assumes "findMapValue m key = Some v"
  shows "findMapValue (set_found key w m) key = Some w"
proof -
  from assms obtain ps where m: "m = NMap ps"
    by (cases "node_pairs m") (auto simp: findMapValue_def node_pairs_Some)
  with assms obtain p where "find (has_key key) ps = Some p" by (auto simp: findMapValue_NMap)
  from find_set_first [OF this] show ?thesis by (simp add: m findMapValue_NMap)
qed

lemma find_append_None: "find P xs = None \<Longrightarrow> find P (xs @ ys) = find P ys"
  by (induction xs) (auto split: if_splits)

lemma findMapValue_append:
  "findMapValue (NMap ps) (node_value k) = None \<Longrightarrow> findMapValue (append_pair k v (NMap ps)) (node_value k) = Some v"
  by (simp add: findMapValue_NMap find_append_None)

definition label_nodes :: "(string \<times> string) list \<Rightarrow> (ynode \<times> ynode) list" where
  "label_nodes ls = map (\<lambda>(k, v). (str_node k, str_node v)) ls"

lemma addLabels: "fold (\<lambda>(k, v). addLabel k v) ls (NMap ps) = NMap (ps @ label_nodes ls)"
  by (induction ls arbitrary: ps) (auto simp: addLabel_def label_nodes_def)

lemma label_nodes_values: "map (\<lambda>(k, v). (node_value k, node_value v)) (label_nodes ls) = ls"
  by (induction ls) (auto simp: label_nodes_def str_node_def)

lemma service_labels_strip:
  assumes "labels_editable svc"
  shows "labels_editable (strip_labels svc) \<and> service_labels (strip_labels svc) = filter other_label (service_labels svc)"
proof (cases "findMapValue svc ''labels''")
  case None
  with assms show ?thesis by (simp add: strip_labels_def service_labels_def)
next
  case (Some n)
  with assms obtain ps where n: "n = NMap ps" by (auto simp: labels_editable_def node_pairs_Some)
  have st: "strip_labels svc = set_found ''labels'' (NMap (removeEndpointLabels ps)) svc"
    using Some n by (simp add: strip_labels_def)
  note lk = findMapValue_set_found [OF Some, of "NMap (removeEndpointLabels ps)"]
  have "node_pairs (strip_labels svc) \<noteq> None"
    using assms unfolding st by (cases svc) (auto simp: labels_editable_def)
  moreover have "map (\<lambda>(k, v). (node_value k, node_value v)) (removeEndpointLabels ps) =
      filter other_label (map (\<lambda>(k, v). (node_value k, node_value v)) ps)"
    by (induction ps) (auto simp: removeEndpointLabels_def other_label_def)
  ultimately show ?thesis using lk Some n by (simp add: labels_editable_def service_labels_def st)
qed

lemma service_labels_add:
  assumes "labels_editable svc"
  shows "service_labels (label_service eps name svc) =
     service_labels svc @ concat (map endpoint_labels (indexed_endpoints name eps))"
proof (cases "indexed_endpoints name eps = []")
  case True
  then show ?thesis by (simp add: label_service_def Let_def)
next
  case False
  define ls where "ls = concat (map endpoint_labels (indexed_endpoints name eps))"
  show ?thesis
  proof (cases "findMapValue svc ''labels''")
    case None
    from assms obtain sp where sp: "svc = NMap sp" by (auto simp: labels_editable_def node_pairs_Some)
    have "findMapValue (append_pair (str_node ''labels'') (NMap (label_nodes ls)) svc) ''labels'' = Some (NMap (label_nodes ls))"
      using findMapValue_append [of sp "str_node ''labels''" "NMap (label_nodes ls)"] None sp
      by (simp add: str_node_def)
    then show ?thesis
      using False None by (simp add: label_service_def Let_def ls_def [symmetric] addLabels service_labels_def label_nodes_values)
  next
    case (Some n)
    with assms obtain ps where n: "n = NMap ps" by (auto simp: labels_editable_def node_pairs_Some)
    note lk = findMapValue_set_found [OF Some, of "NMap (ps @ label_nodes ls)"]
    show ?thesis
      using False Some n lk
      by (simp add: label_service_def Let_def ls_def [symmetric] addLabels service_labels_def label_nodes_values)
  qed
qed

lemma other_label_not_endpoint: "other_label p \<Longrightarrow> endpointLabelRe (fst p) = None"
  by (simp add: other_label_def endpointLabelRe_def endpoint_label_prefix_def)

lemma endpoint_label_not_other: "p \<in> set (endpoint_labels q) \<Longrightarrow> \<not> other_label p"
  by (cases q) (auto simp: endpoint_labels_map other_label_def endpoint_key_def)

lemma label_service_endpoints:
  assumes ed: "labels_editable svc" and n: "int (length eps) \<le> max_i64" and r: "\<forall>ep \<in> set eps. readable ep"
    and ls: "mset ls = mset (service_labels (label_service eps name (strip_labels svc)))"
  shows "extractEndpoints ls name = map set_index (indexed_endpoints name eps)"
  unfolding indexed_endpoints_def
proof (rule extract_written)
  let ?es = "filter (\<lambda>ep. ep_service ep = name) eps"
  show "int (length ?es) \<le> max_i64" using n length_filter_le [of "\<lambda>ep. ep_service ep = name" eps] by linarith
  show "\<forall>ep \<in> set ?es. readable ep \<and> ep_service ep = name" using r by simp
  show "\<forall>p \<in> set (filter other_label (service_labels svc)). endpointLabelRe (fst p) = None"
    by (simp add: other_label_not_endpoint)
  show "mset ls = mset (filter other_label (service_labels svc) @ concat (map endpoint_labels (enumerate 0 ?es)))"
    using service_labels_strip [OF ed] by (simp add: ls service_labels_add indexed_endpoints_def)
qed

lemma label_service_others:
  assumes "labels_editable svc"
  shows "filter other_label (service_labels (label_service eps name (strip_labels svc))) = filter other_label (service_labels svc)"
proof -
  have "filter other_label (concat (map endpoint_labels xs)) = []" for xs
    using endpoint_label_not_other by (auto simp: filter_empty_conv)
  then show ?thesis using service_labels_strip [OF assms] by (simp add: service_labels_add)
qed

text \<open>
  Property C36. After the endpoints of an app were edited, every service whose labels have the mapping form gives, when its
  labels are parsed again in any order, exactly the endpoints asked for it, in that order and numbered from 0, and
  keeps every other label, if the endpoints asked for are ones the parser can read back (\<open>readable\<close>). Labels in
  the list form are not edited (see \<open>list_labels_not_edited\<close>).
\<close>

theorem endpoint_edit_round_trip:
  assumes "edit_endpoints eps root = Some root'" "findMapValue root ''services'' = Some (NMap ps)"
    "i < length ps" "labels_editable (snd (ps ! i))" "int (length eps) \<le> max_i64" "\<forall>ep \<in> set eps. readable ep"
  shows "\<exists>ps'. findMapValue root' ''services'' = Some (NMap ps') \<and> length ps' = length ps \<and> fst (ps' ! i) = fst (ps ! i) \<and>
     (\<forall>ls. mset ls = mset (service_labels (snd (ps' ! i))) \<longrightarrow>
        extractEndpoints ls (node_value (fst (ps ! i))) = map set_index (indexed_endpoints (node_value (fst (ps ! i))) eps)) \<and>
     filter other_label (service_labels (snd (ps' ! i))) = filter other_label (service_labels (snd (ps ! i)))"
proof -
  define f where "f = (\<lambda>(k, svc). (k, label_service eps (node_value k) (strip_labels svc)))"
  have "root' = set_found ''services'' (NMap (map f ps)) root"
    using assms(1,2) by (simp add: edit_endpoints_def f_def split: if_splits)
  then have "findMapValue root' ''services'' = Some (NMap (map f ps))"
    using findMapValue_set_found [OF assms(2)] by simp
  moreover have "map f ps ! i = (fst (ps ! i), label_service eps (node_value (fst (ps ! i))) (strip_labels (snd (ps ! i))))"
    using assms(3) by (simp add: f_def split_beta)
  ultimately show ?thesis
    using label_service_endpoints [OF assms(4-6)] label_service_others [OF assms(4)] assms(3)
    by (intro exI [of _ "map f ps"]) (simp add: )
qed


subsection \<open>Labels in the list form\<close>

text \<open>
  Labels in the list form keep their old endpoint entries and get the key and the value of a new label as two
  entries of the list.
\<close>

lemma addLabels_list:
  "fold (\<lambda>(k, v). addLabel k v) ls (NSeq items) = NSeq (items @ concat (map (\<lambda>(k, v). [str_node k, str_node v]) ls))"
  by (induction ls arbitrary: items) (auto simp: addLabel_def)

lemma list_labels_not_edited:
  assumes "findMapValue svc ''labels'' = Some (NSeq items)"
  shows "\<exists>more_items. findMapValue (label_service eps name (strip_labels svc)) ''labels'' = Some (NSeq (items @ more_items))"
  using assms findMapValue_set_found [OF assms]
  by (cases "indexed_endpoints name eps = []")
    (simp_all add: strip_labels_def label_service_def Let_def addLabels_list)

lemma list_allowlist_not_set:
  assumes "findMapValue svc ''labels'' = Some (NSeq items)"
  shows "findMapValue (add_allow allow svc) ''labels'' = Some (NSeq (items @ [str_node allow_label, str_node allow]))"
  using assms findMapValue_set_found [OF assms] by (simp add: add_allow_def addLabel_def)

subsection \<open>An empty allowlist\<close>

lemma find_sub_empty: "find_sub [] s = Some 0"
  by (cases s) simp_all

text \<open>On the line of a value that was cleared and had no quotes, the next allowlist is put in front of the line.\<close>

lemma cleared_value_in_front:
  assumes "find_sub [CHR 0x22, CHR 0x22] line = None" "find_sub [CHR 0x27, CHR 0x27] line = None"
  shows "replaceAllowValue line [] new = new @ line"
  using assms by (simp add: replaceAllowValue_def replace_first_def find_sub_empty)

subsection \<open>A file with two services\<close>

definition old_web :: ynode where
  "old_web = NMap [(str_node ''image'', str_node ''nginx''),
     (str_node ''labels'', NMap [(str_node ''simpledeploy.endpoints.5.domain'', str_node ''old.example''), (str_node ''tier'', str_node ''front'')])]"

definition two_services :: "(ynode \<times> ynode) list" where
  "two_services = [(str_node ''web'', old_web), (str_node ''api'', NMap [(str_node ''image'', str_node ''api'')])]"

definition new_web_endpoints :: "EndpointConfig list" where
  "new_web_endpoints =
     [\<lparr>ep_domain = ''a.example'', ep_port = ''80'', ep_tls = [], ep_service = ''web'', ep_protocol = ''grpc'', ep_path = [], ep_index = 0\<rparr>,
      \<lparr>ep_domain = ''b.example'', ep_port = [], ep_tls = ''off'', ep_service = ''api'', ep_protocol = [], ep_path = ''/v1'', ep_index = 0\<rparr>,
      \<lparr>ep_domain = ''c.example'', ep_port = [], ep_tls = [], ep_service = ''web'', ep_protocol = [], ep_path = [], ep_index = 0\<rparr>]"

lemma readable_new_web_endpoints: "\<forall>ep \<in> set new_web_endpoints. readable ep"
  by (simp add: new_web_endpoints_def readable_def NormalizeProtocol_def trim_space_def drop_end_while_def is_space_def
      to_lower_def lower_char_def)

lemma old_web_labels: "findMapValue old_web ''labels'' =
    Some (NMap [(str_node ''simpledeploy.endpoints.5.domain'', str_node ''old.example''), (str_node ''tier'', str_node ''front'')])"
  by (simp add: old_web_def findMapValue_NMap str_node_def)

theorem endpoint_edit_round_trip_witness:
  "\<exists>root' ps'. edit_endpoints new_web_endpoints (NMap [(str_node ''services'', NMap two_services)]) = Some root' \<and>
     findMapValue root' ''services'' = Some (NMap ps') \<and>
     extractEndpoints (service_labels (snd (ps' ! 0))) ''web'' =
       [new_web_endpoints ! 0, (new_web_endpoints ! 2)\<lparr>ep_index := 1\<rparr>] \<and>
     filter other_label (service_labels (snd (ps' ! 0))) = [(''tier'', ''front'')]"
proof -
  let ?root = "NMap [(str_node ''services'', NMap two_services)]"
  have s: "findMapValue ?root ''services'' = Some (NMap two_services)"
    by (simp add: findMapValue_NMap str_node_def)
  then obtain root' where e: "edit_endpoints new_web_endpoints ?root = Some root'"
    by (simp add: edit_endpoints_def two_services_def)
  have w: "two_services ! 0 = (str_node ''web'', old_web)" "node_value (str_node ''web'') = ''web''"
    by (simp_all add: two_services_def str_node_def)
  have "labels_editable old_web"
    by (simp add: labels_editable_def old_web_labels) (simp add: old_web_def)
  then obtain ps' where ps': "findMapValue root' ''services'' = Some (NMap ps')"
    "\<forall>ls. mset ls = mset (service_labels (snd (ps' ! 0))) \<longrightarrow>
        extractEndpoints ls ''web'' = map set_index (indexed_endpoints ''web'' new_web_endpoints)"
    "filter other_label (service_labels (snd (ps' ! 0))) = filter other_label (service_labels old_web)"
    using endpoint_edit_round_trip [OF e s, of 0] w readable_new_web_endpoints
    by (auto simp: two_services_def new_web_endpoints_def max_i64_def)
  have "map set_index (indexed_endpoints ''web'' new_web_endpoints) = [new_web_endpoints ! 0, (new_web_endpoints ! 2)\<lparr>ep_index := 1\<rparr>]"
    by (simp add: indexed_endpoints_def new_web_endpoints_def set_index_def)
  moreover have "filter other_label (service_labels old_web) = [(''tier'', ''front'')]"
    by (simp add: service_labels_def old_web_labels other_label_def endpoint_label_prefix_def str_node_def)
  ultimately show ?thesis using e ps' by auto
qed

end
