(* ===== verification/AppFiles.thy ===== *)
theory AppFiles
  imports AppEdit Reconciler ApiAuth
begin

text \<open>
  The handlers of internal/api that change the files of an app: endpoints (domain.go), IP allowlist (access.go),
  environment (env.go), deploy, removal and validation of a compose file (deploy.go), restore of a stored version
  (backups.go) and purge (apps_archive.go), with the checks they share (apps.go). A handler gets the caller,
  the slug and the decoded body and gives the response and the state after it. A goroutine it starts is an
  operation of the reconciler appended to the queue of the state.
\<close>

subsection \<open>State and responses\<close>

record app_audit =
  av_category :: string
  av_action :: string
  av_slug :: string
  av_before :: "string list"
  av_after :: "string list"

record app_api =
  aa_recon :: recon
  aa_queue :: "recon_op list"
  aa_commits :: "(string list \<times> string) list"
  aa_audit :: "app_audit list"
  aa_reserved :: "string list"

text \<open>
  \<open>ac_line\<close> gives the line of a service's allowlist value in a file, \<open>ac_mkdir\<close> and \<open>ac_rmdir\<close> say whether a folder can
  be made or removed.
\<close>

record app_env =
  ac_recon :: recon_env
  ac_line :: "string \<Rightarrow> nat \<Rightarrow> int"
  ac_base64 :: "string \<Rightarrow> string option"
  ac_mkdir :: "string \<Rightarrow> bool"
  ac_rmdir :: "string \<Rightarrow> bool"
  ac_tempDir :: string

abbreviation app_files :: "app_api \<Rightarrow> string \<Rightarrow> fnode" where
  "app_files s \<equiv> rs_files (aa_recon s)"

abbreviation app_rows :: "app_api \<Rightarrow> app_db" where
  "app_rows s \<equiv> rs_db (aa_recon s)"

record envVar =
  vn_Key :: string
  vn_Value :: string
  vn_Masked :: bool

datatype domain_refusal =
    DomainReserved string | DomainWildcard string | DomainsUnknown | DomainOwned string string | DomainTaken string

datatype endpoint_refusal =
    NeedsDomain | BadDomain string | NeedsService string | UnknownService string string "string list"
  | BadProtocol string string | BadPath string string | SameMatcher string string | OtherTLS string string string string

datatype refusal =
    AppNotFound | BadBody | BadName | UnsafeCompose | DotEnvProblem | ComposeIsLink | ComposeUnreadable
  | BadEndpoint endpoint_refusal | BadEndpointDomain domain_refusal | BadCIDR string | BadIP string
  | BadEnv nat | EnvUnreadable | EnvUnwritable | NotLoadable | Disallowed | ValuesDisallowed | NotBase64
  | NameTaken | NameTakenTry "string option" | NoFolder | Unwritten | NotArchived | IsArchived | ActionError
  | BadVersionID | UnknownVersion | OtherAppsVersion | ComposeMissing | StoreError

datatype app_response =
    Refusal nat refusal
  | EndpointsSaved "EndpointConfig list"
  | AllowSaved string
  | EnvShown "envVar list"
  | EnvSaved
  | DeployStarted string
  | AppRemoved
  | AppPurged
  | Validated bool
  | ComposeShown string
  | VersionRestoring

definition with_files :: "app_api \<Rightarrow> recon \<Rightarrow> app_api" where
  "with_files s r = s\<lparr>aa_recon := r\<rparr>"

definition start :: "recon_op \<Rightarrow> app_api \<Rightarrow> app_api" where
  "start op s = s\<lparr>aa_queue := aa_queue s @ [op]\<rparr>"

definition EnqueueGitCommit :: "string list \<Rightarrow> string \<Rightarrow> app_api \<Rightarrow> app_api" where
  "EnqueueGitCommit paths reason s = s\<lparr>aa_commits := aa_commits s @ [(paths, reason)]\<rparr>"

definition recordAudit :: "string \<Rightarrow> string \<Rightarrow> string \<Rightarrow> string list \<Rightarrow> string list \<Rightarrow> app_api \<Rightarrow> app_api" where
  "recordAudit slug category action before after s =
     s\<lparr>aa_audit := aa_audit s @ [\<lparr>av_category = category, av_action = action, av_slug = slug, av_before = before, av_after = after\<rparr>]\<rparr>"

subsection \<open>Parsing for display, and domains\<close>

definition parseComposeForDisplay :: "recon_env \<Rightarrow> recon \<Rightarrow> string \<Rightarrow> string \<Rightarrow> AppConfig option" where
  "parseComposeForDisplay env s composePath slug =
     (let read = ReadRegularFile (rs_files s); pe = parse_of env s;
          result = (\<lambda>r. case r of Inr cfg \<Rightarrow> Some cfg | Inl _ \<Rightarrow> None) in
      case parse_file env s composePath slug of
        Inr cfg \<Rightarrow> Some cfg
      | Inl err \<Rightarrow>
          if is_violation err then result (ParseForRoutes pe read composePath slug)
          else if is_dotenv_error err then
            (case read composePath of
               FileData data \<Rightarrow>
                 (case ParseContent pe data composePath slug None of
                    Inr cfg \<Rightarrow> Some cfg
                  | Inl err2 \<Rightarrow> if is_violation err2 then result (ParseForRoutes pe read composePath slug) else None)
             | _ \<Rightarrow> None)
          else if is_not_regular err then
            (case rs_files s composePath of
               LinkF (Some data) \<Rightarrow>
                 result (ParseContent pe data composePath slug
                   (case ReadDotEnv read (dir_path composePath) of Inr d \<Rightarrow> d | Inl _ \<Rightarrow> None))
             | _ \<Rightarrow> None)
          else None)"

definition endpointDomainKey :: "string \<Rightarrow> string" where
  "endpointDomainKey d = trim_suffix (to_lower (trim_space d)) ''.''"

definition SetReservedDomains :: "string list \<Rightarrow> app_api \<Rightarrow> app_api" where
  "SetReservedDomains domains s = s\<lparr>aa_reserved := filter (\<lambda>k. k \<noteq> []) (map endpointDomainKey domains)\<rparr>"

definition reservedDomainList :: "app_api \<Rightarrow> string list" where
  "reservedDomainList s = sort_by (<) (remdups (aa_reserved s))"

definition endpointName :: "EndpointConfig \<Rightarrow> string" where
  "endpointName ep = ep_domain ep @ ep_path ep"

definition claim_domain :: "string \<Rightarrow> string \<Rightarrow> (string \<times> string) list \<Rightarrow> (string \<times> string) list" where
  "claim_domain owner domain owners =
     (let k = endpointDomainKey domain in
      if k = [] \<or> map_of owners k \<noteq> None then owners else AList.update k owner owners)"

definition app_domains :: "recon_env \<Rightarrow> recon \<Rightarrow> App \<Rightarrow> string list" where
  "app_domains env s a =
     (case (if app_ComposePath a \<noteq> [] then parseComposeForDisplay env s (app_ComposePath a) (app_Slug a) else None) of
        None \<Rightarrow> [app_Domain a]
      | Some cfg \<Rightarrow> map ep_domain (a_endpoints cfg))"

definition otherAppDomains :: "recon_env \<Rightarrow> string \<Rightarrow> recon \<Rightarrow> (string \<times> string) list option" where
  "otherAppDomains env slug s =
     (case ListApps (rv_sql env) (rs_db s) of
        Inl _ \<Rightarrow> None
      | Inr apps \<Rightarrow>
          Some (fold (\<lambda>a. fold (claim_domain (app_Slug a)) (app_domains env s a)) (filter (\<lambda>a. app_Slug a \<noteq> slug) apps) []))"

definition is_super :: "AuthUser option \<Rightarrow> bool" where
  "is_super user \<longleftrightarrow> (case user of Some u \<Rightarrow> Role u = ''super_admin'' | None \<Rightarrow> False)"

fun restricted_domain :: "string list \<Rightarrow> string set \<Rightarrow> EndpointConfig list \<Rightarrow> domain_refusal option" where
  "restricted_domain reserved existing [] = None"
| "restricted_domain reserved existing (ep # eps) =
     (let key = endpointDomainKey (ep_domain ep) in
      if key \<in> existing then restricted_domain reserved existing eps
      else if key \<in> set reserved then Some (DomainReserved (ep_domain ep))
      else if CHR ''*'' \<in> set (ep_domain ep) then Some (DomainWildcard (ep_domain ep))
      else restricted_domain reserved existing eps)"

fun taken_domain :: "bool \<Rightarrow> (string \<times> string) list \<Rightarrow> EndpointConfig list \<Rightarrow> domain_refusal option" where
  "taken_domain super owners [] = None"
| "taken_domain super owners (ep # eps) =
     (case map_of owners (endpointDomainKey (ep_domain ep)) of
        None \<Rightarrow> taken_domain super owners eps
      | Some owner \<Rightarrow> Some (if super then DomainOwned (ep_domain ep) owner else DomainTaken (ep_domain ep)))"

definition checkEndpointDomains ::
  "app_env \<Rightarrow> AuthUser option \<Rightarrow> string \<Rightarrow> EndpointConfig list \<Rightarrow> EndpointConfig list \<Rightarrow> app_api \<Rightarrow> domain_refusal option" where
  "checkEndpointDomains e user slug endpoints current s =
     (case (if is_super user then None
            else restricted_domain (aa_reserved s) (set (map (endpointDomainKey \<circ> ep_domain) current)) endpoints) of
        Some r \<Rightarrow> Some r
      | None \<Rightarrow>
          (case otherAppDomains (ac_recon e) slug (aa_recon s) of
             None \<Rightarrow> Some DomainsUnknown
           | Some owners \<Rightarrow> taken_domain (is_super user) owners endpoints))"

definition domain_status :: "domain_refusal \<Rightarrow> nat" where
  "domain_status r = (if r = DomainsUnknown then 500 else 409)"

subsection \<open>Endpoints\<close>

definition loadComposeForEdit :: "recon_env \<Rightarrow> App \<Rightarrow> recon \<Rightarrow> refusal + AppConfig" where
  "loadComposeForEdit env app s =
     (case parse_file env s (app_ComposePath app) (app_Slug app) of
        Inl err \<Rightarrow>
          Inl (if is_violation err then UnsafeCompose
               else if is_dotenv_error err then DotEnvProblem
               else if is_not_regular err then ComposeIsLink else ComposeUnreadable)
      | Inr cfg \<Rightarrow> if security_violations env s cfg \<noteq> [] then Inl UnsafeCompose else Inr cfg)"

definition clean_endpoint :: "EndpointConfig \<Rightarrow> EndpointConfig" where
  "clean_endpoint ep = ep\<lparr>ep_protocol := NormalizeProtocol (ep_protocol ep), ep_path := trim_space (ep_path ep)\<rparr>"

fun check_endpoints ::
  "string list \<Rightarrow> string list \<Rightarrow> (string \<rightharpoonup> EndpointConfig) \<Rightarrow> EndpointConfig list \<Rightarrow> endpoint_refusal + EndpointConfig list" where
  "check_endpoints services seen first [] = Inr []"
| "check_endpoints services seen first (ep0 # eps) =
     (let ep = clean_endpoint ep0; name = endpointName ep; d = ep_domain ep; key = EndpointMatchKey ep in
      if d = [] then Inl NeedsDomain
      else if length d > 253 \<or> \<not> validDomain d then Inl (BadDomain d)
      else if ep_service ep = [] then Inl (NeedsService name)
      else if ep_service ep \<notin> set services then Inl (UnknownService name (ep_service ep) (sort_by (<) services))
      else if \<not> ValidProtocol (ep_protocol ep) then Inl (BadProtocol name (ep_protocol ep))
      else if ep_path ep \<noteq> [] \<and> \<not> ValidPath (ep_path ep) then Inl (BadPath d (ep_path ep))
      else if key \<in> set seen then Inl (SameMatcher name d)
      else case first d of
        Some f \<Rightarrow>
          if EffectiveTLS (ep_tls ep) \<noteq> EffectiveTLS (ep_tls f)
          then Inl (OtherTLS name (EffectiveTLS (ep_tls ep)) (EffectiveTLS (ep_tls f)) (endpointName f))
          else map_sum id (\<lambda>r. ep # r) (check_endpoints services (key # seen) first eps)
      | None \<Rightarrow> map_sum id (\<lambda>r. ep # r) (check_endpoints services (key # seen) (first(d \<mapsto> ep)) eps))"

text \<open>The edit of a file: read, changed, written; nothing is written when the change fails or is empty.\<close>

definition edit_file :: "recon_env \<Rightarrow> string \<Rightarrow> (string \<Rightarrow> string option option) \<Rightarrow> recon \<Rightarrow> bool \<times> recon" where
  "edit_file env path f s =
     (case ReadRegularFile (rs_files s) path of
        FileData data \<Rightarrow>
          (case f data of None \<Rightarrow> (False, s) | Some None \<Rightarrow> (True, s) | Some (Some out) \<Rightarrow> WriteFileAtomic env path out s)
      | _ \<Rightarrow> (False, s))"

definition matcher_changes :: "EndpointConfig list \<Rightarrow> EndpointConfig list \<Rightarrow> (string \<times> string) list" where
  "matcher_changes old new =
     (let ks = remdups (map EndpointMatchKey new); olds = remdups (map EndpointMatchKey old) in
      map (\<lambda>k. (if k \<in> set olds then ''changed'' else ''added'', k)) ks @
      map (\<lambda>k. (''removed'', k)) (filter (\<lambda>k. k \<notin> set ks) olds))"

definition audit_endpoints :: "string \<Rightarrow> EndpointConfig list \<Rightarrow> EndpointConfig list \<Rightarrow> app_api \<Rightarrow> app_api" where
  "audit_endpoints slug old new s =
     fold (\<lambda>(action, k). recordAudit slug ''endpoint'' action (if action = ''added'' then [] else [k])
         (if action = ''removed'' then [] else [k])) (matcher_changes old new) s"

definition handleUpdateEndpoints ::
  "app_env \<Rightarrow> AuthUser option \<Rightarrow> string \<Rightarrow> EndpointConfig list option \<Rightarrow> app_api \<Rightarrow> app_response \<times> app_api" where
  "handleUpdateEndpoints e user slug body s =
     (let env = ac_recon e in
      case GetApp (rv_sql env) slug (app_rows s) of
        Inl _ \<Rightarrow> (Refusal 404 AppNotFound, s)
      | Inr app \<Rightarrow>
          (case loadComposeForEdit env app (aa_recon s) of
             Inl r \<Rightarrow> (Refusal 409 r, s)
           | Inr parsed \<Rightarrow>
               (case body of
                  None \<Rightarrow> (Refusal 400 BadBody, s)
                | Some eps \<Rightarrow>
                    (case check_endpoints (map sc_name (a_services parsed)) [] Map.empty eps of
                       Inl r \<Rightarrow> (Refusal 400 (BadEndpoint r), s)
                     | Inr endpoints \<Rightarrow>
                         (case checkEndpointDomains e user slug endpoints (a_endpoints parsed) s of
                            Some r \<Rightarrow> (Refusal (domain_status r) (BadEndpointDomain r), s)
                          | None \<Rightarrow>
                              (case edit_file env (app_ComposePath app)
                                      (map_option Some \<circ> updateComposeEndpoints (rv_decode env) (rv_encode env) endpoints) (aa_recon s) of
                                 (False, r) \<Rightarrow> (Refusal 500 Unwritten, with_files s r)
                               | (True, r) \<Rightarrow>
                                   (EndpointsSaved endpoints,
                                    audit_endpoints slug (a_endpoints parsed) endpoints
                                      (start RcRefreshRoutes
                                        (EnqueueGitCommit [app_ComposePath app] (''endpoints:'' @ slug) (with_files s r)))))))))) "


subsection \<open>IP allowlist\<close>

definition parseAllowList :: "string \<Rightarrow> string list" where
  "parseAllowList allow = filter (\<lambda>t. t \<noteq> []) (map trim_space (split_on CHR '','' allow))"

definition bad_allow_entry :: "string \<Rightarrow> refusal option" where
  "bad_allow_entry entry =
     (if CHR ''/'' \<in> set entry then (if parse_cidr entry = None then Some (BadCIDR entry) else None)
      else if parse_ip entry = None then Some (BadIP entry) else None)"

definition handleUpdateAccess :: "app_env \<Rightarrow> string \<Rightarrow> string option \<Rightarrow> app_api \<Rightarrow> app_response \<times> app_api" where
  "handleUpdateAccess e slug body s =
     (let env = ac_recon e in
      case GetApp (rv_sql env) slug (app_rows s) of
        Inl _ \<Rightarrow> (Refusal 404 AppNotFound, s)
      | Inr app \<Rightarrow>
          (case body of
             None \<Rightarrow> (Refusal 400 BadBody, s)
           | Some allow \<Rightarrow>
               (case List.map_filter bad_allow_entry (parseAllowList allow) of
                  r # _ \<Rightarrow> (Refusal 400 r, s)
                | [] \<Rightarrow>
                    (case loadComposeForEdit env app (aa_recon s) of
                       Inl r \<Rightarrow> (Refusal 409 r, s)
                     | Inr parsed \<Rightarrow>
                         (case edit_file env (app_ComposePath app)
                                 (updateComposeAccessAllow (rv_decode env) (rv_encode env) (ac_line e) allow) (aa_recon s) of
                            (False, r) \<Rightarrow> (Refusal 500 Unwritten, with_files s r)
                          | (True, r) \<Rightarrow>
                              (AllowSaved allow,
                               recordAudit (app_Slug app) ''access'' ''iplist_changed''
                                 (parseAllowList (lc_access_allow (a_labels parsed))) (parseAllowList allow)
                                 (start RcRefreshRoutes
                                   (EnqueueGitCommit [app_ComposePath app] (''access:'' @ slug) (with_files s r)))))))))"

subsection \<open>Environment files\<close>

definition canSeeEnvValues :: "string \<Rightarrow> bool" where
  "canSeeEnvValues role \<longleftrightarrow> role = ''super_admin'' \<or> role = ''manage''"

text \<open>\<open>EnsureNoSymlinks\<close>: the elements of the relative path from the root, and the walk along them.\<close>

definition rel_parts :: "string \<Rightarrow> string \<Rightarrow> string list option" where
  "rel_parts root target =
     (let r = clean_path root; t = clean_path target in
      if t = r then Some []
      else if r = ''.'' then (if is_abs t \<or> t = ''..'' \<or> prefix ''../'' t then None else Some (split_on CHR ''/'' t))
      else if r = ''/'' then (if is_abs t then Some (split_on CHR ''/'' (tl t)) else None)
      else if prefix (r @ ''/'') t then Some (split_on CHR ''/'' (drop (Suc (length r)) t)) else None)"

fun no_symlinks :: "(string \<Rightarrow> fnode) \<Rightarrow> string \<Rightarrow> string list \<Rightarrow> bool" where
  "no_symlinks files cur [] = True"
| "no_symlinks files cur (part # parts) =
     (let cur = join_path [cur, part] in
      case files cur of Missing \<Rightarrow> True | LinkF _ \<Rightarrow> False | UnstatableF \<Rightarrow> False | _ \<Rightarrow> no_symlinks files cur parts)"

definition EnsureNoSymlinks :: "(string \<Rightarrow> fnode) \<Rightarrow> string \<Rightarrow> string \<Rightarrow> bool" where
  "EnsureNoSymlinks files root target =
     (case rel_parts root target of None \<Rightarrow> False | Some parts \<Rightarrow> no_symlinks files (clean_path root) parts)"

definition envFilePath :: "recon_env \<Rightarrow> App \<Rightarrow> recon \<Rightarrow> string option" where
  "envFilePath env app s =
     (let appDir = dir_path (app_ComposePath app); envPath = join_path [appDir, ''.env''];
          root = (if rv_appsDir env = [] then appDir else rv_appsDir env) in
      if EnsureNoSymlinks (rs_files s) root envPath then Some envPath else None)"

definition bad_env_var :: "envVar \<Rightarrow> bool" where
  "bad_env_var v \<longleftrightarrow> vn_Key v = [] \<or> contains_any (vn_Key v) [CHR '' '', CHR 0x09, CHR 0x0D, CHR 0x0A, CHR 0x00, CHR ''='']
     \<or> contains_any (vn_Value v) [CHR 0x0D, CHR 0x0A, CHR 0x00] \<or> vn_Masked v"

text \<open>The number of the first entry refused.\<close>

definition validateEnvVars :: "envVar list \<Rightarrow> nat option" where
  "validateEnvVars vars = map_option fst (find (\<lambda>(i, v). bad_env_var v) (enumerate 0 vars))"

text \<open>\<open>bufio.Scanner\<close>: lines of less than 64 KiB, without a carriage return at the end; false after a longer one.\<close>

definition file_lines :: "string \<Rightarrow> string list" where
  "file_lines data = (let ls = split_on nl data in if last ls = [] then butlast ls else ls)"

definition drop_cr :: "string \<Rightarrow> string" where
  "drop_cr l = (if l \<noteq> [] \<and> last l = CHR 0x0D then butlast l else l)"

fun scan_lines :: "string list \<Rightarrow> string list \<times> bool" where
  "scan_lines [] = ([], True)"
| "scan_lines (l # ls) = (if length l \<ge> 65536 then ([], False) else map_prod ((#) (drop_cr l)) id (scan_lines ls))"

definition parse_env_line :: "string \<Rightarrow> envVar option" where
  "parse_env_line text =
     (let line = trim_space text; (k, v, found) = cut_at CHR ''='' line in
      if line = [] \<or> prefix ''#'' line \<or> \<not> found then None
      else Some \<lparr>vn_Key = k, vn_Value = v, vn_Masked = False\<rparr>)"

datatype env_error = EnvMissing | EnvBroken

definition parseEnvFile :: "(string \<Rightarrow> fnode) \<Rightarrow> string \<Rightarrow> env_error + envVar list" where
  "parseEnvFile files path =
     (case ReadRegularFile files path of
        FileData data \<Rightarrow>
          (let (ls, ok) = scan_lines (file_lines data) in if ok then Inr (List.map_filter parse_env_line ls) else Inl EnvBroken)
      | FileNotExist \<Rightarrow> Inl EnvMissing
      | _ \<Rightarrow> Inl EnvBroken)"

definition envFileContent :: "envVar list \<Rightarrow> string" where
  "envFileContent vars = concat (map (\<lambda>v. vn_Key v @ ''='' @ vn_Value v @ [nl]) vars)"

datatype compose_check = CheckOk AppConfig | CheckViolations | CheckError parse_error

definition checkComposeWithEnv :: "recon_env \<Rightarrow> recon \<Rightarrow> string \<Rightarrow> App \<Rightarrow> string option \<Rightarrow> compose_check" where
  "checkComposeWithEnv env s composeData app dotEnv =
     (case ParseContent (parse_of env s) composeData (app_ComposePath app) (app_Slug app) dotEnv of
        Inl err \<Rightarrow> if is_violation err then CheckViolations else CheckError err
      | Inr parsed \<Rightarrow> if security_violations env s parsed \<noteq> [] then CheckViolations else CheckOk parsed)"

definition is_dotenv_check :: "compose_check \<Rightarrow> bool" where
  "is_dotenv_check c \<longleftrightarrow> (case c of CheckError err \<Rightarrow> is_dotenv_error err | _ \<Rightarrow> False)"

definition refuseEnvEditOnUnsafeCompose :: "recon_env \<Rightarrow> recon \<Rightarrow> App \<Rightarrow> string \<Rightarrow> refusal option" where
  "refuseEnvEditOnUnsafeCompose env s app composeData =
     (let current = (case ReadDotEnv (ReadRegularFile (rs_files s)) (dir_path (app_ComposePath app)) of Inr d \<Rightarrow> d | Inl _ \<Rightarrow> None);
          c = checkComposeWithEnv env s composeData app current;
          c = (if is_dotenv_check c then checkComposeWithEnv env s composeData app None else c) in
      case c of CheckViolations \<Rightarrow> Some UnsafeCompose | CheckError _ \<Rightarrow> Some ComposeUnreadable | CheckOk _ \<Rightarrow> None)"

definition display_endpoints :: "recon_env \<Rightarrow> recon \<Rightarrow> string \<Rightarrow> string \<Rightarrow> EndpointConfig list" where
  "display_endpoints env s path slug =
     (case parseComposeForDisplay env s path slug of Some cfg \<Rightarrow> a_endpoints cfg | None \<Rightarrow> [])"

definition checkEnvAgainstCompose ::
  "app_env \<Rightarrow> AuthUser option \<Rightarrow> App \<Rightarrow> string \<Rightarrow> app_api \<Rightarrow> (nat \<times> refusal) option" where
  "checkEnvAgainstCompose e user app dotEnv s =
     (let env = ac_recon e; r = aa_recon s in
      case ReadRegularFile (rs_files r) (app_ComposePath app) of
        FileNotExist \<Rightarrow> None
      | FileNotRegular \<Rightarrow> Some (409, ComposeIsLink)
      | FileError \<Rightarrow> Some (500, ComposeUnreadable)
      | FileData composeData \<Rightarrow>
          (let c = checkComposeWithEnv env r composeData app (Some dotEnv) in
           case c of
             CheckOk parsed \<Rightarrow>
               map_option (\<lambda>d. (domain_status d, BadEndpointDomain d))
                 (checkEndpointDomains e user (app_Slug app) (a_endpoints parsed)
                    (display_endpoints env r (app_ComposePath app) (app_Slug app)) s)
           | _ \<Rightarrow>
               if is_dotenv_check c then Some (400, DotEnvProblem)
               else case refuseEnvEditOnUnsafeCompose env r app composeData of
                 Some why \<Rightarrow> Some (409, why)
               | None \<Rightarrow> Some (400, if c = CheckViolations then ValuesDisallowed else NotLoadable)))"

definition mask_values :: "AuthUser option \<Rightarrow> envVar list \<Rightarrow> envVar list" where
  "mask_values user vars =
     (case user of
        Some u \<Rightarrow> if canSeeEnvValues (Role u) then vars else map (\<lambda>v. \<lparr>vn_Key = vn_Key v, vn_Value = [], vn_Masked = True\<rparr>) vars
      | None \<Rightarrow> map (\<lambda>v. \<lparr>vn_Key = vn_Key v, vn_Value = [], vn_Masked = True\<rparr>) vars)"

definition handleGetEnv :: "app_env \<Rightarrow> AuthUser option \<Rightarrow> string \<Rightarrow> app_api \<Rightarrow> app_response" where
  "handleGetEnv e user slug s =
     (let env = ac_recon e in
      case GetApp (rv_sql env) slug (app_rows s) of
        Inl _ \<Rightarrow> Refusal 404 AppNotFound
      | Inr app \<Rightarrow>
          (case envFilePath env app (aa_recon s) of
             None \<Rightarrow> Refusal 500 EnvUnreadable
           | Some envPath \<Rightarrow>
               (case parseEnvFile (app_files s) envPath of
                  Inl EnvMissing \<Rightarrow> EnvShown []
                | Inl EnvBroken \<Rightarrow> Refusal 500 EnvUnreadable
                | Inr vars \<Rightarrow> EnvShown (mask_values user vars))))"

definition handlePutEnv :: "app_env \<Rightarrow> AuthUser option \<Rightarrow> string \<Rightarrow> envVar list option \<Rightarrow> app_api \<Rightarrow> app_response \<times> app_api" where
  "handlePutEnv e user slug body s =
     (let env = ac_recon e in
      case GetApp (rv_sql env) slug (app_rows s) of
        Inl _ \<Rightarrow> (Refusal 404 AppNotFound, s)
      | Inr app \<Rightarrow>
          (case body of
             None \<Rightarrow> (Refusal 400 BadBody, s)
           | Some vars \<Rightarrow>
               (case validateEnvVars vars of
                  Some i \<Rightarrow> (Refusal 400 (BadEnv i), s)
                | None \<Rightarrow>
                    (case envFilePath env app (aa_recon s) of
                       None \<Rightarrow> (Refusal 500 EnvUnwritable, s)
                     | Some envPath \<Rightarrow>
                         (case checkEnvAgainstCompose e user app (envFileContent vars) s of
                            Some (code, why) \<Rightarrow> (Refusal code why, s)
                          | None \<Rightarrow>
                              (let before = (case parseEnvFile (app_files s) envPath of Inr old \<Rightarrow> map vn_Key old | Inl _ \<Rightarrow> []) in
                               case WriteFileAtomic env envPath (envFileContent vars) (aa_recon s) of
                                 (False, r) \<Rightarrow> (Refusal 500 EnvUnwritable, with_files s r)
                               | (True, r) \<Rightarrow>
                                   (EnvSaved,
                                    recordAudit (app_Slug app) ''env'' ''changed'' before (map vn_Key vars)
                                      (EnqueueGitCommit [envPath] (''env:'' @ slug) (with_files s r)))))))))"


subsection \<open>Deploying and removing\<close>

definition name_char :: "string \<Rightarrow> (char \<Rightarrow> bool) \<Rightarrow> char \<Rightarrow> bool" where
  "name_char extra letter c \<longleftrightarrow> letter c \<or> is_digit c \<or> c \<in> set extra"

definition name_matches :: "string \<Rightarrow> (char \<Rightarrow> bool) \<Rightarrow> string \<Rightarrow> bool" where
  "name_matches extra letter s =
     (case s of [] \<Rightarrow> False
      | c # cs \<Rightarrow> name_char [] letter c \<and> length cs \<le> 62 \<and> list_all (name_char extra letter) cs)"

definition validAppName :: "string \<Rightarrow> bool" where
  "validAppName = name_matches ''._-'' is_letter"

definition validNewAppName :: "string \<Rightarrow> bool" where
  "validNewAppName = name_matches ''_-'' (\<lambda>c. is_letter c \<and> lower_char c = c)"

record deploy_body =
  db_Name :: string
  db_Compose :: string
  db_Source :: string
  db_Force :: bool

definition deployRewrites :: "recon_env \<Rightarrow> string \<Rightarrow> string" where
  "deployRewrites env composeData =
     (let c = (if rv_mirror env \<noteq> [] then RewriteCompose composeData (rv_mirror env) else composeData);
          c = (if rv_noLoopback env then c else RewritePortsLoopback c) in
      case InjectSharedNetwork (rv_decode env) (rv_encode env) c ''simpledeploy-public'' of InjectError \<Rightarrow> c | Injected _ out \<Rightarrow> out)"

definition app_exists :: "recon_env \<Rightarrow> string \<Rightarrow> app_api \<Rightarrow> bool" where
  "app_exists env slug s \<longleftrightarrow> (case GetApp (rv_sql env) slug (app_rows s) of Inr _ \<Rightarrow> True | Inl _ \<Rightarrow> False)"

definition app_dir :: "recon_env \<Rightarrow> string \<Rightarrow> string" where
  "app_dir env name = join_path [rv_appsDir env, name]"

definition deploy_path :: "recon_env \<Rightarrow> string \<Rightarrow> string" where
  "deploy_path env name = join_path [app_dir env name, ''docker-compose.yml'']"

definition suggested_name :: "recon_env \<Rightarrow> string \<Rightarrow> app_api \<Rightarrow> string option" where
  "suggested_name env name s =
     find (\<lambda>candidate. \<not> app_exists env candidate s \<and> stat_missing (app_files s) (app_dir env candidate))
       (map (\<lambda>i. name @ ''-'' @ itoa i) [2..<51])"

text \<open>\<open>MkdirAll\<close> makes the folder of the app below the apps folder, if it is not there.\<close>

definition make_dir :: "string \<Rightarrow> string \<Rightarrow> recon \<Rightarrow> recon" where
  "make_dir dir name s =
     (if rs_files s dir \<noteq> Missing then s
      else s\<lparr>rs_files := (rs_files s)(dir := OtherF), rs_entries := map_option (\<lambda>es. es @ [(name, True)]) (rs_entries s)\<rparr>)"

definition deploy_violations :: "recon_env \<Rightarrow> recon \<Rightarrow> AppConfig \<Rightarrow> deploy_violation list" where
  "deploy_violations env s cfg =
     ValidateComposeForDeploy (dv_fs (rv_dep env) (dp_trace (rs_dep s))) (dv_protected (rv_dep env)) (Some cfg)"

text \<open>The checks of a deploy before anything is written: the refusal, or the content to write.\<close>

definition deploy_checks :: "app_env \<Rightarrow> deploy_body \<Rightarrow> app_api \<Rightarrow> nat \<times> refusal + string" where
  "deploy_checks e b s =
     (let env = ac_recon e; r = aa_recon s in
      if db_Name b = [] \<or> db_Compose b = [] then Inl (400, BadBody)
      else if \<not> validNewAppName (db_Name b) then Inl (400, BadName)
      else if \<not> db_Force b \<and> app_exists env (db_Name b) s then
        Inl (409, if db_Source b = ''template'' then NameTakenTry (suggested_name env (db_Name b) s) else NameTaken)
      else case ac_base64 e (db_Compose b) of
        None \<Rightarrow> Inl (400, NotBase64)
      | Some raw \<Rightarrow>
          (let composeData = deployRewrites env raw in
           case ReadDotEnv (ReadRegularFile (rs_files r)) (app_dir env (db_Name b)) of
             Inl _ \<Rightarrow> Inl (400, DotEnvProblem)
           | Inr dotEnv \<Rightarrow>
               (case ParseContent (parse_of env r) composeData (deploy_path env (db_Name b)) (db_Name b) dotEnv of
                  Inl err \<Rightarrow>
                    Inl (400, if is_dotenv_error err then DotEnvProblem
                              else if is_violation err then Disallowed else NotLoadable)
                | Inr parsed \<Rightarrow>
                    if deploy_violations env r parsed \<noteq> [] then Inl (400, Disallowed) else Inr composeData)))"

definition handleDeploy :: "app_env \<Rightarrow> deploy_body option \<Rightarrow> app_api \<Rightarrow> app_response \<times> app_api" where
  "handleDeploy e body s =
     (case body of
        None \<Rightarrow> (Refusal 400 BadBody, s)
      | Some b \<Rightarrow>
          (let env = ac_recon e; name = db_Name b; path = deploy_path env name; isNew = \<not> app_exists env name s in
           case deploy_checks e b s of
             Inl (code, why) \<Rightarrow> (Refusal code why, s)
           | Inr composeData \<Rightarrow>
               if \<not> ac_mkdir e (app_dir env name) then (Refusal 500 NoFolder, s)
               else let r = make_dir (app_dir env name) name (aa_recon s);
                        old = (case ReadRegularFile (rs_files r) path of FileData c \<Rightarrow> (if c = [] then [] else [c]) | _ \<Rightarrow> []) in
                 case WriteFileAtomic env path composeData r of
                   (False, r1) \<Rightarrow> (Refusal 500 Unwritten, with_files s r1)
                 | (True, r1) \<Rightarrow>
                     (let s1 = start (RcDeploy path name) (EnqueueGitCommit [path] (''deploy:'' @ name) (with_files s r1));
                          s2 = (if isNew then recordAudit name ''lifecycle'' ''created'' [] [name] s1 else s1) in
                      (DeployStarted name, recordAudit name ''compose'' ''changed'' old [composeData] s2))))"

text \<open>\<open>os.RemoveAll\<close> of an app's folder.\<close>

definition under_dir :: "string \<Rightarrow> string \<Rightarrow> bool" where
  "under_dir dir p \<longleftrightarrow> p = dir \<or> prefix (dir @ ''/'') p"

definition remove_dir :: "string \<Rightarrow> string \<Rightarrow> recon \<Rightarrow> recon" where
  "remove_dir dir name s =
     s\<lparr>rs_files := (\<lambda>p. if under_dir dir p then Missing else rs_files s p),
       rs_entries := map_option (filter (\<lambda>p. fst p \<noteq> name)) (rs_entries s)\<rparr>"

definition handleRemoveApp :: "app_env \<Rightarrow> string \<Rightarrow> app_api \<Rightarrow> app_response \<times> app_api" where
  "handleRemoveApp e slug s =
     (let env = ac_recon e; dir = app_dir env slug in
      if \<not> validAppName slug then (Refusal 400 BadName, s)
      else case GetApp (rv_sql env) slug (app_rows s) of
        Inl _ \<Rightarrow>
          if stat_missing (app_files s) dir then (Refusal 404 AppNotFound, s)
          else if \<not> ac_rmdir e dir then (Refusal 500 NoFolder, s)
          else (AppRemoved, with_files s (remove_dir dir slug (aa_recon s)))
      | Inr app \<Rightarrow>
          if app_ArchivedAt app \<noteq> None then (Refusal 409 IsArchived, s)
          else case RemoveOne env slug (aa_recon s) of
            (Some _, r) \<Rightarrow> (Refusal 500 ActionError, with_files s r)
          | (None, r) \<Rightarrow>
              if \<not> ac_rmdir e dir then (Refusal 500 NoFolder, with_files s r)
              else let r1 = remove_dir dir slug r; r2 = r1\<lparr>rs_db := snd (PurgeApp (rv_sql env) slug (rs_db r1))\<rparr> in
                (AppRemoved, recordAudit slug ''lifecycle'' ''purged'' [app_Name app, app_Status app] [] (with_files s r2)))"

definition handlePurge :: "app_env \<Rightarrow> string \<Rightarrow> app_api \<Rightarrow> app_response \<times> app_api" where
  "handlePurge e slug s =
     (let env = ac_recon e in
      if \<not> validAppName slug then (Refusal 400 BadName, s)
      else case GetApp (rv_sql env) slug (app_rows s) of
        Inl _ \<Rightarrow> (Refusal 404 AppNotFound, s)
      | Inr app \<Rightarrow>
          if app_ArchivedAt app = None then (Refusal 409 NotArchived, s)
          else case PurgeApp (rv_sql env) slug (app_rows s) of
            (Some _, db) \<Rightarrow> (Refusal 500 StoreError, with_files s ((aa_recon s)\<lparr>rs_db := db\<rparr>))
          | (None, db) \<Rightarrow>
              (AppPurged, recordAudit slug ''lifecycle'' ''purged'' [] [slug] (with_files s ((aa_recon s)\<lparr>rs_db := db\<rparr>))))"

definition handleValidateCompose :: "app_env \<Rightarrow> string option \<Rightarrow> app_api \<Rightarrow> app_response" where
  "handleValidateCompose e body s =
     (case body of
        None \<Rightarrow> Refusal 400 BadBody
      | Some compose \<Rightarrow>
          if compose = [] then Refusal 400 BadBody
          else case ac_base64 e compose of
            None \<Rightarrow> Refusal 400 NotBase64
          | Some raw \<Rightarrow>
              (let env = ac_recon e; r = aa_recon s;
                   baseDir = (if rv_appsDir env = [] then join_path [ac_tempDir e, ''simpledeploy-validate''] else rv_appsDir env);
                   virtualPath = join_path [baseDir, ''.validate-compose'', ''docker-compose.yml''] in
               case ParseContent (parse_of env r) (deployRewrites env raw) virtualPath ''validate'' None of
                 Inl _ \<Rightarrow> Validated False
               | Inr parsed \<Rightarrow> Validated (deploy_violations env r parsed = [])))"

definition handleGetCompose :: "app_env \<Rightarrow> string \<Rightarrow> app_api \<Rightarrow> app_response" where
  "handleGetCompose e slug s =
     (if \<not> validAppName slug then Refusal 400 BadName
      else case ReadRegularFile (app_files s) (join_path [rv_appsDir (ac_recon e), slug, ''docker-compose.yml'']) of
        FileData data \<Rightarrow> ComposeShown data
      | FileNotExist \<Rightarrow> Refusal 404 ComposeMissing
      | FileNotRegular \<Rightarrow> Refusal 409 ComposeIsLink
      | FileError \<Rightarrow> Refusal 500 ComposeUnreadable)"

subsection \<open>Restoring a stored version\<close>

definition checkVersionForRestore ::
  "app_env \<Rightarrow> AuthUser option \<Rightarrow> string \<Rightarrow> string \<Rightarrow> ComposeVersion \<Rightarrow> app_api \<Rightarrow> nat \<times> refusal + string" where
  "checkVersionForRestore e user slug composePath ver s =
     (let env = ac_recon e; r = aa_recon s; composeData = rollback_content env (cv_Content ver) in
      case ReadDotEnv (ReadRegularFile (rs_files r)) (dir_path composePath) of
        Inl _ \<Rightarrow> Inl (400, DotEnvProblem)
      | Inr dotEnv \<Rightarrow>
          (case ParseContent (parse_of env r) composeData composePath slug dotEnv of
             Inl err \<Rightarrow>
               Inl (400, if is_violation err then Disallowed else if is_dotenv_error err then DotEnvProblem else NotLoadable)
           | Inr parsed \<Rightarrow>
               if security_violations env r parsed \<noteq> [] then Inl (400, Disallowed)
               else case checkEndpointDomains e user slug (a_endpoints parsed) (display_endpoints env r composePath slug) s of
                 Some d \<Rightarrow> Inl (domain_status d, BadEndpointDomain d)
               | None \<Rightarrow> Inr composeData))"

definition handleRestoreComposeVersion ::
  "app_env \<Rightarrow> AuthUser option \<Rightarrow> string \<Rightarrow> string \<Rightarrow> app_api \<Rightarrow> app_response \<times> app_api" where
  "handleRestoreComposeVersion e user slug idStr s =
     (let env = ac_recon e; (i, ok) = atoi idStr in
      if \<not> ok then (Refusal 400 BadVersionID, s)
      else case GetApp (rv_sql env) slug (app_rows s) of
        Inl _ \<Rightarrow> (Refusal 404 AppNotFound, s)
      | Inr app \<Rightarrow>
          (case GetComposeVersion (rv_sql env) i (app_rows s) of
             Inl _ \<Rightarrow> (Refusal 404 UnknownVersion, s)
           | Inr ver \<Rightarrow>
               if cv_AppID ver \<noteq> app_ID app then (Refusal 403 OtherAppsVersion, s)
               else let path = app_ComposePath app;
                        old = (case ReadRegularFile (app_files s) path of FileData c \<Rightarrow> [c] | _ \<Rightarrow> [[]]) in
                 case checkVersionForRestore e user slug path ver s of
                   Inl (code, why) \<Rightarrow> (Refusal code why, s)
                 | Inr composeData \<Rightarrow>
                     (case WriteFileAtomic env path composeData (aa_recon s) of
                        (False, r) \<Rightarrow> (Refusal 500 Unwritten, with_files s r)
                      | (True, r) \<Rightarrow>
                          (VersionRestoring,
                           start (RcDeploy path slug)
                             (recordAudit slug ''compose'' ''changed'' old [cv_Content ver] (with_files s r))))))"


subsection \<open>The endpoints of an update\<close>

definition placed :: "string list \<Rightarrow> EndpointConfig \<Rightarrow> bool" where
  "placed services ep \<longleftrightarrow> validDomain (ep_domain ep) \<and> length (ep_domain ep) \<le> 253 \<and> ep_service ep \<noteq> [] \<and> ep_service ep \<in> set services"

lemma validDomain_ne: "validDomain d \<Longrightarrow> d \<noteq> []"
  by (auto simp: validDomain_def)

lemma map_sum_Inr: "map_sum id f x = Inr y \<longleftrightarrow> (\<exists>z. x = Inr z \<and> y = f z)"
  by (cases x) auto

text \<open>One accepted endpoint more, with \<open>V0\<close> and \<open>V1\<close> the loop of \<open>ValidateEndpoints\<close> before and after it.\<close>

lemma accept_one:
  fixes C0 C1 :: "endpoint_refusal + EndpointConfig list" and V0 V1 :: "EndpointConfig list \<Rightarrow> endpoint_violation list"
  assumes "C0 = map_sum id (\<lambda>r. ep # r) C1" "\<And>z. V0 (ep # z) = V1 z" "placed services ep" "ep = clean_endpoint ep0"
    and "\<And>r. C1 = Inr r \<longleftrightarrow> r = map clean_endpoint eps \<and> (\<forall>ep \<in> set r. placed services ep) \<and> V1 r = []"
  shows "C0 = Inr r \<longleftrightarrow> r = map clean_endpoint (ep0 # eps) \<and> (\<forall>ep \<in> set r. placed services ep) \<and> V0 r = []"
  using assms by (auto simp: map_sum_Inr)

text \<open>The loop accepts what \<open>validate_endpoints_loop\<close> finds nothing wrong with, when every endpoint has a domain and a service.\<close>

lemma check_endpoints_iff:
  assumes "dom seenm = set seen"
  shows "check_endpoints services seen first eps = Inr r \<longleftrightarrow>
     r = map clean_endpoint eps \<and> (\<forall>ep \<in> set r. placed services ep) \<and> validate_endpoints_loop seenm first r = []"
  using assms
proof (induction eps arbitrary: seen seenm first r)
  case (Cons ep0 eps)
  define ep where "ep = clean_endpoint ep0"
  show ?case
  proof (cases "placed services ep \<and> endpoint_ok ep \<and> EndpointMatchKey ep \<notin> set seen")
    case False
    then have "check_endpoints services seen first (ep0 # eps) \<noteq> Inr r"
      by (auto simp: Let_def ep_def [symmetric] placed_def endpoint_ok_def split: option.splits)
    moreover have "\<not> (r = map clean_endpoint (ep0 # eps) \<and> (\<forall>ep \<in> set r. placed services ep) \<and> validate_endpoints_loop seenm first r = [])"
      using False Cons.prems by (auto simp: validate_endpoints_loop_Nil ep_def)
    ultimately show ?thesis by blast
  next
    case True
    then have ok: "ep_domain ep \<noteq> []" "\<not> (length (ep_domain ep) > 253 \<or> \<not> validDomain (ep_domain ep))" "ep_service ep \<noteq> []"
      "ep_service ep \<in> set services" "ValidProtocol (ep_protocol ep)" "\<not> (ep_path ep \<noteq> [] \<and> \<not> ValidPath (ep_path ep))"
      "EndpointMatchKey ep \<notin> set seen" "seenm (EndpointMatchKey ep) = None"
      using Cons.prems validDomain_ne [of "ep_domain ep"] by (auto simp: placed_def endpoint_ok_def)
    have dom: "dom (seenm(EndpointMatchKey ep \<mapsto> ep)) = set (EndpointMatchKey ep # seen)" using Cons.prems by simp
    note ih = Cons.IH [OF dom]
    show ?thesis
    proof (cases "first (ep_domain ep)")
      case None
      have "check_endpoints services seen first (ep0 # eps) = map_sum id (\<lambda>r. ep # r)
          (check_endpoints services (EndpointMatchKey ep # seen) (first(ep_domain ep \<mapsto> ep)) eps)"
        using ok None by (auto simp: Let_def ep_def [symmetric])
      moreover have "validate_endpoints_loop seenm first (ep # z) =
          validate_endpoints_loop (seenm(EndpointMatchKey ep \<mapsto> ep)) (first(ep_domain ep \<mapsto> ep)) z" for z
        using ok None by (auto simp: Let_def)
      ultimately show ?thesis by (rule accept_one [OF _ _ _ ep_def ih]) (use True in simp)
    next
      case (Some f)
      show ?thesis
      proof (cases "EffectiveTLS (ep_tls ep) = EffectiveTLS (ep_tls f)")
        case False
        then have "check_endpoints services seen first (ep0 # eps) \<noteq> Inr r"
            "validate_endpoints_loop seenm first (ep # map clean_endpoint eps) \<noteq> []"
          using ok Some by (auto simp: Let_def ep_def [symmetric])
        then show ?thesis by (metis ep_def list.simps(9))
      next
        case tls: True
        have "check_endpoints services seen first (ep0 # eps) = map_sum id (\<lambda>r. ep # r)
            (check_endpoints services (EndpointMatchKey ep # seen) first eps)"
          using ok Some tls by (auto simp: Let_def ep_def [symmetric])
        moreover have "validate_endpoints_loop seenm first (ep # z) = validate_endpoints_loop (seenm(EndpointMatchKey ep \<mapsto> ep)) first z" for z
          using ok Some tls by (auto simp: Let_def)
        ultimately show ?thesis by (rule accept_one [OF _ _ _ ep_def ih]) (use True in simp)
      qed
    qed
  qed
qed auto

lemma trim_space_idem: "trim_space (trim_space s) = trim_space s"
proof -
  define t where "t = dropWhile is_space s"
  define u where "u = drop_end_while is_space t"
  have "t = [] \<or> \<not> is_space (hd t)" unfolding t_def by (metis hd_dropWhile)
  moreover have "u = [] \<or> hd u = hd t"
  proof -
    have "\<exists>v. t = u @ v" unfolding u_def drop_end_while_def
      by (metis rev_append rev_rev_ident takeWhile_dropWhile_id)
    then show ?thesis by (cases u) auto
  qed
  moreover have "u = [] \<or> t \<noteq> []" by (auto simp: u_def drop_end_while_def)
  ultimately have d: "dropWhile is_space u = u" by (intro dropWhile_id) auto
  have "u = [] \<or> \<not> is_space (last u)"
    unfolding u_def drop_end_while_def by (metis hd_dropWhile last_rev rev_is_Nil_conv)
  then have "drop_end_while is_space u = u" by (rule drop_end_while_id)
  with d show ?thesis by (simp add: trim_space_def t_def [symmetric] u_def [symmetric])
qed

lemma set_lower_space: "is_space (lower_char c) = is_space c"
  by (auto simp: is_space_def lower_char_def Let_def of_char_of)

lemma trim_space_lower: "trim_space (to_lower s) = to_lower (trim_space s)"
  by (simp add: trim_space_def to_lower_def drop_end_while_def dropWhile_map rev_map comp_def set_lower_space)

lemma NormalizeProtocol_idem: "NormalizeProtocol (NormalizeProtocol p) = NormalizeProtocol p"
  by (simp add: NormalizeProtocol_def trim_space_lower trim_space_idem)

lemma readable_clean: "readable (clean_endpoint ep)"
  by (simp add: readable_def clean_endpoint_def NormalizeProtocol_idem trim_space_idem)

lemma check_endpoints_ok:
  "check_endpoints services [] Map.empty eps = Inr r \<longleftrightarrow>
     r = map clean_endpoint eps \<and> (\<forall>ep \<in> set r. placed services ep) \<and> ValidateEndpoints r = []"
  unfolding ValidateEndpoints_def by (rule check_endpoints_iff) simp


subsection \<open>The domains of other apps\<close>

lemma claim_domain_map:
  "map_of (claim_domain owner d owners) k = None \<longleftrightarrow> map_of owners k = None \<and> (k = [] \<or> k \<noteq> endpointDomainKey d)"
  by (auto simp: claim_domain_def Let_def)

lemma claim_domains_map:
  "map_of (fold (claim_domain owner) ds owners) k = None \<longleftrightarrow> map_of owners k = None \<and> (k = [] \<or> k \<notin> endpointDomainKey ` set ds)"
  by (induction ds arbitrary: owners) (auto simp: claim_domain_map)

lemma claim_apps_map:
  "map_of (fold (\<lambda>a. fold (claim_domain (app_Slug a)) (f a)) apps owners) k = None \<longleftrightarrow>
     map_of owners k = None \<and> (k = [] \<or> (\<forall>a \<in> set apps. k \<notin> endpointDomainKey ` set (f a)))"
proof (induction apps arbitrary: owners)
  case (Cons a apps)
  then show ?case by (auto simp: claim_domains_map)
qed simp

lemma set_ListApps: "ListApps q db = Inr apps \<Longrightarrow> set apps = {a \<in> set (ad_apps db). app_ArchivedAt a = None}"
  by (auto simp: ListApps_def ListAppsWithOptions_def split: if_splits)

lemma otherAppDomains_None:
  assumes "otherAppDomains env slug s = Some owners" "map_of owners k = None" "k \<noteq> []"
    "a \<in> set (ad_apps (rs_db s))" "app_ArchivedAt a = None" "app_Slug a \<noteq> slug"
  shows "k \<notin> endpointDomainKey ` set (app_domains env s a)"
proof -
  from assms(1) obtain apps where apps: "ListApps (rv_sql env) (rs_db s) = Inr apps"
    "owners = fold (\<lambda>a. fold (claim_domain (app_Slug a)) (app_domains env s a)) (filter (\<lambda>a. app_Slug a \<noteq> slug) apps) []"
    by (auto simp: otherAppDomains_def split: sum.splits)
  have "a \<in> set (filter (\<lambda>a. app_Slug a \<noteq> slug) apps)" using set_ListApps [OF apps(1)] assms(4-6) by simp
  then show ?thesis using assms(2,3) unfolding apps(2) claim_apps_map by blast
qed

lemma taken_domain_None: "taken_domain super owners eps = None \<longleftrightarrow> (\<forall>ep \<in> set eps. map_of owners (endpointDomainKey (ep_domain ep)) = None)"
  by (induction eps) (auto split: option.split)

lemma restricted_domain_None:
  "restricted_domain reserved existing eps = None \<longleftrightarrow>
     (\<forall>ep \<in> set eps. endpointDomainKey (ep_domain ep) \<in> existing \<or>
        endpointDomainKey (ep_domain ep) \<notin> set reserved \<and> CHR ''*'' \<notin> set (ep_domain ep))"
  by (induction reserved existing eps rule: restricted_domain.induct) (auto simp: Let_def)

lemma endpointDomainKey_ne:
  assumes "validDomain d"
  shows "endpointDomainKey d \<noteq> []"
proof -
  from assms obtain c cs where d: "d = c # cs" "is_alnum c" by (auto simp: validDomain_def split: list.splits)
  have "\<not> is_space x" if "x \<in> set d" for x
    using validDomain_chars [OF assms that] by (auto simp: is_alnum_def is_letter_def is_digit_def is_space_def Let_def)
  then have "trim_space d = d" by (intro trim_space_id) blast
  moreover have "lower_char c \<noteq> CHR ''.''"
    using d(2) lower_char_eq_nonletter [of "CHR ''.''" c] by (auto simp: is_letter_def is_alnum_def is_digit_def)
  ultimately have "endpointDomainKey d = trim_suffix (lower_char c # to_lower cs) ''.''" "lower_char c \<noteq> CHR ''.''"
    by (simp_all add: endpointDomainKey_def d)
  then show ?thesis by (cases cs) (auto simp: trim_suffix_def suffix_def)
qed

text \<open>The domains an edit may bring: what the callers of \<open>checkEndpointDomains\<close> rely on.\<close>

definition domains_free :: "app_env \<Rightarrow> AuthUser option \<Rightarrow> string \<Rightarrow> EndpointConfig list \<Rightarrow> EndpointConfig list \<Rightarrow> app_api \<Rightarrow> bool" where
  "domains_free e user slug endpoints current s \<longleftrightarrow>
     (\<forall>ep \<in> set endpoints. let k = endpointDomainKey (ep_domain ep) in
        (\<forall>a \<in> set (ad_apps (app_rows s)). app_ArchivedAt a = None \<longrightarrow> app_Slug a \<noteq> slug \<longrightarrow> k \<noteq> [] \<longrightarrow>
           k \<notin> endpointDomainKey ` set (app_domains (ac_recon e) (aa_recon s) a)) \<and>
        (is_super user \<or> k \<in> (endpointDomainKey \<circ> ep_domain) ` set current \<or> k \<notin> set (aa_reserved s) \<and> CHR ''*'' \<notin> set (ep_domain ep)))"

lemma checkEndpointDomains_None:
  assumes "checkEndpointDomains e user slug endpoints current s = None"
  shows "domains_free e user slug endpoints current s"
proof -
  from assms obtain owners where o: "otherAppDomains (ac_recon e) slug (aa_recon s) = Some owners"
    "\<forall>ep \<in> set endpoints. map_of owners (endpointDomainKey (ep_domain ep)) = None"
    by (auto simp: checkEndpointDomains_def taken_domain_None split: option.splits)
  have r: "is_super user \<or> restricted_domain (aa_reserved s) (set (map (endpointDomainKey \<circ> ep_domain) current)) endpoints = None"
    using assms by (auto simp: checkEndpointDomains_def split: option.splits if_splits)
  show ?thesis
    unfolding domains_free_def Let_def
  proof (intro ballI conjI impI)
    fix ep a assume "ep \<in> set endpoints" "a \<in> set (ad_apps (app_rows s))" "app_ArchivedAt a = None" "app_Slug a \<noteq> slug"
      "endpointDomainKey (ep_domain ep) \<noteq> []"
    then show "endpointDomainKey (ep_domain ep) \<notin> endpointDomainKey ` set (app_domains (ac_recon e) (aa_recon s) a)"
      using otherAppDomains_None [OF o(1)] o(2) by blast
  next
    fix ep assume "ep \<in> set endpoints"
    then show "is_super user \<or> endpointDomainKey (ep_domain ep) \<in> (endpointDomainKey \<circ> ep_domain) ` set current \<or>
        endpointDomainKey (ep_domain ep) \<notin> set (aa_reserved s) \<and> CHR ''*'' \<notin> set (ep_domain ep)"
      using r by (auto simp: restricted_domain_None)
  qed
qed

lemma handleUpdateEndpoints_saved:
  assumes "handleUpdateEndpoints e user slug (Some body) s = (EndpointsSaved endpoints, s')"
  obtains app parsed r where "GetApp (rv_sql (ac_recon e)) slug (app_rows s) = Inr app"
    "loadComposeForEdit (ac_recon e) app (aa_recon s) = Inr parsed"
    "check_endpoints (map sc_name (a_services parsed)) [] Map.empty body = Inr endpoints"
    "checkEndpointDomains e user slug endpoints (a_endpoints parsed) s = None"
    "edit_file (ac_recon e) (app_ComposePath app) (map_option Some \<circ> updateComposeEndpoints (rv_decode (ac_recon e)) (rv_encode (ac_recon e)) endpoints) (aa_recon s) = (True, r)"
    "s' = audit_endpoints slug (a_endpoints parsed) endpoints
            (start RcRefreshRoutes (EnqueueGitCommit [app_ComposePath app] (''endpoints:'' @ slug) (with_files s r)))"
  using assms unfolding handleUpdateEndpoints_def Let_def
  by (auto split: sum.splits option.splits prod.splits bool.splits)

lemma audit_endpoints_recon: "aa_recon (audit_endpoints slug old new s) = aa_recon s \<and> aa_queue (audit_endpoints slug old new s) = aa_queue s"
proof -
  have "aa_recon (fold (\<lambda>(action, k). recordAudit slug ''endpoint'' action (f action k) (g action k)) xs s) = aa_recon s \<and>
      aa_queue (fold (\<lambda>(action, k). recordAudit slug ''endpoint'' action (f action k) (g action k)) xs s) = aa_queue s" for f g xs
    by (induction xs arbitrary: s) (auto simp: recordAudit_def)
  then show ?thesis by (simp add: audit_endpoints_def)
qed

text \<open>
  Property C30. When an update of an app's endpoints is accepted, the endpoints meet the rules a deploy is checked against, each
  is on a service of the app's file, none is on a domain that another active app uses, and none that is new is on
  a reserved or wildcard domain unless the caller is a super admin; the routes are to be refreshed.
\<close>

theorem endpoint_update_exclusive:
  assumes "handleUpdateEndpoints e user slug (Some body) s = (EndpointsSaved endpoints, s')"
  shows "\<exists>app parsed. GetApp (rv_sql (ac_recon e)) slug (app_rows s) = Inr app \<and>
     parse_file (ac_recon e) (aa_recon s) (app_ComposePath app) (app_Slug app) = Inr parsed \<and>
     endpoints = map clean_endpoint body \<and> endpoints_spec endpoints \<and>
     (\<forall>ep \<in> set endpoints. validDomain (ep_domain ep) \<and> ep_service ep \<in> sc_name ` set (a_services parsed) \<and>
        (\<forall>a \<in> set (ad_apps (app_rows s)). app_ArchivedAt a = None \<and> app_Slug a \<noteq> slug \<longrightarrow>
           endpointDomainKey (ep_domain ep) \<notin> endpointDomainKey ` set (app_domains (ac_recon e) (aa_recon s) a)) \<and>
        (is_super user \<or> endpointDomainKey (ep_domain ep) \<in> (endpointDomainKey \<circ> ep_domain) ` set (a_endpoints parsed) \<or>
           endpointDomainKey (ep_domain ep) \<notin> set (aa_reserved s) \<and> CHR ''*'' \<notin> set (ep_domain ep))) \<and>
     aa_queue s' = aa_queue s @ [RcRefreshRoutes]"
proof -
  obtain app parsed r where h: "GetApp (rv_sql (ac_recon e)) slug (app_rows s) = Inr app"
    "loadComposeForEdit (ac_recon e) app (aa_recon s) = Inr parsed"
    "check_endpoints (map sc_name (a_services parsed)) [] Map.empty body = Inr endpoints"
    "checkEndpointDomains e user slug endpoints (a_endpoints parsed) s = None"
    "s' = audit_endpoints slug (a_endpoints parsed) endpoints
            (start RcRefreshRoutes (EnqueueGitCommit [app_ComposePath app] (''endpoints:'' @ slug) (with_files s r)))"
    using handleUpdateEndpoints_saved [OF assms] .
  have p: "parse_file (ac_recon e) (aa_recon s) (app_ComposePath app) (app_Slug app) = Inr parsed"
    using h(2) by (auto simp: loadComposeForEdit_def split: sum.splits if_splits)
  have c: "endpoints = map clean_endpoint body" "\<forall>ep \<in> set endpoints. placed (map sc_name (a_services parsed)) ep" "endpoints_spec endpoints"
    using h(3) unfolding check_endpoints_ok ValidateEndpoints_iff by blast+
  have q: "aa_queue s' = aa_queue s @ [RcRefreshRoutes]"
    unfolding h(5) using audit_endpoints_recon by (simp add: start_def EnqueueGitCommit_def with_files_def)
  have "domains_free e user slug endpoints (a_endpoints parsed) s" by (rule checkEndpointDomains_None [OF h(4)])
  then have "\<forall>ep \<in> set endpoints. validDomain (ep_domain ep) \<and> ep_service ep \<in> sc_name ` set (a_services parsed) \<and>
        (\<forall>a \<in> set (ad_apps (app_rows s)). app_ArchivedAt a = None \<and> app_Slug a \<noteq> slug \<longrightarrow>
           endpointDomainKey (ep_domain ep) \<notin> endpointDomainKey ` set (app_domains (ac_recon e) (aa_recon s) a)) \<and>
        (is_super user \<or> endpointDomainKey (ep_domain ep) \<in> (endpointDomainKey \<circ> ep_domain) ` set (a_endpoints parsed) \<or>
           endpointDomainKey (ep_domain ep) \<notin> set (aa_reserved s) \<and> CHR ''*'' \<notin> set (ep_domain ep))"
    using c(2) unfolding domains_free_def placed_def Let_def set_map using endpointDomainKey_ne by meson
  with h(1) p c q show ?thesis by blast
qed


subsection \<open>What an edit touches\<close>

datatype app_edit =
    EditEndpoints "EndpointConfig list option" | EditAccess "string option" | EditEnv "envVar list option"
  | EditDeploy "deploy_body option" | EditRestore string

fun run_edit :: "app_env \<Rightarrow> AuthUser option \<Rightarrow> string \<Rightarrow> app_edit \<Rightarrow> app_api \<Rightarrow> app_response \<times> app_api" where
  "run_edit e user slug (EditEndpoints body) s = handleUpdateEndpoints e user slug body s"
| "run_edit e user slug (EditAccess body) s = handleUpdateAccess e slug body s"
| "run_edit e user slug (EditEnv body) s = handlePutEnv e user slug body s"
| "run_edit e user slug (EditDeploy body) s = handleDeploy e body s"
| "run_edit e user slug (EditRestore i) s = handleRestoreComposeVersion e user slug i s"

text \<open>The file an edit is about: the .env or the compose file of the app.\<close>

fun edit_path :: "app_env \<Rightarrow> string \<Rightarrow> app_edit \<Rightarrow> app_api \<Rightarrow> string option" where
  "edit_path e slug (EditDeploy body) s = map_option (\<lambda>b. deploy_path (ac_recon e) (db_Name b)) body"
| "edit_path e slug (EditEnv body) s =
     (case GetApp (rv_sql (ac_recon e)) slug (app_rows s) of Inl _ \<Rightarrow> None | Inr app \<Rightarrow> envFilePath (ac_recon e) app (aa_recon s))"
| "edit_path e slug op s =
     (case GetApp (rv_sql (ac_recon e)) slug (app_rows s) of Inl _ \<Rightarrow> None | Inr app \<Rightarrow> Some (app_ComposePath app))"

definition is_refusal :: "app_response \<Rightarrow> bool" where
  "is_refusal resp \<longleftrightarrow> (case resp of Refusal _ _ \<Rightarrow> True | _ \<Rightarrow> False)"

definition new_folder :: "(string \<Rightarrow> fnode) \<Rightarrow> (string \<Rightarrow> fnode) \<Rightarrow> string \<Rightarrow> bool" where
  "new_folder files files' p \<longleftrightarrow> files p = Missing \<and> files' p = OtherF"

text \<open>What every edit keeps, when it is refused and when it is not.\<close>

definition tidy_edit :: "app_api \<Rightarrow> string option \<Rightarrow> app_response \<Rightarrow> app_api \<Rightarrow> bool" where
  "tidy_edit s target resp s' \<longleftrightarrow>
     app_rows s' = app_rows s \<and>
     (\<forall>p. app_files s' p \<noteq> app_files s p \<longrightarrow> new_folder (app_files s) (app_files s') p \<or> \<not> is_refusal resp \<and> target = Some p) \<and>
     (if is_refusal resp then aa_queue s' = aa_queue s \<and> aa_commits s' = aa_commits s \<and> aa_audit s' = aa_audit s
      else \<exists>p c. target = Some p \<and> app_files s' p = RegularF c)"

lemma tidy_refused [simp]: "tidy_edit s target (Refusal c w) s"
  by (simp add: tidy_edit_def is_refusal_def)

lemma WriteFileAtomic_False: "WriteFileAtomic env p out r = (False, r') \<Longrightarrow> r' = r"
  by (simp add: WriteFileAtomic_def split: if_splits)

lemma WriteFileAtomic_True: "WriteFileAtomic env p out r = (True, r') \<Longrightarrow> r' = r\<lparr>rs_files := (rs_files r)(p := RegularF out)\<rparr>"
  by (simp add: WriteFileAtomic_def split: if_splits)

lemma edit_file_False: "edit_file env p f r = (False, r') \<Longrightarrow> r' = r"
  by (auto simp: edit_file_def dest: WriteFileAtomic_False split: file_read.splits option.splits)

lemma edit_file_True:
  assumes "edit_file env p f r = (True, r')"
  shows "\<exists>c. r' = r\<lparr>rs_files := (rs_files r)(p := RegularF c)\<rparr>"
proof -
  obtain data where data: "ReadRegularFile (rs_files r) p = FileData data"
    using assms by (auto simp: edit_file_def split: file_read.splits)
  then have "(rs_files r)(p := RegularF data) = rs_files r" by (auto simp: ReadRegularFile_def fun_eq_iff split: fnode.splits)
  then have "r = r\<lparr>rs_files := (rs_files r)(p := RegularF data)\<rparr>" by simp
  with assms data show ?thesis
    by (auto simp: edit_file_def dest!: WriteFileAtomic_True split: option.splits)
qed

lemma with_files_same: "with_files s (aa_recon s) = s"
  by (simp add: with_files_def)

lemma tidy_written:
  assumes "aa_recon s' = r\<lparr>rs_files := (rs_files r)(p := RegularF c)\<rparr>" "rs_db r = app_rows s"
    and "\<And>q. rs_files r q \<noteq> app_files s q \<Longrightarrow> new_folder (app_files s) (rs_files r) q" "\<not> is_refusal resp"
  shows "tidy_edit s (Some p) resp s'"
  using assms by (fastforce simp: tidy_edit_def new_folder_def)

lemma tidy_file_edit:
  assumes "aa_recon s' = (aa_recon s)\<lparr>rs_files := (app_files s)(p := RegularF c)\<rparr>" "\<not> is_refusal resp"
  shows "tidy_edit s (Some p) resp s'"
  using assms by (intro tidy_written [where r = "aa_recon s" and c = c]) simp_all

lemma recordAudit_recon [simp]: "aa_recon (recordAudit slug c a b d s) = aa_recon s"
  by (simp add: recordAudit_def)

lemma start_recon [simp]: "aa_recon (start op s) = aa_recon s"
  by (simp add: start_def)

lemma EnqueueGitCommit_recon [simp]: "aa_recon (EnqueueGitCommit ps reason s) = aa_recon s"
  by (simp add: EnqueueGitCommit_def)

lemma with_files_recon [simp]: "aa_recon (with_files s r) = r"
  by (simp add: with_files_def)

lemma tidy_endpoints: "handleUpdateEndpoints e user slug body s = (resp, s') \<Longrightarrow> tidy_edit s (edit_path e slug (EditEndpoints body) s) resp s'"
  unfolding handleUpdateEndpoints_def Let_def
  by (auto simp: audit_endpoints_recon is_refusal_def with_files_same dest!: edit_file_False edit_file_True
      intro: tidy_file_edit split: sum.splits option.splits prod.splits bool.splits)

lemma tidy_access: "handleUpdateAccess e slug body s = (resp, s') \<Longrightarrow> tidy_edit s (edit_path e slug (EditAccess body) s) resp s'"
  unfolding handleUpdateAccess_def Let_def
  by (auto simp: is_refusal_def with_files_same dest!: edit_file_False edit_file_True
      intro: tidy_file_edit split: sum.splits option.splits prod.splits bool.splits list.splits)

lemma tidy_env: "handlePutEnv e user slug body s = (resp, s') \<Longrightarrow> tidy_edit s (edit_path e slug (EditEnv body) s) resp s'"
  unfolding handlePutEnv_def Let_def
  by (auto simp: is_refusal_def with_files_same dest!: WriteFileAtomic_False WriteFileAtomic_True
      intro: tidy_file_edit split: sum.splits option.splits prod.splits bool.splits)

lemma tidy_restore: "handleRestoreComposeVersion e user slug i s = (resp, s') \<Longrightarrow> tidy_edit s (edit_path e slug (EditRestore i) s) resp s'"
  unfolding handleRestoreComposeVersion_def Let_def
  by (auto simp: is_refusal_def with_files_same dest!: WriteFileAtomic_False WriteFileAtomic_True
      intro: tidy_file_edit split: sum.splits option.splits prod.splits bool.splits if_splits)

lemma make_dir_files: "rs_files (make_dir dir name r) q \<noteq> rs_files r q \<Longrightarrow> new_folder (rs_files r) (rs_files (make_dir dir name r)) q"
  by (auto simp: make_dir_def new_folder_def split: if_splits)

lemma make_dir_db: "rs_db (make_dir dir name r) = rs_db r" "rs_dep (make_dir dir name r) = rs_dep r"
  by (simp_all add: make_dir_def)


lemma handleDeploy_cases:
  assumes "handleDeploy e body s = (resp, s')"
  obtains (refused) c w where "resp = Refusal c w" "s' = s"
  | (unwritten) b where "body = Some b" "resp = Refusal 500 Unwritten"
      "s' = with_files s (make_dir (app_dir (ac_recon e) (db_Name b)) (db_Name b) (aa_recon s))"
  | (started) b composeData r1 where "body = Some b" "resp = DeployStarted (db_Name b)" "deploy_checks e b s = Inr composeData"
      "r1 = (make_dir (app_dir (ac_recon e) (db_Name b)) (db_Name b) (aa_recon s))"
      "aa_recon s' = r1\<lparr>rs_files := (rs_files r1)(deploy_path (ac_recon e) (db_Name b) := RegularF composeData)\<rparr>"
      "aa_queue s' = aa_queue s @ [RcDeploy (deploy_path (ac_recon e) (db_Name b)) (db_Name b)]"
proof -
  have q: "aa_queue (recordAudit sl c a x y t) = aa_queue t" "aa_queue (EnqueueGitCommit ps re t) = aa_queue t"
    "aa_queue (with_files t r) = aa_queue t" "aa_queue (start op t) = aa_queue t @ [op]" for sl c a x y t ps re r op
    by (simp_all add: recordAudit_def EnqueueGitCommit_def with_files_def start_def)
  show ?thesis
  proof (cases body)
    case None
    with assms show ?thesis by (intro refused [of 400 BadBody]) (simp_all add: handleDeploy_def)
  next
    case (Some b)
    show ?thesis
    proof (cases "deploy_checks e b s")
      case (Inl a)
      with assms Some show ?thesis by (cases a, intro refused [of "fst a" "snd a"]) (simp_all add: handleDeploy_def)
    next
      case (Inr composeData)
      show ?thesis
      proof (cases "ac_mkdir e (app_dir (ac_recon e) (db_Name b))")
        case False
        with assms Some Inr show ?thesis by (intro refused [of 500 NoFolder]) (simp_all add: handleDeploy_def Let_def)
      next
        case True
        let ?r = "make_dir (app_dir (ac_recon e) (db_Name b)) (db_Name b) (aa_recon s)"
        obtain ok r1 where w: "WriteFileAtomic (ac_recon e) (deploy_path (ac_recon e) (db_Name b)) composeData ?r = (ok, r1)" by fastforce
        show ?thesis
        proof (cases ok)
          case False
          with w have "r1 = ?r" by (auto dest: WriteFileAtomic_False)
          with assms Some Inr True w False show ?thesis by (intro unwritten [of b]) (auto simp: handleDeploy_def Let_def)
        next
          case ok: True
          with w have r1: "r1 = ?r\<lparr>rs_files := (rs_files ?r)(deploy_path (ac_recon e) (db_Name b) := RegularF composeData)\<rparr>"
            by (auto dest: WriteFileAtomic_True)
          from assms Some Inr True w ok show ?thesis
            by (intro started [OF Some _ Inr refl]) (auto simp: handleDeploy_def Let_def q r1)
        qed
      qed
    qed
  qed
qed

lemma tidy_deploy:
  assumes "handleDeploy e body s = (resp, s')"
  shows "tidy_edit s (edit_path e slug (EditDeploy body) s) resp s'"
  using assms
proof (cases rule: handleDeploy_cases)
  case (unwritten b)
  have "aa_queue s' = aa_queue s" "aa_commits s' = aa_commits s" "aa_audit s' = aa_audit s"
    using unwritten(3) by (simp_all add: with_files_def)
  then show ?thesis
    using unwritten(2,3) make_dir_files by (simp add: tidy_edit_def is_refusal_def make_dir_db)
next
  case (started b composeData r1)
  have "tidy_edit s (Some (deploy_path (ac_recon e) (db_Name b))) resp s'"
    by (rule tidy_written [OF started(5)]) (simp_all add: started(2,4) make_dir_db make_dir_files is_refusal_def)
  then show ?thesis using started(1) by simp
qed simp

lemma run_edit_tidy: "run_edit e user slug op s = (resp, s') \<Longrightarrow> tidy_edit s (edit_path e slug op s) resp s'"
  by (cases op) (auto dest: tidy_endpoints tidy_access tidy_env tidy_deploy tidy_restore)


subsection \<open>What a deploy writes\<close>

lemma name_matches_elem:
  assumes "name_matches extra letter s" "\<not> letter CHR ''/''" "\<not> letter CHR ''.''" "CHR ''/'' \<notin> set extra"
  shows "good_elem s"
proof -
  obtain c cs where s: "s = c # cs" "name_char [] letter c" "list_all (name_char extra letter) cs"
    using assms(1) by (auto simp: name_matches_def split: list.splits)
  have "c \<noteq> CHR ''/'' \<and> c \<noteq> CHR ''.''"
    using s(2) assms(2,3) by (auto simp: name_char_def is_digit_def)
  moreover have "CHR ''/'' \<notin> set cs"
    using s(3) assms(2,4) by (auto simp: list_all_iff name_char_def is_digit_def)
  ultimately show ?thesis by (auto simp: good_elem_def s(1))
qed

lemma valid_name_elem: "validNewAppName s \<Longrightarrow> good_elem s"
  unfolding validNewAppName_def by (erule name_matches_elem) (auto simp: is_letter_def)

lemma dir_abs_of:
  assumes "\<forall>c \<in> set cs. good_elem c" "good_elem f"
  shows "dir_path (abs_of (cs @ [f])) = abs_of cs"
proof -
  let ?p0 = "if cs = [] then ''/'' else abs_of cs @ ''/''"
  have f: "CHR ''/'' \<notin> set f" using assms(2) by (simp add: good_elem_def)
  have "rev (?p0 @ f) = rev f @ CHR ''/'' # (if cs = [] then [] else rev (abs_of cs))" by simp
  moreover have "takeWhile (\<lambda>x. x \<noteq> CHR ''/'') (rev f @ CHR ''/'' # zs) = rev f" for zs
    using f by (simp add: takeWhile_tail takeWhile_append)
  ultimately have "after_last CHR ''/'' (?p0 @ f) = f" by (simp add: after_last_def)
  then have "dir_path (abs_of (cs @ [f])) = clean_path ?p0" by (simp add: dir_path_def abs_of_snoc)
  also have "\<dots> = abs_of (clean_elems True ?p0)" by (intro clean_path_abs) (auto simp: is_abs_def abs_of_def)
  also have "clean_elems True ?p0 = cs"
    using clean_elems_abs_of [OF assms(1)] by (auto simp: clean_elems_def split_on_append_sep)
  finally show ?thesis .
qed

definition apps_root :: "recon_env \<Rightarrow> string list" where
  "apps_root env = clean_elems True (rv_appsDir env)"

lemma apps_root_good: "\<forall>c \<in> set (apps_root env). good_elem c"
  by (simp add: apps_root_def clean_elems_good)

lemma file_names_good: "good_elem ''docker-compose.yml''" "good_elem ''.env''"
  by (simp_all add: good_elem_def)

lemma deploy_paths:
  assumes "is_abs (rv_appsDir env)" "good_elem name"
  shows "app_dir env name = abs_of (apps_root env @ [name])"
    "deploy_path env name = abs_of (apps_root env @ [name, ''docker-compose.yml''])"
    "dir_path (deploy_path env name) = app_dir env name"
    "join_path [app_dir env name, ''.env''] = abs_of (apps_root env @ [name, ''.env''])"
proof -
  have g: "\<forall>c \<in> set (apps_root env @ [name]). good_elem c" using apps_root_good assms(2) by simp
  show d: "app_dir env name = abs_of (apps_root env @ [name])"
    unfolding app_dir_def apps_root_def by (rule join_abs [OF assms])
  show p: "deploy_path env name = abs_of (apps_root env @ [name, ''docker-compose.yml''])"
    unfolding deploy_path_def d using join_abs_of [OF g file_names_good(1)] by simp
  show "dir_path (deploy_path env name) = app_dir env name"
    unfolding p d using dir_abs_of [OF g file_names_good(1)] by simp
  show "join_path [app_dir env name, ''.env''] = abs_of (apps_root env @ [name, ''.env''])"
    unfolding d using join_abs_of [OF g file_names_good(2)] by simp
qed

lemma deploy_path_differs:
  assumes "is_abs (rv_appsDir env)" "good_elem name"
  shows "join_path [app_dir env name, ''.env''] \<noteq> deploy_path env name" "join_path [app_dir env name, ''.env''] \<noteq> app_dir env name"
proof -
  have g: "\<forall>c \<in> set (apps_root env @ [name]). good_elem c" "\<forall>c \<in> set (apps_root env @ [name, ''.env'']). good_elem c"
      "\<forall>c \<in> set (apps_root env @ [name, ''docker-compose.yml'']). good_elem c"
    using apps_root_good assms(2) file_names_good by simp_all
  have "abs_of (apps_root env @ [name, ''.env'']) \<noteq> abs_of (apps_root env @ [name, ''docker-compose.yml''])"
      "abs_of (apps_root env @ [name, ''.env'']) \<noteq> abs_of (apps_root env @ [name])"
    using abs_of_inj [OF _ g(2) g(3)] abs_of_inj [OF _ g(2) g(1)] by auto
  then show "join_path [app_dir env name, ''.env''] \<noteq> deploy_path env name" "join_path [app_dir env name, ''.env''] \<noteq> app_dir env name"
    unfolding deploy_paths(4) [OF assms] unfolding deploy_paths(1,2) [OF assms] by blast+
qed

lemma deploy_checks_ok:
  assumes "deploy_checks e b s = Inr composeData"
  obtains dotEnv parsed where "validNewAppName (db_Name b)" "db_Force b \<or> \<not> app_exists (ac_recon e) (db_Name b) s"
    "ReadDotEnv (ReadRegularFile (app_files s)) (app_dir (ac_recon e) (db_Name b)) = Inr dotEnv"
    "ParseContent (parse_of (ac_recon e) (aa_recon s)) composeData (deploy_path (ac_recon e) (db_Name b)) (db_Name b) dotEnv = Inr parsed"
    "deploy_violations (ac_recon e) (aa_recon s) parsed = []"
  using assms unfolding deploy_checks_def Let_def
  by (auto split: if_splits option.splits sum.splits)

text \<open>The parser of the file system turns a cleaned absolute path into itself.\<close>

definition abs_kept :: "recon_env \<Rightarrow> recon \<Rightarrow> bool" where
  "abs_kept env s \<longleftrightarrow> (\<forall>p. canonical p \<longrightarrow> pe_abs (parse_of env s) p = Some p)"

text \<open>A file written next to its .env parses as its content did before it was written.\<close>

lemma written_file_parses:
  assumes "pe_abs (parse_of env s) path = Some path" "rs_dep s' = rs_dep s" "rs_files s' path = RegularF content"
    and "rs_files s' (join_path [dir_path path, ''.env'']) = rs_files s (join_path [dir_path path, ''.env''])"
    and "ReadDotEnv (ReadRegularFile (rs_files s)) (dir_path path) = Inr dotEnv"
  shows "parse_file env s' path name = ParseContent (parse_of env s) content path name dotEnv"
proof -
  have "parse_of env s' = parse_of env s" using assms(2) by (simp add: parse_of_def)
  moreover have "ReadDotEnv (ReadRegularFile (rs_files s')) (dir_path path) = Inr dotEnv"
    using assms(4,5) by (simp add: ReadDotEnv_def ReadRegularFile_def)
  ultimately show ?thesis
    using assms(1,3) by (simp add: parse_file_def ParseFile_def ReadRegularFile_def)
qed

text \<open>
  Property C32. A deploy that is accepted has a name that is one element of a path, writes the compose file of that name inside the
  apps folder, and leaves there a file that parses and passes every rule a deploy is checked against; an existing app is
  overwritten only when the caller asks for it.
\<close>

theorem deploy_writes_vetted:
  assumes "handleDeploy e (Some b) s = (DeployStarted name, s')" "is_abs (rv_appsDir (ac_recon e))" "abs_kept (ac_recon e) (aa_recon s)"
  shows "\<exists>cfg. name = db_Name b \<and> good_elem name \<and> (db_Force b \<or> \<not> app_exists (ac_recon e) name s) \<and>
     deploy_path (ac_recon e) name = abs_of (apps_root (ac_recon e) @ [name, ''docker-compose.yml'']) \<and>
     aa_queue s' = aa_queue s @ [RcDeploy (deploy_path (ac_recon e) name) name] \<and>
     parse_file (ac_recon e) (aa_recon s') (deploy_path (ac_recon e) name) name = Inr cfg \<and>
     deploy_violations (ac_recon e) (aa_recon s') cfg = []"
  using assms(1)
proof (cases rule: handleDeploy_cases)
  case (started b' composeData r1)
  let ?env = "ac_recon e" and ?path = "deploy_path (ac_recon e) (db_Name b)"
  have b: "b' = b" "name = db_Name b" using started(1,2) by simp_all
  obtain dotEnv parsed where d: "validNewAppName (db_Name b)" "db_Force b \<or> \<not> app_exists ?env (db_Name b) s"
      "ReadDotEnv (ReadRegularFile (app_files s)) (app_dir ?env (db_Name b)) = Inr dotEnv"
      "ParseContent (parse_of ?env (aa_recon s)) composeData ?path (db_Name b) dotEnv = Inr parsed"
      "deploy_violations ?env (aa_recon s) parsed = []"
    using deploy_checks_ok [OF started(3)] unfolding b .
  note g = valid_name_elem [OF d(1)]
  note path = deploy_paths [OF assms(2) g]
  have files: "aa_recon s' = r1\<lparr>rs_files := (rs_files r1)(?path := RegularF composeData)\<rparr>" "rs_dep r1 = rs_dep (aa_recon s)"
      "rs_files r1 (join_path [app_dir ?env (db_Name b), ''.env'']) = app_files s (join_path [app_dir ?env (db_Name b), ''.env''])"
    using started(4,5) deploy_path_differs [OF assms(2) g] unfolding b by (simp_all add: make_dir_def)
  have "\<forall>c \<in> set (apps_root ?env @ [db_Name b, ''docker-compose.yml'']). good_elem c"
    using apps_root_good g file_names_good by simp
  then have "pe_abs (parse_of ?env (aa_recon s)) ?path = Some ?path"
    using assms(3) canonical_abs_of unfolding abs_kept_def path(2) by blast
  then have "parse_file ?env (aa_recon s') ?path (db_Name b) = ParseContent (parse_of ?env (aa_recon s)) composeData ?path (db_Name b) dotEnv"
    using d(3) deploy_path_differs [OF assms(2) g] files
    by (intro written_file_parses) (simp_all add: path(3))
  moreover have "deploy_violations ?env (aa_recon s') parsed = []"
    using d(5) files(1,2) by (simp add: deploy_violations_def)
  ultimately show ?thesis
    using b d(2,4) g path(2) started(6) by (intro exI [of _ parsed]) simp
qed simp_all


subsection \<open>Environment files read back\<close>

definition env_line :: "envVar \<Rightarrow> string" where
  "env_line v = vn_Key v @ ''='' @ vn_Value v"

text \<open>A variable whose line is read as it is written: no comment, no white space around it, short enough.\<close>

definition plain_var :: "envVar \<Rightarrow> bool" where
  "plain_var v \<longleftrightarrow> \<not> prefix ''#'' (vn_Key v) \<and> trim_space (env_line v) = env_line v \<and> length (env_line v) < 65536"

lemma validateEnvVars_None: "validateEnvVars vars = None \<longleftrightarrow> (\<forall>v \<in> set vars. \<not> bad_env_var v)"
proof -
  have "set vars = snd ` set (enumerate 0 vars)" by (metis map_snd_enumerate set_map)
  then show ?thesis by (auto simp: validateEnvVars_def find_None_iff)
qed

lemma file_lines_concat:
  "\<forall>l \<in> set ls. nl \<notin> set l \<Longrightarrow> file_lines (concat (map (\<lambda>l. l @ [nl]) ls)) = ls"
proof -
  assume ls: "\<forall>l \<in> set ls. nl \<notin> set l"
  have "split_on nl (concat (map (\<lambda>l. l @ [nl]) ls)) = ls @ [[]]"
    using ls by (induction ls) (auto simp: split_on_sep split_on_no_sep)
  then show ?thesis by (simp add: file_lines_def)
qed

lemma scan_lines_short:
  "\<forall>l \<in> set ls. length l < 65536 \<and> drop_cr l = l \<Longrightarrow> scan_lines ls = (ls, True)"
  by (induction ls) auto

lemma good_env_line:
  assumes "\<not> bad_env_var v"
  shows "nl \<notin> set (env_line v)" "drop_cr (env_line v) = env_line v" "CHR ''='' \<notin> set (vn_Key v)" "vn_Key v \<noteq> []" "\<not> vn_Masked v"
proof -
  have "CHR 0x0D \<notin> set (env_line v)" "env_line v \<noteq> []"
    using assms by (auto simp: bad_env_var_def contains_any_def env_line_def)
  then show "drop_cr (env_line v) = env_line v" by (metis drop_cr_def last_in_set)
qed (use assms in \<open>auto simp: bad_env_var_def contains_any_def env_line_def nl_def\<close>)

lemma parse_env_line_back:
  assumes "\<not> bad_env_var v" "plain_var v"
  shows "parse_env_line (env_line v) = Some v"
proof -
  have c: "cut_at CHR ''='' (env_line v) = (vn_Key v, vn_Value v, True)"
    using cut_at_append [OF good_env_line(3) [OF assms(1)], of "vn_Value v"] by (simp add: env_line_def)
  have "env_line v \<noteq> []" "\<not> prefix ''#'' (env_line v)"
    using good_env_line(4) [OF assms(1)] assms(2) by (cases "vn_Key v"; simp add: env_line_def plain_var_def)+
  then show ?thesis
    using assms(2) c good_env_line(5) [OF assms(1)] by (simp add: parse_env_line_def plain_var_def Let_def)
qed

text \<open>
  Property C33. Variables that pass the check, and whose lines have no comment sign in front, no white space around them and less than
  64 KiB, are read back from the file exactly as they were saved.
\<close>

theorem env_round_trip:
  assumes "validateEnvVars vars = None" "\<forall>v \<in> set vars. plain_var v" "files path = RegularF (envFileContent vars)"
  shows "parseEnvFile files path = Inr vars"
proof -
  have ok: "\<forall>v \<in> set vars. \<not> bad_env_var v" using assms(1) by (simp add: validateEnvVars_None)
  have "envFileContent vars = concat (map (\<lambda>l. l @ [nl]) (map env_line vars))"
    by (simp add: envFileContent_def env_line_def comp_def)
  moreover have "file_lines (concat (map (\<lambda>l. l @ [nl]) (map env_line vars))) = map env_line vars"
    using ok good_env_line(1) by (intro file_lines_concat) auto
  moreover have "scan_lines (map env_line vars) = (map env_line vars, True)"
    using ok assms(2) good_env_line(2) by (intro scan_lines_short) (auto simp: plain_var_def)
  moreover have "List.map_filter parse_env_line (map env_line vars) = vars"
    using ok assms(2) by (induction vars) (auto simp: List.map_filter_simps parse_env_line_back)
  ultimately show ?thesis using assms(3) by (simp add: parseEnvFile_def ReadRegularFile_def)
qed

theorem env_round_trip_witness:
  "\<exists>vars. length vars = 2 \<and> parseEnvFile (\<lambda>_. RegularF (envFileContent vars)) ''.env'' = Inr vars"
proof -
  let ?vars = "[\<lparr>vn_Key = ''URL'', vn_Value = ''a=b c'', vn_Masked = False\<rparr>, \<lparr>vn_Key = ''EMPTY'', vn_Value = [], vn_Masked = False\<rparr>]"
  have "parseEnvFile (\<lambda>_. RegularF (envFileContent ?vars)) ''.env'' = Inr ?vars"
    by (rule env_round_trip)
      (simp_all add: validateEnvVars_def bad_env_var_def contains_any_def plain_var_def env_line_def trim_space_def drop_end_while_def is_space_def)
  then show ?thesis by (intro exI [of _ ?vars]) simp
qed

text \<open>A key that starts with a comment sign passes the check and is saved, but is not read back.\<close>

lemma comment_key_lost:
  "validateEnvVars [\<lparr>vn_Key = ''#KEY'', vn_Value = ''1'', vn_Masked = False\<rparr>] = None"
  "parseEnvFile (\<lambda>_. RegularF (envFileContent [\<lparr>vn_Key = ''#KEY'', vn_Value = ''1'', vn_Masked = False\<rparr>])) p = Inr []"
  by (simp_all add: validateEnvVars_def bad_env_var_def contains_any_def parseEnvFile_def ReadRegularFile_def envFileContent_def file_lines_def
      nl_def drop_cr_def parse_env_line_def trim_space_def drop_end_while_def is_space_def cut_at_def List.map_filter_simps)

text \<open>A value of 64 KiB or more is saved, but the file cannot be read back.\<close>

lemma long_value_unreadable:
  assumes "\<not> bad_env_var v" "length (vn_Value v) \<ge> 65536"
  shows "validateEnvVars [v] = None" "parseEnvFile (\<lambda>_. RegularF (envFileContent [v])) p = Inl EnvBroken"
proof -
  have "file_lines (envFileContent [v]) = [env_line v]"
    using file_lines_concat [of "[env_line v]"] good_env_line(1) [OF assms(1)] by (simp add: envFileContent_def env_line_def)
  moreover have "length (env_line v) \<ge> 65536" using assms(2) by (simp add: env_line_def)
  ultimately show "parseEnvFile (\<lambda>_. RegularF (envFileContent [v])) p = Inl EnvBroken"
    by (simp add: parseEnvFile_def ReadRegularFile_def)
  show "validateEnvVars [v] = None" using assms(1) by (simp add: validateEnvVars_None)
qed

subsection \<open>Who sees the values\<close>

definition sees_values :: "AuthUser option \<Rightarrow> bool" where
  "sees_values user \<longleftrightarrow> (case user of Some u \<Rightarrow> canSeeEnvValues (Role u) | None \<Rightarrow> False)"

text \<open>What of an .env file's content its keys are.\<close>

definition env_keys :: "string \<Rightarrow> env_error + string list" where
  "env_keys content = map_sum id (map vn_Key) (parseEnvFile (\<lambda>_. RegularF content) [])"

definition with_content :: "app_api \<Rightarrow> string \<Rightarrow> string \<Rightarrow> app_api" where
  "with_content s p content = with_files s ((aa_recon s)\<lparr>rs_files := (app_files s)(p := RegularF content)\<rparr>)"

lemma mask_values_keys: "\<not> sees_values user \<Longrightarrow> mask_values user vars = map (\<lambda>k. \<lparr>vn_Key = k, vn_Value = [], vn_Masked = True\<rparr>) (map vn_Key vars)"
  by (auto simp: mask_values_def sees_values_def split: option.splits)

lemma no_symlinks_content:
  "files p = RegularF c \<Longrightarrow> no_symlinks (files(p := RegularF c')) cur parts = no_symlinks files cur parts"
  by (induction parts arbitrary: cur) (auto simp: Let_def split: fnode.split)

lemma envFilePath_content:
  assumes "app_files s p = RegularF c"
  shows "envFilePath env app (aa_recon (with_content s p c')) = envFilePath env app (aa_recon s)"
  using no_symlinks_content [of "app_files s", OF assms]
  by (simp add: envFilePath_def EnsureNoSymlinks_def with_content_def Let_def split: option.split)

lemma parseEnvFile_content:
  "parseEnvFile files q = (case files q of RegularF c \<Rightarrow> parseEnvFile (\<lambda>_. RegularF c) [] | _ \<Rightarrow> parseEnvFile files q)"
  by (simp add: parseEnvFile_def ReadRegularFile_def split: fnode.split)

text \<open>
  Property C34. A caller who may not see values is shown the same whatever the values are: replacing a file by one with the same
  keys changes nothing in the answer. And what he is shown, if anything, is refused when it is sent back to be
  saved, so it cannot blank the values.
\<close>

theorem env_values_hidden:
  assumes "\<not> sees_values user" "app_files s p = RegularF c" "env_keys c' = env_keys c"
  shows "handleGetEnv e user slug (with_content s p c') = handleGetEnv e user slug s \<and>
     (\<forall>vars caller. handleGetEnv e user slug s = EnvShown vars \<longrightarrow> vars \<noteq> [] \<longrightarrow>
        (\<exists>why. handlePutEnv e caller slug (Some vars) s = (Refusal 400 why, s)))"
proof (cases "GetApp (rv_sql (ac_recon e)) slug (app_rows s)")
  case (Inl a)
  then show ?thesis by (simp add: handleGetEnv_def with_content_def)
next
  case (Inr app)
  have rows: "app_rows (with_content s p c') = app_rows s" by (simp add: with_content_def)
  show ?thesis
  proof (cases "envFilePath (ac_recon e) app (aa_recon s)")
    case None
    then show ?thesis using Inr rows envFilePath_content [OF assms(2)] by (simp add: handleGetEnv_def)
  next
    case (Some q)
    let ?old = "parseEnvFile (app_files s) q" and ?new = "parseEnvFile (app_files (with_content s p c')) q"
    have keys: "map_sum id (map vn_Key) ?new = map_sum id (map vn_Key) ?old"
    proof (cases "q = p")
      case True
      then have "app_files (with_content s p c') q = RegularF c'" "app_files s q = RegularF c"
        using assms(2) by (simp_all add: with_content_def)
      then have "?new = parseEnvFile (\<lambda>_. RegularF c') []" "?old = parseEnvFile (\<lambda>_. RegularF c) []"
        using parseEnvFile_content [of "app_files (with_content s p c')" q] parseEnvFile_content [of "app_files s" q] by simp_all
      then show ?thesis using assms(3) by (simp add: env_keys_def)
    next
      case False
      then have "app_files (with_content s p c') q = app_files s q" by (simp add: with_content_def)
      then show ?thesis by (simp add: parseEnvFile_def ReadRegularFile_def)
    qed
    have same: "handleGetEnv e user slug (with_content s p c') = handleGetEnv e user slug s"
      using Inr rows Some envFilePath_content [OF assms(2)] keys
      by (cases ?new; cases ?old) (simp_all add: handleGetEnv_def mask_values_keys [OF assms(1)])
    have masked: "\<exists>why. handlePutEnv e caller slug (Some vars) s = (Refusal 400 why, s)"
      if shown: "handleGetEnv e user slug s = EnvShown vars" "vars \<noteq> []" for vars caller
    proof -
      have "\<forall>v \<in> set vars. vn_Masked v"
        using shown Inr Some by (auto simp: handleGetEnv_def mask_values_keys [OF assms(1)] split: sum.splits env_error.splits)
      with shown(2) have "validateEnvVars vars \<noteq> None"
        by (auto simp: validateEnvVars_None bad_env_var_def neq_Nil_conv)
      then obtain i where "validateEnvVars vars = Some i" by blast
      then show ?thesis using Inr by (simp add: handlePutEnv_def)
    qed
    with same show ?thesis by blast
  qed
qed


subsection \<open>What a changed environment or a restored version leads to\<close>

lemma GetApp_Inr: "GetApp q slug db = Inr app \<Longrightarrow> app \<in> set (ad_apps db) \<and> app_Slug app = slug"
  by (auto simp: GetApp_def app_by_slug_def find_Some_iff split: if_splits option.splits)

lemma handlePutEnv_saved:
  assumes "handlePutEnv e user slug (Some vars) s = (EnvSaved, s')" "GetApp (rv_sql (ac_recon e)) slug (app_rows s) = Inr app"
  shows "validateEnvVars vars = None \<and> checkEnvAgainstCompose e user app (envFileContent vars) s = None \<and>
     aa_recon s' = (aa_recon s)\<lparr>rs_files := (app_files s)(join_path [dir_path (app_ComposePath app), ''.env''] := RegularF (envFileContent vars))\<rparr>"
  using assms unfolding handlePutEnv_def Let_def
  by (auto simp: envFilePath_def Let_def dest!: WriteFileAtomic_True split: sum.splits option.splits prod.splits bool.splits if_splits)

lemma checkEnvAgainstCompose_None:
  assumes "checkEnvAgainstCompose e user app dotEnv s = None" "app_files s (app_ComposePath app) = RegularF content"
  obtains cfg where
    "ParseContent (parse_of (ac_recon e) (aa_recon s)) content (app_ComposePath app) (app_Slug app) (Some dotEnv) = Inr cfg"
    "security_violations (ac_recon e) (aa_recon s) cfg = []"
    "checkEndpointDomains e user (app_Slug app) (a_endpoints cfg)
       (display_endpoints (ac_recon e) (aa_recon s) (app_ComposePath app) (app_Slug app)) s = None"
  using assms unfolding checkEnvAgainstCompose_def checkComposeWithEnv_def Let_def ReadRegularFile_def
  by (auto split: compose_check.splits if_splits option.splits sum.splits)

lemma dotenv_differs: "canonical path \<Longrightarrow> base_path path \<noteq> ''.env'' \<Longrightarrow> canonical (dir_path path) \<Longrightarrow> join_path [dir_path path, ''.env''] \<noteq> path"
proof
  assume c: "canonical path" "base_path path \<noteq> ''.env''" "canonical (dir_path path)" and j: "join_path [dir_path path, ''.env''] = path"
  obtain cs where cs: "dir_path path = abs_of cs" "\<forall>c \<in> set cs. good_elem c" using c(3) by (rule canonicalE)
  have "path = abs_of (cs @ [''.env''])" using j join_abs_of [OF cs(2) file_names_good(2)] by (simp add: cs(1))
  moreover have "base_path (abs_of (cs @ [''.env''])) = ''.env''"
  proof -
    have "drop_end_while (\<lambda>c. c = CHR ''/'') (abs_of (cs @ [''.env''])) = abs_of (cs @ [''.env''])"
      by (simp add: abs_of_snoc drop_end_while_id)
    moreover have "after_last CHR ''/'' (abs_of (cs @ [''.env''])) = ''.env''"
      by (simp add: abs_of_snoc after_last_def)
    moreover have "abs_of (cs @ [''.env'']) \<noteq> []" by (simp add: abs_of_def)
    ultimately show ?thesis by (simp add: base_path_def)
  qed
  ultimately show False using c(2) by simp
qed

text \<open>
  Property C35. After new variables were saved for an app that has a compose file, that file, read with them, parses and passes every
  security rule, and takes no domain of another active app, nor a new reserved or wildcard one unless the caller is a
  super admin.
\<close>

theorem saved_env_vetted:
  assumes "handlePutEnv e user slug (Some vars) s = (EnvSaved, s')" "GetApp (rv_sql (ac_recon e)) slug (app_rows s) = Inr app"
    and "app_files s (app_ComposePath app) = RegularF content"
    and "pe_abs (parse_of (ac_recon e) (aa_recon s)) (app_ComposePath app) = Some (app_ComposePath app)"
    and "join_path [dir_path (app_ComposePath app), ''.env''] \<noteq> app_ComposePath app"
  shows "\<exists>cfg. parse_file (ac_recon e) (aa_recon s') (app_ComposePath app) slug = Inr cfg \<and>
     security_violations (ac_recon e) (aa_recon s') cfg = [] \<and>
     domains_free e user slug (a_endpoints cfg) (display_endpoints (ac_recon e) (aa_recon s) (app_ComposePath app) slug) s"
proof -
  have slug: "app_Slug app = slug" using GetApp_Inr [OF assms(2)] by simp
  note h = handlePutEnv_saved [OF assms(1,2)]
  obtain cfg where c: "ParseContent (parse_of (ac_recon e) (aa_recon s)) content (app_ComposePath app) slug (Some (envFileContent vars)) = Inr cfg"
    "security_violations (ac_recon e) (aa_recon s) cfg = []"
    "checkEndpointDomains e user slug (a_endpoints cfg) (display_endpoints (ac_recon e) (aa_recon s) (app_ComposePath app) slug) s = None"
    using checkEnvAgainstCompose_None [OF conjunct1 [OF conjunct2 [OF h]] assms(3)] unfolding slug .
  have files: "app_files s' (app_ComposePath app) = RegularF content"
      "ReadDotEnv (ReadRegularFile (app_files s')) (dir_path (app_ComposePath app)) = Inr (Some (envFileContent vars))"
    using h assms(3,5) by (simp_all add: ReadDotEnv_def ReadRegularFile_def)
  have pe: "parse_of (ac_recon e) (aa_recon s') = parse_of (ac_recon e) (aa_recon s)" using h by (simp add: parse_of_def)
  then have "parse_file (ac_recon e) (aa_recon s') (app_ComposePath app) slug =
      ParseContent (parse_of (ac_recon e) (aa_recon s')) content (app_ComposePath app) slug (Some (envFileContent vars))"
    using assms(4) files by (intro written_file_parses [where s = "aa_recon s'"]) simp_all
  moreover have "security_violations (ac_recon e) (aa_recon s') cfg = []"
    using c(2) h by (simp add: security_violations_def)
  ultimately show ?thesis using c(1) pe checkEndpointDomains_None [OF c(3)] by auto
qed

lemma handleRestore_done:
  assumes "handleRestoreComposeVersion e user slug i s = (VersionRestoring, s')"
  obtains app ver composeData where "GetApp (rv_sql (ac_recon e)) slug (app_rows s) = Inr app"
    "GetComposeVersion (rv_sql (ac_recon e)) (fst (atoi i)) (app_rows s) = Inr ver" "cv_AppID ver = app_ID app"
    "checkVersionForRestore e user slug (app_ComposePath app) ver s = Inr composeData"
    "aa_recon s' = (aa_recon s)\<lparr>rs_files := (app_files s)(app_ComposePath app := RegularF composeData)\<rparr>"
    "aa_queue s' = aa_queue s @ [RcDeploy (app_ComposePath app) slug]"
proof -
  let ?q = "rv_sql (ac_recon e)"
  obtain v ok where v: "atoi i = (v, ok)" by fastforce
  note d = assms [unfolded handleRestoreComposeVersion_def Let_def v prod.case]
  from d have ok by (cases ok) auto
  with d obtain app where app: "GetApp ?q slug (app_rows s) = Inr app" by (cases "GetApp ?q slug (app_rows s)") auto
  with d \<open>ok\<close> obtain ver where ver: "GetComposeVersion ?q v (app_rows s) = Inr ver" by (cases "GetComposeVersion ?q v (app_rows s)") auto
  with d \<open>ok\<close> app have own: "cv_AppID ver = app_ID app" by (cases "cv_AppID ver = app_ID app") auto
  with d \<open>ok\<close> app ver obtain composeData where c: "checkVersionForRestore e user slug (app_ComposePath app) ver s = Inr composeData"
    by (cases "checkVersionForRestore e user slug (app_ComposePath app) ver s") (auto split: prod.splits)
  obtain w r where w: "WriteFileAtomic (ac_recon e) (app_ComposePath app) composeData (aa_recon s) = (w, r)" by fastforce
  have w': w using d \<open>ok\<close> app ver own c w by (cases w) auto
  have "r = (aa_recon s)\<lparr>rs_files := (app_files s)(app_ComposePath app := RegularF composeData)\<rparr>"
    using w w' by (intro WriteFileAtomic_True) simp
  moreover have "aa_recon s' = r \<and> aa_queue s' = aa_queue s @ [RcDeploy (app_ComposePath app) slug]"
    using d \<open>ok\<close> app ver own c w w' by (auto simp: start_def recordAudit_def with_files_def)
  ultimately show ?thesis using that app ver own c v by simp
qed

lemma checkVersionForRestore_Inr:
  assumes "checkVersionForRestore e user slug path ver s = Inr composeData"
  obtains dotEnv cfg where "ReadDotEnv (ReadRegularFile (app_files s)) (dir_path path) = Inr dotEnv"
    "ParseContent (parse_of (ac_recon e) (aa_recon s)) composeData path slug dotEnv = Inr cfg"
    "security_violations (ac_recon e) (aa_recon s) cfg = []" "composeData = rollback_content (ac_recon e) (cv_Content ver)"
    "checkEndpointDomains e user slug (a_endpoints cfg) (display_endpoints (ac_recon e) (aa_recon s) path slug) s = None"
proof -
  note d = assms [unfolded checkVersionForRestore_def Let_def]
  from d obtain dotEnv where de: "ReadDotEnv (ReadRegularFile (app_files s)) (dir_path path) = Inr dotEnv"
    by (cases "ReadDotEnv (ReadRegularFile (app_files s)) (dir_path path)") auto
  from d de obtain cfg where cfg: "ParseContent (parse_of (ac_recon e) (aa_recon s)) (rollback_content (ac_recon e) (cv_Content ver)) path slug dotEnv = Inr cfg"
    by (cases "ParseContent (parse_of (ac_recon e) (aa_recon s)) (rollback_content (ac_recon e) (cv_Content ver)) path slug dotEnv") auto
  from d de cfg have sv: "security_violations (ac_recon e) (aa_recon s) cfg = []" by (auto split: if_splits)
  from d de cfg sv have "checkEndpointDomains e user slug (a_endpoints cfg) (display_endpoints (ac_recon e) (aa_recon s) path slug) s = None"
      "composeData = rollback_content (ac_recon e) (cv_Content ver)" by (auto split: option.splits)
  with that de cfg sv show ?thesis by simp
qed

text \<open>
  A restore writes a version of this app only, and what it writes parses with the app's .env and passes every security rule,
  and takes no domain of another app.
\<close>

lemma restored_version_vetted:
  assumes "handleRestoreComposeVersion e user slug i s = (VersionRestoring, s')" "abs_kept (ac_recon e) (aa_recon s)"
    and "\<And>app. GetApp (rv_sql (ac_recon e)) slug (app_rows s) = Inr app \<Longrightarrow>
           canonical (app_ComposePath app) \<and> canonical (dir_path (app_ComposePath app)) \<and> base_path (app_ComposePath app) \<noteq> ''.env''"
  shows "\<exists>app ver cfg. GetApp (rv_sql (ac_recon e)) slug (app_rows s) = Inr app \<and> ver \<in> set (ad_versions (app_rows s)) \<and>
     cv_AppID ver = app_ID app \<and> app_files s' (app_ComposePath app) = RegularF (rollback_content (ac_recon e) (cv_Content ver)) \<and>
     parse_file (ac_recon e) (aa_recon s') (app_ComposePath app) slug = Inr cfg \<and>
     security_violations (ac_recon e) (aa_recon s') cfg = [] \<and>
     domains_free e user slug (a_endpoints cfg) (display_endpoints (ac_recon e) (aa_recon s) (app_ComposePath app) slug) s"
proof -
  obtain app ver composeData where h: "GetApp (rv_sql (ac_recon e)) slug (app_rows s) = Inr app"
    "GetComposeVersion (rv_sql (ac_recon e)) (fst (atoi i)) (app_rows s) = Inr ver" "cv_AppID ver = app_ID app"
    "checkVersionForRestore e user slug (app_ComposePath app) ver s = Inr composeData"
    "aa_recon s' = (aa_recon s)\<lparr>rs_files := (app_files s)(app_ComposePath app := RegularF composeData)\<rparr>"
    using handleRestore_done [OF assms(1)] by blast
  obtain dotEnv cfg where c: "ReadDotEnv (ReadRegularFile (app_files s)) (dir_path (app_ComposePath app)) = Inr dotEnv"
    "ParseContent (parse_of (ac_recon e) (aa_recon s)) composeData (app_ComposePath app) slug dotEnv = Inr cfg"
    "security_violations (ac_recon e) (aa_recon s) cfg = []" "composeData = rollback_content (ac_recon e) (cv_Content ver)"
    "checkEndpointDomains e user slug (a_endpoints cfg) (display_endpoints (ac_recon e) (aa_recon s) (app_ComposePath app) slug) s = None"
    using checkVersionForRestore_Inr [OF h(4)] by blast
  note a = assms(3) [OF h(1)]
  have ne: "join_path [dir_path (app_ComposePath app), ''.env''] \<noteq> app_ComposePath app" using dotenv_differs a by blast
  have "pe_abs (parse_of (ac_recon e) (aa_recon s)) (app_ComposePath app) = Some (app_ComposePath app)"
    using a assms(2) unfolding abs_kept_def by blast
  then have "parse_file (ac_recon e) (aa_recon s') (app_ComposePath app) slug = Inr cfg"
    using c(1,2) h(5) ne by (subst written_file_parses [where s = "aa_recon s"]) simp_all
  moreover have "security_violations (ac_recon e) (aa_recon s') cfg = []"
    using c(3) h(5) by (simp add: security_violations_def)
  moreover have "ver \<in> set (ad_versions (app_rows s))"
    using h(2) by (auto simp: GetComposeVersion_def find_Some_iff split: if_splits option.splits)
  ultimately show ?thesis using h(1,3,5) c(4) checkEndpointDomains_None [OF c(5)] by auto
qed


subsection \<open>Where the checks stop short\<close>

text \<open>The port and the TLS mode of an endpoint are written as they come.\<close>

lemma port_not_checked:
  assumes "check_endpoints services [] Map.empty [ep] = Inr r"
  shows "check_endpoints services [] Map.empty [ep\<lparr>ep_port := port\<rparr>] = Inr [(clean_endpoint ep)\<lparr>ep_port := port\<rparr>]"
proof -
  have ok: "placed services (clean_endpoint ep)" "ValidateEndpoints [clean_endpoint ep] = []"
    using assms unfolding check_endpoints_ok by (elim conjE; simp)+
  have "clean_endpoint (ep\<lparr>ep_port := port\<rparr>) = (clean_endpoint ep)\<lparr>ep_port := port\<rparr>" by (simp add: clean_endpoint_def)
  moreover have "ValidateEndpoints [(clean_endpoint ep)\<lparr>ep_port := port\<rparr>] = []"
    using ok(2) by (simp add: ValidateEndpoints_iff endpoints_spec_def endpoint_ok_def)
  ultimately show ?thesis using ok(1) unfolding check_endpoints_ok by (simp add: placed_def)
qed

text \<open>An allowlist is checked entry by entry without the white space around them, and written with it, line ends included.\<close>

lemma allowlist_line_end:
  "List.map_filter bad_allow_entry (parseAllowList (''10.0.0.1,'' @ [nl] @ ''10.0.0.2'')) = []"
  by code_simp

text \<open>
  When the app table cannot be read, a deploy takes every name for a free one, and a removal takes every app for a folder without
  an app: its files go while its containers run on.
\<close>

lemma failing_table_names_free: "sql_fails (rv_sql env) ''GetAppBySlug'' \<Longrightarrow> \<not> app_exists env name s"
  by (simp add: app_exists_def GetApp_def)

lemma failing_table_removes_folder:
  assumes "sql_fails (rv_sql (ac_recon e)) ''GetAppBySlug''" "validAppName slug"
    and "\<not> stat_missing (app_files s) (app_dir (ac_recon e) slug)" "ac_rmdir e (app_dir (ac_recon e) slug)"
  shows "handleRemoveApp e slug s = (AppRemoved, with_files s (remove_dir (app_dir (ac_recon e) slug) slug (aa_recon s)))"
  using assms by (simp add: handleRemoveApp_def GetApp_def Let_def)

subsection \<open>Removing and purging\<close>

text \<open>A purge takes an archived app only, and leaves no row of it but the audit rows, without their reference to it.\<close>

lemma purge_leaves_nothing:
  assumes "handlePurge e slug s = (AppPurged, s')" "GetApp (rv_sql (ac_recon e)) slug (app_rows s) = Inr app"
  shows "app_ArchivedAt app \<noteq> None \<and> app_rows s' = purge_rows slug (app_ID app) (app_rows s) \<and> app_files s' = app_files s"
  using assms
  by (auto simp: handlePurge_def PurgeApp_def GetApp_def Let_def recordAudit_def with_files_def split: if_splits option.splits prod.splits)

subsection \<open>An app with a service\<close>

definition shop_spec :: ServiceSpec where
  "shop_spec = example_service\<lparr>s_container := plain_container []\<rparr>"

definition shop_project :: Project where
  "shop_project = demo_project\<lparr>p_services := [(''web'', shop_spec)]\<rparr>"

definition shop_cfg :: AppConfig where
  "shop_cfg = app_config_of ''web'' demo_path shop_project []"

definition shop_parse :: parse_env where
  "shop_parse = demo_parse\<lparr>pe_load := (\<lambda>_ _ _ _ _. Some (shop_project, [])), pe_dotenv := (\<lambda>_ _. Some [])\<rparr>"

definition shop_env :: recon_env where
  "shop_env = demo_recon_env\<lparr>rv_dep := (demo_env demo_files)\<lparr>dv_parse := (\<lambda>_. shop_parse)\<rparr>,
     rv_decode := (\<lambda>_. Some (Some (NMap [(str_node ''services'', NMap [(str_node ''web'', old_web)])]))), rv_encode := (\<lambda>_. Some ''edited'')\<rparr>"

definition shop_api_env :: app_env where
  "shop_api_env = \<lparr>ac_recon = shop_env, ac_line = (\<lambda>_ _. 0), ac_base64 = Some, ac_mkdir = (\<lambda>_. True), ac_rmdir = (\<lambda>_. True), ac_tempDir = ''/tmp''\<rparr>"

definition shop_row :: App where
  "shop_row = (row_of ''web'' demo_app ''running'' [])\<lparr>app_ID := 1, app_ArchivedAt := None\<rparr>"

definition shop :: app_api where
  "shop = \<lparr>aa_recon = demo_recon [] [shop_row], aa_queue = [], aa_commits = [], aa_audit = [], aa_reserved = [''dash.example'']\<rparr>"

lemma shop_simps:
  "ac_recon shop_api_env = shop_env" "rv_appsDir shop_env = ''/srv/apps''" "rv_sql shop_env = \<lparr>sql_fails = (\<lambda>_. False), sql_now = 0\<rparr>"
  "app_ComposePath shop_row = demo_path" "app_Slug shop_row = ''web''" "app_ArchivedAt shop_row = None" "app_ID shop_row = 1"
  "aa_recon shop = demo_recon [] [shop_row]" "ad_apps (rs_db (demo_recon es apps)) = apps" "aa_reserved shop = [''dash.example'']"
  by (simp_all add: shop_api_env_def shop_env_def demo_recon_env_def shop_row_def row_of_def demo_app_simps shop_def demo_recon_def)

lemma shop_parse_of: "parse_of shop_env s = shop_parse"
  by (simp add: parse_of_def shop_env_def)

lemma shop_raw: "checkRawFileRefs (pe_refs shop_parse) content dir = RawOk"
  by (simp add: shop_parse_def demo_parse_def checkRawFileRefs_def checkDocs_def Let_def)

lemma shop_ParseContent: "ParseContent shop_parse content path ''web'' dotEnv = Inr (app_config_of ''web'' path shop_project [])"
  using shop_raw by (simp add: ParseContent_def shop_parse_def demo_parse_def interpolationEnv_def split: option.split)

lemma shop_safe: "ValidateComposeSecurity plain_fs no_protected (Some shop_cfg) = []"
proof -
  have "project_safe (newHostPaths plain_fs no_protected shop_cfg) shop_cfg shop_project"
    by (simp add: project_safe_def shop_cfg_def app_config_of_def shop_project_def shop_spec_def demo_project_def example_service_def
        all_services_def service_safe_def container_safe_def plain_container_def build_safe_def host_mode_def equal_fold_def trim_space_def
        drop_end_while_def layout_safe_def layout_binds_def containerMounts_def values_by_key_def sortedKeys_def)
  then show ?thesis by (simp add: ValidateComposeSecurity_def project_violations_Nil shop_cfg_def app_config_of_def)
qed

lemma shop_security: "security_violations shop_env s shop_cfg = []"
  using shop_safe by (simp add: security_violations_def shop_env_def demo_env_def)


lemma shop_abs: "pe_abs shop_parse = Some"
  by (simp add: shop_parse_def demo_parse_def)

lemma shop_parse_file: "parse_file shop_env (demo_recon es apps) demo_path ''web'' = Inr shop_cfg"
proof -
  have "join_path [dir_path demo_path, ''.env''] \<noteq> demo_path" by code_simp
  then have "rs_files (demo_recon es apps) demo_path = RegularF ''services: {}''"
      "rs_files (demo_recon es apps) (join_path [dir_path demo_path, ''.env'']) = Missing"
    by (simp_all add: demo_recon_def)
  then show ?thesis
    using shop_ParseContent [of "''services: {}''" demo_path None] shop_abs
    by (simp add: parse_file_def shop_parse_of ParseFile_def ReadDotEnv_def ReadRegularFile_def shop_cfg_def)
qed

lemma shop_app: "GetApp (rv_sql shop_env) ''web'' (rs_db (demo_recon es [shop_row])) = Inr shop_row"
  by (simp add: GetApp_def app_by_slug_def shop_simps)

lemma shop_load: "loadComposeForEdit shop_env shop_row (demo_recon es apps) = Inr shop_cfg"
  by (simp add: loadComposeForEdit_def shop_simps shop_parse_file shop_security)

lemma shop_cfg_simps: "map sc_name (a_services shop_cfg) = [''web'']" "a_endpoints shop_cfg = []"
  by (simp_all add: shop_cfg_def app_config_of_def shop_project_def demo_project_def convertService_def shop_spec_def example_service_def
      extractEndpoints_def)

lemma shop_others: "otherAppDomains shop_env ''web'' (demo_recon es [shop_row]) = Some []"
  by (simp add: otherAppDomains_def ListApps_def ListAppsWithOptions_def shop_simps)

definition shop_endpoint :: EndpointConfig where
  "shop_endpoint = \<lparr>ep_domain = ''shop.example'', ep_port = ''80'', ep_tls = [], ep_service = ''web'', ep_protocol = [], ep_path = [], ep_index = 0\<rparr>"

definition manager :: AuthUser where
  "manager = \<lparr>ID = 7, Username = ''mia'', Role = ''manage''\<rparr>"

lemma shop_endpoint_clean: "clean_endpoint shop_endpoint = shop_endpoint"
  by (simp add: clean_endpoint_def shop_endpoint_def NormalizeProtocol_def trim_space_def drop_end_while_def)

lemma shop_endpoint_ok: "check_endpoints [''web''] [] Map.empty [shop_endpoint] = Inr [shop_endpoint]"
proof -
  have "placed [''web''] shop_endpoint"
    by (simp add: placed_def shop_endpoint_def validDomain_def is_alnum_def is_letter_def is_digit_def)
  moreover have "ValidateEndpoints [shop_endpoint] = []"
    by (simp add: ValidateEndpoints_def shop_endpoint_def ValidProtocol_def)
  ultimately show ?thesis by (simp only: check_endpoints_ok) (simp add: shop_endpoint_clean)
qed

lemma shop_domain_ok: "checkEndpointDomains shop_api_env (Some manager) ''web'' [shop_endpoint] [] shop = None"
  by (simp add: checkEndpointDomains_def shop_simps shop_others is_super_def manager_def shop_endpoint_def endpointDomainKey_def
      trim_space_def drop_end_while_def is_space_def trim_suffix_def to_lower_def lower_char_def suffix_def)

lemma shop_edit: "\<exists>r. edit_file shop_env demo_path (map_option Some \<circ> updateComposeEndpoints (rv_decode shop_env) (rv_encode shop_env) eps) (demo_recon es apps) = (True, r)"
  by (simp add: edit_file_def ReadRegularFile_def demo_recon_def updateComposeEndpoints_def edit_endpoints_def findMapValue_def str_node_def
      shop_env_def demo_recon_env_def WriteFileAtomic_def)

lemma shop_update:
  "\<exists>s'. handleUpdateEndpoints shop_api_env (Some manager) ''web'' (Some [shop_endpoint]) shop = (EndpointsSaved [shop_endpoint], s')"
proof -
  obtain r where r: "edit_file shop_env demo_path
      (map_option Some \<circ> updateComposeEndpoints (rv_decode shop_env) (rv_encode shop_env) [shop_endpoint]) (demo_recon [] [shop_row]) = (True, r)"
    using shop_edit by blast
  have "checkEndpointDomains shop_api_env (Some manager) ''web'' [shop_endpoint] (a_endpoints shop_cfg) shop = None"
    using shop_domain_ok by (simp add: shop_cfg_simps)
  with r show ?thesis
    by (simp add: handleUpdateEndpoints_def Let_def shop_simps(1,4,8) shop_app shop_load shop_cfg_simps(1) shop_endpoint_ok
        del: check_endpoints.simps)
qed

theorem endpoint_update_exclusive_witness:
  "\<exists>s'. handleUpdateEndpoints shop_api_env (Some manager) ''web'' (Some [shop_endpoint]) shop = (EndpointsSaved [shop_endpoint], s') \<and>
     endpoints_spec [shop_endpoint] \<and> aa_queue s' = aa_queue shop @ [RcRefreshRoutes]"
proof -
  obtain s' where s': "handleUpdateEndpoints shop_api_env (Some manager) ''web'' (Some [shop_endpoint]) shop = (EndpointsSaved [shop_endpoint], s')"
    using shop_update by blast
  from endpoint_update_exclusive [OF s'] s' show ?thesis by blast
qed



lemma shop_deploy_path: "deploy_path shop_env ''web'' = demo_path" "app_dir shop_env ''web'' = ''/srv/apps/web''"
    "is_abs (rv_appsDir shop_env)" "join_path [''/srv/apps/web'', ''.env''] = ''/srv/apps/web/.env''" "dir_path demo_path = ''/srv/apps/web''"
  unfolding deploy_path_def app_dir_def shop_simps demo_path_def by code_simp+

lemma shop_files:
  "rs_files (demo_recon es apps) q = (if q = demo_path then RegularF ''services: {}'' else Missing)"
  "''/srv/apps/web'' \<noteq> demo_path" "''/srv/apps/web/.env'' \<noteq> demo_path"
  by (simp_all add: demo_recon_def demo_path_def)

lemma shop_abs_kept: "abs_kept shop_env s"
  by (simp add: abs_kept_def shop_parse_of shop_abs)

lemma shop_violations: "deploy_violations shop_env s shop_cfg = []"
  using shop_safe
  by (simp add: deploy_violations_def shop_env_def demo_env_def ValidateComposeForDeploy_def shop_cfg_simps ValidateEndpoints_def)

lemma shop_no_env: "ReadDotEnv (ReadRegularFile (rs_files (demo_recon es apps))) ''/srv/apps/web'' = Inr None"
  by (simp add: ReadDotEnv_def shop_deploy_path ReadRegularFile_def shop_files)

definition shop_deploy :: deploy_body where
  "shop_deploy = \<lparr>db_Name = ''web'', db_Compose = ''file'', db_Source = [], db_Force = True\<rparr>"

lemma shop_deploys: "\<exists>s'. handleDeploy shop_api_env (Some shop_deploy) shop = (DeployStarted ''web'', s')"
proof -
  have "validNewAppName ''web''"
    by (simp add: validNewAppName_def name_matches_def name_char_def is_letter_def is_digit_def lower_char_def)
  then have "deploy_checks shop_api_env shop_deploy shop = Inr (deployRewrites shop_env ''file'')"
    using shop_no_env shop_violations shop_ParseContent
    by (simp add: deploy_checks_def shop_deploy_def Let_def shop_simps(1,8) shop_api_env_def shop_deploy_path shop_parse_of shop_cfg_def [symmetric])
  then show ?thesis
    by (simp add: handleDeploy_def shop_deploy_def Let_def shop_simps(1,8) WriteFileAtomic_def)
       (simp add: shop_api_env_def shop_env_def demo_recon_env_def)
qed

theorem deploy_writes_vetted_witness:
  "\<exists>s' cfg. handleDeploy shop_api_env (Some shop_deploy) shop = (DeployStarted ''web'', s') \<and>
     deploy_path shop_env ''web'' = ''/srv/apps/web/docker-compose.yml'' \<and>
     parse_file shop_env (aa_recon s') (deploy_path shop_env ''web'') ''web'' = Inr cfg \<and> deploy_violations shop_env (aa_recon s') cfg = []"
proof -
  obtain s' where s': "handleDeploy shop_api_env (Some shop_deploy) shop = (DeployStarted ''web'', s')" using shop_deploys by blast
  have "is_abs (rv_appsDir (ac_recon shop_api_env))" "abs_kept (ac_recon shop_api_env) (aa_recon shop)"
    using shop_abs_kept shop_deploy_path(3) by (simp_all add: shop_simps(1))
  from deploy_writes_vetted [OF s' this] s' show ?thesis
    unfolding shop_simps(1) shop_deploy_path demo_path_def by metis
qed

definition shop_var :: envVar where
  "shop_var = \<lparr>vn_Key = ''KEY'', vn_Value = ''1'', vn_Masked = False\<rparr>"

lemma shop_env_path: "envFilePath shop_env shop_row (demo_recon es apps) = Some ''/srv/apps/web/.env''"
proof -
  have "rel_parts ''/srv/apps'' ''/srv/apps/web/.env'' = Some [''web'', ''.env'']" by code_simp
  moreover have "join_path [clean_path ''/srv/apps'', ''web''] = ''/srv/apps/web''" by code_simp
  ultimately show ?thesis
    by (simp add: envFilePath_def EnsureNoSymlinks_def shop_simps shop_deploy_path Let_def shop_files)
qed

lemma shop_saves: "\<exists>s'. handlePutEnv shop_api_env (Some manager) ''web'' (Some [shop_var]) shop = (EnvSaved, s')"
proof -
  have "validateEnvVars [shop_var] = None"
    by (simp add: validateEnvVars_None shop_var_def bad_env_var_def contains_any_def)
  moreover have "checkComposeWithEnv shop_env (demo_recon es apps) content shop_row dotEnv = CheckOk shop_cfg" for es apps content dotEnv
    using shop_ParseContent [of content demo_path dotEnv] shop_security
    by (simp add: checkComposeWithEnv_def shop_parse_of shop_simps shop_cfg_def)
  then have "checkEnvAgainstCompose shop_api_env (Some manager) shop_row content shop = None" for content
    by (simp add: checkEnvAgainstCompose_def Let_def shop_simps ReadRegularFile_def checkEndpointDomains_def shop_cfg_simps shop_others
        is_super_def manager_def shop_files)
  ultimately show ?thesis
    by (simp add: handlePutEnv_def Let_def shop_simps(1,8) shop_app shop_env_path WriteFileAtomic_def)
       (simp add: shop_env_def demo_recon_env_def)
qed

theorem saved_env_vetted_witness:
  "\<exists>s' cfg. handlePutEnv shop_api_env (Some manager) ''web'' (Some [shop_var]) shop = (EnvSaved, s') \<and>
     parse_file shop_env (aa_recon s') demo_path ''web'' = Inr cfg \<and> security_violations shop_env (aa_recon s') cfg = []"
proof -
  obtain s' where s': "handlePutEnv shop_api_env (Some manager) ''web'' (Some [shop_var]) shop = (EnvSaved, s')" using shop_saves by blast
  have g: "GetApp (rv_sql (ac_recon shop_api_env)) ''web'' (app_rows shop) = Inr shop_row" by (simp add: shop_simps(1,8) shop_app)
  have f: "app_files shop (app_ComposePath shop_row) = RegularF ''services: {}''" by (simp add: shop_simps demo_recon_def)
  have a: "pe_abs (parse_of (ac_recon shop_api_env) (aa_recon shop)) (app_ComposePath shop_row) = Some (app_ComposePath shop_row)"
    by (simp add: shop_simps(1) shop_parse_of shop_abs)
  have n: "join_path [dir_path (app_ComposePath shop_row), ''.env''] \<noteq> app_ComposePath shop_row"
    by (simp add: shop_simps shop_deploy_path shop_files)
  from saved_env_vetted [OF s' g f a n] s' show ?thesis by (auto simp: shop_simps)
qed

definition viewer :: AuthUser where
  "viewer = \<lparr>ID = 8, Username = ''vi'', Role = ''viewer''\<rparr>"

definition env_shop :: "string \<Rightarrow> app_api" where
  "env_shop content = with_content shop ''/srv/apps/web/.env'' content"

lemma shop_env_lines:
  "parseEnvFile (\<lambda>_. RegularF (''KEY='' @ v)) p = Inr [\<lparr>vn_Key = ''KEY'', vn_Value = v, vn_Masked = False\<rparr>]" if "v = ''old'' \<or> v = ''new''"
  using that
  by (auto simp: parseEnvFile_def ReadRegularFile_def file_lines_def nl_def drop_cr_def parse_env_line_def trim_space_def
      drop_end_while_def is_space_def cut_at_def List.map_filter_simps)

theorem env_values_hidden_witness:
  "handleGetEnv shop_api_env (Some viewer) ''web'' (with_content (env_shop ''KEY=old'') ''/srv/apps/web/.env'' ''KEY=new'') =
     handleGetEnv shop_api_env (Some viewer) ''web'' (env_shop ''KEY=old'') \<and>
   handleGetEnv shop_api_env (Some viewer) ''web'' (env_shop ''KEY=old'') = EnvShown [\<lparr>vn_Key = ''KEY'', vn_Value = [], vn_Masked = True\<rparr>]"
proof -
  have n: "\<not> sees_values (Some viewer)" by (simp add: sees_values_def canSeeEnvValues_def viewer_def)
  have f: "app_files (env_shop ''KEY=old'') ''/srv/apps/web/.env'' = RegularF ''KEY=old''" by (simp add: env_shop_def with_content_def)
  have k: "env_keys ''KEY=new'' = env_keys ''KEY=old''"
    using shop_env_lines [of "''old''"] shop_env_lines [of "''new''"] by (simp add: env_keys_def)
  have "rel_parts ''/srv/apps'' ''/srv/apps/web/.env'' = Some [''web'', ''.env'']"
      "join_path [clean_path ''/srv/apps'', ''web''] = ''/srv/apps/web''" by code_simp+
  then have "envFilePath shop_env shop_row (aa_recon (env_shop ''KEY=old'')) = Some ''/srv/apps/web/.env''"
    by (simp add: envFilePath_def EnsureNoSymlinks_def shop_simps shop_deploy_path Let_def env_shop_def with_content_def shop_files)
  moreover have "parseEnvFile (app_files (env_shop ''KEY=old'')) ''/srv/apps/web/.env'' = Inr [\<lparr>vn_Key = ''KEY'', vn_Value = ''old'', vn_Masked = False\<rparr>]"
    using shop_env_lines [of "''old''"]
    by (subst parseEnvFile_content, subst f) simp
  moreover have "GetApp (rv_sql shop_env) ''web'' (app_rows (env_shop ''KEY=old'')) = Inr shop_row"
    using shop_app by (simp add: env_shop_def with_content_def shop_simps)
  ultimately have "handleGetEnv shop_api_env (Some viewer) ''web'' (env_shop ''KEY=old'') = EnvShown [\<lparr>vn_Key = ''KEY'', vn_Value = [], vn_Masked = True\<rparr>]"
    by (simp add: handleGetEnv_def shop_simps(1) mask_values_keys [OF n])
  then show ?thesis using env_values_hidden [OF n f k, of shop_api_env "''web''"] by simp
qed

end
