(* ===== verification/TarSafe.thy ===== *)
theory TarSafe
  imports GoPath
begin

text \<open>
  internal/backup/tarsafe.go, paths.go and the size caps of strategy.go: what a restore archive has to be before it
  is unpacked in a container, and which paths a backup may name. A reader is the list of the pieces it hands out
  and how it ends; the readers of Go's gzip and tar packages are parameters.
\<close>

subsection \<open>Size caps\<close>

definition defaultMaxDecompressed :: int where
  "defaultMaxDecompressed = 8 * 2 ^ 30"

definition NoDecompressedLimit :: int where
  "NoDecompressedLimit = -1"

text \<open>The cap in bytes; None when the value switches it off.\<close>

definition restoreCap :: "int \<Rightarrow> int option" where
  "restoreCap m = (if m < 0 then None else if m = 0 then Some defaultMaxDecompressed else Some m)"

text \<open>The environment variable, in GiB; the parser of 64-bit numbers is an argument.\<close>

definition restoreMaxFromEnv :: "(string \<Rightarrow> int option) \<Rightarrow> string \<Rightarrow> int option" where
  "restoreMaxFromEnv parse_int env =
     (let v = trim_space env in
      if v = [] then None
      else case parse_int v of
             None \<Rightarrow> Some defaultMaxDecompressed
           | Some n \<Rightarrow> if n \<le> 0 \<or> n > max_i64 div 2 ^ 30 then Some defaultMaxDecompressed else Some (n * 2 ^ 30))"

definition UploadRestoreMaxBytes :: "(string \<Rightarrow> int option) \<Rightarrow> string \<Rightarrow> int" where
  "UploadRestoreMaxBytes parse_int env = (case restoreMaxFromEnv parse_int env of Some n \<Rightarrow> n | None \<Rightarrow> defaultMaxDecompressed)"

definition runRestoreMaxBytes :: "(string \<Rightarrow> int option) \<Rightarrow> string \<Rightarrow> int" where
  "runRestoreMaxBytes parse_int env = (case restoreMaxFromEnv parse_int env of Some n \<Rightarrow> n | None \<Rightarrow> NoDecompressedLimit)"

subsection \<open>Readers\<close>

datatype read_end = EOF | ReadFailed | ArchiveTooLarge

text \<open>The pieces that are still to be read, and the error after them.\<close>

record reader =
  rd_pieces :: "string list"
  rd_end :: read_end

definition rd_all :: "reader \<Rightarrow> string" where
  "rd_all r = concat (rd_pieces r)"

text \<open>Read into a buffer of n bytes: bytes and no error, or no bytes and the error.\<close>

definition read :: "nat \<Rightarrow> reader \<Rightarrow> (read_end + string) \<times> reader" where
  "read n r =
     (case rd_pieces r of
        [] \<Rightarrow> (Inl (rd_end r), r)
      | p # ps \<Rightarrow> (Inr (take n p), r\<lparr>rd_pieces := (if length p \<le> n then ps else drop n p # ps)\<rparr>))"

record capReader =
  cr_r :: reader
  cr_max :: int
  cr_remaining :: int

definition newCapReader :: "reader \<Rightarrow> int \<Rightarrow> capReader" where
  "newCapReader r m = \<lparr>cr_r = r, cr_max = m, cr_remaining = m\<rparr>"

definition cap_Read :: "nat \<Rightarrow> capReader \<Rightarrow> (read_end + string) \<times> capReader" where
  "cap_Read n c =
     (if cr_remaining c \<le> 0 then
        (case read 1 (cr_r c) of
           (Inr b, r) \<Rightarrow> (if b = [] then Inr [] else Inl ArchiveTooLarge, c\<lparr>cr_r := r\<rparr>)
         | (Inl e, r) \<Rightarrow> (Inl e, c\<lparr>cr_r := r\<rparr>))
      else
        (case read (if int n > cr_remaining c then nat (cr_remaining c) else n) (cr_r c) of
           (Inr b, r) \<Rightarrow> (Inr b, c\<lparr>cr_r := r, cr_remaining := cr_remaining c - int (length b)\<rparr>)
         | (Inl e, r) \<Rightarrow> (Inl e, c\<lparr>cr_r := r\<rparr>)))"

text \<open>io.Copy: read into a buffer until the error; EOF is no error.\<close>

definition cap_weight :: "capReader \<Rightarrow> nat" where
  "cap_weight c = length (rd_all (cr_r c)) + length (rd_pieces (cr_r c))"

lemma read_shrinks: "read (Suc n) r = (Inr b, r') \<Longrightarrow>
   length (rd_all r') + length (rd_pieces r') < length (rd_all r) + length (rd_pieces r)"
  by (auto simp: read_def rd_all_def split: list.splits if_splits)

lemma cap_Read_shrinks:
  assumes r: "cap_Read (Suc n) c = (Inr b, c')"
  shows "cap_weight c' < cap_weight c"
proof (cases "cr_remaining c \<le> 0")
  case True
  then obtain r' where "read (Suc 0) (cr_r c) = (Inr [], r')" "c' = c\<lparr>cr_r := r'\<rparr>"
    using r by (auto simp: cap_Read_def split: prod.splits sum.splits if_splits)
  then show ?thesis using read_shrinks [of 0 "cr_r c" "[]" r'] by (simp add: cap_weight_def)
next
  case pos: False
  obtain k where k: "(if int (Suc n) > cr_remaining c then nat (cr_remaining c) else Suc n) = Suc k"
    using pos by (metis Suc_pred' not_less zero_less_Suc zero_less_nat_eq)
  obtain r' where "read (Suc k) (cr_r c) = (Inr b, r')" "c' = c\<lparr>cr_r := r', cr_remaining := cr_remaining c - int (length b)\<rparr>"
    using r pos unfolding cap_Read_def k by (auto split: prod.splits sum.splits)
  then show ?thesis using read_shrinks [of k "cr_r c" b r'] by (simp add: cap_weight_def)
qed

function cap_copy :: "nat \<Rightarrow> capReader \<Rightarrow> string \<times> read_end" where
  "cap_copy n c =
     (case cap_Read (Suc n) c of
        (Inl e, c') \<Rightarrow> ([], e)
      | (Inr b, c') \<Rightarrow> (case cap_copy n c' of (bs, e) \<Rightarrow> (b @ bs, e)))"
  by pat_completeness auto
termination by (relation "measure (\<lambda>(n, c). cap_weight c)") (auto dest: cap_Read_shrinks [OF sym])

declare cap_copy.simps [simp del]

text \<open>
  Whatever the size of the buffer and of the pieces: a stream within the cap comes through whole with its own
  end; a longer one stops at the cap with \<open>ArchiveTooLarge\<close>.
\<close>

definition capped_stream :: "int \<Rightarrow> reader \<Rightarrow> string \<times> read_end" where
  "capped_stream m r =
     (if int (length (rd_all r)) \<le> m then (rd_all r, rd_end r) else (take (nat m) (rd_all r), ArchiveTooLarge))"

lemma read_all: "read (Suc n) r = (Inr b, r') \<Longrightarrow> rd_all r = b @ rd_all r' \<and> rd_end r' = rd_end r \<and> length b \<le> Suc n"
  by (auto simp: read_def rd_all_def split: list.splits if_splits)

lemma read_end: "read n r = (Inl e, r') \<Longrightarrow> rd_all r = [] \<and> e = rd_end r"
  by (auto simp: read_def rd_all_def split: list.splits)

lemma cap_copy_step: "cap_Read (Suc n) c = (Inr b, c') \<Longrightarrow> cap_copy n c = (case cap_copy n c' of (bs, e) \<Rightarrow> (b @ bs, e))"
  by (simp add: cap_copy.simps [of n c])

lemma cap_copy_capped:
  assumes "0 \<le> cr_remaining c"
  shows "cap_copy n c = capped_stream (cr_remaining c) (cr_r c)"
  using assms
proof (induction n c rule: cap_copy.induct)
  case (1 n c)
  show ?case
  proof (cases "cr_remaining c \<le> 0")
    case True
    then have z: "cr_remaining c = 0" using 1 by simp
    obtain res r' where rd: "read (Suc 0) (cr_r c) = (res, r')" by fastforce
    show ?thesis
    proof (cases res)
      case (Inl e)
      then show ?thesis
        using read_end [of "Suc 0" "cr_r c" e r'] rd z by (simp add: cap_copy.simps [of n c] cap_Read_def capped_stream_def)
    next
      case (Inr b)
      note all = read_all [OF rd [unfolded Inr]]
      show ?thesis
      proof (cases "b = []")
        case True
        let ?c = "c\<lparr>cr_r := r'\<rparr>"
        have s: "cap_Read (Suc n) c = (Inr [], ?c)" using rd Inr True z by (simp add: cap_Read_def)
        have "cap_copy n ?c = capped_stream (cr_remaining ?c) (cr_r ?c)"
          using z by (intro 1(1) [OF s [symmetric] refl]) simp
        then show ?thesis using all True by (simp add: cap_copy_step [OF s] capped_stream_def)
      next
        case False
        then show ?thesis
          using rd Inr z all by (cases b) (simp_all add: cap_copy.simps [of n c] cap_Read_def capped_stream_def)
      qed
    qed
  next
    case False
    obtain k where k: "(if int (Suc n) > cr_remaining c then nat (cr_remaining c) else Suc n) = Suc k" "int (Suc k) \<le> cr_remaining c"
    proof (cases "int (Suc n) > cr_remaining c")
      case True
      then show ?thesis using that [of "nat (cr_remaining c) - 1"] False by simp
    qed (use that in auto)
    obtain res r' where rd: "read (Suc k) (cr_r c) = (res, r')" by fastforce
    show ?thesis
    proof (cases res)
      case (Inl e)
      then show ?thesis
        using read_end [of "Suc k" "cr_r c" e r'] rd False k by (simp add: cap_copy.simps [of n c] cap_Read_def capped_stream_def)
    next
      case (Inr b)
      note b = read_all [OF rd [unfolded Inr]]
      let ?c = "c\<lparr>cr_r := r', cr_remaining := cr_remaining c - int (length b)\<rparr>"
      have s: "cap_Read (Suc n) c = (Inr b, ?c)" using rd Inr False k by (simp add: cap_Read_def)
      have "cap_copy n ?c = capped_stream (cr_remaining ?c) (cr_r ?c)"
        using b k(2) by (intro 1(1) [OF s [symmetric] refl]) auto
      moreover have "nat (cr_remaining c) = length b + nat (cr_remaining c - int (length b))" using b k(2) by linarith
      ultimately show ?thesis using b by (auto simp: cap_copy_step [OF s] capped_stream_def)
    qed
  qed
qed

subsection \<open>Entries of an archive\<close>

text \<open>The flags of Go's tar package: hard link 1, symbolic link 2, character and block device 3 and 4, FIFO 6.\<close>

record tar_header =
  hdr_Name :: string
  hdr_Typeflag :: char
  hdr_Linkname :: string

datatype tar_error =
    EmptyName | AbsoluteName | NulInName | ParentTraversal | LinkEntry | SpecialEntry
  | TooLarge | SpoolFailed | ArchiveUnreadable | BadTarHeader

definition checkTarEntry :: "tar_header \<Rightarrow> tar_error option" where
  "checkTarEntry hdr =
     (let name = hdr_Name hdr; cleaned = clean_path name in
      if name = [] then Some EmptyName
      else if prefix ''/'' name then Some AbsoluteName
      else if CHR 0x00 \<in> set name then Some NulInName
      else if cleaned = ''..'' \<or> prefix ''../'' cleaned \<or> sublist ''/../'' cleaned then Some ParentTraversal
      else if hdr_Typeflag hdr \<in> {CHR ''2'', CHR ''1''} then Some LinkEntry
      else if hdr_Typeflag hdr \<in> {CHR ''4'', CHR ''3'', CHR ''6''} then Some SpecialEntry
      else None)"

fun check_entries :: "tar_header list \<Rightarrow> tar_error option" where
  "check_entries [] = None"
| "check_entries (h # hs) = (case checkTarEntry h of Some err \<Rightarrow> Some err | None \<Rightarrow> check_entries hs)"

text \<open>
  \<open>tz_gunzip\<close> is None when the bytes do not begin as gzip does. \<open>tz_untar\<close> gives the headers Next returns on a stream,
  and the error that ends them (EOF for the end of the archive). The last two fields say whether the temporary file
  can be made and written.
\<close>

record tar_env =
  tz_gunzip :: "string \<Rightarrow> reader option"
  tz_untar :: "string \<times> read_end \<Rightarrow> tar_header list \<times> read_end"
  tz_spool_made :: bool
  tz_spool_written :: bool

definition tar_stream :: "tar_env \<Rightarrow> int option \<Rightarrow> string \<Rightarrow> string \<times> read_end" where
  "tar_stream e cap data =
     (case tz_gunzip e data of
        None \<Rightarrow> (data, EOF)
      | Some gz \<Rightarrow> (case cap of Some limit \<Rightarrow> cap_copy 32767 (newCapReader gz limit) | None \<Rightarrow> (rd_all gz, rd_end gz)))"

definition checkSpooledTar :: "tar_env \<Rightarrow> int option \<Rightarrow> string \<Rightarrow> tar_error option" where
  "checkSpooledTar e cap data =
     (let src = tar_stream e cap data; (hdrs, stop) = tz_untar e src in
      case check_entries hdrs of
        Some err \<Rightarrow> Some err
      | None \<Rightarrow>
          if stop = ArchiveTooLarge then Some TooLarge
          else if stop \<noteq> EOF then Some BadTarHeader
          else if tz_gunzip e data \<noteq> None \<and> cap \<noteq> None \<and> snd src = ArchiveTooLarge then Some TooLarge
          else None)"

text \<open>The archive is a file that was staged before, or a stream that is copied into a new file.\<close>

datatype tar_source = Spooled string | Streamed reader

definition fill :: "tar_env \<Rightarrow> int option \<Rightarrow> reader \<Rightarrow> tar_error + string" where
  "fill e cap r =
     (let (data, stop) = (case cap of Some limit \<Rightarrow> cap_copy 32767 (newCapReader r limit) | None \<Rightarrow> (rd_all r, rd_end r))
      in if \<not> tz_spool_written e then Inl SpoolFailed
         else if stop = ArchiveTooLarge then Inl TooLarge
         else if stop \<noteq> EOF then Inl ArchiveUnreadable
         else Inr data)"

definition validateTarStream :: "tar_env \<Rightarrow> tar_source \<Rightarrow> int \<Rightarrow> tar_error + string" where
  "validateTarStream e src m =
     (let cap = restoreCap m in
      case src of
        Spooled data \<Rightarrow>
          if (case cap of Some limit \<Rightarrow> int (length data) > limit | None \<Rightarrow> False) then Inl TooLarge
          else (case checkSpooledTar e cap data of Some err \<Rightarrow> Inl err | None \<Rightarrow> Inr data)
      | Streamed r \<Rightarrow>
          if \<not> tz_spool_made e then Inl SpoolFailed
          else (case fill e cap r of
                  Inl err \<Rightarrow> Inl err
                | Inr data \<Rightarrow> (case checkSpooledTar e cap data of Some err \<Rightarrow> Inl err | None \<Rightarrow> Inr data)))"

subsection \<open>Names that stay inside\<close>

lemma dotdot_stays: "''..'' \<in> set st \<Longrightarrow> ''..'' \<in> set (foldl (clean_step False) st cs)"
proof (induction cs arbitrary: st)
  case (Cons c cs)
  have "''..'' \<in> set (clean_step False st c)" using Cons.prems by (cases st) auto
  with Cons.IH show ?case by simp
qed simp

lemma dotdot_last:
  "(''..'' \<in> set st \<longrightarrow> last st = ''..'') \<Longrightarrow>
     ''..'' \<in> set (foldl (clean_step False) st cs) \<longrightarrow> last (foldl (clean_step False) st cs) = ''..''"
proof (induction cs arbitrary: st)
  case (Cons c cs)
  have "''..'' \<in> set (clean_step False st c) \<longrightarrow> last (clean_step False st c) = ''..''"
    using Cons.prems by (cases st) auto
  with Cons.IH show ?case by simp
qed simp

lemma clean_step_below:
  "''..'' \<notin> set (foldl (clean_step False) us cs) \<Longrightarrow>
     foldl (clean_step True) (us @ st) cs = foldl (clean_step False) us cs @ st"
proof (induction cs arbitrary: us)
  case (Cons c cs)
  have no: "''..'' \<notin> set (clean_step False us c)"
    using Cons.prems dotdot_stays [of "clean_step False us c" cs] by (simp del: clean_step.simps) blast
  then have "clean_step True (us @ st) c = clean_step False us c @ st" by (cases us) auto
  with Cons show ?case by (simp del: clean_step.simps)
qed simp

lemma no_escape:
  assumes "name \<noteq> []" "\<not> is_abs name" "clean_path name \<noteq> ''..''" "\<not> prefix ''../'' (clean_path name)"
  shows "''..'' \<notin> set (foldl (clean_step False) [] (split_on CHR ''/'' name))" (is "_ \<notin> set ?us")
proof
  assume d: "''..'' \<in> set ?us"
  then have "last ?us = ''..''" using dotdot_last [of "[]"] by simp
  then obtain vs where us: "?us = vs @ [''..'']" using d by (metis append_butlast_last_id empty_iff list.set(1))
  then have "clean_path name = join_with ''/'' (''..'' # rev vs)"
    using assms(1,2) by (cases "rev vs") (simp_all add: clean_path_def clean_elems_def)
  then show False using assms(3,4) by (cases "rev vs") (simp_all add: prefix_def)
qed

lemma joined_below:
  assumes "\<forall>c \<in> set cs. good_elem c" "name \<noteq> []" "\<not> is_abs name" "clean_path name \<noteq> ''..''" "\<not> prefix ''../'' (clean_path name)"
  obtains ds where "join_path [abs_of cs, name] = abs_of (cs @ ds)" "\<forall>d \<in> set ds. good_elem d"
proof -
  let ?us = "foldl (clean_step False) [] (split_on CHR ''/'' name)"
  have "clean_elems True (abs_of cs @ CHR ''/'' # name) = cs @ rev ?us"
    using clean_step_below [OF no_escape [OF assms(2-5)], of "rev cs"]
    by (simp add: clean_elems_join clean_elems_abs_of [OF assms(1)])
  moreover have "is_abs (abs_of cs @ CHR ''/'' # name)" by (simp add: is_abs_def abs_of_def)
  ultimately have j: "join_path [abs_of cs, name] = abs_of (cs @ rev ?us)"
    by (simp add: join_path_def clean_path_abs abs_of_def)
  have "\<forall>d \<in> set (cs @ rev ?us). good_elem d"
    using clean_elems_good [of "abs_of cs @ CHR ''/'' # name"] \<open>clean_elems True _ = _\<close> by simp
  then show ?thesis using that j by auto
qed

definition stays_below :: "string list \<Rightarrow> string \<Rightarrow> bool" where
  "stays_below cs name \<longleftrightarrow> (\<exists>ds. join_path [abs_of cs, name] = abs_of (cs @ ds) \<and> (\<forall>d \<in> set ds. good_elem d))"

lemma checkTarEntry_None:
  assumes "checkTarEntry h = None"
  shows "hdr_Name h \<noteq> []" "\<not> is_abs (hdr_Name h)" "CHR 0x00 \<notin> set (hdr_Name h)"
    "clean_path (hdr_Name h) \<noteq> ''..''" "\<not> prefix ''../'' (clean_path (hdr_Name h))"
    "hdr_Typeflag h \<notin> {CHR ''1'', CHR ''2'', CHR ''3'', CHR ''4'', CHR ''6''}"
  using assms by (auto simp: checkTarEntry_def Let_def is_abs_def split: if_splits)

lemma check_entries_None: "check_entries hs = None \<longleftrightarrow> (\<forall>h \<in> set hs. checkTarEntry h = None)"
  by (induction hs) (auto split: option.splits)

text \<open>The whole unpacked stream.\<close>

definition unpacked :: "tar_env \<Rightarrow> string \<Rightarrow> string \<times> read_end" where
  "unpacked e data = tar_stream e None data"

lemma checkSpooledTar_None:
  assumes "checkSpooledTar e cap data = None" "cap = restoreCap m"
    "\<And>limit. cap = Some limit \<Longrightarrow> int (length data) \<le> limit"
  shows "check_entries (fst (tz_untar e (unpacked e data))) = None"
    "snd (tz_untar e (unpacked e data)) = EOF"
    "\<And>limit. cap = Some limit \<Longrightarrow> int (length (fst (unpacked e data))) \<le> limit"
proof -
  let ?src = "tar_stream e cap data"
  obtain hdrs stop where u: "tz_untar e ?src = (hdrs, stop)" by fastforce
  have c: "check_entries hdrs = None" "stop = EOF" "\<not> (tz_gunzip e data \<noteq> None \<and> cap \<noteq> None \<and> snd ?src = ArchiveTooLarge)"
    using assms(1) u by (auto simp: checkSpooledTar_def Let_def split: option.splits if_splits)
  have same: "?src = unpacked e data \<and> (\<forall>limit. cap = Some limit \<longrightarrow> int (length (fst (unpacked e data))) \<le> limit)"
  proof (cases "tz_gunzip e data")
    case None
    then show ?thesis using assms(3) by (simp add: unpacked_def tar_stream_def)
  next
    case (Some gz)
    show ?thesis
    proof (cases cap)
      case None
      then show ?thesis by (simp add: unpacked_def)
    next
      case (Some limit)
      then have "0 \<le> limit" using assms(2) by (auto simp: restoreCap_def defaultMaxDecompressed_def split: if_splits)
      then have "?src = capped_stream limit gz"
        using \<open>tz_gunzip e data = Some gz\<close> Some cap_copy_capped [of "newCapReader gz limit"]
        by (simp add: tar_stream_def newCapReader_def)
      moreover have "snd ?src \<noteq> ArchiveTooLarge" using c(3) Some \<open>tz_gunzip e data = Some gz\<close> by simp
      ultimately show ?thesis using Some \<open>tz_gunzip e data = Some gz\<close>
        by (auto simp: capped_stream_def unpacked_def tar_stream_def split: if_splits)
    qed
  qed
  show "check_entries (fst (tz_untar e (unpacked e data))) = None" "snd (tz_untar e (unpacked e data)) = EOF"
      "\<And>limit. cap = Some limit \<Longrightarrow> int (length (fst (unpacked e data))) \<le> limit"
    using same c u by auto
qed

definition source_bytes :: "tar_source \<Rightarrow> string" where
  "source_bytes src = (case src of Spooled data \<Rightarrow> data | Streamed r \<Rightarrow> rd_all r)"

lemma fill_Inr:
  assumes "fill e (restoreCap m) r = Inr data"
  shows "data = rd_all r" "\<And>limit. restoreCap m = Some limit \<Longrightarrow> int (length data) \<le> limit"
proof -
  have "data = rd_all r \<and> (\<forall>limit. restoreCap m = Some limit \<longrightarrow> int (length data) \<le> limit)"
  proof (cases "restoreCap m")
    case None
    then show ?thesis using assms by (auto simp: fill_def split: if_splits)
  next
    case (Some limit)
    then have "0 \<le> limit" by (auto simp: restoreCap_def defaultMaxDecompressed_def split: if_splits)
    then have "cap_copy 32767 (newCapReader r limit) = capped_stream limit r"
      using cap_copy_capped [of "newCapReader r limit"] by (simp add: newCapReader_def)
    then show ?thesis using assms Some by (auto simp: fill_def capped_stream_def split: if_splits)
  qed
  then show "data = rd_all r" "\<And>limit. restoreCap m = Some limit \<Longrightarrow> int (length data) \<le> limit" by auto
qed

lemma fill_whole:
  assumes "rd_end r = EOF" "tz_spool_written e" "\<forall>limit. restoreCap m = Some limit \<longrightarrow> int (length (rd_all r)) \<le> limit"
  shows "fill e (restoreCap m) r = Inr (rd_all r)"
proof (cases "restoreCap m")
  case (Some limit)
  then have "0 \<le> limit" by (auto simp: restoreCap_def defaultMaxDecompressed_def split: if_splits)
  then have "cap_copy 32767 (newCapReader r limit) = capped_stream limit r"
    using cap_copy_capped [of "newCapReader r limit"] by (simp add: newCapReader_def)
  then show ?thesis using assms Some by (simp add: fill_def capped_stream_def)
qed (use assms in \<open>simp add: fill_def\<close>)

lemma validateTarStream_Inr:
  assumes "validateTarStream e src m = Inr out"
  shows "out = source_bytes src" "checkSpooledTar e (restoreCap m) out = None"
    "\<And>limit. restoreCap m = Some limit \<Longrightarrow> int (length out) \<le> limit"
  using assms fill_Inr [of e m]
  by (auto simp: validateTarStream_def source_bytes_def Let_def split: tar_source.splits option.splits sum.splits if_splits)

lemma accepted_archive:
  assumes "validateTarStream e src m = Inr out"
  shows "out = source_bytes src"
    and "\<forall>limit. restoreCap m = Some limit \<longrightarrow> int (length out) \<le> limit \<and> int (length (fst (unpacked e out))) \<le> limit"
    and "snd (tz_untar e (unpacked e out)) = EOF"
    and "\<forall>h \<in> set (fst (tz_untar e (unpacked e out))).
           hdr_Typeflag h \<notin> {CHR ''1'', CHR ''2'', CHR ''3'', CHR ''4'', CHR ''6''} \<and>
           (\<forall>cs. (\<forall>c \<in> set cs. good_elem c) \<longrightarrow> stays_below cs (hdr_Name h))"
proof -
  note v = validateTarStream_Inr [OF assms]
  note c = checkSpooledTar_None [OF v(2) refl v(3)]
  show "out = source_bytes src" by (rule v(1))
  show "\<forall>limit. restoreCap m = Some limit \<longrightarrow> int (length out) \<le> limit \<and> int (length (fst (unpacked e out))) \<le> limit"
    using v(3) c(3) by blast
  show "snd (tz_untar e (unpacked e out)) = EOF" by (rule c(2))
  show "\<forall>h \<in> set (fst (tz_untar e (unpacked e out))).
           hdr_Typeflag h \<notin> {CHR ''1'', CHR ''2'', CHR ''3'', CHR ''4'', CHR ''6''} \<and>
           (\<forall>cs. (\<forall>c \<in> set cs. good_elem c) \<longrightarrow> stays_below cs (hdr_Name h))"
  proof
    fix h assume "h \<in> set (fst (tz_untar e (unpacked e out)))"
    then have "checkTarEntry h = None" using c(1) by (simp add: check_entries_None)
    note h = checkTarEntry_None [OF this]
    then show "hdr_Typeflag h \<notin> {CHR ''1'', CHR ''2'', CHR ''3'', CHR ''4'', CHR ''6''} \<and>
           (\<forall>cs. (\<forall>c \<in> set cs. good_elem c) \<longrightarrow> stays_below cs (hdr_Name h))"
      using joined_below [OF _ h(1,2,4,5)] unfolding stays_below_def by blast
  qed
qed

text \<open>
  Property C11. An archive that passes the check before a restore is handed on unchanged, byte for byte; neither it
  nor what it unpacks to is larger than the cap; it is read to its end; and whatever folder it is unpacked in, no
  entry is a link or a device, and every entry lands below that folder.
\<close>

theorem accepted_tar_confined:
  assumes "validateTarStream e src m = Inr out"
  shows "out = source_bytes src \<and>
    (\<forall>limit. restoreCap m = Some limit \<longrightarrow> int (length out) \<le> limit \<and> int (length (fst (unpacked e out))) \<le> limit) \<and>
    snd (tz_untar e (unpacked e out)) = EOF \<and>
    (\<forall>h \<in> set (fst (tz_untar e (unpacked e out))).
       hdr_Typeflag h \<notin> {CHR ''1'', CHR ''2'', CHR ''3'', CHR ''4'', CHR ''6''} \<and>
       (\<forall>cs. (\<forall>c \<in> set cs. good_elem c) \<longrightarrow> stays_below cs (hdr_Name h)))"
  using accepted_archive [OF assms] by blast

subsection \<open>Paths in a container\<close>

text \<open>UTF-8, as Go's decoder accepts it: shortest forms only, no surrogates.\<close>

definition continuation :: "nat \<Rightarrow> bool" where
  "continuation b \<longleftrightarrow> 0x80 \<le> b \<and> b \<le> 0xBF"

fun utf8_runes :: "nat list \<Rightarrow> nat list option" where
  "utf8_runes [] = Some []"
| "utf8_runes (b # bs) =
     (if b < 0x80 then map_option ((#) b) (utf8_runes bs)
      else if 0xC2 \<le> b \<and> b \<le> 0xDF then
        (case bs of
           c # cs \<Rightarrow> if continuation c then map_option ((#) ((b - 0xC0) * 64 + (c - 0x80))) (utf8_runes cs) else None
         | [] \<Rightarrow> None)
      else if 0xE0 \<le> b \<and> b \<le> 0xEF then
        (case bs of
           c # d # ds \<Rightarrow>
             if continuation c \<and> continuation d \<and> (b = 0xE0 \<longrightarrow> 0xA0 \<le> c) \<and> (b = 0xED \<longrightarrow> c \<le> 0x9F)
             then map_option ((#) (((b - 0xE0) * 64 + (c - 0x80)) * 64 + (d - 0x80))) (utf8_runes ds) else None
         | _ \<Rightarrow> None)
      else if 0xF0 \<le> b \<and> b \<le> 0xF4 then
        (case bs of
           c # d # e # es \<Rightarrow>
             if continuation c \<and> continuation d \<and> continuation e \<and> (b = 0xF0 \<longrightarrow> 0x90 \<le> c) \<and> (b = 0xF4 \<longrightarrow> c \<le> 0x8F)
             then map_option ((#) ((((b - 0xF0) * 64 + (c - 0x80)) * 64 + (d - 0x80)) * 64 + (e - 0x80))) (utf8_runes es) else None
         | _ \<Rightarrow> None)
      else None)"

definition is_control :: "nat \<Rightarrow> bool" where
  "is_control r \<longleftrightarrow> r < 0x20 \<or> (0x7F \<le> r \<and> r < 0xA0)"

datatype path_error =
    PathEmpty | PathNotUTF8 | PathControl | PathNotAbsolute | PathIsRoot | PathUnclean | PathDash
  | PathQuotes | PathNotAFile

definition ValidatePath :: "string \<Rightarrow> path_error option" where
  "ValidatePath p =
     (if p = [] then Some PathEmpty
      else case utf8_runes (map of_char p) of
        None \<Rightarrow> Some PathNotUTF8
      | Some rs \<Rightarrow>
          if list_ex is_control rs then Some PathControl
          else if \<not> is_abs p then Some PathNotAbsolute
          else if p = ''/'' then Some PathIsRoot
          else if clean_path p \<noteq> drop_end_while (\<lambda>c. c = CHR ''/'') p then Some PathUnclean
          else if list_ex (prefix ''-'') (split_on CHR ''/'' p) then Some PathDash
          else None)"

definition sqlitePathForbidden :: string where
  "sqlitePathForbidden = [CHR 0x27, CHR 0x22, CHR 0x5C, CHR 0x60, CHR ''$'']"

definition ValidateSQLitePath :: "string \<Rightarrow> path_error option" where
  "ValidateSQLitePath p =
     (case ValidatePath p of
        Some err \<Rightarrow> Some err
      | None \<Rightarrow>
          if contains_any p sqlitePathForbidden then Some PathQuotes
          else if suffix ''/'' p then Some PathNotAFile
          else if base_path p \<in> {''/'', ''.'', ''..''} then Some PathNotAFile
          else None)"

fun ValidatePaths :: "string \<Rightarrow> string list \<Rightarrow> path_error option" where
  "ValidatePaths strategy [] = None"
| "ValidatePaths strategy (p # ps) =
     (case (if strategy = ''sqlite'' then ValidateSQLitePath p else ValidatePath p) of
        Some err \<Rightarrow> Some err
      | None \<Rightarrow> ValidatePaths strategy ps)"

text \<open>A stored value is a JSON list or, when the JSON decoder (an argument) refuses it, a list with commas.\<close>

definition parsePaths :: "(string \<Rightarrow> string list option) \<Rightarrow> string \<Rightarrow> string list" where
  "parsePaths json_strings raw =
     (let s = trim_space raw in
      if s = [] \<or> s = ''null'' then []
      else case json_strings s of
             Some ps \<Rightarrow> ps
           | None \<Rightarrow> filter (\<lambda>p. p \<noteq> []) (map trim_space (split_on CHR '','' s)))"

definition ValidatePathsConfig :: "(string \<Rightarrow> string list option) \<Rightarrow> string \<Rightarrow> string \<Rightarrow> path_error option" where
  "ValidatePathsConfig json_strings strategy raw = ValidatePaths strategy (parsePaths json_strings raw)"

definition validateRunPaths :: "string \<Rightarrow> string list \<Rightarrow> path_error option" where
  "validateRunPaths strategy paths =
     (if strategy \<noteq> ''volume'' \<and> strategy \<noteq> ''sqlite'' then None else ValidatePaths strategy paths)"

text \<open>An empty schedule is none; any other is for the cron parser (an argument) to accept.\<close>

definition ValidateCron :: "(string \<Rightarrow> bool) \<Rightarrow> string \<Rightarrow> bool" where
  "ValidateCron cron_ok expr \<longleftrightarrow> trim_space expr = [] \<or> cron_ok expr"

text \<open>The commands that read the files.\<close>

definition tarCreateArgs :: "string \<Rightarrow> string list \<Rightarrow> string list" where
  "tarCreateArgs container paths =
     [''exec'', container, ''tar'', ''-czf'', ''-'', ''-C'', ''/'', ''--''] @ map (\<lambda>p. trim_prefix p ''/'') paths"

definition sqliteTmpPath :: "string \<Rightarrow> string" where
  "sqliteTmpPath dbPath = ''/tmp/sd-backup-'' @ base_path dbPath"

definition sqliteBackupDotCmd :: "string \<Rightarrow> string" where
  "sqliteBackupDotCmd tmpPath = ''.backup '' @ [CHR 0x27] @ tmpPath @ [CHR 0x27]"

lemma set_split_on: "w \<in> set (split_on c s) \<Longrightarrow> set w \<subseteq> set s"
  by (induction s arbitrary: w) (fastforce split: list.splits if_splits)+

lemma no_nul_runes: "utf8_runes bs = Some rs \<Longrightarrow> 0 \<in> set bs \<Longrightarrow> 0 \<in> set rs"
proof (induction bs arbitrary: rs rule: utf8_runes.induct)
  case (2 b bs)
  have nz: "c \<noteq> 0" if "continuation c" for c using that by (simp add: continuation_def)
  consider "b < 0x80" | "0xC2 \<le> b \<and> b \<le> 0xDF" | "0xE0 \<le> b \<and> b \<le> 0xEF" | "0xF0 \<le> b \<and> b \<le> 0xF4"
    using 2(5) by (auto split: if_splits)
  then show ?case
  proof cases
    case 1
    then show ?thesis using 2(1,5,6) by auto
  next
    case b: 2
    then show ?thesis using 2(2,5,6) nz by (cases bs) (auto split: if_splits)
  next
    case b: 3
    then show ?thesis
    proof (cases bs)
      case (Cons c cs)
      note c = Cons
      show ?thesis
      proof (cases cs)
        case (Cons d ds)
        then show ?thesis using c 2(3,5,6) b nz by (auto split: if_splits)
      qed (use c 2(5) b in auto)
    qed (use 2(5) b in auto)
  next
    case b: 4
    then show ?thesis
    proof (cases bs)
      case (Cons c cs)
      note c = Cons
      show ?thesis
      proof (cases cs)
        case (Cons d ds)
        note d = Cons
        show ?thesis
        proof (cases ds)
          case (Cons e es)
          then show ?thesis using c d 2(4,5,6) b nz by (auto split: if_splits)
        qed (use c d 2(5) b in auto)
      qed (use c 2(5) b in auto)
    qed (use 2(5) b in auto)
  qed
qed simp

lemma drop_end_while_split: "\<exists>t. s = drop_end_while P s @ t \<and> (\<forall>x \<in> set t. P x)"
proof -
  have "rev s = takeWhile P (rev s) @ dropWhile P (rev s)" by simp
  then have "s = drop_end_while P s @ rev (takeWhile P (rev s))" unfolding drop_end_while_def by (metis rev_append rev_rev_ident)
  then show ?thesis by (metis set_rev set_takeWhileD)
qed

lemma drop_end_while_last: "drop_end_while P s \<noteq> [] \<Longrightarrow> \<not> P (last (drop_end_while P s))"
  unfolding drop_end_while_def by (simp add: last_rev hd_dropWhile)

lemma ValidatePath_None:
  assumes "ValidatePath p = None"
  obtains cs k where "cs \<noteq> []" "\<forall>c \<in> set cs. good_elem c" "p = abs_of cs @ replicate k CHR ''/''"
    "clean_path p = abs_of cs" "\<forall>c \<in> set cs. \<not> prefix ''-'' c" "CHR 0x00 \<notin> set p"
proof -
  have p: "p \<noteq> []" "is_abs p" "p \<noteq> ''/''" "clean_path p = drop_end_while (\<lambda>c. c = CHR ''/'') p"
      "\<not> list_ex (prefix ''-'') (split_on CHR ''/'' p)" and
    rs: "\<exists>rs. utf8_runes (map of_char p) = Some rs \<and> \<not> list_ex is_control rs"
    using assms by (auto simp: ValidatePath_def split: option.splits if_splits)
  have nul: "CHR 0x00 \<notin> set p"
  proof
    assume "CHR 0x00 \<in> set p"
    then have "(0::nat) \<in> set (map of_char p)" by force
    then show False using rs no_nul_runes [of "map of_char p"] by (fastforce simp: list_ex_iff is_control_def)
  qed
  define cs where "cs = clean_elems True p"
  have good: "\<forall>c \<in> set cs. good_elem c" by (simp add: cs_def clean_elems_good)
  have clean: "clean_path p = abs_of cs" by (simp add: cs_def clean_path_abs p(2))
  obtain t where t: "p = abs_of cs @ t" "\<forall>x \<in> set t. x = CHR ''/''"
    using drop_end_while_split [of p "\<lambda>c. c = CHR ''/''"] p(4) clean by auto
  then have rep: "p = abs_of cs @ replicate (length t) CHR ''/''" by (metis replicate_length_same)
  have ne: "cs \<noteq> []"
  proof
    assume "cs = []"
    then have "drop_end_while (\<lambda>c. c = CHR ''/'') p = ''/''" using p(4) clean by (simp add: abs_of_def)
    then show False using drop_end_while_last [of "\<lambda>c. c = CHR ''/''" p] by simp
  qed
  have "set cs \<subseteq> set (split_on CHR ''/'' p)"
  proof -
    have "split_on CHR ''/'' (abs_of cs) = [] # cs"
      using good ne split_join [of cs "CHR ''/''"] by (simp add: abs_of_def good_elem_def)
    moreover have "\<exists>r. split_on CHR ''/'' p = split_on CHR ''/'' (abs_of cs) @ r"
    proof (cases t)
      case (Cons x xs)
      then show ?thesis using t split_on_sep [of "CHR ''/''" "abs_of cs" xs] by auto
    qed (use t in auto)
    ultimately show ?thesis by auto
  qed
  then have "\<forall>c \<in> set cs. \<not> prefix ''-'' c" using p(5) by (auto simp: list_ex_iff)
  then show ?thesis using that ne good rep clean nul by blast
qed

text \<open>Relative paths made of good elements, with slashes after them.\<close>

lemma split_good: "\<forall>x \<in> set xs. good_elem x \<Longrightarrow> xs \<noteq> [] \<Longrightarrow> split_on CHR ''/'' (join_with ''/'' xs) = xs"
  using split_join [of xs "CHR ''/''"] by (simp add: good_elem_def)

lemma split_slashes: "split_on CHR ''/'' (s @ replicate k CHR ''/'') = split_on CHR ''/'' s @ replicate k []"
proof (induction k arbitrary: s)
  case (Suc k)
  have "split_on CHR ''/'' (s @ CHR ''/'' # replicate k CHR ''/'') = split_on CHR ''/'' s @ split_on CHR ''/'' ([] @ replicate k CHR ''/'')"
    by (simp add: split_on_sep)
  also have "split_on CHR ''/'' ([] @ replicate k CHR ''/'') = [] # replicate k []" using Suc [of "[]"] by simp
  finally show ?case by simp
qed simp

lemma foldl_clean_good: "\<forall>x \<in> set xs. good_elem x \<Longrightarrow> foldl (clean_step rooted) st xs = rev xs @ st"
  by (induction xs arbitrary: st) (auto simp: good_elem_def)

lemma foldl_clean_empty: "foldl (clean_step rooted) st (replicate k []) = st"
  by (induction k) auto

lemma rel_good:
  assumes "\<forall>x \<in> set xs. good_elem x" "xs \<noteq> []"
  shows "\<not> is_abs (join_with ''/'' xs @ t)" "join_with ''/'' xs \<noteq> []"
    "clean_path (join_with ''/'' xs @ replicate k CHR ''/'') = join_with ''/'' xs"
    "clean_elems True (CHR ''/'' # CHR ''/'' # join_with ''/'' xs @ replicate k CHR ''/'') = xs"
    "\<forall>x \<in> set xs. \<not> prefix ''-'' x \<Longrightarrow> \<not> prefix ''-'' (join_with ''/'' xs @ t)"
proof -
  obtain c w ys where xs: "xs = (c # w) # ys" "c \<noteq> CHR ''/''"
    using assms by (cases xs; cases "hd xs") (auto simp: good_elem_def)
  obtain r where j: "join_with ''/'' xs = c # r" using xs(1) by (cases ys) auto
  show na: "\<not> is_abs (join_with ''/'' xs @ t)" for t using j xs(2) by (simp add: is_abs_def)
  show ne: "join_with ''/'' xs \<noteq> []" using j by simp
  have sp: "split_on CHR ''/'' (join_with ''/'' xs @ replicate k CHR ''/'') = xs @ replicate k []" for k
    by (simp add: split_slashes split_good [OF assms])
  have "clean_elems False (join_with ''/'' xs @ replicate k CHR ''/'') = xs"
    unfolding clean_elems_def sp using foldl_clean_good [OF assms(1)] foldl_clean_empty by simp
  then show "clean_path (join_with ''/'' xs @ replicate k CHR ''/'') = join_with ''/'' xs"
    using na [of "replicate k CHR ''/''"] ne by (simp add: clean_path_def)
  have "split_on CHR ''/'' (CHR ''/'' # CHR ''/'' # join_with ''/'' xs @ replicate k CHR ''/'') = [[], []] @ xs @ replicate k []"
    using sp [of k] split_on_sep [of "CHR ''/''" "[]"] by simp
  then show "clean_elems True (CHR ''/'' # CHR ''/'' # join_with ''/'' xs @ replicate k CHR ''/'') = xs"
    unfolding clean_elems_def using foldl_clean_good [OF assms(1)] foldl_clean_empty by simp
  show "\<not> prefix ''-'' (join_with ''/'' xs @ t)" if "\<forall>x \<in> set xs. \<not> prefix ''-'' x"
    using that j xs by simp
qed

lemma no_dotdot_inside:
  assumes "\<forall>x \<in> set xs. good_elem x" "xs \<noteq> []"
  shows "join_with ''/'' xs \<noteq> ''..''" "\<not> prefix ''../'' (join_with ''/'' xs)" "\<not> sublist ''/../'' (join_with ''/'' xs)"
proof -
  have no: "''..'' \<notin> set (split_on CHR ''/'' (join_with ''/'' xs))"
    unfolding split_good [OF assms] using assms(1) by (auto simp: good_elem_def)
  then show "join_with ''/'' xs \<noteq> ''..''" by auto
  show "\<not> prefix ''../'' (join_with ''/'' xs)"
    using no split_on_sep [of "CHR ''/''" "''..''"] by (auto simp: prefix_def)
  show "\<not> sublist ''/../'' (join_with ''/'' xs)"
  proof
    assume "sublist ''/../'' (join_with ''/'' xs)"
    then obtain a b where "join_with ''/'' xs = a @ CHR ''/'' # ''..'' @ CHR ''/'' # b" by (auto simp: sublist_def)
    then have "''..'' \<in> set (split_on CHR ''/'' (join_with ''/'' xs))"
      using split_on_sep [of "CHR ''/''" a "''..'' @ CHR ''/'' # b"] split_on_sep [of "CHR ''/''" "''..''" b] by simp
    with no show False ..
  qed
qed

lemma relative_entry_passes:
  assumes "\<forall>x \<in> set xs. good_elem x \<and> CHR 0x00 \<notin> set x" "xs \<noteq> []" "flag \<in> {CHR ''0'', CHR ''5''}"
  shows "checkTarEntry \<lparr>hdr_Name = join_with ''/'' xs @ replicate k CHR ''/'', hdr_Typeflag = flag, hdr_Linkname = l\<rparr> = None"
proof -
  have g: "\<forall>x \<in> set xs. good_elem x" using assms(1) by blast
  have "CHR 0x00 \<notin> set (join_with ''/'' xs)"
    using assms(1) by (induction "''/''" xs rule: join_with.induct) auto
  moreover have "\<not> prefix ''/'' (join_with ''/'' xs @ replicate k CHR ''/'')"
    using rel_good(1) [OF g assms(2)] by (simp add: is_abs_def)
  ultimately show ?thesis
    using assms(3) rel_good(2,3) [OF g assms(2)] no_dotdot_inside [OF g assms(2)] by (auto simp: checkTarEntry_def Let_def)
qed

text \<open>
  A path that is accepted for a backup becomes an operand of tar that is relative and cannot be read as
  a flag, and what tar then stores for it, the path itself or a file or folder below it, passes the check of a
  restore and is unpacked where it came from. A symbolic link below it does not pass
  (\<open>own_archive_with_link_refused\<close>).
\<close>

theorem backup_paths_restorable:
  assumes "ValidatePath p = None" "\<forall>r \<in> set rs. good_elem r \<and> CHR 0x00 \<notin> set r" "flag \<in> {CHR ''0'', CHR ''5''}"
  defines "operand \<equiv> trim_prefix p ''/''"
  defines "entry \<equiv> (if rs = [] then operand else join_with ''/'' (clean_path operand # rs))"
  shows "last (tarCreateArgs container (ps @ [p])) = operand" "\<not> is_abs operand" "\<not> prefix ''-'' operand"
    "checkTarEntry \<lparr>hdr_Name = entry, hdr_Typeflag = flag, hdr_Linkname = []\<rparr> = None"
    "join_path [''/'', entry] = clean_path (join_with ''/'' (p # rs))"
proof -
  obtain cs k where cs: "cs \<noteq> []" "\<forall>c \<in> set cs. good_elem c" "p = abs_of cs @ replicate k CHR ''/''"
      "clean_path p = abs_of cs" "\<forall>c \<in> set cs. \<not> prefix ''-'' c" "CHR 0x00 \<notin> set p"
    using ValidatePath_None [OF assms(1)] by blast
  have op: "operand = join_with ''/'' cs @ replicate k CHR ''/''"
    by (simp add: operand_def cs(3) abs_of_def trim_prefix_def)
  show "last (tarCreateArgs container (ps @ [p])) = operand" by (simp add: tarCreateArgs_def operand_def)
  show "\<not> is_abs operand" "\<not> prefix ''-'' operand"
    unfolding op using rel_good(1,5) [OF cs(2,1)] cs(5) by blast+
  have nul: "\<forall>c \<in> set cs. CHR 0x00 \<notin> set c"
  proof
    fix c assume "c \<in> set cs"
    then have "c \<in> set (split_on CHR ''/'' (abs_of cs))" using cs(1,2) split_join [of cs "CHR ''/''"] by (simp add: abs_of_def good_elem_def)
    then have "set c \<subseteq> set (abs_of cs)" by (rule set_split_on)
    then show "CHR 0x00 \<notin> set c" using cs(3,6) by auto
  qed
  have entry: "entry = join_with ''/'' (cs @ rs) @ replicate (if rs = [] then k else 0) CHR ''/''"
    using rel_good(3) [OF cs(2,1), of k] cs(1) by (cases rs) (simp_all add: entry_def op join_with_append)
  have g: "\<forall>x \<in> set (cs @ rs). good_elem x \<and> CHR 0x00 \<notin> set x" "cs @ rs \<noteq> []" "\<forall>x \<in> set (cs @ rs). good_elem x"
    using cs(1,2) nul assms(2) by auto
  show "checkTarEntry \<lparr>hdr_Name = entry, hdr_Typeflag = flag, hdr_Linkname = []\<rparr> = None"
    unfolding entry by (rule relative_entry_passes [OF g(1,2) assms(3)])
  have "join_path [''/'', entry] = abs_of (cs @ rs)"
    using rel_good(4) [OF g(3,2)] unfolding entry by (simp add: join_path_def clean_path_abs is_abs_def)
  moreover have "clean_path (join_with ''/'' (p # rs)) = abs_of (cs @ rs)"
  proof (cases "rs = []")
    case False
    have e: "clean_elems True p = cs" using cs(3,4) clean_elems_good abs_of_inj [of "clean_elems True p" cs] cs(2)
      by (simp add: clean_path_abs is_abs_def abs_of_def)
    have r: "\<forall>r \<in> set rs. good_elem r" using assms(2) by blast
    have "clean_elems True (p @ CHR ''/'' # join_with ''/'' rs) = cs @ rs"
      using foldl_clean_good [OF r] by (simp add: clean_elems_join e split_good [OF r False])
    moreover have "is_abs (p @ CHR ''/'' # join_with ''/'' rs)" by (simp add: cs(3) is_abs_def abs_of_def)
    ultimately show ?thesis using False by (cases rs) (simp_all add: clean_path_abs)
  qed (simp add: cs(4))
  ultimately show "join_path [''/'', entry] = clean_path (join_with ''/'' (p # rs))" by simp
qed

text \<open>What the comments and the operations guide say differently.\<close>

lemma unclean_names_accepted:
  "checkTarEntry \<lparr>hdr_Name = ''a/../b'', hdr_Typeflag = CHR ''0'', hdr_Linkname = []\<rparr> = None"
  "checkTarEntry \<lparr>hdr_Name = ''./a//b'', hdr_Typeflag = CHR ''0'', hdr_Linkname = []\<rparr> = None"
  by code_simp+

lemma double_slash_end_accepted: "ValidatePath ''/data//'' = None"
  by code_simp

lemma own_archive_with_link_refused:
  "checkTarEntry \<lparr>hdr_Name = ''data/current'', hdr_Typeflag = CHR ''2'', hdr_Linkname = ''v1''\<rparr> = Some LinkEntry"
  by code_simp

definition tar_demo :: tar_env where
  "tar_demo = \<lparr>tz_gunzip = (\<lambda>_. None),
     tz_untar = (\<lambda>_. ([\<lparr>hdr_Name = ''data/../srv//x'', hdr_Typeflag = CHR ''0'', hdr_Linkname = []\<rparr>], EOF)),
     tz_spool_made = True, tz_spool_written = True\<rparr>"

lemma tar_demo_accepts: "validateTarStream tar_demo (Streamed \<lparr>rd_pieces = [''ta'', ''r''], rd_end = EOF\<rparr>) 3 = Inr ''tar''"
proof -
  have c: "cap_copy 32767 (newCapReader \<lparr>rd_pieces = [''ta'', ''r''], rd_end = EOF\<rparr> 3) = (''tar'', EOF)"
    by (simp add: cap_copy_capped newCapReader_def capped_stream_def rd_all_def)
  have h: "checkTarEntry \<lparr>hdr_Name = ''data/../srv//x'', hdr_Typeflag = CHR ''0'', hdr_Linkname = []\<rparr> = None" by code_simp
  show ?thesis
    by (simp add: validateTarStream_def fill_def checkSpooledTar_def tar_stream_def restoreCap_def c h tar_demo_def)
qed

theorem accepted_tar_confined_witness:
  "stays_below [''var'', ''lib''] ''data/../srv//x'' \<and>
   fst (tz_untar tar_demo (unpacked tar_demo ''tar'')) = [\<lparr>hdr_Name = ''data/../srv//x'', hdr_Typeflag = CHR ''0'', hdr_Linkname = []\<rparr>]"
  using accepted_tar_confined [OF tar_demo_accepts] by (simp add: tar_demo_def good_elem_def)

lemma backup_paths_restorable_witness:
  "checkTarEntry \<lparr>hdr_Name = ''var/lib/data/a.db'', hdr_Typeflag = CHR ''0'', hdr_Linkname = []\<rparr> = None \<and>
   join_path [''/'', ''var/lib/data/a.db''] = ''/var/lib/data/a.db''"
proof -
  have v: "ValidatePath ''/var/lib/data'' = None" by code_simp
  have r: "\<forall>r \<in> set [''a.db'']. good_elem r \<and> CHR 0x00 \<notin> set r" by (simp add: good_elem_def)
  have o: "trim_prefix ''/var/lib/data'' ''/'' = ''var/lib/data''" "clean_path ''var/lib/data'' = ''var/lib/data''"
      "clean_path ''/var/lib/data/a.db'' = ''/var/lib/data/a.db''" by code_simp+
  show ?thesis using backup_paths_restorable(4,5) [OF v r, of "CHR ''0''"] by (simp add: o)
qed

end
