(* ===== verification/BackupHooks.thy ===== *)
theory BackupHooks
  imports TarSafe ComposeModel
begin

text \<open>
  internal/backup/hooks.go and hookexec.go: the commands that run before and after a backup or restore, in the
  containers of the app. The docker command line and the Docker API are parameters that answer from the commands run
  so far; a command's context ends with its timeout, which is part of the call.
\<close>

subsection \<open>Docker\<close>

record container =
  ct_ID :: string
  ct_Names :: "string list"
  ct_Labels :: "(string \<times> string) list"
  ct_State :: string

record docker_call =
  dc_args :: "string list"
  dc_stdin :: string
  dc_timeout :: duration

text \<open>A command does not start, or ends with a status (zero or not) and its output.\<close>

datatype docker_result = NotStarted | Exited bool string

record backup_world =
  bw_calls :: "docker_call list"
  bw_files :: "(string \<times> string) list"

record backup_env =
  be_docker :: "docker_call list \<Rightarrow> docker_call \<Rightarrow> docker_result"
  be_containers :: "docker_call list \<Rightarrow> container list option"
  be_tar :: tar_env
  be_gzip :: "string \<Rightarrow> string"
  be_sha256 :: "string \<Rightarrow> string"
  be_now :: "docker_call list \<Rightarrow> string"
  be_write_fails :: "string \<Rightarrow> bool"

definition run_docker :: "backup_env \<Rightarrow> docker_call \<Rightarrow> backup_world \<Rightarrow> docker_result \<times> backup_world" where
  "run_docker env c w = (be_docker env (bw_calls w) c, w\<lparr>bw_calls := bw_calls w @ [c]\<rparr>)"

fun exited_ok :: "docker_result \<Rightarrow> bool" where
  "exited_ok (Exited ok out) = ok"
| "exited_ok NotStarted = False"

fun output_of :: "docker_result \<Rightarrow> string" where
  "output_of (Exited ok out) = out"
| "output_of NotStarted = []"

datatype backup_error =
    HookNeedsService | ListFailed | NoContainer | CommandFailed | ServiceNotRunning
  | HookNoCommand | HookUnknownType
  | TooManyHooks | HookTypeRefused | HookNoService | HookForeignService | HookTimeoutRefused | HookCommandTooLong
  | HookCommandNul | HookStopsStrategy | HooksNotJSON | HookServiceNotName
  | NoPaths | BadPath path_error | StreamFailed | ArchiveRefused tar_error | GzipRefused
  | BadFileName | TargetFailed | PreHookFailed | ChecksumMismatch | DownloadFailed

subsection \<open>Containers of a service\<close>

definition composeProjectLabel :: string where
  "composeProjectLabel = ''com.docker.compose.project''"

definition composeServiceLabel :: string where
  "composeServiceLabel = ''com.docker.compose.service''"

definition composeOneoffLabel :: string where
  "composeOneoffLabel = ''com.docker.compose.oneoff''"

definition composeNumberLabel :: string where
  "composeNumberLabel = ''com.docker.compose.container-number''"

definition own_container :: "string \<Rightarrow> string \<Rightarrow> container \<Rightarrow> bool" where
  "own_container project service c \<longleftrightarrow>
     label (ct_Labels c) composeProjectLabel = project \<and> label (ct_Labels c) composeServiceLabel = service \<and>
     \<not> equal_fold (label (ct_Labels c) composeOneoffLabel) ''true''"

definition replica_less :: "container \<Rightarrow> container \<Rightarrow> bool" where
  "replica_less a b =
     (let i = fst (atoi (label (ct_Labels a) composeNumberLabel)); j = fst (atoi (label (ct_Labels b) composeNumberLabel))
      in if i \<noteq> j then i < j else ct_ID a < ct_ID b)"

interpretation replicas: go_less replica_less
  by unfold_locales (auto simp: replica_less_def Let_def split: if_splits)

definition serviceContainers ::
  "backup_env \<Rightarrow> string \<Rightarrow> string \<Rightarrow> backup_world \<Rightarrow> backup_error + container list" where
  "serviceContainers env project service w =
     (if project = [] \<or> service = [] then Inl HookNeedsService
      else case be_containers env (bw_calls w) of
        None \<Rightarrow> Inl ListFailed
      | Some list \<Rightarrow>
          let own = filter (own_container project service) list
          in if own = [] then Inl NoContainer else Inr (sort_by replica_less own))"

definition ExecInService ::
  "backup_env \<Rightarrow> duration \<Rightarrow> string \<Rightarrow> string \<Rightarrow> string \<Rightarrow> backup_world \<Rightarrow> backup_error option \<times> backup_world" where
  "ExecInService env timeout project service command w =
     (case serviceContainers env project service w of
        Inl err \<Rightarrow> (Some err, w)
      | Inr ctrs \<Rightarrow>
          (case find (\<lambda>c. ct_State c = ''running'') ctrs of
             None \<Rightarrow> (Some ServiceNotRunning, w)
           | Some c \<Rightarrow>
               (case run_docker env \<lparr>dc_args = [''exec'', ct_ID c, ''sh'', ''-c'', command], dc_stdin = [], dc_timeout = timeout\<rparr> w of
                  (res, w') \<Rightarrow> (if exited_ok res then None else Some CommandFailed, w'))))"

fun run_each :: "backup_env \<Rightarrow> duration \<Rightarrow> string \<Rightarrow> container list \<Rightarrow> backup_world \<Rightarrow> backup_error option \<times> backup_world" where
  "run_each env timeout verb [] w = (None, w)"
| "run_each env timeout verb (c # cs) w =
     (case run_docker env \<lparr>dc_args = [verb, ct_ID c], dc_stdin = [], dc_timeout = timeout\<rparr> w of
        (res, w') \<Rightarrow> if exited_ok res then run_each env timeout verb cs w' else (Some CommandFailed, w'))"

definition eachContainer ::
  "backup_env \<Rightarrow> duration \<Rightarrow> string \<Rightarrow> string \<Rightarrow> string \<Rightarrow> backup_world \<Rightarrow> backup_error option \<times> backup_world" where
  "eachContainer env timeout project service verb w =
     (case serviceContainers env project service w of
        Inl err \<Rightarrow> (Some err, w)
      | Inr ctrs \<Rightarrow> run_each env timeout verb ctrs w)"

definition StopService :: "backup_env \<Rightarrow> duration \<Rightarrow> string \<Rightarrow> string \<Rightarrow> backup_world \<Rightarrow> backup_error option \<times> backup_world" where
  "StopService env timeout project service = eachContainer env timeout project service ''stop''"

definition StartService :: "backup_env \<Rightarrow> duration \<Rightarrow> string \<Rightarrow> string \<Rightarrow> backup_world \<Rightarrow> backup_error option \<times> backup_world" where
  "StartService env timeout project service = eachContainer env timeout project service ''start''"

subsection \<open>Hooks\<close>

record Hook =
  h_Type :: string
  h_Service :: string
  h_Command :: string
  h_Timeout :: int

definition hookTypes :: "string list" where
  "hookTypes = [''stop'', ''start'', ''flush_redis'', ''flush_mysql'', ''exec'']"

definition MaxHooks :: nat where "MaxHooks = 20"
definition MaxHookTimeout :: int where "MaxHookTimeout = 3600"
definition MaxHookCommandLen :: nat where "MaxHookCommandLen = 4096"
definition defaultHookTimeout :: duration where "defaultHookTimeout = 30 * time_second"

definition flush_mysql_cmd :: string where
  "flush_mysql_cmd = ''mysql -u root -e '' @ [CHR 0x27] @ ''FLUSH TABLES WITH READ LOCK; SYSTEM sleep 0; UNLOCK TABLES;'' @ [CHR 0x27]"

definition hook_execute :: "backup_env \<Rightarrow> string \<Rightarrow> Hook \<Rightarrow> backup_world \<Rightarrow> backup_error option \<times> backup_world" where
  "hook_execute env project h w =
     (let timeout = (if h_Timeout h > 0 then h_Timeout h * time_second else defaultHookTimeout) in
      if h_Type h = ''stop'' then StopService env timeout project (h_Service h) w
      else if h_Type h = ''start'' then StartService env timeout project (h_Service h) w
      else if h_Type h = ''flush_redis'' then ExecInService env timeout project (h_Service h) ''redis-cli BGSAVE'' w
      else if h_Type h = ''flush_mysql'' then ExecInService env timeout project (h_Service h) flush_mysql_cmd w
      else if h_Type h = ''exec'' then
        (if h_Command h = [] then (Some HookNoCommand, w) else ExecInService env timeout project (h_Service h) (h_Command h) w)
      else (Some HookUnknownType, w))"

fun RunPre :: "backup_env \<Rightarrow> string \<Rightarrow> Hook list \<Rightarrow> backup_world \<Rightarrow> backup_error option \<times> backup_world" where
  "RunPre env project [] w = (None, w)"
| "RunPre env project (h # hs) w =
     (case hook_execute env project h w of
        (Some err, w') \<Rightarrow> (Some err, w')
      | (None, w') \<Rightarrow> RunPre env project hs w')"

text \<open>The warnings are the hooks that failed and why.\<close>

fun RunPost :: "backup_env \<Rightarrow> string \<Rightarrow> Hook list \<Rightarrow> backup_world \<Rightarrow> (Hook \<times> backup_error) list \<times> backup_world" where
  "RunPost env project [] w = ([], w)"
| "RunPost env project (h # hs) w =
     (case hook_execute env project h w of
        (res, w') \<Rightarrow>
          (case RunPost env project hs w' of
             (ws, w'') \<Rightarrow> ((case res of Some err \<Rightarrow> (h, err) # ws | None \<Rightarrow> ws), w'')))"

text \<open>A stored entry as the JSON decoder reads it; its service may have any JSON shape.\<close>

datatype json_service = ServiceObject | ServiceNull | ServiceString string | ServiceOther

record hook_entry =
  he_Type :: string
  he_Service :: json_service
  he_Command :: string
  he_Timeout :: int

fun parse_entries_hooks :: "hook_entry list \<Rightarrow> backup_error + Hook list \<times> nat" where
  "parse_entries_hooks [] = Inr ([], 0)"
| "parse_entries_hooks (e # es) =
     (let add = (\<lambda>service. case parse_entries_hooks es of
           Inl err \<Rightarrow> Inl err
         | Inr (hs, legacy) \<Rightarrow>
             Inr (\<lparr>h_Type = trim_space (he_Type e), h_Service = trim_space service, h_Command = trim_space (he_Command e),
                   h_Timeout = he_Timeout e\<rparr> # hs, legacy))
      in case he_Service e of
           ServiceObject \<Rightarrow>
             (case parse_entries_hooks es of Inl err \<Rightarrow> Inl err | Inr (hs, legacy) \<Rightarrow> Inr (hs, Suc legacy))
         | ServiceNull \<Rightarrow> add []
         | ServiceString s \<Rightarrow> add s
         | ServiceOther \<Rightarrow> Inl HookServiceNotName)"

definition ParseHooks :: "(string \<Rightarrow> hook_entry list option) \<Rightarrow> string \<Rightarrow> backup_error + Hook list \<times> nat" where
  "ParseHooks json_hooks raw =
     (let s = trim_space raw in
      if s = [] \<or> s = ''null'' then Inr ([], 0)
      else case json_hooks s of None \<Rightarrow> Inl HooksNotJSON | Some es \<Rightarrow> parse_entries_hooks es)"

definition check_hook :: "bool \<Rightarrow> string list option \<Rightarrow> string list \<Rightarrow> Hook \<Rightarrow> backup_error option" where
  "check_hook pre services strategyServices h =
     (if h_Type h \<notin> set hookTypes then Some HookTypeRefused
      else if h_Service h = [] then Some HookNoService
      else if (case services of Some ss \<Rightarrow> h_Service h \<notin> set ss | None \<Rightarrow> False) then Some HookForeignService
      else if h_Timeout h < 0 \<or> h_Timeout h > MaxHookTimeout then Some HookTimeoutRefused
      else if h_Type h = ''exec'' \<and> h_Command h = [] then Some HookNoCommand
      else if length (h_Command h) > MaxHookCommandLen then Some HookCommandTooLong
      else if CHR 0x00 \<in> set (h_Command h) then Some HookCommandNul
      else if pre \<and> h_Type h = ''stop'' \<and> h_Service h \<in> set strategyServices then Some HookStopsStrategy
      else None)"

fun first_error :: "('a \<Rightarrow> 'e option) \<Rightarrow> 'a list \<Rightarrow> 'e option" where
  "first_error f [] = None"
| "first_error f (x # xs) = (case f x of Some err \<Rightarrow> Some err | None \<Rightarrow> first_error f xs)"

definition ValidateHooks :: "bool \<Rightarrow> Hook list \<Rightarrow> string list option \<Rightarrow> string list \<Rightarrow> backup_error option" where
  "ValidateHooks pre hooks services strategyServices =
     (if length hooks > MaxHooks then Some TooManyHooks
      else first_error (check_hook pre services strategyServices) hooks)"

record DetectedService =
  ds_ServiceName :: string
  ds_ContainerName :: string
  ds_Label :: string
  ds_Paths :: "string list"

definition string_less :: "string \<Rightarrow> string \<Rightarrow> bool" where
  "string_less a b \<longleftrightarrow> a < b"

definition CheckHooks ::
  "(string \<Rightarrow> hook_entry list option) \<Rightarrow> string \<Rightarrow> string \<Rightarrow> AppConfig option \<Rightarrow> (AppConfig \<Rightarrow> DetectedService list) option \<Rightarrow>
     backup_error + Hook list \<times> Hook list \<times> nat" where
  "CheckHooks json_hooks rawPre rawPost composeCfg detect =
     (case ParseHooks json_hooks rawPre of
        Inl err \<Rightarrow> Inl err
      | Inr (pre, lp) \<Rightarrow>
          (case ParseHooks json_hooks rawPost of
             Inl err \<Rightarrow> Inl err
           | Inr (post, lq) \<Rightarrow>
               let services = map_option (\<lambda>cfg. sort_by string_less (map sc_name (a_services cfg))) composeCfg;
                   strategyServices =
                     (case (composeCfg, detect) of (Some cfg, Some det) \<Rightarrow> map ds_ServiceName (det cfg) | _ \<Rightarrow> [])
               in (case ValidateHooks True pre services strategyServices of
                     Some err \<Rightarrow> Inl err
                   | None \<Rightarrow>
                       (case ValidateHooks False post services [] of
                          Some err \<Rightarrow> Inl err
                        | None \<Rightarrow> Inr (pre, post, lp + lq)))))"

subsection \<open>Hooks reach only the app's own containers\<close>

definition listed :: "backup_env \<Rightarrow> docker_call list \<Rightarrow> container \<Rightarrow> bool" where
  "listed env calls ctr \<longleftrightarrow> (\<exists>p list. prefix p calls \<and> be_containers env p = Some list \<and> ctr \<in> set list)"

lemma listed_mono: "listed env calls ctr \<Longrightarrow> prefix calls calls' \<Longrightarrow> listed env calls' ctr"
  unfolding listed_def by (meson prefix_order.trans)

definition hook_args :: "string \<Rightarrow> string list \<Rightarrow> bool" where
  "hook_args i args \<longleftrightarrow> args = [''stop'', i] \<or> args = [''start'', i] \<or> (\<exists>cmd. args = [''exec'', i, ''sh'', ''-c'', cmd])"

text \<open>The calls of a run of hooks, and nothing else of the world, changed.\<close>

definition hook_calls :: "backup_env \<Rightarrow> string \<Rightarrow> string set \<Rightarrow> backup_world \<Rightarrow> backup_world \<Rightarrow> bool" where
  "hook_calls env project services w w' \<longleftrightarrow>
     bw_files w' = bw_files w \<and>
     (\<exists>cs. bw_calls w' = bw_calls w @ cs \<and>
        (\<forall>c \<in> set cs. \<exists>service \<in> services. \<exists>ctr. listed env (bw_calls w') ctr \<and> own_container project service ctr \<and>
            hook_args (ct_ID ctr) (dc_args c)))"

lemma hook_calls_refl [simp]: "hook_calls env project services w w"
  by (simp add: hook_calls_def)

lemma hook_calls_trans:
  assumes "hook_calls env project S w w'" "hook_calls env project T w' w''"
  shows "hook_calls env project (S \<union> T) w w''"
proof -
  obtain cs where cs: "bw_calls w' = bw_calls w @ cs"
      "\<forall>c \<in> set cs. \<exists>service \<in> S. \<exists>ctr. listed env (bw_calls w') ctr \<and> own_container project service ctr \<and> hook_args (ct_ID ctr) (dc_args c)"
    using assms(1) unfolding hook_calls_def by blast
  obtain ds where ds: "bw_calls w'' = bw_calls w' @ ds"
      "\<forall>c \<in> set ds. \<exists>service \<in> T. \<exists>ctr. listed env (bw_calls w'') ctr \<and> own_container project service ctr \<and> hook_args (ct_ID ctr) (dc_args c)"
    using assms(2) unfolding hook_calls_def by blast
  have "listed env (bw_calls w'') ctr" if "listed env (bw_calls w') ctr" for ctr
    using listed_mono [OF that] ds(1) by simp
  then have "\<forall>c \<in> set (cs @ ds). \<exists>service \<in> S \<union> T. \<exists>ctr. listed env (bw_calls w'') ctr \<and> own_container project service ctr \<and> hook_args (ct_ID ctr) (dc_args c)"
    using cs(2) ds(2) by fastforce
  moreover have "bw_calls w'' = bw_calls w @ (cs @ ds)" using cs(1) ds(1) by simp
  moreover have "bw_files w'' = bw_files w" using assms unfolding hook_calls_def by simp
  ultimately show ?thesis unfolding hook_calls_def by blast
qed

lemma hook_calls_one:
  assumes "listed env (bw_calls w) ctr" "own_container project service ctr" "hook_args (ct_ID ctr) args"
  shows "hook_calls env project {service} w (snd (run_docker env \<lparr>dc_args = args, dc_stdin = input, dc_timeout = t\<rparr> w))"
  using assms listed_mono [OF assms(1), of "bw_calls w @ [\<lparr>dc_args = args, dc_stdin = input, dc_timeout = t\<rparr>]"]
  by (auto simp: hook_calls_def run_docker_def)

lemma serviceContainers_own:
  assumes "serviceContainers env project service w = Inr ctrs" "ctr \<in> set ctrs"
  shows "listed env (bw_calls w) ctr" "own_container project service ctr"
proof -
  obtain list where l: "be_containers env (bw_calls w) = Some list" "ctrs = sort_by replica_less (filter (own_container project service) list)"
    using assms(1) by (auto simp: serviceContainers_def Let_def split: if_splits option.splits)
  then show "listed env (bw_calls w) ctr" using assms(2) unfolding listed_def by fastforce
  show "own_container project service ctr" using l assms(2) by simp
qed

lemma ExecInService_calls: "hook_calls env project {service} w (snd (ExecInService env t project service command w))"
proof (cases "serviceContainers env project service w")
  case (Inr ctrs)
  show ?thesis
  proof (cases "find (\<lambda>c. ct_State c = ''running'') ctrs")
    case (Some c)
    then have "c \<in> set ctrs" by (auto simp: find_Some_iff)
    note own = serviceContainers_own [OF Inr this]
    have "hook_args (ct_ID c) [''exec'', ct_ID c, ''sh'', ''-c'', command]" by (simp add: hook_args_def)
    from hook_calls_one [OF own this, of "[]" t] Inr Some show ?thesis
      by (simp add: ExecInService_def case_prod_beta)
  qed (simp add: ExecInService_def Inr)
qed (simp add: ExecInService_def)

lemma run_each_calls:
  assumes "\<forall>c \<in> set cs. listed env (bw_calls w) c \<and> own_container project service c" "verb \<in> {''stop'', ''start''}"
  shows "hook_calls env project {service} w (snd (run_each env t verb cs w))"
  using assms(1)
proof (induction cs arbitrary: w)
  case (Cons c cs)
  let ?call = "\<lparr>dc_args = [verb, ct_ID c], dc_stdin = [], dc_timeout = t\<rparr>"
  let ?w = "snd (run_docker env ?call w)"
  have one: "hook_calls env project {service} w ?w"
    using Cons.prems assms(2) by (intro hook_calls_one [of _ _ c]) (auto simp: hook_args_def)
  have "\<forall>c \<in> set cs. listed env (bw_calls ?w) c \<and> own_container project service c"
    using Cons.prems listed_mono [of env "bw_calls w"] by (auto simp: run_docker_def)
  then have "hook_calls env project {service} ?w (snd (run_each env t verb cs ?w))" by (rule Cons.IH)
  from hook_calls_trans [OF one this] one show ?case by (simp add: case_prod_beta)
qed simp

lemma eachContainer_calls:
  assumes "verb \<in> {''stop'', ''start''}"
  shows "hook_calls env project {service} w (snd (eachContainer env t project service verb w))"
proof (cases "serviceContainers env project service w")
  case (Inr ctrs)
  then have "\<forall>c \<in> set ctrs. listed env (bw_calls w) c \<and> own_container project service c"
    using serviceContainers_own by blast
  from run_each_calls [OF this assms] Inr show ?thesis by (simp add: eachContainer_def)
qed (simp add: eachContainer_def)

lemma hook_execute_calls: "hook_calls env project {h_Service h} w (snd (hook_execute env project h w))"
  by (simp add: hook_execute_def Let_def StopService_def StartService_def eachContainer_calls ExecInService_calls)

lemma hook_calls_more: "hook_calls env project S w w' \<Longrightarrow> S \<subseteq> T \<Longrightarrow> hook_calls env project T w w'"
  using hook_calls_trans [of env project S w w' T w'] by (simp add: Un_absorb1)

lemma RunPre_calls: "hook_calls env project (h_Service ` set hs) w (snd (RunPre env project hs w))"
proof (induction hs arbitrary: w)
  case (Cons h hs)
  obtain res w' where r: "hook_execute env project h w = (res, w')" by fastforce
  then have h: "hook_calls env project {h_Service h} w w'" using hook_execute_calls [of env project h w] by simp
  show ?case
  proof (cases res)
    case None
    then show ?thesis using hook_calls_trans [OF h Cons.IH] by (simp add: r)
  next
    case (Some err)
    then show ?thesis using hook_calls_more [OF h] by (simp add: r)
  qed
qed simp

lemma RunPost_calls: "hook_calls env project (h_Service ` set hs) w (snd (RunPost env project hs w))"
proof (induction hs arbitrary: w)
  case (Cons h hs)
  obtain res w' where r: "hook_execute env project h w = (res, w')" by fastforce
  then have h: "hook_calls env project {h_Service h} w w'" using hook_execute_calls [of env project h w] by simp
  show ?case using hook_calls_trans [OF h Cons.IH] by (simp add: r case_prod_beta)
qed simp

end
