(* ===== verification/BackupPipeline.thy ===== *)
theory BackupPipeline
  imports BackupHooks
begin

text \<open>
  internal/backup: the strategies that read and write an app's data (volume.go, sqlite_strategy.go, postgres.go,
  mysql.go, mongo.go, redis.go, detect.go), the target on the local disk (local.go) and the pipeline that joins hooks,
  strategy, checksum and target (pipeline.go, checksum.go). Credentials are the ones the caller passes.
\<close>

record BackupOpts =
  bo_ContainerName :: string
  bo_Paths :: "string list"
  bo_Credentials :: "(string \<times> string) list"

text \<open>What a strategy hands on: the bytes its reader gives, whether reading ends in an error, and whether closing does.\<close>

record BackupResult =
  br_data :: string
  br_read_fails :: bool
  br_close_fails :: bool
  br_Filename :: string

record RestoreOpts =
  ro_ContainerName :: string
  ro_Paths :: "string list"
  ro_Credentials :: "(string \<times> string) list"
  ro_Reader :: tar_source
  ro_Max :: int

record strategy =
  st_Type :: string
  st_Detect :: "AppConfig \<Rightarrow> DetectedService list"
  st_Backup :: "backup_env \<Rightarrow> BackupOpts \<Rightarrow> backup_world \<Rightarrow> (backup_error + BackupResult) \<times> backup_world"
  st_Restore :: "backup_env \<Rightarrow> RestoreOpts \<Rightarrow> backup_world \<Rightarrow> backup_error option \<times> backup_world"

subsection \<open>Commands\<close>

definition plain_call :: "string list \<Rightarrow> string \<Rightarrow> docker_call" where
  "plain_call args input = \<lparr>dc_args = args, dc_stdin = input, dc_timeout = 0\<rparr>"

definition combined_output :: "backup_env \<Rightarrow> string list \<Rightarrow> string \<Rightarrow> backup_world \<Rightarrow> docker_result \<times> backup_world" where
  "combined_output env args input w = run_docker env (plain_call args input) w"

text \<open>\<open>cmdReadCloser\<close>: the output is read to its end, the exit status is seen by Close only.\<close>

definition cmdReadCloser :: "backup_env \<Rightarrow> string list \<Rightarrow> string \<Rightarrow> backup_world \<Rightarrow> (backup_error + BackupResult) \<times> backup_world" where
  "cmdReadCloser env args filename w =
     (case combined_output env args [] w of
        (NotStarted, w') \<Rightarrow> (Inl StreamFailed, w')
      | (Exited ok out, w') \<Rightarrow>
          (Inr \<lparr>br_data = out, br_read_fails = False, br_close_fails = \<not> ok, br_Filename = filename\<rparr>, w'))"

text \<open>The other strategies compress the output and pass a failing exit status on to the reader.\<close>

definition gzipPipe :: "backup_env \<Rightarrow> string list \<Rightarrow> string \<Rightarrow> backup_world \<Rightarrow> (backup_error + BackupResult) \<times> backup_world" where
  "gzipPipe env args filename w =
     (case combined_output env args [] w of
        (NotStarted, w') \<Rightarrow> (Inl StreamFailed, w')
      | (Exited ok out, w') \<Rightarrow>
          (Inr \<lparr>br_data = be_gzip env out, br_read_fails = \<not> ok, br_close_fails = False, br_Filename = filename\<rparr>, w'))"

definition source_stream :: "tar_source \<Rightarrow> string \<times> read_end" where
  "source_stream src = (case src of Spooled data \<Rightarrow> (data, EOF) | Streamed r \<Rightarrow> (rd_all r, rd_end r))"

definition limitedGzip :: "reader \<Rightarrow> int \<Rightarrow> string \<times> read_end" where
  "limitedGzip gr m = (case restoreCap m of None \<Rightarrow> (rd_all gr, rd_end gr) | Some limit \<Rightarrow> cap_copy 32767 (newCapReader gr limit))"

text \<open>A command that reads a stream fails when it exits with an error or the stream does.\<close>

definition fed_output :: "backup_env \<Rightarrow> string list \<Rightarrow> string \<times> read_end \<Rightarrow> backup_world \<Rightarrow> backup_error option \<times> backup_world" where
  "fed_output env args src w =
     (case combined_output env args (fst src) w of
        (res, w') \<Rightarrow> (if exited_ok res \<and> snd src = EOF then None else Some CommandFailed, w'))"

definition backup_filename :: "backup_env \<Rightarrow> string \<Rightarrow> string \<Rightarrow> backup_world \<Rightarrow> string" where
  "backup_filename env container ext w = container @ ''-'' @ be_now env (bw_calls w) @ ext"

subsection \<open>Detection\<close>

definition matchesLabel :: "(string \<times> string) list \<Rightarrow> string \<Rightarrow> bool" where
  "matchesLabel labels strategy \<longleftrightarrow> label labels ''simpledeploy.backup.strategy'' = strategy"

definition matchesImageKeywords :: "string \<Rightarrow> string list \<Rightarrow> bool" where
  "matchesImageKeywords img keywords \<longleftrightarrow> list_ex (\<lambda>kw. sublist kw (to_lower img)) keywords"

definition postgresKeywords :: "string list" where
  "postgresKeywords = [''postgres'', ''postgis'', ''timescale'', ''supabase'']"

definition mysqlKeywords :: "string list" where
  "mysqlKeywords = [''mysql'', ''mariadb'', ''percona'']"

definition mongoKeywords :: "string list" where
  "mongoKeywords = [''mongo'']"

definition redisKeywords :: "string list" where
  "redisKeywords = [''redis'', ''valkey'', ''dragonfly'']"

definition detected :: "AppConfig \<Rightarrow> ServiceConfig \<Rightarrow> string \<Rightarrow> string list \<Rightarrow> DetectedService" where
  "detected cfg svc l paths =
     \<lparr>ds_ServiceName = sc_name svc, ds_ContainerName = a_name cfg @ ''-'' @ sc_name svc @ ''-1'', ds_Label = l, ds_Paths = paths\<rparr>"

definition detect_by :: "string \<Rightarrow> string list \<Rightarrow> AppConfig \<Rightarrow> DetectedService list" where
  "detect_by l keywords cfg =
     map (\<lambda>svc. detected cfg svc l [])
       (filter (\<lambda>svc. matchesLabel (sc_labels svc) l \<or> matchesImageKeywords (sc_image svc) keywords) (a_services cfg))"

definition collectVolumePaths :: "ServiceConfig \<Rightarrow> string list" where
  "collectVolumePaths svc =
     map (\<lambda>v. clean_path (vm_target v))
       (filter (\<lambda>v. vm_target v \<noteq> ''/var/run/docker.sock'' \<and> vm_target v \<noteq> []) (sc_volumes svc))"

definition volume_Detect :: "AppConfig \<Rightarrow> DetectedService list" where
  "volume_Detect cfg =
     map (\<lambda>svc. detected cfg svc ''volume'' (collectVolumePaths svc))
       (filter (\<lambda>svc. matchesLabel (sc_labels svc) ''volume'' \<or> collectVolumePaths svc \<noteq> []) (a_services cfg))"

definition sqlite_Detect :: "AppConfig \<Rightarrow> DetectedService list" where
  "sqlite_Detect cfg =
     map (\<lambda>svc. detected cfg svc ''sqlite'' (map (\<lambda>v. clean_path (vm_target v)) (filter (\<lambda>v. vm_target v \<noteq> []) (sc_volumes svc))))
       (filter (\<lambda>svc. matchesLabel (sc_labels svc) ''sqlite'') (a_services cfg))"

subsection \<open>Volumes and SQLite files\<close>

definition volume_Backup :: "backup_env \<Rightarrow> BackupOpts \<Rightarrow> backup_world \<Rightarrow> (backup_error + BackupResult) \<times> backup_world" where
  "volume_Backup env opts w =
     (if bo_Paths opts = [] then (Inl NoPaths, w)
      else case ValidatePaths ''volume'' (bo_Paths opts) of
        Some err \<Rightarrow> (Inl (BadPath err), w)
      | None \<Rightarrow>
          cmdReadCloser env (tarCreateArgs (bo_ContainerName opts) (bo_Paths opts))
            (backup_filename env (bo_ContainerName opts) ''.tar.gz'' w) w)"

definition tar_extract_args :: "string \<Rightarrow> string list" where
  "tar_extract_args container = [''exec'', ''-i'', container, ''tar'', ''-xzf'', ''-'', ''-C'', ''/'']"

definition volume_Restore :: "backup_env \<Rightarrow> RestoreOpts \<Rightarrow> backup_world \<Rightarrow> backup_error option \<times> backup_world" where
  "volume_Restore env opts w =
     (case validateTarStream (be_tar env) (ro_Reader opts) (ro_Max opts) of
        Inl err \<Rightarrow> (Some (ArchiveRefused err), w)
      | Inr safe \<Rightarrow> fed_output env (tar_extract_args (ro_ContainerName opts)) (safe, EOF) w)"

fun sqlite_snapshots :: "backup_env \<Rightarrow> string \<Rightarrow> string list \<Rightarrow> backup_world \<Rightarrow> backup_error option \<times> backup_world" where
  "sqlite_snapshots env container [] w = (None, w)"
| "sqlite_snapshots env container (dbPath # ps) w =
     (case combined_output env [''exec'', container, ''sqlite3'', dbPath, sqliteBackupDotCmd (sqliteTmpPath dbPath)] [] w of
        (res, w') \<Rightarrow> if exited_ok res then sqlite_snapshots env container ps w' else (Some CommandFailed, w'))"

definition sqlite_Backup :: "backup_env \<Rightarrow> BackupOpts \<Rightarrow> backup_world \<Rightarrow> (backup_error + BackupResult) \<times> backup_world" where
  "sqlite_Backup env opts w =
     (let container = bo_ContainerName opts; filename = backup_filename env container ''.sqlite.tar.gz'' w in
      if bo_Paths opts = [] then (Inl NoPaths, w)
      else case ValidatePaths ''sqlite'' (bo_Paths opts) of
        Some err \<Rightarrow> (Inl (BadPath err), w)
      | None \<Rightarrow>
          (case sqlite_snapshots env container (bo_Paths opts) w of
             (Some err, w') \<Rightarrow> (Inl err, w')
           | (None, w') \<Rightarrow> cmdReadCloser env (tarCreateArgs container (map sqliteTmpPath (bo_Paths opts))) filename w'))"

fun sqlite_copy_back :: "backup_env \<Rightarrow> string \<Rightarrow> string list \<Rightarrow> backup_world \<Rightarrow> backup_error option \<times> backup_world" where
  "sqlite_copy_back env container [] w = (None, w)"
| "sqlite_copy_back env container (dbPath # ps) w =
     (case combined_output env [''exec'', container, ''cp'', ''--'', sqliteTmpPath dbPath, dbPath] [] w of
        (res, w') \<Rightarrow>
          if exited_ok res then
            sqlite_copy_back env container ps
              (snd (combined_output env [''exec'', container, ''rm'', ''-f'', ''--'', sqliteTmpPath dbPath] [] w'))
          else (Some CommandFailed, w'))"

definition sqlite_Restore :: "backup_env \<Rightarrow> RestoreOpts \<Rightarrow> backup_world \<Rightarrow> backup_error option \<times> backup_world" where
  "sqlite_Restore env opts w =
     (let container = ro_ContainerName opts in
      if ro_Paths opts = [] then (Some NoPaths, w)
      else case ValidatePaths ''sqlite'' (ro_Paths opts) of
        Some err \<Rightarrow> (Some (BadPath err), w)
      | None \<Rightarrow>
          (case validateTarStream (be_tar env) (ro_Reader opts) (ro_Max opts) of
             Inl err \<Rightarrow> (Some (ArchiveRefused err), w)
           | Inr safe \<Rightarrow>
               (case fed_output env (tar_extract_args container) (safe, EOF) w of
                  (Some err, w') \<Rightarrow> (Some err, w')
                | (None, w') \<Rightarrow> sqlite_copy_back env container (ro_Paths opts) w')))"

subsection \<open>Databases\<close>

definition pg_dump_script :: string where
  "pg_dump_script = join_with [CHR 0x0A]
     [''set -e'',
      ''user='' @ [CHR 0x22] @ ''${POSTGRES_USER:-postgres}'' @ [CHR 0x22],
      ''db='' @ [CHR 0x22] @ ''${POSTGRES_DB:-$user}'' @ [CHR 0x22],
      ''exec pg_dump -U '' @ [CHR 0x22] @ ''$user'' @ [CHR 0x22] @ '' -d '' @ [CHR 0x22] @ ''$db'' @ [CHR 0x22]]"

definition psql_script :: string where
  "psql_script = join_with [CHR 0x0A]
     [''set -e'',
      ''user='' @ [CHR 0x22] @ ''${POSTGRES_USER:-postgres}'' @ [CHR 0x22],
      ''db='' @ [CHR 0x22] @ ''${POSTGRES_DB:-$user}'' @ [CHR 0x22],
      ''exec psql -U '' @ [CHR 0x22] @ ''$user'' @ [CHR 0x22] @ '' -d '' @ [CHR 0x22] @ ''$db'' @ [CHR 0x22]]"

definition mysqldump_script :: string where
  "mysqldump_script = join_with [CHR 0x0A]
     [''set -e'',
      ''pw='' @ [CHR 0x22] @ ''${MYSQL_ROOT_PASSWORD:-}'' @ [CHR 0x22],
      ''if [ -n '' @ [CHR 0x22] @ ''$pw'' @ [CHR 0x22] @ '' ]; then'',
      ''  exec mysqldump --all-databases -u root -p'' @ [CHR 0x22] @ ''$pw'' @ [CHR 0x22],
      ''else'',
      ''  exec mysqldump --all-databases -u root'',
      ''fi'']"

definition mysql_script :: string where
  "mysql_script = join_with [CHR 0x0A]
     [''set -e'',
      ''pw='' @ [CHR 0x22] @ ''${MYSQL_ROOT_PASSWORD:-}'' @ [CHR 0x22],
      ''if [ -n '' @ [CHR 0x22] @ ''$pw'' @ [CHR 0x22] @ '' ]; then'',
      ''  exec mysql -u root -p'' @ [CHR 0x22] @ ''$pw'' @ [CHR 0x22],
      ''else'',
      ''  exec mysql -u root'',
      ''fi'']"

definition mongodump_script :: string where
  "mongodump_script = join_with [CHR 0x0A]
     [''set -e'',
      ''u='' @ [CHR 0x22] @ ''${MONGO_INITDB_ROOT_USERNAME:-}'' @ [CHR 0x22],
      ''p='' @ [CHR 0x22] @ ''${MONGO_INITDB_ROOT_PASSWORD:-}'' @ [CHR 0x22],
      ''if [ -n '' @ [CHR 0x22] @ ''$u'' @ [CHR 0x22] @ '' ] && [ -n '' @ [CHR 0x22] @ ''$p'' @ [CHR 0x22] @ '' ]; then'',
      ''  exec mongodump --archive --gzip --authenticationDatabase admin -u '' @ [CHR 0x22] @ ''$u'' @ [CHR 0x22] @ '' -p '' @ [CHR 0x22] @ ''$p'' @ [CHR 0x22],
      ''else'',
      ''  exec mongodump --archive --gzip'',
      ''fi'']"

definition mongorestore_script :: string where
  "mongorestore_script = join_with [CHR 0x0A]
     [''set -e'',
      ''u='' @ [CHR 0x22] @ ''${MONGO_INITDB_ROOT_USERNAME:-}'' @ [CHR 0x22],
      ''p='' @ [CHR 0x22] @ ''${MONGO_INITDB_ROOT_PASSWORD:-}'' @ [CHR 0x22],
      ''if [ -n '' @ [CHR 0x22] @ ''$u'' @ [CHR 0x22] @ '' ] && [ -n '' @ [CHR 0x22] @ ''$p'' @ [CHR 0x22] @ '' ]; then'',
      ''  exec mongorestore --archive --gzip --drop --authenticationDatabase admin -u '' @ [CHR 0x22] @ ''$u'' @ [CHR 0x22] @ '' -p '' @ [CHR 0x22] @ ''$p'' @ [CHR 0x22],
      ''else'',
      ''  exec mongorestore --archive --gzip --drop'',
      ''fi'']"

definition env_arg :: "(string \<times> string) list \<Rightarrow> string \<Rightarrow> string list" where
  "env_arg creds k = (let v = label creds k in if v \<noteq> [] then [''-e'', k @ ''='' @ v] else [])"

definition mongo_env_args :: "(string \<times> string) list \<Rightarrow> string list" where
  "mongo_env_args creds =
     (let u = label creds ''MONGO_INITDB_ROOT_USERNAME''; p = label creds ''MONGO_INITDB_ROOT_PASSWORD'' in
      if u \<noteq> [] then [''-e'', ''MONGO_INITDB_ROOT_USERNAME='' @ u, ''-e'', ''MONGO_INITDB_ROOT_PASSWORD='' @ p] else [])"

definition postgres_Backup :: "backup_env \<Rightarrow> BackupOpts \<Rightarrow> backup_world \<Rightarrow> (backup_error + BackupResult) \<times> backup_world" where
  "postgres_Backup env opts w =
     gzipPipe env ([''exec''] @ env_arg (bo_Credentials opts) ''POSTGRES_USER'' @ [bo_ContainerName opts, ''sh'', ''-c'', pg_dump_script])
       (backup_filename env (bo_ContainerName opts) ''.sql.gz'' w) w"

definition gzip_restore ::
  "backup_env \<Rightarrow> string list \<Rightarrow> string \<Rightarrow> RestoreOpts \<Rightarrow> backup_world \<Rightarrow> backup_error option \<times> backup_world" where
  "gzip_restore env envArgs script opts w =
     (case tz_gunzip (be_tar env) (fst (source_stream (ro_Reader opts))) of
        None \<Rightarrow> (Some GzipRefused, w)
      | Some gr \<Rightarrow>
          fed_output env ([''exec'', ''-i''] @ envArgs @ [ro_ContainerName opts, ''sh'', ''-c'', script]) (limitedGzip gr (ro_Max opts)) w)"

definition postgres_Restore :: "backup_env \<Rightarrow> RestoreOpts \<Rightarrow> backup_world \<Rightarrow> backup_error option \<times> backup_world" where
  "postgres_Restore env opts = gzip_restore env (env_arg (ro_Credentials opts) ''POSTGRES_USER'') psql_script opts"

definition mysql_Backup :: "backup_env \<Rightarrow> BackupOpts \<Rightarrow> backup_world \<Rightarrow> (backup_error + BackupResult) \<times> backup_world" where
  "mysql_Backup env opts w =
     gzipPipe env ([''exec''] @ env_arg (bo_Credentials opts) ''MYSQL_ROOT_PASSWORD'' @ [bo_ContainerName opts, ''sh'', ''-c'', mysqldump_script])
       (backup_filename env (bo_ContainerName opts) ''.sql.gz'' w) w"

definition mysql_Restore :: "backup_env \<Rightarrow> RestoreOpts \<Rightarrow> backup_world \<Rightarrow> backup_error option \<times> backup_world" where
  "mysql_Restore env opts = gzip_restore env (env_arg (ro_Credentials opts) ''MYSQL_ROOT_PASSWORD'') mysql_script opts"

definition mongo_Backup :: "backup_env \<Rightarrow> BackupOpts \<Rightarrow> backup_world \<Rightarrow> (backup_error + BackupResult) \<times> backup_world" where
  "mongo_Backup env opts w =
     cmdReadCloser env ([''exec''] @ mongo_env_args (bo_Credentials opts) @ [bo_ContainerName opts, ''sh'', ''-c'', mongodump_script])
       (backup_filename env (bo_ContainerName opts) ''.archive.gz'' w) w"

definition mongo_Restore :: "backup_env \<Rightarrow> RestoreOpts \<Rightarrow> backup_world \<Rightarrow> backup_error option \<times> backup_world" where
  "mongo_Restore env opts w =
     fed_output env ([''exec'', ''-i''] @ mongo_env_args (ro_Credentials opts) @ [ro_ContainerName opts, ''sh'', ''-c'', mongorestore_script])
       (source_stream (ro_Reader opts)) w"

subsection \<open>Redis\<close>

definition redis_cli :: "string \<Rightarrow> string \<Rightarrow> string list" where
  "redis_cli container cmd = [''exec'', container, ''redis-cli'', cmd]"

definition maxAttempts :: nat where "maxAttempts = 120"

fun waitForSaveSince :: "backup_env \<Rightarrow> string \<Rightarrow> string \<Rightarrow> nat \<Rightarrow> backup_world \<Rightarrow> backup_error option \<times> backup_world" where
  "waitForSaveSince env container initialTS 0 w = (Some CommandFailed, w)"
| "waitForSaveSince env container initialTS (Suc n) w =
     (case combined_output env (redis_cli container ''LASTSAVE'') [] w of
        (res, w') \<Rightarrow>
          if \<not> exited_ok res then (Some CommandFailed, w')
          else if trim_space (output_of res) \<noteq> initialTS then (None, w')
          else waitForSaveSince env container initialTS n w')"

definition redis_save :: "backup_env \<Rightarrow> string \<Rightarrow> backup_world \<Rightarrow> backup_error option \<times> backup_world" where
  "redis_save env container w =
     (case combined_output env (redis_cli container ''SAVE'') [] w of
        (res, w1) \<Rightarrow>
          if exited_ok res \<and> sublist ''OK'' (to_upper (output_of res)) then (None, w1)
          else
            (case combined_output env (redis_cli container ''LASTSAVE'') [] w1 of
               (initial, w2) \<Rightarrow>
                 if \<not> exited_ok initial then (Some CommandFailed, w2)
                 else
                   (case combined_output env (redis_cli container ''BGSAVE'') [] w2 of
                      (bg, w3) \<Rightarrow>
                        if \<not> exited_ok bg then (Some CommandFailed, w3)
                        else waitForSaveSince env container (trim_space (output_of initial)) maxAttempts w3)))"

definition redis_Backup :: "backup_env \<Rightarrow> BackupOpts \<Rightarrow> backup_world \<Rightarrow> (backup_error + BackupResult) \<times> backup_world" where
  "redis_Backup env opts w =
     (let container = bo_ContainerName opts; filename = backup_filename env container ''.rdb.gz'' w in
      case redis_save env container w of
        (Some err, w') \<Rightarrow> (Inl err, w')
      | (None, w') \<Rightarrow> gzipPipe env [''cp'', container @ '':/data/dump.rdb'', ''-''] filename w')"

definition redis_Restore :: "backup_env \<Rightarrow> RestoreOpts \<Rightarrow> backup_world \<Rightarrow> backup_error option \<times> backup_world" where
  "redis_Restore env opts w =
     (let container = ro_ContainerName opts in
      case validateTarStream (be_tar env) (ro_Reader opts) (ro_Max opts) of
        Inl err \<Rightarrow> (Some (ArchiveRefused err), w)
      | Inr safe \<Rightarrow>
          (case tz_gunzip (be_tar env) safe of
             None \<Rightarrow> (Some GzipRefused, w)
           | Some gr \<Rightarrow>
               (case combined_output env [''stop'', container] [] w of
                  (stopped, w1) \<Rightarrow>
                    if \<not> exited_ok stopped then (Some CommandFailed, w1)
                    else
                      (case fed_output env [''cp'', ''-'', container @ '':/data/''] (limitedGzip gr (ro_Max opts)) w1 of
                         (Some err, w2) \<Rightarrow> (Some err, snd (combined_output env [''start'', container] [] w2))
                       | (None, w2) \<Rightarrow>
                           (case combined_output env [''start'', container] [] w2 of
                              (started, w3) \<Rightarrow> (if exited_ok started then None else Some CommandFailed, w3))))))"

definition strategies :: "strategy list" where
  "strategies =
     [\<lparr>st_Type = ''postgres'', st_Detect = detect_by ''postgres'' postgresKeywords, st_Backup = postgres_Backup, st_Restore = postgres_Restore\<rparr>,
      \<lparr>st_Type = ''mysql'', st_Detect = detect_by ''mysql'' mysqlKeywords, st_Backup = mysql_Backup, st_Restore = mysql_Restore\<rparr>,
      \<lparr>st_Type = ''mongo'', st_Detect = detect_by ''mongo'' mongoKeywords, st_Backup = mongo_Backup, st_Restore = mongo_Restore\<rparr>,
      \<lparr>st_Type = ''redis'', st_Detect = detect_by ''redis'' redisKeywords, st_Backup = redis_Backup, st_Restore = redis_Restore\<rparr>,
      \<lparr>st_Type = ''sqlite'', st_Detect = sqlite_Detect, st_Backup = sqlite_Backup, st_Restore = sqlite_Restore\<rparr>,
      \<lparr>st_Type = ''volume'', st_Detect = volume_Detect, st_Backup = volume_Backup, st_Restore = volume_Restore\<rparr>]"

record DetectionResult =
  dr_StrategyType :: string
  dr_Services :: "DetectedService list"
  dr_Available :: bool

definition DetectAll :: "strategy list \<Rightarrow> AppConfig \<Rightarrow> DetectionResult list" where
  "DetectAll sts cfg =
     map (\<lambda>s. \<lparr>dr_StrategyType = st_Type s, dr_Services = st_Detect s cfg, dr_Available = (st_Detect s cfg \<noteq> [])\<rparr>) sts"

subsection \<open>Targets\<close>

datatype delete_result = Deleted | FileMissing | DeleteFailed

record backup_target =
  tg_Upload :: "backup_env \<Rightarrow> string \<Rightarrow> BackupResult \<Rightarrow> backup_world \<Rightarrow> (backup_error + string \<times> nat) \<times> backup_world"
  tg_Download :: "backup_env \<Rightarrow> string \<Rightarrow> backup_world \<Rightarrow> backup_error + reader"
  tg_Delete :: "backup_env \<Rightarrow> string \<Rightarrow> backup_world \<Rightarrow> delete_result \<times> backup_world"

definition bad_name :: "string \<Rightarrow> bool" where
  "bad_name name \<longleftrightarrow> sublist ''..'' name \<or> is_abs name"

text \<open>A file that could be opened is truncated and takes what the reader gave, also when the reader then fails.\<close>

definition local_Upload ::
  "string \<Rightarrow> backup_env \<Rightarrow> string \<Rightarrow> BackupResult \<Rightarrow> backup_world \<Rightarrow> (backup_error + string \<times> nat) \<times> backup_world" where
  "local_Upload dir env filename res w =
     (if bad_name filename then (Inl BadFileName, w)
      else let p = join_path [dir, filename] in
        if be_write_fails env p then (Inl TargetFailed, w)
        else let w' = w\<lparr>bw_files := AList.update p (br_data res) (bw_files w)\<rparr> in
          if br_read_fails res then (Inl TargetFailed, w') else (Inr (filename, length (br_data res)), w'))"

definition local_Download :: "string \<Rightarrow> backup_env \<Rightarrow> string \<Rightarrow> backup_world \<Rightarrow> backup_error + reader" where
  "local_Download dir env name w =
     (if bad_name name then Inl BadFileName
      else case map_of (bw_files w) (join_path [dir, name]) of
        None \<Rightarrow> Inl DownloadFailed
      | Some data \<Rightarrow> Inr \<lparr>rd_pieces = [data], rd_end = EOF\<rparr>)"

definition local_Delete :: "string \<Rightarrow> backup_env \<Rightarrow> string \<Rightarrow> backup_world \<Rightarrow> delete_result \<times> backup_world" where
  "local_Delete dir env name w =
     (let p = join_path [dir, name] in
      if bad_name name then (DeleteFailed, w)
      else if map_of (bw_files w) p = None then (FileMissing, w)
      else if be_write_fails env p then (DeleteFailed, w)
      else (Deleted, w\<lparr>bw_files := AList.delete p (bw_files w)\<rparr>))"

definition LocalTarget :: "string \<Rightarrow> backup_target" where
  "LocalTarget dir = \<lparr>tg_Upload = local_Upload dir, tg_Download = local_Download dir, tg_Delete = local_Delete dir\<rparr>"

text \<open>The object key of the S3 target, whose store is a service.\<close>

definition s3_key :: "string \<Rightarrow> string \<Rightarrow> string" where
  "s3_key pre filename = (if pre \<noteq> [] then pre @ ''/'' @ filename else filename)"

subsection \<open>Pipeline\<close>

record PipelineResult =
  pr_FilePath :: string
  pr_SizeBytes :: nat
  pr_Checksum :: string
  pr_Warnings :: "(Hook \<times> backup_error) list"

text \<open>The hook runner of the pipeline is the project its hooks act on, or None.\<close>

definition runPostHooks :: "backup_env \<Rightarrow> string option \<Rightarrow> Hook list \<Rightarrow> backup_world \<Rightarrow> (Hook \<times> backup_error) list \<times> backup_world" where
  "runPostHooks env runner hooks w =
     (case runner of None \<Rightarrow> ([], w) | Some project \<Rightarrow> if hooks = [] then ([], w) else RunPost env project hooks w)"

definition runPreHooks :: "backup_env \<Rightarrow> string option \<Rightarrow> Hook list \<Rightarrow> backup_world \<Rightarrow> backup_error option \<times> backup_world" where
  "runPreHooks env runner hooks w =
     (case runner of None \<Rightarrow> (None, w) | Some project \<Rightarrow> if hooks = [] then (None, w) else RunPre env project hooks w)"

definition pipeline_RunBackup ::
  "backup_env \<Rightarrow> strategy \<Rightarrow> backup_target \<Rightarrow> string option \<Rightarrow> BackupOpts \<Rightarrow> Hook list \<Rightarrow> Hook list \<Rightarrow> backup_world \<Rightarrow>
     (backup_error + PipelineResult) \<times> backup_world" where
  "pipeline_RunBackup env st tg runner opts preHooks postHooks w =
     (case runPreHooks env runner preHooks w of
        (Some err, w1) \<Rightarrow> (Inl PreHookFailed, snd (runPostHooks env runner postHooks w1))
      | (None, w1) \<Rightarrow>
          (case st_Backup st env opts w1 of
             (Inl err, w2) \<Rightarrow> (Inl err, snd (runPostHooks env runner postHooks w2))
           | (Inr res, w2) \<Rightarrow>
               (case tg_Upload tg env (br_Filename res) res w2 of
                  (Inl err, w3) \<Rightarrow> (Inl err, snd (runPostHooks env runner postHooks w3))
                | (Inr (path, n), w3) \<Rightarrow>
                    (case runPostHooks env runner postHooks w3 of
                       (warnings, w4) \<Rightarrow>
                         (Inr \<lparr>pr_FilePath = path, pr_SizeBytes = n, pr_Checksum = be_sha256 env (br_data res),
                               pr_Warnings = warnings\<rparr>, w4)))))"

text \<open>With a checksum the download is staged in a file and compared before anything runs.\<close>

definition stage_download :: "backup_env \<Rightarrow> reader \<Rightarrow> string \<Rightarrow> int \<Rightarrow> backup_error + tar_source" where
  "stage_download env r expectedChecksum m =
     (if expectedChecksum = [] then Inr (Streamed r)
      else if \<not> tz_spool_made (be_tar env) then Inl DownloadFailed
      else case fill (be_tar env) (restoreCap m) r of
        Inl err \<Rightarrow> Inl DownloadFailed
      | Inr data \<Rightarrow> if be_sha256 env data \<noteq> expectedChecksum then Inl ChecksumMismatch else Inr (Spooled data))"

definition pipeline_RunRestore ::
  "backup_env \<Rightarrow> strategy \<Rightarrow> backup_target \<Rightarrow> string option \<Rightarrow> RestoreOpts \<Rightarrow> string \<Rightarrow> string \<Rightarrow> Hook list \<Rightarrow> Hook list \<Rightarrow>
     backup_world \<Rightarrow> backup_error option \<times> backup_world" where
  "pipeline_RunRestore env st tg runner opts filePath expectedChecksum preHooks postHooks w =
     (case tg_Download tg env filePath w of
        Inl err \<Rightarrow> (Some DownloadFailed, w)
      | Inr r \<Rightarrow>
          (case stage_download env r expectedChecksum (ro_Max opts) of
             Inl err \<Rightarrow> (Some err, w)
           | Inr src \<Rightarrow>
               (case runPreHooks env runner preHooks w of
                  (Some err, w1) \<Rightarrow> (Some PreHookFailed, snd (runPostHooks env runner postHooks w1))
                | (None, w1) \<Rightarrow>
                    (case st_Restore st env (opts\<lparr>ro_Reader := src\<rparr>) w1 of
                       (err, w2) \<Rightarrow> (err, snd (runPostHooks env runner postHooks w2))))))"

subsection \<open>Hooks around a backup\<close>

lemma runPreHooks_calls:
  "runner = Some project \<Longrightarrow> hook_calls env project (h_Service ` set hs) w (snd (runPreHooks env runner hs w))"
  by (simp add: runPreHooks_def RunPre_calls)

lemma runPostHooks_calls:
  "runner = Some project \<Longrightarrow> hook_calls env project (h_Service ` set hs) w (snd (runPostHooks env runner hs w))"
  by (simp add: runPostHooks_def RunPost_calls)

definition between_hooks :: "backup_env \<Rightarrow> string \<Rightarrow> Hook list \<Rightarrow> Hook list \<Rightarrow> (backup_world \<Rightarrow> backup_world \<Rightarrow> bool) \<Rightarrow> backup_world \<Rightarrow> backup_world \<Rightarrow> bool" where
  "between_hooks env project pre post works w w' \<longleftrightarrow>
     (\<exists>w1 w2. hook_calls env project (h_Service ` set pre) w w1 \<and> (works w1 w2 \<or> w2 = w1) \<and>
        w' = snd (runPostHooks env (Some project) post w2) \<and> hook_calls env project (h_Service ` set post) w2 w')"

definition backup_works :: "backup_env \<Rightarrow> strategy \<Rightarrow> backup_target \<Rightarrow> BackupOpts \<Rightarrow> backup_world \<Rightarrow> backup_world \<Rightarrow> bool" where
  "backup_works env st tg opts w1 w2 \<longleftrightarrow>
     (let (res, wb) = st_Backup st env opts w1 in
      case res of Inl err \<Rightarrow> w2 = wb | Inr r \<Rightarrow> w2 = snd (tg_Upload tg env (br_Filename r) r wb))"

definition restore_works :: "backup_env \<Rightarrow> strategy \<Rightarrow> backup_world \<Rightarrow> backup_world \<Rightarrow> bool" where
  "restore_works env st w1 w2 \<longleftrightarrow> (\<exists>ropts. w2 = snd (st_Restore st env ropts w1))"

lemma between_hooksI:
  assumes "runPreHooks env (Some project) pre w = (res, w1)" "works w1 w2 \<or> w2 = w1"
    "w' = snd (runPostHooks env (Some project) post w2)"
  shows "between_hooks env project pre post works w w'"
  unfolding between_hooks_def
  using assms runPreHooks_calls [of "Some project" project env pre w] runPostHooks_calls [of "Some project" project env post w2]
  by (intro exI [of _ w1] exI [of _ w2]) simp

lemma hooks_around:
  "between_hooks env project pre post (backup_works env st tg opts) w
     (snd (pipeline_RunBackup env st tg (Some project) opts pre post w))" (is ?backup)
  "snd (pipeline_RunRestore env st tg (Some project) ropts filePath checksum pre post w) = w \<or>
   between_hooks env project pre post (restore_works env st) w
     (snd (pipeline_RunRestore env st tg (Some project) ropts filePath checksum pre post w))" (is ?restore)
proof -
  obtain res w1 where pre: "runPreHooks env (Some project) pre w = (res, w1)" by fastforce
  show ?backup
  proof (cases res)
    case (Some err)
    show ?thesis by (rule between_hooksI [OF pre, of _ w1]) (simp_all add: pipeline_RunBackup_def pre Some)
  next
    case None
    obtain b w2 where b: "st_Backup st env opts w1 = (b, w2)" by fastforce
    show ?thesis
    proof (cases b)
      case (Inl err)
      show ?thesis
        by (rule between_hooksI [OF pre, of _ w2]) (simp_all add: pipeline_RunBackup_def pre None b Inl backup_works_def)
    next
      case (Inr r)
      obtain u w3 where u: "tg_Upload tg env (br_Filename r) r w2 = (u, w3)" by fastforce
      have works: "backup_works env st tg opts w1 w3" by (simp add: backup_works_def b Inr u)
      show ?thesis
        by (rule between_hooksI [OF pre, of _ w3])
          (simp_all add: works pipeline_RunBackup_def pre None b Inr u split: sum.split prod.split)
    qed
  qed
  show ?restore
  proof (cases "tg_Download tg env filePath w")
    case (Inr r)
    show ?thesis
    proof (cases "stage_download env r checksum (ro_Max ropts)")
      case src: (Inr src)
      show ?thesis
      proof (cases res)
        case (Some err)
        show ?thesis
          by (rule disjI2, rule between_hooksI [OF pre, of _ w1]) (simp_all add: pipeline_RunRestore_def pre Some Inr src)
      next
        case None
        obtain e w2 where e: "st_Restore st env (ropts\<lparr>ro_Reader := src\<rparr>) w1 = (e, w2)" by fastforce
        have works: "restore_works env st w1 w2" unfolding restore_works_def using e by (metis snd_conv)
        show ?thesis
          by (rule disjI2, rule between_hooksI [OF pre, of _ w2])
            (simp_all add: works pipeline_RunRestore_def pre None Inr src e)
      qed
    qed (simp add: pipeline_RunRestore_def Inr)
  qed (simp add: pipeline_RunRestore_def)
qed

text \<open>
  Property C15. Whatever the strategy and the target do, a backup and a restore run their hooks around them: first the
  hooks before, all of whose commands act on containers of the app's own compose project and of a service a hook
  names; then, unless one of them failed, the strategy and the target; and last, on every path that got as far as the
  first hook, the hooks after, in the same containers only.
\<close>

theorem hooks_stay_in_project:
  "between_hooks env project pre post (backup_works env st tg opts) w
     (snd (pipeline_RunBackup env st tg (Some project) opts pre post w)) \<and>
   (snd (pipeline_RunRestore env st tg (Some project) ropts filePath checksum pre post w) = w \<or>
    between_hooks env project pre post (restore_works env st) w
      (snd (pipeline_RunRestore env st tg (Some project) ropts filePath checksum pre post w)))"
  using hooks_around by blast

text \<open>
  Property C37. A run that has a checksum is restored from exactly the bytes it was made of: when a restore runs
  anything at all, a hook or a command, then the download has the recorded hash and is within the cap, and the
  strategy gets a staged file with just these bytes.
\<close>

theorem restore_verified:
  assumes "checksum \<noteq> []" "w' = snd (pipeline_RunRestore env st tg (Some project) ropts filePath checksum pre post w)" "w' \<noteq> w"
  shows "\<exists>r. tg_Download tg env filePath w = Inr r \<and> be_sha256 env (rd_all r) = checksum \<and>
     (\<forall>limit. restoreCap (ro_Max ropts) = Some limit \<longrightarrow> int (length (rd_all r)) \<le> limit) \<and>
     between_hooks env project pre post (\<lambda>w1 w2. w2 = snd (st_Restore st env (ropts\<lparr>ro_Reader := Spooled (rd_all r)\<rparr>) w1)) w w'"
proof (cases "tg_Download tg env filePath w")
  case (Inl err)
  then show ?thesis using assms by (simp add: pipeline_RunRestore_def)
next
  case (Inr r)
  obtain res w1 where pre: "runPreHooks env (Some project) pre w = (res, w1)" by fastforce
  show ?thesis
  proof (cases "stage_download env r checksum (ro_Max ropts)")
    case (Inl err)
    then show ?thesis using assms Inr by (simp add: pipeline_RunRestore_def)
  next
    case src: (Inr src)
    obtain data where d: "fill (be_tar env) (restoreCap (ro_Max ropts)) r = Inr data" "be_sha256 env data = checksum" "src = Spooled data"
      using src assms(1) by (auto simp: stage_download_def split: if_splits sum.splits)
    note data = fill_Inr [OF d(1)]
    let ?ropts = "ropts\<lparr>ro_Reader := Spooled (rd_all r)\<rparr>"
    obtain e w2 where e: "st_Restore st env ?ropts w1 = (e, w2)" by fastforce
    have "between_hooks env project pre post (\<lambda>w1 w2. w2 = snd (st_Restore st env ?ropts w1)) w w'"
    proof (cases res)
      case None
      show ?thesis
        by (rule between_hooksI [OF pre, of _ w2]) (simp_all add: assms(2) pipeline_RunRestore_def pre None Inr src d(3) data(1) e)
    next
      case (Some err)
      show ?thesis
        by (rule between_hooksI [OF pre, of _ w1]) (simp_all add: assms(2) pipeline_RunRestore_def pre Some Inr src)
    qed
    then show ?thesis using Inr d(2) data by auto
  qed
qed

subsection \<open>What is stored comes back\<close>

text \<open>What the pipeline needs of a target; the backups of other names stay.\<close>

locale target_laws =
  fixes tg :: backup_target
  assumes upload_calls: "bw_calls (snd (tg_Upload tg env name res w)) = bw_calls w"
    and upload_complete: "fst (tg_Upload tg env name res w) = Inr (stored, n) \<Longrightarrow> \<not> br_read_fails res \<and> n = length (br_data res)"
    and upload_download: "tg_Upload tg env name res w = (Inr (stored, n), w') \<Longrightarrow> bw_files w'' = bw_files w' \<Longrightarrow>
      \<exists>r. tg_Download tg env stored w'' = Inr r \<and> rd_all r = br_data res \<and> rd_end r = EOF"
begin

lemma hooks_keep_files: "bw_files (snd (runPostHooks env runner hs w)) = bw_files w"
proof (cases runner)
  case (Some project)
  then show ?thesis using runPostHooks_calls [OF Some, of env hs w] by (simp add: hook_calls_def)
qed (simp add: runPostHooks_def)

lemma backup_stored:
  assumes "pipeline_RunBackup env st tg runner opts pre post w = (Inr res, w')"
  obtains w1 b w2 where "st_Backup st env opts w1 = (Inr b, w2)" "\<not> br_read_fails b"
    "pr_SizeBytes res = length (br_data b)" "pr_Checksum res = be_sha256 env (br_data b)"
    "\<And>w''. bw_files w'' = bw_files w' \<Longrightarrow> \<exists>r. tg_Download tg env (pr_FilePath res) w'' = Inr r \<and> rd_all r = br_data b \<and> rd_end r = EOF"
proof -
  obtain w1 where pre: "runPreHooks env runner pre w = (None, w1)"
    using assms by (auto simp: pipeline_RunBackup_def split: prod.splits option.splits)
  obtain b w2 where b: "st_Backup st env opts w1 = (Inr b, w2)"
    using assms pre by (auto simp: pipeline_RunBackup_def split: prod.splits sum.splits)
  obtain stored n w3 where u: "tg_Upload tg env (br_Filename b) b w2 = (Inr (stored, n), w3)"
    using assms pre b by (auto simp: pipeline_RunBackup_def split: prod.splits sum.splits)
  obtain ws where post: "runPostHooks env runner post w3 = (ws, w')" and
    res: "res = \<lparr>pr_FilePath = stored, pr_SizeBytes = n, pr_Checksum = be_sha256 env (br_data b), pr_Warnings = ws\<rparr>"
    using assms pre b u by (auto simp: pipeline_RunBackup_def split: prod.splits)
  have files: "bw_files w' = bw_files w3" using hooks_keep_files [of env runner post w3] post by simp
  have "\<not> br_read_fails b" "n = length (br_data b)" using upload_complete [of env "br_Filename b" b w2 stored n] u by simp_all
  with that b res upload_download [OF u] files show ?thesis by simp
qed

end

interpretation local_disk: target_laws "LocalTarget dir" for dir
proof
  fix env name res w
  show "bw_calls (snd (tg_Upload (LocalTarget dir) env name res w)) = bw_calls w"
    by (simp add: LocalTarget_def local_Upload_def Let_def)
  fix stored n
  show "\<not> br_read_fails res \<and> n = length (br_data res)" if "fst (tg_Upload (LocalTarget dir) env name res w) = Inr (stored, n)"
    using that by (auto simp: LocalTarget_def local_Upload_def Let_def split: if_splits)
  fix w' w'' :: backup_world
  assume u: "tg_Upload (LocalTarget dir) env name res w = (Inr (stored, n), w')" and f: "bw_files w'' = bw_files w'"
  show "\<exists>r. tg_Download (LocalTarget dir) env stored w'' = Inr r \<and> rd_all r = br_data res \<and> rd_end r = EOF"
    using u f by (auto simp: LocalTarget_def local_Upload_def local_Download_def Let_def rd_all_def split: if_splits)
qed

text \<open>
  Property C38. What a backup to the local disk reports is there: with no change to the files in between, a restore of
  the reported file and checksum, within the cap, hands the strategy byte for byte what the backup read.
\<close>

theorem backup_restore_round_trip:
  assumes "pipeline_RunBackup env st (LocalTarget dir) runner opts pre post w = (Inr res, w')"
    and "bw_files w'' = bw_files w'" "\<forall>s. be_sha256 env s \<noteq> []" "tz_spool_made (be_tar env)" "tz_spool_written (be_tar env)"
    and "\<forall>limit. restoreCap (ro_Max ropts) = Some limit \<longrightarrow> int (pr_SizeBytes res) \<le> limit"
    and "runPreHooks env runner pre' w'' = (None, w3)"
  shows "\<exists>w1 b w2. st_Backup st env opts w1 = (Inr b, w2) \<and> pr_SizeBytes res = length (br_data b) \<and>
     pipeline_RunRestore env st (LocalTarget dir) runner ropts (pr_FilePath res) (pr_Checksum res) pre' post' w'' =
       (case st_Restore st env (ropts\<lparr>ro_Reader := Spooled (br_data b)\<rparr>) w3 of
          (err, w4) \<Rightarrow> (err, snd (runPostHooks env runner post' w4)))"
proof -
  obtain w1 b w2 where b: "st_Backup st env opts w1 = (Inr b, w2)" "\<not> br_read_fails b" "pr_SizeBytes res = length (br_data b)"
      "pr_Checksum res = be_sha256 env (br_data b)" and
    d: "\<And>w''. bw_files w'' = bw_files w' \<Longrightarrow>
      \<exists>r. tg_Download (LocalTarget dir) env (pr_FilePath res) w'' = Inr r \<and> rd_all r = br_data b \<and> rd_end r = EOF"
    by (rule local_disk.backup_stored [OF assms(1)]) blast
  obtain r where r: "tg_Download (LocalTarget dir) env (pr_FilePath res) w'' = Inr r" "rd_all r = br_data b" "rd_end r = EOF"
    using d [OF assms(2)] by blast
  have "fill (be_tar env) (restoreCap (ro_Max ropts)) r = Inr (rd_all r)"
    using assms(6) b(3) r(2) by (intro fill_whole [OF r(3) assms(5)]) simp
  then have "stage_download env r (pr_Checksum res) (ro_Max ropts) = Inr (Spooled (br_data b))"
    using assms(3,4) b(4) r(2) by (simp add: stage_download_def)
  then have "pipeline_RunRestore env st (LocalTarget dir) runner ropts (pr_FilePath res) (pr_Checksum res) pre' post' w'' =
       (case st_Restore st env (ropts\<lparr>ro_Reader := Spooled (br_data b)\<rparr>) w3 of
          (err, w4) \<Rightarrow> (err, snd (runPostHooks env runner post' w4)))"
    by (simp add: pipeline_RunRestore_def r(1) assms(7))
  with b(1,3) show ?thesis by blast
qed

text \<open>Redis: once the container is stopped for a restore, the last command starts it again.\<close>

lemma last_call: "last (bw_calls (snd (combined_output env args input w))) = plain_call args input"
  by (simp add: combined_output_def run_docker_def)

theorem redis_restore_restarts:
  assumes "snd (redis_Restore env opts w) \<noteq> w"
    and "exited_ok (fst (combined_output env [''stop'', ro_ContainerName opts] [] w))"
  shows "last (bw_calls (snd (redis_Restore env opts w))) = plain_call [''start'', ro_ContainerName opts] []"
proof (cases "validateTarStream (be_tar env) (ro_Reader opts) (ro_Max opts)")
  case (Inl err)
  then show ?thesis using assms(1) by (simp add: redis_Restore_def Let_def)
next
  case (Inr safe)
  show ?thesis
  proof (cases "tz_gunzip (be_tar env) safe")
    case None
    then show ?thesis using assms(1) Inr by (simp add: redis_Restore_def Let_def)
  next
    case (Some gr)
    obtain st w1 where st: "combined_output env [''stop'', ro_ContainerName opts] [] w = (st, w1)" "exited_ok st"
      using assms(2) by (metis prod.collapse)
    obtain e w2 where e: "fed_output env [''cp'', ''-'', ro_ContainerName opts @ '':/data/''] (limitedGzip gr (ro_Max opts)) w1 = (e, w2)"
      by fastforce
    have "snd (redis_Restore env opts w) = snd (combined_output env [''start'', ro_ContainerName opts] [] w2)"
      by (cases e) (simp_all add: redis_Restore_def Let_def Inr Some st e case_prod_beta)
    then show ?thesis by (simp add: last_call)
  qed
qed

subsection \<open>Findings\<close>

text \<open>
  A command that fails, for instance because the container is not running, still gives a successful backup of the
  volumes, of SQLite files and of MongoDB: its exit status is only seen by Close, and the pipeline drops that error.
\<close>

lemma failed_dump_reported_success:
  assumes "be_docker env (bw_calls w) (plain_call (tarCreateArgs (bo_ContainerName opts) (bo_Paths opts)) []) = Exited False out"
    and "bo_Paths opts \<noteq> []" "ValidatePaths ''volume'' (bo_Paths opts) = None"
    and "\<not> bad_name (backup_filename env (bo_ContainerName opts) ''.tar.gz'' w)" "\<forall>p. \<not> be_write_fails env p"
    and "st_Backup st = volume_Backup"
  shows "\<exists>res w'. pipeline_RunBackup env st (LocalTarget dir) None opts [] [] w = (Inr res, w') \<and> pr_SizeBytes res = length out"
  using assms
  by (simp add: pipeline_RunBackup_def runPreHooks_def runPostHooks_def volume_Backup_def cmdReadCloser_def combined_output_def
      run_docker_def LocalTarget_def local_Upload_def Let_def)

text \<open>A dump that fails half way leaves its part of the file, which no run names and no retention removes.\<close>

lemma failed_upload_leaves_file:
  assumes "br_read_fails res" "\<not> bad_name name" "\<not> be_write_fails env (join_path [dir, name])"
  shows "fst (local_Upload dir env name res w) = Inl TargetFailed"
    "map_of (bw_files (snd (local_Upload dir env name res w))) (join_path [dir, name]) = Some (br_data res)"
  using assms by (simp_all add: local_Upload_def Let_def)

text \<open>An uploaded archive names no paths, without which SQLite files are never restored.\<close>

lemma sqlite_upload_never_restores: "ro_Paths opts = [] \<Longrightarrow> sqlite_Restore env opts w = (Some NoPaths, w)"
  by (simp add: sqlite_Restore_def)

text \<open>Two backups of one container that begin in the same second write the same file.\<close>

lemma same_second_same_file:
  "be_now env (bw_calls w) = be_now env (bw_calls w') \<Longrightarrow>
     backup_filename env container ext w = backup_filename env container ext w'"
  by (simp add: backup_filename_def)

subsection \<open>Examples\<close>

definition dump_env :: backup_env where
  "dump_env = \<lparr>be_docker = (\<lambda>calls c. Exited True ''dump''), be_containers = (\<lambda>calls. None), be_tar = tar_demo,
     be_gzip = (\<lambda>s. s), be_sha256 = (\<lambda>s. CHR ''h'' # s), be_now = (\<lambda>calls. ''20260101-020000''), be_write_fails = (\<lambda>p. False)\<rparr>"

definition mongo_strategy :: strategy where
  "mongo_strategy = \<lparr>st_Type = ''mongo'', st_Detect = detect_by ''mongo'' mongoKeywords, st_Backup = mongo_Backup, st_Restore = mongo_Restore\<rparr>"

definition dump_opts :: BackupOpts where
  "dump_opts = \<lparr>bo_ContainerName = ''shop-db-1'', bo_Paths = [], bo_Credentials = []\<rparr>"

definition dump_ropts :: RestoreOpts where
  "dump_ropts = \<lparr>ro_ContainerName = ''shop-db-1'', ro_Paths = [], ro_Credentials = [], ro_Reader = Spooled [], ro_Max = -1\<rparr>"

definition no_world :: backup_world where
  "no_world = \<lparr>bw_calls = [], bw_files = []\<rparr>"

definition dump_result :: PipelineResult where
  "dump_result = \<lparr>pr_FilePath = ''shop-db-1-20260101-020000.archive.gz'', pr_SizeBytes = 4, pr_Checksum = ''hdump'', pr_Warnings = []\<rparr>"

definition dump_world :: backup_world where
  "dump_world = \<lparr>bw_calls = [plain_call [''exec'', ''shop-db-1'', ''sh'', ''-c'', mongodump_script] []],
     bw_files = [(''/backups/shop-db-1-20260101-020000.archive.gz'', ''dump'')]\<rparr>"

lemma dump_names: "\<not> bad_name ''shop-db-1-20260101-020000.archive.gz''"
  "join_path [''/backups'', ''shop-db-1-20260101-020000.archive.gz''] = ''/backups/shop-db-1-20260101-020000.archive.gz''"
  by code_simp+

lemma dump_runs: "pipeline_RunBackup dump_env mongo_strategy (LocalTarget ''/backups'') None dump_opts [] [] no_world = (Inr dump_result, dump_world)"
  by (simp add: pipeline_RunBackup_def runPreHooks_def runPostHooks_def mongo_strategy_def mongo_Backup_def cmdReadCloser_def
      combined_output_def run_docker_def LocalTarget_def local_Upload_def Let_def dump_env_def dump_opts_def no_world_def
      mongo_env_args_def label_def backup_filename_def dump_names dump_result_def dump_world_def)

theorem backup_restore_round_trip_witness:
  "\<exists>w1 b w2. st_Backup mongo_strategy dump_env dump_opts w1 = (Inr b, w2) \<and> pr_SizeBytes dump_result = length (br_data b) \<and>
     pipeline_RunRestore dump_env mongo_strategy (LocalTarget ''/backups'') None dump_ropts (pr_FilePath dump_result) (pr_Checksum dump_result) [] [] dump_world =
       (case st_Restore mongo_strategy dump_env (dump_ropts\<lparr>ro_Reader := Spooled (br_data b)\<rparr>) dump_world of
          (err, w4) \<Rightarrow> (err, snd (runPostHooks dump_env None [] w4)))"
  by (rule backup_restore_round_trip [OF dump_runs refl])
    (simp_all add: dump_env_def tar_demo_def dump_ropts_def restoreCap_def runPreHooks_def)

lemma dump_restores:
  "snd (pipeline_RunRestore dump_env mongo_strategy (LocalTarget ''/backups'') (Some ''simpledeploy-shop'') dump_ropts
     ''shop-db-1-20260101-020000.archive.gz'' ''hdump'' [] [] dump_world) \<noteq> dump_world"
  by (simp add: pipeline_RunRestore_def LocalTarget_def local_Download_def dump_names dump_world_def stage_download_def fill_def
      dump_env_def tar_demo_def dump_ropts_def restoreCap_def runPreHooks_def runPostHooks_def mongo_strategy_def mongo_Restore_def
      fed_output_def combined_output_def run_docker_def rd_all_def)

theorem restore_verified_witness:
  "\<exists>r. tg_Download (LocalTarget ''/backups'') dump_env ''shop-db-1-20260101-020000.archive.gz'' dump_world = Inr r \<and>
     be_sha256 dump_env (rd_all r) = ''hdump''"
  using restore_verified [OF _ refl dump_restores] by auto

end
