(* ===== verification/Outbound.thy ===== *)
theory Outbound
  imports GoHttp
begin

text \<open>
  internal/alerts/webhook.go and the address checks of internal/backup/s3.go: which addresses the server connects to
  on behalf of what a user entered. The resolver answers from what happened so far, so a name can change its
  addresses between a check and a connection. The URL parser, the HTTP client's choice of hosts to connect to
  (the first one and those of redirects), JSON decoding and text/template are parameters.
\<close>

subsection \<open>Reserved addresses\<close>

text \<open>The classes of \<open>net.IP\<close>. An address has 4 or 16 bytes; None of these holds for another length.\<close>

definition is_loopback :: "ip \<Rightarrow> bool" where
  "is_loopback a = (case to4 a of Some b \<Rightarrow> b ! 0 = 127 | None \<Rightarrow> a = replicate 15 0 @ [1])"

definition is_private :: "ip \<Rightarrow> bool" where
  "is_private a =
     (case to4 a of
        Some b \<Rightarrow> b ! 0 = 10 \<or> (b ! 0 = 172 \<and> b ! 1 div 16 = 1) \<or> (b ! 0 = 192 \<and> b ! 1 = 168)
      | None \<Rightarrow> length a = 16 \<and> a ! 0 div 2 = 126)"

definition is_link_local_unicast :: "ip \<Rightarrow> bool" where
  "is_link_local_unicast a =
     (case to4 a of
        Some b \<Rightarrow> b ! 0 = 169 \<and> b ! 1 = 254
      | None \<Rightarrow> length a = 16 \<and> a ! 0 = 254 \<and> a ! 1 div 64 = 2)"

definition is_link_local_multicast :: "ip \<Rightarrow> bool" where
  "is_link_local_multicast a =
     (case to4 a of
        Some b \<Rightarrow> b ! 0 = 224 \<and> b ! 1 = 0 \<and> b ! 2 = 0
      | None \<Rightarrow> length a = 16 \<and> a ! 0 = 255 \<and> a ! 1 mod 16 = 2)"

definition is_multicast :: "ip \<Rightarrow> bool" where
  "is_multicast a =
     (case to4 a of
        Some b \<Rightarrow> b ! 0 div 16 = 14
      | None \<Rightarrow> length a = 16 \<and> a ! 0 = 255)"

definition is_unspecified :: "ip \<Rightarrow> bool" where
  "is_unspecified a = (case to4 a of Some b \<Rightarrow> b = [0, 0, 0, 0] | None \<Rightarrow> a = replicate 16 0)"

definition extraReservedRanges :: "ipnet list" where
  "extraReservedRanges = List.map_filter parse_cidr
     [''0.0.0.0/8'', ''100.64.0.0/10'', ''192.0.0.0/24'', ''192.0.2.0/24'', ''198.18.0.0/15'', ''198.51.100.0/24'',
      ''203.0.113.0/24'', ''240.0.0.0/4'', ''::/128'', ''::1/128'', ''100::/64'', ''fc00::/7'', ''64:ff9b:1::/48'']"

definition s3ReservedRanges :: "ipnet list" where
  "s3ReservedRanges = List.map_filter parse_cidr
     [''0.0.0.0/8'', ''100.64.0.0/10'', ''192.0.0.0/24'', ''192.0.2.0/24'', ''198.18.0.0/15'', ''198.51.100.0/24'',
      ''203.0.113.0/24'', ''240.0.0.0/4'', ''::/96'', ''64:ff9b:1::/48'', ''100::/64'', ''2001:db8::/32'', ''fc00::/7'',
      ''fec0::/10'']"

definition nat64WellKnown :: ipnet where
  "nat64WellKnown = \<lparr>net_ip = [0, 100, 255, 155] @ replicate 12 0, net_ones = 96, net_mask_len = 16\<rparr>"

text \<open>
  The recursion of the code is one step deep: the four bytes embedded in a NAT64 address are an IPv4 address, and
  a nil address (no bytes) is reserved.
\<close>

definition reserved_class :: "ipnet list \<Rightarrow> ip \<Rightarrow> bool" where
  "reserved_class ranges a \<longleftrightarrow>
     is_loopback a \<or> is_private a \<or> is_link_local_unicast a \<or> is_link_local_multicast a \<or> is_multicast a \<or> is_unspecified a \<or>
     list_ex (\<lambda>n. net_contains n a) ranges"

definition isReservedIP :: "ipnet list \<Rightarrow> ip \<Rightarrow> bool" where
  "isReservedIP ranges a \<longleftrightarrow>
     (if a = [] then True
      else if length a = 16 \<and> to4 a = None \<and> net_contains nat64WellKnown a then reserved_class ranges (drop 12 a)
      else reserved_class ranges a)"

text \<open>The ranges as bytes.\<close>

lemma replicate_num: "replicate (numeral k) x = x # replicate (pred_numeral k) x"
  by (simp add: numeral_eq_Suc)

lemmas ipv6_loop_num = parse_ipv6_loop.simps(2) [of "pred_numeral n" for n, folded numeral_eq_Suc]

lemma cidr_bytes:
  "parse_cidr ''0.0.0.0/8'' = Some \<lparr>net_ip = [0, 0, 0, 0], net_ones = 8, net_mask_len = 4\<rparr>"
  "parse_cidr ''100.64.0.0/10'' = Some \<lparr>net_ip = [100, 64, 0, 0], net_ones = 10, net_mask_len = 4\<rparr>"
  "parse_cidr ''192.0.0.0/24'' = Some \<lparr>net_ip = [192, 0, 0, 0], net_ones = 24, net_mask_len = 4\<rparr>"
  "parse_cidr ''192.0.2.0/24'' = Some \<lparr>net_ip = [192, 0, 2, 0], net_ones = 24, net_mask_len = 4\<rparr>"
  "parse_cidr ''198.18.0.0/15'' = Some \<lparr>net_ip = [198, 18, 0, 0], net_ones = 15, net_mask_len = 4\<rparr>"
  "parse_cidr ''198.51.100.0/24'' = Some \<lparr>net_ip = [198, 51, 100, 0], net_ones = 24, net_mask_len = 4\<rparr>"
  "parse_cidr ''203.0.113.0/24'' = Some \<lparr>net_ip = [203, 0, 113, 0], net_ones = 24, net_mask_len = 4\<rparr>"
  "parse_cidr ''240.0.0.0/4'' = Some \<lparr>net_ip = [240, 0, 0, 0], net_ones = 4, net_mask_len = 4\<rparr>"
  "parse_cidr ''::/128'' = Some \<lparr>net_ip = [0, 0, 0, 0, 0, 0, 0, 0, 0, 0, 0, 0, 0, 0, 0, 0], net_ones = 128, net_mask_len = 16\<rparr>"
  "parse_cidr ''::1/128'' = Some \<lparr>net_ip = [0, 0, 0, 0, 0, 0, 0, 0, 0, 0, 0, 0, 0, 0, 0, 1], net_ones = 128, net_mask_len = 16\<rparr>"
  "parse_cidr ''100::/64'' = Some \<lparr>net_ip = [1, 0, 0, 0, 0, 0, 0, 0, 0, 0, 0, 0, 0, 0, 0, 0], net_ones = 64, net_mask_len = 16\<rparr>"
  "parse_cidr ''fc00::/7'' = Some \<lparr>net_ip = [252, 0, 0, 0, 0, 0, 0, 0, 0, 0, 0, 0, 0, 0, 0, 0], net_ones = 7, net_mask_len = 16\<rparr>"
  "parse_cidr ''64:ff9b:1::/48'' = Some \<lparr>net_ip = [0, 100, 255, 155, 0, 1, 0, 0, 0, 0, 0, 0, 0, 0, 0, 0], net_ones = 48, net_mask_len = 16\<rparr>"
  "parse_cidr ''::/96'' = Some \<lparr>net_ip = [0, 0, 0, 0, 0, 0, 0, 0, 0, 0, 0, 0, 0, 0, 0, 0], net_ones = 96, net_mask_len = 16\<rparr>"
  "parse_cidr ''2001:db8::/32'' = Some \<lparr>net_ip = [32, 1, 13, 184, 0, 0, 0, 0, 0, 0, 0, 0, 0, 0, 0, 0], net_ones = 32, net_mask_len = 16\<rparr>"
  "parse_cidr ''fec0::/10'' = Some \<lparr>net_ip = [254, 192, 0, 0, 0, 0, 0, 0, 0, 0, 0, 0, 0, 0, 0, 0], net_ones = 10, net_mask_len = 16\<rparr>"
  by (simp_all add: go_simps Let_def ipv6_loop_num replicate_num)

subsection \<open>What the ranges mean\<close>

definition bytes_ok :: "ip \<Rightarrow> bool" where
  "bytes_ok a \<longleftrightarrow> (\<forall>b \<in> set a. b < 256)"

text \<open>IPv4, by its bytes: this network, 10/8, shared, loopback, link local, the private and test networks, and 224 up.\<close>

fun reserved_v4 :: "ip \<Rightarrow> bool" where
  "reserved_v4 [a, b, c, d] \<longleftrightarrow>
     a = 0 \<or> a = 10 \<or> (a = 100 \<and> 64 \<le> b \<and> b \<le> 127) \<or> a = 127 \<or> (a = 169 \<and> b = 254) \<or> (a = 172 \<and> 16 \<le> b \<and> b \<le> 31) \<or>
     (a = 192 \<and> b = 168) \<or> (a = 192 \<and> b = 0 \<and> c \<in> {0, 2}) \<or> (a = 198 \<and> b \<in> {18, 19}) \<or> (a = 198 \<and> b = 51 \<and> c = 100) \<or>
     (a = 203 \<and> b = 0 \<and> c = 113) \<or> 224 \<le> a"
| "reserved_v4 _ \<longleftrightarrow> True"

text \<open>
  IPv6: unspecified, loopback, unique local, link local, multicast, discard, and local NAT64, which are the ranges
  docs/architecture/alerts.md lists; IPv4-compatible and site-local addresses are in the list of the S3 target only.
\<close>

definition reserved_v6 :: "ip \<Rightarrow> bool" where
  "reserved_v6 a \<longleftrightarrow>
     a = replicate 16 0 \<or> a = replicate 15 0 @ [1] \<or> a ! 0 \<in> {252, 253} \<or> (a ! 0 = 254 \<and> 128 \<le> a ! 1 \<and> a ! 1 \<le> 191) \<or>
     a ! 0 = 255 \<or> take 8 a = [1, 0, 0, 0, 0, 0, 0, 0] \<or> take 6 a = [0, 100, 255, 155, 0, 1]"

definition nat64_prefix :: ip where
  "nat64_prefix = [0, 100, 255, 155, 0, 0, 0, 0, 0, 0, 0, 0]"

definition reserved_ip :: "ip \<Rightarrow> bool" where
  "reserved_ip a \<longleftrightarrow>
     (case to4 a of
        Some b \<Rightarrow> reserved_v4 b
      | None \<Rightarrow> if take 12 a = nat64_prefix then reserved_v4 (drop 12 a) else reserved_v6 a)"

lemma ranges_bytes:
  "extraReservedRanges = map (\<lambda>s. the (parse_cidr s))
     [''0.0.0.0/8'', ''100.64.0.0/10'', ''192.0.0.0/24'', ''192.0.2.0/24'', ''198.18.0.0/15'', ''198.51.100.0/24'',
      ''203.0.113.0/24'', ''240.0.0.0/4'', ''::/128'', ''::1/128'', ''100::/64'', ''fc00::/7'', ''64:ff9b:1::/48'']"
  by (simp add: extraReservedRanges_def List.map_filter_def cidr_bytes)

lemma div_between:
  assumes "0 < k"
  shows "(b::nat) div k = m \<longleftrightarrow> m * k \<le> b \<and> b < m * k + k"
  using less_eq_div_iff_mult_less_eq [OF assms, of m b] div_less_iff_less_mult [OF assms, of b "Suc m"] by (auto simp: add.commute)

lemma contains_quad:
  "net_contains \<lparr>net_ip = [p, q, r, s], net_ones = n, net_mask_len = 4\<rparr> [a, b, c, d] \<longleftrightarrow>
     mask_byte n p = mask_byte n a \<and> mask_byte (n - 8) q = mask_byte (n - 8) b \<and>
     mask_byte (n - 8 - 8) r = mask_byte (n - 8 - 8) c \<and> mask_byte (n - 8 - 8 - 8) s = mask_byte (n - 8 - 8 - 8) d"
  by (simp add: net_contains_def to4_def Let_def)

lemma reserved_class_v4:
  assumes "length x = 4" "bytes_ok x"
  shows "reserved_class extraReservedRanges x \<longleftrightarrow> reserved_v4 x"
proof -
  obtain a b c d where x: "x = [a, b, c, d]" using assms(1) by (auto simp: length_Suc_conv numeral_eq_Suc)
  have l: "a < 256" "b < 256" "c < 256" "d < 256" using assms(2) by (simp_all add: x bytes_ok_def)
  have cls: "is_loopback x \<longleftrightarrow> a = 127" "is_private x \<longleftrightarrow> a = 10 \<or> (a = 172 \<and> b div 16 = 1) \<or> (a = 192 \<and> b = 168)"
      "is_link_local_unicast x \<longleftrightarrow> a = 169 \<and> b = 254" "is_multicast x \<longleftrightarrow> a div 16 = 14" "is_unspecified x \<longrightarrow> a = 0"
      "is_link_local_multicast x \<longrightarrow> a = 224"
    by (simp_all add: x is_loopback_def is_private_def is_link_local_unicast_def is_multicast_def is_unspecified_def
        is_link_local_multicast_def to4_def)
  have z: "mask_byte 0 y = 0" if "y < 256" for y using that by (simp add: mask_byte_def)
  have c: "net_contains (the (parse_cidr ''0.0.0.0/8'')) x \<longleftrightarrow> a = 0" "net_contains (the (parse_cidr ''100.64.0.0/10'')) x \<longleftrightarrow> a = 100 \<and> b div 64 = 1"
      "net_contains (the (parse_cidr ''192.0.0.0/24'')) x \<longleftrightarrow> a = 192 \<and> b = 0 \<and> c = 0" "net_contains (the (parse_cidr ''192.0.2.0/24'')) x \<longleftrightarrow> a = 192 \<and> b = 0 \<and> c = 2"
      "net_contains (the (parse_cidr ''198.18.0.0/15'')) x \<longleftrightarrow> a = 198 \<and> b div 2 = 9" "net_contains (the (parse_cidr ''198.51.100.0/24'')) x \<longleftrightarrow> a = 198 \<and> b = 51 \<and> c = 100"
      "net_contains (the (parse_cidr ''203.0.113.0/24'')) x \<longleftrightarrow> a = 203 \<and> b = 0 \<and> c = 113" "net_contains (the (parse_cidr ''240.0.0.0/4'')) x \<longleftrightarrow> a div 16 = 15"
    unfolding cidr_bytes option.sel x contains_quad using l by (auto simp: z mask_byte_def)
  have v6: "\<not> net_contains (the (parse_cidr s)) x" if "s \<in> {''::/128'', ''::1/128'', ''100::/64'', ''fc00::/7'', ''64:ff9b:1::/48''}" for s
    using that assms(1) by (auto simp: cidr_bytes net_contains_def to4_def v4_prefix_def Let_def replicate_num)
  have rng: "list_ex (\<lambda>n. net_contains n x) extraReservedRanges \<longleftrightarrow>
      a = 0 \<or> (a = 100 \<and> b div 64 = 1) \<or> (a = 192 \<and> b = 0 \<and> c = 0) \<or> (a = 192 \<and> b = 0 \<and> c = 2) \<or> (a = 198 \<and> b div 2 = 9) \<or>
      (a = 198 \<and> b = 51 \<and> c = 100) \<or> (a = 203 \<and> b = 0 \<and> c = 113) \<or> a div 16 = 15"
    unfolding ranges_bytes by (simp add: c v6)
  have "b div 16 = 1 \<longleftrightarrow> 16 \<le> b \<and> b \<le> 31" "b div 64 = 1 \<longleftrightarrow> 64 \<le> b \<and> b \<le> 127" "b div 2 = 9 \<longleftrightarrow> b = 18 \<or> b = 19"
    by (auto simp: div_between)
  moreover have "a div 16 = 14 \<or> a div 16 = 15 \<longleftrightarrow> 224 \<le> a" using l(1) by (auto simp: div_between)
  ultimately have t: "b div 16 = 1 \<longleftrightarrow> 16 \<le> b \<and> b \<le> 31" "b div 64 = 1 \<longleftrightarrow> 64 \<le> b \<and> b \<le> 127" "b div 2 = 9 \<longleftrightarrow> b = 18 \<or> b = 19"
      "a div 16 = 14 \<or> a div 16 = 15 \<longleftrightarrow> 224 \<le> a" "a = 224 \<longrightarrow> 224 \<le> a" by simp_all
  show ?thesis
    unfolding reserved_class_def rng cls(1-4) t(1-3)
    unfolding x reserved_v4.simps insert_iff empty_iff
    using cls(5,6) [unfolded x] t(4,5) by argo
qed

lemma reserved_class_mapped: "to4 a = Some b \<Longrightarrow> reserved_class ranges a = reserved_class ranges b"
proof -
  assume a: "to4 a = Some b"
  then have b: "to4 b = Some b" by (auto simp: to4_def split: if_splits)
  then show ?thesis using a
    by (simp add: reserved_class_def is_loopback_def is_private_def is_link_local_unicast_def is_multicast_def is_unspecified_def
        is_link_local_multicast_def net_contains_def)
qed

lemma mask_octets: "bytes_ok bs \<Longrightarrow> mask_bytes (8 * k) bs = take k bs @ replicate (length bs - k) 0"
proof (induction bs arbitrary: k)
  case (Cons b bs)
  then have b: "b < 256" "bytes_ok bs" by (simp_all add: bytes_ok_def)
  show ?case
  proof (cases k)
    case 0
    then show ?thesis using Cons.IH [OF b(2), of 0] b(1) by (simp add: mask_byte_def)
  next
    case (Suc j)
    then show ?thesis using Cons.IH [OF b(2), of j] by (simp add: mask_byte_def)
  qed
qed simp

lemma contains_v6:
  assumes "length a = 16" "to4 a = None" "bytes_ok a" "length (net_ip n) = 16" "to4 (net_ip n) = None" "bytes_ok (net_ip n)" "net_mask_len n = 16"
  shows "net_ones n = 8 * k \<Longrightarrow> k \<le> 16 \<Longrightarrow> net_contains n a \<longleftrightarrow> take k (net_ip n) = take k a"
    "net_contains n a \<longleftrightarrow> mask_bytes (net_ones n) (net_ip n) = mask_bytes (net_ones n) a"
proof -
  show c: "net_contains n a \<longleftrightarrow> mask_bytes (net_ones n) (net_ip n) = mask_bytes (net_ones n) a"
    using assms by (simp add: net_contains_def Let_def)
  show "net_contains n a \<longleftrightarrow> take k (net_ip n) = take k a" if "net_ones n = 8 * k" "k \<le> 16"
    unfolding c that(1) mask_octets [OF assms(3)] mask_octets [OF assms(6)] using assms(1,4) that(2) by simp
qed

lemma contains_other_length: "length a = 16 \<Longrightarrow> to4 a = None \<Longrightarrow> length (net_ip n) = 4 \<Longrightarrow> \<not> net_contains n a"
  by (simp add: net_contains_def to4_def Let_def)

lemma reserved_class_v6:
  assumes "length a = 16" "to4 a = None" "bytes_ok a"
  shows "reserved_class extraReservedRanges a \<longleftrightarrow> reserved_v6 a"
proof -
  obtain a0 a1 r where a: "a = a0 # a1 # r" "length r = 14" using assms(1) by (auto simp: length_Suc_conv numeral_eq_Suc)
  have l: "a0 < 256" "a1 < 256" using assms(3) by (simp_all add: a bytes_ok_def)
  note v6 = contains_v6 [OF assms]
  have t: "to4 (replicate 16 0) = None" "to4 (replicate 15 0 @ [1]) = None" by (simp_all add: to4_def v4_prefix_def replicate_num)
  have c: "net_contains (the (parse_cidr ''::/128'')) a \<longleftrightarrow> a = replicate 16 0"
      "net_contains (the (parse_cidr ''::1/128'')) a \<longleftrightarrow> a = replicate 15 0 @ [1]"
      "net_contains (the (parse_cidr ''100::/64'')) a \<longleftrightarrow> take 8 a = [1, 0, 0, 0, 0, 0, 0, 0]"
      "net_contains (the (parse_cidr ''64:ff9b:1::/48'')) a \<longleftrightarrow> take 6 a = [0, 100, 255, 155, 0, 1]"
    using assms(1) v6(1) [of _ 16] v6(1) [of _ 8] v6(1) [of _ 6]
    by (auto simp: cidr_bytes to4_def v4_prefix_def bytes_ok_def replicate_num)
  have "bytes_ok r" using assms(3) by (simp add: a bytes_ok_def)
  then have rest: "mask_bytes 0 r = replicate 14 0" using mask_octets [of r 0] a(2) by simp
  have "net_contains (the (parse_cidr ''fc00::/7'')) a \<longleftrightarrow> mask_bytes 7 (252 # replicate 15 0) = mask_bytes 7 a"
    unfolding cidr_bytes option.sel
    by (subst v6(2)) (simp_all add: to4_def v4_prefix_def bytes_ok_def replicate_num)
  also have "\<dots> \<longleftrightarrow> mask_byte 7 252 = mask_byte 7 a0"
    using l rest by (simp add: a(1) mask_byte_def replicate_num)
  also have "\<dots> \<longleftrightarrow> a0 div 2 = 126" by (auto simp: mask_byte_def)
  also have "\<dots> \<longleftrightarrow> a0 \<in> {252, 253}" by (auto simp: div_between)
  finally have fc: "net_contains (the (parse_cidr ''fc00::/7'')) a \<longleftrightarrow> a0 \<in> {252, 253}" .
  have v4: "\<not> net_contains (the (parse_cidr s)) a" if "s \<in> {''0.0.0.0/8'', ''100.64.0.0/10'', ''192.0.0.0/24'', ''192.0.2.0/24'',
      ''198.18.0.0/15'', ''198.51.100.0/24'', ''203.0.113.0/24'', ''240.0.0.0/4''}" for s
    using that by (intro contains_other_length [OF assms(1,2)]) (auto simp: cidr_bytes)
  have rng: "list_ex (\<lambda>n. net_contains n a) extraReservedRanges \<longleftrightarrow>
      a = replicate 16 0 \<or> a = replicate 15 0 @ [1] \<or> take 8 a = [1, 0, 0, 0, 0, 0, 0, 0] \<or> a0 \<in> {252, 253} \<or> take 6 a = [0, 100, 255, 155, 0, 1]"
    unfolding ranges_bytes by (simp add: c fc v4)
  have cls: "is_loopback a \<longleftrightarrow> a = replicate 15 0 @ [1]" "is_private a \<longleftrightarrow> a0 \<in> {252, 253}"
      "is_link_local_unicast a \<longleftrightarrow> a0 = 254 \<and> 128 \<le> a1 \<and> a1 \<le> 191" "is_multicast a \<longleftrightarrow> a0 = 255"
      "is_unspecified a \<longleftrightarrow> a = replicate 16 0" "is_link_local_multicast a \<longrightarrow> a0 = 255"
  proof -
    have "a0 div 2 = 126 \<longleftrightarrow> a0 \<in> {252, 253}" "a1 div 64 = 2 \<longleftrightarrow> 128 \<le> a1 \<and> a1 \<le> 191" by (auto simp: div_between)
    then show "is_loopback a \<longleftrightarrow> a = replicate 15 0 @ [1]" "is_private a \<longleftrightarrow> a0 \<in> {252, 253}"
      "is_link_local_unicast a \<longleftrightarrow> a0 = 254 \<and> 128 \<le> a1 \<and> a1 \<le> 191" "is_multicast a \<longleftrightarrow> a0 = 255"
      "is_unspecified a \<longleftrightarrow> a = replicate 16 0" "is_link_local_multicast a \<longrightarrow> a0 = 255"
      using assms(1,2) a(1) by (simp_all add: is_loopback_def is_private_def is_link_local_unicast_def is_multicast_def
          is_unspecified_def is_link_local_multicast_def)
  qed
  show ?thesis unfolding reserved_class_def rng cls(1-5) reserved_v6_def using cls(6) by (auto simp: a(1))
qed

lemma nat64_contains:
  assumes "length a = 16" "to4 a = None" "bytes_ok a"
  shows "net_contains nat64WellKnown a \<longleftrightarrow> take 12 a = nat64_prefix"
  using contains_v6(1) [OF assms, of nat64WellKnown 12]
  by (auto simp: nat64WellKnown_def nat64_prefix_def to4_def v4_prefix_def bytes_ok_def replicate_num)

lemma isReservedIP_eq_reserved:
  assumes "length a = 4 \<or> length a = 16" "bytes_ok a"
  shows "isReservedIP extraReservedRanges a \<longleftrightarrow> reserved_ip a"
proof (cases "to4 a")
  case (Some b)
  then have b: "length b = 4" "bytes_ok b" using assms by (auto simp: to4_def bytes_ok_def v4_prefix_def split: if_splits dest: in_set_dropD)
  have "isReservedIP extraReservedRanges a = reserved_class extraReservedRanges a" using Some assms(1) by (auto simp: isReservedIP_def)
  then show ?thesis using reserved_class_v4 [OF b] Some by (simp add: reserved_class_mapped [OF Some] reserved_ip_def)
next
  case None
  then have l: "length a = 16" using assms(1) by (auto simp: to4_def split: if_splits)
  have d: "length (drop 12 a) = 4" "bytes_ok (drop 12 a)" using l assms(2) by (auto simp: bytes_ok_def dest: in_set_dropD)
  show ?thesis
  proof (cases "take 12 a = nat64_prefix")
    case True
    then show ?thesis using nat64_contains [OF l None assms(2)] None l reserved_class_v4 [OF d] by (auto simp: isReservedIP_def reserved_ip_def)
  next
    case False
    then show ?thesis using nat64_contains [OF l None assms(2)] None l reserved_class_v6 [OF l None assms(2)] by (auto simp: isReservedIP_def reserved_ip_def)
  qed
qed

text \<open>
  The check of the webhook dispatcher, a list of ranges in CIDR notation next to the classes of Go's
  net package, refuses exactly the documented ranges, by their bytes; an IPv4 address is judged alike
  however it is written: in 4 bytes, mapped into 16, or embedded behind the NAT64 prefix.
\<close>

theorem isReservedIP_spec:
  assumes "length a = 4 \<or> length a = 16" "bytes_ok a"
  shows "isReservedIP extraReservedRanges a \<longleftrightarrow> reserved_ip a"
  using assms by (rule isReservedIP_eq_reserved)

theorem isReservedIP_spec_witness:
  "isReservedIP extraReservedRanges [0, 100, 255, 155, 0, 0, 0, 0, 0, 0, 0, 0, 127, 0, 0, 1] \<and>
   \<not> isReservedIP extraReservedRanges [8, 8, 8, 8]"
  using isReservedIP_spec [of "[0, 100, 255, 155, 0, 0, 0, 0, 0, 0, 0, 0, 127, 0, 0, 1]"] isReservedIP_spec [of "[8, 8, 8, 8]"]
  by (simp_all add: reserved_ip_def to4_def v4_prefix_def nat64_prefix_def bytes_ok_def replicate_num)

subsection \<open>Connections\<close>

datatype net_event = Looked string | Dialled ip string | DialledAddr string

record net_env =
  ne_lookup :: "net_event list \<Rightarrow> string \<Rightarrow> ip list option"
  ne_connect :: "net_event list \<Rightarrow> bool"
  ne_url :: "string \<Rightarrow> (string \<times> string \<times> string) option"
  ne_allow_private_s3 :: bool

text \<open>\<open>safeDialer\<close> tries the addresses a name has now, the reserved ones left out.\<close>

fun dial_ips :: "net_env \<Rightarrow> bool \<Rightarrow> string \<Rightarrow> ip list \<Rightarrow> net_event list \<Rightarrow> bool \<times> net_event list" where
  "dial_ips env allowPrivate port [] t = (False, t)"
| "dial_ips env allowPrivate port (a # as) t =
     (if \<not> allowPrivate \<and> isReservedIP extraReservedRanges a then dial_ips env allowPrivate port as t
      else let t' = t @ [Dialled a port] in
        if ne_connect env t' then (True, t') else dial_ips env allowPrivate port as t')"

definition safeDialer :: "net_env \<Rightarrow> bool \<Rightarrow> string \<Rightarrow> net_event list \<Rightarrow> bool \<times> net_event list" where
  "safeDialer env allowPrivate addr t =
     (case split_host_port addr of
        None \<Rightarrow> (False, t)
      | Some (host, port) \<Rightarrow>
          let t' = t @ [Looked host] in
          (case ne_lookup env t host of None \<Rightarrow> (False, t') | Some ips \<Rightarrow> dial_ips env allowPrivate port ips t'))"

text \<open>The client dials the host of the URL and then those of redirects, each with the dialer, until one fails.\<close>

fun client_dials :: "net_env \<Rightarrow> bool \<Rightarrow> string list \<Rightarrow> net_event list \<Rightarrow> bool \<times> net_event list" where
  "client_dials env allowPrivate [] t = (True, t)"
| "client_dials env allowPrivate (addr # addrs) t =
     (case safeDialer env allowPrivate addr t of
        (True, t') \<Rightarrow> client_dials env allowPrivate addrs t'
      | (False, t') \<Rightarrow> (False, t'))"

definition validateWebhookURL :: "net_env \<Rightarrow> string \<Rightarrow> net_event list \<Rightarrow> bool \<times> net_event list" where
  "validateWebhookURL env rawURL t =
     (case ne_url env rawURL of
        None \<Rightarrow> (False, t)
      | Some (scheme, host, hostname) \<Rightarrow>
          if scheme \<noteq> ''http'' \<and> scheme \<noteq> ''https'' then (False, t)
          else (case ne_lookup env t hostname of
                  None \<Rightarrow> (False, t @ [Looked hostname])
                | Some ips \<Rightarrow> (\<not> list_ex (isReservedIP extraReservedRanges) ips, t @ [Looked hostname])))"

subsection \<open>S3 endpoints\<close>

datatype s3_error = S3NotURL | S3NotResolved | S3Blocked

definition resolveS3Host :: "net_env \<Rightarrow> string \<Rightarrow> net_event list \<Rightarrow> ip list option \<times> net_event list" where
  "resolveS3Host env host t =
     (case parse_ip host of
        Some a \<Rightarrow> (Some [a], t)
      | None \<Rightarrow>
          (case ne_lookup env t host of
             None \<Rightarrow> (None, t @ [Looked host])
           | Some ips \<Rightarrow> (if ips = [] then None else Some ips, t @ [Looked host])))"

definition ValidateS3Endpoint :: "net_env \<Rightarrow> string \<Rightarrow> net_event list \<Rightarrow> s3_error option \<times> net_event list" where
  "ValidateS3Endpoint env endpoint t =
     (if endpoint = [] then (None, t)
      else case ne_url env endpoint of
        None \<Rightarrow> (Some S3NotURL, t)
      | Some (scheme, host, hostname) \<Rightarrow>
          if host = [] \<or> (scheme \<noteq> ''http'' \<and> scheme \<noteq> ''https'') then (Some S3NotURL, t)
          else if ne_allow_private_s3 env then (None, t)
          else (case resolveS3Host env hostname t of
                  (None, t') \<Rightarrow> (Some S3NotResolved, t')
                | (Some ips, t') \<Rightarrow> (if list_ex (isReservedIP s3ReservedRanges) ips then Some S3Blocked else None, t')))"

text \<open>Control sees the address of each connection attempt; one that is no IP address is refused.\<close>

definition s3DialControl :: "string \<Rightarrow> bool" where
  "s3DialControl address =
     (case split_host_port address of
        None \<Rightarrow> False
      | Some (host, port) \<Rightarrow> (case parse_ip host of None \<Rightarrow> False | Some a \<Rightarrow> \<not> isReservedIP s3ReservedRanges a))"

fun dial_controlled :: "net_env \<Rightarrow> bool \<Rightarrow> string list \<Rightarrow> net_event list \<Rightarrow> bool \<times> net_event list" where
  "dial_controlled env guarded [] t = (False, t)"
| "dial_controlled env guarded (addr # addrs) t =
     (if guarded \<and> \<not> s3DialControl addr then dial_controlled env guarded addrs t
      else let t' = t @ [DialledAddr addr] in if ne_connect env t' then (True, t') else dial_controlled env guarded addrs t')"

text \<open>A dial of a proxy that was chosen before skips the check; the addresses are those the resolver gave.\<close>

definition s3SafeDialContext :: "net_env \<Rightarrow> string list \<Rightarrow> string \<Rightarrow> string list \<Rightarrow> net_event list \<Rightarrow> bool \<times> net_event list" where
  "s3SafeDialContext env proxies addr resolved t = dial_controlled env (addr \<notin> set proxies) resolved t"

definition proxyDialAddr :: "string \<Rightarrow> string \<Rightarrow> string \<Rightarrow> string" where
  "proxyDialAddr scheme hostname port =
     (let p = (if port \<noteq> [] then port else if scheme = ''https'' then ''443''
               else if scheme = ''socks5'' \<or> scheme = ''socks5h'' then ''1080'' else ''80'')
      in (if CHR '':'' \<in> set hostname then ''['' @ hostname @ '']:'' @ p else hostname @ '':'' @ p))"

text \<open>A target for an endpoint of one's own behind a proxy is made only when the endpoint passes the check.\<close>

definition NewS3Target_checks :: "net_env \<Rightarrow> (string \<Rightarrow> bool) \<Rightarrow> string \<Rightarrow> net_event list \<Rightarrow> s3_error option \<times> net_event list" where
  "NewS3Target_checks env proxied endpoint t =
     (if endpoint \<noteq> [] \<and> \<not> ne_allow_private_s3 env \<and> proxied endpoint then ValidateS3Endpoint env endpoint t else (None, t))"

lemma s3_dials_checked:
  "addr \<notin> set proxies \<Longrightarrow> snd (s3SafeDialContext env proxies addr resolved t) = t @ d \<Longrightarrow>
     \<forall>x \<in> set d. \<exists>a. x = DialledAddr a \<and> s3DialControl a"
proof -
  have "\<exists>d. snd (dial_controlled env True resolved t) = t @ d \<and> (\<forall>x \<in> set d. \<exists>a. x = DialledAddr a \<and> s3DialControl a)"
  proof (induction resolved arbitrary: t)
    case (Cons r rs)
    show ?case
    proof (cases "s3DialControl r")
      case True
      obtain d where "snd (dial_controlled env True rs (t @ [DialledAddr r])) = (t @ [DialledAddr r]) @ d"
          "\<forall>x \<in> set d. \<exists>a. x = DialledAddr a \<and> s3DialControl a" using Cons.IH by blast
      then show ?thesis using True by (auto simp: Let_def)
    qed (use Cons.IH in simp)
  qed simp
  then show "addr \<notin> set proxies \<Longrightarrow> snd (s3SafeDialContext env proxies addr resolved t) = t @ d \<Longrightarrow>
     \<forall>x \<in> set d. \<exists>a. x = DialledAddr a \<and> s3DialControl a" by (auto simp: s3SafeDialContext_def)
qed

subsection \<open>Nothing private is dialled\<close>

definition lookups_ok :: "net_env \<Rightarrow> bool" where
  "lookups_ok env \<longleftrightarrow>
     (\<forall>t host ips. ne_lookup env t host = Some ips \<longrightarrow> (\<forall>a \<in> set ips. (length a = 4 \<or> length a = 16) \<and> bytes_ok a))"

definition dials_unreserved :: "net_event list \<Rightarrow> bool" where
  "dials_unreserved d \<longleftrightarrow> (\<forall>a port. Dialled a port \<in> set d \<longrightarrow> \<not> reserved_ip a)"

lemma dial_ips_public:
  assumes "\<forall>a \<in> set ips. (length a = 4 \<or> length a = 16) \<and> bytes_ok a"
  shows "\<exists>d. snd (dial_ips env False port ips t) = t @ d \<and> dials_unreserved d"
  using assms
proof (induction ips arbitrary: t)
  case (Cons a as)
  show ?case
  proof (cases "isReservedIP extraReservedRanges a")
    case False
    then have a: "\<not> reserved_ip a" using isReservedIP_eq_reserved Cons.prems by simp
    obtain d where "snd (dial_ips env False port as (t @ [Dialled a port])) = (t @ [Dialled a port]) @ d" "dials_unreserved d"
      using Cons by fastforce
    then show ?thesis using a False by (auto simp: Let_def dials_unreserved_def)
  qed (use Cons in simp)
qed (simp add: dials_unreserved_def)

lemma safeDialer_unreserved:
  assumes "lookups_ok env"
  shows "\<exists>d. snd (safeDialer env False addr t) = t @ d \<and> dials_unreserved d"
proof (cases "split_host_port addr")
  case (Some hp)
  obtain host port where hp: "hp = (host, port)" by fastforce
  show ?thesis
  proof (cases "ne_lookup env t host")
    case (Some ips)
    then obtain d where "snd (dial_ips env False port ips (t @ [Looked host])) = (t @ [Looked host]) @ d" "dials_unreserved d"
      using dial_ips_public assms unfolding lookups_ok_def by blast
    then show ?thesis using \<open>split_host_port addr = Some hp\<close> hp Some by (auto simp: safeDialer_def Let_def dials_unreserved_def)
  qed (use Some hp in \<open>simp add: safeDialer_def dials_unreserved_def\<close>)
qed (simp add: safeDialer_def dials_unreserved_def)

lemma client_dials_unreserved:
  assumes "lookups_ok env"
  shows "\<exists>d. snd (client_dials env False addrs t) = t @ d \<and> dials_unreserved d"
proof (induction addrs arbitrary: t)
  case (Cons addr addrs)
  obtain ok t' where s: "safeDialer env False addr t = (ok, t')" by fastforce
  obtain d where d: "t' = t @ d" "dials_unreserved d" using safeDialer_unreserved [OF assms, of addr t] s by auto
  show ?case
  proof (cases ok)
    case True
    obtain e where "snd (client_dials env False addrs t') = t' @ e" "dials_unreserved e" using Cons by blast
    then show ?thesis using s True d by (auto simp: dials_unreserved_def)
  qed (use s d in simp)
qed (simp add: dials_unreserved_def)

end
