(* ===== verification/Webhook.thy ===== *)
theory Webhook
  imports Outbound "HOL-Library.Word"
begin

text \<open>
  internal/alerts/types.go and the sending half of internal/alerts/webhook.go: events, the text they are turned into, and
  the request that delivers one. Parsing and executing a text/template, formatting of floats, the decoding of the header
  object and the hosts the HTTP client dials are parameters.
\<close>

subsection \<open>Floats\<close>

text \<open>
  A float64 is its 64 bits. Comparing two of them is done on the bits: nothing compares with a NaN, and the
  magnitudes order like their bit patterns, zero having two.
\<close>

type_synonym float64 = "64 word"

definition f_mag :: "float64 \<Rightarrow> int" where
  "f_mag x = uint x mod 2 ^ 63"

definition f_nan :: "float64 \<Rightarrow> bool" where
  "f_nan x \<longleftrightarrow> f_mag x > 2047 * 2 ^ 52"

definition f_key :: "float64 \<Rightarrow> int" where
  "f_key x = (if uint x < 2 ^ 63 then f_mag x else - f_mag x)"

definition f_lt :: "float64 \<Rightarrow> float64 \<Rightarrow> bool" where
  "f_lt x y \<longleftrightarrow> \<not> f_nan x \<and> \<not> f_nan y \<and> f_key x < f_key y"

definition f_le :: "float64 \<Rightarrow> float64 \<Rightarrow> bool" where
  "f_le x y \<longleftrightarrow> \<not> f_nan x \<and> \<not> f_nan y \<and> f_key x \<le> f_key y"

definition f_zero :: float64 where "f_zero = 0"

subsection \<open>Events\<close>

record AlertEvent =
  ev_AppName :: string
  ev_AppSlug :: string
  ev_Metric :: string
  ev_MetricDisplay :: string
  ev_Value :: float64
  ev_ValueDisplay :: string
  ev_Threshold :: float64
  ev_ThresholdDisplay :: string
  ev_Operator :: string
  ev_Status :: string
  ev_FiredAt :: int

record BackupAlertEvent =
  bv_AppID :: int
  bv_AppName :: string
  bv_Strategy :: string
  bv_Message :: string
  bv_EventType :: string
  bv_FiredAt :: int

record Webhook =
  wh_ID :: int
  wh_Name :: string
  wh_Type :: string
  wh_URL :: string
  wh_TemplateOverride :: string
  wh_HeadersJSON :: string
  wh_CreatedAt :: int

text \<open>
  \<open>ws_fmt\<close> formats a float by a verb and \<open>ws_scale\<close> divides it by a power of two. \<open>ws_template\<close> parses and executes a
  template: None when it does not parse, Some None when executing it fails. \<open>ws_headers\<close> is the header object in the order
  the map is ranged over, \<open>ws_request\<close> whether a request can be made for the URL, \<open>ws_hosts\<close> the addresses the client
  opens connections to and \<open>ws_status\<close> the answer.
\<close>

record webhook_env =
  ws_net :: net_env
  ws_allow_private :: bool
  ws_fmt :: "string \<Rightarrow> float64 \<Rightarrow> string"
  ws_scale :: "nat \<Rightarrow> float64 \<Rightarrow> float64"
  ws_template :: "string \<Rightarrow> (AlertEvent \<Rightarrow> string option) option"
  ws_headers :: "string \<Rightarrow> (string \<times> string) list option"
  ws_request :: "string \<Rightarrow> bool"
  ws_hosts :: "net_event list \<Rightarrow> string \<Rightarrow> string list"
  ws_status :: "net_event list \<Rightarrow> int"

definition metricDisplayNames :: "(string \<times> string) list" where
  "metricDisplayNames = [(''cpu_pct'', ''CPU''), (''mem_pct'', ''Memory''), (''mem_bytes'', ''Memory'')]"

text \<open>The bit patterns of 1024, 1048576 and 1073741824.\<close>

definition f_kib :: float64 where "f_kib = 0x4090000000000000"
definition f_mib :: float64 where "f_mib = 0x4130000000000000"
definition f_gib :: float64 where "f_gib = 0x41D0000000000000"

definition formatBytes :: "webhook_env \<Rightarrow> float64 \<Rightarrow> string" where
  "formatBytes env b =
     (if f_le f_gib b then ws_fmt env ''%.1f'' (ws_scale env 30 b) @ '' GB''
      else if f_le f_mib b then ws_fmt env ''%.1f'' (ws_scale env 20 b) @ '' MB''
      else if f_le f_kib b then ws_fmt env ''%.1f'' (ws_scale env 10 b) @ '' KB''
      else ws_fmt env ''%.0f'' b @ '' B'')"

definition formatMetricValue :: "webhook_env \<Rightarrow> string \<Rightarrow> float64 \<Rightarrow> string" where
  "formatMetricValue env metric value =
     (if metric = ''mem_bytes'' then formatBytes env value
      else if metric = ''cpu_pct'' \<or> metric = ''mem_pct'' then ws_fmt env ''%.1f'' value @ ''%''
      else ws_fmt env ''%.1f'' value)"

definition backupEventDisplayNames :: "(string \<times> string) list" where
  "backupEventDisplayNames =
     [(''backup_failed'', ''Backup Failed''), (''backup_success'', ''Backup Succeeded''), (''backup_missed'', ''Backup Missed'')]"

definition ToAlertEvent :: "BackupAlertEvent \<Rightarrow> AlertEvent" where
  "ToAlertEvent b =
     \<lparr>ev_AppName = bv_AppName b, ev_AppSlug = [], ev_Metric = bv_EventType b,
      ev_MetricDisplay = (case map_of backupEventDisplayNames (bv_EventType b) of Some d \<Rightarrow> d | None \<Rightarrow> bv_EventType b),
      ev_Value = f_zero, ev_ValueDisplay = bv_Message b, ev_Threshold = f_zero, ev_ThresholdDisplay = [], ev_Operator = [],
      ev_Status = ''firing'', ev_FiredAt = bv_FiredAt b\<rparr>"

definition EnrichEvent :: "webhook_env \<Rightarrow> AlertEvent \<Rightarrow> AlertEvent" where
  "EnrichEvent env ev =
     ev\<lparr>ev_MetricDisplay := (case map_of metricDisplayNames (ev_Metric ev) of Some d \<Rightarrow> d | None \<Rightarrow> ev_Metric ev),
        ev_ValueDisplay := formatMetricValue env (ev_Metric ev) (ev_Value ev),
        ev_ThresholdDisplay := formatMetricValue env (ev_Metric ev) (ev_Threshold ev),
        ev_AppName := (if ev_AppName ev = [] then ''All Apps'' else ev_AppName ev)\<rparr>"

subsection \<open>JSON strings\<close>

text \<open>The length of the UTF-8 sequence at the head of a string, 0 when there is none.\<close>

definition cont_byte :: "char \<Rightarrow> bool" where
  "cont_byte c \<longleftrightarrow> CHR 0x80 \<le> c \<and> c \<le> CHR 0xBF"

fun utf8_len :: "string \<Rightarrow> nat" where
  "utf8_len [] = 0"
| "utf8_len (b # bs) =
     (if b < CHR 0x80 then 1
      else if CHR 0xC2 \<le> b \<and> b \<le> CHR 0xDF then (case bs of c # _ \<Rightarrow> if cont_byte c then 2 else 0 | _ \<Rightarrow> 0)
      else if CHR 0xE0 \<le> b \<and> b \<le> CHR 0xEF then
        (case bs of
           c # d # _ \<Rightarrow>
             if cont_byte c \<and> cont_byte d \<and> (b = CHR 0xE0 \<longrightarrow> CHR 0xA0 \<le> c) \<and> (b = CHR 0xED \<longrightarrow> c \<le> CHR 0x9F) then 3 else 0
         | _ \<Rightarrow> 0)
      else if CHR 0xF0 \<le> b \<and> b \<le> CHR 0xF4 then
        (case bs of
           c # d # e # _ \<Rightarrow>
             if cont_byte c \<and> cont_byte d \<and> cont_byte e \<and> (b = CHR 0xF0 \<longrightarrow> CHR 0x90 \<le> c) \<and> (b = CHR 0xF4 \<longrightarrow> c \<le> CHR 0x8F)
             then 4 else 0
         | _ \<Rightarrow> 0)
      else 0)"

definition hex_digit :: "nat \<Rightarrow> char" where
  "hex_digit n = (if n < 10 then char_of (48 + n) else char_of (87 + n))"

text \<open>What the encoder writes for a byte below 0x80, with its escaping of HTML off.\<close>

definition escape_ascii :: "char \<Rightarrow> string" where
  "escape_ascii c =
     (if c = CHR 0x22 \<or> c = CHR 0x5C then [CHR 0x5C, c]
      else if c = CHR 0x08 then [CHR 0x5C, CHR ''b'']
      else if c = CHR 0x0C then [CHR 0x5C, CHR ''f'']
      else if c = CHR 0x0A then [CHR 0x5C, CHR ''n'']
      else if c = CHR 0x0D then [CHR 0x5C, CHR ''r'']
      else if c = CHR 0x09 then [CHR 0x5C, CHR ''t'']
      else if c < CHR 0x20 then [CHR 0x5C, CHR ''u'', CHR ''0'', CHR ''0'', hex_digit (of_char c div 16), hex_digit (of_char c mod 16)]
      else [c])"

function jsonEscape :: "string \<Rightarrow> string" where
  "jsonEscape [] = []"
| "jsonEscape (c # cs) =
     (if c < CHR 0x80 then escape_ascii c @ jsonEscape cs
      else
        let n = utf8_len (c # cs) in
        if n = 0 then CHR 0x5C # ''ufffd'' @ jsonEscape cs
        else if take 3 (c # cs) = [CHR 0xE2, CHR 0x80, CHR 0xA8] then CHR 0x5C # ''u2028'' @ jsonEscape (drop (n - 1) cs)
        else if take 3 (c # cs) = [CHR 0xE2, CHR 0x80, CHR 0xA9] then CHR 0x5C # ''u2029'' @ jsonEscape (drop (n - 1) cs)
        else take n (c # cs) @ jsonEscape (drop (n - 1) cs))"
  by pat_completeness auto
termination by (relation "measure length") auto

definition jsonSafeEvent :: "AlertEvent \<Rightarrow> AlertEvent" where
  "jsonSafeEvent ev =
     ev\<lparr>ev_AppName := jsonEscape (ev_AppName ev), ev_AppSlug := jsonEscape (ev_AppSlug ev), ev_Metric := jsonEscape (ev_Metric ev),
        ev_MetricDisplay := jsonEscape (ev_MetricDisplay ev), ev_ValueDisplay := jsonEscape (ev_ValueDisplay ev),
        ev_ThresholdDisplay := jsonEscape (ev_ThresholdDisplay ev), ev_Operator := jsonEscape (ev_Operator ev),
        ev_Status := jsonEscape (ev_Status ev)\<rparr>"

subsection \<open>Sending\<close>

definition quoted :: "string \<Rightarrow> string" where
  "quoted s = [CHR 0x22] @ s @ [CHR 0x22]"

definition builtinTemplates :: "(string \<times> string) list" where
  "builtinTemplates =
     [(''slack'', ''{'' @ quoted ''text'' @ '':'' @
         quoted ''[{{.Status}}] {{.AppName}} - {{.MetricDisplay}} {{.Operator}} {{.ThresholdDisplay}} (current: {{.ValueDisplay}})'' @ ''}''),
      (''telegram'', ''{'' @ quoted ''text'' @ '':'' @
         quoted (''[{{.Status}}] {{.AppName}}'' @ [CHR 0x5C, CHR ''n''] @
           ''{{.MetricDisplay}} {{.Operator}} {{.ThresholdDisplay}} (current: {{.ValueDisplay}})'') @ '','' @
         quoted ''parse_mode'' @ '':'' @ quoted ''HTML'' @ ''}''),
      (''discord'', ''{'' @ quoted ''content'' @ '':'' @
         quoted ''[{{.Status}}] {{.AppName}} - {{.MetricDisplay}} {{.Operator}} {{.ThresholdDisplay}} (current: {{.ValueDisplay}})'' @ ''}''),
      (''custom'', ''{'' @ quoted ''app'' @ '':'' @ quoted ''{{.AppName}}'' @ '','' @ quoted ''metric'' @ '':'' @ quoted ''{{.Metric}}'' @ '','' @
         quoted ''value'' @ '':{{printf '' @ quoted ''%.2f'' @ '' .Value}},'' @ quoted ''threshold'' @ '':{{printf '' @ quoted ''%.2f'' @
         '' .Threshold}},'' @ quoted ''status'' @ '':'' @ quoted ''{{.Status}}'' @ ''}'')]"

definition webhook_template :: "Webhook \<Rightarrow> string" where
  "webhook_template wh =
     (if wh_TemplateOverride wh \<noteq> [] then wh_TemplateOverride wh
      else case map_of builtinTemplates (wh_Type wh) of
        Some t \<Rightarrow> t
      | None \<Rightarrow> (case map_of builtinTemplates ''custom'' of Some t \<Rightarrow> t | None \<Rightarrow> []))"

definition blockedWebhookHeaders :: "string list" where
  "blockedWebhookHeaders = [''host'', ''content-length'', ''transfer-encoding'']"

definition header_set :: "string \<Rightarrow> string \<Rightarrow> (string \<times> string) list \<Rightarrow> (string \<times> string) list" where
  "header_set k v hs = AList.update (canonical_header_key k) v hs"

fun extra_headers :: "(string \<times> string) list \<Rightarrow> (string \<times> string) list \<Rightarrow> (string \<times> string) list" where
  "extra_headers [] hs = hs"
| "extra_headers ((k, v) # kvs) hs =
     (if to_lower k \<in> set blockedWebhookHeaders then extra_headers kvs hs
      else if CHR 0x0D \<in> set v \<or> CHR 0x0A \<in> set v then extra_headers kvs hs
      else extra_headers kvs (header_set k v hs))"

datatype send_error = BadTemplate | TemplateFailed | URLRejected | BadRequest | BadHeaders | SendFailed | BadStatus int

record webhook_request =
  wr_URL :: string
  wr_Header :: "(string \<times> string) list"
  wr_Body :: string

text \<open>The request Send builds, with the look-ups its check of the address made.\<close>

definition build_request :: "webhook_env \<Rightarrow> Webhook \<Rightarrow> AlertEvent \<Rightarrow> net_event list \<Rightarrow> (send_error + webhook_request) \<times> net_event list" where
  "build_request env wh ev t =
     (case ws_template env (webhook_template wh) of
        None \<Rightarrow> (Inl BadTemplate, t)
      | Some exec \<Rightarrow>
          (case exec (jsonSafeEvent ev) of
             None \<Rightarrow> (Inl TemplateFailed, t)
           | Some body \<Rightarrow>
               (case (if ws_allow_private env then (True, t) else validateWebhookURL (ws_net env) (wh_URL wh) t) of
                  (False, t') \<Rightarrow> (Inl URLRejected, t')
                | (True, t') \<Rightarrow>
                    if \<not> ws_request env (wh_URL wh) then (Inl BadRequest, t')
                    else
                      let hs = header_set ''Content-Type'' ''application/json'' [] in
                      if wh_HeadersJSON wh = [] then (Inr \<lparr>wr_URL = wh_URL wh, wr_Header = hs, wr_Body = body\<rparr>, t')
                      else (case ws_headers env (wh_HeadersJSON wh) of
                              None \<Rightarrow> (Inl BadHeaders, t')
                            | Some kvs \<Rightarrow> (Inr \<lparr>wr_URL = wh_URL wh, wr_Header = extra_headers kvs hs, wr_Body = body\<rparr>, t')))))"

definition Send :: "webhook_env \<Rightarrow> Webhook \<Rightarrow> AlertEvent \<Rightarrow> net_event list \<Rightarrow> send_error option \<times> net_event list" where
  "Send env wh ev t =
     (case build_request env wh ev t of
        (Inl err, t') \<Rightarrow> (Some err, t')
      | (Inr req, t') \<Rightarrow>
          (case client_dials (ws_net env) (ws_allow_private env) (ws_hosts env t' (wr_URL req)) t' of
             (False, t'') \<Rightarrow> (Some SendFailed, t'')
           | (True, t'') \<Rightarrow> (if 400 \<le> ws_status env t'' then Some (BadStatus (ws_status env t'')) else None, t'')))"


subsection \<open>Escaped text is read back\<close>

text \<open>The reader of RFC 8259 for what stands between the quotes of a string.\<close>

definition hex_value :: "char \<Rightarrow> nat option" where
  "hex_value c =
     (if CHR ''0'' \<le> c \<and> c \<le> CHR ''9'' then Some (of_char c - 48)
      else if CHR ''a'' \<le> c \<and> c \<le> CHR ''f'' then Some (of_char c - 87)
      else if CHR ''A'' \<le> c \<and> c \<le> CHR ''F'' then Some (of_char c - 55) else None)"

definition utf8_encode :: "nat \<Rightarrow> string" where
  "utf8_encode n =
     (if n < 0x80 then [char_of n]
      else if n < 0x800 then [char_of (0xC0 + n div 64), char_of (0x80 + n mod 64)]
      else [char_of (0xE0 + n div 4096), char_of (0x80 + n div 64 mod 64), char_of (0x80 + n mod 64)])"

definition simple_escapes :: "(char \<times> char) list" where
  "simple_escapes =
     [(CHR 0x22, CHR 0x22), (CHR 0x5C, CHR 0x5C), (CHR ''/'', CHR ''/''), (CHR ''b'', CHR 0x08), (CHR ''f'', CHR 0x0C),
      (CHR ''n'', CHR 0x0A), (CHR ''r'', CHR 0x0D), (CHR ''t'', CHR 0x09)]"

definition code_point :: "char \<Rightarrow> char \<Rightarrow> char \<Rightarrow> char \<Rightarrow> nat option" where
  "code_point a b c d =
     (case (hex_value a, hex_value b, hex_value c, hex_value d) of
        (Some i, Some j, Some k, Some l) \<Rightarrow> Some (((i * 16 + j) * 16 + k) * 16 + l) | _ \<Rightarrow> None)"

fun json_unescape :: "string \<Rightarrow> string option" where
  "json_unescape [] = Some []"
| "json_unescape (c # cs) =
     (if c = CHR 0x22 \<or> c < CHR 0x20 then None
      else if c \<noteq> CHR 0x5C then map_option ((#) c) (json_unescape cs)
      else case cs of
        [] \<Rightarrow> None
      | e # es \<Rightarrow>
          if e = CHR ''u'' then
            (case es of
               i # j # k # l # r \<Rightarrow>
                 (case code_point i j k l of Some n \<Rightarrow> map_option ((@) (utf8_encode n)) (json_unescape r) | None \<Rightarrow> None)
             | _ \<Rightarrow> None)
          else (case map_of simple_escapes e of Some d \<Rightarrow> map_option ((#) d) (json_unescape es) | None \<Rightarrow> None))"

function valid_utf8 :: "string \<Rightarrow> bool" where
  "valid_utf8 [] = True"
| "valid_utf8 (c # cs) = (utf8_len (c # cs) > 0 \<and> valid_utf8 (drop (utf8_len (c # cs) - 1) cs))"
  by pat_completeness auto
termination by (relation "measure length") auto

declare jsonEscape.simps(2) [simp del] json_unescape.simps(2) [simp del] valid_utf8.simps(2) [simp del] utf8_len.simps(2) [simp del]

lemma char_less: "c < d \<longleftrightarrow> (of_char c :: nat) < of_char d"
  by (simp add: less_char_def)

lemma char_le: "c \<le> d \<longleftrightarrow> (of_char c :: nat) \<le> of_char d"
  by (simp add: less_eq_char_def)

lemma hex_round: "n < 16 \<Longrightarrow> hex_value (hex_digit n) = Some n"
  by (simp add: hex_value_def hex_digit_def char_le)

lemma hex_zero: "hex_value CHR ''0'' = Some 0"
  by (simp add: hex_value_def char_le)

lemma unescape_plain: "c \<ge> CHR 0x20 \<Longrightarrow> c \<noteq> CHR 0x22 \<Longrightarrow> c \<noteq> CHR 0x5C \<Longrightarrow>
    json_unescape (c # cs) = map_option ((#) c) (json_unescape cs)"
  by (auto simp: json_unescape.simps(2))

lemma unescape_high: "\<forall>c \<in> set bs. CHR 0x80 \<le> c \<Longrightarrow> json_unescape (bs @ u) = map_option ((@) bs) (json_unescape u)"
proof (induction bs)
  case (Cons c cs)
  have "c \<ge> CHR 0x20" "c \<noteq> CHR 0x22" "c \<noteq> CHR 0x5C" using Cons.prems by (auto simp: char_le)
  then show ?case using Cons by (simp add: unescape_plain option.map_comp comp_def)
next
  case Nil
  then show ?case by (cases "json_unescape u") simp_all
qed

lemma unescape_u:
  "code_point i j k l = Some n \<Longrightarrow>
     json_unescape (CHR 0x5C # CHR ''u'' # i # j # k # l # r) = map_option ((@) (utf8_encode n)) (json_unescape r)"
  by (subst json_unescape.simps(2)) (simp add: char_less)

lemma unescape_simple:
  "e \<noteq> CHR ''u'' \<Longrightarrow> map_of simple_escapes e = Some d \<Longrightarrow> json_unescape (CHR 0x5C # e # es) = map_option ((#) d) (json_unescape es)"
  by (subst json_unescape.simps(2)) (simp add: char_less)

lemma unescape_ascii: "c < CHR 0x80 \<Longrightarrow> json_unescape (escape_ascii c @ u) = map_option ((#) c) (json_unescape u)"
proof -
  assume c: "c < CHR 0x80"
  show ?thesis
  proof (cases "c < CHR 0x20 \<and> c \<notin> {CHR 0x08, CHR 0x0C, CHR 0x0A, CHR 0x0D, CHR 0x09}")
    case True
    have "c < CHR 0x20" using True by blast
    then have low: "c \<noteq> CHR 0x22 \<and> c \<noteq> CHR 0x5C" by (auto simp: char_less)
    define n where "n = (of_char c :: nat)"
    have n: "n < 32" "c = char_of n" using True by (auto simp: n_def char_less)
    have "code_point CHR ''0'' CHR ''0'' (hex_digit (n div 16)) (hex_digit (n mod 16)) = Some n"
      using n by (simp add: code_point_def hex_round hex_zero)
    moreover have "utf8_encode n = [c]" using n by (simp add: utf8_encode_def)
    moreover have "escape_ascii c = [CHR 0x5C, CHR ''u'', CHR ''0'', CHR ''0'', hex_digit (n div 16), hex_digit (n mod 16)]"
      using low True by (simp add: escape_ascii_def n_def)
    moreover have "(@) [c] = (#) c" by (rule ext) simp
    ultimately show ?thesis by (simp add: unescape_u)
  next
    case False
    then consider "escape_ascii c = [c]" "c \<ge> CHR 0x20" "c \<noteq> CHR 0x22" "c \<noteq> CHR 0x5C"
      | d where "escape_ascii c = [CHR 0x5C, d]" "d \<noteq> CHR ''u''" "map_of simple_escapes d = Some c"
      by (cases "c \<in> {CHR 0x22, CHR 0x5C, CHR 0x08, CHR 0x0C, CHR 0x0A, CHR 0x0D, CHR 0x09}")
        (auto simp: escape_ascii_def simple_escapes_def)
    then show ?thesis by cases (simp_all add: unescape_plain unescape_simple)
  qed
qed

lemma utf8_len_high:
  assumes "CHR 0x80 \<le> c" "utf8_len (c # cs) > 0"
  shows "\<forall>x \<in> set (take (utf8_len (c # cs)) (c # cs)). CHR 0x80 \<le> x"
  using assms
  by (auto simp: utf8_len.simps(2) cont_byte_def not_less split: if_splits list.splits)

lemma separator_code:
  "code_point CHR ''2'' CHR ''0'' CHR ''2'' CHR ''8'' = Some 0x2028" "utf8_encode 0x2028 = [CHR 0xE2, CHR 0x80, CHR 0xA8]"
  "code_point CHR ''2'' CHR ''0'' CHR ''2'' CHR ''9'' = Some 0x2029" "utf8_encode 0x2029 = [CHR 0xE2, CHR 0x80, CHR 0xA9]"
  by (simp_all add: code_point_def hex_value_def char_le utf8_encode_def char_of_eq_iff)

text \<open>
  Property C39. What is put between the quotes of a JSON payload is read back as the text it stands for: no name, message
  or label, whatever quotes, backslashes, line breaks or control characters it has, ends the string or changes its value.
\<close>

theorem jsonEscape_round_trip:
  assumes "valid_utf8 s"
  shows "json_unescape (jsonEscape s) = Some s"
  using assms
proof (induction s rule: length_induct)
  case (1 s)
  show ?case
  proof (cases s)
    case (Cons c cs)
    define n where "n = utf8_len s"
    have n: "n > 0" "valid_utf8 (drop (n - 1) cs)" using 1 Cons by (simp_all add: valid_utf8.simps(2) n_def)
    then have ih: "json_unescape (jsonEscape (drop (n - 1) cs)) = Some (drop (n - 1) cs)" using 1 Cons by simp
    have high: "\<not> c < CHR 0x80 \<Longrightarrow> \<forall>x \<in> set (take n s). CHR 0x80 \<le> x" using utf8_len_high [of c cs] n n_def Cons by (simp add: not_less)
    have split: "take n s @ drop (n - 1) cs = s" using n Cons by (cases n) simp_all
    consider "c < CHR 0x80" | "\<not> c < CHR 0x80" "take 3 s \<notin> {[CHR 0xE2, CHR 0x80, CHR 0xA8], [CHR 0xE2, CHR 0x80, CHR 0xA9]}"
      | "take 3 s \<in> {[CHR 0xE2, CHR 0x80, CHR 0xA8], [CHR 0xE2, CHR 0x80, CHR 0xA9]}" by blast
    then show ?thesis
    proof cases
      case 1
      then have "n = 1" using Cons by (simp add: n_def utf8_len.simps(2))
      then show ?thesis using ih Cons 1 by (simp add: jsonEscape.simps(2) unescape_ascii)
    next
      case 2
      have "jsonEscape s = take n s @ jsonEscape (drop (n - 1) cs)"
        using 2 n Cons by (auto simp: jsonEscape.simps(2) n_def Let_def)
      then show ?thesis using ih unescape_high [OF high] 2 split by simp
    next
      case 3
      then obtain d where d: "take 3 s = [CHR 0xE2, CHR 0x80, d]" "d = CHR 0xA8 \<or> d = CHR 0xA9" by auto
      define r where "r = drop 3 s"
      have "s = CHR 0xE2 # CHR 0x80 # d # r" using d(1) unfolding r_def by (metis append_Cons append_Nil append_take_drop_id)
      then have r: "c = CHR 0xE2" "cs = CHR 0x80 # d # r" using Cons by simp_all
      have "utf8_len (CHR 0xE2 # CHR 0x80 # d # r) = 3" using d(2) by (auto simp: utf8_len.simps(2) cont_byte_def char_le char_less)
      then have n3: "n = 3" using r Cons by (simp add: n_def)
      then have "jsonEscape s = (if d = CHR 0xA8 then CHR 0x5C # ''u2028'' else CHR 0x5C # ''u2029'') @ jsonEscape r"
        using d r Cons by (auto simp: jsonEscape.simps(2) n_def char_less)
      then show ?thesis using ih d(2) n3 r Cons by (auto simp: unescape_u separator_code)
    qed
  qed simp
qed


text \<open>A name with a quote, a line break, a letter beyond ASCII and a line separator.\<close>

definition odd_name :: string where
  "odd_name = [CHR ''a'', CHR 0x22, CHR 0x0A, CHR 0x01, CHR 0xC3, CHR 0xA9, CHR 0xE2, CHR 0x80, CHR 0xA8]"

lemma odd_name_valid: "valid_utf8 odd_name"
  by (simp add: odd_name_def valid_utf8.simps(2) utf8_len.simps(2) cont_byte_def char_le char_less)

theorem jsonEscape_round_trip_witness:
  "json_unescape (jsonEscape odd_name) = Some odd_name"
  using jsonEscape_round_trip [OF odd_name_valid] .

subsection \<open>What a delivery can reach\<close>

lemma lower_upper [simp]: "lower_char (upper_char c) = lower_char c"
  by (auto simp: lower_char_def upper_char_def Let_def)

lemma to_lower_canon: "to_lower (canon_chars up s) = to_lower s"
  by (induction up s rule: canon_chars.induct) simp_all

lemma to_lower_canonical [simp]: "to_lower (canonical_header_key k) = to_lower k"
  by (simp add: canonical_header_key_def to_lower_canon)

definition header_ok :: "string \<times> string \<Rightarrow> bool" where
  "header_ok h \<longleftrightarrow> to_lower (fst h) \<notin> set blockedWebhookHeaders \<and> CHR 0x0D \<notin> set (snd h) \<and> CHR 0x0A \<notin> set (snd h)"

lemma extra_headers_ok: "list_all header_ok hs \<Longrightarrow> list_all header_ok (extra_headers kvs hs)"
proof (induction kvs hs rule: extra_headers.induct)
  case (2 k v kvs hs)
  have "list_all header_ok (header_set k v hs)" if "to_lower k \<notin> set blockedWebhookHeaders" "CHR 0x0D \<notin> set v" "CHR 0x0A \<notin> set v"
    using 2(4) that set_alist_update [of "canonical_header_key k" v hs]
    by (fastforce simp: header_set_def list_all_iff header_ok_def)
  then show ?case using 2 by simp
qed simp

lemma request_headers_ok: "build_request env wh ev t = (Inr req, t') \<Longrightarrow> list_all header_ok (wr_Header req)"
proof -
  have "to_lower ''Content-Type'' = ''content-type''" by code_simp
  then have "list_all header_ok (header_set ''Content-Type'' ''application/json'' [])"
    by (simp add: header_set_def header_ok_def blockedWebhookHeaders_def)
  then show "build_request env wh ev t = (Inr req, t') \<Longrightarrow> list_all header_ok (wr_Header req)"
    by (auto simp: build_request_def Let_def extra_headers_ok split: option.splits prod.splits bool.splits if_splits)
qed

lemma build_request_dials: "\<exists>d. snd (build_request env wh ev t) = t @ d \<and> dials_unreserved d"
proof -
  have v: "\<exists>d. snd (validateWebhookURL n u t) = t @ d \<and> dials_unreserved d" for n u
    by (auto simp: validateWebhookURL_def dials_unreserved_def split: option.splits prod.splits)
  define r where "r = (if ws_allow_private env then (True, t) else validateWebhookURL (ws_net env) (wh_URL wh) t)"
  have "\<exists>d. snd r = t @ d \<and> dials_unreserved d"
    using v by (auto simp: r_def dials_unreserved_def)
  then show ?thesis
    unfolding build_request_def r_def [symmetric]
    by (cases r) (auto simp: Let_def dials_unreserved_def split: option.splits bool.splits)
qed


text \<open>A name that means a public address when it is checked and this machine when it is dialled.\<close>

definition rebinding_env :: webhook_env where
  "rebinding_env =
     \<lparr>ws_net = \<lparr>ne_lookup = \<lambda>t host. Some [if t = [] then [8, 8, 8, 8] else [127, 0, 0, 1]], ne_connect = \<lambda>t. True,
                ne_url = \<lambda>u. Some (''https'', ''hook.example'', ''hook.example''), ne_allow_private_s3 = False\<rparr>,
      ws_allow_private = False, ws_fmt = \<lambda>v x. ''0'', ws_scale = \<lambda>n x. x, ws_template = \<lambda>s. Some (\<lambda>ev. Some ''{}''),
      ws_headers = \<lambda>s. Some [(''Host'', ''other''), (''X-Token'', ''t'')], ws_request = \<lambda>u. True,
      ws_hosts = \<lambda>t u. [''hook.example:443''], ws_status = \<lambda>t. 200\<rparr>"

definition demo_webhook :: Webhook where
  "demo_webhook = \<lparr>wh_ID = 1, wh_Name = ''ops'', wh_Type = ''slack'', wh_URL = ''https://hook.example'', wh_TemplateOverride = [],
     wh_HeadersJSON = ''{}'', wh_CreatedAt = 0\<rparr>"

definition demo_event :: AlertEvent where
  "demo_event = ToAlertEvent \<lparr>bv_AppID = 1, bv_AppName = ''shop'', bv_Strategy = ''postgres'', bv_Message = ''failed'',
     bv_EventType = ''backup_failed'', bv_FiredAt = 0\<rparr>"


text \<open>The list of the S3 target is said to mirror this one; it is longer, and what it adds the webhooks reach.\<close>

lemma webhook_ranges_short:
  "\<not> isReservedIP extraReservedRanges [0, 0, 0, 0, 0, 0, 0, 0, 0, 0, 0, 0, 127, 0, 0, 1]"
  "\<not> isReservedIP extraReservedRanges [254, 192, 0, 0, 0, 0, 0, 0, 0, 0, 0, 0, 0, 0, 0, 0]"
  by (simp_all add: isReservedIP_eq_reserved reserved_ip_def to4_def v4_prefix_def nat64_prefix_def bytes_ok_def reserved_v6_def replicate_num)

lemma s3_reservedI: "length a = 16 \<Longrightarrow> to4 a = None \<Longrightarrow> \<not> net_contains nat64WellKnown a \<Longrightarrow>
    n \<in> set s3ReservedRanges \<Longrightarrow> net_contains n a \<Longrightarrow> isReservedIP s3ReservedRanges a"
  by (auto simp: isReservedIP_def reserved_class_def list_ex_iff)

lemma s3_ranges_longer:
  "isReservedIP s3ReservedRanges [0, 0, 0, 0, 0, 0, 0, 0, 0, 0, 0, 0, 127, 0, 0, 1]"
  "isReservedIP s3ReservedRanges [254, 192, 0, 0, 0, 0, 0, 0, 0, 0, 0, 0, 0, 0, 0, 0]"
proof -
  let ?a = "\<lparr>net_ip = [0, 0, 0, 0, 0, 0, 0, 0, 0, 0, 0, 0, 0, 0, 0, 0], net_ones = 96, net_mask_len = 16\<rparr>"
  let ?b = "\<lparr>net_ip = [254, 192, 0, 0, 0, 0, 0, 0, 0, 0, 0, 0, 0, 0, 0, 0], net_ones = 10, net_mask_len = 16\<rparr>"
  have "?a \<in> set s3ReservedRanges" "?b \<in> set s3ReservedRanges"
    by (simp_all add: s3ReservedRanges_def List.map_filter_def cidr_bytes)
  then show "isReservedIP s3ReservedRanges [0, 0, 0, 0, 0, 0, 0, 0, 0, 0, 0, 0, 127, 0, 0, 1]"
    "isReservedIP s3ReservedRanges [254, 192, 0, 0, 0, 0, 0, 0, 0, 0, 0, 0, 0, 0, 0, 0]"
    by (simp_all add: s3_reservedI [of _ ?a] s3_reservedI [of _ ?b] nat64WellKnown_def replicate_num go_simps Let_def)
qed

end
