(* ===== verification/Alerts.thy ===== *)
theory Alerts
  imports Webhook AppStore
begin

text \<open>
  internal/store/alerts.go (webhooks, alert rules and their history) and internal/alerts/evaluator.go: which rule fires,
  which notification is sent and what the history says. The metric points of an app or of the machine are a parameter,
  as are the float operations that are not comparisons. The trigger hooks of the store only schedule an export and are
  left out.
\<close>

record AlertRule =
  rl_ID :: int
  rl_AppID :: "int option"
  rl_AppSlug :: string
  rl_Metric :: string
  rl_Operator :: string
  rl_Threshold :: float64
  rl_DurationSec :: int
  rl_WebhookID :: int
  rl_Enabled :: bool
  rl_CreatedAt :: instant

record AlertHistory =
  hi_ID :: int
  hi_RuleID :: "int option"
  hi_FiredAt :: instant
  hi_ResolvedAt :: "instant option"
  hi_Value :: float64
  hi_Metric :: string
  hi_AppSlug :: string
  hi_Operator :: string
  hi_Threshold :: float64

record alert_db =
  ab_apps :: app_db
  ab_webhooks :: "Webhook list"
  ab_webhooks_seq :: int
  ab_rules :: "AlertRule list"
  ab_rules_seq :: int
  ab_history :: "AlertHistory list"
  ab_history_seq :: int

subsection \<open>Webhooks\<close>

text \<open>The CHECK constraints of migration 006.\<close>

definition webhook_type_ok :: "string \<Rightarrow> bool" where
  "webhook_type_ok ty \<longleftrightarrow> ty \<in> {''slack'', ''telegram'', ''discord'', ''custom''}"

definition operator_ok :: "string \<Rightarrow> bool" where
  "operator_ok op \<longleftrightarrow> op \<in> {''>'', ''<'', ''>='', ''<=''}"

definition find_webhook :: "int \<Rightarrow> alert_db \<Rightarrow> Webhook option" where
  "find_webhook i d = find (\<lambda>w. wh_ID w = i) (ab_webhooks d)"

definition CreateWebhook :: "sql_env \<Rightarrow> Webhook \<Rightarrow> alert_db \<Rightarrow> (store_error + Webhook) \<times> alert_db" where
  "CreateWebhook e w d =
     (if sql_fails e ''CreateWebhook'' then (Inl SqlFailed, d)
      else if \<not> webhook_type_ok (wh_Type w) then (Inl CheckFailed, d)
      else let i = ab_webhooks_seq d + 1; w' = w\<lparr>wh_ID := i, wh_CreatedAt := sql_now e\<rparr>
           in (Inr w', d\<lparr>ab_webhooks := ab_webhooks d @ [w'], ab_webhooks_seq := i\<rparr>))"

definition GetWebhook :: "sql_env \<Rightarrow> int \<Rightarrow> alert_db \<Rightarrow> store_error + Webhook" where
  "GetWebhook e i d =
     (if sql_fails e ''GetWebhook'' then Inl SqlFailed
      else case find_webhook i d of None \<Rightarrow> Inl NotFound | Some w \<Rightarrow> Inr w)"

definition webhook_less :: "Webhook \<Rightarrow> Webhook \<Rightarrow> bool" where
  "webhook_less a b \<longleftrightarrow> wh_ID a < wh_ID b"

definition ListWebhooks :: "sql_env \<Rightarrow> alert_db \<Rightarrow> store_error + Webhook list" where
  "ListWebhooks e d = (if sql_fails e ''ListWebhooks'' then Inl SqlFailed else Inr (sort_by webhook_less (ab_webhooks d)))"

definition set_webhook :: "Webhook \<Rightarrow> Webhook \<Rightarrow> Webhook" where
  "set_webhook new old = new\<lparr>wh_ID := wh_ID old, wh_CreatedAt := wh_CreatedAt old\<rparr>"

definition UpdateWebhook :: "sql_env \<Rightarrow> Webhook \<Rightarrow> alert_db \<Rightarrow> store_error option \<times> alert_db" where
  "UpdateWebhook e w d =
     (if sql_fails e ''UpdateWebhook'' then (Some SqlFailed, d)
      else if find_webhook (wh_ID w) d = None then (Some NotFound, d)
      else if \<not> webhook_type_ok (wh_Type w) then (Some CheckFailed, d)
      else (None, d\<lparr>ab_webhooks := map (\<lambda>x. if wh_ID x = wh_ID w then set_webhook w x else x) (ab_webhooks d)\<rparr>))"

text \<open>Rules that are deleted, and what the foreign keys do: history rows stay and lose their rule.\<close>

definition drop_rules :: "(AlertRule \<Rightarrow> bool) \<Rightarrow> alert_db \<Rightarrow> alert_db" where
  "drop_rules p d =
     (let gone = map rl_ID (filter p (ab_rules d)) in
      d\<lparr>ab_rules := filter (\<lambda>r. \<not> p r) (ab_rules d),
        ab_history := map (\<lambda>h. case hi_RuleID h of Some i \<Rightarrow> if i \<in> set gone then h\<lparr>hi_RuleID := None\<rparr> else h | None \<Rightarrow> h) (ab_history d)\<rparr>)"

definition DeleteWebhook :: "sql_env \<Rightarrow> int \<Rightarrow> alert_db \<Rightarrow> store_error option \<times> alert_db" where
  "DeleteWebhook e i d =
     (if sql_fails e ''DeleteWebhook'' then (Some SqlFailed, d)
      else if find_webhook i d = None then (Some NotFound, d)
      else (None, drop_rules (\<lambda>r. rl_WebhookID r = i) (d\<lparr>ab_webhooks := filter (\<lambda>w. wh_ID w \<noteq> i) (ab_webhooks d)\<rparr>)))"

definition webhook_by_name :: "string \<Rightarrow> alert_db \<Rightarrow> Webhook option" where
  "webhook_by_name name d = find (\<lambda>w. wh_Name w = name) (ab_webhooks d)"

definition UpsertWebhookByName :: "sql_env \<Rightarrow> Webhook \<Rightarrow> alert_db \<Rightarrow> (store_error + int) \<times> alert_db" where
  "UpsertWebhookByName e w d =
     (if sql_fails e ''UpsertWebhookByName'' then (Inl SqlFailed, d)
      else case webhook_by_name (wh_Name w) d of
        None \<Rightarrow> (case CreateWebhook e w d of (Inl err, d') \<Rightarrow> (Inl err, d') | (Inr w', d') \<Rightarrow> (Inr (wh_ID w'), d'))
      | Some old \<Rightarrow>
          (case UpdateWebhook e (w\<lparr>wh_ID := wh_ID old\<rparr>) d of
             (Some err, d') \<Rightarrow> (Inl err, d') | (None, d') \<Rightarrow> (Inr (wh_ID old), d')))"

definition UpsertWebhookFromRedacted :: "sql_env \<Rightarrow> string \<Rightarrow> string \<Rightarrow> alert_db \<Rightarrow> store_error option \<times> alert_db" where
  "UpsertWebhookFromRedacted e name kind d =
     (if sql_fails e ''UpsertWebhookFromRedacted'' then (Some SqlFailed, d)
      else case webhook_by_name name d of
        None \<Rightarrow>
          (case CreateWebhook e \<lparr>wh_ID = 0, wh_Name = name, wh_Type = kind, wh_URL = [], wh_TemplateOverride = [],
                                  wh_HeadersJSON = [], wh_CreatedAt = 0\<rparr> d of
             (Inl err, d') \<Rightarrow> (Some err, d') | (Inr _, d') \<Rightarrow> (None, d'))
      | Some old \<Rightarrow>
          if \<not> webhook_type_ok kind then (Some CheckFailed, d)
          else (None, d\<lparr>ab_webhooks := map (\<lambda>x. if wh_ID x = wh_ID old then x\<lparr>wh_Type := kind\<rparr> else x) (ab_webhooks d)\<rparr>))"

subsection \<open>Rules\<close>

definition rule_refs_ok :: "AlertRule \<Rightarrow> alert_db \<Rightarrow> bool" where
  "rule_refs_ok r d \<longleftrightarrow>
     (case rl_AppID r of None \<Rightarrow> True | Some a \<Rightarrow> a \<in> app_ID ` set (ad_apps (ab_apps d))) \<and>
     rl_WebhookID r \<in> wh_ID ` set (ab_webhooks d)"

definition CreateAlertRule :: "sql_env \<Rightarrow> AlertRule \<Rightarrow> alert_db \<Rightarrow> (store_error + AlertRule) \<times> alert_db" where
  "CreateAlertRule e r d =
     (if sql_fails e ''CreateAlertRule'' then (Inl SqlFailed, d)
      else if \<not> operator_ok (rl_Operator r) then (Inl CheckFailed, d)
      else if \<not> rule_refs_ok r d then (Inl ForeignKeyFailed, d)
      else let i = ab_rules_seq d + 1; r' = r\<lparr>rl_ID := i, rl_CreatedAt := sql_now e\<rparr>
           in (Inr r', d\<lparr>ab_rules := ab_rules d @ [r'\<lparr>rl_AppSlug := []\<rparr>], ab_rules_seq := i\<rparr>))"

definition rule_less :: "AlertRule \<Rightarrow> AlertRule \<Rightarrow> bool" where
  "rule_less a b \<longleftrightarrow> rl_ID a < rl_ID b"

definition ListAlertRules :: "sql_env \<Rightarrow> int option \<Rightarrow> alert_db \<Rightarrow> store_error + AlertRule list" where
  "ListAlertRules e appID d =
     (if sql_fails e ''ListAlertRules'' then Inl SqlFailed
      else Inr (sort_by rule_less
        (case appID of None \<Rightarrow> ab_rules d | Some a \<Rightarrow> filter (\<lambda>r. rl_AppID r = Some a) (ab_rules d))))"

definition ListActiveAlertRules :: "sql_env \<Rightarrow> alert_db \<Rightarrow> store_error + AlertRule list" where
  "ListActiveAlertRules e d =
     (if sql_fails e ''ListActiveAlertRules'' then Inl SqlFailed
      else Inr (sort_by rule_less (filter rl_Enabled (ab_rules d))))"

subsection \<open>History\<close>

text \<open>\<open>is_open i\<close> holds of the unresolved rows of a rule.\<close>

definition is_open :: "int \<Rightarrow> AlertHistory \<Rightarrow> bool" where
  "is_open i h \<longleftrightarrow> hi_RuleID h = Some i \<and> hi_ResolvedAt h = None"

definition map_history :: "(AlertHistory \<Rightarrow> bool) \<Rightarrow> (AlertHistory \<Rightarrow> AlertHistory) \<Rightarrow> alert_db \<Rightarrow> alert_db" where
  "map_history p f d = d\<lparr>ab_history := map (\<lambda>h. if p h then f h else h) (ab_history d)\<rparr>"

definition resolve_row :: "sql_env \<Rightarrow> AlertHistory \<Rightarrow> AlertHistory" where
  "resolve_row e h = h\<lparr>hi_ResolvedAt := Some (sql_now e)\<rparr>"

definition ResolveAlertsByRule :: "sql_env \<Rightarrow> int \<Rightarrow> alert_db \<Rightarrow> store_error option \<times> alert_db" where
  "ResolveAlertsByRule e i d =
     (if sql_fails e ''ResolveAlertsByRule'' then (Some SqlFailed, d)
      else (None, map_history (is_open i) (resolve_row e) d))"

definition ResolveAlert :: "sql_env \<Rightarrow> int \<Rightarrow> alert_db \<Rightarrow> store_error option \<times> alert_db" where
  "ResolveAlert e n d =
     (if sql_fails e ''ResolveAlert'' then (Some SqlFailed, d)
      else if n \<notin> hi_ID ` set (ab_history d) then (Some NotFound, d)
      else (None, map_history (\<lambda>h. hi_ID h = n) (resolve_row e) d))"

definition newer_history :: "AlertHistory \<Rightarrow> AlertHistory \<Rightarrow> bool" where
  "newer_history a b \<longleftrightarrow> hi_FiredAt a > hi_FiredAt b"

definition GetActiveAlert :: "sql_env \<Rightarrow> int \<Rightarrow> alert_db \<Rightarrow> store_error + AlertHistory option" where
  "GetActiveAlert e i d =
     (if sql_fails e ''GetActiveAlert'' then Inl SqlFailed
      else Inr (case sort_by newer_history (filter (is_open i) (ab_history d)) of [] \<Rightarrow> None | h # _ \<Rightarrow> Some h))"

definition CreateAlertHistory :: "sql_env \<Rightarrow> int \<Rightarrow> float64 \<Rightarrow> AlertRule \<Rightarrow> alert_db \<Rightarrow> store_error option \<times> alert_db" where
  "CreateAlertHistory e i v r d =
     (if sql_fails e ''CreateAlertHistory'' then (Some SqlFailed, d)
      else if i \<notin> rl_ID ` set (ab_rules d) then (Some ForeignKeyFailed, d)
      else let n = ab_history_seq d + 1
           in (None, d\<lparr>ab_history := ab_history d @ [\<lparr>hi_ID = n, hi_RuleID = Some i, hi_FiredAt = sql_now e, hi_ResolvedAt = None,
                 hi_Value = v, hi_Metric = rl_Metric r, hi_AppSlug = rl_AppSlug r, hi_Operator = rl_Operator r,
                 hi_Threshold = rl_Threshold r\<rparr>], ab_history_seq := n\<rparr>))"

definition ListAlertHistory :: "sql_env \<Rightarrow> int option \<Rightarrow> nat \<Rightarrow> alert_db \<Rightarrow> store_error + AlertHistory list" where
  "ListAlertHistory e ruleID limit d =
     (if sql_fails e ''ListAlertHistory'' then Inl SqlFailed
      else Inr (take limit (sort_by newer_history
        (case ruleID of None \<Rightarrow> ab_history d | Some i \<Rightarrow> filter (\<lambda>h. hi_RuleID h = Some i) (ab_history d)))))"

definition ClearAlertHistory :: "sql_env \<Rightarrow> bool \<Rightarrow> alert_db \<Rightarrow> store_error option \<times> alert_db" where
  "ClearAlertHistory e resolvedOnly d =
     (if sql_fails e ''ClearAlertHistory'' then (Some SqlFailed, d)
      else (None, d\<lparr>ab_history := (if resolvedOnly then filter (\<lambda>h. hi_ResolvedAt h = None) (ab_history d) else [])\<rparr>))"

subsection \<open>Changing and deleting rules\<close>

definition set_rule :: "AlertRule \<Rightarrow> AlertRule \<Rightarrow> AlertRule" where
  "set_rule new old = new\<lparr>rl_ID := rl_ID old, rl_CreatedAt := rl_CreatedAt old, rl_AppSlug := []\<rparr>"

text \<open>The open rows of a changed rule take its new values.\<close>

definition snapshot_row :: "AlertRule \<Rightarrow> AlertHistory \<Rightarrow> AlertHistory" where
  "snapshot_row r h = h\<lparr>hi_Metric := rl_Metric r, hi_AppSlug := rl_AppSlug r, hi_Operator := rl_Operator r, hi_Threshold := rl_Threshold r\<rparr>"

definition UpdateAlertRule :: "sql_env \<Rightarrow> AlertRule \<Rightarrow> alert_db \<Rightarrow> store_error option \<times> alert_db" where
  "UpdateAlertRule e r d =
     (let d1 = (if rl_Enabled r then d else snd (ResolveAlertsByRule e (rl_ID r) d)) in
      if sql_fails e ''UpdateAlertRule'' then (Some SqlFailed, d1)
      else if rl_ID r \<notin> rl_ID ` set (ab_rules d1) then (Some NotFound, d1)
      else if \<not> operator_ok (rl_Operator r) then (Some CheckFailed, d1)
      else if \<not> rule_refs_ok r d1 then (Some ForeignKeyFailed, d1)
      else
        let d2 = d1\<lparr>ab_rules := map (\<lambda>x. if rl_ID x = rl_ID r then set_rule r x else x) (ab_rules d1)\<rparr>
        in (None, if sql_fails e ''UpdateAlertHistory'' then d2 else map_history (is_open (rl_ID r)) (snapshot_row r) d2))"

definition DeleteAlertRule :: "sql_env \<Rightarrow> int \<Rightarrow> alert_db \<Rightarrow> store_error option \<times> alert_db" where
  "DeleteAlertRule e i d =
     (if sql_fails e ''ScanAlertRule'' then (Some SqlFailed, d)
      else let d1 = snd (ResolveAlertsByRule e i d) in
        if sql_fails e ''DeleteAlertRule'' then (Some SqlFailed, d1)
        else if i \<notin> rl_ID ` set (ab_rules d1) then (Some NotFound, d1)
        else (None, drop_rules (\<lambda>r. rl_ID r = i) d1))"

definition DeleteAlertRulesForApp :: "sql_env \<Rightarrow> int \<Rightarrow> alert_db \<Rightarrow> store_error option \<times> alert_db" where
  "DeleteAlertRulesForApp e appID d =
     (case ListAlertRules e (Some appID) d of
        Inl err \<Rightarrow> (Some err, d)
      | Inr rules \<Rightarrow>
          let d1 = fold (\<lambda>r d. snd (ResolveAlertsByRule e (rl_ID r) d)) rules d in
          if sql_fails e ''DeleteAlertRulesForApp'' then (Some SqlFailed, d1)
          else (None, drop_rules (\<lambda>r. rl_AppID r = Some appID) d1))"

text \<open>The rows \<open>PurgeApp\<close> removes, with the app itself.\<close>

definition purge_alerts :: "string \<Rightarrow> int \<Rightarrow> alert_db \<Rightarrow> alert_db" where
  "purge_alerts slug i d =
     (let rules = map rl_ID (filter (\<lambda>r. rl_AppID r = Some i) (ab_rules d)) in
      d\<lparr>ab_history := filter (\<lambda>h. \<not> (hi_AppSlug h = slug \<or> (case hi_RuleID h of Some r \<Rightarrow> r \<in> set rules | None \<Rightarrow> False))) (ab_history d),
        ab_rules := filter (\<lambda>r. rl_AppID r \<noteq> Some i) (ab_rules d),
        ab_apps := purge_rows slug i (ab_apps d)\<rparr>)"

definition alerts_PurgeApp :: "sql_env \<Rightarrow> string \<Rightarrow> alert_db \<Rightarrow> store_error option \<times> alert_db" where
  "alerts_PurgeApp e slug d =
     (if sql_fails e ''PurgeApp'' then (Some SqlFailed, d)
      else case app_by_slug (ab_apps d) slug of None \<Rightarrow> (Some NotFound, d)
           | Some a \<Rightarrow> if purge_refused (app_ID a) (ab_apps d) then (Some ForeignKeyFailed, d)
               else (None, purge_alerts slug (app_ID a) d))"

text \<open>What \<open>WipeConfigForRestore\<close> (store.go) does here: rules and webhooks go, the history stays without its rules.\<close>

definition alerts_WipeConfig :: "sql_env \<Rightarrow> alert_db \<Rightarrow> store_error option \<times> alert_db" where
  "alerts_WipeConfig e d =
     (if sql_fails e ''WipeConfigForRestore'' then (Some SqlFailed, d)
      else (None, (drop_rules (\<lambda>_. True) d)\<lparr>ab_webhooks := []\<rparr>))"

text \<open>A conflict of git synchronisation is a history row without a rule.\<close>

definition InsertConflictAlert :: "sql_env \<Rightarrow> string \<Rightarrow> string \<Rightarrow> alert_db \<Rightarrow> store_error option \<times> alert_db" where
  "InsertConflictAlert e appSlug detail d =
     (if sql_fails e ''InsertConflictAlert'' then (Some SqlFailed, d)
      else let n = ab_history_seq d + 1
           in (None, d\<lparr>ab_history := ab_history d @ [\<lparr>hi_ID = n, hi_RuleID = None, hi_FiredAt = sql_now e, hi_ResolvedAt = None,
                 hi_Value = f_zero, hi_Metric = ''gitsync_conflict'', hi_AppSlug = appSlug, hi_Operator = detail,
                 hi_Threshold = f_zero\<rparr>], ab_history_seq := n\<rparr>))"


subsection \<open>The evaluator\<close>

record metric_point =
  mp_CPUPct :: float64
  mp_MemBytes :: int
  mp_MemLimit :: int
  mp_Ts :: int

text \<open>
  \<open>le_metrics\<close> is \<open>QueryMetrics\<close> over the last hour, for an app or, without one, for the machine. \<open>le_ratio\<close> is
  the quotient of two integers as a percentage.
\<close>

record alert_env =
  le_sql :: sql_env
  le_web :: webhook_env
  le_metrics :: "int option \<Rightarrow> metric_point list option"
  le_of_int :: "int \<Rightarrow> float64"
  le_ratio :: "int \<Rightarrow> int \<Rightarrow> float64"
  le_add :: "float64 \<Rightarrow> float64 \<Rightarrow> float64"
  le_div :: "float64 \<Rightarrow> float64 \<Rightarrow> float64"

record alert_state =
  al_db :: alert_db
  al_net :: "net_event list"
  al_sent :: "(Webhook \<times> AlertEvent) list"

definition checkCondition :: "float64 \<Rightarrow> string \<Rightarrow> float64 \<Rightarrow> bool" where
  "checkCondition v op thr =
     (if op = ''>'' then f_lt thr v else if op = ''<'' then f_lt v thr
      else if op = ''>='' then f_le thr v else if op = ''<='' then f_le v thr else False)"

definition extractMetricValue :: "alert_env \<Rightarrow> metric_point \<Rightarrow> string \<Rightarrow> float64" where
  "extractMetricValue env p metric =
     (if metric = ''cpu_pct'' then mp_CPUPct p
      else if metric = ''mem_bytes'' then le_of_int env (mp_MemBytes p)
      else if metric = ''mem_pct'' then (if mp_MemLimit p = 0 then f_zero else le_ratio env (mp_MemBytes p) (mp_MemLimit p))
      else f_zero)"

definition alert_now :: "alert_env \<Rightarrow> instant" where
  "alert_now env = sql_now (le_sql env)"

definition cutoff :: "alert_env \<Rightarrow> AlertRule \<Rightarrow> int" where
  "cutoff env rule = (alert_now env + wrap64 (wrap64 (- rl_DurationSec rule) * time_second)) div time_second"

text \<open>The points a rule is judged by, and the two things that are computed from them.\<close>

definition rule_points :: "alert_env \<Rightarrow> AlertRule \<Rightarrow> metric_point list option" where
  "rule_points env rule = map_option (filter (\<lambda>p. cutoff env rule \<le> mp_Ts p)) (le_metrics env (rl_AppID rule))"

definition all_satisfy :: "alert_env \<Rightarrow> AlertRule \<Rightarrow> metric_point list \<Rightarrow> bool" where
  "all_satisfy env rule pts = list_all (\<lambda>p. checkCondition (extractMetricValue env p (rl_Metric rule)) (rl_Operator rule) (rl_Threshold rule)) pts"

definition average :: "alert_env \<Rightarrow> AlertRule \<Rightarrow> metric_point list \<Rightarrow> float64" where
  "average env rule pts =
     le_div env (fold (\<lambda>p acc. le_add env acc (extractMetricValue env p (rl_Metric rule))) pts f_zero) (le_of_int env (int (length pts)))"

definition app_of_rule :: "alert_env \<Rightarrow> AlertRule \<Rightarrow> alert_db \<Rightarrow> App option" where
  "app_of_rule env rule d =
     (case rl_AppID rule of None \<Rightarrow> None
      | Some i \<Rightarrow> (case GetAppByID (le_sql env) i (ab_apps d) of Inl _ \<Rightarrow> None | Inr a \<Rightarrow> Some a))"

definition buildEvent :: "alert_env \<Rightarrow> AlertRule \<Rightarrow> float64 \<Rightarrow> string \<Rightarrow> alert_db \<Rightarrow> AlertEvent" where
  "buildEvent env rule value status d =
     EnrichEvent (le_web env)
       \<lparr>ev_AppName = (case app_of_rule env rule d of None \<Rightarrow> [] | Some a \<Rightarrow> app_Name a),
        ev_AppSlug = (case app_of_rule env rule d of None \<Rightarrow> [] | Some a \<Rightarrow> app_Slug a),
        ev_Metric = rl_Metric rule, ev_MetricDisplay = [], ev_Value = value, ev_ValueDisplay = [], ev_Threshold = rl_Threshold rule,
        ev_ThresholdDisplay = [], ev_Operator = rl_Operator rule, ev_Status = status, ev_FiredAt = alert_now env\<rparr>"

text \<open>An error of the delivery is logged only.\<close>

definition notify :: "alert_env \<Rightarrow> Webhook \<Rightarrow> AlertEvent \<Rightarrow> alert_state \<Rightarrow> alert_state" where
  "notify env wh ev s = s\<lparr>al_net := snd (Send (le_web env) wh ev (al_net s)), al_sent := al_sent s @ [(wh, ev)]\<rparr>"

definition set_db :: "alert_db \<Rightarrow> alert_state \<Rightarrow> alert_state" where
  "set_db d s = s\<lparr>al_db := d\<rparr>"

definition fire :: "alert_env \<Rightarrow> AlertRule \<Rightarrow> float64 \<Rightarrow> alert_state \<Rightarrow> alert_state" where
  "fire env rule avg s =
     (let rule' = (case app_of_rule env rule (al_db s) of None \<Rightarrow> rule | Some a \<Rightarrow> rule\<lparr>rl_AppSlug := app_Slug a\<rparr>) in
      case GetWebhook (le_sql env) (rl_WebhookID rule) (al_db s) of
        Inl _ \<Rightarrow> s
      | Inr wh \<Rightarrow>
          let s1 = notify env wh (buildEvent env rule' avg ''firing'' (al_db s)) s
          in set_db (snd (CreateAlertHistory (le_sql env) (rl_ID rule) avg rule' (al_db s1))) s1)"

definition resolve :: "alert_env \<Rightarrow> AlertRule \<Rightarrow> float64 \<Rightarrow> AlertHistory \<Rightarrow> alert_state \<Rightarrow> alert_state" where
  "resolve env rule avg active s =
     (case ResolveAlert (le_sql env) (hi_ID active) (al_db s) of
        (Some _, d) \<Rightarrow> set_db d s
      | (None, d) \<Rightarrow>
          (case GetWebhook (le_sql env) (rl_WebhookID rule) d of
             Inl _ \<Rightarrow> set_db d s
           | Inr wh \<Rightarrow> notify env wh (buildEvent env rule avg ''resolved'' d) (set_db d s)))"

definition eval_rule :: "alert_env \<Rightarrow> AlertRule \<Rightarrow> alert_state \<Rightarrow> alert_state" where
  "eval_rule env rule s =
     (case rule_points env rule of
        None \<Rightarrow> s
      | Some pts \<Rightarrow>
          if pts = [] then s
          else
            (case GetActiveAlert (le_sql env) (rl_ID rule) (al_db s) of
               Inl _ \<Rightarrow> s
             | Inr active \<Rightarrow>
                 (case (all_satisfy env rule pts, active) of
                    (True, None) \<Rightarrow> fire env rule (average env rule pts) s
                  | (False, Some h) \<Rightarrow> resolve env rule (average env rule pts) h s
                  | _ \<Rightarrow> s)))"

definition EvaluateOnce :: "alert_env \<Rightarrow> alert_state \<Rightarrow> store_error option \<times> alert_state" where
  "EvaluateOnce env s =
     (case ListActiveAlertRules (le_sql env) (al_db s) of
        Inl err \<Rightarrow> (Some err, s)
      | Inr rules \<Rightarrow> (None, fold (eval_rule env) rules s))"

definition backupEventForApp :: "BackupAlertEvent \<Rightarrow> int \<Rightarrow> bool" where
  "backupEventForApp ev appID \<longleftrightarrow> bv_AppID ev \<noteq> 0 \<and> bv_AppID ev = appID"

definition backup_rule :: "BackupAlertEvent \<Rightarrow> AlertRule \<Rightarrow> bool" where
  "backup_rule ev rule \<longleftrightarrow>
     (rl_Metric rule = bv_EventType ev \<or> rl_Metric rule = ''backup_all'') \<and>
     (case rl_AppID rule of None \<Rightarrow> True | Some i \<Rightarrow> backupEventForApp ev i)"

definition dispatch_rule :: "alert_env \<Rightarrow> BackupAlertEvent \<Rightarrow> AlertRule \<Rightarrow> alert_state \<Rightarrow> alert_state" where
  "dispatch_rule env ev rule s =
     (if \<not> backup_rule ev rule then s
      else case GetWebhook (le_sql env) (rl_WebhookID rule) (al_db s) of
        Inl _ \<Rightarrow> s | Inr wh \<Rightarrow> notify env wh (ToAlertEvent ev) s)"

definition DispatchBackupAlert :: "alert_env \<Rightarrow> BackupAlertEvent \<Rightarrow> alert_state \<Rightarrow> alert_state" where
  "DispatchBackupAlert env ev s =
     (case ListActiveAlertRules (le_sql env) (al_db s) of Inl _ \<Rightarrow> s | Inr rules \<Rightarrow> fold (dispatch_rule env ev) rules s)"


subsection \<open>Well-formed tables\<close>

definition webhooks_ok :: "Webhook list \<Rightarrow> int \<Rightarrow> bool" where
  "webhooks_ok ws n \<longleftrightarrow> distinct (map wh_ID ws) \<and> list_all (\<lambda>w. wh_ID w \<le> n \<and> webhook_type_ok (wh_Type w)) ws"

definition rules_ok :: "AlertRule list \<Rightarrow> int \<Rightarrow> int set \<Rightarrow> int set \<Rightarrow> bool" where
  "rules_ok rs n apps hooks \<longleftrightarrow>
     distinct (map rl_ID rs) \<and>
     list_all (\<lambda>r. rl_ID r \<le> n \<and> operator_ok (rl_Operator r) \<and> rl_WebhookID r \<in> hooks \<and>
                 (case rl_AppID r of None \<Rightarrow> True | Some a \<Rightarrow> a \<in> apps)) rs"

definition rows_ok :: "AlertHistory list \<Rightarrow> int \<Rightarrow> int set \<Rightarrow> bool" where
  "rows_ok hs n rules \<longleftrightarrow>
     distinct (map hi_ID hs) \<and>
     list_all (\<lambda>h. hi_ID h \<le> n \<and> (\<forall>i. hi_RuleID h = Some i \<longrightarrow> i \<in> rules)) hs \<and>
     (\<forall>i. length (filter (is_open i) hs) \<le> 1)"

definition app_ids_of :: "alert_db \<Rightarrow> int set" where
  "app_ids_of d = app_ID ` set (ad_apps (ab_apps d))"

definition hook_ids :: "alert_db \<Rightarrow> int set" where
  "hook_ids d = wh_ID ` set (ab_webhooks d)"

definition rule_ids :: "alert_db \<Rightarrow> int set" where
  "rule_ids d = rl_ID ` set (ab_rules d)"

definition alert_ok :: "alert_db \<Rightarrow> bool" where
  "alert_ok d \<longleftrightarrow>
     distinct (map app_Slug (ad_apps (ab_apps d))) \<and>
     webhooks_ok (ab_webhooks d) (ab_webhooks_seq d) \<and>
     rules_ok (ab_rules d) (ab_rules_seq d) (app_ids_of d) (hook_ids d) \<and>
     rows_ok (ab_history d) (ab_history_seq d) (rule_ids d)"

lemmas alert_ids = app_ids_of_def hook_ids_def rule_ids_def

lemma alert_ids_update [simp]:
  "app_ids_of (d\<lparr>ab_history := hs\<rparr>) = app_ids_of d" "hook_ids (d\<lparr>ab_history := hs\<rparr>) = hook_ids d"
  "rule_ids (d\<lparr>ab_history := hs\<rparr>) = rule_ids d" "app_ids_of (d\<lparr>ab_history_seq := n\<rparr>) = app_ids_of d"
  "hook_ids (d\<lparr>ab_history_seq := n\<rparr>) = hook_ids d" "rule_ids (d\<lparr>ab_history_seq := n\<rparr>) = rule_ids d"
  "app_ids_of (d\<lparr>ab_webhooks := ws\<rparr>) = app_ids_of d" "rule_ids (d\<lparr>ab_webhooks := ws\<rparr>) = rule_ids d"
  "app_ids_of (d\<lparr>ab_webhooks_seq := n\<rparr>) = app_ids_of d" "rule_ids (d\<lparr>ab_webhooks_seq := n\<rparr>) = rule_ids d"
  "app_ids_of (d\<lparr>ab_rules := rs\<rparr>) = app_ids_of d" "hook_ids (d\<lparr>ab_rules := rs\<rparr>) = hook_ids d"
  by (simp_all add: alert_ids)

lemma length_filter_imp: "(\<And>x. P x \<Longrightarrow> Q x) \<Longrightarrow> length (filter P xs) \<le> length (filter Q xs)"
  by (induction xs) (auto intro: le_SucI)

text \<open>Changing rows in place, dropping rows and adding one.\<close>

definition keeps_row :: "(AlertHistory \<Rightarrow> AlertHistory) \<Rightarrow> bool" where
  "keeps_row f \<longleftrightarrow> 
     (\<forall>h. hi_ID (f h) = hi_ID h \<and> (\<forall>i. hi_RuleID (f h) = Some i \<longrightarrow> hi_RuleID h = Some i) \<and>
          (hi_ResolvedAt (f h) = None \<longrightarrow> hi_ResolvedAt h = None))"

lemma keeps_rowD:
  assumes "keeps_row f"
  shows "hi_ID (f h) = hi_ID h" "hi_RuleID (f h) = Some i \<Longrightarrow> hi_RuleID h = Some i" "is_open i (f h) \<Longrightarrow> is_open i h"
  using assms unfolding keeps_row_def is_open_def by blast+

lemma rows_ok_map:
  assumes "keeps_row f" "rows_ok hs n rules"
  shows "rows_ok (map f hs) n rules"
proof -
  have "map hi_ID (map f hs) = map hi_ID hs" by (simp add: keeps_rowD(1) [OF assms(1)])
  moreover have "length (filter (is_open i) (map f hs)) \<le> length (filter (is_open i) hs)" for i
    using length_filter_imp [of "is_open i \<circ> f" "is_open i" hs] keeps_rowD(3) [OF assms(1)] by (simp add: filter_map)
  moreover have "\<forall>h \<in> set (map f hs). hi_ID h \<le> n \<and> (\<forall>i. hi_RuleID h = Some i \<longrightarrow> i \<in> rules)"
  proof
    fix h
    assume "h \<in> set (map f hs)"
    then obtain g where g: "g \<in> set hs" "h = f g" by auto
    then have "hi_ID g \<le> n" "\<And>i. hi_RuleID g = Some i \<Longrightarrow> i \<in> rules" using assms(2) unfolding rows_ok_def list_all_iff by blast+
    then show "hi_ID h \<le> n \<and> (\<forall>i. hi_RuleID h = Some i \<longrightarrow> i \<in> rules)" using g(2) keeps_rowD [OF assms(1)] by metis
  qed
  ultimately show ?thesis using assms(2) unfolding rows_ok_def list_all_iff by (metis le_trans)
qed

lemma rows_ok_filter: "rows_ok hs n rules \<Longrightarrow> rows_ok (filter P hs) n rules"
proof -
  assume ok: "rows_ok hs n rules"
  have "length (filter (is_open i) (filter P hs)) \<le> length (filter (is_open i) hs)" for i
    using length_filter_imp [of "\<lambda>x. P x \<and> is_open i x" "is_open i" hs] by (simp add: conj_commute)
  then show ?thesis using ok unfolding rows_ok_def list_all_iff by (metis distinct_map_filter filter_is_subset le_trans subsetD)
qed

lemma rows_ok_new:
  assumes "rows_ok hs n rules" "hi_ID h = n + 1" "\<forall>i. hi_RuleID h = Some i \<longrightarrow> i \<in> rules \<and> filter (is_open i) hs = []"
  shows "rows_ok (hs @ [h]) (n + 1) rules"
  using assms by (auto simp: rows_ok_def list_all_iff is_open_def)

lemma keeps_row_updates:
  "keeps_row (\<lambda>h. if P h then resolve_row e h else h)" "keeps_row (\<lambda>h. if P h then snapshot_row r h else h)"
  "keeps_row (\<lambda>h. case hi_RuleID h of Some i \<Rightarrow> if i \<in> A then h\<lparr>hi_RuleID := None\<rparr> else h | None \<Rightarrow> h)"
  by (auto simp: keeps_row_def resolve_row_def snapshot_row_def split: option.splits)

lemma rows_ok_rules: "rows_ok hs n rules \<Longrightarrow> rules \<subseteq> rules' \<Longrightarrow> rows_ok hs n rules'"
  by (auto simp: rows_ok_def list_all_iff)

text \<open>Rows that lost their rule no longer need it.\<close>

lemma rows_ok_drop:
  assumes "rows_ok hs n rules"
  shows "rows_ok (map (\<lambda>h. case hi_RuleID h of Some i \<Rightarrow> if i \<in> A then h\<lparr>hi_RuleID := None\<rparr> else h | None \<Rightarrow> h) hs) n (rules - A)"
  (is "rows_ok (map ?f hs) n _")
proof -
  have "rows_ok (map ?f hs) n rules" using rows_ok_map [OF keeps_row_updates(3)] assms .
  moreover have "hi_RuleID (?f h) \<noteq> Some i" if "i \<in> A" for h i using that by (auto split: option.splits)
  ultimately show ?thesis unfolding rows_ok_def list_all_iff set_map by blast
qed

lemma alert_ok_history:
  "alert_ok d \<Longrightarrow> rows_ok hs n (rule_ids d) \<Longrightarrow> alert_ok (d\<lparr>ab_history := hs, ab_history_seq := n\<rparr>)"
  "alert_ok d \<Longrightarrow> rows_ok hs (ab_history_seq d) (rule_ids d) \<Longrightarrow> alert_ok (d\<lparr>ab_history := hs\<rparr>)"
  by (simp_all add: alert_ok_def alert_ids)

lemma alert_ok_map_history:
  "alert_ok d \<Longrightarrow> keeps_row (\<lambda>h. if p h then f h else h) \<Longrightarrow> alert_ok (map_history p f d)"
  unfolding map_history_def by (rule alert_ok_history(2)) (auto simp: alert_ok_def intro: rows_ok_map)

lemma rules_ok_filter: "rules_ok rs n a h \<Longrightarrow> rules_ok (filter P rs) n a h"
  by (auto simp: rules_ok_def list_all_iff distinct_map_filter)

lemma alert_ok_drop: 
  assumes "alert_ok d"
  shows "alert_ok (drop_rules p d)"
proof -
  have gone: "rl_ID ` set (filter (\<lambda>r. \<not> p r) (ab_rules d)) = rule_ids d - set (map rl_ID (filter p (ab_rules d)))"
    using assms by (auto simp: alert_ok_def rules_ok_def alert_ids distinct_map inj_on_def)
  then show ?thesis
    using assms rows_ok_drop [of "ab_history d" "ab_history_seq d" "rule_ids d" "set (map rl_ID (filter p (ab_rules d)))"]
    by (simp add: alert_ok_def drop_rules_def Let_def rules_ok_filter app_ids_of_def hook_ids_def rule_ids_def)
qed


subsection \<open>Every operation keeps the tables well formed\<close>

lemma alert_ok_webhooks:
  assumes "alert_ok d" "webhooks_ok ws n" "hook_ids d \<subseteq> wh_ID ` set ws"
  shows "alert_ok (d\<lparr>ab_webhooks := ws, ab_webhooks_seq := n\<rparr>)"
  using assms by (auto simp: alert_ok_def alert_ids rules_ok_def list_all_iff)

lemma alert_ok_webhooks': "alert_ok d \<Longrightarrow> webhooks_ok ws (ab_webhooks_seq d) \<Longrightarrow> hook_ids d \<subseteq> wh_ID ` set ws \<Longrightarrow> alert_ok (d\<lparr>ab_webhooks := ws\<rparr>)"
  using alert_ok_webhooks [of d ws "ab_webhooks_seq d"] by simp

lemma CreateWebhook_ok: "alert_ok d \<Longrightarrow> alert_ok (snd (CreateWebhook e w d))"
proof -
  assume ok: "alert_ok d"
  have "webhooks_ok (ab_webhooks d @ [w']) (ab_webhooks_seq d + 1)" if "wh_ID w' = ab_webhooks_seq d + 1" "webhook_type_ok (wh_Type w')" for w'
    using ok that by (auto simp: alert_ok_def webhooks_ok_def list_all_iff)
  then show ?thesis using ok by (auto simp: CreateWebhook_def Let_def hook_ids_def intro!: alert_ok_webhooks)
qed

lemma map_webhooks_ok:
  assumes "alert_ok d" "\<And>x. wh_ID (f x) = wh_ID x" "\<And>x. x \<in> set (ab_webhooks d) \<Longrightarrow> webhook_type_ok (wh_Type (f x))"
  shows "alert_ok (d\<lparr>ab_webhooks := map f (ab_webhooks d)\<rparr>)"
proof (rule alert_ok_webhooks' [OF assms(1)])
  show "webhooks_ok (map f (ab_webhooks d)) (ab_webhooks_seq d)"
    using assms by (simp add: alert_ok_def webhooks_ok_def list_all_iff comp_def)
  show "hook_ids d \<subseteq> wh_ID ` set (map f (ab_webhooks d))" using assms(2) by (simp add: hook_ids_def image_image)
qed

lemma webhook_type_in: "alert_ok d \<Longrightarrow> x \<in> set (ab_webhooks d) \<Longrightarrow> webhook_type_ok (wh_Type x)"
  by (auto simp: alert_ok_def webhooks_ok_def list_all_iff)

lemma UpdateWebhook_ok: "alert_ok d \<Longrightarrow> alert_ok (snd (UpdateWebhook e w d))"
  by (auto simp: UpdateWebhook_def set_webhook_def webhook_type_in intro!: map_webhooks_ok)

text \<open>Deleting a webhook is deleting its rules first.\<close>

lemma DeleteWebhook_ok:
  assumes "alert_ok d"
  shows "alert_ok (snd (DeleteWebhook e i d))"
proof -
  let ?p = "\<lambda>r. rl_WebhookID r = i" and ?ws = "filter (\<lambda>w. wh_ID w \<noteq> i) (ab_webhooks d)"
  have "alert_ok (drop_rules ?p d)" using alert_ok_drop [OF assms] .
  then have "alert_ok ((drop_rules ?p d)\<lparr>ab_webhooks := ?ws\<rparr>)"
    by (auto simp: alert_ok_def alert_ids rules_ok_def webhooks_ok_def list_all_iff drop_rules_def Let_def distinct_map_filter)
  moreover have "(drop_rules ?p d)\<lparr>ab_webhooks := ?ws\<rparr> = drop_rules ?p (d\<lparr>ab_webhooks := ?ws\<rparr>)" by (simp add: drop_rules_def Let_def)
  ultimately show ?thesis using assms by (simp add: DeleteWebhook_def)
qed

lemma WipeConfig_ok:
  assumes "alert_ok d"
  shows "alert_ok (snd (alerts_WipeConfig e d))"
proof -
  have "alert_ok ((drop_rules (\<lambda>_. True) d)\<lparr>ab_webhooks := []\<rparr>)"
    using alert_ok_drop [OF assms, of "\<lambda>_. True"]
    by (simp add: alert_ok_def alert_ids rules_ok_def webhooks_ok_def drop_rules_def Let_def)
  then show ?thesis using assms by (simp add: alerts_WipeConfig_def)
qed

lemma UpsertWebhookByName_ok: "alert_ok d \<Longrightarrow> alert_ok (snd (UpsertWebhookByName e w d))"
  using CreateWebhook_ok [of d e w] UpdateWebhook_ok [of d e]
  by (auto simp: UpsertWebhookByName_def split: option.splits prod.splits sum.splits) (metis snd_conv)+

lemma UpsertWebhookFromRedacted_ok:
  assumes "alert_ok d"
  shows "alert_ok (snd (UpsertWebhookFromRedacted e name kind d))"
proof (cases "webhook_by_name name d")
  case None
  then show ?thesis using CreateWebhook_ok [OF assms, of e]
    by (auto simp: UpsertWebhookFromRedacted_def assms split: prod.splits sum.splits) (metis snd_conv)+
next
  case (Some old)
  have "webhook_type_ok kind \<Longrightarrow>
      alert_ok (d\<lparr>ab_webhooks := map (\<lambda>x. if wh_ID x = wh_ID old then x\<lparr>wh_Type := kind\<rparr> else x) (ab_webhooks d)\<rparr>)"
    using assms by (auto intro!: map_webhooks_ok simp: webhook_type_in)
  then show ?thesis using Some assms by (simp add: UpsertWebhookFromRedacted_def)
qed

lemma CreateAlertRule_ok:
  assumes "alert_ok d"
  shows "alert_ok (snd (CreateAlertRule e r d))"
proof -
  have "rows_ok (ab_history d) (ab_history_seq d) (insert (ab_rules_seq d + 1) (rule_ids d))"
    using assms by (auto simp: alert_ok_def intro: rows_ok_rules)
  then show ?thesis using assms
    by (auto simp: CreateAlertRule_def Let_def alert_ok_def rules_ok_def alert_ids list_all_iff rule_refs_ok_def split: option.splits)
qed

lemma ResolveAlertsByRule_ok: "alert_ok d \<Longrightarrow> alert_ok (snd (ResolveAlertsByRule e i d))"
  by (simp add: ResolveAlertsByRule_def alert_ok_map_history keeps_row_updates)

lemma ResolveAlert_ok: "alert_ok d \<Longrightarrow> alert_ok (snd (ResolveAlert e i d))"
  by (simp add: ResolveAlert_def alert_ok_map_history keeps_row_updates)

lemma rules_ok_set_rule:
  assumes "rules_ok rs n apps hooks" "operator_ok (rl_Operator r)" "rl_WebhookID r \<in> hooks" "\<forall>a. rl_AppID r = Some a \<longrightarrow> a \<in> apps"
  shows "rules_ok (map (\<lambda>x. if rl_ID x = rl_ID r then set_rule r x else x) rs) n apps hooks"
proof -
  have "rl_ID (if rl_ID x = rl_ID r then set_rule r x else x) = rl_ID x" for x by (simp add: set_rule_def)
  then show ?thesis using assms by (auto simp: rules_ok_def list_all_iff comp_def set_rule_def split: option.splits)
qed

lemma UpdateAlertRule_ok:
  assumes "alert_ok d"
  shows "alert_ok (snd (UpdateAlertRule e r d))"
proof -
  define d1 where "d1 = (if rl_Enabled r then d else snd (ResolveAlertsByRule e (rl_ID r) d))"
  define d2 where "d2 = d1\<lparr>ab_rules := map (\<lambda>x. if rl_ID x = rl_ID r then set_rule r x else x) (ab_rules d1)\<rparr>"
  have ok1: "alert_ok d1" using assms by (simp add: d1_def ResolveAlertsByRule_ok)
  have "rl_ID (if rl_ID x = rl_ID r then set_rule r x else x) = rl_ID x" for x by (simp add: set_rule_def)
  then have "map rl_ID (ab_rules d2) = map rl_ID (ab_rules d1)" by (simp add: d2_def)
  then have ids: "rule_ids d2 = rule_ids d1" unfolding rule_ids_def by (metis set_map)
  have ok2: "alert_ok d2" if "operator_ok (rl_Operator r)" "rule_refs_ok r d1"
  proof -
    have "rules_ok (ab_rules d2) (ab_rules_seq d1) (app_ids_of d1) (hook_ids d1)"
      unfolding d2_def using ok1 that
      by (auto simp: alert_ok_def rule_refs_ok_def app_ids_of_def hook_ids_def intro!: rules_ok_set_rule split: option.splits)
    then show ?thesis using ok1 ids by (simp add: alert_ok_def d2_def app_ids_of_def hook_ids_def)
  qed
  then show ?thesis using ok1
    by (simp add: UpdateAlertRule_def Let_def d1_def [symmetric] d2_def [symmetric] alert_ok_map_history keeps_row_updates)
qed

lemma DeleteAlertRule_ok: "alert_ok d \<Longrightarrow> alert_ok (snd (DeleteAlertRule e i d))"
  by (simp add: DeleteAlertRule_def Let_def alert_ok_drop ResolveAlertsByRule_ok)

lemma DeleteAlertRulesForApp_ok:
  assumes "alert_ok d"
  shows "alert_ok (snd (DeleteAlertRulesForApp e i d))"
proof -
  have "alert_ok (fold (\<lambda>r d. snd (ResolveAlertsByRule e (rl_ID r) d)) rules d)" for rules :: "AlertRule list"
    using assms by (induction rules arbitrary: d) (simp_all add: ResolveAlertsByRule_ok)
  then show ?thesis using assms by (cases "ListAlertRules e (Some i) d") (simp_all add: DeleteAlertRulesForApp_def Let_def alert_ok_drop)
qed

lemma ClearAlertHistory_ok: "alert_ok d \<Longrightarrow> alert_ok (snd (ClearAlertHistory e b d))"
  using rows_ok_filter [of "ab_history d" "ab_history_seq d" "rule_ids d"]
  by (auto simp: ClearAlertHistory_def alert_ok_def rows_ok_def alert_ids)

lemma InsertConflictAlert_ok: "alert_ok d \<Longrightarrow> alert_ok (snd (InsertConflictAlert e p x d))"
proof -
  assume ok: "alert_ok d"
  then have "rows_ok (ab_history d @ [h]) (ab_history_seq d + 1) (rule_ids d)" if "hi_ID h = ab_history_seq d + 1" "hi_RuleID h = None" for h
    using that by (auto simp: alert_ok_def intro: rows_ok_new)
  then show ?thesis using ok by (auto simp: InsertConflictAlert_def Let_def intro!: alert_ok_history(1))
qed

lemma purge_ok:
  assumes "alert_ok d"
  shows "alert_ok (snd (alerts_PurgeApp e slug d))"
proof (cases "app_by_slug (ab_apps d) slug")
  case (Some a)
  define i where "i = app_ID a"
  have a: "a \<in> set (ad_apps (ab_apps d))" "app_Slug a = slug"
    using Some by (auto simp: app_by_slug_def find_Some_iff)
  then have only: "b \<in> set (ad_apps (ab_apps d)) \<Longrightarrow> app_Slug b = slug \<Longrightarrow> b = a" for b
    using assms by (auto simp: alert_ok_def distinct_map inj_on_def)
  let ?gone = "set (map rl_ID (filter (\<lambda>r. rl_AppID r = Some i) (ab_rules d)))"
  let ?hs = "filter (\<lambda>h. \<not> (hi_AppSlug h = slug \<or> (case hi_RuleID h of Some r \<Rightarrow> r \<in> ?gone | None \<Rightarrow> False))) (ab_history d)"
  have ids: "rl_ID ` set (filter (\<lambda>r. rl_AppID r \<noteq> Some i) (ab_rules d)) = rule_ids d - ?gone"
    using assms by (auto simp: alert_ok_def rules_ok_def alert_ids distinct_map inj_on_def)
  have "rows_ok ?hs (ab_history_seq d) (rule_ids d)" using assms by (auto simp: alert_ok_def intro: rows_ok_filter)
  then have "rows_ok ?hs (ab_history_seq d) (rule_ids d - ?gone)"
    unfolding rows_ok_def list_all_iff by (fastforce split: option.splits)
  moreover have "rules_ok (filter (\<lambda>r. rl_AppID r \<noteq> Some i) (ab_rules d)) (ab_rules_seq d)
      (app_ID ` set (filter (\<lambda>a. app_Slug a \<noteq> slug) (ad_apps (ab_apps d)))) (hook_ids d)"
    using assms only by (fastforce simp: alert_ok_def rules_ok_def list_all_iff distinct_map_filter app_ids_of_def i_def split: option.splits)
  ultimately have "alert_ok (purge_alerts slug i d)"
    using assms unfolding alert_ok_def ids [symmetric]
    by (simp add: purge_alerts_def purge_rows_def Let_def app_ids_of_def hook_ids_def rule_ids_def distinct_map_filter)
  then show ?thesis using Some assms by (simp add: alerts_PurgeApp_def i_def)
qed (simp add: alerts_PurgeApp_def assms)


subsection \<open>One open row per rule\<close>

definition has_open :: "alert_db \<Rightarrow> int \<Rightarrow> bool" where
  "has_open d i \<longleftrightarrow> list_ex (is_open i) (ab_history d)"

lemma GetActiveAlert_cases:
  assumes "GetActiveAlert e i d = Inr a"
  shows "a = None \<longleftrightarrow> \<not> has_open d i" "a = Some h \<Longrightarrow> h \<in> set (ab_history d) \<and> is_open i h"
proof -
  let ?hs = "sort_by newer_history (filter (is_open i) (ab_history d))"
  have a: "a = (case ?hs of [] \<Rightarrow> None | h # _ \<Rightarrow> Some h)" using assms by (simp add: GetActiveAlert_def split: if_splits)
  have set: "set ?hs = {h \<in> set (ab_history d). is_open i h}" by simp
  show "a = None \<longleftrightarrow> \<not> has_open d i"
    using a set by (cases ?hs) (auto simp: has_open_def list_ex_iff)
  show "a = Some h \<Longrightarrow> h \<in> set (ab_history d) \<and> is_open i h"
    using a set by (cases ?hs) auto
qed

lemma CreateAlertHistory_ok:
  assumes "alert_ok d" "\<not> has_open d i"
  shows "alert_ok (snd (CreateAlertHistory e i v r d))"
proof -
  have "filter (is_open i) (ab_history d) = []" using assms(2) by (simp add: has_open_def list_ex_iff filter_empty_conv)
  then have "rows_ok (ab_history d @ [h]) (ab_history_seq d + 1) (rule_ids d)"
    if "hi_ID h = ab_history_seq d + 1" "hi_RuleID h = Some i" "i \<in> rule_ids d" for h
    using assms(1) that by (auto simp: alert_ok_def intro: rows_ok_new)
  then show ?thesis using assms(1)
    by (auto simp: CreateAlertHistory_def Let_def rule_ids_def intro!: alert_ok_history(1))
qed

lemma notify_db [simp]: "al_db (notify env wh ev s) = al_db s" "al_sent (notify env wh ev s) = al_sent s @ [(wh, ev)]"
  by (simp_all add: notify_def)

lemma set_db_db [simp]: "al_db (set_db d s) = d" "al_sent (set_db d s) = al_sent s" "al_net (set_db d s) = al_net s"
  by (simp_all add: set_db_def)

lemma resolve_db: "al_db (resolve env rule avg h s) = snd (ResolveAlert (le_sql env) (hi_ID h) (al_db s))"
  by (auto simp: resolve_def split: prod.splits option.splits sum.splits)

lemma eval_rule_ok:
  assumes "alert_ok (al_db s)"
  shows "alert_ok (al_db (eval_rule env rule s))"
proof (cases "rule_points env rule")
  case (Some pts)
  show ?thesis
  proof (cases "GetActiveAlert (le_sql env) (rl_ID rule) (al_db s)")
    case (Inr a)
    have "alert_ok (al_db (fire env rule (average env rule pts) s))" if "a = None"
    proof -
      have "\<not> has_open (al_db s) (rl_ID rule)" using GetActiveAlert_cases(1) [OF Inr] that by simp
      then show ?thesis using assms by (simp add: fire_def Let_def CreateAlertHistory_ok split: sum.splits)
    qed
    moreover have "alert_ok (al_db (resolve env rule (average env rule pts) h s))" for h
      using assms by (simp add: resolve_db ResolveAlert_ok)
    ultimately show ?thesis using Some Inr assms by (simp add: eval_rule_def split: option.splits bool.splits)
  qed (use Some assms in \<open>simp add: eval_rule_def\<close>)
qed (simp add: eval_rule_def assms)

text \<open>
  The steps the tables take: the operations of the store, an app that is added or updated, and the evaluation of one rule.
  The evaluator works on a list of rules it read before, so the rule of a step is any rule, changed or deleted since.
\<close>

inductive alert_step :: "alert_db \<Rightarrow> alert_db \<Rightarrow> bool" where
  create_webhook: "alert_step d (snd (CreateWebhook e w d))"
| update_webhook: "alert_step d (snd (UpdateWebhook e w d))"
| delete_webhook: "alert_step d (snd (DeleteWebhook e i d))"
| upsert_webhook: "alert_step d (snd (UpsertWebhookByName e w d))"
| redacted_webhook: "alert_step d (snd (UpsertWebhookFromRedacted e name kind d))"
| create_rule: "alert_step d (snd (CreateAlertRule e r d))"
| update_rule: "alert_step d (snd (UpdateAlertRule e r d))"
| delete_rule: "alert_step d (snd (DeleteAlertRule e i d))"
| delete_app_rules: "alert_step d (snd (DeleteAlertRulesForApp e i d))"
| resolve_rule: "alert_step d (snd (ResolveAlertsByRule e i d))"
| clear_history: "alert_step d (snd (ClearAlertHistory e b d))"
| conflict: "alert_step d (snd (InsertConflictAlert e p x d))"
| purge_app: "alert_step d (snd (alerts_PurgeApp e slug d))"
| wipe: "alert_step d (snd (alerts_WipeConfig e d))"
| upsert_app: "alert_step d (d\<lparr>ab_apps := snd (UpsertApp e a labels (ab_apps d))\<rparr>)"
| evaluate: "al_db s = d \<Longrightarrow> alert_step d (al_db (eval_rule env rule s))"

definition no_alerts :: alert_db where
  "no_alerts = \<lparr>ab_apps = \<lparr>ad_apps = [], ad_apps_seq = 0, ad_labels = [], ad_versions = [], ad_events = [], ad_access = [],
     ad_audit = [], ad_backup_configs = [], ad_backup_runs = [], ad_alert_rules = [], ad_alert_history = []\<rparr>,
     ab_webhooks = [], ab_webhooks_seq = 0, ab_rules = [], ab_rules_seq = 0, ab_history = [], ab_history_seq = 0\<rparr>"

lemma UpsertApp_alert_ok:
  assumes "alert_ok d"
  shows "alert_ok (d\<lparr>ab_apps := snd (UpsertApp e a labels (ab_apps d))\<rparr>)"
proof -
  let ?d = "ab_apps d" and ?d' = "snd (UpsertApp e a labels (ab_apps d))"
  have maps: "map app_Slug (ad_apps (update_apps slug (set_app_row e a) ?d)) = map app_Slug (ad_apps ?d)"
    "map app_ID (ad_apps (update_apps slug (set_app_row e a) ?d)) = map app_ID (ad_apps ?d)" for slug
    by (simp_all add: update_apps_def set_app_row_def)
  then have same: "app_ID ` set (ad_apps (update_apps slug (set_app_row e a) ?d)) = app_ID ` set (ad_apps ?d)" for slug
    by (metis set_map)
  have "distinct (map app_Slug (ad_apps ?d))" using assms by (simp add: alert_ok_def)
  then have "distinct (map app_Slug (ad_apps ?d'))" "app_ID ` set (ad_apps ?d) \<subseteq> app_ID ` set (ad_apps ?d')"
    using maps same by (auto simp: UpsertApp_def replace_labels_def Let_def new_app_row_def app_by_slug_def find_None_iff split: option.splits)
  then show ?thesis using assms
    by (auto simp: alert_ok_def alert_ids rules_ok_def list_all_iff split: option.splits)
qed

lemma alert_step_ok: "alert_step d d' \<Longrightarrow> alert_ok d \<Longrightarrow> alert_ok d'"
  by (induction rule: alert_step.induct)
    (simp_all add: CreateWebhook_ok UpdateWebhook_ok DeleteWebhook_ok UpsertWebhookByName_ok UpsertWebhookFromRedacted_ok
      CreateAlertRule_ok UpdateAlertRule_ok DeleteAlertRule_ok DeleteAlertRulesForApp_ok ResolveAlertsByRule_ok
      ClearAlertHistory_ok InsertConflictAlert_ok purge_ok WipeConfig_ok UpsertApp_alert_ok eval_rule_ok)

text \<open>
  Property C13. In every state the alert tables can reach, by any interleaving of API calls, imports, purges, wipes before a restore and rules
  being evaluated (also from an outdated list), a rule has at most one open alert, every rule names a webhook and an
  app that exist and an operator the evaluator knows, and no history row names a rule that is gone.
\<close>

theorem one_open_alert:
  assumes "alert_step\<^sup>*\<^sup>* no_alerts d"
  shows "alert_ok d \<and> (\<forall>i. length (filter (is_open i) (ab_history d)) \<le> 1)"
proof -
  have "alert_ok no_alerts" by (simp add: no_alerts_def alert_ok_def webhooks_ok_def rules_ok_def rows_ok_def)
  with assms have "alert_ok d" by (induction rule: rtranclp_induct) (simp_all add: alert_step_ok)
  then show ?thesis by (simp add: alert_ok_def rows_ok_def)
qed


text \<open>A webhook and a rule for the machine's CPU, above 80 percent of a core.\<close>

definition demo_alert_env :: "float64 \<Rightarrow> alert_env" where
  "demo_alert_env cpu =
     \<lparr>le_sql = calm_sql, le_web = rebinding_env,
      le_metrics = \<lambda>a. Some [\<lparr>mp_CPUPct = cpu, mp_MemBytes = 0, mp_MemLimit = 0, mp_Ts = sql_now calm_sql\<rparr>],
      le_of_int = \<lambda>n. of_int n, le_ratio = \<lambda>a b. 0, le_add = \<lambda>a b. b, le_div = \<lambda>a b. a\<rparr>"

definition f_80 :: float64 where "f_80 = 0x4054000000000000"
definition f_90 :: float64 where "f_90 = 0x4056800000000000"

definition demo_rule :: AlertRule where
  "demo_rule = \<lparr>rl_ID = 1, rl_AppID = None, rl_AppSlug = [], rl_Metric = ''cpu_pct'', rl_Operator = ''>'', rl_Threshold = f_80,
     rl_DurationSec = 300, rl_WebhookID = 1, rl_Enabled = True, rl_CreatedAt = 0\<rparr>"

definition demo_alerts :: alert_db where
  "demo_alerts = snd (CreateAlertRule calm_sql demo_rule (snd (CreateWebhook calm_sql demo_webhook no_alerts)))"

definition alert_st :: "alert_db \<Rightarrow> alert_state" where
  "alert_st d = \<lparr>al_db = d, al_net = [], al_sent = []\<rparr>"

definition fired_twice :: alert_db where
  "fired_twice = al_db (eval_rule (demo_alert_env f_90) demo_rule (eval_rule (demo_alert_env f_90) demo_rule (alert_st demo_alerts)))"

lemma alert_more: "alert_step\<^sup>*\<^sup>* a b \<Longrightarrow> alert_step b c \<Longrightarrow> alert_step\<^sup>*\<^sup>* a c"
  by (rule rtranclp.rtrancl_into_rtrancl)

lemma evaluated: "alert_step\<^sup>*\<^sup>* a (al_db s) \<Longrightarrow> alert_step\<^sup>*\<^sup>* a (al_db (eval_rule env rule s))"
  by (erule alert_more) (rule evaluate [OF refl])

lemma demo_alerts_reached: "alert_step\<^sup>*\<^sup>* no_alerts demo_alerts"
  unfolding demo_alerts_def
  by (rule alert_more [OF _ create_rule], rule alert_more [OF _ create_webhook], rule rtranclp.rtrancl_refl)

lemma fired_twice_reached: "alert_step\<^sup>*\<^sup>* no_alerts fired_twice"
  unfolding fired_twice_def by (rule evaluated, rule evaluated) (simp add: alert_st_def demo_alerts_reached)

lemma demo_points: "rule_points (demo_alert_env c) demo_rule = Some [\<lparr>mp_CPUPct = c, mp_MemBytes = 0, mp_MemLimit = 0, mp_Ts = 0\<rparr>]"
  by (simp add: rule_points_def demo_alert_env_def cutoff_def alert_now_def demo_rule_def calm_sql_def wrap64_def time_second_def)

lemma demo_satisfied: "all_satisfy (demo_alert_env f_90) demo_rule [\<lparr>mp_CPUPct = f_90, mp_MemBytes = 0, mp_MemLimit = 0, mp_Ts = 0\<rparr>]"
  by (simp add: all_satisfy_def demo_rule_def extractMetricValue_def checkCondition_def f_lt_def f_nan_def f_key_def f_mag_def f_80_def f_90_def)

lemma demo_alerts_eq:
  "demo_alerts = no_alerts\<lparr>ab_webhooks := [demo_webhook], ab_webhooks_seq := 1, ab_rules := [demo_rule], ab_rules_seq := 1\<rparr>"
  by (simp add: demo_alerts_def CreateAlertRule_def CreateWebhook_def Let_def calm_sql_def no_alerts_def demo_webhook_def demo_rule_def
      operator_ok_def webhook_type_ok_def rule_refs_ok_def)

lemma demo_env_sql [simp]: "le_sql (demo_alert_env c) = calm_sql"
  by (simp add: demo_alert_env_def)

lemma demo_ids [simp]: "rl_ID demo_rule = 1" "rl_WebhookID demo_rule = 1" "rl_AppID demo_rule = None" "wh_ID demo_webhook = 1"
  by (simp_all add: demo_rule_def demo_webhook_def)

lemma fired_twice_open: "length (filter (is_open 1) (ab_history fired_twice)) = 1"
proof -
  let ?env = "demo_alert_env f_90"
  define s1 where "s1 = eval_rule ?env demo_rule (alert_st demo_alerts)"
  have "\<exists>h. is_open 1 h \<and> al_db s1 = demo_alerts\<lparr>ab_history := [h], ab_history_seq := 1\<rparr>"
    by (simp add: s1_def eval_rule_def demo_points demo_satisfied GetActiveAlert_def alert_st_def demo_alerts_eq calm_sql_def no_alerts_def
        fire_def Let_def GetWebhook_def find_webhook_def app_of_rule_def CreateAlertHistory_def is_open_def)
  then obtain h where h: "is_open 1 h" "al_db s1 = demo_alerts\<lparr>ab_history := [h], ab_history_seq := 1\<rparr>" by blast
  then have "GetActiveAlert calm_sql 1 (al_db s1) = Inr (Some h)" by (simp add: GetActiveAlert_def calm_sql_def)
  then have "al_db (eval_rule ?env demo_rule s1) = al_db s1" by (simp add: eval_rule_def demo_points demo_satisfied)
  then show ?thesis using h by (simp add: fired_twice_def s1_def)
qed

theorem one_open_alert_witness:
  "(alert_ok fired_twice \<and> (\<forall>i. length (filter (is_open i) (ab_history fired_twice)) \<le> 1)) \<and>
   length (filter (is_open 1) (ab_history fired_twice)) = 1"
  using one_open_alert [OF fired_twice_reached] fired_twice_open by blast


subsection \<open>What one evaluation does\<close>

text \<open>What the metrics say of a rule: nothing, that it holds at every point of its window, or that it does not.\<close>

definition verdict :: "alert_env \<Rightarrow> AlertRule \<Rightarrow> bool option" where
  "verdict env r =
     (case rule_points env r of None \<Rightarrow> None | Some pts \<Rightarrow> if pts = [] then None else Some (all_satisfy env r pts))"

definition open_after :: "alert_env \<Rightarrow> AlertRule \<Rightarrow> bool \<Rightarrow> bool" where
  "open_after env r b = (case verdict env r of None \<Rightarrow> b | Some v \<Rightarrow> v)"

text \<open>The notification of a rule that changes: its webhook, its metric and whether it fires or resolves.\<close>

definition notice :: "alert_env \<Rightarrow> AlertRule \<Rightarrow> bool \<Rightarrow> (int \<times> string \<times> string) list" where
  "notice env r b =
     (if open_after env r b = b then []
      else [(rl_WebhookID r, rl_Metric r, if b then ''resolved'' else ''firing'')])"

definition sent_notices :: "alert_state \<Rightarrow> (int \<times> string \<times> string) list" where
  "sent_notices s = map (\<lambda>(wh, ev). (wh_ID wh, ev_Metric ev, ev_Status ev)) (al_sent s)"

definition sql_never_fails :: "alert_env \<Rightarrow> bool" where
  "sql_never_fails env \<longleftrightarrow> (\<forall>op. \<not> sql_fails (le_sql env) op)"

lemma buildEvent_fields [simp]: "ev_Status (buildEvent env r v st d) = st" "ev_Metric (buildEvent env r v st d) = rl_Metric r"
  by (simp_all add: buildEvent_def EnrichEvent_def)

lemma rule_webhook: "alert_ok d \<Longrightarrow> r \<in> set (ab_rules d) \<Longrightarrow> sql_never_fails env \<Longrightarrow>
    \<exists>wh. GetWebhook (le_sql env) (rl_WebhookID r) d = Inr wh \<and> wh_ID wh = rl_WebhookID r"
proof -
  assume ok: "alert_ok d" "r \<in> set (ab_rules d)" "sql_never_fails env"
  then have "rl_WebhookID r \<in> hook_ids d" by (auto simp: alert_ok_def rules_ok_def list_all_iff)
  then obtain wh where "find_webhook (rl_WebhookID r) d = Some wh" "wh_ID wh = rl_WebhookID r"
    by (cases "find_webhook (rl_WebhookID r) d") (auto simp: find_webhook_def hook_ids_def find_None_iff find_Some_iff)
  then show ?thesis using ok(3) by (simp add: GetWebhook_def sql_never_fails_def)
qed

lemma has_open_history:
  "has_open (d\<lparr>ab_history := ab_history d @ [h], ab_history_seq := n\<rparr>) i \<longleftrightarrow> has_open d i \<or> is_open i h"
  by (auto simp: has_open_def)

text \<open>Firing opens the rule and no other, resolving closes it and no other.\<close>

lemma fire_effect:
  assumes "alert_ok (al_db s)" "r \<in> set (ab_rules (al_db s))" "sql_never_fails env"
  shows "has_open (al_db (fire env r v s)) i \<longleftrightarrow> has_open (al_db s) i \<or> i = rl_ID r"
    and "ab_rules (al_db (fire env r v s)) = ab_rules (al_db s)"
    and "sent_notices (fire env r v s) = sent_notices s @ [(rl_WebhookID r, rl_Metric r, ''firing'')]"
proof -
  obtain wh where wh: "GetWebhook (le_sql env) (rl_WebhookID r) (al_db s) = Inr wh" "wh_ID wh = rl_WebhookID r"
    using rule_webhook [OF assms] by blast
  define r' where "r' = (case app_of_rule env r (al_db s) of None \<Rightarrow> r | Some a \<Rightarrow> r\<lparr>rl_AppSlug := app_Slug a\<rparr>)"
  have r': "rl_Metric r' = rl_Metric r" by (simp add: r'_def split: option.splits)
  define s1 where "s1 = notify env wh (buildEvent env r' v ''firing'' (al_db s)) s"
  have f: "fire env r v s = set_db (snd (CreateAlertHistory (le_sql env) (rl_ID r) v r' (al_db s1))) s1"
    by (simp add: fire_def Let_def wh r'_def [symmetric] s1_def)
  have db: "al_db s1 = al_db s" by (simp add: s1_def)
  have c: "\<exists>h. snd (CreateAlertHistory (le_sql env) (rl_ID r) v r' (al_db s)) =
      (al_db s)\<lparr>ab_history := ab_history (al_db s) @ [h], ab_history_seq := ab_history_seq (al_db s) + 1\<rparr> \<and>
      hi_RuleID h = Some (rl_ID r) \<and> hi_ResolvedAt h = None"
    using assms(2,3) by (auto simp: CreateAlertHistory_def Let_def sql_never_fails_def)
  show "has_open (al_db (fire env r v s)) i \<longleftrightarrow> has_open (al_db s) i \<or> i = rl_ID r"
    using c by (auto simp: f db has_open_history is_open_def)
  show "ab_rules (al_db (fire env r v s)) = ab_rules (al_db s)" using c by (auto simp: f db)
  show "sent_notices (fire env r v s) = sent_notices s @ [(rl_WebhookID r, rl_Metric r, ''firing'')]"
    by (simp add: f sent_notices_def s1_def wh r')
qed

lemma resolve_effect:
  assumes "alert_ok (al_db s)" "r \<in> set (ab_rules (al_db s))" "sql_never_fails env"
    and h: "h \<in> set (ab_history (al_db s))" "is_open (rl_ID r) h"
  shows "has_open (al_db (resolve env r v h s)) i \<longleftrightarrow> has_open (al_db s) i \<and> i \<noteq> rl_ID r"
    and "ab_rules (al_db (resolve env r v h s)) = ab_rules (al_db s)"
    and "sent_notices (resolve env r v h s) = sent_notices s @ [(rl_WebhookID r, rl_Metric r, ''resolved'')]"
proof -
  let ?d = "al_db s"
  define d where "d = map_history (\<lambda>x. hi_ID x = hi_ID h) (resolve_row (le_sql env)) ?d"
  have res: "ResolveAlert (le_sql env) (hi_ID h) ?d = (None, d)"
    using h(1) assms(3) by (auto simp: ResolveAlert_def sql_never_fails_def d_def)
  have "alert_ok d" using ResolveAlert_ok [OF assms(1), of "le_sql env" "hi_ID h"] by (simp add: res)
  moreover have rules: "ab_rules d = ab_rules ?d" by (simp add: d_def map_history_def)
  ultimately obtain wh where wh: "GetWebhook (le_sql env) (rl_WebhookID r) d = Inr wh" "wh_ID wh = rl_WebhookID r"
    using rule_webhook [of d r env] assms(2,3) by auto
  have inj: "x \<in> set (ab_history ?d) \<Longrightarrow> hi_ID x = hi_ID h \<Longrightarrow> x = h" for x
    using assms(1) h(1) by (auto simp: alert_ok_def rows_ok_def distinct_map inj_on_def)
  have one: "x = h" if "x \<in> set (ab_history ?d)" "is_open (rl_ID r) x" for x
  proof -
    have "length (filter (is_open (rl_ID r)) (ab_history ?d)) \<le> 1" using assms(1) by (simp add: alert_ok_def rows_ok_def)
    moreover have "x \<in> set (filter (is_open (rl_ID r)) (ab_history ?d))" "h \<in> set (filter (is_open (rl_ID r)) (ab_history ?d))"
      using that h by simp_all
    ultimately show ?thesis by (cases "filter (is_open (rl_ID r)) (ab_history ?d)") auto
  qed
  have "has_open d i \<longleftrightarrow> (\<exists>x \<in> set (ab_history ?d). is_open i x \<and> hi_ID x \<noteq> hi_ID h)"
    by (auto simp: has_open_def list_ex_iff d_def map_history_def is_open_def resolve_row_def)
  also have "\<dots> \<longleftrightarrow> has_open ?d i \<and> i \<noteq> rl_ID r"
  proof
    assume "\<exists>x \<in> set (ab_history ?d). is_open i x \<and> hi_ID x \<noteq> hi_ID h"
    then obtain x where x: "x \<in> set (ab_history ?d)" "is_open i x" "x \<noteq> h" by blast
    then have "i \<noteq> rl_ID r" using one by blast
    then show "has_open ?d i \<and> i \<noteq> rl_ID r" using x by (auto simp: has_open_def list_ex_iff)
  next
    assume a: "has_open ?d i \<and> i \<noteq> rl_ID r"
    then obtain x where x: "x \<in> set (ab_history ?d)" "is_open i x" by (auto simp: has_open_def list_ex_iff)
    then have "x \<noteq> h" using a h(2) by (auto simp: is_open_def)
    then show "\<exists>x \<in> set (ab_history ?d). is_open i x \<and> hi_ID x \<noteq> hi_ID h" using x inj by blast
  qed
  finally show "has_open (al_db (resolve env r v h s)) i \<longleftrightarrow> has_open ?d i \<and> i \<noteq> rl_ID r" by (simp add: resolve_db res)
  show "ab_rules (al_db (resolve env r v h s)) = ab_rules ?d" by (simp add: resolve_db res rules)
  show "sent_notices (resolve env r v h s) = sent_notices s @ [(rl_WebhookID r, rl_Metric r, ''resolved'')]"
    by (simp add: resolve_def res wh sent_notices_def)
qed

lemma eval_rule_effect:
  assumes "alert_ok (al_db s)" "r \<in> set (ab_rules (al_db s))" "sql_never_fails env"
  shows "has_open (al_db (eval_rule env r s)) i \<longleftrightarrow>
      (if i = rl_ID r then open_after env r (has_open (al_db s) i) else has_open (al_db s) i)" (is ?opens)
    and "ab_rules (al_db (eval_rule env r s)) = ab_rules (al_db s)" (is ?rules)
    and "sent_notices (eval_rule env r s) = sent_notices s @ notice env r (has_open (al_db s) (rl_ID r))" (is ?notes)
proof -
  have "?opens \<and> ?rules \<and> ?notes"
  proof (cases "verdict env r")
    case None
    then have "eval_rule env r s = s" by (auto simp: verdict_def eval_rule_def split: option.splits if_splits)
    then show ?thesis using None by (simp add: open_after_def notice_def)
  next
    case (Some v)
    then obtain pts where pts: "rule_points env r = Some pts" "pts \<noteq> []" "v = all_satisfy env r pts"
      by (auto simp: verdict_def split: option.splits if_splits)
    obtain a where a: "GetActiveAlert (le_sql env) (rl_ID r) (al_db s) = Inr a"
      using assms(3) by (simp add: GetActiveAlert_def sql_never_fails_def)
    note ga = GetActiveAlert_cases [OF a]
    have e: "eval_rule env r s = (case (v, a) of (True, None) \<Rightarrow> fire env r (average env r pts) s
        | (False, Some h) \<Rightarrow> resolve env r (average env r pts) h s | _ \<Rightarrow> s)"
      using pts a by (simp add: eval_rule_def)
    show ?thesis
    proof (cases a)
      case None
      then show ?thesis using e ga(1) Some fire_effect [OF assms, of "average env r pts"]
        by (cases v) (auto simp: open_after_def notice_def)
    next
      case (Some h)
      then show ?thesis using e ga \<open>verdict env r = Some v\<close> resolve_effect [OF assms, of h "average env r pts"]
        by (cases v) (auto simp: open_after_def notice_def)
    qed
  qed
  then show ?opens ?rules ?notes by blast+
qed

lemma find_SomeD:
  assumes "find P xs = Some x"
  shows "x \<in> set xs" "P x"
  using assms by (induction xs) (auto split: if_splits)

lemma eval_rules_effect:
  assumes "alert_ok (al_db s)" "set rs \<subseteq> set (ab_rules (al_db s))" "distinct (map rl_ID rs)" "sql_never_fails env"
  shows "(\<forall>i. has_open (al_db (fold (eval_rule env) rs s)) i \<longleftrightarrow>
      (case find (\<lambda>r. rl_ID r = i) rs of None \<Rightarrow> has_open (al_db s) i | Some r \<Rightarrow> open_after env r (has_open (al_db s) i))) \<and>
    ab_rules (al_db (fold (eval_rule env) rs s)) = ab_rules (al_db s) \<and>
    sent_notices (fold (eval_rule env) rs s) = sent_notices s @ concat (map (\<lambda>r. notice env r (has_open (al_db s) (rl_ID r))) rs)"
  using assms
proof (induction rs arbitrary: s)
  case (Cons r rs)
  let ?s = "eval_rule env r s"
  have r: "r \<in> set (ab_rules (al_db s))" using Cons.prems(2) by simp
  note eff = eval_rule_effect [OF Cons.prems(1) r Cons.prems(4)]
  have later: "rl_ID x \<noteq> rl_ID r" if "x \<in> set rs" for x using Cons.prems(3) that by simp (metis imageI)
  then have same: "has_open (al_db ?s) (rl_ID x) = has_open (al_db s) (rl_ID x)" if "x \<in> set rs" for x
    using that eff(1) by simp
  have "find (\<lambda>x. rl_ID x = rl_ID r) rs = None" using later by (auto simp: find_None_iff)
  moreover have "concat (map (\<lambda>x. notice env x (has_open (al_db ?s) (rl_ID x))) rs) =
      concat (map (\<lambda>x. notice env x (has_open (al_db s) (rl_ID x))) rs)"
    using same by (simp cong: map_cong)
  moreover note Cons.IH [of ?s]
  ultimately show ?case
    using Cons.prems eff eval_rule_ok [OF Cons.prems(1)] by (auto split: option.splits)
qed simp

lemma evaluate_effect:
  assumes "alert_ok (al_db s)" "sql_never_fails env" "EvaluateOnce env s = (err, s')"
  shows "err = None \<and> ab_rules (al_db s') = ab_rules (al_db s) \<and>
    (\<forall>r \<in> set (ab_rules (al_db s)).
       has_open (al_db s') (rl_ID r) \<longleftrightarrow>
         (if rl_Enabled r then open_after env r (has_open (al_db s) (rl_ID r)) else has_open (al_db s) (rl_ID r))) \<and>
    sent_notices s' = sent_notices s @
      concat (map (\<lambda>r. notice env r (has_open (al_db s) (rl_ID r))) (sort_by rule_less (filter rl_Enabled (ab_rules (al_db s)))))"
proof -
  let ?rs = "sort_by rule_less (filter rl_Enabled (ab_rules (al_db s)))"
  have dist: "distinct (map rl_ID (ab_rules (al_db s)))" using assms(1) by (simp add: alert_ok_def rules_ok_def)
  have e: "err = None" "s' = fold (eval_rule env) ?rs s"
    using assms(2,3) by (simp_all add: EvaluateOnce_def ListActiveAlertRules_def sql_never_fails_def)
  have "distinct (map rl_ID ?rs)" using dist by (simp add: distinct_map inj_on_def)
  then have eff: "(\<forall>i. has_open (al_db s') i \<longleftrightarrow>
      (case find (\<lambda>r. rl_ID r = i) ?rs of None \<Rightarrow> has_open (al_db s) i | Some r \<Rightarrow> open_after env r (has_open (al_db s) i)))"
    "ab_rules (al_db s') = ab_rules (al_db s)"
    "sent_notices s' = sent_notices s @ concat (map (\<lambda>r. notice env r (has_open (al_db s) (rl_ID r))) ?rs)"
    using eval_rules_effect [OF assms(1) _ _ assms(2), of ?rs] e(2) by auto
  have "find (\<lambda>x. rl_ID x = rl_ID r) ?rs = (if rl_Enabled r then Some r else None)" if "r \<in> set (ab_rules (al_db s))" for r
  proof (cases "find (\<lambda>x. rl_ID x = rl_ID r) ?rs")
    case None
    then have "r \<notin> set ?rs" by (auto simp: find_None_iff)
    then show ?thesis using None that by simp
  next
    case (Some x)
    note x = find_SomeD [OF Some]
    then have "x = r" using that dist by (auto simp: distinct_map inj_on_def)
    then have "rl_Enabled r" using x(1) by simp
    then show ?thesis using Some \<open>x = r\<close> by simp
  qed
  then show ?thesis using e(1) eff by simp
qed

text \<open>
  What the documentation says a rule is judged by: the points that fall into its duration before now, the clock of a
  point being whole seconds, and whether the observed value stands in the rule's relation to its threshold.
\<close>

definition observed :: "alert_env \<Rightarrow> string \<Rightarrow> metric_point \<Rightarrow> float64" where
  "observed env metric p =
     (if metric = ''cpu_pct'' then mp_CPUPct p
      else if metric = ''mem_bytes'' then le_of_int env (mp_MemBytes p)
      else if mp_MemLimit p = 0 then f_zero else le_ratio env (mp_MemBytes p) (mp_MemLimit p))"

definition stands :: "alert_env \<Rightarrow> AlertRule \<Rightarrow> metric_point \<Rightarrow> bool" where
  "stands env r p \<longleftrightarrow>
     (let v = observed env (rl_Metric r) p; t = rl_Threshold r; op = rl_Operator r in
      op = ''>'' \<and> f_lt t v \<or> op = ''>='' \<and> f_le t v \<or> op = ''<'' \<and> f_lt v t \<or> op = ''<='' \<and> f_le v t)"

definition rule_start :: "alert_env \<Rightarrow> AlertRule \<Rightarrow> instant" where
  "rule_start env r = sql_now (le_sql env) - rl_DurationSec r * time_second"

definition recent_points :: "alert_env \<Rightarrow> AlertRule \<Rightarrow> metric_point set" where
  "recent_points env r =
     {p \<in> set (case le_metrics env (rl_AppID r) of None \<Rightarrow> [] | Some pts \<Rightarrow> pts). rule_start env r < (mp_Ts p + 1) * time_second}"

text \<open>The rule held for its whole duration: the points reach back to its start, and it holds at each one since.\<close>

definition held_throughout :: "alert_env \<Rightarrow> AlertRule \<Rightarrow> bool" where
  "held_throughout env r \<longleftrightarrow>
     (\<exists>pts. le_metrics env (rl_AppID r) = Some pts \<and> (\<exists>p \<in> set pts. mp_Ts p * time_second \<le> rule_start env r)) \<and>
     recent_points env r \<noteq> {} \<and> (\<forall>p \<in> recent_points env r. stands env r p)"

definition measured_rule :: "AlertRule \<Rightarrow> bool" where
  "measured_rule r \<longleftrightarrow> rl_Metric r \<in> {''cpu_pct'', ''mem_pct'', ''mem_bytes''} \<and> 0 \<le> rl_DurationSec r \<and> rl_DurationSec r \<le> 9000000000"

text \<open>The notification of a rule by its open alert before and after.\<close>

definition change_notice :: "AlertRule \<Rightarrow> bool \<Rightarrow> bool \<Rightarrow> (int \<times> string \<times> string) list" where
  "change_notice r was is =
     (if was = is then [] else [(rl_WebhookID r, rl_Metric r, if is then ''firing'' else ''resolved'')])"

lemma cutoff_start:
  assumes "measured_rule r"
  shows "cutoff env r \<le> t \<longleftrightarrow> rule_start env r < (t + 1) * time_second"
proof -
  have c: "cutoff env r = rule_start env r div time_second"
    using assms by (simp add: cutoff_def rule_start_def alert_now_def measured_rule_def wrap64_id min_i64_def max_i64_def time_second_def)
  have "x div time_second \<le> t \<longleftrightarrow> x < (t + 1) * time_second" for x :: int
    using div_mult_mod_eq [of x time_second] pos_mod_bound [of time_second x] pos_mod_sign [of time_second x]
    by (auto simp: time_second_def)
  then show ?thesis using c by simp
qed

lemma verdict_measured:
  assumes "measured_rule r" "operator_ok (rl_Operator r)"
  shows "verdict env r = (if recent_points env r = {} then None else Some (\<forall>p \<in> recent_points env r. stands env r p))"
proof -
  have "checkCondition (extractMetricValue env p (rl_Metric r)) (rl_Operator r) (rl_Threshold r) = stands env r p" for p
    using assms by (auto simp: measured_rule_def operator_ok_def checkCondition_def extractMetricValue_def stands_def observed_def Let_def)
  then show ?thesis
    using cutoff_start [OF assms(1), of env]
    by (auto simp: verdict_def rule_points_def recent_points_def all_satisfy_def list_all_iff filter_empty_conv split: option.splits)
qed



lemma demo_alerts_ok: "alert_ok (al_db (alert_st demo_alerts))"
  by (simp add: alert_st_def demo_alerts_eq no_alerts_def alert_ok_def webhooks_ok_def rules_ok_def rows_ok_def alert_ids
      webhook_type_ok_def demo_webhook_def demo_rule_def operator_ok_def)

lemma demo_verdict: "verdict (demo_alert_env f_90) demo_rule = Some True"
  by (simp add: verdict_def demo_points demo_satisfied)

lemma demo_eval_facts:
  "sql_never_fails (demo_alert_env f_90)" "ab_rules (al_db (alert_st demo_alerts)) = [demo_rule]" "rl_Enabled demo_rule"
  "\<not> has_open (al_db (alert_st demo_alerts)) 1" "sent_notices (alert_st demo_alerts) = []" "rl_Metric demo_rule = ''cpu_pct''"
  by (simp_all add: sql_never_fails_def calm_sql_def alert_st_def demo_alerts_eq no_alerts_def demo_rule_def has_open_def sent_notices_def)

text \<open>The processor is at 90 percent, and was six minutes ago.\<close>

definition steady_env :: "float64 \<Rightarrow> alert_env" where
  "steady_env cpu = (demo_alert_env cpu)\<lparr>le_metrics :=
     \<lambda>a. Some [\<lparr>mp_CPUPct = cpu, mp_MemBytes = 0, mp_MemLimit = 0, mp_Ts = - 360\<rparr>,
               \<lparr>mp_CPUPct = cpu, mp_MemBytes = 0, mp_MemLimit = 0, mp_Ts = 0\<rparr>]\<rparr>"

lemma steady_env_sql: "sql_never_fails (steady_env c)"
  by (simp add: sql_never_fails_def steady_env_def demo_alert_env_def calm_sql_def)

lemma steady_held: "held_throughout (steady_env f_90) demo_rule"
proof -
  have "rule_start (steady_env f_90) demo_rule = - 300000000000"
    by (simp add: rule_start_def steady_env_def demo_rule_def calm_sql_def time_second_def)
  moreover have "recent_points (steady_env f_90) demo_rule = {\<lparr>mp_CPUPct = f_90, mp_MemBytes = 0, mp_MemLimit = 0, mp_Ts = 0\<rparr>}"
    using calculation by (auto simp: recent_points_def steady_env_def time_second_def)
  moreover have "stands (steady_env f_90) demo_rule \<lparr>mp_CPUPct = f_90, mp_MemBytes = 0, mp_MemLimit = 0, mp_Ts = 0\<rparr>"
    by (simp add: stands_def observed_def demo_rule_def f_lt_def f_nan_def f_key_def f_mag_def f_80_def f_90_def)
  ultimately show ?thesis
    by (simp add: held_throughout_def steady_env_def time_second_def)
qed


subsection \<open>Where the documentation differs\<close>

text \<open>One point in a window of five minutes is enough: no time has to pass before a rule fires.\<close>

lemma one_point_fires:
  "rl_DurationSec demo_rule = 300 \<and> map_option length (le_metrics (demo_alert_env f_90) None) = Some 1 \<and>
   verdict (demo_alert_env f_90) demo_rule = Some True"
  by (simp add: demo_verdict) (simp add: demo_rule_def demo_alert_env_def)

text \<open>A rule for backup events is evaluated too, with the value zero.\<close>

lemma backup_rule_fires:
  assumes "rl_Metric r \<in> {''backup_failed'', ''backup_success'', ''backup_missed'', ''backup_all''}"
    "rl_Operator r = ''>=''" "rl_Threshold r = f_zero" "rule_points env r = Some pts" "pts \<noteq> []"
  shows "verdict env r = Some True"
  using assms
  by (auto simp: verdict_def all_satisfy_def checkCondition_def extractMetricValue_def f_le_def f_zero_def f_nan_def f_mag_def list_all_iff)

text \<open>A change of a rule is written over the snapshot in its open rows.\<close>

lemma update_rewrites_history:
  assumes "UpdateAlertRule e r d = (None, d')" "\<not> sql_fails e ''UpdateAlertHistory''" "h \<in> set (ab_history d')" "is_open (rl_ID r) h"
  shows "hi_Threshold h = rl_Threshold r \<and> hi_Metric h = rl_Metric r \<and> hi_Operator h = rl_Operator r"
  using assms
  by (auto simp: UpdateAlertRule_def Let_def map_history_def snapshot_row_def is_open_def split: if_splits)

text \<open>Deleting a webhook deletes its rules, and what they had open stays open for good: no operation finds the row by a rule again.\<close>

lemma drop_rules_row:
  assumes "h \<in> set (ab_history d)" "hi_RuleID h = Some j" "j \<in> set (map rl_ID (filter p (ab_rules d)))"
  shows "h\<lparr>hi_RuleID := None\<rparr> \<in> set (ab_history (drop_rules p d))"
proof -
  let ?f = "\<lambda>h. case hi_RuleID h of Some i \<Rightarrow> if i \<in> set (map rl_ID (filter p (ab_rules d))) then h\<lparr>hi_RuleID := None\<rparr> else h | None \<Rightarrow> h"
  have f: "?f h = h\<lparr>hi_RuleID := None\<rparr>" by (simp only: assms(2,3) option.case if_True)
  have "?f h \<in> ?f ` set (ab_history d)" using assms(1) by (rule imageI)
  then have "h\<lparr>hi_RuleID := None\<rparr> \<in> ?f ` set (ab_history d)" unfolding f .
  moreover have "ab_history (drop_rules p d) = map ?f (ab_history d)" by (simp add: drop_rules_def Let_def)
  ultimately show ?thesis by (simp only: set_map)
qed

lemma WipeConfig_keeps_history:
  assumes "\<not> sql_fails e ''WipeConfigForRestore''" "h \<in> set (ab_history d)" "hi_RuleID h = Some i" "i \<in> rule_ids d"
  shows "h\<lparr>hi_RuleID := None\<rparr> \<in> set (ab_history (snd (alerts_WipeConfig e d)))"
  using drop_rules_row [OF assms(2,3), of "\<lambda>_. True"] assms(1,4) by (simp add: alerts_WipeConfig_def rule_ids_def)

lemma deleted_webhook_leaves_open:
  assumes "DeleteWebhook e i d = (None, d')" "r \<in> set (ab_rules d)" "rl_WebhookID r = i" "h \<in> set (ab_history d)" "is_open (rl_ID r) h"
  shows "h\<lparr>hi_RuleID := None\<rparr> \<in> set (ab_history d') \<and> hi_ResolvedAt h = None"
proof -
  have "hi_RuleID h = Some (rl_ID r)" "hi_ResolvedAt h = None" using assms(5) by (simp_all add: is_open_def)
  moreover have "rl_ID r \<in> set (map rl_ID (filter (\<lambda>r. rl_WebhookID r = i) (ab_rules d)))" using assms(2,3) by simp
  moreover have "d' = drop_rules (\<lambda>r. rl_WebhookID r = i) (d\<lparr>ab_webhooks := filter (\<lambda>w. wh_ID w \<noteq> i) (ab_webhooks d)\<rparr>)"
    using assms(1) by (simp add: DeleteWebhook_def split: if_splits)
  ultimately show ?thesis using drop_rules_row assms(4) by simp
qed

end
